(* ===== verification/Prelude.thy ===== *)
theory Prelude
  imports Main "HOL-Library.Word" "HOL-Library.Code_Target_Numeral" "HOL-Library.Signed_Division"
begin

text \<open>
  Shared vocabulary of the development.

  \<^item> \<open>res\<close>: the three ways a Rust call ends here.  \<open>Ok\<close> and \<open>Err\<close> are the two constructors of
    \<open>Result\<close>; \<open>Panic\<close> is a panicking call (a failed \<open>expect\<close>, or an arithmetic overflow: the
    workspace's release profile sets \<open>overflow-checks = true\<close>, so \<open>+\<close> on a machine integer that
    overflows panics in every profile).
  \<^item> machine integers are \<open>w word\<close>; the checked, saturating and panicking operations of the
    standard library are written out over \<open>unat\<close> and \<open>sint\<close>.
  \<^item> \<open>invariant_machine\<close>: the interface between a component's operations and the runs a
    client builds from them.  Each stateful component interprets it on its own step function.
\<close>

section \<open>Results\<close>

datatype ('e, 'a) res = Ok 'a | Err 'e | Panic

fun res_bind :: "('e, 'a) res \<Rightarrow> ('a \<Rightarrow> ('e, 'b) res) \<Rightarrow> ('e, 'b) res" where
  "res_bind (Ok x) f = f x"
| "res_bind (Err e) f = Err e"
| "res_bind Panic f = Panic"

fun ok_or :: "'e \<Rightarrow> 'a option \<Rightarrow> ('e, 'a) res" where
  "ok_or e (Some x) = Ok x"
| "ok_or e None = Err e"

fun expect :: "'a option \<Rightarrow> ('e, 'a) res" where
  "expect (Some x) = Ok x"
| "expect None = Panic"

fun is_ok :: "('e, 'a) res \<Rightarrow> bool" where
  "is_ok (Ok x) = True"
| "is_ok (Err e) = False"
| "is_ok Panic = False"

named_theorems res_iff \<open>when a composed result is \<open>Ok\<close>, \<open>Err\<close> or \<open>Panic\<close>\<close>

lemma res_bind_Ok_iff [res_iff]: "res_bind m f = Ok y \<longleftrightarrow> (\<exists>x. m = Ok x \<and> f x = Ok y)"
  by (cases m) auto

lemma res_bind_Err_iff [res_iff]:
  "res_bind m f = Err e \<longleftrightarrow> m = Err e \<or> (\<exists>x. m = Ok x \<and> f x = Err e)"
  by (cases m) auto

lemma res_bind_Panic_iff [res_iff]:
  "res_bind m f = Panic \<longleftrightarrow> m = Panic \<or> (\<exists>x. m = Ok x \<and> f x = Panic)"
  by (cases m) auto

lemma ok_or_Ok_iff [res_iff]: "ok_or e m = Ok x \<longleftrightarrow> m = Some x"
  by (cases m) auto

lemma ok_or_Err_iff [res_iff]: "ok_or e m = Err e' \<longleftrightarrow> m = None \<and> e' = e"
  by (cases m) auto

lemma ok_or_not_Panic [simp]: "ok_or e m \<noteq> Panic"
  by (cases m) auto

lemma expect_Ok_iff [res_iff]: "expect m = Ok x \<longleftrightarrow> m = Some x"
  by (cases m) auto

lemma expect_Err_iff [simp]: "expect m \<noteq> Err e"
  by (cases m) auto

lemma expect_Panic_iff [res_iff]: "expect m = Panic \<longleftrightarrow> m = None"
  by (cases m) auto

lemma is_ok_iff: "is_ok r \<longleftrightarrow> (\<exists>x. r = Ok x)"
  by (cases r) auto

section \<open>Machine integers\<close>

type_synonym u8 = "8 word"
type_synonym u32 = "32 word"
type_synonym u64 = "64 word"
type_synonym i32 = "32 word"
type_synonym i64 = "64 word"

definition u_checked_add :: "'a::len word \<Rightarrow> 'a word \<Rightarrow> 'a word option" where
  "u_checked_add a b = (if unat a + unat b < 2 ^ LENGTH('a) then Some (a + b) else None)"

definition u_checked_sub :: "'a::len word \<Rightarrow> 'a word \<Rightarrow> 'a word option" where
  "u_checked_sub a b = (if b \<le> a then Some (a - b) else None)"

definition u_checked_mul :: "'a::len word \<Rightarrow> 'a word \<Rightarrow> 'a word option" where
  "u_checked_mul a b = (if unat a * unat b < 2 ^ LENGTH('a) then Some (a * b) else None)"

definition u_checked_div :: "'a::len word \<Rightarrow> 'a word \<Rightarrow> 'a word option" where
  "u_checked_div a b = (if b = 0 then None else Some (a div b))"

definition u_checked_rem :: "'a::len word \<Rightarrow> 'a word \<Rightarrow> 'a word option" where
  "u_checked_rem a b = (if b = 0 then None else Some (a mod b))"

definition u_saturating_add :: "'a::len word \<Rightarrow> 'a word \<Rightarrow> 'a word" where
  "u_saturating_add a b = (if unat a + unat b < 2 ^ LENGTH('a) then a + b else - 1)"

definition u_saturating_sub :: "'a::len word \<Rightarrow> 'a word \<Rightarrow> 'a word" where
  "u_saturating_sub a b = (if b \<le> a then a - b else 0)"

definition u_saturating_mul :: "'a::len word \<Rightarrow> 'a word \<Rightarrow> 'a word" where
  "u_saturating_mul a b = (if unat a * unat b < 2 ^ LENGTH('a) then a * b else - 1)"

text \<open>The plain operators under \<open>overflow-checks\<close>: the value or a panic.\<close>

definition u_add :: "'a::len word \<Rightarrow> 'a word \<Rightarrow> ('e, 'a word) res" where
  "u_add a b = expect (u_checked_add a b)"

definition u_mul :: "'a::len word \<Rightarrow> 'a word \<Rightarrow> ('e, 'a word) res" where
  "u_mul a b = expect (u_checked_mul a b)"

definition u_sub :: "'a::len word \<Rightarrow> 'a word \<Rightarrow> ('e, 'a word) res" where
  "u_sub a b = expect (u_checked_sub a b)"

definition s_in_range :: "'a::len itself \<Rightarrow> int \<Rightarrow> bool" where
  "s_in_range t r \<longleftrightarrow> - (2 ^ (LENGTH('a) - 1)) \<le> r \<and> r < 2 ^ (LENGTH('a) - 1)"

definition s_checked_add :: "'a::len word \<Rightarrow> 'a word \<Rightarrow> 'a word option" where
  "s_checked_add a b = (if s_in_range TYPE('a) (sint a + sint b) then Some (a + b) else None)"

definition s_checked_sub :: "'a::len word \<Rightarrow> 'a word \<Rightarrow> 'a word option" where
  "s_checked_sub a b = (if s_in_range TYPE('a) (sint a - sint b) then Some (a - b) else None)"

definition s_checked_mul :: "'a::len word \<Rightarrow> 'a word \<Rightarrow> 'a word option" where
  "s_checked_mul a b = (if s_in_range TYPE('a) (sint a * sint b) then Some (a * b) else None)"

text \<open>\<open>i64::MIN\<close> and the truncating division and remainder of the signed types.\<close>

definition s_min :: "'a::len word" where
  "s_min = word_of_int (- (2 ^ (LENGTH('a) - 1)))"

definition s_div :: "'a::len word \<Rightarrow> 'a word \<Rightarrow> 'a word" where
  "s_div a b = word_of_int (sint a sdiv sint b)"

definition s_rem :: "'a::len word \<Rightarrow> 'a word \<Rightarrow> 'a word" where
  "s_rem a b = word_of_int (sint a smod sint b)"

lemma sint_in_range: "s_in_range TYPE('a) (sint (a :: 'a::len word))"
  using sint_greater_eq[of a] sint_less[of a] by (simp add: s_in_range_def)

lemma sint_word_of_int_in_range:
  "s_in_range TYPE('a) r \<Longrightarrow> sint (word_of_int r :: 'a::len word) = r"
  by (simp add: s_in_range_def signed_take_bit_int_eq_self sint_sbintrunc')

lemma s_checked_add_Some:
  assumes "s_checked_add a b = Some c"
  shows "sint c = sint a + sint b"
proof -
  from assms have r: "s_in_range TYPE('a) (sint a + sint b)" and c: "c = a + b"
    by (auto simp: s_checked_add_def split: if_splits)
  have "a + b = word_of_int (sint a) + word_of_int (sint b)" by simp
  also have "\<dots> = word_of_int (sint a + sint b)" by (rule wi_hom_add)
  finally have "a + b = word_of_int (sint a + sint b)" .
  with c have "sint c = sint (word_of_int (sint a + sint b) :: 'a word)" by (simp only:)
  then show ?thesis by (simp only: sint_word_of_int_in_range[OF r])
qed

lemma s_checked_sub_Some:
  assumes "s_checked_sub a b = Some c"
  shows "sint c = sint a - sint b"
proof -
  from assms have r: "s_in_range TYPE('a) (sint a - sint b)" and c: "c = a - b"
    by (auto simp: s_checked_sub_def split: if_splits)
  have "a - b = word_of_int (sint a) - word_of_int (sint b)" by simp
  also have "\<dots> = word_of_int (sint a - sint b)" by (rule wi_hom_sub)
  finally have "a - b = word_of_int (sint a - sint b)" .
  with c have "sint c = sint (word_of_int (sint a - sint b) :: 'a word)" by (simp only:)
  then show ?thesis by (simp only: sint_word_of_int_in_range[OF r])
qed

lemma s_checked_mul_Some:
  assumes "s_checked_mul a b = Some c"
  shows "sint c = sint a * sint b"
proof -
  from assms have r: "s_in_range TYPE('a) (sint a * sint b)" and c: "c = a * b"
    by (auto simp: s_checked_mul_def split: if_splits)
  have "a * b = word_of_int (sint a) * word_of_int (sint b)" by simp
  also have "\<dots> = word_of_int (sint a * sint b)" by (rule wi_hom_mult)
  finally have "a * b = word_of_int (sint a * sint b)" .
  with c have "sint c = sint (word_of_int (sint a * sint b) :: 'a word)" by (simp only:)
  then show ?thesis by (simp only: sint_word_of_int_in_range[OF r])
qed

lemma u_checked_add_Some: "u_checked_add a b = Some c \<Longrightarrow> unat c = unat a + unat b"
  by (auto simp: u_checked_add_def unat_word_ariths split: if_splits)

lemma u_checked_mul_Some: "u_checked_mul a b = Some c \<Longrightarrow> unat c = unat a * unat b"
  by (auto simp: u_checked_mul_def unat_word_ariths split: if_splits)

lemma u_checked_sub_Some: "u_checked_sub a b = Some c \<Longrightarrow> unat c = unat a - unat b \<and> b \<le> a"
  by (auto simp: u_checked_sub_def unat_sub split: if_splits)

lemma unat_max_word: "unat (- 1 :: 'a::len word) = 2 ^ LENGTH('a) - 1"
  by (simp add: unat_eq_nat_uint unsigned_minus_1_eq_mask mask_eq_exp_minus_1 nat_diff_distrib nat_power_eq)

lemma unat_u_saturating_add:
  "unat (u_saturating_add a b) = min (2 ^ LENGTH('a) - 1) (unat a + unat (b :: 'a::len word))"
  by (auto simp: u_saturating_add_def unat_word_ariths unat_max_word)

lemma unat_u_saturating_mul:
  "unat (u_saturating_mul a b) = min (2 ^ LENGTH('a) - 1) (unat a * unat (b :: 'a::len word))"
  by (auto simp: u_saturating_mul_def unat_word_ariths unat_max_word)

lemma unat_u_saturating_sub:
  "unat (u_saturating_sub a b) = unat a - unat b"
  by (auto simp: u_saturating_sub_def unat_sub word_le_nat_alt)

lemma u_add_Ok_iff [res_iff]:
  "u_add a b = Ok c \<longleftrightarrow> c = a + b \<and> unat a + unat b < 2 ^ LENGTH('a)" for a :: "'a::len word"
  by (auto simp: u_add_def u_checked_add_def)

lemma u_add_not_Err [simp]: "u_add a b \<noteq> Err e"
  by (simp add: u_add_def)

lemma unat_word_of_nat: "n < 2 ^ LENGTH('a) \<Longrightarrow> unat (word_of_nat n :: 'a::len word) = n"
  by (simp add: unat_of_nat take_bit_nat_eq_self)

lemma word_less_Suc: "c \<noteq> - 1 \<Longrightarrow> c < c + 1" for c :: "'a::len word"
proof -
  assume "c \<noteq> - 1"
  then have "1 + c \<noteq> 0" by (metis add.commute add_eq_0_iff)
  then have "unat (1 + c) = Suc (unat c)" by (rule unatSuc)
  then show ?thesis by (simp add: word_less_nat_alt add.commute)
qed

section \<open>Runs of a state machine\<close>

text \<open>
  The contract between a component and its clients: every operation keeps the invariant.  What a
  client gets from it is proved once, here, for any list of operations in any order.
\<close>

locale invariant_machine =
  fixes step :: "'s \<Rightarrow> 'o \<Rightarrow> 's"
    and inv :: "'s \<Rightarrow> bool"
  assumes inv_step: "inv s \<Longrightarrow> inv (step s x)"
begin

lemma inv_run: "inv s \<Longrightarrow> inv (foldl step s xs)"
  by (induction xs arbitrary: s) (auto intro: inv_step)

lemma inv_run_prefix: "inv s \<Longrightarrow> inv (foldl step s (take n xs))"
  by (rule inv_run)

end

text \<open>A machine whose steps never lower a ranking has runs that never lower it.\<close>

locale monotone_machine =
  fixes step :: "'s \<Rightarrow> 'o \<Rightarrow> 's"
    and rel :: "'s \<Rightarrow> 's \<Rightarrow> bool"
  assumes rel_refl: "rel s s"
    and rel_trans: "rel s t \<Longrightarrow> rel t u \<Longrightarrow> rel s u"
    and rel_step: "rel s (step s x)"
begin

lemma rel_run: "rel s (foldl step s xs)"
proof (induction xs arbitrary: s)
  case Nil
  show ?case by (simp add: rel_refl)
next
  case (Cons x xs)
  show ?case
    using rel_trans[OF rel_step[of s x] Cons.IH[of "step s x"]] by simp
qed

end

section \<open>Lists\<close>

lemma find_Some_iff':
  "List.find P xs = Some x \<longleftrightarrow> (\<exists>ys zs. xs = ys @ x # zs \<and> P x \<and> (\<forall>y\<in>set ys. \<not> P y))"
proof (induction xs)
  case Nil
  then show ?case by simp
next
  case (Cons a xs)
  show ?case
  proof (cases "P a")
    case True
    then show ?thesis
      by (auto simp: Cons_eq_append_conv)
  next
    case False
    with Cons show ?thesis
      by (auto simp: Cons_eq_append_conv) (metis append_Cons set_ConsD)
  qed
qed

lemma find_SomeD: "List.find P xs = Some x \<Longrightarrow> x \<in> set xs \<and> P x"
  by (auto simp: find_Some_iff')

lemma find_None_iff': "List.find P xs = None \<longleftrightarrow> (\<forall>x\<in>set xs. \<not> P x)"
  by (auto simp: find_None_iff)

end
