(* ===== verification/Text.thy ===== *)
theory Text
  imports Prelude "HOL-Library.Char_ord" "HOL-Library.List_Lexorder"
begin

text \<open>
  Rust text.  A \<open>String\<close> or \<open>&str\<close> is its UTF-8 bytes, a HOL \<open>string\<close>: \<open>len()\<close> is \<open>length\<close>,
  a byte slice \<open>&s[a..b]\<close> is \<open>slice a b s\<close>, and the derived order of strings is the byte-wise
  lexicographic order of \<open>List_Lexorder\<close> over \<open>Char_ord\<close>.  A Rust \<open>char\<close> is its Unicode scalar
  value, a \<open>nat\<close>; \<open>decode_first\<close> is \<open>chars().next()\<close> and \<open>encode_utf8\<close> is what \<open>String::push\<close>
  appends.  Number parsing and printing follow \<open>str::parse\<close> and \<open>Display\<close>.
\<close>

section \<open>UTF-8\<close>

type_synonym rchar = nat

definition is_scalar :: "rchar \<Rightarrow> bool" where
  "is_scalar c \<longleftrightarrow> c < 0xD800 \<or> (0xE000 \<le> c \<and> c < 0x110000)"

definition len_utf8 :: "rchar \<Rightarrow> nat" where
  "len_utf8 c = (if c < 0x80 then 1 else if c < 0x800 then 2 else if c < 0x10000 then 3 else 4)"

definition encode_utf8 :: "rchar \<Rightarrow> string" where
  "encode_utf8 c =
     (if c < 0x80 then [char_of c]
      else if c < 0x800 then [char_of (0xC0 + c div 64), char_of (0x80 + c mod 64)]
      else if c < 0x10000 then
        [char_of (0xE0 + c div 4096), char_of (0x80 + c div 64 mod 64), char_of (0x80 + c mod 64)]
      else
        [char_of (0xF0 + c div 262144), char_of (0x80 + c div 4096 mod 64),
         char_of (0x80 + c div 64 mod 64), char_of (0x80 + c mod 64)])"

definition cont_byte :: "string \<Rightarrow> nat \<Rightarrow> nat" where
  "cont_byte s i = (if i < length s then of_char (s ! i) mod 64 else 0)"

text \<open>The first scalar of the text and the number of bytes it occupies.\<close>

definition decode_first :: "string \<Rightarrow> (rchar \<times> nat) option" where
  "decode_first s =
     (case s of [] \<Rightarrow> None
      | b # _ \<Rightarrow>
        let n = of_char b in
        Some (if n < 0x80 then (n, 1)
              else if n < 0xE0 then ((n mod 32) * 64 + cont_byte s 1, 2)
              else if n < 0xF0 then ((n mod 16) * 4096 + cont_byte s 1 * 64 + cont_byte s 2, 3)
              else ((n mod 8) * 262144 + cont_byte s 1 * 4096 + cont_byte s 2 * 64
                    + cont_byte s 3, 4)))"

definition utf8 :: "rchar list \<Rightarrow> string" where
  "utf8 cs = concat (map encode_utf8 cs)"

lemma utf8_Nil [simp]: "utf8 [] = []"
  by (simp add: utf8_def)

lemma utf8_Cons [simp]: "utf8 (c # cs) = encode_utf8 c @ utf8 cs"
  by (simp add: utf8_def)

lemma utf8_append [simp]: "utf8 (cs @ ds) = utf8 cs @ utf8 ds"
  by (simp add: utf8_def)

lemma length_encode_utf8 [simp]: "length (encode_utf8 c) = len_utf8 c"
  by (simp add: encode_utf8_def len_utf8_def)

lemma len_utf8_pos: "0 < len_utf8 c"
  by (simp add: len_utf8_def)

lemma len_utf8_ne_0: "len_utf8 c \<noteq> 0"
  by (simp add: len_utf8_def)

lemma encode_utf8_ascii: "c < 0x80 \<Longrightarrow> encode_utf8 c = [char_of c]"
  by (simp add: encode_utf8_def)

lemma encode_utf8_nonempty [simp]: "encode_utf8 c \<noteq> []"
  by (simp add: encode_utf8_def)

lemma decode_first_None [simp]: "decode_first s = None \<longleftrightarrow> s = []"
  by (auto simp: decode_first_def Let_def split: list.splits)

lemma decode_first_pos: "decode_first s = Some (c, n) \<Longrightarrow> 0 < n"
  by (auto simp: decode_first_def Let_def split: list.splits if_splits)

lemma decode_first_ascii:
  "of_char b < (0x80 :: nat) \<Longrightarrow> decode_first (b # s) = Some (of_char b, 1)"
  by (simp add: decode_first_def)

lemma of_char_char_of: "(of_char (char_of n :: char) :: nat) = n mod 256"
  by simp

lemma split_base64:
  fixes c :: nat
  shows "c = c div 64 * 64 + c mod 64"
    and "c = c div 4096 * 4096 + c div 64 mod 64 * 64 + c mod 64"
    and "c = c div 262144 * 262144 + c div 4096 mod 64 * 4096 + c div 64 mod 64 * 64 + c mod 64"
proof -
  have a: "c = c div 64 * 64 + c mod 64" by simp
  have b: "c div 64 = c div 4096 * 64 + c div 64 mod 64"
    using div_mult_mod_eq[of "c div 64" 64] by (simp add: div_mult2_eq[symmetric])
  have d: "c div 4096 = c div 262144 * 64 + c div 4096 mod 64"
    using div_mult_mod_eq[of "c div 4096" 64] by (simp add: div_mult2_eq[symmetric])
  show "c = c div 64 * 64 + c mod 64" by (rule a)
  show "c = c div 4096 * 4096 + c div 64 mod 64 * 64 + c mod 64"
    using a b by linarith
  show "c = c div 262144 * 262144 + c div 4096 mod 64 * 4096 + c div 64 mod 64 * 64 + c mod 64"
    using a b d by linarith
qed

lemma mult_add_mod: "x < n \<Longrightarrow> (k * n + x) mod n = x" for x :: nat
  by simp

lemma cont_byte_char_of [simp]:
  "i < length s \<Longrightarrow> s ! i = char_of (0x80 + x mod 64) \<Longrightarrow> cont_byte s i = x mod 64" for x :: nat
proof -
  assume "i < length s" "s ! i = char_of (0x80 + x mod 64)"
  moreover have "(0x80 + x mod 64) mod 256 mod 64 = x mod 64"
  proof -
    have "x mod 64 < 64" by simp
    then show ?thesis using mult_add_mod[of "x mod 64" 64 2] by simp
  qed
  ultimately show ?thesis by (simp add: cont_byte_def)
qed

lemma decode_encode_utf8:
  assumes "is_scalar c"
  shows "decode_first (encode_utf8 c @ s) = Some (c, len_utf8 c)"
proof -
  have bound: "c < 0x110000" using assms by (auto simp: is_scalar_def)
  consider (a) "c < 0x80" | (b) "0x80 \<le> c" "c < 0x800" | (c) "0x800 \<le> c" "c < 0x10000"
    | (d) "0x10000 \<le> c" by linarith
  then show ?thesis
  proof cases
    case a
    then show ?thesis by (simp add: encode_utf8_def decode_first_def len_utf8_def)
  next
    case b
    then have q: "c div 64 < 32" by (simp add: less_mult_imp_div_less)
    then have "(192 + c div 64) mod 256 = 192 + c div 64" and "(192 + c div 64) mod 32 = c div 64"
      using mult_add_mod[of "c div 64" 32 6] by simp_all
    with b q split_base64(1)[of c] show ?thesis
      by (simp add: encode_utf8_def decode_first_def len_utf8_def Let_def)
  next
    case c
    then have q: "c div 4096 < 16" by (simp add: less_mult_imp_div_less)
    then have "(224 + c div 4096) mod 256 = 224 + c div 4096"
      and "(224 + c div 4096) mod 16 = c div 4096"
      using mult_add_mod[of "c div 4096" 16 14] by simp_all
    with c q split_base64(2)[of c] show ?thesis
      by (simp add: encode_utf8_def decode_first_def len_utf8_def Let_def)
  next
    case d
    then have q: "c div 262144 < 5" using bound by (simp add: less_mult_imp_div_less)
    then have "(240 + c div 262144) mod 256 = 240 + c div 262144"
      and "(240 + c div 262144) mod 8 = c div 262144"
      using mult_add_mod[of "c div 262144" 8 30] by simp_all
    with d q split_base64(3)[of c] show ?thesis
      by (simp add: encode_utf8_def decode_first_def len_utf8_def Let_def)
  qed
qed

text \<open>Every byte of a scalar outside ASCII is at least 0x80, so ASCII bytes only encode themselves.\<close>

lemma encode_utf8_high:
  assumes "0x80 \<le> c" and "is_scalar c" and "b \<in> set (encode_utf8 c)"
  shows "0x80 \<le> (of_char b :: nat)"
proof -
  have hi: "0x80 \<le> (of_char (char_of (k + x) :: char) :: nat)" if "0x80 \<le> k" "k + x < 256" for k x :: nat
    using that by simp
  have m: "x mod 64 < 64" for x :: nat by simp
  have t: "0x80 \<le> (of_char (char_of (0x80 + x mod 64) :: char) :: nat)" for x :: nat
    by (rule hi) (use m[of x] in auto)
  have c: "c < 0x110000" using assms(2) by (auto simp: is_scalar_def)
  consider (b) "c < 0x800" | (c) "0x800 \<le> c" "c < 0x10000" | (d) "0x10000 \<le> c" by linarith
  then show ?thesis
  proof cases
    case b
    then have "c div 64 < 32" by (simp add: less_mult_imp_div_less)
    then have "0x80 \<le> (of_char (char_of (0xC0 + c div 64) :: char) :: nat)" by (intro hi) auto
    then show ?thesis
      using assms(1,3) b t[of c] unfolding encode_utf8_def by (auto simp del: of_char_of)
  next
    case c
    then have "c div 4096 < 16" by (simp add: less_mult_imp_div_less)
    then have "0x80 \<le> (of_char (char_of (0xE0 + c div 4096) :: char) :: nat)" by (intro hi) auto
    then show ?thesis
      using assms(1,3) c t[of c] t[of "c div 64"] unfolding encode_utf8_def
      by (auto simp del: of_char_of)
  next
    case d
    then have "c div 262144 < 5" using c by (simp add: less_mult_imp_div_less)
    then have "0x80 \<le> (of_char (char_of (0xF0 + c div 262144) :: char) :: nat)" by (intro hi) auto
    then show ?thesis
      using assms(1,3) d t[of c] t[of "c div 64"] t[of "c div 4096"] unfolding encode_utf8_def
      by (auto simp del: of_char_of)
  qed
qed

function chars :: "string \<Rightarrow> rchar list" where
  "chars s = (case decode_first s of None \<Rightarrow> [] | Some (c, n) \<Rightarrow> c # chars (drop n s))"
  by pat_completeness auto
termination
proof (relation "measure length", goal_cases)
  case 1
  show ?case by simp
next
  case (2 s x c n)
  then have "0 < n" and "s \<noteq> []" using decode_first_pos by (blast, auto simp: decode_first_def)
  then show ?case by simp
qed

lemma decode_first_Nil [simp]: "decode_first [] = None"
  by simp

declare chars.simps [simp del]

lemma chars_Nil [simp]: "chars [] = []"
  by (simp add: chars.simps)

lemma chars_utf8: "list_all is_scalar cs \<Longrightarrow> chars (utf8 cs) = cs"
proof (induction cs)
  case Nil
  show ?case by simp
next
  case (Cons c cs)
  then show ?case
    by (subst chars.simps) (simp add: decode_encode_utf8)
qed

definition slice :: "nat \<Rightarrow> nat \<Rightarrow> string \<Rightarrow> string" where
  "slice a b s = take (b - a) (drop a s)"

section \<open>Character classes\<close>

definition is_digit :: "rchar \<Rightarrow> bool" where
  "is_digit c \<longleftrightarrow> 48 \<le> c \<and> c \<le> 57"

definition is_alpha :: "rchar \<Rightarrow> bool" where
  "is_alpha c \<longleftrightarrow> (65 \<le> c \<and> c \<le> 90) \<or> (97 \<le> c \<and> c \<le> 122)"

definition is_alnum :: "rchar \<Rightarrow> bool" where
  "is_alnum c \<longleftrightarrow> is_alpha c \<or> is_digit c"

definition is_hexdigit :: "rchar \<Rightarrow> bool" where
  "is_hexdigit c \<longleftrightarrow> is_digit c \<or> (65 \<le> c \<and> c \<le> 70) \<or> (97 \<le> c \<and> c \<le> 102)"

text \<open>\<open>char::is_whitespace\<close>: the Unicode property \<open>White_Space\<close>.\<close>

definition is_whitespace :: "rchar \<Rightarrow> bool" where
  "is_whitespace c \<longleftrightarrow> (9 \<le> c \<and> c \<le> 13) \<or> c = 0x20 \<or> c = 0x85 \<or> c = 0xA0 \<or> c = 0x1680
     \<or> (0x2000 \<le> c \<and> c \<le> 0x200A) \<or> c = 0x2028 \<or> c = 0x2029 \<or> c = 0x202F \<or> c = 0x205F
     \<or> c = 0x3000"

definition trim_end :: "string \<Rightarrow> string" where
  "trim_end s = utf8 (rev (dropWhile is_whitespace (rev (chars s))))"

fun byte_digit :: "char \<Rightarrow> bool" where
  "byte_digit b = is_digit (of_char b)"

lemma byte_digit_char_of [simp]: "n < 256 \<Longrightarrow> byte_digit (char_of n) = is_digit n"
  by simp

section \<open>Numbers\<close>

definition digit_val :: "char \<Rightarrow> nat" where
  "digit_val b = of_char b - 48"

definition dec_value :: "string \<Rightarrow> nat" where
  "dec_value s = foldl (\<lambda>a b. 10 * a + digit_val b) 0 s"

text \<open>\<open>str::parse\<close> for the integer types: an optional sign, at least one digit, in range.\<close>

definition parse_digits :: "string \<Rightarrow> nat option" where
  "parse_digits s = (if s \<noteq> [] \<and> list_all byte_digit s then Some (dec_value s) else None)"

definition parse_unsigned :: "nat \<Rightarrow> string \<Rightarrow> nat option" where
  "parse_unsigned bound s =
     (let body = (case s of b # r \<Rightarrow> if b = CHR ''+'' then r else s | [] \<Rightarrow> []) in
      case parse_digits body of None \<Rightarrow> None | Some v \<Rightarrow> if v < bound then Some v else None)"

definition parse_signed :: "nat \<Rightarrow> string \<Rightarrow> int option" where
  "parse_signed bound s =
     (case s of
        b # r \<Rightarrow>
          if b = CHR ''-'' then
            (case parse_digits r of None \<Rightarrow> None
             | Some v \<Rightarrow> if v \<le> bound then Some (- int v) else None)
          else
            (case parse_digits (if b = CHR ''+'' then r else s) of None \<Rightarrow> None
             | Some v \<Rightarrow> if v < bound then Some (int v) else None)
      | [] \<Rightarrow> None)"

text \<open>\<open>u32::from_str_radix(_, 16)\<close> on hexadecimal digits.\<close>

definition hex_val :: "char \<Rightarrow> nat" where
  "hex_val b = (let n = of_char b in if n \<le> 57 then n - 48 else if n \<le> 70 then n - 55 else n - 87)"

definition hex_value :: "string \<Rightarrow> nat" where
  "hex_value s = foldl (\<lambda>a b. 16 * a + hex_val b) 0 s"

definition parse_hex_u32 :: "string \<Rightarrow> nat option" where
  "parse_hex_u32 s =
     (if s \<noteq> [] \<and> list_all (\<lambda>b. is_hexdigit (of_char b)) s \<and> hex_value s < 2 ^ 32
      then Some (hex_value s) else None)"

definition from_u32 :: "nat \<Rightarrow> rchar option" where
  "from_u32 n = (if is_scalar n then Some n else None)"

text \<open>\<open>Display\<close> of the unsigned integers.\<close>

fun show_nat :: "nat \<Rightarrow> string" where
  "show_nat n = (if n < 10 then [char_of (48 + n)] else show_nat (n div 10) @ [char_of (48 + n mod 10)])"

declare show_nat.simps [simp del]

definition show_int :: "int \<Rightarrow> string" where
  "show_int i = (if i < 0 then CHR ''-'' # show_nat (nat (- i)) else show_nat (nat i))"

lemma dec_value_append: "dec_value (s @ [b]) = 10 * dec_value s + digit_val b"
  by (simp add: dec_value_def)

lemma show_nat_digits: "show_nat n \<noteq> [] \<and> list_all byte_digit (show_nat n) \<and> dec_value (show_nat n) = n"
proof (induction n rule: show_nat.induct)
  case (1 n)
  show ?case
  proof (cases "n < 10")
    case True
    then show ?thesis
      by (subst (1 2 3) show_nat.simps) (simp add: dec_value_def digit_val_def is_digit_def)
  next
    case False
    have "show_nat n = show_nat (n div 10) @ [char_of (48 + n mod 10)]"
      using False by (subst show_nat.simps) simp
    with False 1 show ?thesis
      by (simp add: dec_value_append digit_val_def is_digit_def)
  qed
qed

lemma parse_digits_show_nat [simp]: "parse_digits (show_nat n) = Some n"
  using show_nat_digits[of n] by (simp add: parse_digits_def)

end
