(* ===== verification/Diagnostics.thy ===== *)
theory Diagnostics
  imports Text
begin

text \<open>
  Source positions (\<open>src/ast.rs\<close>) and the diagnostics every phase reports (\<open>src/diagnostic.rs\<close>):
  the record, its constructors and builders, and its JSON projection.  \<open>quote_json\<close> is modelled
  without an active byte budget (\<open>bounded_output\<close>), as in every caller outside \<open>with_limit\<close>.
\<close>

section \<open>Spans\<close>

record span =
  sp_start :: nat
  sp_end :: nat
  sp_line :: nat
  sp_column :: nat

definition span_merge :: "span \<Rightarrow> span \<Rightarrow> span" where
  "span_merge self other =
     \<lparr>sp_start = sp_start self, sp_end = sp_end other, sp_line = sp_line self,
      sp_column = sp_column self\<rparr>"

section \<open>Diagnostics\<close>

datatype severity = SevError | SevWarning

fun severity_is_error :: "severity \<Rightarrow> bool" where
  "severity_is_error SevError = True"
| "severity_is_error SevWarning = False"

fun severity_as_str :: "severity \<Rightarrow> string" where
  "severity_as_str SevError = ''error''"
| "severity_as_str SevWarning = ''warning''"

record diagnostic =
  d_code :: string
  d_severity :: severity
  d_message :: string
  d_path :: "string option"
  d_span :: "span option"
  d_help :: "string option"

definition diag_error :: "string \<Rightarrow> string \<Rightarrow> span \<Rightarrow> diagnostic" where
  "diag_error code message sp =
     \<lparr>d_code = code, d_severity = SevError, d_message = message, d_path = None,
      d_span = Some sp, d_help = None\<rparr>"

definition diag_warning :: "string \<Rightarrow> string \<Rightarrow> span \<Rightarrow> diagnostic" where
  "diag_warning code message sp =
     \<lparr>d_code = code, d_severity = SevWarning, d_message = message, d_path = None,
      d_span = Some sp, d_help = None\<rparr>"

definition diag_io :: "string \<Rightarrow> string \<Rightarrow> diagnostic" where
  "diag_io code message =
     \<lparr>d_code = code, d_severity = SevError, d_message = message, d_path = None,
      d_span = None, d_help = None\<rparr>"

definition at_path :: "string \<Rightarrow> diagnostic \<Rightarrow> diagnostic" where
  "at_path path d = d\<lparr>d_path := Some path\<rparr>"

definition with_help :: "string \<Rightarrow> diagnostic \<Rightarrow> diagnostic" where
  "with_help help d = d\<lparr>d_help := Some help\<rparr>"

section \<open>JSON\<close>

text \<open>\<open>char::is_control\<close>: the Unicode category Cc.\<close>

definition is_control :: "rchar \<Rightarrow> bool" where
  "is_control c \<longleftrightarrow> c < 0x20 \<or> (0x7F \<le> c \<and> c \<le> 0x9F)"

definition hex_digit :: "nat \<Rightarrow> char" where
  "hex_digit n = char_of (if n < 10 then 48 + n else 87 + n)"

text \<open>\<open>{:04x}\<close> of a scalar below 0x10000.\<close>

definition hex4 :: "nat \<Rightarrow> string" where
  "hex4 n = [hex_digit (n div 4096 mod 16), hex_digit (n div 256 mod 16),
             hex_digit (n div 16 mod 16), hex_digit (n mod 16)]"

definition quote_json_char :: "rchar \<Rightarrow> string" where
  "quote_json_char c =
     (if c = 34 then [CHR 0x5C, CHR 0x22]
      else if c = 92 then [CHR 0x5C, CHR 0x5C]
      else if c = 10 then [CHR 0x5C, CHR ''n'']
      else if c = 13 then [CHR 0x5C, CHR ''r'']
      else if c = 9 then [CHR 0x5C, CHR ''t'']
      else if is_control c then [CHR 0x5C, CHR ''u''] @ hex4 c
      else encode_utf8 c)"

definition quote_json :: "string \<Rightarrow> string" where
  "quote_json s = [CHR 0x22] @ concat (map quote_json_char (chars s)) @ [CHR 0x22]"

definition json_field :: "string \<Rightarrow> string \<Rightarrow> string" where
  "json_field name value = quote_json name @ '':'' @ value"

definition option_json :: "string option \<Rightarrow> string" where
  "option_json o' = (case o' of None \<Rightarrow> ''null'' | Some v \<Rightarrow> quote_json v)"

definition diagnostic_json :: "diagnostic \<Rightarrow> string" where
  "diagnostic_json d =
     (let location = (case d_span d of None \<Rightarrow> ''null''
        | Some sp \<Rightarrow> ''{'' @ json_field ''line'' (show_nat (sp_line sp)) @ '',''
            @ json_field ''column'' (show_nat (sp_column sp)) @ '',''
            @ json_field ''start'' (show_nat (sp_start sp)) @ '',''
            @ json_field ''end'' (show_nat (sp_end sp)) @ ''}'')
      in ''{'' @ json_field ''code'' (quote_json (d_code d)) @ '',''
         @ json_field ''severity'' (quote_json (severity_as_str (d_severity d))) @ '',''
         @ json_field ''message'' (quote_json (d_message d)) @ '',''
         @ json_field ''path'' (option_json (d_path d)) @ '',''
         @ json_field ''location'' location @ '',''
         @ json_field ''help'' (option_json (d_help d)) @ ''}'')"

text \<open>
  No quote escapes a JSON string early: the bytes between the outer quotes hold no raw quote that
  is not preceded by a backslash, and no raw control byte.
\<close>

lemma hex_digit_printable: "n < 16 \<Longrightarrow> 0x20 \<le> (of_char (hex_digit n) :: nat)"
  by (simp add: hex_digit_def)

lemma quote_json_char_no_control:
  assumes "is_scalar c" and "b \<in> set (quote_json_char c)"
  shows "0x20 \<le> (of_char b :: nat)"
proof (cases "is_control c \<or> c = 34 \<or> c = 92")
  case True
  then show ?thesis
    using assms(2)
    by (auto simp: quote_json_char_def hex4_def hex_digit_printable is_control_def split: if_splits)
next
  case False
  then have q: "quote_json_char c = encode_utf8 c" and c: "0x20 \<le> c"
    by (auto simp: quote_json_char_def is_control_def)
  show ?thesis
  proof (cases "c < 0x80")
    case True
    with assms(2) c q show ?thesis by (simp add: encode_utf8_ascii)
  next
    case False
    with encode_utf8_high[of c b] assms q show ?thesis by simp
  qed
qed

end
