(* ===== verification/RustFloat.thy ===== *)
theory RustFloat
  imports Text
begin

text \<open>
  The IEEE-754 binary formats behind Rust's \<open>f32\<close> and \<open>f64\<close>, as far as the source uses them:
  decimal parsing, the four operations, and comparison, all rounding to nearest with ties to even.
  A finite value is kept exactly, as sign, odd mantissa and exponent of two, so the widening
  \<open>f64::from(f32)\<close> is the identity.  NaN payloads are not modelled: no operation used by the
  source observes them.
\<close>

datatype fl = NaN | Infty bool | Fin bool nat int

text \<open>A format: precision, exponent of the smallest subnormal, overflow exponent.\<close>

record fformat =
  f_prec :: nat
  f_emin :: int
  f_emax :: int

definition binary32 :: fformat where
  "binary32 = \<lparr>f_prec = 24, f_emin = -149, f_emax = 128\<rparr>"

definition binary64 :: fformat where
  "binary64 = \<lparr>f_prec = 53, f_emin = -1074, f_emax = 1024\<rparr>"

fun bit_len :: "nat \<Rightarrow> nat" where
  "bit_len n = (if n = 0 then 0 else Suc (bit_len (n div 2)))"

declare bit_len.simps [simp del]

fun strip_twos :: "nat \<Rightarrow> int \<Rightarrow> nat \<times> int" where
  "strip_twos m e = (if m = 0 then (0, 0) else if even m then strip_twos (m div 2) (e + 1) else (m, e))"

declare strip_twos.simps [simp del]

definition half_even :: "nat \<Rightarrow> nat \<Rightarrow> nat" where
  "half_even a b =
     (let q = a div b; r = a mod b in
      if b < 2 * r \<or> (2 * r = b \<and> odd q) then q + 1 else q)"

definition scale :: "nat \<Rightarrow> nat \<Rightarrow> int \<Rightarrow> nat \<times> nat" where
  "scale n d e = (if 0 \<le> e then (n, d * 2 ^ nat e) else (n * 2 ^ nat (- e), d))"

text \<open>The float nearest to the rational \<open>n / d\<close> with the given sign.\<close>

definition round_fl :: "fformat \<Rightarrow> bool \<Rightarrow> nat \<Rightarrow> nat \<Rightarrow> fl" where
  "round_fl F s n d =
     (if n = 0 then Fin s 0 0
      else
        let e0 = int (bit_len n) - int (bit_len d) - int (f_prec F);
            (a0, b0) = scale n d e0;
            e1 = (if b0 * 2 ^ f_prec F \<le> a0 then e0 + 1 else e0);
            e = max e1 (f_emin F);
            (a, b) = scale n d e;
            m = half_even a b
        in if f_emax F < int (bit_len m) + e then Infty s
           else case strip_twos m e of (m', e') \<Rightarrow> Fin s m' e')"

text \<open>
  \<open>str::parse\<close> on the text \<open>digits.digits\<close> with an optional exponent \<open>e\<close>, \<open>e+\<close> or \<open>e-\<close>:
  the exact decimal value, rounded once.
\<close>

definition parse_float :: "fformat \<Rightarrow> string \<Rightarrow> fl option" where
  "parse_float F s =
     (let ip = takeWhile byte_digit s;
          r0 = dropWhile byte_digit s;
          (fp, r1) = (case r0 of
             b # r \<Rightarrow> if b = CHR ''.'' then (takeWhile byte_digit r, dropWhile byte_digit r) else ([], r0)
           | [] \<Rightarrow> ([], []));
          mant = ip @ fp
      in if mant = [] then None
         else
           let ex = (case r1 of
                [] \<Rightarrow> Some 0
              | b # r \<Rightarrow> if b = CHR ''e'' \<or> b = CHR ''E'' then parse_signed (10 ^ 18) r else None)
           in case ex of None \<Rightarrow> None
              | Some x \<Rightarrow>
                let k = x - int (length fp) in
                Some (if 0 \<le> k then round_fl F False (dec_value mant * 10 ^ nat k) 1
                      else round_fl F False (dec_value mant) (10 ^ nat (- k))))"

definition is_finite :: "fl \<Rightarrow> bool" where
  "is_finite x = (case x of Fin _ _ _ \<Rightarrow> True | _ \<Rightarrow> False)"

section \<open>Arithmetic\<close>

fun fl_neg :: "fl \<Rightarrow> fl" where
  "fl_neg NaN = NaN"
| "fl_neg (Infty s) = Infty (\<not> s)"
| "fl_neg (Fin s m e) = Fin (\<not> s) m e"

definition signed_mant :: "bool \<Rightarrow> nat \<Rightarrow> int \<Rightarrow> int \<Rightarrow> int" where
  "signed_mant s m e e0 = (if s then -1 else 1) * int (m * 2 ^ nat (e - e0))"

fun fl_add :: "fformat \<Rightarrow> fl \<Rightarrow> fl \<Rightarrow> fl" where
  "fl_add F NaN y = NaN"
| "fl_add F x NaN = NaN"
| "fl_add F (Infty s) (Infty t) = (if s = t then Infty s else NaN)"
| "fl_add F (Infty s) (Fin t m e) = Infty s"
| "fl_add F (Fin s m e) (Infty t) = Infty t"
| "fl_add F (Fin s m e) (Fin t n f) =
     (let e0 = min e f; r = signed_mant s m e e0 + signed_mant t n f e0 in
      if r = 0 then Fin (s \<and> t) 0 0
      else if 0 \<le> e0 then round_fl F (r < 0) (nat \<bar>r\<bar> * 2 ^ nat e0) 1
      else round_fl F (r < 0) (nat \<bar>r\<bar>) (2 ^ nat (- e0)))"

definition fl_sub :: "fformat \<Rightarrow> fl \<Rightarrow> fl \<Rightarrow> fl" where
  "fl_sub F x y = fl_add F x (fl_neg y)"

fun fl_mul :: "fformat \<Rightarrow> fl \<Rightarrow> fl \<Rightarrow> fl" where
  "fl_mul F NaN y = NaN"
| "fl_mul F x NaN = NaN"
| "fl_mul F (Infty s) (Infty t) = Infty (s \<noteq> t)"
| "fl_mul F (Infty s) (Fin t m e) = (if m = 0 then NaN else Infty (s \<noteq> t))"
| "fl_mul F (Fin s m e) (Infty t) = (if m = 0 then NaN else Infty (s \<noteq> t))"
| "fl_mul F (Fin s m e) (Fin t n f) =
     (case scale (m * n) 1 (- (e + f)) of (a, b) \<Rightarrow> round_fl F (s \<noteq> t) a b)"

fun fl_div :: "fformat \<Rightarrow> fl \<Rightarrow> fl \<Rightarrow> fl" where
  "fl_div F NaN y = NaN"
| "fl_div F x NaN = NaN"
| "fl_div F (Infty s) (Infty t) = NaN"
| "fl_div F (Infty s) (Fin t m e) = Infty (s \<noteq> t)"
| "fl_div F (Fin s m e) (Infty t) = Fin (s \<noteq> t) 0 0"
| "fl_div F (Fin s m e) (Fin t n f) =
     (if n = 0 then (if m = 0 then NaN else Infty (s \<noteq> t))
      else case scale m n (- (e - f)) of (a, b) \<Rightarrow> round_fl F (s \<noteq> t) a b)"

section \<open>Comparison\<close>

datatype ordering = Less | Equal | Greater

definition int_cmp :: "int \<Rightarrow> int \<Rightarrow> ordering" where
  "int_cmp a b = (if a < b then Less else if a = b then Equal else Greater)"

fun fl_cmp :: "fl \<Rightarrow> fl \<Rightarrow> ordering option" where
  "fl_cmp NaN y = None"
| "fl_cmp x NaN = None"
| "fl_cmp (Infty s) (Infty t) = Some (if s = t then Equal else if s then Less else Greater)"
| "fl_cmp (Infty s) (Fin t m e) = Some (if s then Less else Greater)"
| "fl_cmp (Fin s m e) (Infty t) = Some (if t then Greater else Less)"
| "fl_cmp (Fin s m e) (Fin t n f) =
     (let e0 = min e f in Some (int_cmp (signed_mant s m e e0) (signed_mant t n f e0)))"

definition fl_eq :: "fl \<Rightarrow> fl \<Rightarrow> bool" where
  "fl_eq x y \<longleftrightarrow> fl_cmp x y = Some Equal"

definition swap_ordering :: "ordering \<Rightarrow> ordering" where
  "swap_ordering r = (case r of Less \<Rightarrow> Greater | Equal \<Rightarrow> Equal | Greater \<Rightarrow> Less)"

lemma fl_cmp_swap: "fl_cmp y x = map_option swap_ordering (fl_cmp x y)"
  by (cases x; cases y) (auto simp: int_cmp_def swap_ordering_def Let_def min.commute)

lemma fl_cmp_NaN_iff: "fl_cmp x y = None \<longleftrightarrow> x = NaN \<or> y = NaN"
  by (cases x; cases y) (auto simp: Let_def)

lemma fl_cmp_refl: "x \<noteq> NaN \<Longrightarrow> fl_cmp x x = Some Equal"
  by (cases x) (auto simp: int_cmp_def)

end
