(* ===== verification/Lexer.thy ===== *)
theory Lexer
  imports Diagnostics RustFloat
begin

text \<open>
  The lexer, \<open>src/lexer.rs\<close>.  Tokens carry the values the code decodes (integers at their width,
  float literals exactly, string contents as UTF-8), comments are the trivia the formatter puts
  back, and the \<open>Lexer\<close> struct is the record \<open>lexer\<close> with the code's own fields: the source and
  a byte offset into it.  A token function returns the token and the lexer after it, or the
  diagnostic that ends the run.
\<close>

section \<open>Tokens\<close>

record float_literal =
  fl_value :: fl
  fl_wide :: bool

datatype token_kind =
    T_Ident string
  | T_Int i64
  | T_IntMinMagnitude
  | T_Int32 i32
  | T_Int32MinMagnitude
  | T_Float float_literal
  | T_Char u32
  | T_Uint8 u8
  | T_Usize u64
  | T_String string
  | T_At | T_LParen | T_RParen | T_LBrace | T_RBrace | T_LBracket | T_RBracket
  | T_Colon | T_ColonColon | T_Dot | T_Comma | T_Semicolon | T_Arrow
  | T_Plus | T_Minus | T_Star | T_Slash | T_Percent | T_Question | T_Bang
  | T_Eq | T_FatArrow | T_EqEq | T_BangEq | T_Lt | T_Le | T_Gt | T_Ge
  | T_AndAnd | T_OrOr | T_Pipe | T_Eof

record token =
  tk_kind :: token_kind
  tk_span :: span

record comment =
  c_text :: string
  c_offset :: nat
  c_line :: nat
  c_own_line :: bool
  c_previous_token_line :: nat

record comments =
  cs_items :: "comment list"
  cs_first_token_offset :: nat

section \<open>The cursor\<close>

record lexer =
  lx_source :: string
  lx_path :: string
  lx_offset :: nat
  lx_line :: nat
  lx_column :: nat
  lx_token_on_line :: bool
  lx_previous_token_line :: nat
  lx_comments :: "comment list"

definition lx_rest :: "lexer \<Rightarrow> string" where
  "lx_rest lx = drop (lx_offset lx) (lx_source lx)"

definition peek :: "lexer \<Rightarrow> rchar option" where
  "peek lx = map_option fst (decode_first (lx_rest lx))"

definition bump :: "lexer \<Rightarrow> rchar option \<times> lexer" where
  "bump lx =
     (case peek lx of None \<Rightarrow> (None, lx)
      | Some c \<Rightarrow>
        let lx' = lx\<lparr>lx_offset := lx_offset lx + len_utf8 c\<rparr> in
        (Some c,
         if c = 10
         then lx'\<lparr>lx_line := lx_line lx + 1, lx_column := 1, lx_token_on_line := False\<rparr>
         else lx'\<lparr>lx_column := lx_column lx + 1\<rparr>))"

definition advance :: "lexer \<Rightarrow> lexer" where
  "advance lx = snd (bump lx)"

definition take_char :: "rchar \<Rightarrow> lexer \<Rightarrow> bool \<times> lexer" where
  "take_char expected lx =
     (if peek lx = Some expected then (True, advance lx) else (False, lx))"

definition starts_with :: "string \<Rightarrow> lexer \<Rightarrow> bool" where
  "starts_with v lx \<longleftrightarrow> take (length v) (lx_rest lx) = v"

definition byte_at :: "nat \<Rightarrow> lexer \<Rightarrow> char option" where
  "byte_at i lx = (if i < length (lx_source lx) then Some (lx_source lx ! i) else None)"

definition span_from :: "nat \<Rightarrow> nat \<Rightarrow> nat \<Rightarrow> lexer \<Rightarrow> span" where
  "span_from start line column lx =
     \<lparr>sp_start = start, sp_end = lx_offset lx, sp_line = line, sp_column = column\<rparr>"

definition lx_error :: "string \<Rightarrow> string \<Rightarrow> span \<Rightarrow> lexer \<Rightarrow> diagnostic" where
  "lx_error code message sp lx = at_path (lx_path lx) (diag_error code message sp)"

definition is_ident_start :: "rchar \<Rightarrow> bool" where
  "is_ident_start c \<longleftrightarrow> c = 95 \<or> is_alpha c"

definition is_ident_continue :: "rchar \<Rightarrow> bool" where
  "is_ident_continue c \<longleftrightarrow> c = 95 \<or> is_alnum c"

definition peek_is :: "(rchar \<Rightarrow> bool) \<Rightarrow> lexer \<Rightarrow> bool" where
  "peek_is P lx \<longleftrightarrow> (case peek lx of None \<Rightarrow> False | Some c \<Rightarrow> P c)"

lemma peek_None_iff: "peek lx = None \<longleftrightarrow> length (lx_source lx) \<le> lx_offset lx"
  by (auto simp: peek_def lx_rest_def)

lemma peek_Some_less: "peek lx = Some c \<Longrightarrow> lx_offset lx < length (lx_source lx)"
  using peek_None_iff[of lx] by (cases "lx_offset lx < length (lx_source lx)") auto

lemma advance_simps [simp]:
  "lx_source (advance lx) = lx_source lx" "lx_path (advance lx) = lx_path lx"
  "lx_comments (advance lx) = lx_comments lx"
  "lx_previous_token_line (advance lx) = lx_previous_token_line lx"
  by (auto simp: advance_def bump_def Let_def split: option.splits)

lemma advance_offset:
  "lx_offset (advance lx) = lx_offset lx + (case peek lx of None \<Rightarrow> 0 | Some c \<Rightarrow> len_utf8 c)"
  by (auto simp: advance_def bump_def Let_def split: option.splits)

lemma bump_eq: "bump lx = (peek lx, advance lx)"
  by (auto simp: advance_def bump_def Let_def split: option.splits)

text \<open>\<open>while matches!(self.peek(), Some(c) if P(c)) { self.bump(); }\<close>\<close>

function bump_while :: "(rchar \<Rightarrow> bool) \<Rightarrow> lexer \<Rightarrow> lexer" where
  "bump_while P lx =
     (case peek lx of None \<Rightarrow> lx | Some c \<Rightarrow> if P c then bump_while P (advance lx) else lx)"
  by pat_completeness auto
termination
proof (relation "measure (\<lambda>(P, lx). length (lx_source lx) - lx_offset lx)", goal_cases)
  case 1
  show ?case by simp
next
  case (2 P lx c)
  then show ?case
    using peek_Some_less[of lx c] len_utf8_pos[of c] by (auto simp: advance_offset)
qed

declare bump_while.simps [simp del]

definition bump_n :: "nat \<Rightarrow> lexer \<Rightarrow> lexer" where
  "bump_n n lx = (advance ^^ n) lx"

text \<open>
  Every cursor movement of the lexer is a number of \<open>bump\<close>s.  \<open>advances\<close> names that, and what one
  bump preserves is then lifted once to every routine below.
\<close>

definition advances :: "lexer \<Rightarrow> lexer \<Rightarrow> bool" where
  "advances lx lx' \<longleftrightarrow> (\<exists>n. lx' = bump_n n lx)"

lemma advances_refl [simp, intro]: "advances lx lx"
  unfolding advances_def by (rule exI[of _ 0]) (simp add: bump_n_def)

lemma advances_advance [intro]: "advances lx (advance lx)"
  unfolding advances_def by (rule exI[of _ 1]) (simp add: bump_n_def)

lemma advances_bump_n [intro]: "advances lx (bump_n n lx)"
  unfolding advances_def by blast

lemma advances_trans: "advances a b \<Longrightarrow> advances b c \<Longrightarrow> advances a c"
proof -
  assume "advances a b" "advances b c"
  then obtain m n where "b = bump_n m a" "c = bump_n n b" by (auto simp: advances_def)
  then have "c = bump_n (n + m) a" by (simp add: bump_n_def funpow_add)
  then show ?thesis by (auto simp: advances_def)
qed

lemma advances_induct [consumes 1, case_names refl step]:
  assumes adv: "advances lx lx'" and base: "P lx" and step: "\<And>l. P l \<Longrightarrow> P (advance l)"
  shows "P lx'"
proof -
  have "P (bump_n n lx)" for n
    by (induction n) (simp_all add: bump_n_def base step)
  with adv show ?thesis by (auto simp: advances_def)
qed

lemma advances_frame:
  assumes "advances lx lx'"
  shows "lx_source lx' = lx_source lx" "lx_path lx' = lx_path lx" "lx_comments lx' = lx_comments lx"
    "lx_previous_token_line lx' = lx_previous_token_line lx"
  using assms
  by (induction "lx'" rule: advances_induct; simp)+

lemma advances_offset: "advances lx lx' \<Longrightarrow> lx_offset lx \<le> lx_offset lx'"
  by (induction rule: advances_induct) (auto simp: advance_offset split: option.splits)

lemma bump_while_advances: "advances lx (bump_while P lx)"
proof (induction P lx rule: bump_while.induct)
  case (1 P lx)
  then show ?case
    by (subst bump_while.simps)
       (auto intro: advances_trans[OF advances_advance] split: option.splits)
qed

lemmas bump_while_simps [simp] = advances_frame[OF bump_while_advances]

lemma bump_while_progress:
  "peek lx = Some c \<Longrightarrow> P c \<Longrightarrow> lx_offset lx < lx_offset (bump_while P lx)"
  using advances_offset[OF bump_while_advances, of "advance lx" P] len_utf8_pos[of c]
  by (subst bump_while.simps) (simp add: advance_offset)

lemma take_char_advances: "take_char c lx = (b, lx') \<Longrightarrow> advances lx lx'"
  by (auto simp: take_char_def split: if_splits)

section \<open>Numbers\<close>

definition I64_MIN_MAGNITUDE :: string where
  "I64_MIN_MAGNITUDE = ''9223372036854775808''"

definition I32_MIN_MAGNITUDE :: string where
  "I32_MIN_MAGNITUDE = ''2147483648''"

definition is_signed_minimum_magnitude :: "string \<Rightarrow> string \<Rightarrow> bool" where
  "is_signed_minimum_magnitude text magnitude \<longleftrightarrow>
     dropWhile (\<lambda>b. b = CHR ''0'') text = magnitude"

type_synonym 'a lexed = "(diagnostic, 'a \<times> lexer) res"

text \<open>The token that starts at \<open>start\<close> and ends at the cursor.\<close>

definition mk_token :: "token_kind \<Rightarrow> nat \<Rightarrow> nat \<Rightarrow> nat \<Rightarrow> lexer \<Rightarrow> token lexed" where
  "mk_token kind start line column lx =
     Ok (\<lparr>tk_kind = kind, tk_span = span_from start line column lx\<rparr>, lx)"

definition fail_at :: "string \<Rightarrow> string \<Rightarrow> nat \<Rightarrow> nat \<Rightarrow> nat \<Rightarrow> lexer \<Rightarrow> 'a lexed" where
  "fail_at code message start line column lx =
     Err (lx_error code message (span_from start line column lx) lx)"

definition int32_token :: "nat \<Rightarrow> nat \<Rightarrow> nat \<Rightarrow> lexer \<Rightarrow> token lexed" where
  "int32_token start line column lx0 =
     (let lx = bump_n 3 lx0 in
      if peek_is is_ident_continue lx then
        fail_at ''SPX-P003'' ''integer literals accept only an `i32` suffix'' start line column lx
      else
        let text = slice start (lx_offset lx - 3) (lx_source lx) in
        case parse_signed (2 ^ 31) text of
          Some value \<Rightarrow> mk_token (T_Int32 (word_of_int value)) start line column lx
        | None \<Rightarrow>
          if is_signed_minimum_magnitude text I32_MIN_MAGNITUDE
          then mk_token T_Int32MinMagnitude start line column lx
          else fail_at ''SPX-P003'' ''integer literal is outside the i32 range'' start line column lx)"

definition uint8_token :: "nat \<Rightarrow> nat \<Rightarrow> nat \<Rightarrow> lexer \<Rightarrow> token lexed" where
  "uint8_token start line column lx0 =
     (let lx = bump_n 2 lx0 in
      if peek_is is_ident_continue lx then
        fail_at ''SPX-P003'' ''integer literals accept only a `u8` suffix'' start line column lx
      else
        let text = slice start (lx_offset lx - 2) (lx_source lx) in
        case parse_signed (2 ^ 63) text of
          None \<Rightarrow> fail_at ''SPX-P003'' ''u8 literal is outside the u8 range'' start line column lx
        | Some number \<Rightarrow>
          if 0 \<le> number \<and> number < 256
          then mk_token (T_Uint8 (word_of_int number)) start line column lx
          else fail_at ''SPX-P003'' ''u8 literal is outside the u8 range'' start line column lx)"

definition usize_token :: "nat \<Rightarrow> nat \<Rightarrow> nat \<Rightarrow> lexer \<Rightarrow> token lexed" where
  "usize_token start line column lx0 =
     (let lx = bump_n 5 lx0 in
      if peek_is is_ident_continue lx then
        fail_at ''SPX-T260'' ''usize literals require exactly the `usize` suffix'' start line column lx
      else
        let text = slice start (lx_offset lx - 5) (lx_source lx) in
        case parse_unsigned (2 ^ 64) text of
          Some value \<Rightarrow> mk_token (T_Usize (word_of_nat value)) start line column lx
        | None \<Rightarrow>
          fail_at ''SPX-T260'' ''usize literal is outside the target-independent u64 range''
            start line column lx)"

text \<open>The exponent of a float literal: how many digits follow \<open>e\<close> and its sign.\<close>

definition digits_from :: "nat \<Rightarrow> lexer \<Rightarrow> nat" where
  "digits_from i lx = length (takeWhile byte_digit (drop i (lx_source lx)))"

definition bump_to :: "nat \<Rightarrow> lexer \<Rightarrow> lexer" where
  "bump_to cursor lx = bump_n (cursor - lx_offset lx) lx"

definition float_exponent :: "lexer \<Rightarrow> lexer option" where
  "float_exponent lx =
     (let c1 = lx_offset lx + 1;
          c2 = (if byte_at c1 lx = Some (CHR ''+'') \<or> byte_at c1 lx = Some (CHR ''-'')
                then c1 + 1 else c1);
          n = digits_from c2 lx
      in if n = 0 then None else Some (bump_to (c2 + n) lx))"

definition float_value :: "bool \<Rightarrow> string \<Rightarrow> fl option" where
  "float_value wide digits = parse_float (if wide then binary64 else binary32) digits"

text \<open>The suffix, then the value: everything after the digits and the exponent.\<close>

definition float_suffixed :: "lexer \<Rightarrow> bool" where
  "float_suffixed lx \<longleftrightarrow> starts_with ''f32'' lx \<or> starts_with ''f64'' lx"

definition float_finish :: "nat \<Rightarrow> nat \<Rightarrow> nat \<Rightarrow> lexer \<Rightarrow> token lexed" where
  "float_finish start line column lx =
     (let suffixed = float_suffixed lx;
          wide = (suffixed \<longrightarrow> starts_with ''f64'' lx);
          suffix_len = (if suffixed then 3 else 0);
          lx' = bump_n suffix_len lx
      in if (\<not> suffixed \<and> peek_is is_ident_start lx) \<or> peek_is is_ident_continue lx' then
           fail_at ''SPX-P003'' ''floating-point literals accept only an `f32` or `f64` suffix''
             start line column lx'
         else
           let text = slice start (lx_offset lx') (lx_source lx');
               digits = take (length text - suffix_len) text
           in case float_value wide digits of
                None \<Rightarrow>
                  fail_at ''SPX-P003''
                    (if wide then ''floating-point literal is outside the f64 range''
                     else ''floating-point literal is outside the f32 range'')
                    start line column lx'
              | Some value \<Rightarrow>
                if is_finite value
                then mk_token (T_Float \<lparr>fl_value = value, fl_wide = wide\<rparr>) start line column lx'
                else fail_at ''SPX-P003'' ''floating-point literal is outside the f64 range''
                       start line column lx')"

definition float_token :: "nat \<Rightarrow> nat \<Rightarrow> nat \<Rightarrow> lexer \<Rightarrow> token lexed" where
  "float_token start line column lx0 =
     (let lx1 = bump_while is_digit (advance lx0) in
      if peek lx1 = Some 101 \<or> peek lx1 = Some 69 then
        (case float_exponent lx1 of
           None \<Rightarrow>
             fail_at ''SPX-P003'' ''floating-point exponent requires at least one digit''
               start line column lx1
         | Some lx2 \<Rightarrow> float_finish start line column lx2)
      else float_finish start line column lx1)"

definition number_token :: "nat \<Rightarrow> nat \<Rightarrow> nat \<Rightarrow> lexer \<Rightarrow> token lexed" where
  "number_token start line column lx0 =
     (let lx = bump_while is_digit lx0 in
      if peek lx = Some 46
         \<and> (case byte_at (lx_offset lx + 1) lx of None \<Rightarrow> False | Some b \<Rightarrow> byte_digit b)
      then float_token start line column lx
      else if starts_with ''i32'' lx then int32_token start line column lx
      else if starts_with ''u8'' lx then uint8_token start line column lx
      else if starts_with ''usize'' lx then usize_token start line column lx
      else if peek_is is_ident_start lx then
        fail_at ''SPX-P003'' ''integer literals accept only an `i32`, `u8`, or `usize` suffix''
          start line column lx
      else
        let text = slice start (lx_offset lx) (lx_source lx) in
        case parse_signed (2 ^ 63) text of
          Some number \<Rightarrow> mk_token (T_Int (word_of_int number)) start line column lx
        | None \<Rightarrow>
          if is_signed_minimum_magnitude text I64_MIN_MAGNITUDE
          then mk_token T_IntMinMagnitude start line column lx
          else fail_at ''SPX-P003'' ''integer literal is outside the i64 range'' start line column lx)"

section \<open>Characters and strings\<close>

text \<open>
  \<open>\u{...}\<close> after its opening brace.  The string and the char lexer run the same steps and differ
  in the diagnostic code alone.
\<close>

definition unicode_escape ::
  "string \<Rightarrow> nat \<Rightarrow> nat \<Rightarrow> nat \<Rightarrow> lexer \<Rightarrow> rchar lexed" where
  "unicode_escape code start line column lx0 =
     (let lx1 = bump_while is_hexdigit lx0;
          digits = slice (lx_offset lx0) (lx_offset lx1) (lx_source lx0);
          (closed, lx2) = take_char 125 lx1
      in if \<not> closed \<or> digits = [] \<or> 6 < length digits then
           fail_at code ''unicode escape requires one to six hexadecimal digits in braces''
             start line column lx2
         else case parse_hex_u32 digits of
             None \<Rightarrow> fail_at code ''unicode escape is outside the Unicode range'' start line column lx2
           | Some n \<Rightarrow>
             (case from_u32 n of
                None \<Rightarrow>
                  fail_at code ''unicode escape is not a Unicode scalar value'' start line column lx2
              | Some c \<Rightarrow> Ok (c, lx2)))"

text \<open>One escape of a string literal, after its backslash.\<close>

definition string_escape :: "nat \<Rightarrow> nat \<Rightarrow> nat \<Rightarrow> lexer \<Rightarrow> rchar lexed" where
  "string_escape start line column lx0 =
     (case bump lx0 of
        (None, lx) \<Rightarrow> fail_at ''SPX-P004'' ''unterminated string literal'' start line column lx
      | (Some c, lx) \<Rightarrow>
        if c = 110 then Ok (10, lx)
        else if c = 114 then Ok (13, lx)
        else if c = 116 then Ok (9, lx)
        else if c = 34 then Ok (34, lx)
        else if c = 39 then Ok (39, lx)
        else if c = 92 then Ok (92, lx)
        else if c = 117 \<and> peek lx = Some 123
        then unicode_escape ''SPX-P005'' start line column (advance lx)
        else fail_at ''SPX-P005'' (''unsupported string escape `'' @ [CHR 0x5C] @ encode_utf8 c @ ''`'')
               start line column lx)"

lemma unicode_escape_advances:
  "unicode_escape code start line column lx = Ok (c, lx') \<Longrightarrow> advances lx lx'"
  by (auto simp: unicode_escape_def Let_def fail_at_def
      intro: advances_trans[OF bump_while_advances] dest: take_char_advances
      split: prod.splits if_splits option.splits)

lemma string_escape_advances:
  "string_escape start line column lx = Ok (c, lx') \<Longrightarrow> advances lx lx'"
  by (auto simp: string_escape_def bump_eq fail_at_def intro: advances_advance
      advances_trans[OF advances_advance] dest: unicode_escape_advances
      split: if_splits option.splits)

text \<open>The body of a string literal: \<open>value\<close> is what the loop has pushed so far.\<close>

function string_body :: "nat \<Rightarrow> nat \<Rightarrow> nat \<Rightarrow> string \<Rightarrow> lexer \<Rightarrow> string lexed" where
  "string_body start line column value lx0 =
     (case peek lx0 of
        None \<Rightarrow> fail_at ''SPX-P004'' ''unterminated string literal'' start line column lx0
      | Some c \<Rightarrow>
        if c = 34 then Ok (value, advance lx0)
        else if c = 92 then
          (case string_escape start line column (advance lx0) of
             Ok (e, lx) \<Rightarrow> string_body start line column (value @ encode_utf8 e) lx
           | Err d \<Rightarrow> Err d
           | Panic \<Rightarrow> Panic)
        else string_body start line column (value @ encode_utf8 c) (advance lx0))"
  by pat_completeness auto
termination
proof (relation "measure (\<lambda>(s, l, c, v, lx). length (lx_source lx) - lx_offset lx)", goal_cases)
  case 1
  show ?case by simp
next
  case (2 st ln co va lx0 c x e lx)
  then have "advances (advance lx0) lx" by (auto dest: string_escape_advances)
  then have "lx_source lx = lx_source lx0" "lx_offset (advance lx0) \<le> lx_offset lx"
    using advances_frame(1)[of "advance lx0" lx] advances_offset[of "advance lx0" lx] by auto
  with 2 show ?case
    using peek_Some_less[of lx0 c] len_utf8_pos[of c] by (auto simp: advance_offset)
next
  case (3 st ln co va lx0 c)
  then show ?case
    using peek_Some_less[of lx0 c] len_utf8_pos[of c] by (auto simp: advance_offset)
qed

declare string_body.simps [simp del]

definition string_token :: "nat \<Rightarrow> nat \<Rightarrow> nat \<Rightarrow> lexer \<Rightarrow> token lexed" where
  "string_token start line column lx0 =
     res_bind (string_body start line column [] lx0)
       (\<lambda>(value, lx). mk_token (T_String value) start line column lx)"

definition char_escape :: "nat \<Rightarrow> nat \<Rightarrow> nat \<Rightarrow> lexer \<Rightarrow> rchar lexed" where
  "char_escape start line column lx0 =
     (case bump lx0 of
        (None, lx) \<Rightarrow> fail_at ''SPX-P006'' ''unterminated char literal'' start line column lx
      | (Some c, lx) \<Rightarrow>
        if c = 110 then Ok (10, lx)
        else if c = 114 then Ok (13, lx)
        else if c = 116 then Ok (9, lx)
        else if c = 48 then Ok (0, lx)
        else if c = 39 then Ok (39, lx)
        else if c = 92 then Ok (92, lx)
        else if c = 117 \<and> peek lx = Some 123
        then unicode_escape ''SPX-P007'' start line column (advance lx)
        else fail_at ''SPX-P007'' (''unsupported char escape `'' @ [CHR 0x5C] @ encode_utf8 c @ ''`'')
               start line column lx)"

definition char_message :: string where
  "char_message = ''char literal requires exactly one Unicode scalar value''"

definition char_body :: "nat \<Rightarrow> nat \<Rightarrow> nat \<Rightarrow> lexer \<Rightarrow> rchar lexed" where
  "char_body start line column lx0 =
     (case bump lx0 of
        (None, lx) \<Rightarrow> fail_at ''SPX-P006'' ''unterminated char literal'' start line column lx
      | (Some c, lx) \<Rightarrow>
        if c = 39 then fail_at ''SPX-P008'' char_message start line column lx
        else if c = 92 then char_escape start line column lx
        else Ok (c, lx))"

definition char_token :: "nat \<Rightarrow> nat \<Rightarrow> nat \<Rightarrow> lexer \<Rightarrow> token lexed" where
  "char_token start line column lx0 =
     res_bind (char_body start line column lx0) (\<lambda>(value, lx).
       case peek lx of
         None \<Rightarrow> fail_at ''SPX-P006'' ''unterminated char literal'' start line column lx
       | Some c \<Rightarrow>
         if c = 39 then
           let lx' = advance lx in
           if peek_is is_ident_continue lx'
           then fail_at ''SPX-P008'' char_message start line column lx'
           else mk_token (T_Char (word_of_nat value)) start line column lx'
         else fail_at ''SPX-P008'' char_message start line column lx)"

end
