(* ===== verification/LexerRun.thy ===== *)
theory LexerRun
  imports Lexer
begin

text \<open>
  The lexer's driver: trivia, \<open>next_token\<close> and \<open>lex_all\<close> of \<open>src/lexer.rs\<close>, and the two entry
  points \<open>lex\<close> and \<open>lex_with_comments\<close>.  Every token routine moves the cursor by bumps
  (\<open>advances\<close>) and gives its token the span from its first byte to the cursor.
\<close>

section \<open>What every token routine does\<close>

definition token_shape :: "nat \<Rightarrow> nat \<Rightarrow> nat \<Rightarrow> lexer \<Rightarrow> token lexed \<Rightarrow> bool" where
  "token_shape start line column lx r \<longleftrightarrow>
     (\<forall>t lx'. r = Ok (t, lx') \<longrightarrow>
        advances lx lx' \<and> tk_span t = span_from start line column lx' \<and> tk_kind t \<noteq> T_Eof)"

lemma token_shape_fail [simp]: "token_shape start line column lx (fail_at c m s l k lx')"
  by (simp add: token_shape_def fail_at_def)

lemma token_shape_mk [intro]:
  "advances lx lx' \<Longrightarrow> kind \<noteq> T_Eof \<Longrightarrow>
     token_shape start line column lx (mk_token kind start line column lx')"
  by (auto simp: token_shape_def mk_token_def)

lemma token_shape_from:
  "token_shape start line column lx' r \<Longrightarrow> advances lx lx' \<Longrightarrow> token_shape start line column lx r"
  unfolding token_shape_def by (blast intro: advances_trans)

lemma int32_token_shape: "token_shape start line column lx (int32_token start line column lx)"
  by (auto simp: int32_token_def Let_def split: option.splits)

lemma uint8_token_shape: "token_shape start line column lx (uint8_token start line column lx)"
  by (auto simp: uint8_token_def Let_def split: option.splits)

lemma usize_token_shape: "token_shape start line column lx (usize_token start line column lx)"
  by (auto simp: usize_token_def Let_def split: option.splits)

lemma float_exponent_advances: "float_exponent lx = Some lx' \<Longrightarrow> advances lx lx'"
  by (auto simp: float_exponent_def Let_def bump_to_def split: if_splits)

lemma float_finish_shape: "token_shape start line column lx (float_finish start line column lx)"
  by (auto simp: float_finish_def Let_def split: option.splits)

lemma float_token_shape: "token_shape start line column lx (float_token start line column lx)"
proof -
  define lx1 where "lx1 = bump_while is_digit (advance lx)"
  have a1: "advances lx lx1"
    unfolding lx1_def by (rule advances_trans[OF advances_advance bump_while_advances])
  show ?thesis
    unfolding float_token_def Let_def lx1_def[symmetric]
    by (auto intro: token_shape_from[OF float_finish_shape] a1
        advances_trans[OF a1 float_exponent_advances] split: option.splits)
qed

lemma number_token_shape: "token_shape start line column lx (number_token start line column lx)"
  unfolding number_token_def Let_def
  by (auto intro: bump_while_advances token_shape_from[OF float_token_shape]
      token_shape_from[OF int32_token_shape] token_shape_from[OF uint8_token_shape]
      token_shape_from[OF usize_token_shape] split: option.splits)

lemma string_body_advances:
  "string_body start line column v lx = Ok (r, lx') \<Longrightarrow> advances lx lx'"
proof (induction start line column v lx rule: string_body.induct)
  case (1 start line column v lx)
  obtain c where c: "peek lx = Some c"
    using "1.prems" by (subst (asm) string_body.simps) (auto simp: fail_at_def split: option.splits)
  consider (quote) "c = 34" | (esc) "c = 92" | (other) "c \<noteq> 34" "c \<noteq> 92" by blast
  then show ?case
  proof cases
    case quote
    with c "1.prems" show ?thesis by (subst (asm) string_body.simps) auto
  next
    case esc
    with c "1.prems" obtain e lx1 where e: "string_escape start line column (advance lx) = Ok (e, lx1)"
      and body: "string_body start line column (v @ encode_utf8 e) lx1 = Ok (r, lx')"
      by (subst (asm) string_body.simps) (auto split: res.splits)
    have "advances lx1 lx'" using "1.IH"(1)[OF c _ _ e _ body] esc by simp
    then show ?thesis
      using string_escape_advances[OF e] advances_trans advances_advance by blast
  next
    case other
    with c "1.prems" have "string_body start line column (v @ encode_utf8 c) (advance lx) = Ok (r, lx')"
      by (subst (asm) string_body.simps) simp
    then have "advances (advance lx) lx'" using "1.IH"(2)[OF c] other by simp
    then show ?thesis using advances_trans advances_advance by blast
  qed
qed

lemma string_token_shape: "token_shape start line column lx (string_token start line column lx)"
  by (auto simp: string_token_def token_shape_def mk_token_def res_iff dest: string_body_advances)

lemma char_body_advances: "char_body start line column lx = Ok (c, lx') \<Longrightarrow> advances lx lx'"
  by (auto simp: char_body_def char_escape_def bump_eq fail_at_def
      intro: advances_trans[OF advances_advance] dest: unicode_escape_advances
      split: if_splits option.splits)

lemma char_token_shape: "token_shape start line column lx (char_token start line column lx)"
proof (cases "char_body start line column lx")
  case (Ok r)
  obtain c lx1 where r: "r = (c, lx1)" by (cases r)
  then have a: "advances lx lx1" using Ok char_body_advances by blast
  show ?thesis
    by (rule token_shape_from[OF _ a])
       (auto simp: char_token_def Ok r Let_def split: option.splits)
qed (auto simp: char_token_def token_shape_def)

lemmas token_shapes =
  number_token_shape string_token_shape char_token_shape

section \<open>Tokens\<close>

abbreviation cp :: "char \<Rightarrow> rchar" where
  "cp b \<equiv> of_char b"

text \<open>A one-character token, or the two-character one when the next character completes it.\<close>

definition either_token ::
  "rchar \<Rightarrow> token_kind \<Rightarrow> token_kind \<Rightarrow> nat \<Rightarrow> nat \<Rightarrow> nat \<Rightarrow> lexer \<Rightarrow> token lexed" where
  "either_token c two one start line column lx =
     (case take_char c lx of (taken, lx') \<Rightarrow>
        mk_token (if taken then two else one) start line column lx')"

definition next_token :: "lexer \<Rightarrow> token lexed" where
  "next_token lx0 =
     (let start = lx_offset lx0; line = lx_line lx0; column = lx_column lx0 in
      case bump lx0 of
        (None, _) \<Rightarrow> Panic
      | (Some c, lx) \<Rightarrow>
        let one = (\<lambda>k. mk_token k start line column lx);
            either = (\<lambda>c' two one. either_token c' two one start line column lx) in
        if c = cp (CHR ''@'') then one T_At
        else if c = cp (CHR ''('') then one T_LParen
        else if c = cp (CHR '')'') then one T_RParen
        else if c = cp (CHR ''{'') then one T_LBrace
        else if c = cp (CHR ''}'') then one T_RBrace
        else if c = cp (CHR ''['') then one T_LBracket
        else if c = cp (CHR '']'') then one T_RBracket
        else if c = cp (CHR '':'') then either (cp (CHR '':'')) T_ColonColon T_Colon
        else if c = cp (CHR ''.'') then one T_Dot
        else if c = cp (CHR '','') then one T_Comma
        else if c = cp (CHR '';'') then one T_Semicolon
        else if c = cp (CHR ''+'') then one T_Plus
        else if c = cp (CHR ''*'') then one T_Star
        else if c = cp (CHR ''%'') then one T_Percent
        else if c = cp (CHR ''?'') then one T_Question
        else if c = cp (CHR ''-'') then either (cp (CHR ''>'')) T_Arrow T_Minus
        else if c = cp (CHR ''/'') then one T_Slash
        else if c = cp (CHR ''!'') then either (cp (CHR ''='')) T_BangEq T_Bang
        else if c = cp (CHR ''='') then
          (case take_char (cp (CHR ''='')) lx of (taken, lx') \<Rightarrow>
             if taken then mk_token T_EqEq start line column lx'
             else either (cp (CHR ''>'')) T_FatArrow T_Eq)
        else if c = cp (CHR ''<'') then either (cp (CHR ''='')) T_Le T_Lt
        else if c = cp (CHR ''>'') then either (cp (CHR ''='')) T_Ge T_Gt
        else if c = cp (CHR ''&'') \<and> peek lx = Some (cp (CHR ''&''))
        then mk_token T_AndAnd start line column (advance lx)
        else if c = cp (CHR ''|'') then either (cp (CHR ''|'')) T_OrOr T_Pipe
        else if c = 34 then string_token start line column lx
        else if c = 39 then char_token start line column lx
        else if is_digit c then number_token start line column lx
        else if is_ident_start c then
          (let lx' = bump_while is_ident_continue lx in
           mk_token (T_Ident (slice start (lx_offset lx') (lx_source lx'))) start line column lx')
        else if c = cp (CHR ''&'') then
          fail_at ''SPX-P002''
            (''unexpected `'' @ encode_utf8 c @ ''`; did you mean `'' @ encode_utf8 c @ encode_utf8 c
             @ ''`?'')
            start line column lx
        else
          fail_at ''SPX-P001'' (''unexpected character `'' @ encode_utf8 c @ ''`'')
            start line column lx)"

lemma either_token_shape: "token_shape start line column lx (either_token c two one start line column lx)"
  if "two \<noteq> T_Eof" "one \<noteq> T_Eof"
  using that by (auto simp: either_token_def dest: take_char_advances split: prod.splits)

lemma next_token_shape:
  assumes "next_token lx = Ok (t, lx')"
  shows "advances (advance lx) lx'" "peek lx \<noteq> None"
    "tk_span t = span_from (lx_offset lx) (lx_line lx) (lx_column lx) lx'" "tk_kind t \<noteq> T_Eof"
proof -
  obtain c where c: "peek lx = Some c"
    using assms by (cases "peek lx") (auto simp: next_token_def Let_def bump_eq)
  have "token_shape (lx_offset lx) (lx_line lx) (lx_column lx) (advance lx) (next_token lx)"
    unfolding next_token_def Let_def bump_eq c
    by (simp add: token_shapes either_token_shape token_shape_mk bump_while_advances
        token_shape_mk[OF advances_advance]
        token_shape_mk[OF take_char_advances] split: prod.splits)
  with assms have a: "advances (advance lx) lx'"
      "tk_span t = span_from (lx_offset lx) (lx_line lx) (lx_column lx) lx'" "tk_kind t \<noteq> T_Eof"
    by (auto simp: token_shape_def)
  from a c show "advances (advance lx) lx'" "peek lx \<noteq> None"
    "tk_span t = span_from (lx_offset lx) (lx_line lx) (lx_column lx) lx'" "tk_kind t \<noteq> T_Eof"
    by auto
qed

section \<open>Trivia\<close>

definition push_comment :: "lexer \<Rightarrow> lexer \<Rightarrow> lexer" where
  "push_comment lx1 lx2 =
     lx2\<lparr>lx_comments := lx_comments lx2 @
       [\<lparr>c_text = trim_end (slice (lx_offset lx1 + 2) (lx_offset lx2) (lx_source lx2)),
         c_offset = lx_offset lx1, c_line = lx_line lx1,
         c_own_line = (\<not> lx_token_on_line lx1),
         c_previous_token_line = lx_previous_token_line lx2\<rparr>]\<rparr>"

lemma starts_with_slash: "starts_with ''//'' lx \<Longrightarrow> peek lx = Some 47"
  by (cases "lx_rest lx")
     (auto simp: starts_with_def peek_def decode_first_def split: if_splits)

function skip_trivia :: "lexer \<Rightarrow> lexer" where
  "skip_trivia lx =
     (let lx1 = bump_while is_whitespace lx in
      if starts_with ''//'' lx1
      then skip_trivia (push_comment lx1 (bump_while (\<lambda>c. c \<noteq> 10) lx1))
      else lx1)"
  by pat_completeness auto
termination
proof (relation "measure (\<lambda>lx. length (lx_source lx) - lx_offset lx)", goal_cases)
  case 1
  show ?case by simp
next
  case (2 lx lx1)
  then have p: "peek lx1 = Some 47" by (simp add: starts_with_slash)
  have "lx_offset lx \<le> lx_offset lx1" "lx_source lx1 = lx_source lx"
    using 2 advances_offset[OF bump_while_advances[of lx is_whitespace]] by simp_all
  with p show ?case
    using bump_while_progress[OF p, of "\<lambda>c. c \<noteq> 10"] peek_Some_less[OF p]
    by (simp add: push_comment_def)
qed

declare skip_trivia.simps [simp del]

lemma skip_trivia_frame:
  "lx_source (skip_trivia lx) = lx_source lx \<and> lx_offset lx \<le> lx_offset (skip_trivia lx)
     \<and> lx_path (skip_trivia lx) = lx_path lx"
proof (induction lx rule: skip_trivia.induct)
  case (1 lx)
  define lx1 where "lx1 = bump_while is_whitespace lx"
  have o1: "lx_offset lx \<le> lx_offset lx1"
    unfolding lx1_def by (rule advances_offset[OF bump_while_advances])
  have o2: "lx_offset lx1 \<le> lx_offset (bump_while (\<lambda>c. c \<noteq> 10) lx1)"
    by (rule advances_offset[OF bump_while_advances])
  have f1: "lx_source lx1 = lx_source lx" "lx_path lx1 = lx_path lx" by (simp_all add: lx1_def)
  show ?case
  proof (cases "starts_with ''//'' lx1")
    case True
    then have "skip_trivia lx = skip_trivia (push_comment lx1 (bump_while (\<lambda>c. c \<noteq> 10) lx1))"
      by (subst skip_trivia.simps) (simp add: Let_def lx1_def)
    then show ?thesis
      using "1.IH"[OF lx1_def True] o1 o2 f1 by (simp add: push_comment_def)
  next
    case False
    then have "skip_trivia lx = lx1"
      by (subst skip_trivia.simps) (simp add: Let_def lx1_def)
    then show ?thesis using o1 f1 by simp
  qed
qed

section \<open>The run\<close>

definition after_token :: "lexer \<Rightarrow> lexer" where
  "after_token lx = lx\<lparr>lx_token_on_line := True, lx_previous_token_line := lx_line lx\<rparr>"

text \<open>The \<open>while\<close> loop of \<open>lex_all\<close>; \<open>tokens\<close> is what it has pushed so far.\<close>

function lex_loop :: "token list \<Rightarrow> lexer \<Rightarrow> (token list) lexed" where
  "lex_loop tokens lx =
     (if lx_offset lx < length (lx_source lx) then
        let lx1 = skip_trivia lx in
        if length (lx_source lx1) \<le> lx_offset lx1 then Ok (tokens, lx1)
        else (case next_token lx1 of
                Ok (t, lx2) \<Rightarrow> lex_loop (tokens @ [t]) (after_token lx2)
              | Err d \<Rightarrow> Err d
              | Panic \<Rightarrow> Panic)
      else Ok (tokens, lx))"
  by pat_completeness auto
termination
proof (relation "measure (\<lambda>(ts, lx). length (lx_source lx) - lx_offset lx)", goal_cases)
  case 1
  show ?case by simp
next
  case (2 tokens lx lx1 x t lx2)
  then have n: "next_token lx1 = Ok (t, lx2)" by simp
  note sh = next_token_shape[OF n]
  obtain c where p: "peek lx1 = Some c" using sh(2) by auto
  have "lx_offset lx1 < lx_offset (advance lx1)"
    using p len_utf8_pos[of c] by (simp add: advance_offset)
  also have "\<dots> \<le> lx_offset lx2" by (rule advances_offset[OF sh(1)])
  finally have "lx_offset lx1 < lx_offset lx2" .
  moreover have "lx_source lx2 = lx_source lx1" using advances_frame(1)[OF sh(1)] by simp
  moreover have "lx_source lx1 = lx_source lx" "lx_offset lx \<le> lx_offset lx1"
    using 2 skip_trivia_frame[of lx] by simp_all
  ultimately show ?case
    using peek_Some_less[OF p] by (simp add: after_token_def)
qed

declare lex_loop.simps [simp del]

definition eof_token :: "lexer \<Rightarrow> token" where
  "eof_token lx =
     \<lparr>tk_kind = T_Eof, tk_span = span_from (lx_offset lx) (lx_line lx) (lx_column lx) lx\<rparr>"

definition lex_all :: "lexer \<Rightarrow> (diagnostic, token list \<times> comments) res" where
  "lex_all lx =
     res_bind (lex_loop [] lx) (\<lambda>(tokens, lx').
       let all = tokens @ [eof_token lx'] in
       Ok (all, \<lparr>cs_items = lx_comments lx',
                 cs_first_token_offset = sp_start (tk_span (hd all))\<rparr>))"

definition new_lexer :: "string \<Rightarrow> string \<Rightarrow> lexer" where
  "new_lexer source path =
     \<lparr>lx_source = source, lx_path = path, lx_offset = 0, lx_line = 1, lx_column = 1,
      lx_token_on_line = False, lx_previous_token_line = 0, lx_comments = []\<rparr>"

definition bom_error :: "string \<Rightarrow> diagnostic" where
  "bom_error path =
     with_help ''remove the UTF-8 byte-order mark before the `module` header''
       (at_path path
         (diag_error ''SPX-P001'' ''file starts with a UTF-8 byte-order mark''
           \<lparr>sp_start = 0, sp_end = len_utf8 0xFEFF, sp_line = 1, sp_column = 1\<rparr>))"

definition lex_with_comments :: "string \<Rightarrow> string \<Rightarrow> (diagnostic, token list \<times> comments) res" where
  "lex_with_comments source path =
     (if take (length (encode_utf8 0xFEFF)) source = encode_utf8 0xFEFF
      then Err (bom_error path)
      else lex_all (new_lexer source path))"

definition lex :: "string \<Rightarrow> string \<Rightarrow> (diagnostic, token list) res" where
  "lex source path = res_bind (lex_with_comments source path) (\<lambda>(tokens, _). Ok tokens)"

end
