(* ===== verification/FormatLiterals.thy ===== *)
theory FormatLiterals
  imports Diagnostics
begin

text \<open>
  The canonical text of char and string literals, \<open>canonical_char\<close> and \<open>canonical_string\<close> of
  \<open>src/format.rs\<close>.  They are the inverse the lexer is checked against.
\<close>

text \<open>\<open>{:x}\<close> of an unsigned integer.\<close>

fun show_hex :: "nat \<Rightarrow> string" where
  "show_hex n = (if n < 16 then [hex_digit n] else show_hex (n div 16) @ [hex_digit (n mod 16)])"

declare show_hex.simps [simp del]

definition unicode_text :: "nat \<Rightarrow> string" where
  "unicode_text n = [CHR 0x5C, CHR ''u'', CHR 0x7B] @ show_hex n @ [CHR 0x7D]"

definition char_escapes :: "(nat \<times> string) list" where
  "char_escapes =
     [(0x00, [CHR 0x5C, CHR ''0'']),
      (0x09, [CHR 0x5C, CHR ''t'']),
      (0x0A, [CHR 0x5C, CHR ''n'']),
      (0x0D, [CHR 0x5C, CHR ''r'']),
      (0x27, [CHR 0x5C, CHR 0x27]),
      (0x5C, [CHR 0x5C, CHR 0x5C])]"

definition canonical_char :: "nat \<Rightarrow> string" where
  "canonical_char v =
     [CHR 0x27]
     @ (case List.find (\<lambda>(scalar, _). scalar = v) char_escapes of
          Some (_, escape) \<Rightarrow> escape
        | None \<Rightarrow> if 0x20 \<le> v \<and> v \<le> 0x7E then encode_utf8 v else unicode_text v)
     @ [CHR 0x27]"

definition string_char_text :: "rchar \<Rightarrow> string" where
  "string_char_text c =
     (if c = 92 then [CHR 0x5C, CHR 0x5C]
      else if c = 34 then [CHR 0x5C, CHR 0x22]
      else if c = 10 then [CHR 0x5C, CHR ''n'']
      else if c = 13 then [CHR 0x5C, CHR ''r'']
      else if c = 9 then [CHR 0x5C, CHR ''t'']
      else if c < 0x20 \<or> c = 0x7F then unicode_text c
      else encode_utf8 c)"

definition canonical_string :: "string \<Rightarrow> string" where
  "canonical_string v = [CHR 0x22] @ concat (map string_char_text (chars v)) @ [CHR 0x22]"

lemma hex_digit_props:
  "n < 16 \<Longrightarrow> is_hexdigit (of_char (hex_digit n)) \<and> hex_val (hex_digit n) = n"
  by (auto simp: hex_digit_def is_hexdigit_def is_digit_def hex_val_def Let_def)

lemma hex_value_append: "hex_value (s @ [b]) = 16 * hex_value s + hex_val b"
  by (simp add: hex_value_def)

lemma show_hex_props:
  "show_hex n \<noteq> [] \<and> list_all (\<lambda>b. is_hexdigit (of_char b)) (show_hex n) \<and> hex_value (show_hex n) = n"
proof (induction n rule: show_hex.induct)
  case (1 n)
  show ?case
  proof (cases "n < 16")
    case True
    then have "show_hex n = [hex_digit n]" by (subst show_hex.simps) simp
    with True hex_digit_props[of n] show ?thesis by (simp add: hex_value_def)
  next
    case False
    then have "show_hex n = show_hex (n div 16) @ [hex_digit (n mod 16)]"
      by (subst show_hex.simps) simp
    with False 1 hex_digit_props[of "n mod 16"] show ?thesis
      by (simp add: hex_value_append)
  qed
qed

lemma length_show_hex: "n < 16 ^ k \<Longrightarrow> 0 < k \<Longrightarrow> length (show_hex n) \<le> k"
proof (induction k arbitrary: n)
  case 0
  then show ?case by simp
next
  case (Suc k)
  show ?case
  proof (cases "n < 16")
    case True
    then show ?thesis by (subst show_hex.simps) simp
  next
    case False
    then have "0 < k" using Suc.prems by (cases k) auto
    moreover have "n div 16 < 16 ^ k" using Suc.prems by (simp add: less_mult_imp_div_less)
    ultimately have "length (show_hex (n div 16)) \<le> k" by (simp add: Suc.IH)
    with False show ?thesis by (subst show_hex.simps) simp
  qed
qed

lemma parse_hex_show_hex: "n < 0x110000 \<Longrightarrow> parse_hex_u32 (show_hex n) = Some n"
  using show_hex_props[of n] by (simp add: parse_hex_u32_def)

end
