(* ===== verification/LexerProps.thy ===== *)
theory LexerProps
  imports LexerRun FormatLiterals
begin

text \<open>
  What the lexer guarantees.  \<open>cursor_at pre post\<close> says where a lexer stands in a well-formed
  source: \<open>pre\<close> is the text before the cursor, \<open>post\<close> the text after it, the offset is on a
  character boundary, and line and column are those of \<open>pre\<close>.
\<close>

section \<open>Where the cursor stands\<close>

definition line_after :: "rchar list \<Rightarrow> nat" where
  "line_after pre = 1 + count_list pre 10"

definition column_after :: "rchar list \<Rightarrow> nat" where
  "column_after pre = 1 + length (takeWhile (\<lambda>c. c \<noteq> 10) (rev pre))"

definition cursor_at :: "rchar list \<Rightarrow> rchar list \<Rightarrow> lexer \<Rightarrow> bool" where
  "cursor_at pre post lx \<longleftrightarrow>
     list_all is_scalar (pre @ post) \<and> lx_source lx = utf8 (pre @ post)
     \<and> lx_offset lx = length (utf8 pre) \<and> lx_line lx = line_after pre
     \<and> lx_column lx = column_after pre"

lemma cursor_at_rest: "cursor_at pre post lx \<Longrightarrow> lx_rest lx = utf8 post"
  by (simp add: cursor_at_def lx_rest_def)

lemma cursor_at_peek: "cursor_at pre (c # post) lx \<Longrightarrow> peek lx = Some c"
  using cursor_at_rest[of pre "c # post" lx]
  by (simp add: peek_def cursor_at_def decode_encode_utf8)

lemma cursor_at_end: "cursor_at pre [] lx \<Longrightarrow> peek lx = None \<and> advance lx = lx"
  using cursor_at_rest[of pre "[]" lx] by (simp add: peek_def advance_def bump_def)

lemma cursor_at_advance:
  assumes "cursor_at pre (c # post) lx"
  shows "cursor_at (pre @ [c]) post (advance lx)"
  using assms cursor_at_peek[OF assms]
  by (auto simp: cursor_at_def advance_def bump_def Let_def line_after_def column_after_def)

definition cursor_ok :: "rchar list \<Rightarrow> lexer \<Rightarrow> bool" where
  "cursor_ok cs lx \<longleftrightarrow> (\<exists>pre post. cs = pre @ post \<and> cursor_at pre post lx)"

lemma cursor_ok_advance: "cursor_ok cs lx \<Longrightarrow> cursor_ok cs (advance lx)"
proof -
  assume "cursor_ok cs lx"
  then obtain pre post where cs: "cs = pre @ post" and at: "cursor_at pre post lx"
    by (auto simp: cursor_ok_def)
  show ?thesis
  proof (cases post)
    case Nil
    with at cs show ?thesis using cursor_at_end[of pre lx] by (auto simp: cursor_ok_def)
  next
    case (Cons c rest)
    with at have "cursor_at (pre @ [c]) rest (advance lx)" by (simp add: cursor_at_advance)
    with cs Cons show ?thesis unfolding cursor_ok_def by (intro exI[of _ "pre @ [c]"] exI[of _ rest]) simp
  qed
qed

interpretation cursor: invariant_machine "\<lambda>lx (u :: unit). advance lx" "cursor_ok cs" for cs
  by unfold_locales (rule cursor_ok_advance)

lemma bump_n_foldl: "bump_n n lx = foldl (\<lambda>lx (u :: unit). advance lx) lx (replicate n ())"
proof (induction n arbitrary: lx)
  case 0
  show ?case by (simp add: bump_n_def)
next
  case (Suc n)
  then show ?case by (simp add: bump_n_def funpow_Suc_right del: funpow.simps)
qed

lemma cursor_ok_advances: "advances lx lx' \<Longrightarrow> cursor_ok cs lx \<Longrightarrow> cursor_ok cs lx'"
  by (auto simp: advances_def bump_n_foldl intro: cursor.inv_run)

lemma cursor_ok_frame:
  "lx_source lx' = lx_source lx \<Longrightarrow> lx_offset lx' = lx_offset lx \<Longrightarrow> lx_line lx' = lx_line lx
     \<Longrightarrow> lx_column lx' = lx_column lx \<Longrightarrow> cursor_ok cs lx \<Longrightarrow> cursor_ok cs lx'"
  by (simp add: cursor_ok_def cursor_at_def)

lemma cursor_ok_push_comment: "cursor_ok cs (push_comment lx1 lx2) = cursor_ok cs lx2"
  by (simp add: cursor_ok_def cursor_at_def push_comment_def)

lemma cursor_ok_after_token: "cursor_ok cs (after_token lx) = cursor_ok cs lx"
  by (simp add: cursor_ok_def cursor_at_def after_token_def)

lemma cursor_ok_skip_trivia: "cursor_ok cs lx \<Longrightarrow> cursor_ok cs (skip_trivia lx)"
proof (induction lx rule: skip_trivia.induct)
  case (1 lx)
  have ok1: "cursor_ok cs (bump_while is_whitespace lx)"
    using 1(2) cursor_ok_advances[OF bump_while_advances] by blast
  then have ok2: "cursor_ok cs (bump_while (\<lambda>c. c \<noteq> 10) (bump_while is_whitespace lx))"
    using cursor_ok_advances[OF bump_while_advances] by blast
  show ?case
    using 1(1)[OF refl] ok1 ok2
    by (subst skip_trivia.simps) (simp add: Let_def cursor_ok_push_comment)
qed

lemma cursor_ok_offset: "cursor_ok cs lx \<Longrightarrow> lx_offset lx \<le> length (lx_source lx)"
  by (auto simp: cursor_ok_def cursor_at_def)

section \<open>Trivia\<close>

text \<open>What may stand between tokens: whitespace, and comments that run to a line's end.\<close>

inductive trivia :: "rchar list \<Rightarrow> bool" where
  trivia_end: "trivia []"
| trivia_space: "is_whitespace c \<Longrightarrow> trivia t \<Longrightarrow> trivia (c # t)"
| trivia_comment: "list_all (\<lambda>c. c \<noteq> 10) body \<Longrightarrow> t = [] \<or> hd t = 10 \<Longrightarrow> trivia t
     \<Longrightarrow> trivia (47 # 47 # body @ t)"

lemma cursor_at_bump_while:
  "cursor_at pre post lx \<Longrightarrow>
     cursor_at (pre @ takeWhile P post) (dropWhile P post) (bump_while P lx)"
proof (induction post arbitrary: pre lx)
  case Nil
  then show ?case
    using cursor_at_end[OF Nil] by (subst bump_while.simps) simp
next
  case (Cons c post)
  note p = cursor_at_peek[OF Cons.prems]
  show ?case
  proof (cases "P c")
    case True
    then show ?thesis
      using Cons.IH[OF cursor_at_advance[OF Cons.prems]] p by (subst bump_while.simps) simp
  next
    case False
    then show ?thesis using Cons.prems p by (subst bump_while.simps) simp
  qed
qed

lemma utf8_slash_slash:
  assumes "list_all is_scalar post" "take 2 (utf8 post) = ''//''"
  obtains rest where "post = 47 # 47 # rest"
proof (cases post)
  case Nil
  with assms that show ?thesis by simp
next
  case (Cons c rest)
  have head: "x = 47" if sc: "is_scalar x" and hd: "take 1 (utf8 (x # xs)) = ''/''" for x xs
  proof -
    have "decode_first (utf8 (x # xs)) = Some (x, length (encode_utf8 x))"
      using sc by (simp add: decode_encode_utf8)
    moreover obtain r where "utf8 (x # xs) = CHR ''/'' # r"
      using hd by (cases "utf8 (x # xs)") (simp_all del: utf8_Cons)
    ultimately show "x = 47" by (auto simp: decode_first_def)
  qed
  have s: "is_scalar c" "list_all is_scalar rest" using assms(1) Cons by auto
  have "take 1 (utf8 (c # rest)) = ''/''"
    using assms(2) unfolding Cons by (cases "utf8 (c # rest)") (auto simp del: utf8_Cons)
  then have "c = 47" by (rule head[OF s(1)])
  then have c: "encode_utf8 c = ''/''" by (simp, code_simp)
  with assms(2) Cons have t: "take 1 (utf8 rest) = ''/''" by simp
  then obtain d rest' where d: "rest = d # rest'" by (cases rest) auto
  have "d = 47" using t d s(2) by (intro head[of d rest']) simp_all
  then show ?thesis using that Cons d \<open>c = 47\<close> by blast
qed

lemma trivia_append_space: "list_all is_whitespace ws \<Longrightarrow> trivia t \<Longrightarrow> trivia (ws @ t)"
  by (induction ws) (auto intro: trivia_space)

lemma cursor_at_push_comment:
  "cursor_at pre post (push_comment lx1 lx2) = cursor_at pre post lx2"
  by (simp add: cursor_at_def push_comment_def)

lemma cursor_at_after_token: "cursor_at pre post (after_token lx) = cursor_at pre post lx"
  by (simp add: cursor_at_def after_token_def)

lemma dropWhile_head: "dropWhile P xs = [] \<or> \<not> P (hd (dropWhile P xs))"
  by (induction xs) auto

lemma takeWhile_list_all: "list_all P (takeWhile P xs)"
  by (induction xs) auto

lemma cursor_at_skip_trivia:
  "cursor_at pre post lx \<Longrightarrow>
     \<exists>gap rest. post = gap @ rest \<and> trivia gap \<and> (rest = [] \<or> \<not> is_whitespace (hd rest))
       \<and> cursor_at (pre @ gap) rest (skip_trivia lx)"
proof (induction lx arbitrary: pre post rule: skip_trivia.induct)
  case (1 lx)
  define ws where "ws = takeWhile is_whitespace post"
  define post1 where "post1 = dropWhile is_whitespace post"
  define lx1 where "lx1 = bump_while is_whitespace lx"
  have post: "post = ws @ post1" by (simp add: ws_def post1_def)
  have ws: "list_all is_whitespace ws" by (simp add: ws_def takeWhile_list_all)
  have at1: "cursor_at (pre @ ws) post1 lx1"
    unfolding ws_def post1_def lx1_def by (rule cursor_at_bump_while[OF "1.prems"])
  show ?case
  proof (cases "starts_with ''//'' lx1")
    case False
    then have "skip_trivia lx = lx1"
      by (subst skip_trivia.simps) (simp add: Let_def lx1_def)
    moreover have "post1 = [] \<or> \<not> is_whitespace (hd post1)"
      unfolding post1_def by (rule dropWhile_head)
    moreover have "trivia ws" using trivia_append_space[OF ws trivia_end] by simp
    ultimately show ?thesis using post at1 by (intro exI[of _ ws] exI[of _ post1]) simp
  next
    case True
    define lx2 where "lx2 = bump_while (\<lambda>c. c \<noteq> 10) lx1"
    have sk: "skip_trivia lx = skip_trivia (push_comment lx1 lx2)"
      using True by (subst skip_trivia.simps) (simp add: Let_def lx1_def lx2_def)
    have "list_all is_scalar post1" using at1 by (simp add: cursor_at_def)
    moreover have "take 2 (utf8 post1) = ''//''"
      using True cursor_at_rest[OF at1] by (simp add: starts_with_def numeral_2_eq_2)
    ultimately obtain body0 where body0: "post1 = 47 # 47 # body0" by (rule utf8_slash_slash)
    define body where "body = takeWhile (\<lambda>c. c \<noteq> 10) body0"
    define post2 where "post2 = dropWhile (\<lambda>c. c \<noteq> 10) body0"
    have at2: "cursor_at (pre @ ws @ 47 # 47 # body) post2 (push_comment lx1 lx2)"
      using cursor_at_bump_while[OF at1, of "\<lambda>c. c \<noteq> 10"]
      by (simp add: cursor_at_push_comment lx2_def body0 body_def post2_def)
    from "1.IH"[OF lx1_def True at2[unfolded lx2_def]]
    obtain gap rest where g: "post2 = gap @ rest" "trivia gap" "rest = [] \<or> \<not> is_whitespace (hd rest)"
      "cursor_at ((pre @ ws @ 47 # 47 # body) @ gap) rest (skip_trivia lx)"
      using sk by (auto simp: lx2_def)
    have hd10: "gap = [] \<or> hd gap = 10"
    proof (cases gap)
      case (Cons a g')
      then have "hd post2 = a" "post2 \<noteq> []" using g(1) by auto
      then show ?thesis
        using dropWhile_head[of "\<lambda>c. c \<noteq> 10" body0, folded post2_def] Cons by simp
    qed simp
    have "trivia (ws @ 47 # 47 # body @ gap)"
      by (intro trivia_append_space[OF ws] trivia_comment hd10 g(2))
         (simp add: body_def takeWhile_list_all)
    moreover have "post = (ws @ 47 # 47 # body @ gap) @ rest"
      using post body0 g(1) takeWhile_dropWhile_id[of "\<lambda>c. c \<noteq> 10" body0]
      by (simp add: body_def post2_def)
    ultimately show ?thesis
      using g(3,4) by (intro exI[of _ "ws @ 47 # 47 # body @ gap"] exI[of _ rest]) simp
  qed
qed

section \<open>The token stream\<close>

text \<open>
  The tokens tile the text after \<open>pre\<close>: before each token only trivia, its span the bytes of a
  nonempty piece of text with the line and column of the text before it, and after the last one
  trivia to the end.
\<close>

definition token_at :: "rchar list \<Rightarrow> rchar list \<Rightarrow> token \<Rightarrow> bool" where
  "token_at pre mid t \<longleftrightarrow>
     mid \<noteq> [] \<and> tk_kind t \<noteq> T_Eof
     \<and> tk_span t = \<lparr>sp_start = length (utf8 pre), sp_end = length (utf8 (pre @ mid)),
                     sp_line = line_after pre, sp_column = column_after pre\<rparr>"

inductive tiles :: "rchar list \<Rightarrow> rchar list \<Rightarrow> token list \<Rightarrow> bool" where
  tiles_end: "trivia gap \<Longrightarrow> tiles pre gap []"
| tiles_token: "trivia gap \<Longrightarrow> token_at (pre @ gap) mid t \<Longrightarrow> tiles (pre @ gap @ mid) post ts
     \<Longrightarrow> tiles pre (gap @ mid @ post) (t # ts)"

lemma cursor_at_advances:
  assumes "advances lx lx'" and "cursor_at pre post lx"
  obtains mid rest where "post = mid @ rest" "cursor_at (pre @ mid) rest lx'"
proof -
  have "\<exists>mid rest. post = mid @ rest \<and> cursor_at (pre @ mid) rest lx'"
    using assms(1)
  proof (induction rule: advances_induct)
    case refl
    show ?case using assms(2) by (intro exI[of _ "[]"] exI[of _ post]) simp
  next
    case (step l)
    then obtain mid rest where m: "post = mid @ rest" "cursor_at (pre @ mid) rest l" by blast
    show ?case
    proof (cases rest)
      case Nil
      then show ?thesis using m cursor_at_end[of "pre @ mid" l] by auto
    next
      case (Cons c rest')
      then show ?thesis
        using m cursor_at_advance[of "pre @ mid" c rest' l]
        by (intro exI[of _ "mid @ [c]"] exI[of _ rest']) simp
    qed
  qed
  with that show thesis by blast
qed

lemma next_token_at:
  assumes at: "cursor_at pre post lx" and n: "next_token lx = Ok (t, lx')"
  obtains mid rest where "post = mid @ rest" "token_at pre mid t" "cursor_at (pre @ mid) rest lx'"
proof -
  note sh = next_token_shape[OF n]
  from sh(2) obtain c post1 where post: "post = c # post1"
    using cursor_at_end[of pre lx] at by (cases post) auto
  have "cursor_at (pre @ [c]) post1 (advance lx)" using at post by (simp add: cursor_at_advance)
  with sh(1) obtain mid rest where m: "post1 = mid @ rest" "cursor_at ((pre @ [c]) @ mid) rest lx'"
    by (rule cursor_at_advances)
  have "token_at pre (c # mid) t"
    using sh(3,4) at m(2) by (simp add: token_at_def span_from_def cursor_at_def)
  with post m show thesis by (intro that[of "c # mid" rest]) auto
qed

text \<open>No token routine panics: the \<open>expect\<close> in \<open>next_token\<close> is behind the loop's own guard.\<close>

lemma mk_token_not_Panic [simp]: "mk_token k s l c lx \<noteq> Panic"
  by (simp add: mk_token_def)

lemma fail_at_not_Panic [simp]: "fail_at code m s l c lx \<noteq> Panic"
  by (simp add: fail_at_def)

lemma unicode_escape_not_Panic [simp]: "unicode_escape code s l c lx \<noteq> Panic"
  by (auto simp: unicode_escape_def Let_def split: prod.splits option.splits)

lemma string_escape_not_Panic [simp]: "string_escape s l c lx \<noteq> Panic"
  by (auto simp: string_escape_def split: prod.splits option.splits)

lemma char_body_not_Panic [simp]: "char_body s l c lx \<noteq> Panic"
  by (auto simp: char_body_def char_escape_def split: prod.splits option.splits)

lemma string_body_not_Panic [simp]: "string_body s l c v lx \<noteq> Panic"
proof (induction s l c v lx rule: string_body.induct)
  case (1 s l c v lx)
  then show ?case
    by (subst string_body.simps) (auto split: option.splits res.splits)
qed

lemma int32_token_not_Panic [simp]: "int32_token s l c lx \<noteq> Panic"
  by (simp add: int32_token_def Let_def split: option.splits)

lemma uint8_token_not_Panic [simp]: "uint8_token s l c lx \<noteq> Panic"
  by (simp add: uint8_token_def Let_def split: option.splits)

lemma usize_token_not_Panic [simp]: "usize_token s l c lx \<noteq> Panic"
  by (simp add: usize_token_def Let_def split: option.splits)

lemma float_finish_not_Panic [simp]: "float_finish s l c lx \<noteq> Panic"
  by (simp add: float_finish_def Let_def split: option.splits)

lemma float_token_not_Panic [simp]: "float_token s l c lx \<noteq> Panic"
  by (simp add: float_token_def Let_def split: option.splits)

lemma number_token_not_Panic [simp]: "number_token s l c lx \<noteq> Panic"
  by (simp add: number_token_def Let_def split: option.splits)

lemma either_token_not_Panic [simp]: "either_token k a b s l c lx \<noteq> Panic"
  by (simp add: either_token_def split: prod.splits)

lemma string_token_not_Panic [simp]: "string_token s l c lx \<noteq> Panic"
  by (auto simp: string_token_def res_iff split: prod.splits)

lemma char_token_not_Panic [simp]: "char_token s l c lx \<noteq> Panic"
  by (auto simp: char_token_def res_iff Let_def split: prod.splits option.splits)

lemma next_token_not_Panic: "peek lx \<noteq> None \<Longrightarrow> next_token lx \<noteq> Panic"
proof -
  assume "peek lx \<noteq> None"
  then obtain c where c: "peek lx = Some c" by auto
  show ?thesis
    unfolding next_token_def Let_def bump_eq c
    by (simp split: prod.splits)
qed

lemma lex_loop_not_Panic: "lex_loop tokens lx \<noteq> Panic"
proof (induction tokens lx rule: lex_loop.induct)
  case (1 tokens lx)
  have "next_token (skip_trivia lx) \<noteq> Panic"
    if "\<not> length (lx_source (skip_trivia lx)) \<le> lx_offset (skip_trivia lx)"
    using that by (simp add: next_token_not_Panic peek_None_iff)
  then show ?case
    using 1 by (subst lex_loop.simps) (auto simp: Let_def split: res.splits)
qed

text \<open>What the loop appends to the tokens already pushed tiles the rest of the text.\<close>

lemma lex_loop_tiles:
  assumes "lex_loop tokens lx = Ok (out, lx')" and "cursor_at pre post lx"
  shows "\<exists>ts. out = tokens @ ts \<and> tiles pre post ts \<and> cursor_at (pre @ post) [] lx'"
  using assms
proof (induction tokens lx arbitrary: pre post rule: lex_loop.induct)
  case (1 tokens lx)
  define lx1 where "lx1 = skip_trivia lx"
  obtain gap rest where g: "post = gap @ rest" "trivia gap" "cursor_at (pre @ gap) rest lx1"
    using cursor_at_skip_trivia[OF "1.prems"(2)] unfolding lx1_def by blast
  have ended: "post' = []" if "cursor_at pre' post' l" "length (lx_source l) \<le> lx_offset l"
    for pre' post' l
    using that cursor_at_peek[of pre' _ _ l] by (cases post') (auto simp flip: peek_None_iff)
  show ?case
  proof (cases "lx_offset lx < length (lx_source lx)")
    case False
    then have "out = tokens" "lx' = lx" using "1.prems"(1) by (subst (asm) lex_loop.simps, simp)+
    moreover have "post = []" using ended[OF "1.prems"(2)] False by simp
    ultimately show ?thesis using "1.prems"(2) by (simp add: tiles_end trivia_end)
  next
    case True
    show ?thesis
    proof (cases "length (lx_source lx1) \<le> lx_offset lx1")
      case end1: True
      then have "out = tokens" "lx' = lx1"
        using "1.prems"(1) True by (subst (asm) lex_loop.simps, simp add: Let_def lx1_def)+
      moreover have "rest = []" using ended[OF g(3) end1] .
      ultimately show ?thesis using g by (simp add: tiles_end)
    next
      case False
      then obtain t lx2 where n: "next_token lx1 = Ok (t, lx2)"
        and loop: "lex_loop (tokens @ [t]) (after_token lx2) = Ok (out, lx')"
        using "1.prems"(1) True
        by (subst (asm) lex_loop.simps) (auto simp: Let_def lx1_def split: res.splits)
      obtain mid rest2 where m: "rest = mid @ rest2" "token_at (pre @ gap) mid t"
        "cursor_at ((pre @ gap) @ mid) rest2 lx2"
        by (rule next_token_at[OF g(3) n])
      obtain ts where ts: "out = (tokens @ [t]) @ ts" "tiles (pre @ gap @ mid) rest2 ts"
        "cursor_at (pre @ post) [] lx'"
        using "1.IH"[OF True lx1_def False n refl loop, of "pre @ gap @ mid" rest2] m(3) m(1) g(1)
        by (auto simp: cursor_at_after_token)
      then show ?thesis
        using tiles_token[OF g(2) m(2) ts(2)] g(1) m(1) by auto
    qed
  qed
qed

lemma cursor_at_new: "list_all is_scalar cs \<Longrightarrow> cursor_at [] cs (new_lexer (utf8 cs) path)"
  by (simp add: cursor_at_def new_lexer_def line_after_def column_after_def)

lemma lex_Ok_loop:
  assumes "lex source path = Ok ts"
  obtains out lx' where "lex_loop [] (new_lexer source path) = Ok (out, lx')"
    and "ts = out @ [eof_token lx']"
  using assms
  by (auto simp: lex_def lex_with_comments_def lex_all_def Let_def res_iff split: if_splits)

text \<open>
  Lexing any byte string ends in tokens or in a diagnostic: the run terminates and the
  \<open>expect\<close> in \<open>next_token\<close> is never reached without a character.
\<close>
theorem lex_never_panics: "lex source path \<noteq> Panic"
  by (auto simp: lex_def lex_with_comments_def lex_all_def Let_def res_iff lex_loop_not_Panic)

text \<open>
  C19: The token stream is lossless and exactly located: in a successful run the tokens tile the
  source in order, only whitespace and comments lie between them, every span is the byte range,
  line and column of its piece of text, and one \<open>Eof\<close> token stands at the end of the text.
\<close>
theorem lex_tiles_source:
  assumes "list_all is_scalar cs" and "lex (utf8 cs) path = Ok ts"
  shows "\<exists>out eof. ts = out @ [eof] \<and> tiles [] cs out \<and> tk_kind eof = T_Eof
     \<and> tk_span eof = \<lparr>sp_start = length (utf8 cs), sp_end = length (utf8 cs),
                       sp_line = line_after cs, sp_column = column_after cs\<rparr>"
proof -
  obtain out lx' where l: "lex_loop [] (new_lexer (utf8 cs) path) = Ok (out, lx')"
    and ts: "ts = out @ [eof_token lx']"
    by (rule lex_Ok_loop[OF assms(2)])
  have "tiles [] cs out" "cursor_at cs [] lx'"
    using lex_loop_tiles[OF l cursor_at_new[OF assms(1)]] by simp_all
  with ts show ?thesis
    by (intro exI[of _ out] exI[of _ "eof_token lx'"])
       (simp add: eof_token_def span_from_def cursor_at_def)
qed

definition sample_source :: "rchar list" where
  "sample_source = [97, 32, 47, 47, 233, 10, 40]"

definition sample_tokens :: "token list" where
  "sample_tokens =
     [\<lparr>tk_kind = T_Ident ''a'', tk_span = \<lparr>sp_start = 0, sp_end = 1, sp_line = 1, sp_column = 1\<rparr>\<rparr>,
      \<lparr>tk_kind = T_LParen, tk_span = \<lparr>sp_start = 7, sp_end = 8, sp_line = 2, sp_column = 1\<rparr>\<rparr>,
      \<lparr>tk_kind = T_Eof, tk_span = \<lparr>sp_start = 8, sp_end = 8, sp_line = 2, sp_column = 2\<rparr>\<rparr>]"

lemma lex_sample: "lex (utf8 sample_source) ''m.spx'' = Ok sample_tokens"
  by code_simp

theorem lex_tiles_source_witness:
  "\<exists>out eof. sample_tokens = out @ [eof] \<and> tiles [] sample_source out \<and> tk_kind eof = T_Eof
     \<and> tk_span eof = \<lparr>sp_start = length (utf8 sample_source), sp_end = length (utf8 sample_source),
                       sp_line = line_after sample_source, sp_column = column_after sample_source\<rparr>"
  by (rule lex_tiles_source[OF _ lex_sample]) code_simp

end
