(* ===== verification/LexerRound.thy ===== *)
theory LexerRound
  imports LexerProps
begin

text \<open>
  Round trips between the canonical literal texts of \<open>src/format.rs\<close> and the lexer: what the
  formatter prints for a string, a char or an integer value lexes back to one token that holds
  exactly that value.
\<close>

section \<open>Lexing a text of one token\<close>

lemma cursor_at_app:
  "cursor_at pre (c # post) lx \<Longrightarrow> peek lx = Some c \<and> cursor_at (pre @ [c]) post (advance lx)"
  by (simp add: cursor_at_peek cursor_at_advance)

lemma cursor_at_peek_Some: "cursor_at pre post lx \<Longrightarrow> peek lx = (case post of [] \<Rightarrow> None | c # _ \<Rightarrow> Some c)"
  using cursor_at_peek cursor_at_end by (cases post) auto

lemma skip_trivia_none:
  assumes "peek lx = Some c" "\<not> is_whitespace c" "c \<noteq> 47"
  shows "skip_trivia lx = lx"
proof -
  have "bump_while is_whitespace lx = lx" using assms by (subst bump_while.simps) simp
  moreover have "\<not> starts_with ''//'' lx" using assms starts_with_slash by auto
  ultimately show ?thesis by (subst skip_trivia.simps) (simp add: Let_def)
qed

lemma char_of_inj_ascii: "c < 0x80 \<Longrightarrow> d < 0x100 \<Longrightarrow> char_of c = (char_of d :: char) \<Longrightarrow> c = (d :: nat)"
proof -
  assume "c < 0x80" "d < 0x100" "char_of c = (char_of d :: char)"
  then have "(of_char (char_of c :: char) :: nat) = of_char (char_of d :: char)" by simp
  then show "c = d" using \<open>c < 0x80\<close> \<open>d < 0x100\<close> by simp
qed

lemma lex_single:
  assumes cs: "cs = c # rest" "list_all is_scalar cs" "c < 0x80" "\<not> is_whitespace c" "c \<noteq> 47"
    and tok: "\<And>lx. cursor_at [] cs lx \<Longrightarrow> \<exists>lx'. next_token lx = mk_token kind 0 1 1 lx' \<and> cursor_at cs [] lx'"
  shows "\<exists>t eof. lex (utf8 cs) path = Ok [t, eof] \<and> tk_kind t = kind \<and> tk_kind eof = T_Eof
           \<and> sp_start (tk_span t) = 0 \<and> sp_end (tk_span t) = length (utf8 cs)"
proof -
  let ?lx = "new_lexer (utf8 cs) path"
  have at: "cursor_at [] cs ?lx" by (rule cursor_at_new[OF cs(2)])
  obtain lx' where n: "next_token ?lx = mk_token kind 0 1 1 lx'" and e: "cursor_at cs [] lx'"
    using tok[OF at] by blast
  have p: "peek ?lx = Some c" using cursor_at_app at cs(1) by blast
  have sk: "skip_trivia ?lx = ?lx" by (rule skip_trivia_none[OF p cs(4,5)])
  have less: "lx_offset ?lx < length (lx_source ?lx)" by (rule peek_Some_less[OF p])
  let ?t = "\<lparr>tk_kind = kind, tk_span = span_from 0 1 1 lx'\<rparr>"
  have off: "lx_offset lx' = length (utf8 cs)" "lx_source lx' = utf8 cs"
    using e by (simp_all add: cursor_at_def)
  have fin: "lex_loop [?t] (after_token lx') = Ok ([?t], after_token lx')"
    by (subst lex_loop.simps) (simp add: after_token_def off)
  have loop: "lex_loop [] ?lx = Ok ([?t], after_token lx')"
    using less sk n fin by (subst lex_loop.simps) (simp add: Let_def mk_token_def)
  have nobom: "take (length (encode_utf8 0xFEFF)) (utf8 cs) \<noteq> encode_utf8 0xFEFF"
  proof
    assume "take (length (encode_utf8 0xFEFF)) (utf8 cs) = encode_utf8 0xFEFF"
    then have "char_of c = (char_of (0xEF :: nat) :: char)"
      using cs(1,3) by (simp add: encode_utf8_def)
    then have "c = 0xEF" using cs(3) by (intro char_of_inj_ascii) simp_all
    then show False using cs(3) by simp
  qed
  have "lex (utf8 cs) path = Ok [?t, eof_token (after_token lx')]"
    unfolding lex_def lex_with_comments_def lex_all_def if_not_P[OF nobom] loop
    by (simp add: Let_def)
  then show ?thesis
    by (intro exI[of _ ?t] exI[of _ "eof_token (after_token lx')"])
       (simp add: eof_token_def span_from_def off)
qed

section \<open>ASCII texts\<close>

definition ascii :: "string \<Rightarrow> bool" where
  "ascii s \<longleftrightarrow> list_all (\<lambda>b. (of_char b :: nat) < 0x80) s"

lemma ascii_utf8: "ascii s \<Longrightarrow> utf8 (map of_char s) = s"
  by (induction s) (auto simp: ascii_def encode_utf8_def)

lemma ascii_scalar: "ascii s \<Longrightarrow> list_all is_scalar (map of_char s)"
  by (induction s) (auto simp: ascii_def is_scalar_def)

lemma hexdigit_ascii: "list_all (\<lambda>b. is_hexdigit (of_char b)) s \<Longrightarrow> ascii s"
  by (auto simp: ascii_def list_all_iff is_hexdigit_def is_digit_def dest!: bspec)

lemma digit_ascii: "list_all byte_digit s \<Longrightarrow> ascii s"
  by (auto simp: ascii_def list_all_iff is_digit_def dest!: bspec)

lemma takeWhile_run: "list_all P xs \<Longrightarrow> ys = [] \<or> \<not> P (hd ys) \<Longrightarrow>
   takeWhile P (xs @ ys) = xs \<and> dropWhile P (xs @ ys) = ys"
  by (induction xs) (auto simp: takeWhile_eq_Nil_iff dropWhile_eq_self_iff)

lemma cursor_at_run:
  assumes "cursor_at pre (xs @ ys) lx" "list_all P xs" "ys = [] \<or> \<not> P (hd ys)"
  shows "cursor_at (pre @ xs) ys (bump_while P lx)"
  using cursor_at_bump_while[OF assms(1), of P] takeWhile_run[OF assms(2,3)] by simp

lemma cursor_at_slice:
  assumes "cursor_at pre (xs @ ys) lx" "cursor_at (pre @ xs) ys lx'"
  shows "slice (lx_offset lx) (lx_offset lx') (lx_source lx) = utf8 xs"
  using assms by (simp add: cursor_at_def slice_def)

section \<open>Unicode escapes\<close>

lemma unicode_escape_canonical:
  assumes at: "cursor_at pre (map of_char (show_hex n) @ 125 # post) lx" and n: "is_scalar n"
  shows "\<exists>lx'. unicode_escape code start line column lx = Ok (n, lx')
           \<and> cursor_at (pre @ map of_char (show_hex n) @ [125]) post lx'"
proof -
  let ?ds = "map of_char (show_hex n)"
  define lx1 where "lx1 = bump_while is_hexdigit lx"
  have hex: "list_all is_hexdigit ?ds" and ne: "show_hex n \<noteq> []"
    and hx: "list_all (\<lambda>b. is_hexdigit (of_char b)) (show_hex n)"
    using show_hex_props[of n] by (auto simp: list_all_iff)
  have a1: "cursor_at (pre @ ?ds) (125 # post) lx1"
    unfolding lx1_def by (rule cursor_at_run[OF at hex]) (simp add: is_hexdigit_def is_digit_def)
  have ds: "slice (lx_offset lx) (lx_offset lx1) (lx_source lx) = show_hex n"
    using cursor_at_slice[OF at a1] ascii_utf8[OF hexdigit_ascii[OF hx]] by simp
  have small: "n < 0x110000" using n by (auto simp: is_scalar_def)
  then have len: "length (show_hex n) \<le> 6" by (intro length_show_hex) simp_all
  have p: "peek lx1 = Some 125" "cursor_at (pre @ ?ds @ [125]) post (advance lx1)"
    using cursor_at_app[OF a1] by simp_all
  show ?thesis
    using p ds ne len parse_hex_show_hex[OF small] n
    by (intro exI[of _ "advance lx1"])
       (simp add: unicode_escape_def lx1_def[symmetric] take_char_def from_u32_def)
qed

section \<open>Strings\<close>

definition string_chars :: "rchar \<Rightarrow> rchar list" where
  "string_chars c =
     (if c \<in> {92, 34, 10, 13, 9} \<or> c < 0x20 \<or> c = 0x7F then map of_char (string_char_text c) else [c])"

lemma unicode_text_ascii: "ascii (unicode_text n)"
  using hexdigit_ascii[of "show_hex n"] show_hex_props[of n] by (simp add: unicode_text_def ascii_def)

lemma string_char_text_ascii:
  "c \<in> {92, 34, 10, 13, 9} \<or> c < 0x20 \<or> c = 0x7F \<Longrightarrow> ascii (string_char_text c)"
  using unicode_text_ascii[of c] by (auto simp: string_char_text_def ascii_def)

lemma string_chars_text: "utf8 (string_chars c) = string_char_text c"
proof (cases "c \<in> {92, 34, 10, 13, 9} \<or> c < 0x20 \<or> c = 0x7F")
  case True
  then show ?thesis
    unfolding string_chars_def if_P[OF True] by (rule ascii_utf8[OF string_char_text_ascii])
next
  case False
  then show ?thesis by (simp add: string_chars_def string_char_text_def)
qed

lemma string_chars_scalar: "is_scalar c \<Longrightarrow> list_all is_scalar (string_chars c)"
  using ascii_scalar[OF string_char_text_ascii] by (simp add: string_chars_def)

lemma canonical_string_utf8:
  "list_all is_scalar v \<Longrightarrow>
     canonical_string (utf8 v) = utf8 (34 # concat (map string_chars v) @ [34])"
proof -
  assume v: "list_all is_scalar v"
  have "utf8 (concat (map string_chars v)) = concat (map string_char_text v)"
    by (induction v) (simp_all add: string_chars_text)
  moreover have "encode_utf8 34 = [CHR 0x22]" by code_simp
  ultimately show ?thesis by (simp add: canonical_string_def chars_utf8[OF v])
qed

lemma string_escape_simple:
  assumes "cursor_at pre (e # post) lx"
    and "(e, c) \<in> {(110, 10), (114, 13), (116, 9), (34, 34), (92, 92)}"
  shows "string_escape start line column lx = Ok (c, advance lx)"
  using assms(2) cursor_at_app[OF assms(1)] by (auto simp: string_escape_def bump_eq)

lemma string_body_step:
  assumes at: "cursor_at pre (string_chars c @ post) lx" and c: "is_scalar c"
  shows "\<exists>lx'. string_body start line column v lx = string_body start line column (v @ encode_utf8 c) lx'
           \<and> cursor_at (pre @ string_chars c) post lx'"
proof -
  have esc: ?thesis
    if sc: "string_chars c = 92 # es" and se: "\<And>l. cursor_at (pre @ [92]) (es @ post) l \<Longrightarrow>
      \<exists>l'. string_escape start line column l = Ok (c, l') \<and> cursor_at (pre @ 92 # es) post l'" for es
  proof -
    have p: "peek lx = Some 92" "cursor_at (pre @ [92]) (es @ post) (advance lx)"
      using at cursor_at_app[of pre 92 "es @ post" lx] by (simp_all add: sc)
    obtain l' where l': "string_escape start line column (advance lx) = Ok (c, l')"
      "cursor_at (pre @ 92 # es) post l'"
      using se[OF p(2)] by blast
    have "string_body start line column v lx = string_body start line column (v @ encode_utf8 c) l'"
      using p l' by (subst string_body.simps) simp
    then show ?thesis using l'(2) sc by auto
  qed
  have simple: ?thesis if "string_chars c = [92, e]"
    and "(e, c) \<in> {(110, 10), (114, 13), (116, 9), (34, 34), (92, 92)}" for e
    using that(1) cursor_at_app string_escape_simple[OF _ that(2)]
    by (intro esc[of "[e]"]) fastforce+
  consider "c = 92" | "c = 34" | "c = 10" | "c = 13" | "c = 9"
    | (uni) "c \<notin> {92, 34, 10, 13, 9}" "c < 0x20 \<or> c = 0x7F"
    | (plain) "c \<notin> {92, 34, 10, 13, 9}" "\<not> (c < 0x20 \<or> c = 0x7F)" by blast
  then show ?thesis
  proof cases
    case uni
    let ?ds = "map of_char (show_hex c)"
    have sc: "string_chars c = 92 # 117 # 123 # ?ds @ [125]"
      using uni by (simp add: string_chars_def string_char_text_def unicode_text_def)
    show ?thesis
    proof (rule esc[OF sc])
      fix l assume a: "cursor_at (pre @ [92]) ((117 # 123 # ?ds @ [125]) @ post) l"
      then have 1: "peek l = Some 117" "cursor_at (pre @ [92, 117]) (123 # ?ds @ 125 # post) (advance l)"
        using cursor_at_app[of "pre @ [92]" 117 "123 # ?ds @ 125 # post" l] by simp_all
      have 2: "peek (advance l) = Some 123"
        "cursor_at (pre @ [92, 117, 123]) (?ds @ 125 # post) (advance (advance l))"
        using cursor_at_app[OF 1(2)] by simp_all
      show "\<exists>l'. string_escape start line column l = Ok (c, l')
             \<and> cursor_at (pre @ 92 # 117 # 123 # ?ds @ [125]) post l'"
        using unicode_escape_canonical[OF 2(2) c, of "''SPX-P005''" start line column] 1(1) 2(1)
        by (auto simp: string_escape_def bump_eq)
    qed
  next
    case plain
    then have sc: "string_chars c = [c]" by (simp add: string_chars_def)
    have "peek lx = Some c" "cursor_at (pre @ [c]) post (advance lx)"
      using at cursor_at_app[of pre c post lx] by (simp_all add: sc)
    moreover have "string_body start line column v lx
        = string_body start line column (v @ encode_utf8 c) (advance lx)"
      using plain \<open>peek lx = Some c\<close> by (subst string_body.simps) simp
    ultimately show ?thesis using sc by auto
  qed (rule simple; simp add: string_chars_def string_char_text_def)+
qed

lemma string_body_canonical:
  assumes "list_all is_scalar v" and "cursor_at pre (concat (map string_chars v) @ 34 # post) lx"
  shows "\<exists>lx'. string_body start line column acc lx = Ok (acc @ utf8 v, lx')
           \<and> cursor_at (pre @ concat (map string_chars v) @ [34]) post lx'"
  using assms
proof (induction v arbitrary: pre acc lx)
  case Nil
  then show ?case
    using cursor_at_app[of pre 34 post lx] by (subst string_body.simps) simp
next
  case (Cons c v)
  then have at: "cursor_at pre (string_chars c @ concat (map string_chars v) @ 34 # post) lx"
    and c: "is_scalar c" by simp_all
  obtain lx1 where s: "string_body start line column acc lx
      = string_body start line column (acc @ encode_utf8 c) lx1"
    "cursor_at (pre @ string_chars c) (concat (map string_chars v) @ 34 # post) lx1"
    using string_body_step[OF at c] by blast
  show ?case using Cons.IH[OF _ s(2), of "acc @ encode_utf8 c"] Cons.prems(1) s(1) by simp
qed

text \<open>
  C21: Printing a string literal and lexing it back gives its contents: for every Rust string the
  text \<open>canonical_string\<close> writes is one string token whose value is that string.
\<close>
theorem lex_canonical_string:
  assumes "list_all is_scalar v"
  shows "\<exists>t eof. lex (canonical_string (utf8 v)) path = Ok [t, eof]
     \<and> tk_kind t = T_String (utf8 v) \<and> tk_kind eof = T_Eof
     \<and> sp_start (tk_span t) = 0 \<and> sp_end (tk_span t) = length (canonical_string (utf8 v))"
  unfolding canonical_string_utf8[OF assms]
proof (rule lex_single[OF refl])
  show "list_all is_scalar (34 # concat (map string_chars v) @ [34])"
    using assms string_chars_scalar by (induction v) (auto simp: is_scalar_def)
  fix lx assume at: "cursor_at [] (34 # concat (map string_chars v) @ [34]) lx"
  have p: "peek lx = Some 34" "cursor_at [34] (concat (map string_chars v) @ 34 # []) (advance lx)"
    using cursor_at_app[OF at] by simp_all
  have o: "lx_offset lx = 0" "lx_line lx = 1" "lx_column lx = 1"
    using at by (simp_all add: cursor_at_def line_after_def column_after_def)
  show "\<exists>lx'. next_token lx = mk_token (T_String (utf8 v)) 0 1 1 lx'
         \<and> cursor_at (34 # concat (map string_chars v) @ [34]) [] lx'"
    using string_body_canonical[OF assms p(2), of 0 1 1 "[]"] p(1)
    by (auto simp: next_token_def bump_eq o string_token_def Let_def)
qed (simp_all add: is_whitespace_def)

section \<open>Chars\<close>

definition char_chars :: "nat \<Rightarrow> rchar list" where
  "char_chars v = map of_char (canonical_char v)"

lemma canonical_char_cases:
  obtains (escape) e where "(v, e) \<in> {(0, 48), (9, 116), (10, 110), (13, 114), (39, 39), (92, 92)}"
      "canonical_char v = [CHR 0x27, CHR 0x5C, char_of (e :: nat), CHR 0x27]" "e < 0x80"
    | (plain) "canonical_char v = [CHR 0x27, char_of v, CHR 0x27]" "0x20 \<le> v" "v \<le> 0x7E" "v \<notin> {39, 92}"
    | (uni) "canonical_char v = [CHR 0x27] @ unicode_text v @ [CHR 0x27]"
proof -
  consider "v = 0" | "v = 9" | "v = 10" | "v = 13" | "v = 39" | "v = 92"
    | (p) "v \<notin> {0, 9, 10, 13, 39, 92}" "0x20 \<le> v \<and> v \<le> 0x7E"
    | (u) "v \<notin> {0, 9, 10, 13, 39, 92}" "\<not> (0x20 \<le> v \<and> v \<le> 0x7E)" by blast
  then show thesis
  proof cases
    case p
    then show thesis
      by (intro plain) (simp_all add: canonical_char_def char_escapes_def encode_utf8_ascii)
  next
    case u
    then show thesis by (intro uni) (auto simp: canonical_char_def char_escapes_def)
  next
    case 1 show thesis by (rule escape[of 48]) (simp add: 1, simp only: 1, code_simp, simp)
  next
    case 2 show thesis by (rule escape[of 116]) (simp add: 2, simp only: 2, code_simp, simp)
  next
    case 3 show thesis by (rule escape[of 110]) (simp add: 3, simp only: 3, code_simp, simp)
  next
    case 4 show thesis by (rule escape[of 114]) (simp add: 4, simp only: 4, code_simp, simp)
  next
    case 5 show thesis by (rule escape[of 39]) (simp add: 5, simp only: 5, code_simp, simp)
  next
    case 6 show thesis by (rule escape[of 92]) (simp add: 6, simp only: 6, code_simp, simp)
  qed
qed

lemma canonical_char_ascii: "ascii (canonical_char v)"
proof (rule canonical_char_cases[of v])
  assume "canonical_char v = [CHR 0x27] @ unicode_text v @ [CHR 0x27]"
  then show ?thesis using unicode_text_ascii[of v] by (simp add: ascii_def)
qed (simp_all add: ascii_def)

lemma canonical_char_length: "3 \<le> length (canonical_char v)"
  by (rule canonical_char_cases[of v]) (simp_all add: unicode_text_def)

lemma char_chars_shape: "\<exists>mid. char_chars v = 39 # mid @ [39]"
  by (rule canonical_char_cases[of v]) (auto simp: char_chars_def)

lemma char_token_close:
  assumes "char_body 0 1 1 lx = Ok (v, lx1)" and at: "cursor_at pre [39] lx1"
  shows "char_token 0 1 1 lx = mk_token (T_Char (word_of_nat v)) 0 1 1 (advance lx1)
           \<and> cursor_at (pre @ [39]) [] (advance lx1)"
proof -
  have "peek lx1 = Some 39" "cursor_at (pre @ [39]) [] (advance lx1)"
    using cursor_at_app[OF at] by simp_all
  moreover have "peek (advance lx1) = None"
    using cursor_at_end[OF \<open>cursor_at (pre @ [39]) [] (advance lx1)\<close>] by simp
  ultimately show ?thesis using assms(1) by (simp add: char_token_def Let_def peek_is_def)
qed

lemma char_body_canonical:
  assumes at: "cursor_at [39] (mid @ [39]) lx" and mid: "char_chars v = 39 # mid @ [39]"
    and v: "is_scalar v"
  shows "\<exists>lx1. char_body 0 1 1 lx = Ok (v, lx1) \<and> cursor_at (39 # mid) [39] lx1"
proof (rule canonical_char_cases[of v])
  fix e assume e: "(v, e) \<in> {(0, 48), (9, 116), (10, 110), (13, 114), (39, 39), (92, 92)}"
      "canonical_char v = [CHR 0x27, CHR 0x5C, char_of (e :: nat), CHR 0x27]" "e < 0x80"
  then have m: "mid = [92, e]" using mid by (simp add: char_chars_def)
  have 1: "peek lx = Some 92" "cursor_at [39, 92] [e, 39] (advance lx)"
    using cursor_at_app[of "[39]" 92 "[e, 39]" lx] at by (simp_all add: m)
  have 2: "peek (advance lx) = Some e" "cursor_at [39, 92, e] [39] (advance (advance lx))"
    using cursor_at_app[OF 1(2)] by simp_all
  show ?thesis
    using 1 2 e(1) by (intro exI[of _ "advance (advance lx)"])
      (auto simp: char_body_def char_escape_def bump_eq m)
next
  assume p: "canonical_char v = [CHR 0x27, char_of v, CHR 0x27]" "0x20 \<le> v" "v \<le> 0x7E" "v \<notin> {39, 92}"
  then have m: "mid = [v]" using mid by (simp add: char_chars_def)
  have "peek lx = Some v" "cursor_at [39, v] [39] (advance lx)"
    using cursor_at_app[of "[39]" v "[39]" lx] at by (simp_all add: m)
  then show ?thesis using p by (intro exI[of _ "advance lx"]) (simp add: char_body_def bump_eq m)
next
  assume u: "canonical_char v = [CHR 0x27] @ unicode_text v @ [CHR 0x27]"
  let ?ds = "map of_char (show_hex v)"
  from u have m: "mid = 92 # 117 # 123 # ?ds @ [125]"
    using mid by (simp add: char_chars_def unicode_text_def)
  have 1: "peek lx = Some 92" "cursor_at [39, 92] (117 # 123 # ?ds @ [125, 39]) (advance lx)"
    using cursor_at_app[of "[39]" 92 "117 # 123 # ?ds @ [125, 39]" lx] at by (simp_all add: m)
  have 2: "peek (advance lx) = Some 117"
    "cursor_at [39, 92, 117] (123 # ?ds @ [125, 39]) (advance (advance lx))"
    using cursor_at_app[OF 1(2)] by simp_all
  have 3: "peek (advance (advance lx)) = Some 123"
    "cursor_at [39, 92, 117, 123] (?ds @ [125, 39]) (advance (advance (advance lx)))"
    using cursor_at_app[OF 2(2)] by simp_all
  show ?thesis
    using unicode_escape_canonical[OF 3(2) v, of "''SPX-P007''" 0 1 1] 1(1) 2(1) 3(1)
    by (auto simp: char_body_def char_escape_def bump_eq m)
qed

text \<open>
  Printing a char literal and lexing it back gives the scalar: the canonical text of every
  Unicode scalar value is one char token that holds it.
\<close>
theorem lex_canonical_char:
  assumes v: "is_scalar v"
  shows "\<exists>t eof. lex (canonical_char v) path = Ok [t, eof] \<and> tk_kind t = T_Char (word_of_nat v)
     \<and> tk_kind eof = T_Eof \<and> sp_start (tk_span t) = 0
     \<and> sp_end (tk_span t) = length (canonical_char v)"
proof -
  obtain mid where mid: "char_chars v = 39 # mid @ [39]" using char_chars_shape by blast
  have shown: "utf8 (char_chars v) = canonical_char v"
    unfolding char_chars_def by (rule ascii_utf8[OF canonical_char_ascii])
  have sc: "list_all is_scalar (char_chars v)"
    unfolding char_chars_def by (rule ascii_scalar[OF canonical_char_ascii])
  have "\<exists>t eof. lex (utf8 (char_chars v)) path = Ok [t, eof] \<and> tk_kind t = T_Char (word_of_nat v)
     \<and> tk_kind eof = T_Eof \<and> sp_start (tk_span t) = 0 \<and> sp_end (tk_span t) = length (utf8 (char_chars v))"
  proof (rule lex_single[OF mid sc])
    fix lx assume at: "cursor_at [] (char_chars v) lx"
    have p: "peek lx = Some 39" "cursor_at [39] (mid @ [39]) (advance lx)"
      using cursor_at_app[of "[]" 39 "mid @ [39]" lx] at mid by simp_all
    have o: "lx_offset lx = 0" "lx_line lx = 1" "lx_column lx = 1"
      using at by (simp_all add: cursor_at_def line_after_def column_after_def)
    obtain lx1 where b: "char_body 0 1 1 (advance lx) = Ok (v, lx1)" "cursor_at (39 # mid) [39] lx1"
      using char_body_canonical[OF p(2) mid v] by blast
    show "\<exists>lx'. next_token lx = mk_token (T_Char (word_of_nat v)) 0 1 1 lx'
        \<and> cursor_at (char_chars v) [] lx'"
      using char_token_close[OF b] p(1) mid
      by (auto simp: next_token_def bump_eq o Let_def)
  qed (simp_all add: is_whitespace_def)
  then show ?thesis by (simp add: shown)
qed

section \<open>Integers\<close>

lemma lex_single_error:
  assumes cs: "cs = c # rest" "list_all is_scalar cs" "c < 0x80" "\<not> is_whitespace c" "c \<noteq> 47"
    and tok: "next_token (new_lexer (utf8 cs) path) = Err d"
  shows "lex (utf8 cs) path = Err d"
proof -
  let ?lx = "new_lexer (utf8 cs) path"
  have at: "cursor_at [] cs ?lx" by (rule cursor_at_new[OF cs(2)])
  have p: "peek ?lx = Some c" using cursor_at_app at cs(1) by blast
  have "lex_loop [] ?lx = Err d"
    using skip_trivia_none[OF p cs(4,5)] peek_Some_less[OF p] tok
    by (subst lex_loop.simps) (simp add: Let_def)
  moreover have "take (length (encode_utf8 0xFEFF)) (utf8 cs) \<noteq> encode_utf8 0xFEFF"
  proof
    assume "take (length (encode_utf8 0xFEFF)) (utf8 cs) = encode_utf8 0xFEFF"
    then have "char_of c = (char_of (0xEF :: nat) :: char)"
      using cs(1,3) by (simp add: encode_utf8_def)
    then have "c = 0xEF" using cs(3) by (intro char_of_inj_ascii) simp_all
    then show False using cs(3) by simp
  qed
  ultimately show ?thesis by (simp add: lex_def lex_with_comments_def lex_all_def)
qed

lemma dec_value_zeros: "dec_value (dropWhile (\<lambda>b. b = CHR ''0'') s) = dec_value s"
  by (induction s) (simp_all add: dec_value_def digit_val_def)

lemma minimum_magnitude_show_nat:
  "is_signed_minimum_magnitude (show_nat n) I64_MIN_MAGNITUDE \<longleftrightarrow> n = 2 ^ 63"
proof
  assume "is_signed_minimum_magnitude (show_nat n) I64_MIN_MAGNITUDE"
  then have "dec_value I64_MIN_MAGNITUDE = dec_value (show_nat n)"
    using dec_value_zeros[of "show_nat n"] by (simp add: is_signed_minimum_magnitude_def)
  moreover have "dec_value I64_MIN_MAGNITUDE = 2 ^ 63"
    by (simp add: dec_value_def I64_MIN_MAGNITUDE_def digit_val_def)
  ultimately show "n = 2 ^ 63" using show_nat_digits[of n] by simp
next
  assume "n = 2 ^ 63"
  moreover have "is_signed_minimum_magnitude (show_nat (2 ^ 63)) I64_MIN_MAGNITUDE"
    by (simp add: show_nat.simps is_signed_minimum_magnitude_def I64_MIN_MAGNITUDE_def char_of_def bit_0)
  ultimately show "is_signed_minimum_magnitude (show_nat n) I64_MIN_MAGNITUDE" by simp
qed

lemma parse_signed_show_nat:
  "parse_signed bound (show_nat n) = (if n < bound then Some (int n) else None)"
proof -
  obtain b r where b: "show_nat n = b # r" "byte_digit b"
    using show_nat_digits[of n] by (cases "show_nat n") auto
  then have "b \<noteq> CHR ''-''" "b \<noteq> CHR ''+''" by (auto simp: is_digit_def)
  moreover have "parse_digits (b # r) = Some n" using parse_digits_show_nat[of n] by (simp add: b)
  ultimately show ?thesis by (simp add: parse_signed_def b(1))
qed

definition int_token :: "nat \<Rightarrow> token_kind option" where
  "int_token n = (if n < 2 ^ 63 then Some (T_Int (word_of_nat n))
     else if n = 2 ^ 63 then Some T_IntMinMagnitude else None)"

lemma next_token_show_nat:
  assumes at: "cursor_at [] (map of_char (show_nat n)) lx"
  shows "\<exists>lx'. cursor_at (map of_char (show_nat n)) [] lx'
     \<and> next_token lx = (case int_token n of Some k \<Rightarrow> mk_token k 0 1 1 lx'
         | None \<Rightarrow> fail_at ''SPX-P003'' ''integer literal is outside the i64 range'' 0 1 1 lx')"
proof -
  obtain b r where b: "show_nat n = b # r" "byte_digit b" "list_all byte_digit r"
    using show_nat_digits[of n] by (cases "show_nat n") auto
  have p: "peek lx = Some (of_char b)" "cursor_at [of_char b] (map of_char r) (advance lx)"
    using cursor_at_app[of "[]" "of_char b" "map of_char r" lx] at by (simp_all add: b)
  define lx' where "lx' = bump_while is_digit (advance lx)"
  have e: "cursor_at (map of_char (show_nat n)) [] lx'"
    using cursor_at_run[of "[of_char b]" "map of_char r" "[]" "advance lx" is_digit] p(2) b
    by (simp add: lx'_def list_all_iff)
  have pe: "peek lx' = None" using cursor_at_end[OF e] by simp
  have rest: "lx_rest lx' = []" using cursor_at_rest[OF e] by simp
  have o: "lx_offset lx = 0" "lx_line lx = 1" "lx_column lx = 1"
    using at by (simp_all add: cursor_at_def line_after_def column_after_def)
  have asc: "ascii (show_nat n)" using show_nat_digits[of n] by (simp add: digit_ascii)
  have shown: "slice 0 (lx_offset lx') (lx_source lx') = show_nat n"
    using e by (simp add: cursor_at_def slice_def ascii_utf8[OF asc])
  have range: "48 \<le> (of_char b :: nat)" "(of_char b :: nat) \<le> 57" using b(2) by (auto simp: is_digit_def)
  have w: "word_of_int (int n) = (word_of_nat n :: i64)" by simp
  have num: "number_token 0 1 1 (advance lx) = (case int_token n of Some k \<Rightarrow> mk_token k 0 1 1 lx'
         | None \<Rightarrow> fail_at ''SPX-P003'' ''integer literal is outside the i64 range'' 0 1 1 lx')"
    unfolding number_token_def Let_def lx'_def[symmetric]
    by (simp add: pe rest starts_with_def peek_is_def shown parse_signed_show_nat int_token_def
        minimum_magnitude_show_nat)
  have "next_token lx = number_token 0 1 1 (advance lx)"
    unfolding next_token_def Let_def bump_eq p(1) o
    using range by (simp add: is_digit_def)
  with num e show ?thesis by (intro exI[of _ lx']) simp
qed

text \<open>
  Decimal integers lex to their value at the width of \<open>i64\<close>: below \<open>2 ^ 63\<close> the token holds the
  number, the magnitude of the least \<open>i64\<close> is the one token kept for a following minus sign, and
  every larger number is the range error.
\<close>
theorem lex_show_nat:
  "case int_token n of
     Some kind \<Rightarrow> \<exists>t eof. lex (show_nat n) path = Ok [t, eof] \<and> tk_kind t = kind
       \<and> tk_kind eof = T_Eof \<and> sp_start (tk_span t) = 0
       \<and> sp_end (tk_span t) = length (show_nat n)
   | None \<Rightarrow> \<exists>d. lex (show_nat n) path = Err d \<and> d_code d = ''SPX-P003''"
proof -
  let ?cs = "map of_char (show_nat n) :: rchar list"
  have asc: "ascii (show_nat n)" using show_nat_digits[of n] by (simp add: digit_ascii)
  note shown = ascii_utf8[OF asc] and sc = ascii_scalar[OF asc]
  obtain b r where b: "show_nat n = b # r" "byte_digit b"
    using show_nat_digits[of n] by (cases "show_nat n") auto
  have cs: "?cs = of_char b # map of_char r" by (simp add: b)
  have h: "of_char b < (0x80 :: nat)" "\<not> is_whitespace (of_char b)" "of_char b \<noteq> (47 :: nat)"
    using b(2) by (auto simp: is_digit_def is_whitespace_def)
  show ?thesis
  proof (cases "int_token n")
    case (Some kind)
    have "\<exists>t eof. lex (utf8 ?cs) path = Ok [t, eof] \<and> tk_kind t = kind \<and> tk_kind eof = T_Eof
        \<and> sp_start (tk_span t) = 0 \<and> sp_end (tk_span t) = length (utf8 ?cs)"
      using next_token_show_nat[of n] Some by (intro lex_single[OF cs sc h]) auto
    then show ?thesis using Some by (simp add: shown)
  next
    case None
    obtain lx' where "next_token (new_lexer (utf8 ?cs) path)
        = fail_at ''SPX-P003'' ''integer literal is outside the i64 range'' 0 1 1 lx'"
      using next_token_show_nat[OF cursor_at_new[OF sc, of path]] None by auto
    then show ?thesis
      using lex_single_error[OF cs sc h] None
      by (simp add: shown fail_at_def lx_error_def at_path_def diag_error_def)
  qed
qed

section \<open>Instances\<close>

theorem lex_canonical_string_witness:
  "\<exists>t eof. lex (canonical_string (utf8 [34, 7, 233, 10])) ''m.spx'' = Ok [t, eof]
     \<and> tk_kind t = T_String (utf8 [34, 7, 233, 10]) \<and> tk_kind eof = T_Eof
     \<and> sp_start (tk_span t) = 0
     \<and> sp_end (tk_span t) = length (canonical_string (utf8 [34, 7, 233, 10]))"
  by (rule lex_canonical_string) code_simp

theorem lex_canonical_char_witness:
  "\<exists>t eof. lex (canonical_char 0x1F600) ''m.spx'' = Ok [t, eof]
     \<and> tk_kind t = T_Char (word_of_nat 0x1F600) \<and> tk_kind eof = T_Eof
     \<and> sp_start (tk_span t) = 0 \<and> sp_end (tk_span t) = length (canonical_char 0x1F600)"
  by (rule lex_canonical_char) code_simp

end
