(* ===== verification/Status.thy ===== *)
theory Status
  imports Diagnostics
begin

text \<open>
  Failure statuses (\<open>src/cleanup_plan.rs\<close> \<open>StatusCase\<close>, \<open>src/conformance.rs\<close>
  \<open>NormalizedStatus\<close>) and the invocation-scoped arena that stores them behind tokens
  (\<open>src/runtime_status.rs\<close>).  The process-wide counter \<open>NEXT_ARENA_INSTANCE\<close> is a \<open>u64\<close> the
  arena constructor takes and returns.
\<close>

section \<open>Statuses\<close>

datatype status_case =
    AddOverflow | SubOverflow | MulOverflow | DivisionByZero | DivisionOverflow
  | RemainderByZero | RemainderOverflow | NegationOverflow

fun status_case_code :: "status_case \<Rightarrow> u32" where
  "status_case_code AddOverflow = 1"
| "status_case_code SubOverflow = 2"
| "status_case_code MulOverflow = 3"
| "status_case_code DivisionByZero = 4"
| "status_case_code DivisionOverflow = 5"
| "status_case_code RemainderByZero = 6"
| "status_case_code RemainderOverflow = 7"
| "status_case_code NegationOverflow = 8"

datatype contract_phase = Requires | Ensures

datatype status_class = Contract | Arithmetic | Import | ExplicitClose | Adapter

datatype retryability = Known bool | Unknown

record normalized_status =
  ns_schema :: string
  ns_domain :: string
  ns_code :: u32
  ns_class :: status_class
  ns_retryable :: retryability

datatype status_definition_error =
    EmptyDomain | DomainTooLong | DomainContainsNul | ZeroCode | CompilerOwnedClass
  | CompilerOwnedDomain

definition STATUS_SCHEMA :: string where
  "STATUS_SCHEMA = ''semaprax.status.v1''"

definition ARITHMETIC_STATUS_DOMAIN :: string where
  "ARITHMETIC_STATUS_DOMAIN = ''semaprax.arithmetic.v1''"

definition CONTRACT_STATUS_DOMAIN :: string where
  "CONTRACT_STATUS_DOMAIN = ''semaprax.contract.v1''"

definition STATUS_DOMAIN_MAX_BYTES :: nat where
  "STATUS_DOMAIN_MAX_BYTES = 255"

definition status_try_new_trusted ::
  "string \<Rightarrow> u32 \<Rightarrow> status_class \<Rightarrow> retryability
     \<Rightarrow> (status_definition_error, normalized_status) res" where
  "status_try_new_trusted domain_id code cls retryable =
     (if domain_id = [] then Err EmptyDomain
      else if STATUS_DOMAIN_MAX_BYTES < length domain_id then Err DomainTooLong
      else if CHR 0x00 \<in> set domain_id then Err DomainContainsNul
      else if code = 0 then Err ZeroCode
      else Ok \<lparr>ns_schema = STATUS_SCHEMA, ns_domain = domain_id, ns_code = code,
               ns_class = cls, ns_retryable = retryable\<rparr>)"

definition status_try_new ::
  "string \<Rightarrow> u32 \<Rightarrow> status_class \<Rightarrow> retryability
     \<Rightarrow> (status_definition_error, normalized_status) res" where
  "status_try_new domain_id code cls retryable =
     (if cls = Contract \<or> cls = Arithmetic then Err CompilerOwnedClass
      else if domain_id = CONTRACT_STATUS_DOMAIN \<or> domain_id = ARITHMETIC_STATUS_DOMAIN
      then Err CompilerOwnedDomain
      else status_try_new_trusted domain_id code cls retryable)"

text \<open>\<open>.expect(\<dots>)\<close> on the result of a constructor.\<close>

fun expect_ok :: "('e, 'a) res \<Rightarrow> ('f, 'a) res" where
  "expect_ok (Ok x) = Ok x"
| "expect_ok (Err e) = Panic"
| "expect_ok Panic = Panic"

definition status_arithmetic :: "status_case \<Rightarrow> ('f, normalized_status) res" where
  "status_arithmetic c =
     expect_ok (status_try_new_trusted ARITHMETIC_STATUS_DOMAIN (status_case_code c) Arithmetic
       (Known False))"

definition contract_code :: "contract_phase \<Rightarrow> u32" where
  "contract_code phase = (case phase of Requires \<Rightarrow> 1 | Ensures \<Rightarrow> 2)"

definition status_contract :: "contract_phase \<Rightarrow> ('f, normalized_status) res" where
  "status_contract phase =
     expect_ok (status_try_new_trusted CONTRACT_STATUS_DOMAIN (contract_code phase) Contract
       (Known False))"

text \<open>The values behind the two \<open>expect\<close>s, which never fail.\<close>

definition arithmetic_status :: "status_case \<Rightarrow> normalized_status" where
  "arithmetic_status c =
     \<lparr>ns_schema = STATUS_SCHEMA, ns_domain = ARITHMETIC_STATUS_DOMAIN, ns_code = status_case_code c,
      ns_class = Arithmetic, ns_retryable = Known False\<rparr>"

definition contract_status :: "contract_phase \<Rightarrow> normalized_status" where
  "contract_status phase =
     \<lparr>ns_schema = STATUS_SCHEMA, ns_domain = CONTRACT_STATUS_DOMAIN, ns_code = contract_code phase,
      ns_class = Contract, ns_retryable = Known False\<rparr>"

lemma status_case_code_nz [simp]: "status_case_code c \<noteq> 0"
  by (cases c) simp_all

lemma status_case_code_inj: "status_case_code c = status_case_code d \<longleftrightarrow> c = d"
  by (cases c; cases d) simp_all

lemma status_arithmetic_Ok [simp]: "status_arithmetic c = Ok (arithmetic_status c)"
  by (simp add: status_arithmetic_def status_try_new_trusted_def ARITHMETIC_STATUS_DOMAIN_def
      STATUS_DOMAIN_MAX_BYTES_def arithmetic_status_def)

lemma contract_code_nz [simp]: "contract_code p \<noteq> 0"
  by (cases p) (simp_all add: contract_code_def)

lemma status_contract_Ok [simp]: "status_contract p = Ok (contract_status p)"
  by (simp add: status_contract_def status_try_new_trusted_def CONTRACT_STATUS_DOMAIN_def
      STATUS_DOMAIN_MAX_BYTES_def contract_status_def)

text \<open>What every status obeys, whoever built it.\<close>

definition status_ok :: "normalized_status \<Rightarrow> bool" where
  "status_ok s \<longleftrightarrow>
     ns_schema s = STATUS_SCHEMA \<and> 0 < length (ns_domain s)
     \<and> length (ns_domain s) \<le> STATUS_DOMAIN_MAX_BYTES \<and> CHR 0x00 \<notin> set (ns_domain s)
     \<and> ns_code s \<noteq> 0"

definition compiler_owned :: "normalized_status \<Rightarrow> bool" where
  "compiler_owned s \<longleftrightarrow>
     ns_class s \<in> {Contract, Arithmetic}
     \<or> ns_domain s \<in> {CONTRACT_STATUS_DOMAIN, ARITHMETIC_STATUS_DOMAIN}"

lemma status_try_new_trusted_Ok_iff:
  "status_try_new_trusted d c cl r = Ok s \<longleftrightarrow>
     d \<noteq> [] \<and> length d \<le> STATUS_DOMAIN_MAX_BYTES \<and> CHR 0x00 \<notin> set d \<and> c \<noteq> 0
     \<and> s = \<lparr>ns_schema = STATUS_SCHEMA, ns_domain = d, ns_code = c, ns_class = cl, ns_retryable = r\<rparr>"
  by (auto simp: status_try_new_trusted_def)

text \<open>
  An external producer cannot forge a compiler-owned status: whatever arguments \<open>try_new\<close> is
  given, a status it builds is well-formed (nonzero code, a domain of 1 to 255 bytes without NUL)
  and neither its class nor its domain is one of the compiler's, so it differs from every
  arithmetic and contract status.
\<close>
theorem status_try_new_not_forged:
  assumes "status_try_new domain_id code cls retryable = Ok s"
  shows "status_ok s \<and> \<not> compiler_owned s \<and> s \<noteq> arithmetic_status c \<and> s \<noteq> contract_status p"
  using assms
  by (auto simp: status_try_new_def status_try_new_trusted_Ok_iff status_ok_def compiler_owned_def
      arithmetic_status_def contract_status_def split: if_splits)

theorem status_try_new_not_forged_witness:
  "status_ok \<lparr>ns_schema = STATUS_SCHEMA, ns_domain = ''host.fs.v1'', ns_code = 7, ns_class = Import,
       ns_retryable = Unknown\<rparr>
     \<and> \<not> compiler_owned \<lparr>ns_schema = STATUS_SCHEMA, ns_domain = ''host.fs.v1'', ns_code = 7,
       ns_class = Import, ns_retryable = Unknown\<rparr>"
  using status_try_new_not_forged[of "''host.fs.v1''" 7 Import Unknown
      "\<lparr>ns_schema = STATUS_SCHEMA, ns_domain = ''host.fs.v1'', ns_code = 7, ns_class = Import,
       ns_retryable = Unknown\<rparr>"]
  by (simp add: status_try_new_def status_try_new_trusted_def STATUS_DOMAIN_MAX_BYTES_def
      CONTRACT_STATUS_DOMAIN_def ARITHMETIC_STATUS_DOMAIN_def)

section \<open>Its canonical text\<close>

fun status_class_text :: "status_class \<Rightarrow> string" where
  "status_class_text Contract = ''contract''"
| "status_class_text Arithmetic = ''arithmetic''"
| "status_class_text Import = ''import''"
| "status_class_text ExplicitClose = ''explicit_close''"
| "status_class_text Adapter = ''adapter''"

fun retryability_json :: "retryability \<Rightarrow> string" where
  "retryability_json (Known True) = ''true''"
| "retryability_json (Known False) = ''false''"
| "retryability_json Unknown = quote_json ''unknown''"

definition normalized_status_json :: "normalized_status \<Rightarrow> string" where
  "normalized_status_json s =
     ''{'' @ json_field ''schema'' (quote_json (ns_schema s)) @ '',''
      @ json_field ''domain_id'' (quote_json (ns_domain s)) @ '',''
      @ json_field ''code'' (show_nat (unat (ns_code s))) @ '',''
      @ json_field ''class'' (quote_json (status_class_text (ns_class s))) @ '',''
      @ json_field ''retryable'' (retryability_json (ns_retryable s)) @ ''}''"

end
