(* ===== verification/StatusArena.thy ===== *)
theory StatusArena
  imports Status
begin

text \<open>
  \<open>StatusArena\<close> of \<open>src/runtime_status.rs\<close>: append-only storage of statuses behind one-based
  \<open>u32\<close> tokens.  A scoped token carries the context and the arena instance that issued it.
\<close>

type_synonym status_token = u32

record scoped_token =
  st_context :: u64
  st_arena_instance :: u64
  st_token :: status_token

record status_arena =
  sa_context :: u64
  sa_arena_instance :: u64
  sa_capacity :: u32
  sa_records :: "normalized_status list"

datatype status_arena_error =
    ArenaIdentityExhausted
  | ArenaExhausted u32
  | TokenSpaceExhausted
  | SuccessHasNoRecord
  | UnknownToken status_token
  | WrongContext u64 u64
  | ForeignArena u64

text \<open>\<open>fetch_update\<close> on \<open>NEXT_ARENA_INSTANCE\<close>: the old value, unless the counter is spent.\<close>

definition arena_new ::
  "u64 \<Rightarrow> u64 \<Rightarrow> u32 \<Rightarrow> (status_arena_error, status_arena) res \<times> u64" where
  "arena_new next_instance context capacity =
     (if next_instance = - 1 then (Err ArenaIdentityExhausted, next_instance)
      else (Ok \<lparr>sa_context = context, sa_arena_instance = next_instance, sa_capacity = capacity,
                sa_records = []\<rparr>,
            next_instance + 1))"

definition arena_record ::
  "normalized_status \<Rightarrow> status_arena \<Rightarrow> (status_arena_error, scoped_token) res \<times> status_arena" where
  "arena_record status a =
     (let n = length (sa_records a) in
      if unat (sa_capacity a) \<le> n then (Err (ArenaExhausted (sa_capacity a)), a)
      else
        case (if n < 2 ^ 32 then u_checked_add (word_of_nat n) 1 else None) of
          None \<Rightarrow> (Err TokenSpaceExhausted, a)
        | Some raw \<Rightarrow>
          (Ok \<lparr>st_context = sa_context a, st_arena_instance = sa_arena_instance a, st_token = raw\<rparr>,
           a\<lparr>sa_records := sa_records a @ [status]\<rparr>))"

definition arena_record_arithmetic ::
  "status_case \<Rightarrow> status_arena \<Rightarrow> (status_arena_error, scoped_token) res \<times> status_arena" where
  "arena_record_arithmetic c a =
     (case status_arithmetic c of
        Ok s \<Rightarrow> arena_record s a
      | Err e \<Rightarrow> (Err e, a)
      | Panic \<Rightarrow> (Panic, a))"

definition arena_record_contract ::
  "contract_phase \<Rightarrow> status_arena \<Rightarrow> (status_arena_error, scoped_token) res \<times> status_arena" where
  "arena_record_contract p a =
     (case status_contract p of
        Ok s \<Rightarrow> arena_record s a
      | Err e \<Rightarrow> (Err e, a)
      | Panic \<Rightarrow> (Panic, a))"

definition arena_resolve_local ::
  "status_arena \<Rightarrow> status_token \<Rightarrow> (status_arena_error, normalized_status) res" where
  "arena_resolve_local a token =
     (if token = 0 then Err SuccessHasNoRecord
      else
        let index = unat (token - 1) in
        if index < length (sa_records a) then Ok (sa_records a ! index) else Err (UnknownToken token))"

definition arena_resolve ::
  "status_arena \<Rightarrow> scoped_token \<Rightarrow> (status_arena_error, normalized_status) res" where
  "arena_resolve a scoped =
     (if st_context scoped \<noteq> sa_context a
      then Err (WrongContext (sa_context a) (st_context scoped))
      else if st_arena_instance scoped \<noteq> sa_arena_instance a then Err (ForeignArena (sa_context a))
      else arena_resolve_local a (st_token scoped))"

section \<open>Records are only appended\<close>

definition arena_extends :: "status_arena \<Rightarrow> status_arena \<Rightarrow> bool" where
  "arena_extends a b \<longleftrightarrow>
     sa_context b = sa_context a \<and> sa_arena_instance b = sa_arena_instance a
     \<and> sa_capacity b = sa_capacity a \<and> (\<exists>more. sa_records b = sa_records a @ more)"

definition arena_step :: "status_arena \<Rightarrow> normalized_status \<Rightarrow> status_arena" where
  "arena_step a s = snd (arena_record s a)"

lemma arena_record_extends: "arena_extends a (snd (arena_record s a))"
  by (simp add: arena_extends_def arena_record_def Let_def split: option.split)

interpretation arena: monotone_machine arena_step arena_extends
proof
  fix s t u :: status_arena
  show "arena_extends s s" by (simp add: arena_extends_def)
  show "arena_extends s t \<Longrightarrow> arena_extends t u \<Longrightarrow> arena_extends s u"
    by (auto simp: arena_extends_def)
qed (simp add: arena_step_def arena_record_extends)

definition arena_ok :: "status_arena \<Rightarrow> bool" where
  "arena_ok a \<longleftrightarrow> length (sa_records a) \<le> unat (sa_capacity a)"

interpretation arena_bounds: invariant_machine arena_step arena_ok
  by unfold_locales
     (auto simp: arena_ok_def arena_step_def arena_record_def Let_def split: option.split)

lemma u_checked_add_one:
  assumes "n < 2 ^ 32 - 1"
  shows "u_checked_add (word_of_nat n) 1 = Some (word_of_nat (Suc n) :: u32)"
proof -
  have n: "n + 1 < 2 ^ LENGTH(32)" using assms by (simp only: len_num0 len_bit0 len_num1) simp
  then have "unat (word_of_nat n :: u32) = n" by (intro unat_word_of_nat) linarith
  then have "unat (word_of_nat n :: u32) + unat (1 :: u32) < 2 ^ LENGTH(32)" using n by (simp only: unat_1)
  moreover have "word_of_nat n + 1 = (word_of_nat (Suc n) :: u32)" by simp
  ultimately show ?thesis by (simp only: u_checked_add_def if_True)
qed

lemma arena_record_Ok:
  assumes "arena_record s a = (Ok t, b)"
  shows "st_context t = sa_context a" "st_arena_instance t = sa_arena_instance a"
    "unat (st_token t) = Suc (length (sa_records a))" "b = a\<lparr>sa_records := sa_records a @ [s]\<rparr>"
    "length (sa_records a) < unat (sa_capacity a)"
proof -
  define n where "n = length (sa_records a)"
  have n: "n < unat (sa_capacity a)" "n < 2 ^ 32 - 1"
    using assms unsigned_less[of "sa_capacity a", where 'a = nat]
    by (auto simp: arena_record_def Let_def n_def split: if_splits)
  then have add: "u_checked_add (word_of_nat n) 1 = Some (word_of_nat (Suc n) :: u32)"
    by (intro u_checked_add_one)
  have t: "t = \<lparr>st_context = sa_context a, st_arena_instance = sa_arena_instance a,
                st_token = word_of_nat (Suc n)\<rparr>"
    and b: "b = a\<lparr>sa_records := sa_records a @ [s]\<rparr>"
    using assms n add by (auto simp: arena_record_def Let_def simp flip: n_def)
  show "st_context t = sa_context a" "st_arena_instance t = sa_arena_instance a"
    "b = a\<lparr>sa_records := sa_records a @ [s]\<rparr>" "length (sa_records a) < unat (sa_capacity a)"
    using t b n by (simp_all add: n_def)
  show "unat (st_token t) = Suc (length (sa_records a))"
    using n(2) unat_word_of_nat[of "Suc n", where 'a = 32] by (simp add: t n_def)
qed

lemma arena_extends_resolve:
  assumes "arena_extends a b" "arena_resolve a t = Ok s"
  shows "arena_resolve b t = Ok s"
  using assms
  by (auto simp: arena_extends_def arena_resolve_def arena_resolve_local_def Let_def nth_append
      split: if_splits)

text \<open>
  A token resolves to the status it was issued for, for as long as the arena lives: after a
  successful \<open>record\<close>, no number of further records, failed ones included, changes or loses it.
\<close>
theorem arena_record_resolve:
  assumes "arena_record s a = (Ok t, b)"
  shows "arena_resolve (foldl arena_step b later) t = Ok s \<and> st_token t \<noteq> 0"
proof -
  note r = arena_record_Ok[OF assms]
  have nz: "st_token t \<noteq> 0" using r(3) by auto
  then have "unat (st_token t - 1) = length (sa_records a)"
    using r(3) by (simp add: unat_minus_one)
  with nz r(1,2,4) have "arena_resolve b t = Ok s"
    by (simp add: arena_resolve_def arena_resolve_local_def)
  then show ?thesis using nz arena_extends_resolve[OF arena.rel_run] by blast
qed

text \<open>
  Exhaustion is a harness error and never a status: a full arena answers \<open>record\<close> with
  \<open>Exhausted\<close>, keeps its records and its tokens, and an arena with room always accepts.
\<close>
theorem arena_record_capacity:
  "(case arena_record s a of
      (Ok t, b) \<Rightarrow> length (sa_records a) < unat (sa_capacity a)
        \<and> length (sa_records b) = Suc (length (sa_records a))
    | (Err e, b) \<Rightarrow> unat (sa_capacity a) \<le> length (sa_records a)
        \<and> e = ArenaExhausted (sa_capacity a) \<and> b = a
    | (Panic, b) \<Rightarrow> False)"
proof (cases "unat (sa_capacity a) \<le> length (sa_records a)")
  case True
  then show ?thesis by (simp add: arena_record_def)
next
  case False
  then have "length (sa_records a) < 2 ^ 32 - 1" using unsigned_less[of "sa_capacity a", where 'a = nat] by simp
  with False show ?thesis using u_checked_add_one by (simp add: arena_record_def Let_def)
qed

text \<open>
  Arenas made one after the other from the process-wide counter.  \<open>arenas_from\<close> is the list of
  the arenas a run of constructor calls made.
\<close>

fun arenas_from :: "u64 \<Rightarrow> (u64 \<times> u32) list \<Rightarrow> status_arena list" where
  "arenas_from counter [] = []"
| "arenas_from counter ((context, capacity) # calls) =
     (case arena_new counter context capacity of
        (Ok a, counter') \<Rightarrow> a # arenas_from counter' calls
      | (_, counter') \<Rightarrow> arenas_from counter' calls)"

lemma arenas_from_instance:
  "a \<in> set (arenas_from counter calls) \<Longrightarrow> counter \<le> sa_arena_instance a"
proof (induction calls arbitrary: counter)
  case (Cons call calls)
  show ?case
  proof (cases "counter = - 1")
    case True
    then show ?thesis using Cons by (cases call) (simp add: arena_new_def)
  next
    case False
    then have "counter \<le> counter + 1" by (simp add: word_less_Suc less_imp_le)
    with False Cons show ?thesis
      by (cases call) (auto simp: arena_new_def intro: order_trans)
  qed
qed simp

lemma arenas_from_distinct: "distinct (map sa_arena_instance (arenas_from counter calls))"
proof (induction calls arbitrary: counter)
  case (Cons call calls)
  show ?case
  proof (cases "counter = - 1")
    case True
    then show ?thesis using Cons by (cases call) (simp add: arena_new_def)
  next
    case False
    then have "counter < counter + 1" by (rule word_less_Suc)
    then have "counter \<notin> sa_arena_instance ` set (arenas_from (counter + 1) calls)"
      using arenas_from_instance[of _ "counter + 1" calls] by (force simp: not_le)
    with False Cons show ?thesis by (cases call) (simp add: arena_new_def)
  qed
qed simp

text \<open>
  Tokens do not cross arenas: of all arenas one process makes, in the same context or not, a
  token of one never resolves in another, whatever both record in between.
\<close>
theorem arena_token_foreign:
  assumes "i < length (arenas_from counter calls)" and "j < length (arenas_from counter calls)"
    and "i \<noteq> j"
    and "arena_record s (foldl arena_step (arenas_from counter calls ! i) before) = (Ok t, b)"
  shows "\<not> is_ok (arena_resolve (foldl arena_step (arenas_from counter calls ! j) between) t)"
proof -
  let ?as = "arenas_from counter calls"
  have "sa_arena_instance (?as ! i) \<noteq> sa_arena_instance (?as ! j)"
    using assms(1-3) arenas_from_distinct[of counter calls] by (auto simp: distinct_conv_nth)
  moreover have "sa_arena_instance (foldl arena_step (?as ! i) before) = sa_arena_instance (?as ! i)"
    "sa_arena_instance (foldl arena_step (?as ! j) between) = sa_arena_instance (?as ! j)"
    using arena.rel_run by (simp_all add: arena_extends_def)
  ultimately show ?thesis
    using arena_record_Ok(2)[OF assms(4)] by (simp add: arena_resolve_def)
qed

section \<open>Instances\<close>

definition sample_status :: normalized_status where
  "sample_status = arithmetic_status DivisionByZero"

definition sample_arena :: status_arena where
  "sample_arena = \<lparr>sa_context = 9, sa_arena_instance = 1, sa_capacity = 2, sa_records = []\<rparr>"

theorem arena_record_resolve_witness:
  "arena_resolve (foldl arena_step (snd (arena_record sample_status sample_arena))
      [arithmetic_status AddOverflow, contract_status Requires])
     \<lparr>st_context = 9, st_arena_instance = 1, st_token = 1\<rparr> = Ok sample_status"
  using arena_record_resolve[of sample_status sample_arena
      "\<lparr>st_context = 9, st_arena_instance = 1, st_token = 1\<rparr>"
      "snd (arena_record sample_status sample_arena)"
      "[arithmetic_status AddOverflow, contract_status Requires]"]
  by (simp add: arena_record_def sample_arena_def u_checked_add_def)

theorem arena_token_foreign_witness:
  "\<not> is_ok (arena_resolve (foldl arena_step (arenas_from 1 [(9, 2), (9, 2)] ! 1) [sample_status])
      \<lparr>st_context = 9, st_arena_instance = 1, st_token = 1\<rparr>)"
  using arena_token_foreign[of 0 1 "[(9, 2), (9, 2)]" 1 sample_status "[]"
      "\<lparr>st_context = 9, st_arena_instance = 1, st_token = 1\<rparr>"
      "sample_arena\<lparr>sa_records := [sample_status]\<rparr>" "[sample_status]"]
  by (simp add: arena_new_def arena_record_def sample_arena_def u_checked_add_def)

end
