(* ===== verification/ScalarEval.thy ===== *)
theory ScalarEval
  imports Status RustFloat
begin

text \<open>
  Scalar evaluation of the interpreter (\<open>src/interpreter.rs\<close>): the typed binary operation
  \<open>combine\<close>, \<open>float_ordered\<close>, and the unary and binary arms of \<open>evaluate\<close> with their
  short-circuit rules.  Values are the \<open>Value\<close> enum; the carriers no scalar operation looks into
  (functions, closures, bytes, vectors, records, variants, views) are one constructor over a type
  parameter.  Integers are words of the code's width, floats the formats of \<open>RustFloat\<close>.
\<close>

section \<open>Operators and values\<close>

datatype unary_op = Neg | Not

datatype binary_op = Add | Sub | Mul | Div | Rem | EqOp | NeOp | LtOp | LeOp | GtOp | GeOp | And | Or

fun precedence :: "binary_op \<Rightarrow> nat" where
  "precedence Or = 1"
| "precedence And = 2"
| "precedence EqOp = 3" | "precedence NeOp = 3"
| "precedence LtOp = 4" | "precedence LeOp = 4" | "precedence GtOp = 4" | "precedence GeOp = 4"
| "precedence Add = 5" | "precedence Sub = 5"
| "precedence Mul = 6" | "precedence Div = 6" | "precedence Rem = 6"

fun binary_text :: "binary_op \<Rightarrow> string" where
  "binary_text Add = ''+''" | "binary_text Sub = ''-''" | "binary_text Mul = ''*''"
| "binary_text Div = ''/''" | "binary_text Rem = ''%''" | "binary_text EqOp = ''==''"
| "binary_text NeOp = ''!=''" | "binary_text LtOp = ''<''" | "binary_text LeOp = ''<=''"
| "binary_text GtOp = ''>''" | "binary_text GeOp = ''>=''" | "binary_text And = ''&&''"
| "binary_text Or = ''||''"

datatype 'x rvalue =
    V_Int i64 | V_Int32 i32 | V_Uint8 u8 | V_Usize u64 | V_Char u32
  | V_Float32 fl | V_Float64 fl | V_Bool bool | V_String string | V_Carrier 'x

datatype 'x flow =
    Failure normalized_status
  | Residual "'x rvalue"
  | Exhausted
  | DepthExceeded
  | Cancelled nat
  | Utf8MaterializationLimitExceeded u64 u64
  | Guard string

section \<open>The typed binary operation\<close>

type_synonym 'x combined = "(normalized_status, 'x rvalue) res option"

definition arithmetic_outcome :: "'x rvalue option \<Rightarrow> status_case \<Rightarrow> 'x combined" where
  "arithmetic_outcome outcome c =
     (case outcome of
        None \<Rightarrow> Some (res_bind (status_arithmetic c) Err)
      | Some v \<Rightarrow> Some (Ok v))"

definition ordered_outcome :: "binary_op \<Rightarrow> bool \<Rightarrow> bool \<Rightarrow> 'x combined" where
  "ordered_outcome op lt eq =
     (case op of
        EqOp \<Rightarrow> Some (Ok (V_Bool eq))
      | NeOp \<Rightarrow> Some (Ok (V_Bool (\<not> eq)))
      | LtOp \<Rightarrow> Some (Ok (V_Bool lt))
      | LeOp \<Rightarrow> Some (Ok (V_Bool (lt \<or> eq)))
      | GtOp \<Rightarrow> Some (Ok (V_Bool (\<not> lt \<and> \<not> eq)))
      | GeOp \<Rightarrow> Some (Ok (V_Bool (\<not> lt)))
      | _ \<Rightarrow> None)"

definition float_ordered :: "binary_op \<Rightarrow> ordering option \<Rightarrow> bool \<Rightarrow> 'x rvalue option" where
  "float_ordered op ord equal =
     (case op of
        EqOp \<Rightarrow> Some (V_Bool equal)
      | NeOp \<Rightarrow> Some (V_Bool (\<not> equal))
      | LtOp \<Rightarrow> Some (V_Bool (ord = Some Less))
      | LeOp \<Rightarrow> Some (V_Bool (ord = Some Less \<or> ord = Some Equal))
      | GtOp \<Rightarrow> Some (V_Bool (ord = Some Greater))
      | GeOp \<Rightarrow> Some (V_Bool (ord = Some Greater \<or> ord = Some Equal))
      | _ \<Rightarrow> None)"

text \<open>The arms for the two signed and the two unsigned types differ in their width alone.\<close>

definition combine_signed ::
  "('a::len word \<Rightarrow> 'x rvalue) \<Rightarrow> binary_op \<Rightarrow> 'a word \<Rightarrow> 'a word \<Rightarrow> 'x combined" where
  "combine_signed mk op a b =
     (case op of
        Add \<Rightarrow> arithmetic_outcome (map_option mk (s_checked_add a b)) AddOverflow
      | Sub \<Rightarrow> arithmetic_outcome (map_option mk (s_checked_sub a b)) SubOverflow
      | Mul \<Rightarrow> arithmetic_outcome (map_option mk (s_checked_mul a b)) MulOverflow
      | Div \<Rightarrow>
          if b = 0 then arithmetic_outcome None DivisionByZero
          else if a = s_min \<and> b = - 1 then arithmetic_outcome None DivisionOverflow
          else Some (Ok (mk (s_div a b)))
      | Rem \<Rightarrow>
          if b = 0 then arithmetic_outcome None RemainderByZero
          else if a = s_min \<and> b = - 1 then arithmetic_outcome None RemainderOverflow
          else Some (Ok (mk (s_rem a b)))
      | _ \<Rightarrow> ordered_outcome op (sint a < sint b) (a = b))"

definition combine_unsigned ::
  "('a::len word \<Rightarrow> 'x rvalue) \<Rightarrow> binary_op \<Rightarrow> 'a word \<Rightarrow> 'a word \<Rightarrow> 'x combined" where
  "combine_unsigned mk op a b =
     (case op of
        Add \<Rightarrow> arithmetic_outcome (map_option mk (u_checked_add a b)) AddOverflow
      | Sub \<Rightarrow> arithmetic_outcome (map_option mk (u_checked_sub a b)) SubOverflow
      | Mul \<Rightarrow> arithmetic_outcome (map_option mk (u_checked_mul a b)) MulOverflow
      | Div \<Rightarrow>
          (case u_checked_div a b of
             None \<Rightarrow> arithmetic_outcome None DivisionByZero
           | Some q \<Rightarrow> Some (Ok (mk q)))
      | Rem \<Rightarrow>
          (case u_checked_rem a b of
             None \<Rightarrow> arithmetic_outcome None RemainderByZero
           | Some r \<Rightarrow> Some (Ok (mk r)))
      | _ \<Rightarrow> ordered_outcome op (a < b) (a = b))"

definition combine_float ::
  "(fl \<Rightarrow> 'x rvalue) \<Rightarrow> fformat \<Rightarrow> binary_op \<Rightarrow> fl \<Rightarrow> fl \<Rightarrow> 'x combined" where
  "combine_float mk F op a b =
     (case op of
        Add \<Rightarrow> Some (Ok (mk (fl_add F a b)))
      | Sub \<Rightarrow> Some (Ok (mk (fl_sub F a b)))
      | Mul \<Rightarrow> Some (Ok (mk (fl_mul F a b)))
      | Div \<Rightarrow> Some (Ok (mk (fl_div F a b)))
      | _ \<Rightarrow> map_option Ok (float_ordered op (fl_cmp a b) (fl_eq a b)))"

definition combine_equality :: "binary_op \<Rightarrow> bool \<Rightarrow> 'x combined" where
  "combine_equality op equal =
     (case op of EqOp \<Rightarrow> Some (Ok (V_Bool equal)) | NeOp \<Rightarrow> Some (Ok (V_Bool (\<not> equal))) | _ \<Rightarrow> None)"

definition combine :: "binary_op \<Rightarrow> 'x rvalue \<Rightarrow> 'x rvalue \<Rightarrow> 'x combined" where
  "combine op lhs rhs =
     (case (lhs, rhs) of
        (V_Int a, V_Int b) \<Rightarrow> combine_signed V_Int op a b
      | (V_Int32 a, V_Int32 b) \<Rightarrow> combine_signed V_Int32 op a b
      | (V_Uint8 a, V_Uint8 b) \<Rightarrow> combine_unsigned V_Uint8 op a b
      | (V_Usize a, V_Usize b) \<Rightarrow> combine_unsigned V_Usize op a b
      | (V_Char a, V_Char b) \<Rightarrow> ordered_outcome op (a < b) (a = b)
      | (V_Float32 a, V_Float32 b) \<Rightarrow> combine_float V_Float32 binary32 op a b
      | (V_Float64 a, V_Float64 b) \<Rightarrow> combine_float V_Float64 binary64 op a b
      | (V_Bool a, V_Bool b) \<Rightarrow> combine_equality op (a = b)
      | (V_String a, V_String b) \<Rightarrow> combine_equality op (a = b)
      | _ \<Rightarrow> None)"

section \<open>The unary and binary arms of \<open>evaluate\<close>\<close>

text \<open>
  Evaluating an operand runs code: it takes the interpreter's state to a value or a flow, and to
  the state after it.
\<close>

type_synonym ('x, 's) evaluator = "'s \<Rightarrow> ('x flow, 'x rvalue) res \<times> 's"

definition s_checked_neg :: "'a::len word \<Rightarrow> 'a word option" where
  "s_checked_neg a = (if s_in_range TYPE('a) (- sint a) then Some (- a) else None)"

definition negated :: "('a \<Rightarrow> 'x rvalue) \<Rightarrow> 'a option \<Rightarrow> ('x flow, 'x rvalue) res" where
  "negated mk r =
     (case r of
        None \<Rightarrow> res_bind (status_arithmetic NegationOverflow) (\<lambda>s. Err (Failure s))
      | Some v \<Rightarrow> Ok (mk v))"

definition apply_unary :: "unary_op \<Rightarrow> 'x rvalue \<Rightarrow> ('x flow, 'x rvalue) res" where
  "apply_unary op inner =
     (case (op, inner) of
        (Neg, V_Int a) \<Rightarrow> negated V_Int (s_checked_neg a)
      | (Neg, V_Int32 a) \<Rightarrow> negated V_Int32 (s_checked_neg a)
      | (Neg, V_Float32 a) \<Rightarrow> Ok (V_Float32 (fl_neg a))
      | (Neg, V_Float64 a) \<Rightarrow> Ok (V_Float64 (fl_neg a))
      | (Not, V_Bool b) \<Rightarrow> Ok (V_Bool (\<not> b))
      | _ \<Rightarrow> Err (Guard ''unsupported unary operand''))"

definition eval_unary :: "unary_op \<Rightarrow> ('x, 's) evaluator \<Rightarrow> ('x, 's) evaluator" where
  "eval_unary op operand s =
     (case operand s of (r, s') \<Rightarrow> (res_bind r (apply_unary op), s'))"

definition apply_binary :: "binary_op \<Rightarrow> 'x rvalue \<Rightarrow> 'x rvalue \<Rightarrow> ('x flow, 'x rvalue) res" where
  "apply_binary op lhs rhs =
     (case combine op lhs rhs of
        Some (Ok v) \<Rightarrow> Ok v
      | Some (Err status) \<Rightarrow> Err (Failure status)
      | Some Panic \<Rightarrow> Panic
      | None \<Rightarrow> Err (Guard ''ill-typed operands''))"

definition bool_operand :: "string \<Rightarrow> ('x flow, 'x rvalue) res \<Rightarrow> ('x flow, 'x rvalue) res" where
  "bool_operand message r =
     res_bind r (\<lambda>v. case v of V_Bool b \<Rightarrow> Ok (V_Bool b) | _ \<Rightarrow> Err (Guard message))"

definition eval_binary ::
  "binary_op \<Rightarrow> ('x, 's) evaluator \<Rightarrow> ('x, 's) evaluator \<Rightarrow> ('x, 's) evaluator" where
  "eval_binary op left right s =
     (case left s of
        (Err f, s1) \<Rightarrow> (Err f, s1)
      | (Panic, s1) \<Rightarrow> (Panic, s1)
      | (Ok lhs, s1) \<Rightarrow>
        if op = And then
          (case lhs of
             V_Bool False \<Rightarrow> (Ok (V_Bool False), s1)
           | V_Bool True \<Rightarrow>
               (case right s1 of (r, s2) \<Rightarrow> (bool_operand ''ill-typed conjunction operand'' r, s2))
           | _ \<Rightarrow> (Err (Guard ''ill-typed conjunction operand''), s1))
        else if op = Or then
          (case lhs of
             V_Bool True \<Rightarrow> (Ok (V_Bool True), s1)
           | V_Bool False \<Rightarrow>
               (case right s1 of (r, s2) \<Rightarrow> (bool_operand ''ill-typed disjunction operand'' r, s2))
           | _ \<Rightarrow> (Err (Guard ''ill-typed disjunction operand''), s1))
        else
          (case right s1 of (r, s2) \<Rightarrow> (res_bind r (apply_binary op lhs), s2)))"

section \<open>The integer operations against exact arithmetic\<close>

text \<open>
  What the operators promise over the integers: the exact result if the type holds it, the
  status of the operation if not.  Remainder overflows exactly when its quotient does.
\<close>

datatype int_kind = K_Int | K_Int32 | K_Uint8 | K_Usize

fun in_kind :: "int_kind \<Rightarrow> int \<Rightarrow> bool" where
  "in_kind K_Int n \<longleftrightarrow> - (2 ^ 63) \<le> n \<and> n < 2 ^ 63"
| "in_kind K_Int32 n \<longleftrightarrow> - (2 ^ 31) \<le> n \<and> n < 2 ^ 31"
| "in_kind K_Uint8 n \<longleftrightarrow> 0 \<le> n \<and> n < 2 ^ 8"
| "in_kind K_Usize n \<longleftrightarrow> 0 \<le> n \<and> n < 2 ^ 64"

fun of_kind :: "int_kind \<Rightarrow> int \<Rightarrow> 'x rvalue" where
  "of_kind K_Int n = V_Int (word_of_int n)"
| "of_kind K_Int32 n = V_Int32 (word_of_int n)"
| "of_kind K_Uint8 n = V_Uint8 (word_of_int n)"
| "of_kind K_Usize n = V_Usize (word_of_int n)"

fun int_view :: "'x rvalue \<Rightarrow> (int_kind \<times> int) option" where
  "int_view (V_Int a) = Some (K_Int, sint a)"
| "int_view (V_Int32 a) = Some (K_Int32, sint a)"
| "int_view (V_Uint8 a) = Some (K_Uint8, uint a)"
| "int_view (V_Usize a) = Some (K_Usize, uint a)"
| "int_view v = None"

datatype exact_result = R_Int int | R_Bool bool | R_Fail status_case

definition exact_int :: "int_kind \<Rightarrow> status_case \<Rightarrow> int \<Rightarrow> exact_result" where
  "exact_int k c n = (if in_kind k n then R_Int n else R_Fail c)"

definition exact_op :: "int_kind \<Rightarrow> binary_op \<Rightarrow> int \<Rightarrow> int \<Rightarrow> exact_result option" where
  "exact_op k op a b =
     (case op of
        Add \<Rightarrow> Some (exact_int k AddOverflow (a + b))
      | Sub \<Rightarrow> Some (exact_int k SubOverflow (a - b))
      | Mul \<Rightarrow> Some (exact_int k MulOverflow (a * b))
      | Div \<Rightarrow> Some (if b = 0 then R_Fail DivisionByZero else exact_int k DivisionOverflow (a sdiv b))
      | Rem \<Rightarrow> Some (if b = 0 then R_Fail RemainderByZero
                  else if in_kind k (a sdiv b) then R_Int (a smod b) else R_Fail RemainderOverflow)
      | EqOp \<Rightarrow> Some (R_Bool (a = b))
      | NeOp \<Rightarrow> Some (R_Bool (a \<noteq> b))
      | LtOp \<Rightarrow> Some (R_Bool (a < b))
      | LeOp \<Rightarrow> Some (R_Bool (a \<le> b))
      | GtOp \<Rightarrow> Some (R_Bool (b < a))
      | GeOp \<Rightarrow> Some (R_Bool (b \<le> a))
      | And \<Rightarrow> None
      | Or \<Rightarrow> None)"

fun realize :: "int_kind \<Rightarrow> exact_result \<Rightarrow> (normalized_status, 'x rvalue) res" where
  "realize k (R_Int n) = Ok (of_kind k n)"
| "realize k (R_Bool b) = Ok (V_Bool b)"
| "realize k (R_Fail c) = Err (arithmetic_status c)"

lemma arithmetic_outcome_simps [simp]:
  "arithmetic_outcome None c = Some (Err (arithmetic_status c))"
  "arithmetic_outcome (Some v) c = Some (Ok v)"
  by (simp_all add: arithmetic_outcome_def)

text \<open>Each checked word operation is its exact operation, cut at the type's range.\<close>

lemma word_of_int_sint_arith:
  fixes a b :: "'a::len word"
  shows "a + b = word_of_int (sint a + sint b)" "a - b = word_of_int (sint a - sint b)"
    "a * b = word_of_int (sint a * sint b)"
proof -
  have r: "word_of_int (sint x) = x" for x :: "'a word" by simp
  show "a + b = word_of_int (sint a + sint b)" by (simp only: wi_hom_add[symmetric] r)
  show "a - b = word_of_int (sint a - sint b)" by (simp only: wi_hom_sub[symmetric] r)
  show "a * b = word_of_int (sint a * sint b)" by (simp only: wi_hom_mult[symmetric] r)
qed

lemma word_of_int_uint_arith:
  fixes a b :: "'a::len word"
  shows "a + b = word_of_int (uint a + uint b)" "a - b = word_of_int (uint a - uint b)"
    "a * b = word_of_int (uint a * uint b)" "a div b = word_of_int (uint a div uint b)"
    "a mod b = word_of_int (uint a mod uint b)"
proof -
  have r: "word_of_int (uint x) = x" for x :: "'a word" by simp
  show "a + b = word_of_int (uint a + uint b)" by (simp only: wi_hom_add[symmetric] r)
  show "a - b = word_of_int (uint a - uint b)" by (simp only: wi_hom_sub[symmetric] r)
  show "a * b = word_of_int (uint a * uint b)" by (simp only: wi_hom_mult[symmetric] r)
  show "a div b = word_of_int (uint a div uint b)" by (simp only: uint_div_distrib[symmetric] r)
  show "a mod b = word_of_int (uint a mod uint b)" by (simp only: uint_mod_distrib[symmetric] r)
qed

definition u_in_range :: "'a::len itself \<Rightarrow> int \<Rightarrow> bool" where
  "u_in_range t n \<longleftrightarrow> 0 \<le> n \<and> n < 2 ^ LENGTH('a)"

lemma u_fits_iff:
  fixes a b :: "'a::len word"
  shows "unat a + unat b < 2 ^ LENGTH('a) \<longleftrightarrow> u_in_range TYPE('a) (uint a + uint b)"
    and "unat a * unat b < 2 ^ LENGTH('a) \<longleftrightarrow> u_in_range TYPE('a) (uint a * uint b)"
    and "b \<le> a \<longleftrightarrow> u_in_range TYPE('a) (uint a - uint b)"
proof -
  have i: "int (unat a + unat b) = uint a + uint b" "int (unat a * unat b) = uint a * uint b"
    and e: "int (2 ^ LENGTH('a)) = 2 ^ LENGTH('a)" by simp_all
  have "(unat a + unat b < 2 ^ LENGTH('a)) = (uint a + uint b < 2 ^ LENGTH('a))"
    "(unat a * unat b < 2 ^ LENGTH('a)) = (uint a * uint b < 2 ^ LENGTH('a))"
    unfolding i[symmetric] e[symmetric] by (simp_all only: of_nat_less_iff)
  moreover have "uint a - uint b < 2 ^ LENGTH('a)"
    using uint_lt2p[of a] uint_ge_0[of b] by linarith
  ultimately show "unat a + unat b < 2 ^ LENGTH('a) \<longleftrightarrow> u_in_range TYPE('a) (uint a + uint b)"
    "unat a * unat b < 2 ^ LENGTH('a) \<longleftrightarrow> u_in_range TYPE('a) (uint a * uint b)"
    "b \<le> a \<longleftrightarrow> u_in_range TYPE('a) (uint a - uint b)"
    by (simp_all add: u_in_range_def word_le_def)
qed

text \<open>Truncating division leaves the range of a signed type in one case only.\<close>

lemma sdiv_range:
  fixes a b lo :: int
  assumes "- lo \<le> a" "a < lo" "b \<noteq> 0"
  shows "- lo \<le> a sdiv b \<and> a sdiv b < lo \<longleftrightarrow> \<not> (a = - lo \<and> b = - 1)"
proof -
  have q: "a sdiv b = sgn a * sgn b * (\<bar>a\<bar> div \<bar>b\<bar>)"
    by (simp add: signed_divide_int_def sgn_mult abs_div)
  consider "b = 1" | "b = - 1" | (big) "2 \<le> \<bar>b\<bar>" using assms(3) by linarith
  then show ?thesis
  proof cases
    case big
    have "\<bar>a\<bar> \<le> lo" using assms by linarith
    have "\<bar>a\<bar> div \<bar>b\<bar> \<le> \<bar>a\<bar> div 2" using big by (intro zdiv_mono2) auto
    then have h: "0 \<le> \<bar>a\<bar> div \<bar>b\<bar>" "2 * (\<bar>a\<bar> div \<bar>b\<bar>) \<le> lo"
      using big \<open>\<bar>a\<bar> \<le> lo\<close> by (simp_all add: pos_imp_zdiv_nonneg_iff)
    have "0 < lo" using assms by linarith
    then have "\<bar>a sdiv b\<bar> < lo"
      using h unfolding q by (cases "a = 0") (auto simp: abs_mult sgn_if)
    then show ?thesis using big by auto
  qed (use assms q in \<open>auto simp: sgn_if abs_if split: if_splits\<close>)
qed

lemma s_min_iff: "a = (s_min :: 'a::len word) \<longleftrightarrow> sint a = - (2 ^ (LENGTH('a) - 1))"
proof -
  have "sint (s_min :: 'a word) = - (2 ^ (LENGTH('a) - 1))"
    unfolding s_min_def by (rule sint_word_of_int_in_range) (simp add: s_in_range_def)
  then show ?thesis by (metis signed_word_eqI)
qed

lemma s_minus_one_iff: "b = (- 1 :: 'a::len word) \<longleftrightarrow> sint b = - 1"
proof -
  have "sint (- 1 :: 'a word) = - 1" by simp
  then show ?thesis by (metis signed_word_eqI)
qed

lemma s_zero_iff: "b = (0 :: 'a::len word) \<longleftrightarrow> sint b = 0"
  using word_eq_iff_signed[of b 0] by simp

lemma s_div_overflow_iff:
  fixes a b :: "'a::len word"
  assumes "b \<noteq> 0"
  shows "(a = s_min \<and> b = - 1) \<longleftrightarrow> \<not> s_in_range TYPE('a) (sint a sdiv sint b)"
  using sdiv_range[of "2 ^ (LENGTH('a) - 1)" "sint a" "sint b"] sint_in_range[of a] assms
  unfolding s_min_iff s_minus_one_iff s_zero_iff s_in_range_def by blast

text \<open>The two generic arms refine \<open>exact_op\<close>.\<close>

lemma combine_signed_exact:
  fixes a b :: "'a::len word"
  assumes mk: "\<And>n. mk (word_of_int n) = of_kind k n"
    and range: "\<And>n. in_kind k n = s_in_range TYPE('a) n"
  shows "combine_signed mk op a b = map_option (realize k) (exact_op k op (sint a) (sint b))"
proof -
  have mks: "mk (a + b) = of_kind k (sint a + sint b)" "mk (a - b) = of_kind k (sint a - sint b)"
    "mk (a * b) = of_kind k (sint a * sint b)"
    by (simp_all only: word_of_int_sint_arith mk)
  have eqs: "(a = b) = (sint a = sint b)" by (rule word_eq_iff_signed)
  show ?thesis
proof (cases op)
  case Add
  then show ?thesis by (simp add: combine_signed_def exact_op_def s_checked_add_def s_checked_sub_def s_checked_mul_def
        exact_int_def range mks)
next
  case Sub
  then show ?thesis by (simp add: combine_signed_def exact_op_def s_checked_add_def s_checked_sub_def s_checked_mul_def
        exact_int_def range mks)
next
  case Mul
  then show ?thesis by (simp add: combine_signed_def exact_op_def s_checked_add_def s_checked_sub_def s_checked_mul_def
        exact_int_def range mks)
next
  case Div
  show ?thesis
  proof (cases "b = 0")
    case True
    then show ?thesis by (simp add: Div combine_signed_def exact_op_def)
  next
    case False
    have "combine_signed mk op a b = (if s_in_range TYPE('a) (sint a sdiv sint b)
        then Some (Ok (mk (s_div a b))) else Some (Err (arithmetic_status DivisionOverflow)))"
      unfolding Div combine_signed_def s_div_overflow_iff[OF False] using False by simp
    then show ?thesis
      using False by (simp add: Div exact_op_def exact_int_def range mk s_div_def s_zero_iff)
  qed
next
  case Rem
  show ?thesis
  proof (cases "b = 0")
    case True
    then show ?thesis by (simp add: Rem combine_signed_def exact_op_def)
  next
    case False
    have "combine_signed mk op a b = (if s_in_range TYPE('a) (sint a sdiv sint b)
        then Some (Ok (mk (s_rem a b))) else Some (Err (arithmetic_status RemainderOverflow)))"
      unfolding Rem combine_signed_def s_div_overflow_iff[OF False] using False by simp
    then show ?thesis
      using False by (simp add: Rem exact_op_def range mk s_rem_def s_zero_iff)
  qed
qed (auto simp: combine_signed_def exact_op_def ordered_outcome_def eqs)
qed

lemma sdiv_nonneg: "0 \<le> a \<Longrightarrow> 0 \<le> b \<Longrightarrow> a sdiv b = a div b \<and> a smod b = a mod b" for a b :: int
  by (auto simp: signed_divide_int_def signed_modulo_int_def sgn_if minus_div_mult_eq_mod mult.commute
      split: if_splits)

lemma combine_unsigned_exact:
  fixes a b :: "'a::len word"
  assumes mk: "\<And>n. mk (word_of_int n) = of_kind k n"
    and range: "\<And>n. in_kind k n = u_in_range TYPE('a) n"
  shows "combine_unsigned mk op a b = map_option (realize k) (exact_op k op (uint a) (uint b))"
proof -
  have zero: "(uint b = 0) = (b = 0)" by (simp add: uint_0_iff)
  have "uint a div uint b \<le> uint a"
  proof (cases "uint b = 0")
    case False
    then have "1 \<le> uint b" using uint_ge_0[of b] by linarith
    then show ?thesis using zdiv_mono2[of "uint a" 1 "uint b"] by simp
  qed simp
  then have quot: "u_in_range TYPE('a) (uint a div uint b)"
    using uint_lt2p[of a] div_int_pos_iff[of "uint a" "uint b"] uint_ge_0[of a] uint_ge_0[of b]
    unfolding u_in_range_def by linarith
  have mks: "mk (a + b) = of_kind k (uint a + uint b)" "mk (a - b) = of_kind k (uint a - uint b)"
    "mk (a * b) = of_kind k (uint a * uint b)" "mk (a div b) = of_kind k (uint a div uint b)"
    "mk (a mod b) = of_kind k (uint a mod uint b)"
    by (simp_all only: word_of_int_uint_arith mk)
  have eqs: "(a = b) = (uint a = uint b)" "(a < b) = (uint a < uint b)"
    by (simp_all add: word_uint_eq_iff word_less_def)
  show ?thesis
    by (cases op)
       (auto simp: combine_unsigned_def exact_op_def u_checked_add_def u_checked_sub_def
        u_checked_mul_def u_checked_div_def u_checked_rem_def u_fits_iff exact_int_def range mks
        ordered_outcome_def sdiv_nonneg quot zero eqs)
qed

lemma combine_int:
  assumes "int_view v = Some (k, a)" and "int_view w = Some (k, b)"
  shows "combine op v w = map_option (realize k) (exact_op k op a b)"
proof -
  have ranges: "in_kind K_Int n = s_in_range TYPE(64) n" "in_kind K_Int32 n = s_in_range TYPE(32) n"
    "in_kind K_Uint8 n = u_in_range TYPE(8) n" "in_kind K_Usize n = u_in_range TYPE(64) n" for n
    by (simp_all add: s_in_range_def u_in_range_def)
  show ?thesis
  proof (cases k)
    case K_Int
    with assms obtain x y where "v = V_Int x" "w = V_Int y" "a = sint x" "b = sint y"
      by (cases v; cases w) auto
    with K_Int show ?thesis using combine_signed_exact[of V_Int K_Int op x y] ranges by (simp add: combine_def)
  next
    case K_Int32
    with assms obtain x y where "v = V_Int32 x" "w = V_Int32 y" "a = sint x" "b = sint y"
      by (cases v; cases w) auto
    with K_Int32 show ?thesis using combine_signed_exact[of V_Int32 K_Int32 op x y] ranges by (simp add: combine_def)
  next
    case K_Uint8
    with assms obtain x y where "v = V_Uint8 x" "w = V_Uint8 y" "a = uint x" "b = uint y"
      by (cases v; cases w) auto
    with K_Uint8 show ?thesis using combine_unsigned_exact[of V_Uint8 K_Uint8 op x y] ranges by (simp add: combine_def)
  next
    case K_Usize
    with assms obtain x y where "v = V_Usize x" "w = V_Usize y" "a = uint x" "b = uint y"
      by (cases v; cases w) auto
    with K_Usize show ?thesis using combine_unsigned_exact[of V_Usize K_Usize op x y] ranges by (simp add: combine_def)
  qed
qed

text \<open>
  C27: Integer arithmetic is exact or reports why not: on all four integer types \<open>combine\<close> returns
  the mathematical result when the type holds it and the status of that operation otherwise, with
  division truncating toward zero, zero divisors and the one overflowing quotient reported, and the
  six comparisons those of the integers.  No operator wraps around or panics.
\<close>
theorem combine_int_exact:
  assumes "int_view v = Some (k, a)" and "int_view w = Some (k, b)"
  shows "combine op v w = map_option (realize k) (exact_op k op a b)"
  by (rule combine_int[OF assms])

theorem combine_int_exact_witness:
  "combine Div (V_Int (word_of_int (- 7)) :: nat rvalue) (V_Int 2)
     = map_option (realize K_Int) (exact_op K_Int Div (- 7) 2)"
  by (rule combine_int_exact) simp_all

section \<open>Division, negation, comparison, short circuits\<close>

lemma in_kind_view: "int_view v = Some (k, a) \<Longrightarrow> in_kind k a"
proof (cases v)
  fix x assume "int_view v = Some (k, a)" "v = V_Int x"
  then show ?thesis using sint_in_range[of x] by (auto simp: s_in_range_def)
next
  fix x assume "int_view v = Some (k, a)" "v = V_Int32 x"
  then show ?thesis using sint_in_range[of x] by (auto simp: s_in_range_def)
next
  fix x assume "int_view v = Some (k, a)" "v = V_Uint8 x"
  then show ?thesis using unsigned_less[of x, where 'a = int] by auto
next
  fix x assume "int_view v = Some (k, a)" "v = V_Usize x"
  then show ?thesis using unsigned_less[of x, where 'a = int] by auto
qed auto

lemma smod_bounds:
  fixes a b :: int
  assumes "b \<noteq> 0"
  shows "\<bar>a smod b\<bar> < \<bar>b\<bar>" and "0 \<le> a \<Longrightarrow> 0 \<le> a smod b \<and> a smod b \<le> a"
    and "a \<le> 0 \<Longrightarrow> a \<le> a smod b \<and> a smod b \<le> 0"
proof -
  define m where "m = \<bar>a\<bar> mod \<bar>b\<bar>"
  have r: "a smod b = sgn a * m" by (simp add: m_def signed_modulo_int_def)
  have m: "0 \<le> m" "m < \<bar>b\<bar>" "m \<le> \<bar>a\<bar>"
    using assms by (simp_all add: m_def zmod_le_nonneg_dividend)
  consider "a = 0" "m = 0" | "0 < a" "sgn a = 1" | "a < 0" "sgn a = - 1"
    using m by (metis abs_0 antisym linorder_neqE_linordered_idom sgn_neg sgn_pos)
  note c = this
  show "\<bar>a smod b\<bar> < \<bar>b\<bar>" using c m assms unfolding r by cases simp_all
  show "0 \<le> a \<Longrightarrow> 0 \<le> a smod b \<and> a smod b \<le> a" using c m unfolding r by cases simp_all
  show "a \<le> 0 \<Longrightarrow> a \<le> a smod b \<and> a smod b \<le> 0" using c m unfolding r by cases simp_all
qed

text \<open>
  Quotient and remainder belong together: whenever both \<open>/\<close> and \<open>%\<close> of two integers return,
  the quotient times the divisor plus the remainder is the dividend, the remainder is smaller than
  the divisor in magnitude and never has the sign opposite to the dividend's; and the two fail on
  exactly the same operands.
\<close>
theorem combine_div_rem:
  assumes "int_view v = Some (k, a)" and "int_view w = Some (k, b)"
  shows "(\<exists>q r. combine Div v w = Some (Ok (of_kind k q)) \<and> combine Rem v w = Some (Ok (of_kind k r))
            \<and> in_kind k q \<and> in_kind k r \<and> q * b + r = a \<and> \<bar>r\<bar> < \<bar>b\<bar> \<and> 0 \<le> r * a)
       \<or> (\<exists>c d. combine Div v w = Some (Err (arithmetic_status c))
            \<and> combine Rem v w = Some (Err (arithmetic_status d))
            \<and> (c, d) \<in> {(DivisionByZero, RemainderByZero), (DivisionOverflow, RemainderOverflow)})"
proof (cases "b \<noteq> 0 \<and> in_kind k (a sdiv b)")
  case False
  then show ?thesis by (auto simp: combine_int[OF assms] exact_op_def exact_int_def)
next
  case True
  define r where "r = a smod b"
  have b: "b \<noteq> 0" using True by simp
  note bounds = smod_bounds[OF b, of a, folded r_def]
  have kr: "in_kind k r"
    using in_kind_view[OF assms(1)] bounds(2,3) by (cases "0 \<le> a"; cases k) simp_all
  have sign: "0 \<le> r * a"
    using bounds(2,3) by (cases "0 \<le> a") (simp_all add: mult_nonpos_nonpos)
  have "combine Div v w = Some (Ok (of_kind k (a sdiv b)))" "combine Rem v w = Some (Ok (of_kind k r))"
    using True by (simp_all add: combine_int[OF assms] exact_op_def exact_int_def r_def)
  moreover have "a sdiv b * b + r = a" by (simp add: r_def sdiv_mult_smod_eq)
  ultimately show ?thesis using True kr bounds(1) sign by blast
qed

theorem combine_div_rem_witness:
  "(\<exists>q r. combine Div (V_Int (word_of_int (- 7)) :: nat rvalue) (V_Int 2) = Some (Ok (of_kind K_Int q))
          \<and> combine Rem (V_Int (word_of_int (- 7)) :: nat rvalue) (V_Int 2) = Some (Ok (of_kind K_Int r))
          \<and> in_kind K_Int q \<and> in_kind K_Int r \<and> q * 2 + r = - 7 \<and> \<bar>r\<bar> < \<bar>2\<bar> \<and> 0 \<le> r * - 7)
   \<or> (\<exists>c d. combine Div (V_Int (word_of_int (- 7)) :: nat rvalue) (V_Int 2) = Some (Err (arithmetic_status c))
          \<and> combine Rem (V_Int (word_of_int (- 7)) :: nat rvalue) (V_Int 2) = Some (Err (arithmetic_status d))
          \<and> (c, d) \<in> {(DivisionByZero, RemainderByZero), (DivisionOverflow, RemainderOverflow)})"
  by (rule combine_div_rem) simp_all

lemma word_of_int_neg_sint: "word_of_int (- sint x) = - x"
proof -
  have "word_of_int (sint x) = x" by simp
  then show ?thesis by (simp only: wi_hom_neg[symmetric])
qed

text \<open>
  Negation is exact: unary minus on the signed types gives the negated integer, or the negation
  overflow status on the least value alone.
\<close>
theorem apply_unary_neg_exact:
  assumes "int_view v = Some (k, a)" and "k \<in> {K_Int, K_Int32}"
  shows "apply_unary Neg v =
     (if in_kind k (- a) then Ok (of_kind k (- a)) else Err (Failure (arithmetic_status NegationOverflow)))"
proof (cases v)
  fix x assume v: "v = V_Int x"
  with assms(1) have k: "k = K_Int" "a = sint x" by simp_all
  show ?thesis unfolding v k
    by (simp add: apply_unary_def negated_def s_checked_neg_def s_in_range_def
        word_of_int_neg_sint del: of_int_minus)
next
  fix x assume v: "v = V_Int32 x"
  with assms(1) have k: "k = K_Int32" "a = sint x" by simp_all
  show ?thesis unfolding v k
    by (simp add: apply_unary_def negated_def s_checked_neg_def s_in_range_def
        word_of_int_neg_sint del: of_int_minus)
qed (use assms in auto)

theorem apply_unary_neg_exact_witness:
  "apply_unary Neg (V_Int32 s_min :: nat rvalue) = Err (Failure (arithmetic_status NegationOverflow))"
  using apply_unary_neg_exact[of "V_Int32 s_min :: nat rvalue" K_Int32 "- (2 ^ 31)"]
  by (simp add: s_min_def)

definition float_true :: "binary_op \<Rightarrow> fl \<Rightarrow> fl \<Rightarrow> bool" where
  "float_true op a b \<longleftrightarrow>
     (case combine op (V_Float64 a :: unit rvalue) (V_Float64 b) of
        Some (Ok (V_Bool t)) \<Rightarrow> t | _ \<Rightarrow> False)"

lemma float_true_simps:
  "float_true EqOp a b \<longleftrightarrow> fl_cmp a b = Some Equal"
  "float_true NeOp a b \<longleftrightarrow> fl_cmp a b \<noteq> Some Equal"
  "float_true LtOp a b \<longleftrightarrow> fl_cmp a b = Some Less"
  "float_true LeOp a b \<longleftrightarrow> fl_cmp a b = Some Less \<or> fl_cmp a b = Some Equal"
  "float_true GtOp a b \<longleftrightarrow> fl_cmp a b = Some Greater"
  "float_true GeOp a b \<longleftrightarrow> fl_cmp a b = Some Greater \<or> fl_cmp a b = Some Equal"
  by (simp_all add: float_true_def combine_def combine_float_def float_ordered_def fl_eq_def)

text \<open>
  Float comparisons follow IEEE-754.  With a NaN operand every comparison is false except \<open>!=\<close>;
  otherwise exactly one of less, equal and greater holds, \<open><=\<close> and \<open>>=\<close> are their unions, and
  swapping the operands swaps the operators.  Truth is that of \<open>combine\<close> on two \<open>f64\<close> values.
\<close>
theorem combine_float_compare:
  "(if a = NaN \<or> b = NaN
    then float_true NeOp a b \<and> \<not> float_true EqOp a b \<and> \<not> float_true LtOp a b \<and> \<not> float_true LeOp a b
      \<and> \<not> float_true GtOp a b \<and> \<not> float_true GeOp a b
    else (float_true LtOp a b, float_true EqOp a b, float_true GtOp a b)
           \<in> {(True, False, False), (False, True, False), (False, False, True)})
   \<and> float_true LeOp a b = (float_true LtOp a b \<or> float_true EqOp a b)
   \<and> float_true GeOp a b = (float_true GtOp a b \<or> float_true EqOp a b)
   \<and> float_true NeOp a b = (\<not> float_true EqOp a b)
   \<and> float_true GtOp a b = float_true LtOp b a \<and> float_true GeOp a b = float_true LeOp b a
   \<and> float_true EqOp a b = float_true EqOp b a"
proof (cases "fl_cmp a b")
  case None
  then have n: "a = NaN \<or> b = NaN" "fl_cmp b a = None" using fl_cmp_NaN_iff[of a b] fl_cmp_NaN_iff[of b a] by auto
  show ?thesis using n(1) by (simp add: float_true_simps None n(2))
next
  case (Some r)
  then have n: "\<not> (a = NaN \<or> b = NaN)" using fl_cmp_NaN_iff[of a b] by simp
  have s: "fl_cmp b a = Some (swap_ordering r)" using fl_cmp_swap[of b a] Some by simp
  show ?thesis unfolding if_not_P[OF n]
    by (cases r) (simp_all add: float_true_simps Some s swap_ordering_def)
qed

text \<open>
  Operands are evaluated left to right and only as far as needed: the right operand of \<open>&&\<close> and
  \<open>||\<close> is skipped, and the state left as it is, exactly when the left one decides or does not return
  a boolean; every other operator runs the right operand in the state the left one leaves.
\<close>
theorem eval_binary_order:
  "(case left s of
      (Ok (V_Bool b), s1) \<Rightarrow>
        (if op = And \<and> \<not> b \<or> op = Or \<and> b then eval_binary op left right s = (Ok (V_Bool b), s1)
         else snd (eval_binary op left right s) = snd (right s1))
    | (Ok v, s1) \<Rightarrow>
        (if op = And \<or> op = Or
         then snd (eval_binary op left right s) = s1 \<and> (\<exists>m. fst (eval_binary op left right s) = Err (Guard m))
         else eval_binary op left right s = (res_bind (fst (right s1)) (apply_binary op v), snd (right s1)))
    | (r, s1) \<Rightarrow> eval_binary op left right s = (r, s1))"
proof (cases "left s")
  case (Pair r s1)
  show ?thesis
  proof (cases r)
    case (Ok v)
    show ?thesis
    proof (cases "\<exists>b. v = V_Bool b")
      case True
      then obtain b where "v = V_Bool b" ..
      then show ?thesis by (cases b) (simp_all add: eval_binary_def Pair Ok split: prod.split)
    next
      case False
      then show ?thesis
        by (cases v) (simp_all add: eval_binary_def Pair Ok split: prod.split)
    qed
  qed (simp_all add: eval_binary_def Pair)
qed

end
