(* ===== verification/OrdMap.thy ===== *)
theory OrdMap
  imports Prelude
begin

text \<open>
  Rust's \<open>BTreeMap\<close> and \<open>BTreeSet\<close>.  A map is its entries in key order, a set its elements in
  order: iteration, \<open>keys\<close>, \<open>find\<close>, \<open>pop_first\<close> follow that order, which the code relies on for
  determinism.  \<open>ordered_map\<close> states what the clients use; they never look at the list.
\<close>

section \<open>Maps\<close>

type_synonym ('k, 'v) bmap = "('k \<times> 'v) list"

definition bm_empty :: "('k, 'v) bmap" where
  "bm_empty = []"

fun bm_get :: "('k, 'v) bmap \<Rightarrow> 'k \<Rightarrow> 'v option" where
  "bm_get [] k = None"
| "bm_get ((j, v) # m) k = (if j = k then Some v else bm_get m k)"

fun bm_insert :: "'k::linorder \<Rightarrow> 'v \<Rightarrow> ('k, 'v) bmap \<Rightarrow> ('k, 'v) bmap" where
  "bm_insert k v [] = [(k, v)]"
| "bm_insert k v ((j, w) # m) =
     (if j < k then (j, w) # bm_insert k v m
      else if j = k then (k, v) # m
      else (k, v) # (j, w) # m)"

definition bm_keys :: "('k, 'v) bmap \<Rightarrow> 'k list" where
  "bm_keys m = map fst m"

definition bm_values :: "('k, 'v) bmap \<Rightarrow> 'v list" where
  "bm_values m = map snd m"

definition bm_contains :: "('k, 'v) bmap \<Rightarrow> 'k \<Rightarrow> bool" where
  "bm_contains m k \<longleftrightarrow> bm_get m k \<noteq> None"

definition bm_ok :: "('k::linorder, 'v) bmap \<Rightarrow> bool" where
  "bm_ok m \<longleftrightarrow> sorted_wrt (<) (map fst m)"

text \<open>\<open>iter_mut\<close> and \<open>values_mut\<close>: every value replaced in place, the keys untouched.\<close>

definition bm_map :: "('k \<Rightarrow> 'v \<Rightarrow> 'w) \<Rightarrow> ('k, 'v) bmap \<Rightarrow> ('k, 'w) bmap" where
  "bm_map f m = map (\<lambda>(k, v). (k, f k v)) m"

text \<open>\<open>remove\<close>.\<close>

definition bm_delete :: "'k \<Rightarrow> ('k, 'v) bmap \<Rightarrow> ('k, 'v) bmap" where
  "bm_delete k m = filter (\<lambda>(j, v). j \<noteq> k) m"

named_theorems bm_simps \<open>lookups after updates\<close>

lemma bm_get_empty [simp, bm_simps]: "bm_get bm_empty k = None"
  by (simp add: bm_empty_def)

lemma bm_get_insert [simp, bm_simps]:
  "bm_get (bm_insert k v m) j = (if j = k then Some v else bm_get m j)"
  by (induction k v m rule: bm_insert.induct) auto

lemma bm_get_map [bm_simps]: "bm_get (bm_map f m) k = map_option (f k) (bm_get m k)"
  by (induction m k rule: bm_get.induct) (auto simp: bm_map_def)

lemma bm_keys_map [simp]: "map fst (bm_map f m) = map fst m"
  by (induction m) (auto simp: bm_map_def)

lemma bm_ok_empty [simp]: "bm_ok bm_empty"
  by (simp add: bm_ok_def bm_empty_def)

lemma set_keys_insert: "fst ` set (bm_insert k v m) = insert k (fst ` set m)"
  by (induction k v m rule: bm_insert.induct) auto

lemma bm_ok_insert [simp]: "bm_ok m \<Longrightarrow> bm_ok (bm_insert k v m)"
  unfolding bm_ok_def
proof (induction k v m rule: bm_insert.induct)
  case (1 k v)
  show ?case by simp
next
  case (2 k v j w m)
  then show ?case
    using set_keys_insert[of k v m] by (auto dest: less_trans)
qed

lemma bm_ok_map [simp]: "bm_ok (bm_map f m) = bm_ok m"
  by (simp add: bm_ok_def)

lemma bm_get_in_set: "bm_get m k = Some v \<Longrightarrow> (k, v) \<in> set m"
  by (induction m k rule: bm_get.induct) (auto split: if_splits)

lemma in_set_bm_get: "bm_ok m \<Longrightarrow> (k, v) \<in> set m \<Longrightarrow> bm_get m k = Some v"
proof (induction m)
  case Nil
  then show ?case by simp
next
  case (Cons a m)
  obtain j w where a: "a = (j, w)" by (cases a)
  from Cons.prems have ok: "bm_ok m" and lt: "\<forall>x\<in>set m. j < fst x"
    by (auto simp: bm_ok_def a)
  show ?case
    using Cons.IH[OF ok] Cons.prems(2) lt by (force simp: a)
qed

lemma bm_get_iff: "bm_ok m \<Longrightarrow> bm_get m k = Some v \<longleftrightarrow> (k, v) \<in> set m"
  by (blast intro: in_set_bm_get bm_get_in_set)

lemma bm_get_None_iff: "bm_get m k = None \<longleftrightarrow> k \<notin> set (bm_keys m)"
  by (induction m k rule: bm_get.induct) (auto simp: bm_keys_def)

lemma bm_contains_iff: "bm_contains m k \<longleftrightarrow> k \<in> set (bm_keys m)"
  using bm_get_None_iff[of m k] by (simp add: bm_contains_def)

lemma set_bm_keys_insert [simp]: "set (bm_keys (bm_insert k v m)) = insert k (set (bm_keys m))"
  using set_keys_insert[of k v m] by (simp add: bm_keys_def image_iff)

lemma distinct_bm_keys: "bm_ok m \<Longrightarrow> distinct (bm_keys m)"
  by (simp add: bm_ok_def bm_keys_def strict_sorted_iff)

lemma bm_map_id_eq: "(\<And>k v. (k, v) \<in> set m \<Longrightarrow> f k v = v) \<Longrightarrow> bm_map f m = m"
  unfolding bm_map_def by (rule map_idI) auto

lemma bm_insert_same_get: "bm_ok m \<Longrightarrow> bm_get m k = Some v \<Longrightarrow> bm_insert k v m = m"
proof (induction k v m rule: bm_insert.induct)
  case (1 k v)
  then show ?case by simp
next
  case (2 k v j w m)
  have lt: "k' > j" if "(k', v') \<in> set m" for k' v'
    using 2(2) that by (force simp: bm_ok_def)
  show ?case
    using 2 lt[of k v] bm_get_in_set[of m k v] by (auto simp: bm_ok_def split: if_splits)
qed

lemma bm_ok_delete [simp]: "bm_ok m \<Longrightarrow> bm_ok (bm_delete k m)"
  unfolding bm_ok_def bm_delete_def
  by (induction m) (auto split: prod.splits)

lemma bm_get_delete [simp]: "bm_get (bm_delete k m) j = (if j = k then None else bm_get m j)"
  unfolding bm_delete_def by (induction m) auto

section \<open>Sets\<close>

type_synonym 'a bset = "'a list"

fun bs_insert :: "'a::linorder \<Rightarrow> 'a bset \<Rightarrow> 'a bset" where
  "bs_insert x [] = [x]"
| "bs_insert x (y # s) =
     (if y < x then y # bs_insert x s else if y = x then y # s else x # y # s)"

definition bs_remove :: "'a \<Rightarrow> 'a bset \<Rightarrow> 'a bset" where
  "bs_remove x s = filter (\<lambda>y. y \<noteq> x) s"

definition bs_ok :: "'a::linorder bset \<Rightarrow> bool" where
  "bs_ok s \<longleftrightarrow> sorted_wrt (<) s"

text \<open>Membership: \<open>contains\<close>.\<close>

definition bs_contains :: "'a bset \<Rightarrow> 'a \<Rightarrow> bool" where
  "bs_contains s x \<longleftrightarrow> x \<in> set s"

lemma set_bs_insert [simp]: "set (bs_insert x s) = insert x (set s)"
  by (induction x s rule: bs_insert.induct) auto

lemma bs_ok_insert [simp]: "bs_ok s \<Longrightarrow> bs_ok (bs_insert x s)"
  unfolding bs_ok_def by (induction x s rule: bs_insert.induct) (auto dest: less_trans)

lemma bs_ok_Nil [simp]: "bs_ok []"
  by (simp add: bs_ok_def)

lemma bs_ok_remove [simp]: "bs_ok s \<Longrightarrow> bs_ok (bs_remove x s)"
  by (simp add: bs_ok_def bs_remove_def sorted_wrt_filter)

lemma set_bs_remove [simp]: "set (bs_remove x s) = set s - {x}"
  by (auto simp: bs_remove_def)

lemma bs_contains_insert [simp]: "bs_contains (bs_insert x s) y \<longleftrightarrow> y = x \<or> bs_contains s y"
  by (auto simp: bs_contains_def)

lemma length_bs_insert: "length (bs_insert x s) \<le> Suc (length s)"
  by (induction x s rule: bs_insert.induct) auto

section \<open>The interface\<close>

locale ordered_map =
  fixes empty :: "'m"
    and get :: "'m \<Rightarrow> 'k::linorder \<Rightarrow> 'v option"
    and put :: "'k \<Rightarrow> 'v \<Rightarrow> 'm \<Rightarrow> 'm"
    and keys :: "'m \<Rightarrow> 'k list"
    and inv :: "'m \<Rightarrow> bool"
  assumes get_empty: "get empty k = None"
    and get_put: "get (put k v m) j = (if j = k then Some v else get m j)"
    and keys_get: "k \<in> set (keys m) \<longleftrightarrow> get m k \<noteq> None"
    and keys_sorted: "inv m \<Longrightarrow> sorted_wrt (<) (keys m)"
    and inv_empty: "inv empty"
    and inv_put: "inv m \<Longrightarrow> inv (put k v m)"
begin

lemma get_put_same [simp]: "get (put k v m) k = Some v"
  by (simp add: get_put)

lemma get_put_other: "j \<noteq> k \<Longrightarrow> get (put k v m) j = get m j"
  by (simp add: get_put)

lemma put_put_commute: "i \<noteq> j \<Longrightarrow> get (put i v (put j w m)) k = get (put j w (put i v m)) k"
  by (simp add: get_put)

text \<open>The iteration order is a function of the key set alone, whatever the insertion history.\<close>

lemma keys_determined:
  assumes "inv m" and "inv n" and "set (keys m) = set (keys n)"
  shows "keys m = keys n"
  using assms keys_sorted by (metis strict_sorted_equal)

lemma keys_put: "set (keys (put k v m)) = insert k (set (keys m))"
  by (auto simp: keys_get get_put split: if_splits)

text \<open>Building a map from rows: a later row for the same key wins, and the order is canonical.\<close>

lemma get_puts_notin:
  "k \<notin> fst ` set kvs \<Longrightarrow> get (fold (\<lambda>(k, v). put k v) kvs m) k = get m k"
  by (induction kvs arbitrary: m) (auto simp: get_put split: prod.splits)

lemma inv_puts: "inv m \<Longrightarrow> inv (fold (\<lambda>(k, v). put k v) kvs m)"
  by (induction kvs arbitrary: m) (auto simp: inv_put split: prod.splits)

end

interpretation bm: ordered_map bm_empty bm_get bm_insert bm_keys bm_ok
  by unfold_locales (auto simp: bm_get_None_iff bm_ok_def bm_keys_def bm_empty_def
      intro: bm_ok_insert[unfolded bm_ok_def])

end
