(* ===== verification/HirTypes.thy ===== *)
theory HirTypes
  imports Diagnostics OrdMap
begin

text \<open>
  Resolved types (\<open>src/hir/nodes.rs\<close>): the type language of the HIR, its declarations, the identity
  keys \<open>identity_key\<close> builds on an explicit stack, and the substitution of concrete arguments
  (\<open>src/hir/monomorphize.rs\<close>).  A \<open>DeclarationId\<close> is its text.  Output is built without an active
  byte budget (\<open>bounded_output\<close>).
\<close>

section \<open>Types\<close>

type_synonym declaration_id = string

datatype rtype =
    Ty_Function "rtype list" rtype
  | Ty_Unit | Ty_I64 | Ty_I32 | Ty_Char | Ty_U8 | Ty_Usize
  | Ty_ArrayU8 u32
  | Ty_F32 | Ty_F64 | Ty_Bool
  | Ty_String | Ty_Bytes | Ty_Str | Ty_SliceU8
  | Ty_Parameter declaration_id u32
  | Ty_Nominal declaration_id "rtype list"

record type_parameter_declaration =
  tp_name :: string
  tp_index :: u32
  tp_span :: span

record field_declaration =
  fd_id :: declaration_id
  fd_name :: string
  fd_index :: u32
  fd_ty :: rtype
  fd_span :: span

datatype resource_drop_kind = DropTrivial | DropImported declaration_id string

record resource_drop =
  rd_id :: declaration_id
  rd_kind :: resource_drop_kind

record variant_case =
  vc_id :: declaration_id
  vc_name :: string
  vc_index :: u32
  vc_fields :: "field_declaration list"
  vc_span :: span

datatype type_declaration_kind =
    Kind_Resource resource_drop
  | Kind_Record "field_declaration list"
  | Kind_Class "field_declaration list" "declaration_id list"
  | Kind_Variant "variant_case list"

record type_declaration =
  td_id :: declaration_id
  td_name :: string
  td_type_parameters :: "type_parameter_declaration list"
  td_kind :: type_declaration_kind
  td_span :: span

text \<open>The parts of a \<open>ResolvedProgram\<close> the layouts read.\<close>

record hir_program =
  hp_module :: string
  hp_entrypoint :: declaration_id
  hp_types :: "type_declaration list"

fun is_uniquely_owned :: "rtype \<Rightarrow> bool" where
  "is_uniquely_owned Ty_String = True"
| "is_uniquely_owned Ty_Bytes = True"
| "is_uniquely_owned _ = False"

fun nominal_id :: "rtype \<Rightarrow> declaration_id option" where
  "nominal_id (Ty_Nominal declaration arguments) = Some declaration"
| "nominal_id _ = None"

section \<open>Identity keys\<close>

datatype key_frame = Kf_Enter rtype | Kf_Finish declaration_id nat | Kf_FinishFunction nat

text \<open>\<open>{len}:{key}\<close> of every child, in order.\<close>

definition framed_keys :: "string list \<Rightarrow> string" where
  "framed_keys keys = concat (map (\<lambda>key. show_nat (length key) @ '':'' @ key) keys)"

definition function_key :: "nat \<Rightarrow> string list \<Rightarrow> string" where
  "function_key count keys = ''function:v1:'' @ show_nat count @ '':'' @ framed_keys keys"

definition nominal_key :: "declaration_id \<Rightarrow> nat \<Rightarrow> string list \<Rightarrow> string" where
  "nominal_key declaration count keys =
     ''nominal:'' @ show_nat (length declaration) @ '':'' @ declaration @ '':'' @ show_nat count @ '':''
     @ framed_keys keys"

fun leaf_key :: "rtype \<Rightarrow> string" where
  "leaf_key Ty_Unit = ''unit''"
| "leaf_key Ty_I64 = ''i64''"
| "leaf_key Ty_I32 = ''i32''"
| "leaf_key Ty_Char = ''char''"
| "leaf_key Ty_U8 = ''u8''"
| "leaf_key Ty_Usize = ''usize''"
| "leaf_key (Ty_ArrayU8 n) = ''array:u8:'' @ show_nat (unat n)"
| "leaf_key Ty_F32 = ''f32''"
| "leaf_key Ty_F64 = ''f64''"
| "leaf_key Ty_Bool = ''bool''"
| "leaf_key Ty_String = ''string''"
| "leaf_key Ty_Bytes = ''bytes''"
| "leaf_key Ty_Str = ''str''"
| "leaf_key Ty_SliceU8 = ''slice-u8''"
| "leaf_key (Ty_Parameter owner index) =
     ''parameter:'' @ show_nat (length owner) @ '':'' @ owner @ '':'' @ show_nat (unat index)"
| "leaf_key _ = []"

fun key_weight :: "key_frame \<Rightarrow> nat" where
  "key_weight (Kf_Enter ty) = 2 * size ty + 1"
| "key_weight _ = 1"

lemma enter_weight: "(\<Sum>ty\<leftarrow>tys. Suc (2 * size ty)) \<le> 2 * size_list size (tys :: rtype list)"
  by (induction tys) auto

text \<open>The stack is a list with its top first, the vector of keys in its own order.\<close>

function key_loop :: "key_frame list \<Rightarrow> string list \<Rightarrow> (diagnostic, string list) res" where
  "key_loop [] keys = Ok keys"
| "key_loop (Kf_Enter ty # frames) keys =
     (case ty of
        Ty_Function parameters result \<Rightarrow>
          key_loop (map Kf_Enter parameters @ Kf_Enter result # Kf_FinishFunction (length parameters) # frames) keys
      | Ty_Nominal declaration arguments \<Rightarrow>
          key_loop (map Kf_Enter arguments @ Kf_Finish declaration (length arguments) # frames) keys
      | _ \<Rightarrow> key_loop frames (keys @ [leaf_key ty]))"
| "key_loop (Kf_FinishFunction count # frames) keys =
     (if length keys < count + 1 then Panic
      else let split = length keys - (count + 1)
           in key_loop frames (take split keys @ [function_key count (drop split keys)]))"
| "key_loop (Kf_Finish declaration count # frames) keys =
     (if length keys < count then Panic
      else let split = length keys - count
           in key_loop frames (take split keys @ [nominal_key declaration count (drop split keys)]))"
  by pat_completeness auto

termination
  by (relation "measure (\<lambda>(frames, keys). sum_list (map key_weight frames))")
     (auto simp: o_def less_Suc_eq_le enter_weight le_SucI)

definition identity_key :: "rtype \<Rightarrow> (diagnostic, string) res" where
  "identity_key ty =
     res_bind (key_loop [Kf_Enter ty] []) (\<lambda>keys. if keys = [] then Panic else Ok (last keys))"

section \<open>Substitution\<close>

definition hir_error :: "string \<Rightarrow> diagnostic" where
  "hir_error message = diag_io ''SPX-H006'' message"

datatype subst_frame = Sf_Enter rtype | Sf_Finish declaration_id nat | Sf_FinishCallable nat

fun subst_weight :: "subst_frame \<Rightarrow> nat" where
  "subst_weight (Sf_Enter ty) = 2 * size ty + 1"
| "subst_weight _ = 1"

definition substitute_parameter ::
  "declaration_id \<Rightarrow> rtype list \<Rightarrow> declaration_id \<Rightarrow> u32 \<Rightarrow> (diagnostic, rtype) res" where
  "substitute_parameter owner arguments parameter_owner index =
     (if parameter_owner \<noteq> owner
      then Err (hir_error (''type template for `'' @ owner @ ''` contains foreign parameter owner `''
             @ parameter_owner @ ''`''))
      else if unat index < length arguments then Ok (arguments ! unat index)
      else Err (hir_error (''type template for `'' @ owner @ ''` references missing parameter ''
             @ show_nat (unat index))))"

function subst_loop ::
  "declaration_id \<Rightarrow> rtype list \<Rightarrow> subst_frame list \<Rightarrow> rtype list \<Rightarrow> (diagnostic, rtype list) res" where
  "subst_loop owner arguments [] resolved = Ok resolved"
| "subst_loop owner arguments (Sf_Enter template # frames) resolved =
     (case template of
        Ty_Function parameters result \<Rightarrow>
          subst_loop owner arguments
            (map Sf_Enter parameters @ Sf_Enter result # Sf_FinishCallable (length parameters) # frames) resolved
      | Ty_Parameter parameter_owner index \<Rightarrow>
          res_bind (substitute_parameter owner arguments parameter_owner index)
            (\<lambda>ty. subst_loop owner arguments frames (resolved @ [ty]))
      | Ty_Nominal declaration nested \<Rightarrow>
          subst_loop owner arguments (map Sf_Enter nested @ Sf_Finish declaration (length nested) # frames) resolved
      | _ \<Rightarrow> subst_loop owner arguments frames (resolved @ [template]))"
| "subst_loop owner arguments (Sf_FinishCallable count # frames) resolved =
     (if resolved = [] then Err (hir_error ''incomplete callable substitution'')
      else if length (butlast resolved) < count then Err (hir_error ''incomplete callable parameters'')
      else let split = length (butlast resolved) - count
           in subst_loop owner arguments frames
                (take split resolved @ [Ty_Function (drop split (butlast resolved)) (last resolved)]))"
| "subst_loop owner arguments (Sf_Finish declaration count # frames) resolved =
     (if length resolved < count then Err (hir_error ''type substitution traversal is incomplete'')
      else let split = length resolved - count
           in subst_loop owner arguments frames
                (take split resolved @ [Ty_Nominal declaration (drop split resolved)]))"
  by pat_completeness auto

termination
  by (relation "measure (\<lambda>(owner, arguments, frames, resolved). sum_list (map subst_weight frames))")
     (auto simp: o_def less_Suc_eq_le enter_weight le_SucI)

definition substitute_type :: "rtype \<Rightarrow> declaration_id \<Rightarrow> rtype list \<Rightarrow> (diagnostic, rtype) res" where
  "substitute_type template owner arguments =
     res_bind (subst_loop owner arguments [Sf_Enter template] []) (\<lambda>resolved.
       if length resolved \<noteq> 1 then Err (hir_error ''type substitution traversal did not settle'')
       else Ok (last resolved))"

section \<open>The reference\<close>

text \<open>What the two stack machines compute, by recursion on the type.\<close>

fun key_of :: "rtype \<Rightarrow> string" where
  "key_of (Ty_Function parameters result) =
     function_key (length parameters) (map key_of parameters @ [key_of result])"
| "key_of (Ty_Nominal declaration arguments) = nominal_key declaration (length arguments) (map key_of arguments)"
| "key_of ty = leaf_key ty"

lemma key_loop_enters:
  "(\<And>ty frames keys. ty \<in> set tys \<Longrightarrow> key_loop (Kf_Enter ty # frames) keys = key_loop frames (keys @ [key_of ty])) \<Longrightarrow>
     key_loop (map Kf_Enter tys @ frames) keys = key_loop frames (keys @ map key_of tys)"
proof (induction tys arbitrary: keys)
  case (Cons ty tys)
  then show ?case by (simp del: key_loop.simps)
qed simp

lemma key_loop_enter: "key_loop (Kf_Enter ty # frames) keys = key_loop frames (keys @ [key_of ty])"
proof (induction ty arbitrary: frames keys)
  case (Ty_Function parameters result)
  then show ?case
    by (simp add: key_loop_enters)
next
  case (Ty_Nominal d arguments)
  then show ?case
    by (simp add: key_loop_enters)
qed simp_all

lemma identity_key_eq: "identity_key ty = Ok (key_of ty)"
  by (simp add: identity_key_def key_loop_enter del: key_loop.simps(2))

fun subst :: "declaration_id \<Rightarrow> rtype list \<Rightarrow> rtype \<Rightarrow> (diagnostic, rtype) res"
  and substs :: "declaration_id \<Rightarrow> rtype list \<Rightarrow> rtype list \<Rightarrow> (diagnostic, rtype list) res" where
  "subst owner arguments (Ty_Function parameters result) =
     res_bind (substs owner arguments parameters) (\<lambda>ps.
       res_bind (subst owner arguments result) (\<lambda>r. Ok (Ty_Function ps r)))"
| "subst owner arguments (Ty_Parameter parameter_owner index) =
     substitute_parameter owner arguments parameter_owner index"
| "subst owner arguments (Ty_Nominal declaration nested) =
     res_bind (substs owner arguments nested) (\<lambda>ts. Ok (Ty_Nominal declaration ts))"
| "subst owner arguments ty = Ok ty"
| "substs owner arguments [] = Ok []"
| "substs owner arguments (ty # tys) =
     res_bind (subst owner arguments ty) (\<lambda>t.
       res_bind (substs owner arguments tys) (\<lambda>ts. Ok (t # ts)))"

lemma substs_length: "substs owner arguments tys = Ok ts \<Longrightarrow> length ts = length tys"
  by (induction tys arbitrary: ts) (auto simp: res_iff)

lemma subst_loop_enters:
  "(\<And>ty frames resolved. ty \<in> set tys \<Longrightarrow> subst_loop owner arguments (Sf_Enter ty # frames) resolved =
       res_bind (subst owner arguments ty) (\<lambda>t. subst_loop owner arguments frames (resolved @ [t]))) \<Longrightarrow>
   subst_loop owner arguments (map Sf_Enter tys @ frames) resolved =
     res_bind (substs owner arguments tys) (\<lambda>ts. subst_loop owner arguments frames (resolved @ ts))"
proof (induction tys arbitrary: resolved)
  case (Cons ty tys)
  then show ?case
    by (cases "subst owner arguments ty"; cases "substs owner arguments tys")
       (simp_all del: subst_loop.simps(2))
qed simp

lemma subst_loop_enter:
  "subst_loop owner arguments (Sf_Enter ty # frames) resolved =
     res_bind (subst owner arguments ty) (\<lambda>t. subst_loop owner arguments frames (resolved @ [t]))"
proof (induction ty arbitrary: frames resolved)
  case (Ty_Function parameters result)
  show ?case
    unfolding subst_loop.simps(2)[of owner arguments "Ty_Function parameters result"]
    by (cases "substs owner arguments parameters"; cases "subst owner arguments result")
       (simp_all add: subst_loop_enters Ty_Function butlast_append substs_length del: subst_loop.simps(2))
next
  case (Ty_Nominal d nested)
  show ?case
    unfolding subst_loop.simps(2)[of owner arguments "Ty_Nominal d nested"]
    by (cases "substs owner arguments nested")
       (simp_all add: subst_loop_enters Ty_Nominal substs_length del: subst_loop.simps(2))
qed simp_all

lemma substitute_type_eq: "substitute_type ty owner arguments = subst owner arguments ty"
  by (cases "subst owner arguments ty")
     (simp_all add: substitute_type_def subst_loop_enter del: subst_loop.simps(2))

section \<open>Keys identify types\<close>

lemma show_nat_inj: "show_nat a = show_nat b \<longleftrightarrow> a = b"
  by (metis parse_digits_show_nat option.inject)

lemma takeWhile_show_nat: "takeWhile byte_digit (show_nat n @ CHR '':'' # x) = show_nat n"
proof -
  have "\<forall>c\<in>set (show_nat n). byte_digit c" using show_nat_digits[of n] by (simp add: list_all_iff)
  moreover have "\<not> byte_digit (CHR '':'')" by (simp add: is_digit_def)
  ultimately show ?thesis by (simp add: takeWhile_append)
qed

lemma show_nat_colon: "show_nat a @ CHR '':'' # x = show_nat b @ CHR '':'' # y \<longleftrightarrow> a = b \<and> x = y"
proof
  assume eq: "show_nat a @ CHR '':'' # x = show_nat b @ CHR '':'' # y"
  have "show_nat a = show_nat b"
    using arg_cong[OF eq, of "takeWhile byte_digit"] by (simp only: takeWhile_show_nat)
  then show "a = b \<and> x = y" using eq by (simp add: show_nat_inj)
qed simp

lemma framed_key: "show_nat (length k) @ CHR '':'' # k @ x = show_nat (length l) @ CHR '':'' # l @ y \<longleftrightarrow> k = l \<and> x = y"
  by (auto simp: show_nat_colon)

lemma framed_keys_inj: "framed_keys ks = framed_keys ls \<longleftrightarrow> ks = ls"
proof (induction ks arbitrary: ls)
  case Nil
  then show ?case using show_nat_digits by (cases ls) (auto simp: framed_keys_def)
next
  case (Cons k ks)
  show ?case
  proof (cases ls)
    case Nil
    then show ?thesis using show_nat_digits by (auto simp: framed_keys_def)
  next
    case (Cons l ls')
    then show ?thesis
      using Cons.IH[of ls'] framed_key[of k "framed_keys ks" l "framed_keys ls'"] by (simp add: framed_keys_def)
  qed
qed

lemma function_key_inj: "function_key c ks = function_key d ls \<longleftrightarrow> c = d \<and> ks = ls"
  by (auto simp: function_key_def show_nat_colon framed_keys_inj)

lemma nominal_key_inj: "nominal_key a c ks = nominal_key b d ls \<longleftrightarrow> a = b \<and> c = d \<and> ks = ls"
  using framed_key[of a "CHR '':'' # show_nat c @ CHR '':'' # framed_keys ks" b
      "CHR '':'' # show_nat d @ CHR '':'' # framed_keys ls"]
  by (auto simp: nominal_key_def show_nat_colon framed_keys_inj)

lemma parameter_key_inj:
  "leaf_key (Ty_Parameter a i) = leaf_key (Ty_Parameter b j) \<longleftrightarrow> a = b \<and> i = j"
  using framed_key[of a "CHR '':'' # show_nat (unat i)" b "CHR '':'' # show_nat (unat j)"]
  by (auto simp: show_nat_inj word_unat_eq_iff)

lemma map_inj_on_members:
  "(\<And>x y. x \<in> set xs \<Longrightarrow> f x = f y \<longleftrightarrow> x = y) \<Longrightarrow> map f xs = map f ys \<longleftrightarrow> xs = ys"
  by (induction xs arbitrary: ys) (auto simp: map_eq_Cons_conv Cons_eq_map_conv)

lemma key_of_inj: "key_of t = key_of u \<longleftrightarrow> t = u"
proof (induction t arbitrary: u)
  case (Ty_Function ps r)
  show ?case
  proof (cases u)
    case u: (Ty_Function qs s)
    have "map key_of ps = map key_of qs \<longleftrightarrow> ps = qs" by (rule map_inj_on_members) (rule Ty_Function(1))
    then show ?thesis using Ty_Function(2) by (auto simp: u function_key_inj)
  qed (simp_all add: function_key_def nominal_key_def)
next
  case (Ty_Nominal d as)
  show ?case
  proof (cases u)
    case u: (Ty_Nominal e bs)
    have "map key_of as = map key_of bs \<longleftrightarrow> as = bs" by (rule map_inj_on_members) (rule Ty_Nominal)
    then show ?thesis by (auto simp: u nominal_key_inj)
  qed (simp_all add: function_key_def nominal_key_def)
next
  case (Ty_Parameter a i)
  show ?case
    using parameter_key_inj by (cases u) (simp_all add: function_key_def nominal_key_def)
next
  case (Ty_ArrayU8 n)
  then show ?case by (cases u) (auto simp: show_nat_inj word_unat_eq_iff function_key_def nominal_key_def)
qed (case_tac u; simp add: function_key_def nominal_key_def)+

end
