(* ===== verification/ScalarTypes.thy ===== *)
theory ScalarTypes
  imports ScalarEval HirTypes
begin

text \<open>
  The typing rules of the operators (\<open>src/hir/validation.rs\<close>) against their evaluation
  (\<open>src/interpreter.rs\<close>): an operator on operands the validator admits yields values of the type the
  validator gives it, and no failure but the arithmetic ones of the integer types.
\<close>

section \<open>The rules\<close>




section \<open>Values and their types\<close>

text \<open>The types of the scalar values; the carriers have none here.\<close>

fun value_type :: "'x rvalue \<Rightarrow> rtype option" where
  "value_type (V_Int a) = Some Ty_I64"
| "value_type (V_Int32 a) = Some Ty_I32"
| "value_type (V_Uint8 a) = Some Ty_U8"
| "value_type (V_Usize a) = Some Ty_Usize"
| "value_type (V_Char a) = Some Ty_Char"
| "value_type (V_Float32 a) = Some Ty_F32"
| "value_type (V_Float64 a) = Some Ty_F64"
| "value_type (V_Bool a) = Some Ty_Bool"
| "value_type (V_String a) = Some Ty_String"
| "value_type (V_Carrier x) = None"

fun kind_type :: "int_kind \<Rightarrow> rtype" where
  "kind_type K_Int = Ty_I64"
| "kind_type K_Int32 = Ty_I32"
| "kind_type K_Uint8 = Ty_U8"
| "kind_type K_Usize = Ty_Usize"

lemma value_type_of_kind [simp]: "value_type (of_kind k n) = Some (kind_type k)"
  by (cases k) simp_all



text \<open>
  An evaluator yields values of a type, or flows of a set, and does not panic.  Flows of a well-typed
  program's operands are theirs: a \<open>Guard\<close> among them would be an ill-typed operation.
\<close>

definition yields :: "('x, 's) evaluator \<Rightarrow> rtype \<Rightarrow> 'x flow set \<Rightarrow> bool" where
  "yields e t F \<longleftrightarrow>
     (\<forall>s. case fst (e s) of Ok v \<Rightarrow> value_type v = Some t | Err f \<Rightarrow> f \<in> F | Panic \<Rightarrow> False)"

lemma yields_mono: "yields e t F \<Longrightarrow> F \<subseteq> G \<Longrightarrow> yields e t G"
  unfolding yields_def by (auto split: res.splits)

section \<open>One operation\<close>




section \<open>Type soundness\<close>



end
