(* ===== verification/PackageSemver.thy ===== *)
theory PackageSemver
  imports Diagnostics
begin

text \<open>
  Package versions and ranges: \<open>src/package_resolver/semver.rs\<close> and its sibling
  \<open>src/package_range.rs\<close>, with the error constructors of \<open>src/package_resolver/wire.rs\<close> they use.
  A version is three \<open>u32\<close>; its order is lexicographic, as \<open>derive(Ord)\<close> makes it.
\<close>

section \<open>Versions\<close>

datatype version = Version (v_major: u32) (v_minor: u32) (v_patch: u32)

instantiation version :: linorder
begin

definition less_eq_version :: "version \<Rightarrow> version \<Rightarrow> bool" where
  "less_eq_version v w \<longleftrightarrow>
     v_major v < v_major w \<or> (v_major v = v_major w \<and>
       (v_minor v < v_minor w \<or> (v_minor v = v_minor w \<and> v_patch v \<le> v_patch w)))"

definition less_version :: "version \<Rightarrow> version \<Rightarrow> bool" where
  "less_version v w \<longleftrightarrow> v \<le> w \<and> \<not> w \<le> (v :: version)"

instance
proof
  fix x y z :: version
  show "(x < y) = (x \<le> y \<and> \<not> y \<le> x)" by (rule less_version_def)
  show "x \<le> x" by (simp add: less_eq_version_def)
  show "x \<le> y \<Longrightarrow> y \<le> z \<Longrightarrow> x \<le> z" by (auto simp: less_eq_version_def)
  show "x \<le> y \<Longrightarrow> y \<le> x \<Longrightarrow> x = y" by (auto simp: less_eq_version_def intro: version.expand)
  show "x \<le> y \<or> y \<le> x" by (auto simp: less_eq_version_def)
qed

end

lemma version_le_iff:
  "Version a b c \<le> Version d e f \<longleftrightarrow> a < d \<or> (a = d \<and> (b < e \<or> (b = e \<and> c \<le> f)))"
  by (simp add: less_eq_version_def)

lemma version_less_iff:
  "Version a b c < Version d e f \<longleftrightarrow> a < d \<or> (a = d \<and> (b < e \<or> (b = e \<and> c < f)))"
  by (auto simp: less_version_def less_eq_version_def)

lemma less_version_sel:
  "v < w \<longleftrightarrow> v_major v < v_major w \<or> (v_major v = v_major w \<and>
     (v_minor v < v_minor w \<or> (v_minor v = v_minor w \<and> v_patch v < v_patch w)))"
  by (cases v; cases w) (simp add: version_less_iff)

datatype range = Exact version | Bounded (r_lower: version) (r_upper: version)

fun range_contains :: "range \<Rightarrow> version \<Rightarrow> bool" where
  "range_contains (Exact expected) v \<longleftrightarrow> v = expected"
| "range_contains (Bounded lower upper) v \<longleftrightarrow> lower \<le> v \<and> v < upper"

section \<open>Parsing\<close>

definition input_error :: "string \<Rightarrow> diagnostic" where
  "input_error message = diag_io ''SPX-PR501'' message"

definition resolution_error :: "string \<Rightarrow> diagnostic" where
  "resolution_error message = diag_io ''SPX-PR503'' message"

definition policy_error :: "string \<Rightarrow> diagnostic" where
  "policy_error message = diag_io ''SPX-PR504'' message"

definition limit_error :: "string \<Rightarrow> diagnostic" where
  "limit_error message = diag_io ''SPX-PR505'' message"

definition wire_error :: "string \<Rightarrow> diagnostic" where
  "wire_error message = diag_io ''SPX-PR506'' message"

text \<open>\<open>str::split\<close> on one ASCII character: always at least one piece.\<close>

fun split_on :: "char \<Rightarrow> string \<Rightarrow> string list" where
  "split_on d [] = [[]]"
| "split_on d (c # s) =
     (if c = d then [] # split_on d s
      else (case split_on d s of [] \<Rightarrow> [[c]] | p # ps \<Rightarrow> (c # p) # ps))"

definition nth_part :: "nat \<Rightarrow> string list \<Rightarrow> string option" where
  "nth_part i ps = (if i < length ps then Some (ps ! i) else None)"

text \<open>What a \<open>u32\<close> component looks like: canonical decimal.\<close>

definition canonical_component :: "string \<Rightarrow> bool" where
  "canonical_component s \<longleftrightarrow> s \<noteq> [] \<and> \<not> (1 < length s \<and> hd s = CHR ''0'') \<and> list_all byte_digit s"

definition component :: "string option \<Rightarrow> string \<Rightarrow> (diagnostic, u32) res" where
  "component part label =
     res_bind (ok_or (input_error (''missing '' @ label @ '' component'')) part) (\<lambda>s.
       if 10 < length s then Err (input_error (label @ '' component exceeds the u32 decimal width''))
       else if \<not> canonical_component s
       then Err (input_error (label @ '' component is not canonical unsigned decimal''))
       else
         case parse_unsigned (2 ^ 32) s of
           None \<Rightarrow> Err (input_error (label @ '' component overflows u32''))
         | Some n \<Rightarrow> Ok (word_of_nat n))"

definition MAX_VERSION_BYTES :: nat where
  "MAX_VERSION_BYTES = 10 + 1 + 10 + 1 + 10"

definition parse_version :: "string \<Rightarrow> (diagnostic, version) res" where
  "parse_version s =
     (if MAX_VERSION_BYTES < length s
      then Err (input_error ''version exceeds the frozen three-u32 byte width'')
      else
        let parts = split_on (CHR ''.'') s in
        res_bind (component (nth_part 0 parts) ''major'') (\<lambda>major.
        res_bind (component (nth_part 1 parts) ''minor'') (\<lambda>minor.
        res_bind (component (nth_part 2 parts) ''patch'') (\<lambda>patch.
          if nth_part 3 parts \<noteq> None
          then Err (input_error ''version must contain exactly three components'')
          else Ok (Version major minor patch)))))"

text \<open>\<open>str::get(..1)\<close>: the first byte, when it ends on a character boundary.\<close>

definition boundary_one :: "string \<Rightarrow> bool" where
  "boundary_one s \<longleftrightarrow>
     s \<noteq> [] \<and> (case tl s of [] \<Rightarrow> True | b # _ \<Rightarrow> \<not> (0x80 \<le> (of_char b :: nat) \<and> (of_char b :: nat) < 0xC0))"

definition bump_version :: "string \<Rightarrow> u32 \<Rightarrow> (diagnostic, u32) res" where
  "bump_version message n = ok_or (input_error message) (u_checked_add n 1)"

definition caret_upper :: "version \<Rightarrow> (diagnostic, version) res" where
  "caret_upper lower =
     (if v_major lower \<noteq> 0 then
        res_bind (bump_version ''caret upper bound overflows'' (v_major lower)) (\<lambda>n. Ok (Version n 0 0))
      else if v_minor lower \<noteq> 0 then
        res_bind (bump_version ''caret upper bound overflows'' (v_minor lower)) (\<lambda>n. Ok (Version 0 n 0))
      else
        res_bind (bump_version ''caret upper bound overflows'' (v_patch lower)) (\<lambda>n. Ok (Version 0 0 n)))"

definition parse_range :: "string \<Rightarrow> (diagnostic, range) res" where
  "parse_range s =
     (if \<not> boundary_one s then Err (input_error ''range must begin with one frozen operator'')
      else
        res_bind (parse_version (tl s)) (\<lambda>lower.
          if hd s = CHR ''='' then Ok (Exact lower)
          else if hd s = CHR ''~'' then
            res_bind (bump_version ''tilde upper bound overflows'' (v_minor lower)) (\<lambda>n.
              Ok (Bounded lower (Version (v_major lower) n 0)))
          else if hd s = CHR ''^'' then
            res_bind (caret_upper lower) (\<lambda>upper. Ok (Bounded lower upper))
          else Err (input_error ''unsupported version-range operator'')))"

text \<open>\<open>compare_coordinates\<close>: by package, then by version.\<close>

definition coordinate_le :: "string \<times> version \<Rightarrow> string \<times> version \<Rightarrow> bool" where
  "coordinate_le a b \<longleftrightarrow> fst a < fst b \<or> (fst a = fst b \<and> snd a \<le> snd b)"

section \<open>Parsing and printing\<close>

definition show_version :: "version \<Rightarrow> string" where
  "show_version v =
     show_nat (unat (v_major v)) @ ''.'' @ show_nat (unat (v_minor v)) @ ''.''
       @ show_nat (unat (v_patch v))"

lemma show_nat_less_10: "n < 10 \<Longrightarrow> show_nat n = [char_of (48 + n)]"
  by (subst show_nat.simps) simp

lemma show_nat_ge_10: "10 \<le> n \<Longrightarrow> show_nat n = show_nat (n div 10) @ [char_of (48 + n mod 10)]"
  by (subst show_nat.simps) simp

lemma byte_digit_char: "byte_digit b \<Longrightarrow> char_of (48 + digit_val b) = b \<and> digit_val b < 10"
  by (auto simp: is_digit_def digit_val_def)

lemma hd_show_nat: "0 < n \<Longrightarrow> hd (show_nat n) \<noteq> CHR ''0''"
proof (induction n rule: show_nat.induct)
  case (1 n)
  show ?case
  proof (cases "n < 10")
    case True
    have "(of_char (char_of (48 + n) :: char) :: nat) \<noteq> of_char (CHR ''0'')"
      using True 1(2) by simp
    then have "char_of (48 + n) \<noteq> CHR ''0''" by metis
    with True show ?thesis by (simp add: show_nat_less_10)
  next
    case False
    then have "hd (show_nat (n div 10)) \<noteq> CHR ''0''" by (intro 1(1)) auto
    with False show ?thesis using show_nat_digits[of "n div 10"] by (simp add: show_nat_ge_10)
  qed
qed

lemma canonical_show_nat: "canonical_component (show_nat n)"
proof (cases "n = 0")
  case True
  then show ?thesis by (simp add: show_nat_less_10 canonical_component_def is_digit_def)
next
  case False
  then show ?thesis
    using show_nat_digits[of n] hd_show_nat[of n] by (simp add: canonical_component_def)
qed

lemma dec_value_pos:
  "list_all byte_digit s \<Longrightarrow> s \<noteq> [] \<Longrightarrow> hd s \<noteq> CHR ''0'' \<Longrightarrow> 0 < dec_value s"
proof (induction s rule: rev_induct)
  case (snoc b s)
  show ?case
  proof (cases "s = []")
    case True
    with snoc.prems have "byte_digit b" "b \<noteq> CHR ''0''" by simp_all
    moreover have "char_of (48 :: nat) = CHR ''0''" by code_simp
    ultimately have "digit_val b \<noteq> 0"
      using byte_digit_char[of b] by (intro notI) simp
    with True show ?thesis by (simp add: dec_value_def)
  next
    case False
    with snoc have "0 < dec_value s" by simp
    then show ?thesis by (simp add: dec_value_append)
  qed
qed simp

text \<open>A canonical component is the decimal text of its value.\<close>

lemma show_nat_dec_value: "canonical_component s \<Longrightarrow> show_nat (dec_value s) = s"
proof (induction s rule: rev_induct)
  case Nil
  then show ?case by (simp add: canonical_component_def)
next
  case (snoc b s)
  have b: "char_of (48 + digit_val b) = b" "digit_val b < 10"
    using snoc.prems byte_digit_char[of b] by (simp_all add: canonical_component_def)
  show ?case
  proof (cases "s = []")
    case True
    with b show ?thesis by (simp add: dec_value_def show_nat_less_10)
  next
    case False
    then have s: "canonical_component s" "hd s \<noteq> CHR ''0''" "list_all byte_digit s"
      using snoc.prems by (auto simp: canonical_component_def)
    then have "0 < dec_value s" using dec_value_pos False by blast
    then have "show_nat (10 * dec_value s + digit_val b) = show_nat (dec_value s) @ [b]"
      using b by (subst show_nat_ge_10) simp_all
    with s snoc.IH show ?thesis by (simp add: dec_value_append)
  qed
qed

lemma length_show_nat: "n < 10 ^ k \<Longrightarrow> 0 < k \<Longrightarrow> length (show_nat n) \<le> k"
proof (induction k arbitrary: n)
  case (Suc k)
  show ?case
  proof (cases "n < 10")
    case True
    then show ?thesis by (simp add: show_nat_less_10)
  next
    case False
    then have "0 < k" using Suc.prems by (cases k) auto
    moreover have "n div 10 < 10 ^ k" using Suc.prems by (simp add: less_mult_imp_div_less)
    ultimately have "length (show_nat (n div 10)) \<le> k" by (simp add: Suc.IH)
    with False show ?thesis by (simp add: show_nat_ge_10)
  qed
qed simp

lemma length_show_u32: "length (show_nat (unat (w :: u32))) \<le> 10"
proof (rule length_show_nat)
  have "unat w < 2 ^ 32" using unsigned_less[of w, where 'a = nat] by simp
  then show "unat w < 10 ^ 10" by simp
qed simp

lemma no_sign_digits: "list_all byte_digit s \<Longrightarrow> s \<noteq> [] \<Longrightarrow> parse_unsigned B s
    = (if dec_value s < B then Some (dec_value s) else None)"
  by (cases s) (auto simp: parse_unsigned_def parse_digits_def is_digit_def)

lemma component_Ok_iff: "component part label = Ok w \<longleftrightarrow> part = Some (show_nat (unat w))"
proof
  assume "component part label = Ok w"
  then obtain s where s: "part = Some s" "canonical_component s" "parse_unsigned (2 ^ 32) s = Some (unat w)"
  proof (cases part)
    case (Some s)
    with \<open>component part label = Ok w\<close> obtain n where n: "parse_unsigned (2 ^ 32) s = Some n"
      "w = word_of_nat n" "canonical_component s"
      by (auto simp: component_def split: if_splits option.splits)
    then have "n < 2 ^ LENGTH(32)"
      by (auto simp: parse_unsigned_def Let_def split: option.splits if_splits)
    then have "unat w = n" unfolding n(2) by (rule unat_word_of_nat)
    with Some n show thesis by (intro that) simp_all
  qed (simp add: component_def)
  then have "dec_value s = unat w"
    by (auto simp: canonical_component_def no_sign_digits split: if_splits)
  then show "part = Some (show_nat (unat w))" using show_nat_dec_value[OF s(2)] s(1) by simp
next
  assume p: "part = Some (show_nat (unat w))"
  have "unat w < 2 ^ 32" using unsigned_less[of w, where 'a = nat] by simp
  then have "parse_unsigned (2 ^ 32) (show_nat (unat w)) = Some (unat w)"
    using show_nat_digits[of "unat w"] by (simp add: no_sign_digits)
  then show "component part label = Ok w"
    using length_show_u32[of w] canonical_show_nat by (simp add: p component_def)
qed

lemma component_not_Panic [simp]: "component part label \<noteq> Panic"
  by (auto simp: component_def res_iff split: option.splits)

lemma split_on_nonempty [simp]: "split_on d s \<noteq> []"
  by (cases s) (auto split: list.splits)

lemma split_on_append:
  "d \<notin> set p \<Longrightarrow> split_on d (p @ d # s) = p # split_on d s"
  by (induction p) auto

lemma split_on_plain: "d \<notin> set p \<Longrightarrow> split_on d p = [p]"
  by (induction p) auto

lemma split_on_Cons_iff:
  "split_on d s = p # ps \<longleftrightarrow> (d \<notin> set p \<and> (if ps = [] then s = p else (\<exists>t. s = p @ d # t \<and> split_on d t = ps)))"
proof (induction s arbitrary: p ps)
  case Nil
  then show ?case by auto
next
  case (Cons c s)
  show ?case
  proof (cases "c = d")
    case True
    then show ?thesis by (cases p) (auto simp: Cons_eq_append_conv)
  next
    case False
    obtain q qs where q: "split_on d s = q # qs" by (cases "split_on d s") auto
    show ?thesis
      using False Cons.IH[of q qs] q Cons.IH[of "tl p" ps] by (cases p) (auto split: if_splits)
  qed
qed

lemma dot_not_digit: "canonical_component s \<Longrightarrow> CHR ''.'' \<notin> set s"
  by (auto simp: canonical_component_def list_all_iff is_digit_def dest!: bspec)

lemma split_three:
  assumes "CHR ''.'' \<notin> set a" "CHR ''.'' \<notin> set b" "CHR ''.'' \<notin> set c"
  shows "split_on (CHR ''.'') s = [a, b, c] \<longleftrightarrow> s = a @ ''.'' @ b @ ''.'' @ c"
  using assms by (auto simp: split_on_Cons_iff)

lemma parse_version_Ok: "parse_version s = Ok v \<longleftrightarrow> s = show_version v"
proof -
  obtain a b c where v: "v = Version a b c" by (cases v)
  have dots: "CHR ''.'' \<notin> set (show_nat n)" for n by (rule dot_not_digit[OF canonical_show_nat])
  have parts: "(nth_part 0 ps = Some x \<and> nth_part 1 ps = Some y \<and> nth_part 2 ps = Some z \<and> nth_part 3 ps = None)
      \<longleftrightarrow> ps = [x, y, z]" for ps x y z
    by (cases ps; cases "tl ps"; cases "tl (tl ps)"; cases "tl (tl (tl ps))")
       (auto simp: nth_part_def)
  have len: "length (show_version v) \<le> MAX_VERSION_BYTES"
    using length_show_u32[of a] length_show_u32[of b] length_show_u32[of c]
    by (simp add: show_version_def v MAX_VERSION_BYTES_def)
  have "parse_version s = Ok v \<longleftrightarrow> length s \<le> MAX_VERSION_BYTES
      \<and> split_on (CHR ''.'') s = [show_nat (unat a), show_nat (unat b), show_nat (unat c)]"
    unfolding parts[symmetric] parse_version_def v
    by (auto simp: Let_def res_iff component_Ok_iff split: if_splits)
  then show ?thesis
    using len by (auto simp: split_three dots show_version_def v)
qed

text \<open>
  Version texts are canonical: \<open>parse_version\<close> accepts exactly the texts that print a version,
  so a version has one spelling and a spelling one version; leading zeros, signs, missing or extra
  components and components above \<open>u32\<close> are all refused.
\<close>
theorem parse_version_canonical: "parse_version s = Ok v \<longleftrightarrow> s = show_version v"
  by (rule parse_version_Ok)

section \<open>What a range means\<close>

text \<open>
  The versions a range text stands for: \<open>=\<close> the version itself, \<open>~\<close> later patches of the same
  minor, \<open>^\<close> later versions that keep the leftmost nonzero component.
\<close>

definition range_spec :: "char \<Rightarrow> version \<Rightarrow> version \<Rightarrow> bool" where
  "range_spec op v w \<longleftrightarrow>
     (if op = CHR ''='' then w = v
      else if op = CHR ''~'' then v \<le> w \<and> v_major w = v_major v \<and> v_minor w = v_minor v
      else v \<le> w \<and> v_major w = v_major v
        \<and> (v_major v = 0 \<longrightarrow> v_minor w = v_minor v \<and> (v_minor v = 0 \<longrightarrow> v_patch w = v_patch v)))"

text \<open>The texts with a meaning: a known operator whose upper bound fits in \<open>u32\<close>.\<close>

definition range_ok :: "char \<Rightarrow> version \<Rightarrow> bool" where
  "range_ok op v \<longleftrightarrow>
     op = CHR ''='' \<or> (op = CHR ''~'' \<and> v_minor v \<noteq> - 1)
     \<or> (op = CHR ''^'' \<and> (if v_major v \<noteq> 0 then v_major v else if v_minor v \<noteq> 0 then v_minor v
                      else v_patch v) \<noteq> - 1)"

lemma u_checked_add_1: "u_checked_add n 1 = (if n = - 1 then None else Some (n + 1))"
  for n :: "'a::len word"
proof (cases "n = - 1")
  case True
  then show ?thesis by (simp add: u_checked_add_def unat_max_word)
next
  case False
  then have "unat n \<noteq> unat (- 1 :: 'a word)" by (simp only: word_unat_eq_iff) simp
  moreover have "unat n < 2 ^ LENGTH('a)" by simp
  ultimately have "unat n + 1 < 2 ^ LENGTH('a)" unfolding unat_max_word by linarith
  then have "unat n + unat (1 :: 'a word) < 2 ^ LENGTH('a)" by (simp only: unat_1)
  then show ?thesis using False by (simp only: u_checked_add_def if_True if_False)
qed

lemma bump_version_Ok_iff [res_iff]: "bump_version m n = Ok k \<longleftrightarrow> n \<noteq> - 1 \<and> k = n + 1"
  by (auto simp: bump_version_def res_iff u_checked_add_1)

lemma bump_version_not_Panic [simp]: "bump_version m n \<noteq> Panic"
  by (simp add: bump_version_def)

lemma less_Suc_word: "n \<noteq> - 1 \<Longrightarrow> w < n + 1 \<longleftrightarrow> w \<le> n" for n w :: "'a::len word"
proof -
  assume n: "n \<noteq> - 1"
  then have "1 + n \<noteq> 0" by (metis add.commute add_eq_0_iff)
  then have "unat (n + 1) = Suc (unat n)" by (simp add: add.commute[of n] unatSuc)
  then show ?thesis by (simp add: word_less_nat_alt word_le_nat_alt less_Suc_eq_le)
qed

lemma not_Suc_less: "n \<noteq> - 1 \<Longrightarrow> \<not> n + 1 < n" for n :: "'a::len word"
  using word_less_Suc[of n] by (auto dest: less_asym)

lemma range_of_text:
  "range_ok op v \<Longrightarrow> \<exists>r. parse_range (op # show_version v) = Ok r
     \<and> (\<forall>w. range_contains r w = range_spec op v w)"
proof -
  assume ok: "range_ok op v"
  have "(of_char (hd (show_version v)) :: nat) < 0x80"
    using show_nat_digits[of "unat (v_major v)"]
    by (cases "show_nat (unat (v_major v))") (auto simp: show_version_def is_digit_def)
  then have b: "boundary_one (op # show_version v)"
    by (cases "show_version v") (auto simp: boundary_one_def)
  have p: "parse_version (show_version v) = Ok v" by (simp add: parse_version_Ok)
  obtain a b' c where v: "v = Version a b' c" by (cases v)
  have fits: "u_checked_add n 1 = Some (n + 1)" if "n \<noteq> - 1" for n :: u32
    using that by (simp add: u_checked_add_1)
  consider (eq) "op = CHR ''=''" | (tilde) "op = CHR ''~''" "b' \<noteq> - 1"
    | (maj) "op = CHR ''^''" "a \<noteq> 0" "a \<noteq> - 1" | (min) "op = CHR ''^''" "a = 0" "b' \<noteq> 0" "b' \<noteq> - 1"
    | (pat) "op = CHR ''^''" "a = 0" "b' = 0" "c \<noteq> - 1"
    using ok by (auto simp: range_ok_def v split: if_splits)
  then show ?thesis
  proof cases
    case eq
    then show ?thesis using b p by (intro exI[of _ "Exact v"]) (simp add: parse_range_def range_spec_def)
  next
    case tilde
    then show ?thesis using b p
      by (intro exI[of _ "Bounded v (Version a (b' + 1) 0)"])
         (auto simp: parse_range_def range_spec_def v bump_version_def fits less_eq_version_def
          less_version_sel less_Suc_word not_Suc_less)
  next
    case maj
    then show ?thesis using b p
      by (intro exI[of _ "Bounded v (Version (a + 1) 0 0)"])
         (auto simp: parse_range_def caret_upper_def range_spec_def v bump_version_def fits
          less_eq_version_def less_version_sel less_Suc_word not_Suc_less)
  next
    case min
    then show ?thesis using b p
      by (intro exI[of _ "Bounded v (Version 0 (b' + 1) 0)"])
         (auto simp: parse_range_def caret_upper_def range_spec_def v bump_version_def fits
          less_eq_version_def less_version_sel less_Suc_word not_Suc_less)
  next
    case pat
    then show ?thesis using b p
      by (intro exI[of _ "Bounded v (Version 0 0 (c + 1))"])
         (auto simp: parse_range_def caret_upper_def range_spec_def v bump_version_def fits
          less_eq_version_def less_version_sel less_Suc_word not_Suc_less)
  qed
qed

lemma parse_range_Ok_text:
  "parse_range s = Ok r \<Longrightarrow> \<exists>op v. s = op # show_version v \<and> range_ok op v"
proof -
  assume r: "parse_range s = Ok r"
  then obtain op s' where s: "s = op # s'" by (cases s) (auto simp: parse_range_def boundary_one_def)
  with r obtain v where v: "parse_version s' = Ok v"
    by (auto simp: parse_range_def res_iff split: if_splits)
  with r s have "range_ok op v"
    by (auto simp: parse_range_def res_iff range_ok_def caret_upper_def split: if_splits)
  with s v show ?thesis by (auto simp: parse_version_Ok)
qed

lemma parse_version_not_Panic [simp]: "parse_version s \<noteq> Panic"
  by (auto simp: parse_version_def res_iff Let_def split: if_splits)

lemma parse_range_not_Panic [simp]: "parse_range s \<noteq> Panic"
  by (auto simp: parse_range_def caret_upper_def res_iff split: if_splits)

text \<open>
  Range texts mean what the operators promise: \<open>parse_range\<close> accepts exactly an operator
  followed by a canonical version whose upper bound does not overflow, and the range it builds
  contains exactly the versions of the operator's specification.
\<close>
theorem parse_range_meaning:
  "(case parse_range s of
      Ok r \<Rightarrow> \<exists>op v. s = op # show_version v \<and> range_ok op v
                \<and> range_contains r = range_spec op v
    | Err d \<Rightarrow> \<nexists>op v. s = op # show_version v \<and> range_ok op v
    | Panic \<Rightarrow> False)"
proof (cases "parse_range s")
  case (Ok r)
  then obtain op v where s: "s = op # show_version v" "range_ok op v"
    using parse_range_Ok_text by blast
  then obtain r' where "parse_range s = Ok r'" "\<forall>w. range_contains r' w = range_spec op v w"
    using range_of_text by blast
  with Ok s show ?thesis by auto
next
  case (Err d)
  then show ?thesis using range_of_text by fastforce
qed simp

section \<open>The shared grammar of \<open>src/package_range.rs\<close>\<close>

definition pr_component ::
  "(string \<Rightarrow> diagnostic) \<Rightarrow> string option \<Rightarrow> string \<Rightarrow> (diagnostic, u32) res" where
  "pr_component error part label =
     res_bind (ok_or (error (''missing '' @ label @ '' component'')) part) (\<lambda>s.
       if s = [] \<or> 10 < length s \<or> (1 < length s \<and> hd s = CHR ''0'') \<or> \<not> list_all byte_digit s
       then Err (error (label @ '' component is not canonical unsigned decimal''))
       else
         case parse_unsigned (2 ^ 32) s of
           None \<Rightarrow> Err (error (label @ '' component overflows u32''))
         | Some n \<Rightarrow> Ok (word_of_nat n))"

definition pr_parse_version ::
  "string \<Rightarrow> (string \<Rightarrow> diagnostic) \<Rightarrow> (diagnostic, version) res" where
  "pr_parse_version s error =
     (if 32 < length s then Err (error ''version exceeds the frozen three-u32 byte width'')
      else
        let parts = split_on (CHR ''.'') s in
        res_bind (pr_component error (nth_part 0 parts) ''major'') (\<lambda>major.
        res_bind (pr_component error (nth_part 1 parts) ''minor'') (\<lambda>minor.
        res_bind (pr_component error (nth_part 2 parts) ''patch'') (\<lambda>patch.
          if nth_part 3 parts \<noteq> None
          then Err (error ''version must contain exactly three components'')
          else Ok (Version major minor patch)))))"

definition pr_parse_range ::
  "string \<Rightarrow> (string \<Rightarrow> diagnostic) \<Rightarrow> (diagnostic, range) res" where
  "pr_parse_range s error =
     (if \<not> boundary_one s then Err (error ''range must begin with one frozen operator'')
      else
        res_bind (pr_parse_version (tl s) error) (\<lambda>lower.
          let bump = (\<lambda>message n. ok_or (error message) (u_checked_add n 1)) in
          if hd s = CHR ''='' then Ok (Exact lower)
          else res_bind
            (if hd s = CHR ''~'' then
               res_bind (bump ''tilde upper bound overflows'' (v_minor lower)) (\<lambda>n.
                 Ok (Version (v_major lower) n 0))
             else if hd s = CHR ''^'' \<and> 0 < v_major lower then
               res_bind (bump ''caret upper bound overflows'' (v_major lower)) (\<lambda>n. Ok (Version n 0 0))
             else if hd s = CHR ''^'' \<and> 0 < v_minor lower then
               res_bind (bump ''caret upper bound overflows'' (v_minor lower)) (\<lambda>n. Ok (Version 0 n 0))
             else if hd s = CHR ''^'' then
               res_bind (bump ''caret upper bound overflows'' (v_patch lower)) (\<lambda>n. Ok (Version 0 0 n))
             else Err (error ''unsupported version-range operator''))
            (\<lambda>upper. Ok (Bounded lower upper))))"

lemma pr_component_Ok: "pr_component error part label = Ok w \<longleftrightarrow> component part label = Ok w"
  by (cases part) (auto simp: pr_component_def component_def canonical_component_def split: option.splits)

lemma pr_parse_version_Ok: "pr_parse_version s error = Ok v \<longleftrightarrow> parse_version s = Ok v"
  by (simp add: pr_parse_version_def parse_version_def MAX_VERSION_BYTES_def Let_def res_iff pr_component_Ok)

text \<open>
  The two version grammars of the program agree: the resolver's own parser and the shared one
  of \<open>package_range\<close> accept the same range texts and build the same ranges, whatever error
  constructor the caller passes.
\<close>
theorem pr_parse_range_agrees: "pr_parse_range s error = Ok r \<longleftrightarrow> parse_range s = Ok r"
proof -
  have pos: "0 < n \<longleftrightarrow> n \<noteq> 0" for n :: u32 by (simp add: word_gt_0)
  show ?thesis
    unfolding pr_parse_range_def parse_range_def caret_upper_def Let_def pos
    by (auto simp: res_iff pr_parse_version_Ok bump_version_def split: if_splits)
qed

end
