(* ===== verification/ResolverCatalog.thy ===== *)
theory ResolverCatalog
  imports PackageSemver OrdMap "HOL-Library.Product_Lexorder"
begin

text \<open>
  Inputs of the offline package resolver: \<open>src/package_resolver.rs\<close> (bounds, input),
  \<open>package_resolver/model.rs\<close> (\<open>validate_input\<close>) and \<open>package_resolver/catalog.rs\<close>.  A subject's
  bytes are authenticated by \<open>package_lock_v2::authenticate_subject_for_resolution\<close> and the catalog
  digest is a SHA-256; both are parameters here.  \<open>usize\<close> counters are \<open>nat\<close> with the 64-bit limit
  written out.
\<close>

section \<open>Bounds and inputs\<close>

definition MAX_REQUIREMENTS :: nat where "MAX_REQUIREMENTS = 4"
definition MAX_SUBJECTS :: nat where "MAX_SUBJECTS = 64"
definition MAX_VERSIONS_PER_PACKAGE :: nat where "MAX_VERSIONS_PER_PACKAGE = 32"
definition MAX_SELECTED_PACKAGES :: nat where "MAX_SELECTED_PACKAGES = 4"
definition MAX_ALLOWED_CAPABILITIES :: nat where "MAX_ALLOWED_CAPABILITIES = 256"
definition MAX_SUBJECT_BYTES :: nat where "MAX_SUBJECT_BYTES = 17 * 1024 * 1024"
definition MAX_TOTAL_SUBJECT_BYTES :: nat where "MAX_TOTAL_SUBJECT_BYTES = 128 * 1024 * 1024"
definition MAX_EDGES :: nat where "MAX_EDGES = 256"
definition MAX_DEPTH :: nat where "MAX_DEPTH = 32"
definition MAX_DECISIONS :: nat where "MAX_DECISIONS = 4096"
definition MAX_WORK_UNITS :: nat where "MAX_WORK_UNITS = 8 * 1024 * 1024"

record requirement =
  rq_package :: string
  rq_range :: string

record resolution_input =
  ri_requirements :: "requirement list"
  ri_subjects :: "string list"
  ri_target :: string
  ri_allowed :: "string list"

record parsed_requirement =
  pq_package :: string
  pq_text :: string
  pq_range :: range
  pq_row :: nat

datatype coordinate = Coordinate (co_package: string) (co_version: string)

instantiation coordinate :: linorder
begin

definition less_eq_coordinate :: "coordinate \<Rightarrow> coordinate \<Rightarrow> bool" where
  "less_eq_coordinate a b \<longleftrightarrow> (co_package a, co_version a) \<le> (co_package b, co_version b)"

definition less_coordinate :: "coordinate \<Rightarrow> coordinate \<Rightarrow> bool" where
  "less_coordinate a b \<longleftrightarrow> (co_package a, co_version a) < (co_package b, co_version b)"

instance
  by standard (auto simp: less_eq_coordinate_def less_coordinate_def intro: coordinate.expand)

end

record resolution_subject =
  rs_coordinate :: coordinate
  rs_digest :: string
  rs_bytes :: nat
  rs_dependencies :: "coordinate list"
  rs_capabilities :: "string list"
  rs_targets :: "(string, string) bmap"

section \<open>Work accounting\<close>

definition charge :: "nat \<Rightarrow> nat \<Rightarrow> (diagnostic, nat) res" where
  "charge units work =
     (if work + units < 2 ^ 64
      then if MAX_WORK_UNITS < work + units then Err (limit_error ''resolver work bound exceeded'')
           else Ok (work + units)
      else Err (limit_error ''resolver work accounting overflow''))"

lemma charge_Ok_iff [res_iff]: "charge u w = Ok w' \<longleftrightarrow> w' = w + u \<and> w + u \<le> MAX_WORK_UNITS"
  by (auto simp: charge_def MAX_WORK_UNITS_def)

lemma charge_not_Panic [simp]: "charge u w \<noteq> Panic"
  by (simp add: charge_def)

lemma charge_Err: "charge u w = Err d \<Longrightarrow> d_code d = ''SPX-PR505''"
  by (auto simp: charge_def limit_error_def diag_io_def split: if_splits)

section \<open>Validation of the input\<close>

definition identity_byte :: "char \<Rightarrow> bool" where
  "identity_byte b \<longleftrightarrow> is_alnum (of_char b) \<or> b = CHR ''.'' \<or> b = CHR ''-'' \<or> b = CHR ''_''"

definition validate_identity :: "string \<Rightarrow> string \<Rightarrow> (diagnostic, unit) res" where
  "validate_identity s label =
     (if s = [] \<or> 255 < length s \<or> \<not> list_all identity_byte s
      then Err (input_error (''invalid '' @ label)) else Ok ())"

fun validate_sorted :: "string \<Rightarrow> string option \<Rightarrow> string list \<Rightarrow> (diagnostic, unit) res" where
  "validate_sorted label previous [] = Ok ()"
| "validate_sorted label previous (v # vs) =
     res_bind (validate_identity v label) (\<lambda>_.
       if (case previous of None \<Rightarrow> False | Some p \<Rightarrow> v \<le> p)
       then Err (input_error (label @ '' values must be strictly sorted and unique''))
       else validate_sorted label (Some v) vs)"

definition validate_values :: "string list \<Rightarrow> nat \<Rightarrow> string \<Rightarrow> (diagnostic, unit) res" where
  "validate_values vs maximum label =
     (if maximum < length vs then Err (input_error (label @ '' count exceeds limit''))
      else validate_sorted label None vs)"

fun validate_requirements ::
  "nat \<Rightarrow> string option \<Rightarrow> requirement list \<Rightarrow> nat \<Rightarrow> (diagnostic, parsed_requirement list \<times> nat) res" where
  "validate_requirements row previous [] work = Ok ([], work)"
| "validate_requirements row previous (r # rs) work =
     res_bind (validate_identity (rq_package r) ''package'') (\<lambda>_.
       if (case previous of None \<Rightarrow> False | Some p \<Rightarrow> rq_package r \<le> p)
       then Err (input_error ''requirements must be strictly package-sorted and unique'')
       else res_bind (parse_range (rq_range r)) (\<lambda>range.
            res_bind (charge 1 work) (\<lambda>work'.
            res_bind (validate_requirements (row + 1) (Some (rq_package r)) rs work') (\<lambda>(parsed, work'').
              Ok (\<lparr>pq_package = rq_package r, pq_text = rq_range r, pq_range = range, pq_row = row\<rparr> # parsed,
                  work'')))))"

definition validate_input ::
  "resolution_input \<Rightarrow> nat \<Rightarrow> (diagnostic, parsed_requirement list \<times> nat) res" where
  "validate_input input work =
     (if ri_requirements input = [] \<or> MAX_REQUIREMENTS < length (ri_requirements input)
      then Err (input_error ''requirement count is outside bounds'')
      else if ri_target input \<noteq> ''native64'' \<and> ri_target input \<noteq> ''wasm32''
      then Err (input_error ''target is outside the closed set'')
      else res_bind (validate_values (ri_allowed input) MAX_ALLOWED_CAPABILITIES ''capability'') (\<lambda>_.
           validate_requirements 0 None (ri_requirements input) work))"

section \<open>The catalog\<close>

record entry =
  en_subject :: resolution_subject
  en_version :: version
  en_dependency_versions :: "version list"
  en_bytes :: string

abbreviation en_package :: "entry \<Rightarrow> string" where
  "en_package e \<equiv> co_package (rs_coordinate (en_subject e))"

record catalog =
  ca_entries :: "entry list"
  ca_by_package :: "(string, nat list) bmap"
  ca_by_coordinate :: "(string \<times> version, nat) bmap"
  ca_target_inventory :: "string bset"
  ca_total_bytes :: nat
  ca_digest :: string

definition authentication_error :: "string \<Rightarrow> diagnostic" where
  "authentication_error message = diag_io ''SPX-PR502'' message"

definition map_subject_error :: "diagnostic \<Rightarrow> diagnostic" where
  "map_subject_error e =
     (if d_code e = ''SPX-PL506'' then limit_error ''nested Subject-v2 bound failed''
      else authentication_error ''Subject-v2 or Report-v2 replay failed'')"

type_synonym authenticator = "string \<Rightarrow> nat \<Rightarrow> (diagnostic, resolution_subject \<times> nat) res"

fun dependency_versions :: "coordinate list \<Rightarrow> (diagnostic, version list) res" where
  "dependency_versions [] = Ok []"
| "dependency_versions (d # ds) =
     res_bind (validate_identity (co_package d) ''dependency package'') (\<lambda>_.
     res_bind (parse_version (co_version d)) (\<lambda>v.
     res_bind (dependency_versions ds) (\<lambda>vs. Ok (v # vs))))"

definition map_err :: "('e \<Rightarrow> 'f) \<Rightarrow> ('e, 'a) res \<Rightarrow> ('f, 'a) res" where
  "map_err f r = (case r of Ok x \<Rightarrow> Ok x | Err e \<Rightarrow> Err (f e) | Panic \<Rightarrow> Panic)"

fun authenticate_entries ::
  "authenticator \<Rightarrow> nat \<Rightarrow> string list \<Rightarrow> nat \<Rightarrow> (diagnostic, entry list \<times> nat \<times> nat) res" where
  "authenticate_entries auth acc [] work = Ok ([], acc, work)"
| "authenticate_entries auth acc (bytes # rest) work =
     (if 2 ^ 64 \<le> acc + length bytes
      then Err (limit_error ''catalog byte accounting overflow'')
      else if MAX_SUBJECT_BYTES < length bytes \<or> MAX_TOTAL_SUBJECT_BYTES < acc + length bytes
      then Err (limit_error ''catalog subject byte bound exceeded'')
      else
        res_bind (charge 1 work) (\<lambda>work1.
        res_bind (map_err map_subject_error (auth bytes work1)) (\<lambda>(subject, work2).
        res_bind (validate_identity (co_package (rs_coordinate subject)) ''subject package'') (\<lambda>_.
        res_bind (parse_version (co_version (rs_coordinate subject))) (\<lambda>version.
        res_bind (dependency_versions (rs_dependencies subject)) (\<lambda>dvs.
        res_bind (authenticate_entries auth (acc + length bytes) rest work2) (\<lambda>(entries, acc', work').
          Ok (\<lparr>en_subject = subject, en_version = version, en_dependency_versions = dvs,
               en_bytes = bytes\<rparr> # entries, acc', work'))))))))"

text \<open>\<open>sort_by\<close> with \<open>compare_coordinates\<close>, and \<open>sort_by_key\<close> with \<open>Reverse(version)\<close>: stable sorts.\<close>

datatype reversed = Reverse (unreverse: version)

instantiation reversed :: linorder
begin

definition less_eq_reversed :: "reversed \<Rightarrow> reversed \<Rightarrow> bool" where
  "less_eq_reversed a b \<longleftrightarrow> unreverse b \<le> unreverse a"

definition less_reversed :: "reversed \<Rightarrow> reversed \<Rightarrow> bool" where
  "less_reversed a b \<longleftrightarrow> unreverse b < unreverse a"

instance
  by standard (auto simp: less_eq_reversed_def less_reversed_def intro: reversed.expand)

end

definition entry_key :: "entry \<Rightarrow> string \<times> version" where
  "entry_key e = (en_package e, en_version e)"

fun index_entries ::
  "nat \<Rightarrow> entry list \<Rightarrow> (string, nat list) bmap \<Rightarrow> (string \<times> version, nat) bmap
     \<Rightarrow> (diagnostic, (string, nat list) bmap \<times> (string \<times> version, nat) bmap) res" where
  "index_entries i [] by_package by_coordinate = Ok (by_package, by_coordinate)"
| "index_entries i (e # es) by_package by_coordinate =
     (if bm_contains by_coordinate (entry_key e)
      then Err (resolution_error ''duplicate catalog coordinate'')
      else
        let versions = (case bm_get by_package (en_package e) of None \<Rightarrow> [] | Some vs \<Rightarrow> vs) @ [i] in
        if MAX_VERSIONS_PER_PACKAGE < length versions
        then Err (limit_error ''catalog versions per package exceed limit'')
        else index_entries (i + 1) es (bm_insert (en_package e) versions by_package)
               (bm_insert (entry_key e) i by_coordinate))"

definition sort_versions :: "entry list \<Rightarrow> nat list \<Rightarrow> nat list" where
  "sort_versions entries ixs = sort_key (\<lambda>i. Reverse (en_version (entries ! i))) ixs"

fun check_target_keys :: "string bset \<Rightarrow> string list \<Rightarrow> nat \<Rightarrow> (diagnostic, nat) res" where
  "check_target_keys inventory [] work = Ok work"
| "check_target_keys inventory (k # ks) work =
     res_bind (charge 1 work) (\<lambda>work'.
       if bs_contains inventory k then check_target_keys inventory ks work'
       else Err (policy_error ''catalog target inventory disagrees''))"

fun check_inventory :: "string bset \<Rightarrow> entry list \<Rightarrow> nat \<Rightarrow> (diagnostic, nat) res" where
  "check_inventory inventory [] work = Ok work"
| "check_inventory inventory (e # es) work =
     res_bind (check_target_keys inventory (bm_keys (rs_targets (en_subject e))) work) (\<lambda>work'.
       if length (rs_targets (en_subject e)) \<noteq> length inventory
       then Err (policy_error ''catalog target inventory disagrees'')
       else check_inventory inventory es work')"

definition target_inventory :: "entry list \<Rightarrow> (diagnostic, string bset) res" where
  "target_inventory entries =
     (case entries of
        [] \<Rightarrow> Err (limit_error ''empty catalog'')
      | e # _ \<Rightarrow> Ok (fold bs_insert (bm_keys (rs_targets (en_subject e))) []))"

definition authenticate ::
  "authenticator \<Rightarrow> (string list \<Rightarrow> nat \<Rightarrow> string) \<Rightarrow> resolution_input \<Rightarrow> nat
     \<Rightarrow> (diagnostic, catalog \<times> nat) res" where
  "authenticate auth digest input work =
     (if ri_subjects input = [] \<or> MAX_SUBJECTS < length (ri_subjects input)
      then Err (limit_error ''catalog subject count is outside bounds'')
      else
        res_bind (authenticate_entries auth 0 (ri_subjects input) work) (\<lambda>(unsorted, acc, work1).
        let entries = sort_key entry_key unsorted in
        res_bind (index_entries 0 entries bm_empty bm_empty) (\<lambda>(by_package, by_coordinate).
        res_bind (target_inventory entries) (\<lambda>inventory.
        res_bind (check_inventory inventory entries work1) (\<lambda>work2.
          Ok (\<lparr>ca_entries = entries,
               ca_by_package = bm_map (\<lambda>_. sort_versions entries) by_package,
               ca_by_coordinate = by_coordinate, ca_target_inventory = inventory,
               ca_total_bytes = acc, ca_digest = digest (map en_bytes entries) (length entries)\<rparr>,
              work2))))))"

end
