(* ===== verification/ResolverGraph.thy ===== *)
theory ResolverGraph
  imports OrdMap Diagnostics
begin

text \<open>
  The graph part of \<open>validate_graph\<close> in \<open>src/package_resolver/solver.rs\<close>: Kahn's algorithm over
  the dependency edges, with the indegree, dependents, ready and depth tables the code builds.
  It ends on every input, never underflows a counter, and counts every package exactly when the
  edges are acyclic.
\<close>

section \<open>Tables\<close>

definition bm_modify :: "'k \<Rightarrow> ('v \<Rightarrow> 'v) \<Rightarrow> ('k, 'v) bmap \<Rightarrow> ('k, 'v) bmap" where
  "bm_modify k f m = bm_map (\<lambda>j v. if j = k then f v else v) m"

lemma bm_get_modify [simp]:
  "bm_get (bm_modify k f m) j = (if j = k then map_option f (bm_get m j) else bm_get m j)"
  by (auto simp: bm_modify_def bm_get_map option.map_ident)

lemma bm_keys_modify [simp]: "bm_keys (bm_modify k f m) = bm_keys m"
  by (simp add: bm_modify_def bm_keys_def)

definition add_indegree :: "'k::linorder \<times> 'k \<Rightarrow> ('k, nat) bmap \<Rightarrow> ('k, nat) bmap" where
  "add_indegree edge m =
     bm_insert (snd edge) (case bm_get m (snd edge) of None \<Rightarrow> 1 | Some c \<Rightarrow> c + 1) m"

definition add_dependent :: "'k::linorder \<times> 'k \<Rightarrow> ('k, 'k list) bmap \<Rightarrow> ('k, 'k list) bmap" where
  "add_dependent edge m =
     bm_insert (fst edge)
       ((case bm_get m (fst edge) of None \<Rightarrow> [] | Some ds \<Rightarrow> ds) @ [snd edge]) m"

definition zero_table :: "'k::linorder list \<Rightarrow> ('k, nat) bmap" where
  "zero_table keys = fold (\<lambda>k. bm_insert k 0) keys bm_empty"

record 'k kahn =
  kh_ready :: "'k bset"
  kh_indegree :: "('k, nat) bmap"
  kh_depths :: "('k, nat) bmap"

text \<open>The inner loop over the dependents of the package just popped; \<open>None\<close> is \<open>return false\<close>.\<close>

fun relax :: "'k::linorder \<Rightarrow> 'k list \<Rightarrow> 'k kahn \<Rightarrow> (diagnostic, 'k kahn option) res" where
  "relax p [] k = Ok (Some k)"
| "relax p (d # ds) k =
     (case bm_get (kh_depths k) p of
        None \<Rightarrow> Panic
      | Some depth \<Rightarrow>
        let proposed = min (2 ^ 64 - 1) (depth + 1);
            depths = bm_modify d (max proposed) (kh_depths k)
        in case bm_get (kh_indegree k) d of
             None \<Rightarrow> Ok None
           | Some 0 \<Rightarrow> Panic
           | Some (Suc c) \<Rightarrow>
             relax p ds
               \<lparr>kh_ready = (if c = 0 then bs_insert d (kh_ready k) else kh_ready k),
                kh_indegree = bm_modify d (\<lambda>n. n - 1) (kh_indegree k),
                kh_depths = depths\<rparr>)"

definition kahn_size :: "'k kahn \<Rightarrow> nat" where
  "kahn_size k = sum_list (map snd (kh_indegree k)) + length (kh_ready k)"

lemma sum_modify_pred:
  "bm_get m d = Some (Suc c) \<Longrightarrow> sum_list (map snd (bm_modify d (\<lambda>n. n - 1) m)) < sum_list (map snd m)"
proof (induction m d rule: bm_get.induct)
  case (2 j v m d)
  have le: "sum_list (map snd (bm_modify d (\<lambda>n. n - 1) m)) \<le> sum_list (map snd m)" for m :: "('a, nat) bmap"
    by (induction m) (auto simp: bm_modify_def bm_map_def)
  show ?case
    using 2 le[of m] by (cases "j = d") (auto simp: bm_modify_def bm_map_def)
qed simp

lemma relax_size: "relax p ds k = Ok (Some k') \<Longrightarrow> kahn_size k' \<le> kahn_size k"
proof (induction p ds k rule: relax.induct)
  case (2 p d ds k)
  then obtain depth c where s: "bm_get (kh_depths k) p = Some depth" "bm_get (kh_indegree k) d = Some (Suc c)"
    by (auto simp: Let_def split: option.splits nat.splits)
  let ?k = "\<lparr>kh_ready = (if c = 0 then bs_insert d (kh_ready k) else kh_ready k),
             kh_indegree = bm_modify d (\<lambda>n. n - 1) (kh_indegree k),
             kh_depths = bm_modify d (max (min (2 ^ 64 - 1) (depth + 1))) (kh_depths k)\<rparr>"
  have "kahn_size k' \<le> kahn_size ?k"
    using "2.IH"[OF s(1) refl refl s(2) refl] "2.prems" s by (simp add: Let_def)
  also have "\<dots> \<le> kahn_size k"
    using sum_modify_pred[OF s(2)] length_bs_insert[of d "kh_ready k"]
    by (simp add: kahn_size_def split: if_splits)
  finally show ?case .
qed simp

function kahn_loop :: "('k::linorder, 'k list) bmap \<Rightarrow> 'k kahn \<Rightarrow> nat \<Rightarrow> (diagnostic, ('k kahn \<times> nat) option) res" where
  "kahn_loop dependents k seen =
     (case kh_ready k of
        [] \<Rightarrow> Ok (Some (k, seen))
      | p # rest \<Rightarrow>
        (case relax p (case bm_get dependents p of None \<Rightarrow> [] | Some ds \<Rightarrow> ds) (k\<lparr>kh_ready := rest\<rparr>) of
           Ok (Some k') \<Rightarrow> kahn_loop dependents k' (seen + 1)
         | Ok None \<Rightarrow> Ok None
         | Err e \<Rightarrow> Err e
         | Panic \<Rightarrow> Panic))"
  by pat_completeness auto
termination
proof (relation "measure (\<lambda>(deps, k, seen). kahn_size k)", goal_cases)
  case (2 deps k seen p rest x k')
  then have "kahn_size k' \<le> kahn_size (k\<lparr>kh_ready := rest\<rparr>)" using relax_size by metis
  also have "\<dots> < kahn_size k" using 2 by (simp add: kahn_size_def)
  finally show ?case by simp
qed simp

declare kahn_loop.simps [simp del]

definition max_depth :: "('k, nat) bmap \<Rightarrow> nat" where
  "max_depth m = fold max (bm_values m) 0"

text \<open>The whole check: how many packages were counted, of how many, and the greatest depth.\<close>

definition run_kahn ::
  "'k::linorder list \<Rightarrow> ('k \<times> 'k) list \<Rightarrow> (diagnostic, (nat \<times> nat \<times> nat) option) res" where
  "run_kahn keys edges =
     (let indegree = fold add_indegree edges (zero_table keys);
          dependents = fold add_dependent edges bm_empty;
          ready = fold bs_insert (map fst (filter (\<lambda>(k, c). c = 0) indegree)) [];
          depths = fold (\<lambda>k. bm_insert k 1) (bm_keys indegree) bm_empty
      in case kahn_loop dependents \<lparr>kh_ready = ready, kh_indegree = indegree, kh_depths = depths\<rparr> 0 of
           Ok (Some (k, seen)) \<Rightarrow> Ok (Some (seen, length indegree, max_depth (kh_depths k)))
         | Ok None \<Rightarrow> Ok None
         | Err e \<Rightarrow> Err e
         | Panic \<Rightarrow> Panic)"

section \<open>The tables say what they should\<close>

lemma get_zero_table: "bm_get (zero_table ks) b = (if b \<in> set ks then Some 0 else None)"
proof -
  have "bm_get (fold (\<lambda>k. bm_insert k (0::nat)) ks m) b = (if b \<in> set ks then Some 0 else bm_get m b)" for m
    by (induction ks arbitrary: m) auto
  then show ?thesis by (simp add: zero_table_def)
qed

lemma ok_zero_table: "bm_ok (zero_table ks)"
proof -
  have "bm_ok m \<Longrightarrow> bm_ok (fold (\<lambda>k. bm_insert k 0) ks m)" for m :: "('a, nat) bmap"
    by (induction ks arbitrary: m) auto
  then show ?thesis by (simp add: zero_table_def)
qed

definition into :: "'k \<Rightarrow> ('k \<times> 'k) list \<Rightarrow> nat" where
  "into b edges = length (filter (\<lambda>(a, c). c = b) edges)"

lemma get_fold_indegree:
  "bm_get (fold add_indegree edges m) b =
     (if into b edges = 0 then bm_get m b
      else Some ((case bm_get m b of None \<Rightarrow> 0 | Some c \<Rightarrow> c) + into b edges))"
  by (induction edges arbitrary: m) (auto simp: add_indegree_def into_def split: option.split)

lemma ok_fold_indegree: "bm_ok m \<Longrightarrow> bm_ok (fold add_indegree edges m)"
  by (induction edges arbitrary: m) (auto simp: add_indegree_def)

lemma get_fold_dependents:
  "(case bm_get (fold add_dependent edges m) a of None \<Rightarrow> [] | Some ds \<Rightarrow> ds)
     = (case bm_get m a of None \<Rightarrow> [] | Some ds \<Rightarrow> ds) @ map snd (filter (\<lambda>(x, c). x = a) edges)"
  by (induction edges arbitrary: m) (auto simp: add_dependent_def)

lemma get_ones: "bm_get (fold (\<lambda>k. bm_insert k (1::nat)) ks m) b
    = (if b \<in> set ks then Some 1 else bm_get m b)"
  by (induction ks arbitrary: m) auto

lemma set_fold_bs_insert: "set (fold bs_insert xs s) = set xs \<union> set s"
  by (induction xs arbitrary: s) auto

lemma ok_fold_bs_insert: "bs_ok s \<Longrightarrow> bs_ok (fold bs_insert xs s)"
  by (induction xs arbitrary: s) auto

section \<open>One package\<close>

lemma count_list_pos_iff: "0 < count_list xs x \<longleftrightarrow> x \<in> set xs"
  by (induction xs) auto

lemma relax_spec:
  assumes "\<And>b. b \<in> set ds \<Longrightarrow> \<exists>c. bm_get (kh_indegree k) b = Some c \<and> count_list ds b \<le> c"
    and "p \<notin> set ds" and "bm_get (kh_depths k) p = Some dp" and "bs_ok (kh_ready k)"
    and "\<And>b d. bm_get (kh_depths k) b = Some d \<Longrightarrow> d \<le> B" and "dp + 1 \<le> B"
  shows "\<exists>k'. relax p ds k = Ok (Some k')
     \<and> (\<forall>b. bm_get (kh_indegree k') b = map_option (\<lambda>c. c - count_list ds b) (bm_get (kh_indegree k) b))
     \<and> set (kh_ready k') = set (kh_ready k) \<union> {b \<in> set ds. bm_get (kh_indegree k) b = Some (count_list ds b)}
     \<and> bs_ok (kh_ready k') \<and> bm_keys (kh_indegree k') = bm_keys (kh_indegree k)
     \<and> bm_keys (kh_depths k') = bm_keys (kh_depths k)
     \<and> (\<forall>b d. bm_get (kh_depths k') b = Some d \<longrightarrow> d \<le> B)"
  using assms
proof (induction ds arbitrary: k)
  case Nil
  then show ?case by (auto simp: option.map_ident)
next
  case (Cons d ds)
  obtain c where c: "bm_get (kh_indegree k) d = Some (Suc c)" "count_list ds d \<le> c"
    using Cons.prems(1)[of d] by (auto simp: Suc_le_eq dest!: less_imp_Suc_add)
  define k1 where "k1 = \<lparr>kh_ready = (if c = 0 then bs_insert d (kh_ready k) else kh_ready k),
      kh_indegree = bm_modify d (\<lambda>n. n - 1) (kh_indegree k),
      kh_depths = bm_modify d (max (min (2 ^ 64 - 1) (dp + 1))) (kh_depths k)\<rparr>"
  have step: "relax p (d # ds) k = relax p ds k1"
    using c(1) Cons.prems(3) by (simp add: k1_def)
  have pd: "p \<noteq> d" "p \<notin> set ds" using Cons.prems(2) by auto
  have "\<exists>k'. relax p ds k1 = Ok (Some k')
     \<and> (\<forall>b. bm_get (kh_indegree k') b = map_option (\<lambda>c. c - count_list ds b) (bm_get (kh_indegree k1) b))
     \<and> set (kh_ready k') = set (kh_ready k1) \<union> {b \<in> set ds. bm_get (kh_indegree k1) b = Some (count_list ds b)}
     \<and> bs_ok (kh_ready k') \<and> bm_keys (kh_indegree k') = bm_keys (kh_indegree k1)
     \<and> bm_keys (kh_depths k') = bm_keys (kh_depths k1)
     \<and> (\<forall>b d. bm_get (kh_depths k') b = Some d \<longrightarrow> d \<le> B)"
  proof (rule Cons.IH)
    show "\<exists>c. bm_get (kh_indegree k1) b = Some c \<and> count_list ds b \<le> c" if "b \<in> set ds" for b
      using Cons.prems(1)[of b] that c by (auto simp: k1_def split: if_splits)
    show "bm_get (kh_depths k1) p = Some dp" using Cons.prems(3) pd by (simp add: k1_def)
    show "bs_ok (kh_ready k1)" using Cons.prems(4) by (simp add: k1_def)
    show "e \<le> B" if "bm_get (kh_depths k1) b = Some e" for b e
      using that Cons.prems(5) Cons.prems(6) by (auto simp: k1_def split: if_splits)
  qed (use pd Cons.prems(6) in auto)
  then obtain k' where k': "relax p ds k1 = Ok (Some k')"
    "\<And>b. bm_get (kh_indegree k') b = map_option (\<lambda>c. c - count_list ds b) (bm_get (kh_indegree k1) b)"
    "set (kh_ready k') = set (kh_ready k1) \<union> {b \<in> set ds. bm_get (kh_indegree k1) b = Some (count_list ds b)}"
    "bs_ok (kh_ready k')" "bm_keys (kh_indegree k') = bm_keys (kh_indegree k1)"
    "bm_keys (kh_depths k') = bm_keys (kh_depths k1)"
    "\<And>b d. bm_get (kh_depths k') b = Some d \<Longrightarrow> d \<le> B"
    by blast
  have ready: "set (kh_ready k') = set (kh_ready k)
      \<union> {b \<in> set (d # ds). bm_get (kh_indegree k) b = Some (count_list (d # ds) b)}"
    using c unfolding k'(3)
    by (auto simp: k1_def count_notin count_list_pos_iff split: if_splits)
  have keys: "bm_keys (kh_indegree k1) = bm_keys (kh_indegree k)"
    "bm_keys (kh_depths k1) = bm_keys (kh_depths k)" by (simp_all add: k1_def)
  have ind: "bm_get (kh_indegree k') b
      = map_option (\<lambda>c. c - count_list (d # ds) b) (bm_get (kh_indegree k) b)" for b
    using c by (auto simp: k'(2) k1_def option.map_comp o_def intro: option.map_cong0)
  show ?case using step k'(1,4,5,6,7) ready keys ind by (intro exI[of _ k']) auto
qed

section \<open>The loop's invariant\<close>

text \<open>Edges into \<open>b\<close> whose source is still to be counted.\<close>

definition pending :: "('k \<times> 'k) list \<Rightarrow> 'k set \<Rightarrow> 'k \<Rightarrow> nat" where
  "pending edges P b = length (filter (\<lambda>(a, c). c = b \<and> a \<notin> P) edges)"

lemma pending_0_iff: "pending edges P b = 0 \<longleftrightarrow> (\<forall>a. (a, b) \<in> set edges \<longrightarrow> a \<in> P)"
  by (auto simp: pending_def filter_empty_conv)

lemma pending_insert:
  "p \<notin> P \<Longrightarrow> pending edges P b = pending edges (insert p P) b
     + count_list (map snd (filter (\<lambda>(x, c). x = p) edges)) b"
  by (induction edges) (auto simp: pending_def)

definition kahn_inv :: "('k::linorder \<times> 'k) list \<Rightarrow> 'k set \<Rightarrow> 'k set \<Rightarrow> 'k kahn \<Rightarrow> bool" where
  "kahn_inv edges K P k \<longleftrightarrow>
     P \<subseteq> K \<and> (\<forall>b. bm_get (kh_indegree k) b = (if b \<in> K then Some (pending edges P b) else None))
     \<and> set (kh_ready k) = {b \<in> K. b \<notin> P \<and> pending edges P b = 0} \<and> bs_ok (kh_ready k)
     \<and> set (bm_keys (kh_depths k)) = K \<and> bm_ok (kh_depths k)
     \<and> (\<forall>b d. bm_get (kh_depths k) b = Some d \<longrightarrow> d \<le> card P + 1)
     \<and> (\<forall>(a, b) \<in> set edges. b \<in> P \<longrightarrow> a \<in> P)
     \<and> acyclic {(a, b) \<in> set edges. b \<in> P}"

lemma acyclic_into:
  assumes "acyclic R" and "\<And>a c. (a, c) \<in> S \<Longrightarrow> c = p" and "p \<notin> Domain (R \<union> S)"
  shows "acyclic (R \<union> S)"
proof -
  have "(x, y) \<in> (R \<union> S)\<^sup>+ \<Longrightarrow> (x, y) \<in> R\<^sup>+ \<or> y = p" for x y
  proof (induction rule: trancl.induct)
    case (r_into_trancl a b)
    then show ?case using assms(2) by auto
  next
    case (trancl_into_trancl a b c)
    then have "b \<noteq> p" using assms(3) by auto
    with trancl_into_trancl have "(a, b) \<in> R\<^sup>+" by simp
    then show ?case
      using trancl_into_trancl(2) assms(2) by (auto intro: trancl_into_trancl)
  qed
  moreover have "(p, p) \<notin> (R \<union> S)\<^sup>+" using assms(3) by (metis Domain.DomainI tranclD)
  ultimately show ?thesis using assms(1) unfolding acyclic_def by metis
qed

lemma kahn_step:
  assumes inv: "kahn_inv edges K P k" and K: "finite K" "snd ` set edges \<subseteq> K"
    and ready: "kh_ready k = p # rest"
    and ds: "ds = map snd (filter (\<lambda>(x, c). x = p) edges)"
  shows "\<exists>k'. relax p ds (k\<lparr>kh_ready := rest\<rparr>) = Ok (Some k') \<and> kahn_inv edges K (insert p P) k' \<and> p \<notin> P"
proof -
  have p: "p \<in> K" "p \<notin> P" "pending edges P p = 0" and rest: "p \<notin> set rest" "bs_ok rest"
    using inv ready by (auto simp: kahn_inv_def bs_ok_def)
  have preds: "a \<in> P" if "(a, p) \<in> set edges" for a using p(3) that by (auto simp: pending_0_iff)
  then have self: "p \<notin> set ds" using p(2) by (auto simp: ds)
  have K_ds: "b \<in> K" if "b \<in> set ds" for b using that K(2) by (force simp: ds)
  have "p \<in> set (bm_keys (kh_depths k))" using inv p(1) by (simp add: kahn_inv_def)
  then obtain dp where dp: "bm_get (kh_depths k) p = Some dp"
    using bm_get_None_iff[of "kh_depths k" p] by (cases "bm_get (kh_depths k) p") auto
  have fin: "finite P" "P \<subseteq> K" using inv K(1) by (auto simp: kahn_inv_def intro: finite_subset)
  have split: "pending edges P b = pending edges (insert p P) b + count_list ds b" for b
    unfolding ds by (rule pending_insert[OF p(2)])
  have "\<exists>k'. relax p ds (k\<lparr>kh_ready := rest\<rparr>) = Ok (Some k')
     \<and> (\<forall>b. bm_get (kh_indegree k') b = map_option (\<lambda>c. c - count_list ds b) (bm_get (kh_indegree (k\<lparr>kh_ready := rest\<rparr>)) b))
     \<and> set (kh_ready k') = set (kh_ready (k\<lparr>kh_ready := rest\<rparr>))
         \<union> {b \<in> set ds. bm_get (kh_indegree (k\<lparr>kh_ready := rest\<rparr>)) b = Some (count_list ds b)}
     \<and> bs_ok (kh_ready k') \<and> bm_keys (kh_indegree k') = bm_keys (kh_indegree (k\<lparr>kh_ready := rest\<rparr>))
     \<and> bm_keys (kh_depths k') = bm_keys (kh_depths (k\<lparr>kh_ready := rest\<rparr>))
     \<and> (\<forall>b d. bm_get (kh_depths k') b = Some d \<longrightarrow> d \<le> card P + 2)"
  proof (rule relax_spec)
    show "\<exists>c. bm_get (kh_indegree (k\<lparr>kh_ready := rest\<rparr>)) b = Some c \<and> count_list ds b \<le> c" if "b \<in> set ds" for b
      using inv K_ds[OF that] split[of b] by (simp add: kahn_inv_def)
    show "p \<notin> set ds" by (rule self)
    show "bm_get (kh_depths (k\<lparr>kh_ready := rest\<rparr>)) p = Some dp" using dp by simp
    show "d \<le> card P + 2" if "bm_get (kh_depths (k\<lparr>kh_ready := rest\<rparr>)) b = Some d" for b d
      using inv that by (fastforce simp: kahn_inv_def)
    show "dp + 1 \<le> card P + 2" using inv dp by (fastforce simp: kahn_inv_def)
  qed (use rest in simp)
  then obtain k' where k': "relax p ds (k\<lparr>kh_ready := rest\<rparr>) = Ok (Some k')"
    "\<And>b. bm_get (kh_indegree k') b = map_option (\<lambda>c. c - count_list ds b) (bm_get (kh_indegree k) b)"
    "set (kh_ready k') = set rest \<union> {b \<in> set ds. bm_get (kh_indegree k) b = Some (count_list ds b)}"
    "bs_ok (kh_ready k')" "bm_keys (kh_depths k') = bm_keys (kh_depths k)"
    "\<And>b d. bm_get (kh_depths k') b = Some d \<Longrightarrow> d \<le> card P + 2"
    by auto
  have closed: "pending edges P b = 0" if "b \<in> P" for b
    using inv that unfolding pending_0_iff by (auto simp: kahn_inv_def)
  have "set rest = {b \<in> K. b \<notin> insert p P \<and> pending edges P b = 0}"
    using inv ready rest(1) by (auto simp: kahn_inv_def)
  moreover have "{b \<in> set ds. bm_get (kh_indegree k) b = Some (count_list ds b)}
      = {b \<in> K. b \<notin> insert p P \<and> pending edges P b \<noteq> 0 \<and> pending edges (insert p P) b = 0}"
    (is "?L = ?R")
  proof (intro set_eqI iffI)
    fix b assume "b \<in> ?L"
    then have b: "b \<in> set ds" "b \<in> K" "pending edges P b = count_list ds b"
      using inv K_ds by (auto simp: kahn_inv_def)
    then have "0 < pending edges P b" by (simp add: count_list_pos_iff)
    then show "b \<in> ?R" using b split[of b] closed[of b] p(3) by auto
  next
    fix b assume "b \<in> ?R"
    then show "b \<in> ?L"
      using inv split[of b] by (auto simp: kahn_inv_def count_list_pos_iff[symmetric])
  qed
  ultimately have ready': "set (kh_ready k') = {b \<in> K. b \<notin> insert p P \<and> pending edges (insert p P) b = 0}"
    unfolding k'(3) using split by auto
  have clos': "\<forall>(a, b) \<in> set edges. b \<in> insert p P \<longrightarrow> a \<in> insert p P"
    using inv preds by (auto simp: kahn_inv_def)
  have "{(a, b) \<in> set edges. b \<in> insert p P} = {(a, b) \<in> set edges. b \<in> P} \<union> {(a, b) \<in> set edges. b = p}"
    by auto
  moreover have "acyclic ({(a, b) \<in> set edges. b \<in> P} \<union> {(a, b) \<in> set edges. b = p})"
  proof (rule acyclic_into)
    show "acyclic {(a, b) \<in> set edges. b \<in> P}" using inv by (simp add: kahn_inv_def)
    show "p \<notin> Domain ({(a, b) \<in> set edges. b \<in> P} \<union> {(a, b) \<in> set edges. b = p})"
      using inv preds p(2) by (auto simp: kahn_inv_def)
  qed simp
  ultimately have ac: "acyclic {(a, b) \<in> set edges. b \<in> insert p P}" by simp
  have "card (insert p P) = card P + 1" using fin p(2) by simp
  moreover have "bm_get (kh_indegree k') b = (if b \<in> K then Some (pending edges (insert p P) b) else None)" for b
    using inv split[of b] by (simp add: kahn_inv_def k'(2))
  moreover have "bm_ok (kh_depths k')"
    using inv k'(5) by (simp add: kahn_inv_def bm_ok_def bm_keys_def)
  ultimately have "kahn_inv edges K (insert p P) k'"
    using inv p(1) fin(2) ready' k'(4,5,6) clos' ac
    unfolding kahn_inv_def by fastforce
  then show ?thesis using k'(1) p(2) by blast
qed

lemma kahn_loop_inv:
  assumes "kahn_inv edges K P k" and "finite K" "snd ` set edges \<subseteq> K"
    and "\<And>a. (case bm_get deps a of None \<Rightarrow> [] | Some ds \<Rightarrow> ds) = map snd (filter (\<lambda>(x, c). x = a) edges)"
  shows "\<exists>k' P'. kahn_loop deps k (card P) = Ok (Some (k', card P')) \<and> kahn_inv edges K P' k'
     \<and> kh_ready k' = []"
  using assms
proof (induction deps k "card P" arbitrary: P rule: kahn_loop.induct)
  case (1 deps k)
  show ?case
  proof (cases "kh_ready k")
    case Nil
    then show ?thesis using "1.prems" by (subst kahn_loop.simps) auto
  next
    case (Cons p rest)
    obtain k1 where k1: "relax p (map snd (filter (\<lambda>(x, c). x = p) edges)) (k\<lparr>kh_ready := rest\<rparr>) = Ok (Some k1)"
      "kahn_inv edges K (insert p P) k1" "p \<notin> P"
      using kahn_step[OF "1.prems"(1,2,3) Cons refl] by blast
    have "finite P" using "1.prems"(1,2) by (auto simp: kahn_inv_def intro: finite_subset)
    then have c: "card P + 1 = card (insert p P)" using k1(3) by simp
    have "kahn_loop deps k (card P) = kahn_loop deps k1 (card P + 1)"
      using k1(1) "1.prems"(4)[of p] Cons by (subst kahn_loop.simps) simp
    then show ?thesis
      using "1.hyps"[OF Cons, of _ _ "insert p P"] k1 c "1.prems" by (simp add: c)
  qed
qed

lemma kahn_inv_init:
  assumes "snd ` set edges \<subseteq> set keys"
  defines "indegree \<equiv> fold add_indegree edges (zero_table keys)"
  shows "kahn_inv edges (set keys) {}
    \<lparr>kh_ready = fold bs_insert (map fst (filter (\<lambda>(k, c). c = 0) indegree)) [],
     kh_indegree = indegree, kh_depths = fold (\<lambda>k. bm_insert k 1) (bm_keys indegree) bm_empty\<rparr>"
    and "length indegree = card (set keys)"
proof -
  have pend: "pending edges {} b = into b edges" for b by (simp add: pending_def into_def)
  have get: "bm_get indegree b = (if b \<in> set keys then Some (into b edges) else None)" for b
  proof -
    have "into b edges = 0" if "b \<notin> set keys" using that assms(1) by (force simp: into_def filter_empty_conv)
    then show ?thesis by (auto simp: indegree_def get_fold_indegree get_zero_table)
  qed
  have ok: "bm_ok indegree" unfolding indegree_def by (intro ok_fold_indegree ok_zero_table)
  have keys: "set (bm_keys indegree) = set keys"
  proof (rule set_eqI)
    show "x \<in> set (bm_keys indegree) \<longleftrightarrow> x \<in> set keys" for x
      using get[of x] bm_get_None_iff[of indegree x] by (cases "x \<in> set keys") auto
  qed
  have zero: "b \<in> fst ` {x \<in> set indegree. snd x = 0} \<longleftrightarrow> bm_get indegree b = Some 0" for b
    unfolding bm_get_iff[OF ok] by force
  have "fst ` {x \<in> set indegree. snd x = 0} = {b \<in> set keys. into b edges = 0}"
    by (rule set_eqI) (auto simp: zero get)
  then have ready: "set (fold bs_insert (map fst (filter (\<lambda>(k, c). c = 0) indegree)) [])
      = {b \<in> set keys. into b edges = 0}"
    by (simp add: set_fold_bs_insert case_prod_beta)
  have ok_ones: "bm_ok m \<Longrightarrow> bm_ok (fold (\<lambda>k. bm_insert k 1) ks m)" for m :: "('a, nat) bmap" and ks
    by (induction ks arbitrary: m) auto
  have ones: "set (bm_keys (fold (\<lambda>k. bm_insert k 1) ks m)) = set ks \<union> set (bm_keys m)"
    for m :: "('a, nat) bmap" and ks
    by (induction ks arbitrary: m) auto
  define d0 where "d0 = fold (\<lambda>k. bm_insert k (1 :: nat)) (bm_keys indegree) bm_empty"
  have d0: "set (bm_keys d0) = set keys" "bm_ok d0"
    "\<And>b. bm_get d0 b = (if b \<in> set keys then Some 1 else None)"
    unfolding d0_def by (simp_all only: ones ok_ones keys get_ones bm_ok_empty bm_get_empty)
      (simp add: bm_keys_def bm_empty_def)
  show "kahn_inv edges (set keys) {}
    \<lparr>kh_ready = fold bs_insert (map fst (filter (\<lambda>(k, c). c = 0) indegree)) [],
     kh_indegree = indegree, kh_depths = fold (\<lambda>k. bm_insert k 1) (bm_keys indegree) bm_empty\<rparr>"
    unfolding kahn_inv_def d0_def[symmetric]
    by (simp add: get pend ready ok_fold_bs_insert d0 acyclic_def)
  show "length indegree = card (set keys)"
    using distinct_card[OF distinct_bm_keys[OF ok]] keys by (simp add: bm_keys_def)
qed

lemma max_depth_le: "(\<And>d. d \<in> set (bm_values m) \<Longrightarrow> d \<le> B) \<Longrightarrow> max_depth m \<le> B"
proof -
  have "fold max ds a \<le> B \<longleftrightarrow> a \<le> B \<and> (\<forall>d \<in> set ds. d \<le> B)" for ds and a :: nat
    by (induction ds arbitrary: a) auto
  then show "(\<And>d. d \<in> set (bm_values m) \<Longrightarrow> d \<le> B) \<Longrightarrow> max_depth m \<le> B"
    by (simp add: max_depth_def)
qed

lemma run_kahn_correct:
  assumes "fst ` set edges \<subseteq> set keys" and "snd ` set edges \<subseteq> set keys"
  shows "\<exists>seen depth. run_kahn keys edges = Ok (Some (seen, card (set keys), depth))
     \<and> (seen = card (set keys) \<longleftrightarrow> acyclic (set edges)) \<and> depth \<le> card (set keys) + 1"
proof -
  define indegree where "indegree = fold add_indegree edges (zero_table keys)"
  define k0 where "k0 = \<lparr>kh_ready = fold bs_insert (map fst (filter (\<lambda>(k, c). c = 0) indegree)) [],
     kh_indegree = indegree, kh_depths = fold (\<lambda>k. bm_insert k 1) (bm_keys indegree) bm_empty\<rparr>"
  have deps: "(case bm_get (fold add_dependent edges bm_empty) a of None \<Rightarrow> [] | Some ds \<Rightarrow> ds)
      = map snd (filter (\<lambda>(x, c). x = a) edges)" for a
    using get_fold_dependents[of edges bm_empty a] by simp
  have "kahn_inv edges (set keys) {} k0" "length indegree = card (set keys)"
    unfolding k0_def indegree_def by (rule kahn_inv_init[OF assms(2)])+
  then obtain k P where k: "kahn_loop (fold add_dependent edges bm_empty) k0 0 = Ok (Some (k, card P))"
    "kahn_inv edges (set keys) P k" "kh_ready k = []"
    using kahn_loop_inv[of edges "set keys" "{}" k0, OF _ _ assms(2) deps] by auto
  have P: "P \<subseteq> set keys" "finite P" using k(2) by (auto simp: kahn_inv_def intro: finite_subset)
  have "card P = card (set keys) \<longleftrightarrow> P = set keys"
    using P card_subset_eq[of "set keys" P] by auto
  moreover have "P = set keys \<longleftrightarrow> acyclic (set edges)"
  proof
    assume "P = set keys"
    then have "{(a, b) \<in> set edges. b \<in> P} = set edges" using assms(2) by force
    then show "acyclic (set edges)" using k(2) by (simp add: kahn_inv_def)
  next
    assume ac: "acyclic (set edges)"
    show "P = set keys"
    proof (rule ccontr)
      assume "P \<noteq> set keys"
      then obtain x where "x \<in> set keys - P" using P(1) by auto
      moreover have "wf (set edges)" using ac by (simp add: finite_acyclic_wf)
      ultimately obtain z where z: "z \<in> set keys - P" "\<And>y. (y, z) \<in> set edges \<Longrightarrow> y \<notin> set keys - P"
        by (metis wfE_min)
      then have "pending edges P z = 0" using assms(1) by (force simp: pending_0_iff)
      then have "z \<in> set (kh_ready k)" using k(2) z(1) by (simp add: kahn_inv_def)
      then show False using k(3) by simp
    qed
  qed
  moreover have "max_depth (kh_depths k) \<le> card (set keys) + 1"
  proof (rule max_depth_le)
    fix d assume "d \<in> set (bm_values (kh_depths k))"
    then obtain b where "(b, d) \<in> set (kh_depths k)" by (auto simp: bm_values_def)
    then have "bm_get (kh_depths k) b = Some d" using k(2) by (intro in_set_bm_get) (auto simp: kahn_inv_def)
    then have "d \<le> card P + 1" using k(2) by (auto simp: kahn_inv_def)
    also have "card P \<le> card (set keys)" using P by (simp add: card_mono)
    finally show "d \<le> card (set keys) + 1" by simp
  qed
  moreover have "run_kahn keys edges = Ok (Some (card P, card (set keys), max_depth (kh_depths k)))"
    using k(1) \<open>length indegree = card (set keys)\<close>
    by (simp add: run_kahn_def Let_def k0_def indegree_def)
  ultimately show ?thesis by blast
qed

end
