(* ===== verification/ResolverSolve.thy ===== *)
theory ResolverSolve
  imports ResolverCatalog ResolverGraph
begin

text \<open>
  The backtracking search of \<open>src/package_resolver/solver.rs\<close>.  A \<open>solver_state\<close> is one branch of
  the search (selected packages, constraints per package, dependency edges); \<open>search\<close> holds what
  all branches share: the work and decision counters and the two rejection flags.
\<close>

section \<open>Constraints and states\<close>

datatype constraint_tag = RootTag nat | DependencyTag coordinate nat

fun tag_key :: "constraint_tag \<Rightarrow> nat \<times> coordinate \<times> nat" where
  "tag_key (RootTag row) = (0, Coordinate [] [], row)"
| "tag_key (DependencyTag c row) = (1, c, row)"

instantiation constraint_tag :: linorder
begin

definition less_eq_constraint_tag :: "constraint_tag \<Rightarrow> constraint_tag \<Rightarrow> bool" where
  "less_eq_constraint_tag a b \<longleftrightarrow> tag_key a \<le> tag_key b"

definition less_constraint_tag :: "constraint_tag \<Rightarrow> constraint_tag \<Rightarrow> bool" where
  "less_constraint_tag a b \<longleftrightarrow> tag_key a < tag_key b"

instance
proof
  fix x y z :: constraint_tag
  have inj: "tag_key x = tag_key y \<Longrightarrow> x = y" by (cases x; cases y) auto
  show "(x < y) = (x \<le> y \<and> \<not> y \<le> x)"
    unfolding less_eq_constraint_tag_def less_constraint_tag_def by (rule less_le_not_le)
  show "x \<le> x" by (simp add: less_eq_constraint_tag_def)
  show "x \<le> y \<Longrightarrow> y \<le> z \<Longrightarrow> x \<le> z"
    unfolding less_eq_constraint_tag_def by (rule order_trans)
  show "x \<le> y \<Longrightarrow> y \<le> x \<Longrightarrow> x = y"
    unfolding less_eq_constraint_tag_def using inj by (blast intro: antisym)
  show "x \<le> y \<or> y \<le> x" unfolding less_eq_constraint_tag_def by (rule linear)
qed

end

datatype constraint_value = CRange range | CExact version

record constraint =
  cn_tag :: constraint_tag
  cn_value :: constraint_value

definition admits :: "constraint \<Rightarrow> version \<Rightarrow> bool" where
  "admits c v \<longleftrightarrow>
     (case cn_value c of CRange r \<Rightarrow> range_contains r v | CExact expected \<Rightarrow> expected = v)"

record solver_state =
  sv_selected :: "(string, entry) bmap"
  sv_constraints :: "(string, constraint list) bmap"
  sv_edges :: "(coordinate \<times> coordinate) bset"
  sv_depth :: nat

record search =
  se_work :: nat
  se_decisions :: nat
  se_policy :: bool
  se_structural :: bool

record solved =
  so_selected :: "(string, entry) bmap"
  so_edges :: nat
  so_depth :: nat
  so_decisions :: nat

type_synonym 'a searched = "(diagnostic, 'a \<times> search) res"

definition pay :: "search \<Rightarrow> (diagnostic, search) res" where
  "pay s = res_bind (charge 1 (se_work s)) (\<lambda>w. Ok (s\<lparr>se_work := w\<rparr>))"

section \<open>One candidate\<close>

fun check_constraints :: "version \<Rightarrow> constraint list \<Rightarrow> search \<Rightarrow> bool searched" where
  "check_constraints v [] s = Ok (True, s)"
| "check_constraints v (c # cs) s =
     res_bind (pay s) (\<lambda>s1.
       if admits c v then check_constraints v cs s1 else Ok (False, s1\<lparr>se_structural := True\<rparr>))"

definition check_target :: "resolution_input \<Rightarrow> entry \<Rightarrow> search \<Rightarrow> bool searched" where
  "check_target input e s =
     res_bind (pay s) (\<lambda>s1.
       if bm_get (rs_targets (en_subject e)) (ri_target input) = Some ''available'' then Ok (True, s1)
       else Ok (False, s1\<lparr>se_policy := True\<rparr>))"

fun check_capabilities :: "string bset \<Rightarrow> string list \<Rightarrow> search \<Rightarrow> bool searched" where
  "check_capabilities allowed [] s = Ok (True, s)"
| "check_capabilities allowed (c # cs) s =
     res_bind (pay s) (\<lambda>s1.
       if bs_contains allowed c then check_capabilities allowed cs s1
       else Ok (False, s1\<lparr>se_policy := True\<rparr>))"

definition push_constraint ::
  "string \<Rightarrow> constraint \<Rightarrow> (string, constraint list) bmap \<Rightarrow> (string, constraint list) bmap" where
  "push_constraint p c m =
     bm_insert p ((case bm_get m p of None \<Rightarrow> [] | Some cs \<Rightarrow> cs) @ [c]) m"

fun insert_dependencies ::
  "catalog \<Rightarrow> coordinate \<Rightarrow> nat \<Rightarrow> (coordinate \<times> version) list \<Rightarrow> solver_state \<Rightarrow> search
     \<Rightarrow> (bool \<times> solver_state) searched" where
  "insert_dependencies cat dependent row [] st s = Ok ((True, st), s)"
| "insert_dependencies cat dependent row ((d, v) # rows) st s =
     res_bind (pay s) (\<lambda>s1.
       let pushed = push_constraint (co_package d)
             \<lparr>cn_tag = DependencyTag dependent row, cn_value = CExact v\<rparr> (sv_constraints st)
       in case bm_get pushed (co_package d) of
            None \<Rightarrow> Err (resolution_error ''resolver state lost an inserted dependency constraint'')
          | Some cs \<Rightarrow>
            res_bind (pay s1) (\<lambda>s2.
              let st' = st\<lparr>sv_constraints := bm_insert (co_package d) (sort_key cn_tag cs) pushed,
                           sv_edges := bs_insert (d, dependent) (sv_edges st)\<rparr>
              in if \<not> bm_contains (ca_by_coordinate cat) (co_package d, v)
                 then Ok ((False, st'), s2\<lparr>se_structural := True\<rparr>)
                 else if (case bm_get (sv_selected st') (co_package d) of
                            None \<Rightarrow> False | Some selected \<Rightarrow> en_version selected \<noteq> v)
                 then Ok ((False, st'), s2\<lparr>se_structural := True\<rparr>)
                 else insert_dependencies cat dependent (row + 1) rows st' s2))"

definition admit_edge_count :: "nat \<Rightarrow> bool" where
  "admit_edge_count count \<longleftrightarrow> count \<le> MAX_EDGES"

definition admit_depth :: "nat \<Rightarrow> bool" where
  "admit_depth depth \<longleftrightarrow> depth \<le> MAX_DEPTH"

definition package_edges :: "solver_state \<Rightarrow> (string \<times> string) list" where
  "package_edges st = map (\<lambda>(d, t). (co_package d, co_package t)) (sv_edges st)"

definition validate_graph :: "solver_state \<Rightarrow> (diagnostic, bool \<times> solver_state) res" where
  "validate_graph st =
     (if MAX_SELECTED_PACKAGES < length (sv_constraints st) \<or> \<not> admit_edge_count (length (sv_edges st))
      then Ok (False, st)
      else
        res_bind (run_kahn (bm_keys (sv_constraints st)) (package_edges st)) (\<lambda>r.
          case r of
            None \<Rightarrow> Ok (False, st)
          | Some (seen, packages, depth) \<Rightarrow>
            if seen \<noteq> packages \<or> \<not> admit_depth depth then Ok (False, st)
            else Ok (True, st\<lparr>sv_depth := depth\<rparr>)))"

text \<open>The body of the candidate loop up to the recursive call: the admitted branch, if any.\<close>

definition admit_candidate ::
  "resolution_input \<Rightarrow> string bset \<Rightarrow> catalog \<Rightarrow> solver_state \<Rightarrow> string \<Rightarrow> entry \<Rightarrow> search
     \<Rightarrow> solver_state option searched" where
  "admit_candidate input allowed cat st package e s =
     (case bm_get (sv_constraints st) package of
        None \<Rightarrow> Err (resolution_error ''resolver state lost an unresolved constraint'')
      | Some constraints \<Rightarrow>
        res_bind (check_constraints (en_version e) constraints s) (\<lambda>(ok1, s1).
        if \<not> ok1 then Ok (None, s1)
        else res_bind (check_target input e s1) (\<lambda>(ok2, s2).
        if \<not> ok2 then Ok (None, s2)
        else res_bind (check_capabilities allowed (rs_capabilities (en_subject e)) s2) (\<lambda>(ok3, s3).
        if \<not> ok3 then Ok (None, s3)
        else
          let branch = st\<lparr>sv_selected := bm_insert package e (sv_selected st)\<rparr> in
          res_bind (insert_dependencies cat (rs_coordinate (en_subject e)) 0
              (zip (rs_dependencies (en_subject e)) (en_dependency_versions e)) branch s3)
            (\<lambda>((ok4, branch1), s4).
        if \<not> ok4 then Ok (None, s4)
        else res_bind (validate_graph branch1) (\<lambda>(ok5, branch2).
        if \<not> ok5 then Ok (None, s4\<lparr>se_structural := True\<rparr>)
        else Ok (Some branch2, s4)))))))"

section \<open>The search\<close>

definition unresolved :: "solver_state \<Rightarrow> string option" where
  "unresolved st =
     List.find (\<lambda>p. \<not> bm_contains (sv_selected st) p) (bm_keys (sv_constraints st))"

definition open_slots :: "solver_state \<Rightarrow> nat" where
  "open_slots st =
     5 - card (set (bm_keys (sv_constraints st)) \<inter> set (bm_keys (sv_selected st)))"

lemma keys_push_constraint: "set (bm_keys (push_constraint p c m)) = insert p (set (bm_keys m))"
  by (simp add: push_constraint_def)

lemma insert_dependencies_frame:
  "insert_dependencies cat dependent row rows st s = Ok ((ok, st'), s') \<Longrightarrow>
     sv_selected st' = sv_selected st
     \<and> set (bm_keys (sv_constraints st)) \<subseteq> set (bm_keys (sv_constraints st'))"
proof (induction rows arbitrary: row st s)
  case (Cons r rows)
  obtain d v where r: "r = (d, v)" by (cases r)
  define pushed where "pushed = push_constraint (co_package d)
      \<lparr>cn_tag = DependencyTag dependent row, cn_value = CExact v\<rparr> (sv_constraints st)"
  obtain s1 s2 cs where "pay s = Ok s1" "pay s1 = Ok s2" "bm_get pushed (co_package d) = Some cs"
    and step: "insert_dependencies cat dependent row (r # rows) st s =
      (let st1 = st\<lparr>sv_constraints := bm_insert (co_package d) (sort_key cn_tag cs) pushed,
                   sv_edges := bs_insert (d, dependent) (sv_edges st)\<rparr>
       in if \<not> bm_contains (ca_by_coordinate cat) (co_package d, v)
          then Ok ((False, st1), s2\<lparr>se_structural := True\<rparr>)
          else if (case bm_get (sv_selected st1) (co_package d) of
                     None \<Rightarrow> False | Some selected \<Rightarrow> en_version selected \<noteq> v)
          then Ok ((False, st1), s2\<lparr>se_structural := True\<rparr>)
          else insert_dependencies cat dependent (row + 1) rows st1 s2)"
    using Cons.prems unfolding r
    by (cases "pay s") (auto simp: res_iff Let_def pushed_def split: option.splits)
  then show ?case
    using Cons.prems Cons.IH
    by (auto simp: Let_def pushed_def keys_push_constraint split: if_splits) (fastforce simp: keys_push_constraint)+
qed simp

lemma validate_graph_frame:
  "validate_graph st = Ok (ok, st') \<Longrightarrow>
     sv_selected st' = sv_selected st \<and> sv_constraints st' = sv_constraints st
     \<and> sv_edges st' = sv_edges st \<and> (ok \<longrightarrow> length (sv_constraints st) \<le> MAX_SELECTED_PACKAGES)"
  unfolding validate_graph_def
  by (cases "run_kahn (bm_keys (sv_constraints st)) (package_edges st)")
     (auto split: if_splits option.splits)

lemma admit_candidate_frame:
  assumes "admit_candidate input allowed cat st p e s = Ok (Some b, s')"
  shows "p \<in> set (bm_keys (sv_constraints st))"
    and "set (bm_keys (sv_constraints st)) \<subseteq> set (bm_keys (sv_constraints b))"
    and "sv_selected b = bm_insert p e (sv_selected st)"
    and "length (sv_constraints b) \<le> MAX_SELECTED_PACKAGES"
proof -
  obtain cs where cs: "bm_get (sv_constraints st) p = Some cs"
    using assms by (auto simp: admit_candidate_def split: option.splits)
  then show "p \<in> set (bm_keys (sv_constraints st))"
    using bm_get_None_iff[of "sv_constraints st" p] by auto
  obtain rows b1 s1 s2 where i: "insert_dependencies cat (rs_coordinate (en_subject e)) 0 rows
      (st\<lparr>sv_selected := bm_insert p e (sv_selected st)\<rparr>) s1 = Ok ((True, b1), s2)"
    and v: "validate_graph b1 = Ok (True, b)"
    using assms cs
    by (auto simp: admit_candidate_def res_iff Let_def split: if_splits prod.splits)
  show "set (bm_keys (sv_constraints st)) \<subseteq> set (bm_keys (sv_constraints b))"
    "sv_selected b = bm_insert p e (sv_selected st)"
    "length (sv_constraints b) \<le> MAX_SELECTED_PACKAGES"
    using insert_dependencies_frame[OF i] validate_graph_frame[OF v] by simp_all
qed

lemma open_slots_admit:
  assumes a: "admit_candidate input allowed cat st p e s = Ok (Some b, s')"
  shows "open_slots b \<le> open_slots st"
    and "p \<notin> set (bm_keys (sv_selected st)) \<Longrightarrow> open_slots b < open_slots st"
proof -
  note f = admit_candidate_frame[OF a]
  let ?A = "set (bm_keys (sv_constraints st)) \<inter> set (bm_keys (sv_selected st))"
  let ?B = "set (bm_keys (sv_constraints b)) \<inter> set (bm_keys (sv_selected b))"
  have sub: "insert p ?A \<subseteq> ?B" using f by auto
  have "card ?B \<le> card (set (bm_keys (sv_constraints b)))" by (intro card_mono) auto
  also have "\<dots> \<le> length (bm_keys (sv_constraints b))" by (rule card_length)
  also have "\<dots> \<le> 4" using f(4) by (simp add: bm_keys_def MAX_SELECTED_PACKAGES_def)
  finally have B: "card ?B \<le> 4" .
  have "card ?A \<le> card ?B" using sub by (intro card_mono) auto
  then show "open_slots b \<le> open_slots st" by (simp add: open_slots_def)
  show "open_slots b < open_slots st" if "p \<notin> set (bm_keys (sv_selected st))"
  proof -
    have "card (insert p ?A) \<le> card ?B" using sub by (intro card_mono) auto
    then have "card ?A < card ?B" using that by simp
    with B show ?thesis by (simp add: open_slots_def)
  qed
qed

function visit ::
    "resolution_input \<Rightarrow> string bset \<Rightarrow> catalog \<Rightarrow> solver_state \<Rightarrow> search
       \<Rightarrow> solver_state option searched"
  and try_candidates ::
    "resolution_input \<Rightarrow> string bset \<Rightarrow> catalog \<Rightarrow> solver_state \<Rightarrow> string \<Rightarrow> nat list \<Rightarrow> search
       \<Rightarrow> solver_state option searched" where
  "visit input allowed cat st s =
     (case unresolved st of
        None \<Rightarrow> Ok (Some st, s)
      | Some package \<Rightarrow>
        (case bm_get (ca_by_package cat) package of
           None \<Rightarrow> Ok (None, s\<lparr>se_structural := True\<rparr>)
         | Some candidates \<Rightarrow> try_candidates input allowed cat st package candidates s))"
| "try_candidates input allowed cat st package [] s = Ok (None, s)"
| "try_candidates input allowed cat st package (i # candidates) s =
     (if MAX_DECISIONS \<le> se_decisions s then Err (limit_error ''resolver decision bound exceeded'')
      else
        res_bind (pay (s\<lparr>se_decisions := se_decisions s + 1\<rparr>)) (\<lambda>s1.
        if length (ca_entries cat) \<le> i then Panic
        else
          (case admit_candidate input allowed cat st package (ca_entries cat ! i) s1 of
             Err d \<Rightarrow> Err d
           | Panic \<Rightarrow> Panic
           | Ok (None, s2) \<Rightarrow>
               res_bind (pay s2) (\<lambda>s3. try_candidates input allowed cat st package candidates s3)
           | Ok (Some branch, s2) \<Rightarrow>
               (case visit input allowed cat branch s2 of
                  Err d \<Rightarrow> Err d
                | Panic \<Rightarrow> Panic
                | Ok (Some result, s3) \<Rightarrow> Ok (Some result, s3)
                | Ok (None, s3) \<Rightarrow>
                    res_bind (pay s3) (\<lambda>s4. try_candidates input allowed cat st package candidates s4)))))"
  by pat_completeness auto
termination
proof (relation "measures
    [\<lambda>x. case x of Inl (i, a, c, st, s) \<Rightarrow> 2 * open_slots st + 1
        | Inr (i, a, c, st, p, is, s) \<Rightarrow>
            2 * open_slots st + (if p \<in> set (bm_keys (sv_selected st)) then 2 else 0),
     \<lambda>x. case x of Inl _ \<Rightarrow> 0 | Inr (i, a, c, st, p, is, s) \<Rightarrow> length is]", goal_cases)
  case (2 input allowed cat st s p candidates)
  then have "p \<notin> set (bm_keys (sv_selected st))"
    by (auto simp: unresolved_def bm_contains_iff dest: find_SomeD)
  then show ?case by simp
next
  case 4
  then show ?case
    using open_slots_admit by fastforce
qed auto

section \<open>The resolver\<close>

definition root_constraints :: "parsed_requirement list \<Rightarrow> (string, constraint list) bmap" where
  "root_constraints reqs =
     fold (\<lambda>rq. push_constraint (pq_package rq)
        \<lparr>cn_tag = RootTag (pq_row rq), cn_value = CRange (pq_range rq)\<rparr>) reqs bm_empty"

definition initial_state :: "parsed_requirement list \<Rightarrow> solver_state" where
  "initial_state reqs =
     \<lparr>sv_selected = bm_empty, sv_constraints = root_constraints reqs, sv_edges = [], sv_depth = 0\<rparr>"

definition solve ::
  "resolution_input \<Rightarrow> parsed_requirement list \<Rightarrow> catalog \<Rightarrow> nat \<Rightarrow> (diagnostic, solved \<times> nat) res" where
  "solve input reqs cat work =
     res_bind (visit input (fold bs_insert (ri_allowed input) []) cat (initial_state reqs)
         \<lparr>se_work = work, se_decisions = 0, se_policy = False, se_structural = False\<rparr>)
       (\<lambda>(found, s).
          case found of
            None \<Rightarrow>
              Err (if se_structural s
                   then resolution_error ''no complete package graph satisfies all constraints''
                   else if se_policy s
                   then policy_error ''no complete package graph satisfies target/capability policy''
                   else resolution_error ''no package candidate satisfies the root requirements'')
          | Some st \<Rightarrow>
              Ok (\<lparr>so_selected = sv_selected st, so_edges = length (sv_edges st),
                   so_depth = sv_depth st, so_decisions = se_decisions s\<rparr>, se_work s))"

text \<open>\<open>build\<close> up to the selection; the lock it renders afterwards is not modelled.\<close>

definition build_solved ::
  "authenticator \<Rightarrow> (string list \<Rightarrow> nat \<Rightarrow> string) \<Rightarrow> resolution_input
     \<Rightarrow> (diagnostic, parsed_requirement list \<times> catalog \<times> solved \<times> nat) res" where
  "build_solved auth digest input =
     res_bind (validate_input input 0) (\<lambda>(reqs, work1).
     res_bind (authenticate auth digest input work1) (\<lambda>(cat, work2).
       if \<not> bs_contains (ca_target_inventory cat) (ri_target input)
       then Err (input_error ''requested target is unknown'')
       else res_bind (solve input reqs cat work2) (\<lambda>(sol, work3). Ok (reqs, cat, sol, work3))))"

end
