(* ===== verification/ResolverCorrect.thy ===== *)
theory ResolverCorrect
  imports ResolverSolve
begin

text \<open>
  The resolver's search against its specification.  \<open>solution\<close> says what a resolved package graph
  is, without reference to the search; \<open>sv_inv\<close> is the invariant of a branch; \<open>compat\<close> relates a
  branch to a solution that extends it.  The search returns solutions, misses none, never panics,
  and fails early only on its work and decision bounds.
\<close>

section \<open>What a solution is\<close>

abbreviation entry_deps :: "entry \<Rightarrow> (coordinate \<times> version) list" where
  "entry_deps e \<equiv> zip (rs_dependencies (en_subject e)) (en_dependency_versions e)"

abbreviation en_coordinate :: "entry \<Rightarrow> coordinate" where
  "en_coordinate e \<equiv> rs_coordinate (en_subject e)"

definition policy_ok :: "resolution_input \<Rightarrow> entry \<Rightarrow> bool" where
  "policy_ok input e \<longleftrightarrow>
     bm_get (rs_targets (en_subject e)) (ri_target input) = Some ''available''
     \<and> set (rs_capabilities (en_subject e)) \<subseteq> set (ri_allowed input)"

definition solution_edges :: "(string \<Rightarrow> entry option) \<Rightarrow> (coordinate \<times> coordinate) set" where
  "solution_edges \<sigma> = {(d, en_coordinate e) | d v e p. \<sigma> p = Some e \<and> (d, v) \<in> set (entry_deps e)}"

definition to_packages :: "coordinate \<times> coordinate \<Rightarrow> string \<times> string" where
  "to_packages x = (co_package (fst x), co_package (snd x))"

text \<open>
  Every requirement met, every selected entry from the catalog and admitted by the policy, every
  dependency selected at exactly its version, within the bounds, and no dependency cycle.
\<close>

definition solution ::
  "catalog \<Rightarrow> resolution_input \<Rightarrow> parsed_requirement list \<Rightarrow> (string \<Rightarrow> entry option) \<Rightarrow> bool" where
  "solution cat input reqs \<sigma> \<longleftrightarrow>
     (\<forall>rq \<in> set reqs. \<exists>e. \<sigma> (pq_package rq) = Some e \<and> range_contains (pq_range rq) (en_version e))
     \<and> (\<forall>p e. \<sigma> p = Some e \<longrightarrow> e \<in> set (ca_entries cat) \<and> en_package e = p \<and> policy_ok input e
          \<and> (\<forall>(d, v) \<in> set (entry_deps e). \<exists>e'. \<sigma> (co_package d) = Some e' \<and> en_version e' = v))
     \<and> finite (dom \<sigma>) \<and> card (dom \<sigma>) \<le> MAX_SELECTED_PACKAGES
     \<and> card (solution_edges \<sigma>) \<le> MAX_EDGES
     \<and> acyclic (to_packages ` solution_edges \<sigma>)"

definition catalog_ok :: "catalog \<Rightarrow> bool" where
  "catalog_ok cat \<longleftrightarrow>
     (\<forall>p. case bm_get (ca_by_package cat) p of
            None \<Rightarrow> \<forall>e \<in> set (ca_entries cat). en_package e \<noteq> p
          | Some ixs \<Rightarrow> set ixs = {i. i < length (ca_entries cat) \<and> en_package (ca_entries cat ! i) = p})
     \<and> (\<forall>e \<in> set (ca_entries cat). bm_contains (ca_by_coordinate cat) (entry_key e))"

lemma catalog_ok_None:
  "catalog_ok cat \<Longrightarrow> bm_get (ca_by_package cat) p = None \<Longrightarrow> e \<in> set (ca_entries cat) \<Longrightarrow> en_package e \<noteq> p"
  by (auto simp: catalog_ok_def dest!: spec[of _ p])

lemma catalog_ok_Some:
  "catalog_ok cat \<Longrightarrow> bm_get (ca_by_package cat) p = Some ixs \<Longrightarrow>
     set ixs = {i. i < length (ca_entries cat) \<and> en_package (ca_entries cat ! i) = p}"
  by (auto simp: catalog_ok_def dest!: spec[of _ p])

lemma finite_solution_edges: "finite (dom \<sigma>) \<Longrightarrow> finite (solution_edges \<sigma>)"
proof -
  assume "finite (dom \<sigma>)"
  then have "finite (ran \<sigma>)" by (rule finite_ran)
  then have "finite (\<Union>e \<in> ran \<sigma>. (\<lambda>(d, v). (d, en_coordinate e)) ` set (entry_deps e))" by simp
  moreover have "solution_edges \<sigma> \<subseteq> (\<Union>e \<in> ran \<sigma>. (\<lambda>(d, v). (d, en_coordinate e)) ` set (entry_deps e))"
    by (auto simp: solution_edges_def ran_def image_iff Bex_def)
  ultimately show ?thesis by (rule finite_subset[rotated])
qed

lemma solution_entry:
  assumes "solution cat input reqs \<sigma>" "\<sigma> p = Some e"
  shows "e \<in> set (ca_entries cat)" "en_package e = p" "policy_ok input e"
    "\<forall>(d, v) \<in> set (entry_deps e). \<exists>e'. \<sigma> (co_package d) = Some e' \<and> en_version e' = v"
  using assms by (simp_all add: solution_def)

section \<open>The invariant of a branch\<close>

definition has_constraint :: "solver_state \<Rightarrow> string \<Rightarrow> constraint_value \<Rightarrow> bool" where
  "has_constraint st p v \<longleftrightarrow>
     (\<exists>cs c. bm_get (sv_constraints st) p = Some cs \<and> c \<in> set cs \<and> cn_value c = v)"

definition deps_in :: "solver_state \<Rightarrow> entry \<Rightarrow> (coordinate \<times> version) list \<Rightarrow> bool" where
  "deps_in st e rows \<longleftrightarrow>
     (\<forall>(d, v) \<in> set rows. has_constraint st (co_package d) (CExact v)
        \<and> (d, en_coordinate e) \<in> set (sv_edges st))"

definition sv_core :: "catalog \<Rightarrow> resolution_input \<Rightarrow> solver_state \<Rightarrow> bool" where
  "sv_core cat input st \<longleftrightarrow>
     bm_ok (sv_constraints st) \<and> bm_ok (sv_selected st) \<and> bs_ok (sv_edges st)
     \<and> (\<forall>p e. bm_get (sv_selected st) p = Some e \<longrightarrow>
          p \<in> set (bm_keys (sv_constraints st)) \<and> e \<in> set (ca_entries cat) \<and> en_package e = p
          \<and> policy_ok input e
          \<and> (\<forall>cs. bm_get (sv_constraints st) p = Some cs \<longrightarrow> (\<forall>c \<in> set cs. admits c (en_version e))))
     \<and> (\<forall>(d, t) \<in> set (sv_edges st). co_package d \<in> set (bm_keys (sv_constraints st))
          \<and> (\<exists>e v. bm_get (sv_selected st) (co_package t) = Some e \<and> en_coordinate e = t
               \<and> (d, v) \<in> set (entry_deps e)))"

definition sv_inv :: "catalog \<Rightarrow> resolution_input \<Rightarrow> parsed_requirement list \<Rightarrow> solver_state \<Rightarrow> bool" where
  "sv_inv cat input reqs st \<longleftrightarrow>
     sv_core cat input st
     \<and> (\<forall>p e. bm_get (sv_selected st) p = Some e \<longrightarrow> deps_in st e (entry_deps e))
     \<and> (\<forall>rq \<in> set reqs. has_constraint st (pq_package rq) (CRange (pq_range rq)))"

definition validated :: "solver_state \<Rightarrow> bool" where
  "validated st \<longleftrightarrow>
     length (sv_constraints st) \<le> MAX_SELECTED_PACKAGES \<and> length (sv_edges st) \<le> MAX_EDGES
     \<and> acyclic (to_packages ` set (sv_edges st)) \<and> sv_depth st \<le> MAX_DEPTH"

definition grows :: "solver_state \<Rightarrow> solver_state \<Rightarrow> bool" where
  "grows st st' \<longleftrightarrow>
     sv_selected st' = sv_selected st \<and> set (sv_edges st) \<subseteq> set (sv_edges st')
     \<and> (\<forall>p v. has_constraint st p v \<longrightarrow> has_constraint st' p v)"

lemma grows_refl [simp]: "grows st st"
  by (simp add: grows_def)

lemma grows_trans: "grows a b \<Longrightarrow> grows b c \<Longrightarrow> grows a c"
  by (auto simp: grows_def)

lemma grows_deps_in: "grows st st' \<Longrightarrow> deps_in st e rows \<Longrightarrow> deps_in st' e rows"
  by (fastforce simp: grows_def deps_in_def)

text \<open>The state after one dependency row is pushed.\<close>

definition push_row :: "coordinate \<Rightarrow> nat \<Rightarrow> coordinate \<Rightarrow> version \<Rightarrow> solver_state \<Rightarrow> solver_state" where
  "push_row dependent row d v st =
     (let pushed = push_constraint (co_package d)
            \<lparr>cn_tag = DependencyTag dependent row, cn_value = CExact v\<rparr> (sv_constraints st)
      in st\<lparr>sv_constraints := bm_insert (co_package d) (sort_key cn_tag (the (bm_get pushed (co_package d)))) pushed,
            sv_edges := bs_insert (d, dependent) (sv_edges st)\<rparr>)"

lemma push_row_simps [simp]:
  "sv_selected (push_row t row d v st) = sv_selected st"
  "set (sv_edges (push_row t row d v st)) = insert (d, t) (set (sv_edges st))"
  "set (bm_keys (sv_constraints (push_row t row d v st))) = insert (co_package d) (set (bm_keys (sv_constraints st)))"
  by (simp_all add: push_row_def Let_def keys_push_constraint)

lemma get_push_row:
  "bm_get (sv_constraints (push_row t row d v st)) p =
     (if p = co_package d
      then Some (sort_key cn_tag ((case bm_get (sv_constraints st) p of None \<Rightarrow> [] | Some cs \<Rightarrow> cs)
                   @ [\<lparr>cn_tag = DependencyTag t row, cn_value = CExact v\<rparr>]))
      else bm_get (sv_constraints st) p)"
  by (auto simp: push_row_def Let_def push_constraint_def)

lemma insert_dependencies_Cons:
  "insert_dependencies cat t row ((d, v) # rows) st s =
     res_bind (pay s) (\<lambda>s1. res_bind (pay s1) (\<lambda>s2.
       if \<not> bm_contains (ca_by_coordinate cat) (co_package d, v)
          \<or> (case bm_get (sv_selected st) (co_package d) of None \<Rightarrow> False | Some e \<Rightarrow> en_version e \<noteq> v)
       then Ok ((False, push_row t row d v st), s2\<lparr>se_structural := True\<rparr>)
       else insert_dependencies cat t (row + 1) rows (push_row t row d v st) s2))"
proof -
  define pushed where "pushed = push_constraint (co_package d)
      \<lparr>cn_tag = DependencyTag t row, cn_value = CExact v\<rparr> (sv_constraints st)"
  obtain cs where cs: "bm_get pushed (co_package d) = Some cs"
    by (simp add: pushed_def push_constraint_def)
  have p: "push_row t row d v st =
      st\<lparr>sv_constraints := bm_insert (co_package d) (sort_key cn_tag cs) pushed,
         sv_edges := bs_insert (d, t) (sv_edges st)\<rparr>"
    unfolding push_row_def Let_def pushed_def[symmetric] cs by simp
  have sel: "sv_selected (st\<lparr>sv_constraints := x, sv_edges := y\<rparr>) = sv_selected st" for x y
    by simp
  have "insert_dependencies cat t row ((d, v) # rows) st s =
      res_bind (pay s) (\<lambda>s1. res_bind (pay s1) (\<lambda>s2.
        if \<not> bm_contains (ca_by_coordinate cat) (co_package d, v)
        then Ok ((False, push_row t row d v st), s2\<lparr>se_structural := True\<rparr>)
        else if (case bm_get (sv_selected st) (co_package d) of None \<Rightarrow> False | Some e \<Rightarrow> en_version e \<noteq> v)
        then Ok ((False, push_row t row d v st), s2\<lparr>se_structural := True\<rparr>)
        else insert_dependencies cat t (row + 1) rows (push_row t row d v st) s2))"
    unfolding insert_dependencies.simps Let_def pushed_def[symmetric] cs option.case p sel ..
  also have "\<dots> = res_bind (pay s) (\<lambda>s1. res_bind (pay s1) (\<lambda>s2.
       if \<not> bm_contains (ca_by_coordinate cat) (co_package d, v)
          \<or> (case bm_get (sv_selected st) (co_package d) of None \<Rightarrow> False | Some e \<Rightarrow> en_version e \<noteq> v)
       then Ok ((False, push_row t row d v st), s2\<lparr>se_structural := True\<rparr>)
       else insert_dependencies cat t (row + 1) rows (push_row t row d v st) s2))"
    by (rule arg_cong2[where f = res_bind, OF refl], rule ext, rule arg_cong2[where f = res_bind, OF refl], rule ext) auto
  finally show ?thesis .
qed

lemma grows_push_row: "grows st (push_row t row d v st)"
proof -
  have "has_constraint (push_row t row d v st) p w" if "has_constraint st p w" for p w
    using that unfolding has_constraint_def get_push_row by fastforce
  then show ?thesis by (auto simp: grows_def)
qed

lemma sv_core_selected:
  assumes "sv_core cat input st" "bm_get (sv_selected st) p = Some e"
  shows "p \<in> set (bm_keys (sv_constraints st))" "e \<in> set (ca_entries cat)" "en_package e = p"
    "policy_ok input e"
  using assms by (simp_all add: sv_core_def)

lemma sv_core_admits:
  "sv_core cat input st \<Longrightarrow> bm_get (sv_selected st) p = Some e \<Longrightarrow>
     bm_get (sv_constraints st) p = Some cs \<Longrightarrow> c \<in> set cs \<Longrightarrow> admits c (en_version e)"
  by (simp add: sv_core_def)

lemma sv_core_edge:
  assumes "sv_core cat input st" "(d, t) \<in> set (sv_edges st)"
  shows "co_package d \<in> set (bm_keys (sv_constraints st))"
    "\<exists>e v. bm_get (sv_selected st) (co_package t) = Some e \<and> en_coordinate e = t \<and> (d, v) \<in> set (entry_deps e)"
  using assms by (auto simp: sv_core_def)

lemma sv_core_ok:
  assumes "sv_core cat input st"
  shows "bm_ok (sv_constraints st)" "bm_ok (sv_selected st)" "bs_ok (sv_edges st)"
  using assms by (simp_all add: sv_core_def)

lemma sv_coreI:
  assumes "bm_ok (sv_constraints st)" "bm_ok (sv_selected st)" "bs_ok (sv_edges st)"
    and "\<And>p e. bm_get (sv_selected st) p = Some e \<Longrightarrow> p \<in> set (bm_keys (sv_constraints st))"
    and "\<And>p e. bm_get (sv_selected st) p = Some e \<Longrightarrow>
           e \<in> set (ca_entries cat) \<and> en_package e = p \<and> policy_ok input e"
    and "\<And>p e cs c. bm_get (sv_selected st) p = Some e \<Longrightarrow>
           bm_get (sv_constraints st) p = Some cs \<Longrightarrow> c \<in> set cs \<Longrightarrow> admits c (en_version e)"
    and "\<And>d t. (d, t) \<in> set (sv_edges st) \<Longrightarrow> co_package d \<in> set (bm_keys (sv_constraints st))"
    and "\<And>d t. (d, t) \<in> set (sv_edges st) \<Longrightarrow>
           \<exists>e v. bm_get (sv_selected st) (co_package t) = Some e \<and> en_coordinate e = t
             \<and> (d, v) \<in> set (entry_deps e)"
  shows "sv_core cat input st"
  unfolding sv_core_def using assms by (simp add: Ball_def)

lemma push_row_core:
  assumes core: "sv_core cat input st" and e: "bm_get (sv_selected st) (en_package e) = Some e"
    and row: "(d, v) \<in> set (entry_deps e)"
    and sel: "\<And>x. bm_get (sv_selected st) (co_package d) = Some x \<Longrightarrow> en_version x = v"
  shows "sv_core cat input (push_row (en_coordinate e) row' d v st)"
proof (rule sv_coreI)
  let ?st = "push_row (en_coordinate e) row' d v st"
  show "bm_ok (sv_constraints ?st)" "bm_ok (sv_selected ?st)" "bs_ok (sv_edges ?st)"
    using sv_core_ok[OF core] by (simp_all add: push_row_def Let_def push_constraint_def)
  fix p x assume "bm_get (sv_selected ?st) p = Some x"
  then have x: "bm_get (sv_selected st) p = Some x" by simp
  show "p \<in> set (bm_keys (sv_constraints ?st))"
    "x \<in> set (ca_entries cat) \<and> en_package x = p \<and> policy_ok input x"
    using sv_core_selected[OF core x] by simp_all
  fix cs c assume "bm_get (sv_constraints ?st) p = Some cs" "c \<in> set cs"
  then show "admits c (en_version x)"
    using sv_core_admits[OF core x] sel[of x] x
    by (auto simp: get_push_row admits_def split: if_splits option.splits)
next
  fix a b assume ab: "(a, b) \<in> set (sv_edges (push_row (en_coordinate e) row' d v st))"
  show "co_package a \<in> set (bm_keys (sv_constraints (push_row (en_coordinate e) row' d v st)))"
    using ab sv_core_edge(1)[OF core, of a b] by auto
  show "\<exists>x w. bm_get (sv_selected (push_row (en_coordinate e) row' d v st)) (co_package b) = Some x
      \<and> en_coordinate x = b \<and> (a, w) \<in> set (entry_deps x)"
  proof (cases "(a, b) \<in> set (sv_edges st)")
    case True
    then show ?thesis using sv_core_edge(2)[OF core True] by simp
  next
    case False
    with ab have "a = d" "b = en_coordinate e" by simp_all
    then show ?thesis using e row by auto
  qed
qed

lemma push_row_deps:
  "has_constraint (push_row (en_coordinate e) row d v st) (co_package d) (CExact v)
   \<and> (d, en_coordinate e) \<in> set (sv_edges (push_row (en_coordinate e) row d v st))"
  by (auto simp: has_constraint_def get_push_row
      intro!: exI[of _ "\<lparr>cn_tag = DependencyTag (en_coordinate e) row, cn_value = CExact v\<rparr>"])

section \<open>Failures are the bounds\<close>

definition bounded_failure :: "(diagnostic, 'a) res \<Rightarrow> bool" where
  "bounded_failure r \<longleftrightarrow> r \<noteq> Panic \<and> (\<forall>d. r = Err d \<longrightarrow> d_code d = ''SPX-PR505'')"

lemma bounded_Ok [simp]: "bounded_failure (Ok x)"
  by (simp add: bounded_failure_def)

lemma bounded_bind:
  "bounded_failure m \<Longrightarrow> (\<And>x. m = Ok x \<Longrightarrow> bounded_failure (f x)) \<Longrightarrow> bounded_failure (res_bind m f)"
  by (cases m) (auto simp: bounded_failure_def)

lemma bounded_limit [simp]: "bounded_failure (Err (limit_error m))"
  by (simp add: bounded_failure_def limit_error_def diag_io_def)

lemma bounded_pay [simp]: "bounded_failure (pay s)"
  by (auto simp: pay_def bounded_failure_def res_iff dest: charge_Err)

lemma bounded_check_constraints [simp]: "bounded_failure (check_constraints v cs s)"
  by (induction v cs s rule: check_constraints.induct) (auto intro!: bounded_bind)

lemma bounded_check_target [simp]: "bounded_failure (check_target input e s)"
  by (auto simp: check_target_def intro!: bounded_bind)

lemma bounded_check_capabilities [simp]: "bounded_failure (check_capabilities allowed cs s)"
  by (induction allowed cs s rule: check_capabilities.induct) (auto intro!: bounded_bind)

lemma bounded_insert_dependencies [simp]: "bounded_failure (insert_dependencies cat t row rows st s)"
proof (induction rows arbitrary: row st s)
  case (Cons r rows)
  then show ?case
    by (cases r) (auto simp: insert_dependencies_Cons intro!: bounded_bind simp del: insert_dependencies.simps)
qed simp

section \<open>Pushing the dependency rows\<close>

lemma pay_flags: "pay s = Ok s' \<Longrightarrow> se_structural s' = se_structural s \<and> se_policy s' = se_policy s \<and> se_decisions s' = se_decisions s"
  by (auto simp: pay_def res_iff)

lemma insert_dependencies_correct:
  assumes "insert_dependencies cat (en_coordinate e) row rows st s = Ok ((True, st'), s')"
    and "sv_core cat input st" "bm_get (sv_selected st) (en_package e) = Some e"
    and "set rows \<subseteq> set (entry_deps e)"
  shows "sv_core cat input st' \<and> grows st st' \<and> deps_in st' e rows"
  using assms
proof (induction rows arbitrary: row st s)
  case Nil
  then show ?case by (simp add: deps_in_def)
next
  case (Cons r rows)
  obtain d v where r: "r = (d, v)" by (cases r)
  let ?st = "push_row (en_coordinate e) row d v st"
  obtain s2 where sel: "\<not> (case bm_get (sv_selected st) (co_package d) of None \<Rightarrow> False | Some x \<Rightarrow> en_version x \<noteq> v)"
    and rest: "insert_dependencies cat (en_coordinate e) (row + 1) rows ?st s2 = Ok ((True, st'), s')"
    using Cons.prems(1) unfolding r insert_dependencies_Cons
    by (auto simp: res_iff split: if_splits)
  have core: "sv_core cat input ?st"
    using Cons.prems sel by (intro push_row_core) (auto simp: r split: option.splits)
  have step: "grows st ?st" by (rule grows_push_row)
  have ih: "sv_core cat input st' \<and> grows ?st st' \<and> deps_in st' e rows"
    using Cons.IH[OF rest core] Cons.prems by simp
  have "has_constraint st' (co_package d) (CExact v) \<and> (d, en_coordinate e) \<in> set (sv_edges st')"
    using push_row_deps[of e row d v st] ih by (auto simp: grows_def)
  with ih show ?case using step by (auto simp: r deps_in_def intro: grows_trans)
qed

section \<open>The graph check\<close>

lemma package_edges_set: "set (package_edges st) = to_packages ` set (sv_edges st)"
  by (auto simp: package_edges_def to_packages_def image_iff split: prod.splits) (metis fst_conv snd_conv)+

lemma sv_core_endpoints:
  assumes "sv_core cat input st"
  shows "fst ` set (package_edges st) \<subseteq> set (bm_keys (sv_constraints st))"
    "snd ` set (package_edges st) \<subseteq> set (bm_keys (sv_constraints st))"
proof -
  have "co_package d \<in> set (bm_keys (sv_constraints st)) \<and> co_package t \<in> set (bm_keys (sv_constraints st))"
    if "(d, t) \<in> set (sv_edges st)" for d t
    using sv_core_edge[OF assms that] sv_core_selected(1)[OF assms, of "co_package t"] by blast
  then show "fst ` set (package_edges st) \<subseteq> set (bm_keys (sv_constraints st))"
    "snd ` set (package_edges st) \<subseteq> set (bm_keys (sv_constraints st))"
    unfolding package_edges_set to_packages_def by auto
qed

lemma validate_graph_correct:
  assumes core: "sv_core cat input st"
  shows "\<exists>ok st'. validate_graph st = Ok (ok, st')
     \<and> (ok \<longleftrightarrow> length (sv_constraints st) \<le> MAX_SELECTED_PACKAGES \<and> length (sv_edges st) \<le> MAX_EDGES
          \<and> acyclic (to_packages ` set (sv_edges st)))
     \<and> (ok \<longrightarrow> (\<exists>depth \<le> MAX_DEPTH. st' = st\<lparr>sv_depth := depth\<rparr>))"
proof (cases "MAX_SELECTED_PACKAGES < length (sv_constraints st) \<or> MAX_EDGES < length (sv_edges st)")
  case True
  then show ?thesis by (auto simp: validate_graph_def admit_edge_count_def)
next
  case False
  let ?keys = "bm_keys (sv_constraints st)"
  have "distinct ?keys" using sv_core_ok(1)[OF core] by (rule distinct_bm_keys)
  then have n: "card (set ?keys) = length (sv_constraints st)"
    by (simp add: distinct_card) (simp add: bm_keys_def)
  obtain seen depth where k: "run_kahn ?keys (package_edges st) = Ok (Some (seen, card (set ?keys), depth))"
    and seen: "seen = card (set ?keys) \<longleftrightarrow> acyclic (set (package_edges st))"
    and depth: "depth \<le> card (set ?keys) + 1"
    using run_kahn_correct[OF sv_core_endpoints[OF core]] by auto
  have "depth \<le> MAX_DEPTH" using depth n False by (simp add: MAX_DEPTH_def MAX_SELECTED_PACKAGES_def)
  then show ?thesis
    using False k seen by (auto simp: validate_graph_def admit_edge_count_def admit_depth_def package_edges_set)
qed

section \<open>One candidate\<close>

lemma check_constraints_result:
  "check_constraints v cs s = Ok (ok, s') \<Longrightarrow>
     ok = (\<forall>c \<in> set cs. admits c v) \<and> se_decisions s' = se_decisions s"
  by (induction v cs s rule: check_constraints.induct)
     (auto simp: res_iff dest!: pay_flags split: if_splits)

lemma check_target_result:
  "check_target input e s = Ok (ok, s') \<Longrightarrow>
     ok = (bm_get (rs_targets (en_subject e)) (ri_target input) = Some ''available'')
     \<and> se_decisions s' = se_decisions s"
  by (auto simp: check_target_def res_iff dest!: pay_flags split: if_splits)

lemma check_capabilities_result:
  "check_capabilities allowed cs s = Ok (ok, s') \<Longrightarrow>
     ok = (set cs \<subseteq> set allowed) \<and> se_decisions s' = se_decisions s"
  by (induction allowed cs s rule: check_capabilities.induct)
     (auto simp: res_iff bs_contains_def dest!: pay_flags split: if_splits)

lemma insert_dependencies_decisions:
  "insert_dependencies cat t row rows st s = Ok (r, s') \<Longrightarrow> se_decisions s' = se_decisions s"
proof (induction rows arbitrary: row st s)
  case (Cons x rows)
  obtain d v where x: "x = (d, v)" by (cases x)
  show ?case
    using Cons.prems Cons.IH unfolding x insert_dependencies_Cons
    by (auto simp: res_iff dest!: pay_flags split: if_splits)
qed simp

text \<open>The branch a candidate opens, before its dependencies are pushed.\<close>

definition open_branch :: "solver_state \<Rightarrow> string \<Rightarrow> entry \<Rightarrow> solver_state" where
  "open_branch st p e = st\<lparr>sv_selected := bm_insert p e (sv_selected st)\<rparr>"

lemma open_branch_simps [simp]:
  "sv_constraints (open_branch st p e) = sv_constraints st"
  "sv_edges (open_branch st p e) = sv_edges st"
  "sv_selected (open_branch st p e) = bm_insert p e (sv_selected st)"
  by (simp_all add: open_branch_def)

definition candidate_ok :: "resolution_input \<Rightarrow> solver_state \<Rightarrow> string \<Rightarrow> entry \<Rightarrow> bool" where
  "candidate_ok input st p e \<longleftrightarrow>
     (\<forall>cs. bm_get (sv_constraints st) p = Some cs \<longrightarrow> (\<forall>c \<in> set cs. admits c (en_version e)))
     \<and> policy_ok input e"

lemma admit_candidate_cases:
  assumes a: "admit_candidate input allowed cat st p e s = Ok (r, s')"
    and allowed: "set allowed = set (ri_allowed input)"
  obtains (rejected) "\<not> candidate_ok input st p e" "r = None"
    | (dependency) s1 b where "candidate_ok input st p e" "r = None"
        "insert_dependencies cat (en_coordinate e) 0 (entry_deps e) (open_branch st p e) s1 = Ok ((False, b), s')"
    | (graph) s1 b b' s2 where "candidate_ok input st p e" "r = None"
        "insert_dependencies cat (en_coordinate e) 0 (entry_deps e) (open_branch st p e) s1 = Ok ((True, b), s2)"
        "validate_graph b = Ok (False, b')"
    | (admitted) s1 b b' where "candidate_ok input st p e" "r = Some b'"
        "insert_dependencies cat (en_coordinate e) 0 (entry_deps e) (open_branch st p e) s1 = Ok ((True, b), s')"
        "validate_graph b = Ok (True, b')"
proof -
  obtain cs where cs: "bm_get (sv_constraints st) p = Some cs"
    using a by (auto simp: admit_candidate_def split: option.splits)
  obtain ok1 s1 where c1: "check_constraints (en_version e) cs s = Ok (ok1, s1)"
    using a cs by (auto simp: admit_candidate_def res_iff)
  show ?thesis
  proof (cases ok1)
    case False
    then show ?thesis
      using check_constraints_result[OF c1] cs a c1
      by (intro rejected) (auto simp: candidate_ok_def admit_candidate_def)
  next
    case True
    obtain ok2 s2 where c2: "check_target input e s1 = Ok (ok2, s2)"
      using a cs c1 True by (auto simp: admit_candidate_def res_iff)
    show ?thesis
    proof (cases ok2)
      case False
      then show ?thesis
        using check_target_result[OF c2] a cs c1 c2 True
        by (intro rejected) (auto simp: candidate_ok_def policy_ok_def admit_candidate_def)
    next
      case t2: True
      obtain ok3 s3 where c3: "check_capabilities allowed (rs_capabilities (en_subject e)) s2 = Ok (ok3, s3)"
        using a cs c1 True c2 t2 by (auto simp: admit_candidate_def res_iff)
      show ?thesis
      proof (cases ok3)
        case False
        then show ?thesis
          using check_capabilities_result[OF c3] a cs c1 True c2 t2 c3 allowed
          by (intro rejected) (auto simp: candidate_ok_def policy_ok_def admit_candidate_def)
      next
        case t3: True
        have ok: "candidate_ok input st p e"
          using check_constraints_result[OF c1] check_target_result[OF c2] check_capabilities_result[OF c3]
            True t2 t3 cs allowed by (simp add: candidate_ok_def policy_ok_def)
        have rest: "res_bind (insert_dependencies cat (en_coordinate e) 0 (entry_deps e) (open_branch st p e) s3)
            (\<lambda>((ok4, branch1), s4). if \<not> ok4 then Ok (None, s4)
               else res_bind (validate_graph branch1) (\<lambda>(ok5, branch2).
                 if \<not> ok5 then Ok (None, s4\<lparr>se_structural := True\<rparr>) else Ok (Some branch2, s4))) = Ok (r, s')"
          using a cs c1 True c2 t2 c3 t3 by (simp add: admit_candidate_def open_branch_def Let_def)
        obtain ok4 b s4 where i: "insert_dependencies cat (en_coordinate e) 0 (entry_deps e) (open_branch st p e) s3
            = Ok ((ok4, b), s4)"
          using rest by (cases "insert_dependencies cat (en_coordinate e) 0 (entry_deps e) (open_branch st p e) s3") auto
        show ?thesis
        proof (cases ok4)
          case False
          then show ?thesis using rest i ok by (intro dependency) auto
        next
          case t4: True
          obtain ok5 b' where v: "validate_graph b = Ok (ok5, b')"
            using rest i t4 by (cases "validate_graph b") auto
          show ?thesis using rest i t4 v ok by (cases ok5) (auto intro: graph admitted)
        qed
      qed
    qed
  qed
qed

lemma open_branch_core:
  assumes core: "sv_core cat input st" and p: "p \<in> set (bm_keys (sv_constraints st))"
    and free: "p \<notin> set (bm_keys (sv_selected st))"
    and e: "e \<in> set (ca_entries cat)" "en_package e = p" and ok: "candidate_ok input st p e"
  shows "sv_core cat input (open_branch st p e)"
proof (rule sv_coreI)
  let ?st = "open_branch st p e"
  show "bm_ok (sv_constraints ?st)" "bm_ok (sv_selected ?st)" "bs_ok (sv_edges ?st)"
    using sv_core_ok[OF core] by simp_all
  fix q x assume x: "bm_get (sv_selected ?st) q = Some x"
  show "q \<in> set (bm_keys (sv_constraints ?st))"
    "x \<in> set (ca_entries cat) \<and> en_package x = q \<and> policy_ok input x"
    using x p e ok sv_core_selected[OF core, of q x] by (auto simp: candidate_ok_def split: if_splits)
  fix cs c assume "bm_get (sv_constraints ?st) q = Some cs" "c \<in> set cs"
  then show "admits c (en_version x)"
    using x ok sv_core_admits[OF core, of q x cs c] by (auto simp: candidate_ok_def split: if_splits)
next
  fix a b assume ab: "(a, b) \<in> set (sv_edges (open_branch st p e))"
  then have ab': "(a, b) \<in> set (sv_edges st)" by simp
  show "co_package a \<in> set (bm_keys (sv_constraints (open_branch st p e)))"
    using sv_core_edge(1)[OF core ab'] by simp
  obtain x w where x: "bm_get (sv_selected st) (co_package b) = Some x" "en_coordinate x = b"
      "(a, w) \<in> set (entry_deps x)"
    using sv_core_edge(2)[OF core ab'] by auto
  then have "co_package b \<noteq> p" using free bm_get_None_iff[of "sv_selected st" p] by auto
  with x show "\<exists>x w. bm_get (sv_selected (open_branch st p e)) (co_package b) = Some x
      \<and> en_coordinate x = b \<and> (a, w) \<in> set (entry_deps x)" by auto
qed

lemma grows_depth [simp]: "grows st (st\<lparr>sv_depth := n\<rparr>)"
  by (simp add: grows_def has_constraint_def)

lemma sv_core_depth [simp]: "sv_core cat input (st\<lparr>sv_depth := n\<rparr>) = sv_core cat input st"
  by (simp add: sv_core_def)

lemma deps_in_open_branch [simp]: "deps_in (open_branch st p e) x rows = deps_in st x rows"
  by (simp add: deps_in_def has_constraint_def)

lemma has_constraint_open_branch [simp]: "has_constraint (open_branch st p e) q v = has_constraint st q v"
  by (simp add: has_constraint_def)

lemma admit_correct:
  assumes a: "admit_candidate input allowed cat st p e s = Ok (Some b, s')"
    and allowed: "set allowed = set (ri_allowed input)"
    and inv: "sv_inv cat input reqs st" and p: "p \<in> set (bm_keys (sv_constraints st))"
    and free: "p \<notin> set (bm_keys (sv_selected st))"
    and e: "e \<in> set (ca_entries cat)" "en_package e = p"
  shows "sv_inv cat input reqs b \<and> validated b"
proof -
  obtain s1 b1 where ok: "candidate_ok input st p e"
    and i: "insert_dependencies cat (en_coordinate e) 0 (entry_deps e) (open_branch st p e) s1 = Ok ((True, b1), s')"
    and v: "validate_graph b1 = Ok (True, b)"
    by (rule admit_candidate_cases[OF a allowed]) auto
  have core: "sv_core cat input st" using inv by (simp add: sv_inv_def)
  have ob: "sv_core cat input (open_branch st p e)" by (rule open_branch_core[OF core p free e ok])
  have b1: "sv_core cat input b1 \<and> grows (open_branch st p e) b1 \<and> deps_in b1 e (entry_deps e)"
    using e(2) by (intro insert_dependencies_correct[OF i ob]) simp_all
  obtain depth where b: "b = b1\<lparr>sv_depth := depth\<rparr>" "depth \<le> MAX_DEPTH"
      "length (sv_constraints b1) \<le> MAX_SELECTED_PACKAGES" "length (sv_edges b1) \<le> MAX_EDGES"
      "acyclic (to_packages ` set (sv_edges b1))"
    using validate_graph_correct[of cat input b1] b1 v by auto
  have g: "grows (open_branch st p e) b" using b1 b(1) grows_depth grows_trans by blast
  have "deps_in b x (entry_deps x)" if "bm_get (sv_selected b) q = Some x" for q x
  proof (cases "q = p")
    case True
    then have "x = e" using that g by (auto simp: grows_def)
    then show ?thesis using b1 b(1) grows_depth grows_deps_in by blast
  next
    case False
    then have "bm_get (sv_selected st) q = Some x" using that g by (auto simp: grows_def)
    then have "deps_in (open_branch st p e) x (entry_deps x)" using inv by (simp add: sv_inv_def)
    then show ?thesis using g grows_deps_in by blast
  qed
  moreover have "has_constraint b (pq_package rq) (CRange (pq_range rq))" if "rq \<in> set reqs" for rq
    using that inv g by (simp add: grows_def sv_inv_def)
  moreover have "sv_core cat input b" "validated b" using b b1 by (simp_all add: validated_def)
  ultimately show ?thesis by (simp add: sv_inv_def)
qed

section \<open>Branches a solution extends\<close>

definition compat :: "(string \<Rightarrow> entry option) \<Rightarrow> solver_state \<Rightarrow> bool" where
  "compat \<sigma> st \<longleftrightarrow>
     (\<forall>p e. bm_get (sv_selected st) p = Some e \<longrightarrow> \<sigma> p = Some e)
     \<and> (\<forall>p cs. bm_get (sv_constraints st) p = Some cs \<longrightarrow>
          (\<exists>e. \<sigma> p = Some e \<and> (\<forall>c \<in> set cs. admits c (en_version e))))"

lemma compat_constraint:
  assumes "compat \<sigma> st" "bm_get (sv_constraints st) p = Some cs"
  obtains e where "\<sigma> p = Some e" "\<forall>c \<in> set cs. admits c (en_version e)"
  using assms unfolding compat_def by blast

lemma compat_open_branch: "compat \<sigma> st \<Longrightarrow> \<sigma> p = Some e \<Longrightarrow> compat \<sigma> (open_branch st p e)"
  by (auto simp: compat_def split: if_splits)

lemma compat_push_row:
  assumes c: "compat \<sigma> st" and e: "\<sigma> (co_package d) = Some e'" "en_version e' = v"
  shows "compat \<sigma> (push_row t row d v st)"
  unfolding compat_def
proof (intro conjI allI impI)
  show "\<sigma> p = Some e" if "bm_get (sv_selected (push_row t row d v st)) p = Some e" for p e
    using that c by (simp add: compat_def)
  show "\<exists>e. \<sigma> p = Some e \<and> (\<forall>c \<in> set cs. admits c (en_version e))"
    if "bm_get (sv_constraints (push_row t row d v st)) p = Some cs" for p cs
  proof (cases "p = co_package d")
    case True
    have "\<forall>c \<in> set cs. admits c (en_version e')"
      using that True c e by (fastforce simp: get_push_row compat_def admits_def split: option.splits)
    then show ?thesis using True e by simp
  next
    case False
    then show ?thesis using that c by (simp add: get_push_row compat_def)
  qed
qed

lemma insert_dependencies_compat:
  assumes "insert_dependencies cat t row rows st s = Ok ((ok, st'), s')"
    and cat: "catalog_ok cat" and sol: "solution cat input reqs \<sigma>"
    and rows: "\<forall>(d, v) \<in> set rows. \<exists>e'. \<sigma> (co_package d) = Some e' \<and> en_version e' = v"
    and "compat \<sigma> st"
  shows "ok \<and> compat \<sigma> st'"
  using assms(1,4,5)
proof (induction rows arbitrary: row st s)
  case (Cons r rows)
  obtain d v where r: "r = (d, v)" by (cases r)
  obtain e' where e': "\<sigma> (co_package d) = Some e'" "en_version e' = v" using Cons.prems(2) r by auto
  then have "e' \<in> set (ca_entries cat)" "en_package e' = co_package d"
    using solution_entry[OF sol e'(1)] by simp_all
  then have "bm_contains (ca_by_coordinate cat) (co_package d, v)"
    using cat e' unfolding catalog_ok_def entry_key_def by metis
  moreover have "\<not> (case bm_get (sv_selected st) (co_package d) of None \<Rightarrow> False | Some x \<Rightarrow> en_version x \<noteq> v)"
    using Cons.prems(3) e' by (auto simp: compat_def split: option.splits)
  ultimately obtain s2 where
    rest: "insert_dependencies cat t (row + 1) rows (push_row t row d v st) s2 = Ok ((ok, st'), s')"
    using Cons.prems(1) unfolding r insert_dependencies_Cons by (auto simp: res_iff split: if_splits)
  show ?case
    by (rule Cons.IH[OF rest]) (use Cons.prems compat_push_row[OF Cons.prems(3) e'] in auto)
qed simp

lemma compat_graph:
  assumes core: "sv_core cat input st" and c: "compat \<sigma> st" and sol: "solution cat input reqs \<sigma>"
  shows "\<exists>st'. validate_graph st = Ok (True, st')"
proof -
  have fin: "finite (dom \<sigma>)" using sol by (simp add: solution_def)
  have "set (bm_keys (sv_constraints st)) \<subseteq> dom \<sigma>"
  proof
    fix p assume "p \<in> set (bm_keys (sv_constraints st))"
    then obtain cs where "bm_get (sv_constraints st) p = Some cs"
      using bm_get_None_iff[of "sv_constraints st" p] by auto
    with c obtain e where "\<sigma> p = Some e" by (rule compat_constraint)
    then show "p \<in> dom \<sigma>" by blast
  qed
  then have "card (set (bm_keys (sv_constraints st))) \<le> card (dom \<sigma>)" using fin by (rule card_mono[rotated])
  moreover have "card (set (bm_keys (sv_constraints st))) = length (sv_constraints st)"
    using distinct_bm_keys[OF sv_core_ok(1)[OF core]] by (simp add: distinct_card) (simp add: bm_keys_def)
  ultimately have len: "length (sv_constraints st) \<le> MAX_SELECTED_PACKAGES"
    using sol unfolding solution_def by linarith
  have sub: "set (sv_edges st) \<subseteq> solution_edges \<sigma>"
  proof (clarify)
    fix d t assume "(d, t) \<in> set (sv_edges st)"
    from sv_core_edge(2)[OF core this] c show "(d, t) \<in> solution_edges \<sigma>"
      unfolding compat_def solution_edges_def by fastforce
  qed
  then have "card (set (sv_edges st)) \<le> card (solution_edges \<sigma>)"
    using finite_solution_edges[OF fin] by (rule card_mono[rotated])
  moreover have "card (set (sv_edges st)) = length (sv_edges st)"
    using sv_core_ok(3)[OF core] by (intro distinct_card) (simp add: bs_ok_def strict_sorted_iff)
  ultimately have edges: "length (sv_edges st) \<le> MAX_EDGES"
    using sol unfolding solution_def by linarith
  have "acyclic (to_packages ` set (sv_edges st))"
    using sol sub unfolding solution_def by (meson acyclic_subset image_mono)
  with len edges show ?thesis using validate_graph_correct[OF core] by auto
qed

lemma compat_depth [simp]: "compat \<sigma> (st\<lparr>sv_depth := n\<rparr>) = compat \<sigma> st"
  by (simp add: compat_def)

lemma admit_complete:
  assumes a: "admit_candidate input allowed cat st p e s = Ok (r, s')"
    and allowed: "set allowed = set (ri_allowed input)"
    and core: "sv_core cat input st" and p: "p \<in> set (bm_keys (sv_constraints st))"
    and free: "p \<notin> set (bm_keys (sv_selected st))"
    and cat: "catalog_ok cat" and sol: "solution cat input reqs \<sigma>" and c: "compat \<sigma> st" and e: "\<sigma> p = Some e"
  shows "\<exists>b. r = Some b \<and> compat \<sigma> b"
proof -
  note sel = solution_entry[OF sol e]
  have ok: "candidate_ok input st p e"
    unfolding candidate_ok_def
  proof (intro conjI allI impI)
    fix cs assume "bm_get (sv_constraints st) p = Some cs"
    with c obtain x where "\<sigma> p = Some x" "\<forall>c \<in> set cs. admits c (en_version x)" by (rule compat_constraint)
    then show "\<forall>c \<in> set cs. admits c (en_version e)" using e by simp
  qed (rule sel(3))
  have ob: "sv_core cat input (open_branch st p e)" by (rule open_branch_core[OF core p free sel(1,2) ok])
  have deps: "k \<and> compat \<sigma> b" if "insert_dependencies cat (en_coordinate e) 0 (entry_deps e) (open_branch st p e) s1 = Ok ((k, b), s2)"
    for k b s1 s2
    by (rule insert_dependencies_compat[OF that cat sol sel(4)]) (rule compat_open_branch[OF c e])
  have acyc: "\<exists>b'. validate_graph b = Ok (True, b') \<and> compat \<sigma> b'"
    if "insert_dependencies cat (en_coordinate e) 0 (entry_deps e) (open_branch st p e) s1 = Ok ((True, b), s2)"
    for b s1 s2
  proof -
    note dp = deps[OF that]
    have core1: "sv_core cat input b"
      using insert_dependencies_correct[OF that ob] sel(2) by simp
    obtain b' where b': "validate_graph b = Ok (True, b')"
      using compat_graph[OF core1 _ sol] dp by blast
    then obtain n where "b' = b\<lparr>sv_depth := n\<rparr>" using validate_graph_correct[OF core1] by auto
    then show ?thesis using b' dp by simp
  qed
  show ?thesis
    using a allowed
  proof (cases rule: admit_candidate_cases)
    case rejected
    then show ?thesis using ok by simp
  next
    case (dependency s1 b)
    then show ?thesis using deps[OF dependency(3)] by simp
  next
    case (graph s1 b b' s2)
    then show ?thesis using acyc[OF graph(3)] by auto
  next
    case (admitted s1 b b')
    then show ?thesis using acyc[OF admitted(3)] by auto
  qed
qed

section \<open>The search\<close>

lemma unresolved_Some:
  assumes "unresolved st = Some p"
  shows "p \<in> set (bm_keys (sv_constraints st))" "p \<notin> set (bm_keys (sv_selected st))"
  using find_SomeD[OF assms[unfolded unresolved_def]] by (simp_all add: bm_contains_iff)

lemma unresolved_None:
  "unresolved st = None \<Longrightarrow> set (bm_keys (sv_constraints st)) \<subseteq> set (bm_keys (sv_selected st))"
  by (auto simp: unresolved_def find_None_iff bm_contains_iff)

lemma bounded_admit:
  assumes inv: "sv_inv cat input reqs st" and p: "p \<in> set (bm_keys (sv_constraints st))"
    and free: "p \<notin> set (bm_keys (sv_selected st))"
    and e: "e \<in> set (ca_entries cat)" "en_package e = p"
    and allowed: "set allowed = set (ri_allowed input)"
  shows "bounded_failure (admit_candidate input allowed cat st p e s)"
proof -
  have core: "sv_core cat input st" using inv by (simp add: sv_inv_def)
  obtain cs where cs: "bm_get (sv_constraints st) p = Some cs"
    using p bm_get_None_iff[of "sv_constraints st" p] by auto
  have graph: "bounded_failure (validate_graph b)"
    if "check_constraints (en_version e) cs s = Ok (True, s1)" "check_target input e s1 = Ok (True, s2)"
      "check_capabilities allowed (rs_capabilities (en_subject e)) s2 = Ok (True, s3)"
      "insert_dependencies cat (en_coordinate e) 0 (entry_deps e) (open_branch st p e) s3 = Ok ((True, b), s4)"
    for s1 s2 s3 s4 b
  proof -
    have "candidate_ok input st p e"
      using check_constraints_result[OF that(1)] check_target_result[OF that(2)]
        check_capabilities_result[OF that(3)] cs allowed by (simp add: candidate_ok_def policy_ok_def)
    from open_branch_core[OF core p free e this] have "sv_core cat input b"
      using insert_dependencies_correct[OF that(4)] e(2) by simp
    from validate_graph_correct[OF this] show ?thesis by auto
  qed
  show ?thesis
    unfolding admit_candidate_def cs option.case open_branch_def[symmetric] Let_def
    by (auto intro!: bounded_bind split: if_splits) (rule graph; assumption)
qed

definition search_spec ::
  "catalog \<Rightarrow> resolution_input \<Rightarrow> parsed_requirement list \<Rightarrow> ((string \<Rightarrow> entry option) \<Rightarrow> bool)
     \<Rightarrow> solver_state option searched \<Rightarrow> bool" where
  "search_spec cat input reqs excluded r \<longleftrightarrow>
     bounded_failure r
     \<and> (\<forall>st s. r = Ok (Some st, s) \<longrightarrow> sv_inv cat input reqs st \<and> validated st \<and> unresolved st = None)
     \<and> (\<forall>s. r = Ok (None, s) \<longrightarrow> (\<forall>\<sigma>. solution cat input reqs \<sigma> \<longrightarrow> \<not> excluded \<sigma>))"

lemma search_spec_Err [simp]: "search_spec cat input reqs X (Err (limit_error m))"
  using bounded_limit by (auto simp: search_spec_def)

lemma search_spec_bind:
  "bounded_failure m \<Longrightarrow> (\<And>x. m = Ok x \<Longrightarrow> search_spec cat input reqs X (f x)) \<Longrightarrow>
     search_spec cat input reqs X (res_bind m f)"
  by (cases m) (auto simp: search_spec_def bounded_failure_def)

lemma search_spec_weaken:
  "search_spec cat input reqs X r \<Longrightarrow> (\<And>\<sigma>. solution cat input reqs \<sigma> \<Longrightarrow> Y \<sigma> \<Longrightarrow> X \<sigma>) \<Longrightarrow>
     search_spec cat input reqs Y r"
  by (auto simp: search_spec_def)

text \<open>One turn of the candidate loop, for any admission \<open>A\<close>, recursive call \<open>V\<close> and rest \<open>T\<close>.\<close>

lemma search_spec_step:
  assumes A: "bounded_failure A"
    and "\<And>s2 s3. A = Ok (None, s2) \<Longrightarrow> search_spec cat input reqs X (T s3)"
    and "\<And>s2 \<sigma>. A = Ok (None, s2) \<Longrightarrow> solution cat input reqs \<sigma> \<Longrightarrow> Y \<sigma> \<Longrightarrow> X \<sigma>"
    and V: "\<And>b s2. A = Ok (Some b, s2) \<Longrightarrow> search_spec cat input reqs (Z b) (V b s2)"
    and "\<And>b s2 s3 s4. A = Ok (Some b, s2) \<Longrightarrow> V b s2 = Ok (None, s3) \<Longrightarrow> search_spec cat input reqs X (T s4)"
    and "\<And>b s2 \<sigma>. A = Ok (Some b, s2) \<Longrightarrow> solution cat input reqs \<sigma> \<Longrightarrow> Y \<sigma> \<Longrightarrow> X \<sigma> \<or> Z b \<sigma>"
  shows "search_spec cat input reqs Y
     (case A of Err d \<Rightarrow> Err d | Panic \<Rightarrow> Panic
      | Ok (None, s2) \<Rightarrow> res_bind (pay s2) (\<lambda>s3. T s3)
      | Ok (Some b, s2) \<Rightarrow>
          (case V b s2 of Err d \<Rightarrow> Err d | Panic \<Rightarrow> Panic
           | Ok (Some r, s3) \<Rightarrow> Ok (Some r, s3)
           | Ok (None, s3) \<Rightarrow> res_bind (pay s3) (\<lambda>s4. T s4)))"
proof (cases "\<exists>s2. A = Ok (None, s2)")
  case True
  then obtain s2 where s2: "A = Ok (None, s2)" by auto
  have "search_spec cat input reqs Y (res_bind (pay s2) (\<lambda>s3. T s3))"
    by (rule search_spec_bind[OF bounded_pay], rule search_spec_weaken[OF assms(2)[OF s2]])
       (rule assms(3)[OF s2])
  then show ?thesis by (simp add: s2)
next
  case no: False
  show ?thesis
  proof (cases "\<exists>b s2. A = Ok (Some b, s2)")
    case False
    then show ?thesis using A no
      by (cases A) (auto simp: search_spec_def bounded_failure_def split: prod.splits option.splits)
  next
    case True
    then obtain b s2 where b: "A = Ok (Some b, s2)" by auto
    note v = V[OF b]
    show ?thesis
    proof (cases "\<exists>s3. V b s2 = Ok (None, s3)")
      case True
      then obtain s3 where s3: "V b s2 = Ok (None, s3)" by auto
      have "search_spec cat input reqs Y (res_bind (pay s3) (\<lambda>s4. T s4))"
      proof (rule search_spec_bind[OF bounded_pay])
        show "search_spec cat input reqs Y (T s4)" for s4
        proof (rule search_spec_weaken[OF assms(5)[OF b s3]])
          show "X \<sigma>" if "solution cat input reqs \<sigma>" "Y \<sigma>" for \<sigma>
            using assms(6)[OF b that] v s3 that(1) by (auto simp: search_spec_def)
        qed
      qed
      then show ?thesis by (simp add: b s3)
    next
      case False
      then show ?thesis using v
        by (cases "V b s2") (auto simp: b search_spec_def bounded_failure_def split: prod.splits option.splits)
    qed
  qed
qed

lemma search_correct:
  assumes cat: "catalog_ok cat"
  shows "set allowed = set (ri_allowed input) \<Longrightarrow> sv_inv cat input reqs st \<Longrightarrow>
      (unresolved st = None \<Longrightarrow> validated st) \<Longrightarrow>
      search_spec cat input reqs (\<lambda>\<sigma>. compat \<sigma> st) (visit input allowed cat st s)"
    and "set allowed = set (ri_allowed input) \<Longrightarrow> sv_inv cat input reqs st \<Longrightarrow>
      p \<in> set (bm_keys (sv_constraints st)) \<Longrightarrow> p \<notin> set (bm_keys (sv_selected st)) \<Longrightarrow>
      set is \<subseteq> {i. i < length (ca_entries cat) \<and> en_package (ca_entries cat ! i) = p} \<Longrightarrow>
      search_spec cat input reqs (\<lambda>\<sigma>. compat \<sigma> st \<and> (\<exists>i \<in> set is. \<sigma> p = Some (ca_entries cat ! i)))
        (try_candidates input allowed cat st p is s)"
  using cat
proof (induction input allowed cat st s and input allowed cat st p "is" s rule: visit_try_candidates.induct)
  case (1 input allowed cat st s)
  show ?case
  proof (cases "unresolved st")
    case None
    then show ?thesis using 1 by (simp add: search_spec_def)
  next
    case (Some p)
    note p = unresolved_Some[OF Some]
    have found: "\<exists>e. \<sigma> p = Some e \<and> e \<in> set (ca_entries cat) \<and> en_package e = p"
      if "solution cat input reqs \<sigma>" "compat \<sigma> st" for \<sigma>
    proof -
      obtain cs where "bm_get (sv_constraints st) p = Some cs"
        using p bm_get_None_iff[of "sv_constraints st" p] by auto
      with that(2) obtain e where "\<sigma> p = Some e" by (rule compat_constraint)
      then show ?thesis using solution_entry[OF that(1)] by blast
    qed
    show ?thesis
    proof (cases "bm_get (ca_by_package cat) p")
      case None
      then have "\<forall>e \<in> set (ca_entries cat). en_package e \<noteq> p"
        using catalog_ok_None[OF 1(5)] by blast
      then have "\<not> compat \<sigma> st" if "solution cat input reqs \<sigma>" for \<sigma> using found[OF that] by blast
      then show ?thesis using None Some by (simp add: search_spec_def)
    next
      case ixs: (Some ixs)
      then have set: "set ixs = {i. i < length (ca_entries cat) \<and> en_package (ca_entries cat ! i) = p}"
        by (rule catalog_ok_Some[OF 1(5)])
      have "search_spec cat input reqs (\<lambda>\<sigma>. compat \<sigma> st \<and> (\<exists>i \<in> set ixs. \<sigma> p = Some (ca_entries cat ! i)))
          (try_candidates input allowed cat st p ixs s)"
        using 1(1)[OF Some ixs 1(2,3) p] set 1(5) by simp
      then show ?thesis
        using Some ixs set found by (auto elim!: search_spec_weaken simp: in_set_conv_nth)
    qed
  qed
next
  case (2 input allowed cat st p s)
  then show ?case by (simp add: search_spec_def)
next
  case (3 input allowed cat st p i "is" s)
  let ?e = "ca_entries cat ! i"
  have i: "i < length (ca_entries cat)" "?e \<in> set (ca_entries cat)" "en_package ?e = p" using "3.prems" by auto
  have inv: "sv_inv cat input reqs st" "sv_core cat input st" using "3.prems" by (simp_all add: sv_inv_def)
  note adm = bounded_admit[OF inv(1) "3.prems"(3,4) i(2,3) "3.prems"(1)]
  show ?case
  proof (cases "MAX_DECISIONS \<le> se_decisions s")
    case True
    then show ?thesis by simp
  next
    case dec: False
    have i': "\<not> length (ca_entries cat) \<le> i" using i(1) by simp
    show ?thesis
      unfolding try_candidates.simps if_not_P[OF dec]
    proof (rule search_spec_bind[OF bounded_pay], goal_cases)
      case (1 s1)
      let ?X = "\<lambda>\<sigma>. compat \<sigma> st \<and> (\<exists>j \<in> set is. \<sigma> p = Some (ca_entries cat ! j))"
      have complete: "\<exists>b. r = Some b \<and> compat \<sigma> b"
        if "admit_candidate input allowed cat st p ?e s1 = Ok (r, s2)" "solution cat input reqs \<sigma>"
          "compat \<sigma> st" "\<sigma> p = Some ?e" for r s2 \<sigma>
        using admit_complete[OF that(1) "3.prems"(1) inv(2) "3.prems"(3,4,6) that(2-4)] .
      have admitted: "sv_inv cat input reqs b \<and> validated b"
        if "admit_candidate input allowed cat st p ?e s1 = Ok (Some b, s2)" for b s2
        using admit_correct[OF that "3.prems"(1) inv(1) "3.prems"(3,4) i(2,3)] .
      show ?case
        unfolding if_not_P[OF i']
      proof (rule search_spec_step[where X = ?X and Z = "\<lambda>b \<sigma>. compat \<sigma> b", OF adm])
        show "search_spec cat input reqs ?X (try_candidates input allowed cat st p is s3)"
          if "admit_candidate input allowed cat st p ?e s1 = Ok (None, s2)" for s2 s3
          using "3.IH"(1)[OF dec i' that refl refl "3.prems"(1-4) _ "3.prems"(6)] "3.prems"(5) by simp
        show "?X \<sigma>"
          if "admit_candidate input allowed cat st p ?e s1 = Ok (None, s2)" "solution cat input reqs \<sigma>"
            "compat \<sigma> st \<and> (\<exists>j \<in> set (i # is). \<sigma> p = Some (ca_entries cat ! j))" for s2 \<sigma>
          using that complete[OF that(1,2)] by auto
        show "search_spec cat input reqs (\<lambda>\<sigma>. compat \<sigma> b) (visit input allowed cat b s2)"
          if "admit_candidate input allowed cat st p ?e s1 = Ok (Some b, s2)" for b s2
          using "3.IH"(2)[OF dec i' that refl refl "3.prems"(1) _ _ "3.prems"(6)] admitted[OF that] by simp
        show "search_spec cat input reqs ?X (try_candidates input allowed cat st p is s4)"
          if "admit_candidate input allowed cat st p ?e s1 = Ok (Some b, s2)"
            "visit input allowed cat b s2 = Ok (None, s3)" for b s2 s3 s4
          using "3.IH"(3)[OF dec i' that(1) refl refl that(2) refl refl "3.prems"(1-4) _ "3.prems"(6)] "3.prems"(5)
          by simp
        show "?X \<sigma> \<or> compat \<sigma> b"
          if "admit_candidate input allowed cat st p ?e s1 = Ok (Some b, s2)" "solution cat input reqs \<sigma>"
            "compat \<sigma> st \<and> (\<exists>j \<in> set (i # is). \<sigma> p = Some (ca_entries cat ! j))" for b s2 \<sigma>
          using that complete[OF that(1,2)] by auto
      qed
    qed
  qed
qed

end
