(* ===== verification/ResolverProps.thy ===== *)
theory ResolverProps
  imports ResolverCorrect
begin

text \<open>
  What the resolver of \<open>src/package_resolver.rs\<close> promises, from the input to the selection: what
  it selects is a solution over the catalog it authenticated, it gives up on an input that has a
  solution only when a bound is hit, and it never panics when the authenticator does not.
\<close>

declare visit.simps [simp del]

section \<open>The catalog's indexes\<close>

lemma ex_nat_split: "(\<exists>n::nat. P n) \<longleftrightarrow> P 0 \<or> (\<exists>n. P (Suc n))"
  by (metis not0_implies_Suc)

definition listed :: "(string, nat list) bmap \<Rightarrow> string \<Rightarrow> nat set" where
  "listed m p = (case bm_get m p of None \<Rightarrow> {} | Some ixs \<Rightarrow> set ixs)"

lemma index_entries_listed:
  "index_entries i es bp bc = Ok (bp', bc') \<Longrightarrow>
     listed bp' p = listed bp p \<union> {i + j | j. j < length es \<and> en_package (es ! j) = p}
     \<and> (bm_get bp' p = None \<longleftrightarrow> bm_get bp p = None \<and> (\<forall>e \<in> set es. en_package e \<noteq> p))
     \<and> set (bm_keys bc') = set (bm_keys bc) \<union> entry_key ` set es"
proof (induction i es bp bc rule: index_entries.induct)
  case (1 i bp bc)
  then show ?case by simp
next
  case (2 i e es bp bc)
  define vs where "vs = (case bm_get bp (en_package e) of None \<Rightarrow> [] | Some vs \<Rightarrow> vs) @ [i]"
  have c: "\<not> bm_contains bc (entry_key e)" "\<not> MAX_VERSIONS_PER_PACKAGE < length vs"
    and rest: "index_entries (i + 1) es (bm_insert (en_package e) vs bp) (bm_insert (entry_key e) i bc) = Ok (bp', bc')"
    using "2.prems" by (auto simp: Let_def vs_def split: if_splits)
  note ih = "2.IH"[OF c(1) vs_def c(2) rest]
  have split: "{i + j | j. j < length (e # es) \<and> en_package ((e # es) ! j) = p}
      = (if en_package e = p then {i} else {}) \<union> {i + 1 + j | j. j < length es \<and> en_package (es ! j) = p}"
    (is "?L = ?R")
  proof (rule set_eqI)
    fix k
    have "k \<in> ?L \<longleftrightarrow> (k = i \<and> en_package e = p) \<or> (\<exists>j. k = i + Suc j \<and> j < length es \<and> en_package (es ! j) = p)"
      by (subst mem_Collect_eq, subst ex_nat_split) simp
    then show "k \<in> ?L \<longleftrightarrow> k \<in> ?R" by auto
  qed
  have "listed (bm_insert (en_package e) vs bp) p = listed bp p \<union> (if en_package e = p then {i} else {})"
    by (auto simp: listed_def vs_def split: option.splits)
  then show ?case using ih unfolding split by auto
qed

lemma catalog_ok_authenticate:
  assumes "authenticate auth digest input work = Ok (cat, work')"
  shows "catalog_ok cat"
proof -
  obtain entries bp bc where i: "index_entries 0 entries bm_empty bm_empty = Ok (bp, bc)"
    and cat: "ca_entries cat = entries" "ca_by_package cat = bm_map (\<lambda>_. sort_versions entries) bp"
      "ca_by_coordinate cat = bc"
    using assms by (auto simp: authenticate_def Let_def res_iff split: if_splits)
  have "set ixs = {i. i < length entries \<and> en_package (entries ! i) = p}" if "bm_get bp p = Some ixs" for p ixs
    using index_entries_listed[OF i, of p] that by (simp add: listed_def)
  then show ?thesis
    using index_entries_listed[OF i] unfolding catalog_ok_def cat
    by (auto simp: bm_get_map bm_contains_iff sort_versions_def split: option.splits)
qed

section \<open>The initial state\<close>

lemma root_constraints_get:
  "bm_get (fold (\<lambda>rq. push_constraint (pq_package rq)
        \<lparr>cn_tag = RootTag (pq_row rq), cn_value = CRange (pq_range rq)\<rparr>) reqs m) p =
     (if bm_get m p = None \<and> p \<notin> pq_package ` set reqs then None
      else Some ((case bm_get m p of None \<Rightarrow> [] | Some cs \<Rightarrow> cs)
             @ map (\<lambda>rq. \<lparr>cn_tag = RootTag (pq_row rq), cn_value = CRange (pq_range rq)\<rparr>)
                 (filter (\<lambda>rq. pq_package rq = p) reqs)))"
  by (induction reqs arbitrary: m) (auto simp: push_constraint_def split: option.splits)

lemma get_initial_constraint:
  "bm_get (sv_constraints (initial_state reqs)) p =
     (if p \<in> pq_package ` set reqs
      then Some (map (\<lambda>rq. \<lparr>cn_tag = RootTag (pq_row rq), cn_value = CRange (pq_range rq)\<rparr>)
                 (filter (\<lambda>rq. pq_package rq = p) reqs))
      else None)"
  by (simp add: initial_state_def root_constraints_def root_constraints_get)

lemma initial_inv: "sv_inv cat input reqs (initial_state reqs)"
proof -
  have "bm_ok (fold (\<lambda>rq. push_constraint (pq_package rq)
        \<lparr>cn_tag = RootTag (pq_row rq), cn_value = CRange (pq_range rq)\<rparr>) reqs m)" if "bm_ok m" for m
    using that by (induction reqs arbitrary: m) (simp_all add: push_constraint_def)
  then have "sv_core cat input (initial_state reqs)"
    by (intro sv_coreI) (simp_all add: initial_state_def root_constraints_def)
  moreover have "has_constraint (initial_state reqs) (pq_package rq) (CRange (pq_range rq))"
    if "rq \<in> set reqs" for rq
    using that by (auto simp: has_constraint_def get_initial_constraint
        intro!: exI[of _ "\<lparr>cn_tag = RootTag (pq_row rq), cn_value = CRange (pq_range rq)\<rparr>"])
  ultimately show ?thesis by (simp add: sv_inv_def) (simp add: initial_state_def)
qed

lemma initial_validated: "unresolved (initial_state reqs) = None \<Longrightarrow> validated (initial_state reqs)"
  using unresolved_None[of "initial_state reqs"]
  by (simp add: validated_def) (simp add: initial_state_def bm_empty_def bm_keys_def acyclic_def)

lemma initial_compat: "solution cat input reqs \<sigma> \<Longrightarrow> compat \<sigma> (initial_state reqs)"
  unfolding compat_def
proof (intro conjI allI impI)
  assume sol: "solution cat input reqs \<sigma>"
  show "\<sigma> p = Some e" if "bm_get (sv_selected (initial_state reqs)) p = Some e" for p e
    using that by (simp add: initial_state_def)
  fix p cs assume "bm_get (sv_constraints (initial_state reqs)) p = Some cs"
  then have p: "p \<in> pq_package ` set reqs"
    and cs: "cs = map (\<lambda>rq. \<lparr>cn_tag = RootTag (pq_row rq), cn_value = CRange (pq_range rq)\<rparr>)
                 (filter (\<lambda>rq. pq_package rq = p) reqs)"
    by (simp_all add: get_initial_constraint split: if_splits)
  have met: "\<exists>e. \<sigma> (pq_package rq) = Some e \<and> range_contains (pq_range rq) (en_version e)"
    if "rq \<in> set reqs" for rq
    using sol that by (simp add: solution_def)
  obtain e where e: "\<sigma> p = Some e" using p met by auto
  moreover have "\<forall>c \<in> set cs. admits c (en_version e)"
    using met e by (fastforce simp: cs admits_def)
  ultimately show "\<exists>e. \<sigma> p = Some e \<and> (\<forall>c \<in> set cs. admits c (en_version e))" by blast
qed

section \<open>A finished branch is a solution\<close>

lemma finished_selects:
  assumes inv: "sv_inv cat input reqs st" and u: "unresolved st = None" and c: "has_constraint st p w"
  shows "\<exists>e. bm_get (sv_selected st) p = Some e \<and>
     (case w of CRange r \<Rightarrow> range_contains r (en_version e) | CExact v \<Rightarrow> v = en_version e)"
proof -
  obtain cs c where cs: "bm_get (sv_constraints st) p = Some cs" "c \<in> set cs" "cn_value c = w"
    using c by (auto simp: has_constraint_def)
  then have "p \<in> set (bm_keys (sv_selected st))"
    using unresolved_None[OF u] bm_get_None_iff[of "sv_constraints st" p] by auto
  then obtain e where e: "bm_get (sv_selected st) p = Some e"
    using bm_get_None_iff[of "sv_selected st" p] by auto
  have "admits c (en_version e)"
    using sv_core_admits[OF _ e cs(1,2), of cat input] inv by (simp add: sv_inv_def)
  then show ?thesis using e cs(3) by (auto simp: admits_def)
qed

lemma finished_edges:
  assumes inv: "sv_inv cat input reqs st"
  shows "set (sv_edges st) = solution_edges (bm_get (sv_selected st))"
proof -
  have core: "sv_core cat input st" using inv by (simp add: sv_inv_def)
  have "(d, t) \<in> solution_edges (bm_get (sv_selected st))" if "(d, t) \<in> set (sv_edges st)" for d t
    using sv_core_edge(2)[OF core that] unfolding solution_edges_def by fastforce
  moreover have "(d, en_coordinate e) \<in> set (sv_edges st)"
    if "bm_get (sv_selected st) p = Some e" "(d, v) \<in> set (entry_deps e)" for d e p v
  proof -
    have "deps_in st e (entry_deps e)" using inv that(1) unfolding sv_inv_def by blast
    then show ?thesis using that(2) unfolding deps_in_def by blast
  qed
  ultimately show ?thesis unfolding solution_edges_def by auto
qed

lemma finished_solution:
  assumes inv: "sv_inv cat input reqs st" and v: "validated st" and u: "unresolved st = None"
  shows "solution cat input reqs (bm_get (sv_selected st))"
    and "length (sv_edges st) = card (solution_edges (bm_get (sv_selected st)))"
proof -
  let ?\<sigma> = "bm_get (sv_selected st)"
  have core: "sv_core cat input st" using inv by (simp add: sv_inv_def)
  have dom: "dom ?\<sigma> = set (bm_keys (sv_selected st))"
    using bm_get_None_iff[of "sv_selected st"] by (auto simp: dom_def)
  have sub: "set (bm_keys (sv_selected st)) \<subseteq> set (bm_keys (sv_constraints st))"
  proof
    fix p assume "p \<in> set (bm_keys (sv_selected st))"
    then obtain e where "bm_get (sv_selected st) p = Some e" using dom by blast
    then show "p \<in> set (bm_keys (sv_constraints st))" by (rule sv_core_selected(1)[OF core])
  qed
  then have "card (set (bm_keys (sv_selected st))) \<le> card (set (bm_keys (sv_constraints st)))"
    by (intro card_mono) auto
  also have "\<dots> \<le> length (sv_constraints st)"
    using card_length[of "bm_keys (sv_constraints st)"] by (simp add: bm_keys_def)
  finally have card: "card (dom ?\<sigma>) \<le> MAX_SELECTED_PACKAGES" using v dom by (simp add: validated_def)
  show n: "length (sv_edges st) = card (solution_edges ?\<sigma>)"
    using sv_core_ok(3)[OF core] finished_edges[OF inv, symmetric]
    by (simp add: distinct_card bs_ok_def strict_sorted_iff)
  have reqs: "\<exists>e. ?\<sigma> (pq_package rq) = Some e \<and> range_contains (pq_range rq) (en_version e)"
    if "rq \<in> set reqs" for rq
  proof -
    have "has_constraint st (pq_package rq) (CRange (pq_range rq))" using inv that by (simp add: sv_inv_def)
    from finished_selects[OF inv u this] show ?thesis by simp
  qed
  have deps: "\<exists>e'. ?\<sigma> (co_package d) = Some e' \<and> en_version e' = w"
    if "?\<sigma> p = Some e" "(d, w) \<in> set (entry_deps e)" for p e d w
  proof -
    have "deps_in st e (entry_deps e)" using inv that(1) unfolding sv_inv_def by blast
    then have "has_constraint st (co_package d) (CExact w)" using that(2) unfolding deps_in_def by blast
    from finished_selects[OF inv u this] show ?thesis by auto
  qed
  show "solution cat input reqs ?\<sigma>"
    unfolding solution_def
  proof (intro conjI allI impI ballI)
    show "card (solution_edges ?\<sigma>) \<le> MAX_EDGES" "acyclic (to_packages ` solution_edges ?\<sigma>)"
      using v n finished_edges[OF inv] by (simp_all add: validated_def)
    show "finite (dom ?\<sigma>)" by (simp add: dom)
  qed (use reqs deps sv_core_selected[OF core] card in auto)
qed

section \<open>Solving\<close>

lemma solve_spec:
  assumes cat: "catalog_ok cat"
  shows "search_spec cat input reqs (\<lambda>\<sigma>. compat \<sigma> (initial_state reqs))
     (visit input (fold bs_insert (ri_allowed input) []) cat (initial_state reqs) s)"
proof (rule search_correct(1)[OF cat])
  have "set (fold bs_insert xs ys) = set xs \<union> set ys" for xs ys :: "string list"
    by (induction xs arbitrary: ys) auto
  then show "set (fold bs_insert (ri_allowed input) []) = set (ri_allowed input)" by simp
qed (rule initial_inv, rule initial_validated)

lemma solve_sound:
  assumes cat: "catalog_ok cat" and s: "solve input reqs cat work = Ok (sol, work')"
  shows "solution cat input reqs (bm_get (so_selected sol))"
    and "so_edges sol = card (solution_edges (bm_get (so_selected sol)))"
    and "so_depth sol \<le> MAX_DEPTH"
proof -
  obtain st s' where st: "visit input (fold bs_insert (ri_allowed input) []) cat (initial_state reqs)
         \<lparr>se_work = work, se_decisions = 0, se_policy = False, se_structural = False\<rparr> = Ok (Some st, s')"
    and sol: "so_selected sol = sv_selected st" "so_edges sol = length (sv_edges st)" "so_depth sol = sv_depth st"
    using s by (auto simp: solve_def res_iff split: option.splits)
  have inv: "sv_inv cat input reqs st" "validated st" "unresolved st = None"
    using solve_spec[OF cat, of input reqs] st unfolding search_spec_def by blast+
  show "solution cat input reqs (bm_get (so_selected sol))"
    "so_edges sol = card (solution_edges (bm_get (so_selected sol)))" "so_depth sol \<le> MAX_DEPTH"
    using finished_solution[OF inv] inv(2) by (simp_all add: sol validated_def)
qed

lemma solve_complete:
  assumes cat: "catalog_ok cat" and s: "solution cat input reqs \<sigma>"
  shows "(\<exists>sol work'. solve input reqs cat work = Ok (sol, work'))
     \<or> (\<exists>d. solve input reqs cat work = Err d \<and> d_code d = ''SPX-PR505'')"
proof -
  let ?v = "visit input (fold bs_insert (ri_allowed input) []) cat (initial_state reqs)
         \<lparr>se_work = work, se_decisions = 0, se_policy = False, se_structural = False\<rparr>"
  have spec: "bounded_failure ?v" "\<And>s'. ?v \<noteq> Ok (None, s')"
    using solve_spec[OF cat, of input reqs] initial_compat[OF s] s unfolding search_spec_def by blast+
  then show ?thesis
    unfolding solve_def bounded_failure_def by (cases ?v) (auto split: option.splits prod.splits)
qed

lemma solve_not_Panic:
  assumes "catalog_ok cat"
  shows "solve input reqs cat work \<noteq> Panic"
proof -
  let ?v = "visit input (fold bs_insert (ri_allowed input) []) cat (initial_state reqs)
         \<lparr>se_work = work, se_decisions = 0, se_policy = False, se_structural = False\<rparr>"
  have "?v \<noteq> Panic"
    using solve_spec[OF assms, of input reqs] unfolding search_spec_def bounded_failure_def by blast
  then show ?thesis by (cases ?v) (auto simp: solve_def split: option.splits prod.splits)
qed

section \<open>From the input to the selection\<close>

lemma validate_identity_not_Panic [simp]: "validate_identity s l \<noteq> Panic"
  by (simp add: validate_identity_def)

lemma validate_sorted_not_Panic [simp]: "validate_sorted l p vs \<noteq> Panic"
  by (induction l p vs rule: validate_sorted.induct) (auto simp: res_iff)

lemma validate_requirements_not_Panic [simp]: "validate_requirements row p rs w \<noteq> Panic"
  by (induction row p rs w rule: validate_requirements.induct) (auto simp: res_iff)

lemma validate_input_not_Panic [simp]: "validate_input input w \<noteq> Panic"
  by (auto simp: validate_input_def validate_values_def res_iff)

lemma dependency_versions_not_Panic [simp]: "dependency_versions ds \<noteq> Panic"
  by (induction ds) (auto simp: res_iff)

lemma map_err_Panic_iff [simp]: "map_err f r = Panic \<longleftrightarrow> r = Panic"
  by (cases r) (simp_all add: map_err_def)

lemma authenticate_entries_not_Panic:
  "(\<And>b w. auth b w \<noteq> Panic) \<Longrightarrow> authenticate_entries auth acc bs w \<noteq> Panic"
  by (induction auth acc bs w rule: authenticate_entries.induct) (auto simp: res_iff)

lemma index_entries_not_Panic [simp]: "index_entries i es bp bc \<noteq> Panic"
  by (induction i es bp bc rule: index_entries.induct) (auto simp: Let_def)

lemma check_target_keys_not_Panic [simp]: "check_target_keys iv ks w \<noteq> Panic"
  by (induction iv ks w rule: check_target_keys.induct) (auto simp: res_iff)

lemma check_inventory_not_Panic [simp]: "check_inventory iv es w \<noteq> Panic"
  by (induction iv es w rule: check_inventory.induct) (auto simp: res_iff)

lemma authenticate_not_Panic:
  assumes "\<And>b w. auth b w \<noteq> Panic"
  shows "authenticate auth digest input w \<noteq> Panic"
  using authenticate_entries_not_Panic[of auth, OF assms]
  by (auto simp: authenticate_def Let_def res_iff target_inventory_def split: list.splits)

definition keeps :: "search \<Rightarrow> 'a searched \<Rightarrow> bool" where
  "keeps s r \<longleftrightarrow> (\<forall>x s'. r = Ok (x, s') \<longrightarrow> se_decisions s' = se_decisions s)"

lemma keeps_bind:
  assumes m: "keeps s m" and f: "\<And>x s1. m = Ok (x, s1) \<Longrightarrow> keeps s1 (f (x, s1))"
  shows "keeps s (res_bind m f)"
proof (cases m)
  case (Ok y)
  obtain x s1 where y: "y = (x, s1)" by (cases y)
  have "se_decisions s1 = se_decisions s" using m Ok y by (simp add: keeps_def)
  then show ?thesis using f[of x s1] Ok y by (simp add: keeps_def)
qed (simp_all add: keeps_def)

lemma keeps_calls:
  "keeps s (check_constraints v cs s)" "keeps s (check_target input e s)"
  "keeps s (check_capabilities allowed caps s)"
  by (auto simp: keeps_def dest: check_constraints_result check_target_result check_capabilities_result)

lemma keeps_insert_dependencies: "keeps s (insert_dependencies cat t row rows st s)"
  unfolding keeps_def
proof (intro allI impI)
  fix x s' assume "insert_dependencies cat t row rows st s = Ok (x, s')"
  then show "se_decisions s' = se_decisions s" by (rule insert_dependencies_decisions)
qed

lemma admit_candidate_decisions:
  assumes "admit_candidate input allowed cat st p e s = Ok (r, s')"
  shows "se_decisions s' = se_decisions s"
proof -
  have graph: "keeps s4 (res_bind (validate_graph b) (\<lambda>(ok5, branch2).
      if \<not> ok5 then Ok (None, s4\<lparr>se_structural := True\<rparr>) else Ok (Some branch2, s4)))" for s4 b
    by (auto simp: keeps_def res_iff split: if_splits)
  have "keeps s (admit_candidate input allowed cat st p e s)"
    unfolding admit_candidate_def Let_def
    by (cases "bm_get (sv_constraints st) p")
       (auto intro!: keeps_bind keeps_calls keeps_insert_dependencies graph simp: keeps_def[of _ "Err _"] keeps_def[of _ "Ok _"])
  then show ?thesis using assms by (simp add: keeps_def)
qed

lemma search_decisions:
  "visit input allowed cat st s = Ok (r, s') \<Longrightarrow> se_decisions s \<le> MAX_DECISIONS \<Longrightarrow> se_decisions s' \<le> MAX_DECISIONS"
  "try_candidates input allowed cat st p is s = Ok (r, s') \<Longrightarrow> se_decisions s \<le> MAX_DECISIONS \<Longrightarrow> se_decisions s' \<le> MAX_DECISIONS"
proof (induction input allowed cat st s and input allowed cat st p "is" s
    arbitrary: r s' and r s' rule: visit_try_candidates.induct)
  case (1 input allowed cat st s)
  then show ?case by (auto simp: visit.simps split: option.splits)
next
  case (3 input allowed cat st p i "is" s)
  have dec: "\<not> MAX_DECISIONS \<le> se_decisions s" and i: "\<not> length (ca_entries cat) \<le> i"
    using "3.prems"(1) by (auto simp: res_iff split: if_splits)
  obtain s1 where s1: "pay (s\<lparr>se_decisions := se_decisions s + 1\<rparr>) = Ok s1"
    using "3.prems"(1) dec by (auto simp: res_iff)
  then have le: "se_decisions s1 \<le> MAX_DECISIONS" using dec by (auto dest!: pay_flags)
  obtain x s2 where a: "admit_candidate input allowed cat st p (ca_entries cat ! i) s1 = Ok (x, s2)"
    using "3.prems"(1) dec i s1 by (auto split: res.splits)
  note le2 = le[folded admit_candidate_decisions[OF a]]
  show ?case
  proof (cases x)
    case None
    then obtain s3 where s3: "pay s2 = Ok s3" and t: "try_candidates input allowed cat st p is s3 = Ok (r, s')"
      using "3.prems"(1) dec i s1 a by (auto simp: res_iff)
    show ?thesis
      using "3.IH"(1)[OF dec i a refl None t] s3 le2 by (auto dest!: pay_flags)
  next
    case (Some b)
    obtain y s3 where v: "visit input allowed cat b s2 = Ok (y, s3)"
      using "3.prems"(1) dec i s1 a Some by (auto split: res.splits)
    have le3: "se_decisions s3 \<le> MAX_DECISIONS" using "3.IH"(2)[OF dec i a refl Some v le2] .
    show ?thesis
    proof (cases y)
      case None
      then obtain s4 where s4: "pay s3 = Ok s4" and t: "try_candidates input allowed cat st p is s4 = Ok (r, s')"
        using "3.prems"(1) dec i s1 a Some v by (auto simp: res_iff)
      show ?thesis
        using "3.IH"(3)[OF dec i a refl Some v refl None t] s4 le3 by (auto dest!: pay_flags)
    next
      case (Some z)
      then show ?thesis using "3.prems"(1) dec i s1 a \<open>x = Some b\<close> v le3 by simp
    qed
  qed
qed simp

lemma solve_decisions: "solve input reqs cat work = Ok (sol, work') \<Longrightarrow> so_decisions sol \<le> MAX_DECISIONS"
  by (auto simp: solve_def res_iff dest!: search_decisions(1) split: option.splits)

section \<open>A small catalog\<close>

text \<open>Package \<open>a\<close> at versions 1.0.0 and 1.1.0, the newer one needing \<open>b\<close> 1.0.0.\<close>

definition sample_subject :: "string \<Rightarrow> string \<Rightarrow> coordinate list \<Rightarrow> resolution_subject" where
  "sample_subject p v ds =
     \<lparr>rs_coordinate = Coordinate p v, rs_digest = [], rs_bytes = 1, rs_dependencies = ds,
      rs_capabilities = [], rs_targets = [(''native64'', ''available'')]\<rparr>"

definition sample_auth :: authenticator where
  "sample_auth bytes work =
     (if bytes = ''A'' then Ok (sample_subject ''a'' ''1.0.0'' [], work)
      else if bytes = ''B'' then Ok (sample_subject ''a'' ''1.1.0'' [Coordinate ''b'' ''1.0.0''], work)
      else if bytes = ''C'' then Ok (sample_subject ''b'' ''1.0.0'' [], work)
      else Err (authentication_error ''unknown subject''))"

definition sample_input :: "string list \<Rightarrow> resolution_input" where
  "sample_input subjects =
     \<lparr>ri_requirements = [\<lparr>rq_package = ''a'', rq_range = ''^1.0.0''\<rparr>], ri_subjects = subjects,
      ri_target = ''native64'', ri_allowed = []\<rparr>"

lemma sample_resolved:
  "(case build_solved sample_auth (\<lambda>_ _. []) (sample_input [''A'', ''B'', ''C'']) of
     Ok (_, _, sol, _) \<Rightarrow> map (\<lambda>(p, e). (p, co_version (en_coordinate e))) (so_selected sol)
        = [(''a'', ''1.1.0''), (''b'', ''1.0.0'')]
   | _ \<Rightarrow> False)"
  by code_simp

section \<open>Properties\<close>

lemma build_solved_Ok:
  assumes "build_solved auth digest input = Ok (reqs, cat, sol, work)"
  obtains w1 w2 where "validate_input input 0 = Ok (reqs, w1)" "authenticate auth digest input w1 = Ok (cat, w2)"
    "solve input reqs cat w2 = Ok (sol, work)"
  using assms by (auto simp: build_solved_def res_iff split: if_splits)

text \<open>
  C1: what the resolver selects is a solution: every requirement is met by the selected version
  of its package, every selected entry comes from the authenticated catalog, is available on the
  requested target and needs only allowed capabilities, every dependency is selected at exactly
  its version, there is no dependency cycle, and the package, edge, depth and decision bounds hold.
\<close>

theorem resolver_sound:
  assumes "build_solved auth digest input = Ok (reqs, cat, sol, work)"
  shows "solution cat input reqs (bm_get (so_selected sol))
     \<and> so_edges sol = card (solution_edges (bm_get (so_selected sol)))
     \<and> so_depth sol \<le> MAX_DEPTH \<and> so_decisions sol \<le> MAX_DECISIONS"
proof -
  from assms obtain w1 w2 where a: "authenticate auth digest input w1 = Ok (cat, w2)"
    and s: "solve input reqs cat w2 = Ok (sol, work)" by (rule build_solved_Ok)
  show ?thesis
    using solve_sound[OF catalog_ok_authenticate[OF a] s] solve_decisions[OF s] by simp
qed

lemma sample_build:
  "\<exists>reqs cat sol work. build_solved sample_auth (\<lambda>_ _. []) (sample_input [''A'', ''B'', ''C'']) = Ok (reqs, cat, sol, work)
     \<and> map (\<lambda>(p, e). (p, co_version (en_coordinate e))) (so_selected sol) = [(''a'', ''1.1.0''), (''b'', ''1.0.0'')]"
  using sample_resolved by (auto split: res.splits)

theorem resolver_sound_witness:
  "\<exists>reqs cat sol work. build_solved sample_auth (\<lambda>_ _. []) (sample_input [''A'', ''B'', ''C'']) = Ok (reqs, cat, sol, work)
     \<and> solution cat (sample_input [''A'', ''B'', ''C'']) reqs (bm_get (so_selected sol)) \<and> so_depth sol \<le> 32"
  using sample_build resolver_sound[of sample_auth "\<lambda>_ _. []" "sample_input [''A'', ''B'', ''C'']"]
  by (fastforce simp: MAX_DEPTH_def)

text \<open>
  C3: the search misses no solution: if the authenticated catalog has one for the parsed
  requirements, the resolver selects one, or it stops with the bound error SPX-PR505 (the work or
  decision counter ran out); it never reports that no package graph exists.
\<close>

theorem resolver_complete:
  assumes "validate_input input 0 = Ok (reqs, w1)" and "authenticate auth digest input w1 = Ok (cat, w2)"
    and "bs_contains (ca_target_inventory cat) (ri_target input)" and "solution cat input reqs \<sigma>"
  shows "(\<exists>sol work. build_solved auth digest input = Ok (reqs, cat, sol, work))
     \<or> (\<exists>d. build_solved auth digest input = Err d \<and> d_code d = ''SPX-PR505'')"
  using solve_complete[OF catalog_ok_authenticate[OF assms(2)] assms(4), of w2] assms(1-3)
  by (auto simp: build_solved_def)

theorem resolver_complete_witness:
  "\<exists>reqs cat w1 w2 \<sigma>. authenticate sample_auth (\<lambda>_ _. []) (sample_input [''A'', ''B'', ''C'']) w1 = Ok (cat, w2)
     \<and> solution cat (sample_input [''A'', ''B'', ''C'']) reqs \<sigma>
     \<and> ((\<exists>sol work. build_solved sample_auth (\<lambda>_ _. []) (sample_input [''A'', ''B'', ''C'']) = Ok (reqs, cat, sol, work))
        \<or> (\<exists>d. build_solved sample_auth (\<lambda>_ _. []) (sample_input [''A'', ''B'', ''C'']) = Err d
              \<and> d_code d = ''SPX-PR505''))"
proof -
  let ?input = "sample_input [''A'', ''B'', ''C'']"
  obtain reqs cat sol work where b: "build_solved sample_auth (\<lambda>_ _. []) ?input = Ok (reqs, cat, sol, work)"
    using sample_build by blast
  then obtain w1 w2 where v: "validate_input ?input 0 = Ok (reqs, w1)"
    and a: "authenticate sample_auth (\<lambda>_ _. []) ?input w1 = Ok (cat, w2)"
    and s: "solve ?input reqs cat w2 = Ok (sol, work)" by (rule build_solved_Ok)
  have t: "bs_contains (ca_target_inventory cat) (ri_target ?input)"
    using b v a by (auto simp: build_solved_def split: if_splits)
  note sol = solve_sound(1)[OF catalog_ok_authenticate[OF a] s]
  show ?thesis using resolver_complete[OF v a t sol] a sol by blast
qed

text \<open>
  whatever the input, the resolver returns a value or an error and never panics, as long as
  the subject authenticator does not: no index is out of range, no counter underflows, no table
  lookup of the graph check fails.
\<close>

theorem resolver_never_panics:
  assumes "\<And>bytes work. auth bytes work \<noteq> Panic"
  shows "build_solved auth digest input \<noteq> Panic"
proof -
  have "solve input reqs cat w2 \<noteq> Panic" if "authenticate auth digest input w1 = Ok (cat, w2)" for reqs cat w1 w2
    using solve_not_Panic[OF catalog_ok_authenticate[OF that]] .
  then show ?thesis
    using authenticate_not_Panic[of auth, OF assms]
    by (auto simp: build_solved_def res_iff split: if_splits)
qed

theorem resolver_never_panics_witness: "build_solved sample_auth (\<lambda>_ _. []) (sample_input [''A'']) \<noteq> Panic"
  by (rule resolver_never_panics) (simp add: sample_auth_def)

text \<open>
  a branch of the search keeps its invariant: when a candidate is admitted, the new branch
  again has every selected entry admitted by all constraints on it, all its dependencies pushed
  as exact constraints and edges, every root requirement kept, and it satisfies the graph bounds.
\<close>

theorem admit_keeps_invariant:
  assumes "admit_candidate input allowed cat st p e s = Ok (Some b, s')"
    and "set allowed = set (ri_allowed input)" and "sv_inv cat input reqs st"
    and "p \<in> set (bm_keys (sv_constraints st))" and "p \<notin> set (bm_keys (sv_selected st))"
    and "e \<in> set (ca_entries cat)" and "en_package e = p"
  shows "sv_inv cat input reqs b \<and> validated b"
  by (rule admit_correct[OF assms])

definition sample_search :: search where
  "sample_search = \<lparr>se_work = 0, se_decisions = 1, se_policy = False, se_structural = False\<rparr>"

lemma sample_admit:
  "(case build_solved sample_auth (\<lambda>_ _. []) (sample_input [''A'', ''B'', ''C'']) of
     Ok (reqs, cat, _, _) \<Rightarrow>
       (case ca_entries cat of
          e0 # e # _ \<Rightarrow>
            en_package e = ''a'' \<and> bs_contains (bm_keys (sv_constraints (initial_state reqs))) ''a'' \<and>
            (case admit_candidate (sample_input [''A'', ''B'', ''C'']) [] cat (initial_state reqs) ''a'' e sample_search of
               Ok (Some _, _) \<Rightarrow> True | _ \<Rightarrow> False)
        | _ \<Rightarrow> False)
   | _ \<Rightarrow> False)"
  by code_simp

theorem admit_keeps_invariant_witness:
  "\<exists>reqs cat e b s'. admit_candidate (sample_input [''A'', ''B'', ''C'']) [] cat (initial_state reqs) ''a'' e
       sample_search = Ok (Some b, s')
     \<and> sv_inv cat (sample_input [''A'', ''B'', ''C'']) reqs b \<and> validated b"
proof -
  obtain reqs cat e0 e es b s' where e: "ca_entries cat = e0 # e # es" "en_package e = ''a''"
      "''a'' \<in> set (bm_keys (sv_constraints (initial_state reqs)))"
    and a: "admit_candidate (sample_input [''A'', ''B'', ''C'']) [] cat (initial_state reqs) ''a'' e sample_search
      = Ok (Some b, s')"
    using sample_admit by (auto simp: bs_contains_def split: res.splits option.splits list.splits prod.splits)
  have free: "''a'' \<notin> set (bm_keys (sv_selected (initial_state reqs)))"
    by (simp add: initial_state_def bm_empty_def bm_keys_def)
  have allowed: "set [] = set (ri_allowed (sample_input [''A'', ''B'', ''C'']))" by (simp add: sample_input_def)
  have "sv_inv cat (sample_input [''A'', ''B'', ''C'']) reqs b \<and> validated b"
    by (rule admit_keeps_invariant[OF a allowed initial_inv e(3) free _ e(2)]) (simp add: e(1))
  with a show ?thesis by blast
qed

text \<open>
  C32: Kahn's algorithm as the code runs it, with its ready set, indegree and depth tables, ends on
  every edge list over the packages, never underflows a counter, and counts every package exactly
  when the edges are acyclic.
\<close>

theorem kahn_decides_acyclic:
  assumes "fst ` set edges \<subseteq> set keys" and "snd ` set edges \<subseteq> set keys"
  shows "\<exists>seen depth. run_kahn keys edges = Ok (Some (seen, card (set keys), depth))
     \<and> (seen = card (set keys) \<longleftrightarrow> acyclic (set edges)) \<and> depth \<le> card (set keys) + 1"
  by (rule run_kahn_correct[OF assms])

theorem kahn_decides_acyclic_witness:
  "\<not> acyclic (set [(''a'', ''b''), (''b'', ''a'')])
   \<and> run_kahn [''a'', ''b''] [(''a'', ''b''), (''b'', ''a'')] = Ok (Some (0, 2, 1))"
proof -
  have k: "run_kahn [''a'', ''b''] [(''a'', ''b''), (''b'', ''a'')] = Ok (Some (0, 2, 1))" by code_simp
  then show ?thesis using kahn_decides_acyclic[of "[(''a'', ''b''), (''b'', ''a'')]" "[''a'', ''b'']"] by simp
qed

end
