(* ===== verification/DatabaseFixture.thy ===== *)
theory DatabaseFixture
  imports OrdMap Text "HOL-Library.List_Lexorder"
begin

text \<open>
  The in-memory relational fixture of \<open>src/database_fixture.rs\<close>: tables, one transaction with its
  snapshot, and the migration ledger.  An operation takes the fixture and returns its result with
  the fixture after the call, also on the error paths that change it.  A result of \<open>Panic\<close>
  carries the fixture unchanged; no caller observes it.
\<close>

section \<open>Values and columns\<close>

datatype cell =
    DV_I64 i64
  | DV_U8 u8
  | DV_Bool bool
  | DV_Usize u64
  | DV_Bytes "u8 list"

fun cell_tag :: "cell \<Rightarrow> u8" where
  "cell_tag (DV_I64 _) = 0"
| "cell_tag (DV_U8 _) = 1"
| "cell_tag (DV_Bool _) = 2"
| "cell_tag (DV_Usize _) = 3"
| "cell_tag (DV_Bytes _) = 4"

record column =
  cl_name :: string
  cl_tag :: u8

definition safe_byte :: "char \<Rightarrow> bool" where
  "safe_byte b \<longleftrightarrow> is_alnum (of_char b) \<or> b = CHR ''_''"

definition identifier_is_valid :: "string \<Rightarrow> bool" where
  "identifier_is_valid name \<longleftrightarrow>
     (if name = [] \<or> 63 < length name then False
      else safe_byte (hd name) \<and> \<not> byte_digit (hd name) \<and> list_all safe_byte (tl name))"

section \<open>The transaction state\<close>

datatype transaction_state = TxNone | TxOpen | TxCommitted | TxRolledBack | TxFailed

fun next_on_begin :: "transaction_state \<Rightarrow> transaction_state" where
  "next_on_begin TxOpen = TxFailed"
| "next_on_begin _ = TxOpen"

fun next_on_commit :: "transaction_state \<Rightarrow> transaction_state" where
  "next_on_commit TxOpen = TxCommitted"
| "next_on_commit _ = TxFailed"

fun next_on_rollback :: "transaction_state \<Rightarrow> transaction_state" where
  "next_on_rollback TxOpen = TxRolledBack"
| "next_on_rollback _ = TxFailed"

fun next_on_connection_lost :: "transaction_state \<Rightarrow> transaction_state" where
  "next_on_connection_lost TxOpen = TxFailed"
| "next_on_connection_lost other = other"

datatype fixture_error =
    UnknownTable
  | UnsafeIdentifier
  | RowShapeMismatch
  | NoOpenTransaction
  | TransactionAlreadyOpen
  | TransactionNotOpen
  | RowLimitExceeded

datatype migration_outcome = Applied | AlreadyApplied
datatype migration_error = OutOfOrder | MissingPredecessor | ChecksumDrift

record table =
  tb_columns :: "column list"
  tb_rows :: "cell list list"

definition row_matches_schema :: "column list \<Rightarrow> cell list \<Rightarrow> bool" where
  "row_matches_schema columns row \<longleftrightarrow>
     length columns = length row \<and> list_all (\<lambda>(c, v). cl_tag c = cell_tag v) (zip columns row)"

record database =
  db_tables :: "(string, table) bmap"
  db_snapshot :: "(string, table) bmap option"
  db_transaction :: transaction_state
  db_applied :: "(u8 \<times> u8) list"

type_synonym ('e, 'a) db_result = "('e, 'a) res \<times> database"

section \<open>Operations\<close>

definition db_new :: database where
  "db_new = \<lparr>db_tables = bm_empty, db_snapshot = None, db_transaction = TxNone, db_applied = []\<rparr>"

definition create_table :: "string \<Rightarrow> column list \<Rightarrow> database \<Rightarrow> (fixture_error, unit) db_result" where
  "create_table name columns db =
     (if \<not> identifier_is_valid name \<or> list_ex (\<lambda>c. \<not> identifier_is_valid (cl_name c)) columns
      then (Err UnsafeIdentifier, db)
      else (Ok (), db\<lparr>db_tables :=
                     bm_insert name \<lparr>tb_columns = columns, tb_rows = []\<rparr> (db_tables db)\<rparr>))"

definition db_begin :: "database \<Rightarrow> (fixture_error, unit) db_result" where
  "db_begin db =
     (let n = next_on_begin (db_transaction db) in
      if n \<noteq> TxOpen then (Err TransactionAlreadyOpen, db\<lparr>db_transaction := n\<rparr>)
      else (Ok (), db\<lparr>db_transaction := n, db_snapshot := Some (db_tables db)\<rparr>))"

definition db_commit :: "database \<Rightarrow> (fixture_error, unit) db_result" where
  "db_commit db =
     (let n = next_on_commit (db_transaction db) in
      if n \<noteq> TxCommitted then (Err NoOpenTransaction, db\<lparr>db_transaction := n\<rparr>)
      else (Ok (), db\<lparr>db_transaction := n, db_snapshot := None\<rparr>))"

definition restore :: "database \<Rightarrow> database" where
  "restore db =
     (case db_snapshot db of
        None \<Rightarrow> db
      | Some snapshot \<Rightarrow> db\<lparr>db_tables := snapshot, db_snapshot := None\<rparr>)"

definition db_rollback :: "database \<Rightarrow> (fixture_error, unit) db_result" where
  "db_rollback db =
     (let n = next_on_rollback (db_transaction db) in
      if n \<noteq> TxRolledBack then (Err NoOpenTransaction, db\<lparr>db_transaction := n\<rparr>)
      else (Ok (), restore (db\<lparr>db_transaction := n\<rparr>)))"

definition connection_lost :: "database \<Rightarrow> database" where
  "connection_lost db =
     (let db' = db\<lparr>db_transaction := next_on_connection_lost (db_transaction db)\<rparr> in
      if db_transaction db = TxOpen then restore db' else db')"

definition db_insert :: "string \<Rightarrow> cell list \<Rightarrow> database \<Rightarrow> (fixture_error, unit) db_result" where
  "db_insert name row db =
     (case bm_get (db_tables db) name of
        None \<Rightarrow> (Err UnknownTable, db)
      | Some t \<Rightarrow>
        if \<not> row_matches_schema (tb_columns t) row then (Err RowShapeMismatch, db)
        else (Ok (), db\<lparr>db_tables := bm_insert name (t\<lparr>tb_rows := tb_rows t @ [row]\<rparr>) (db_tables db)\<rparr>))"

definition row_get :: "nat \<Rightarrow> cell list \<Rightarrow> cell option" where
  "row_get i row = (if i < length row then Some (row ! i) else None)"

text \<open>The row loop of \<open>select_eq\<close>; \<open>n\<close> is how many rows have matched so far.\<close>

fun select_rows :: "nat \<Rightarrow> cell \<Rightarrow> nat \<Rightarrow> nat \<Rightarrow> cell list list \<Rightarrow> cell list list" where
  "select_rows column v max_rows n [] = []"
| "select_rows column v max_rows n (row # rows) =
     (if row_get column row = Some v
      then if max_rows \<le> n + 1 then [row] else row # select_rows column v max_rows (n + 1) rows
      else select_rows column v max_rows n rows)"

definition select_eq ::
  "string \<Rightarrow> nat \<Rightarrow> cell \<Rightarrow> nat \<Rightarrow> database \<Rightarrow> (fixture_error, cell list list) res" where
  "select_eq name column v max_rows db =
     (case bm_get (db_tables db) name of
        None \<Rightarrow> Err UnknownTable
      | Some t \<Rightarrow> Ok (select_rows column v max_rows 0 (tb_rows t)))"

definition row_count :: "string \<Rightarrow> database \<Rightarrow> (fixture_error, nat) res" where
  "row_count name db =
     (case bm_get (db_tables db) name of None \<Rightarrow> Err UnknownTable | Some t \<Rightarrow> Ok (length (tb_rows t)))"

text \<open>The row loop of \<open>update_column\<close>: an error leaves the rows before it rewritten.\<close>

fun update_rows ::
  "nat \<Rightarrow> cell \<Rightarrow> nat \<Rightarrow> cell \<Rightarrow> nat \<Rightarrow> cell list list \<Rightarrow> (fixture_error, nat) res \<times> cell list list" where
  "update_rows kc kv sc nv n [] = (Ok n, [])"
| "update_rows kc kv sc nv n (row # rows) =
     (if row_get kc row \<noteq> Some kv
      then let (r, rows') = update_rows kc kv sc nv n rows in (r, row # rows')
      else case row_get sc row of
             Some existing \<Rightarrow>
               if cell_tag existing = cell_tag nv
               then let (r, rows') = update_rows kc kv sc nv (n + 1) rows in (r, row[sc := nv] # rows')
               else (Err RowShapeMismatch, row # rows)
           | None \<Rightarrow> (Err RowShapeMismatch, row # rows))"

definition update_column ::
  "string \<Rightarrow> nat \<Rightarrow> cell \<Rightarrow> nat \<Rightarrow> cell \<Rightarrow> database \<Rightarrow> (fixture_error, nat) db_result" where
  "update_column name kc kv sc nv db =
     (case bm_get (db_tables db) name of
        None \<Rightarrow> (Err UnknownTable, db)
      | Some t \<Rightarrow>
        let (r, rows) = update_rows kc kv sc nv 0 (tb_rows t) in
        (r, db\<lparr>db_tables := bm_insert name (t\<lparr>tb_rows := rows\<rparr>) (db_tables db)\<rparr>))"

definition apply_migration ::
  "u8 \<Rightarrow> u8 \<Rightarrow> database \<Rightarrow> (migration_error, migration_outcome) db_result" where
  "apply_migration mid checksum db =
     (case List.find (\<lambda>(applied_id, _). applied_id = mid) (db_applied db) of
        Some (_, recorded) \<Rightarrow>
          (if recorded = checksum then Ok AlreadyApplied else Err ChecksumDrift, db)
      | None \<Rightarrow>
          let last_applied = (if db_applied db = [] then 0 else fst (last (db_applied db))) in
          if mid \<le> last_applied then (Err OutOfOrder, db)
          else (case u_add (word_of_nat (length (db_applied db))) 1 of
                  Ok next_id \<Rightarrow>
                    if mid \<noteq> next_id then (Err MissingPredecessor, db)
                    else (Ok Applied, db\<lparr>db_applied := db_applied db @ [(mid, checksum)]\<rparr>)
                | Err e \<Rightarrow> (Err e, db)
                | Panic \<Rightarrow> (Panic, db)))"

section \<open>Runs\<close>

text \<open>The calls a client makes; \<open>DB_Select\<close> and \<open>row_count\<close> only read.\<close>

datatype db_call =
    Db_Create string "column list"
  | Db_Begin
  | Db_Commit
  | Db_Rollback
  | Db_Lost
  | Db_Insert string "cell list"
  | Db_Update string nat cell nat cell
  | Db_Migrate u8 u8

fun db_step :: "database \<Rightarrow> db_call \<Rightarrow> database" where
  "db_step db (Db_Create name columns) = snd (create_table name columns db)"
| "db_step db Db_Begin = snd (db_begin db)"
| "db_step db Db_Commit = snd (db_commit db)"
| "db_step db Db_Rollback = snd (db_rollback db)"
| "db_step db Db_Lost = connection_lost db"
| "db_step db (Db_Insert name row) = snd (db_insert name row db)"
| "db_step db (Db_Update name kc kv sc nv) = snd (update_column name kc kv sc nv db)"
| "db_step db (Db_Migrate mid checksum) = snd (apply_migration mid checksum db)"

text \<open>A call that only touches the tables.\<close>

fun data_call :: "db_call \<Rightarrow> bool" where
  "data_call (Db_Create _ _) = True"
| "data_call (Db_Insert _ _) = True"
| "data_call (Db_Update _ _ _ _ _) = True"
| "data_call _ = False"

section \<open>The invariant of the fixture\<close>

definition table_ok :: "table \<Rightarrow> bool" where
  "table_ok t \<longleftrightarrow> (\<forall>c \<in> set (tb_columns t). identifier_is_valid (cl_name c))
     \<and> (\<forall>row \<in> set (tb_rows t). row_matches_schema (tb_columns t) row)"

definition tables_ok :: "(string, table) bmap \<Rightarrow> bool" where
  "tables_ok m \<longleftrightarrow> bm_ok m \<and> (\<forall>name t. bm_get m name = Some t \<longrightarrow> identifier_is_valid name \<and> table_ok t)"

definition ledger_ok :: "(u8 \<times> u8) list \<Rightarrow> bool" where
  "ledger_ok applied \<longleftrightarrow> map (unat \<circ> fst) applied = [1..<Suc (length applied)]"

definition db_ok :: "database \<Rightarrow> bool" where
  "db_ok db \<longleftrightarrow> tables_ok (db_tables db)
     \<and> (\<forall>m. db_snapshot db = Some m \<longrightarrow> tables_ok m)
     \<and> (db_transaction db = TxOpen \<longrightarrow> db_snapshot db \<noteq> None)
     \<and> ledger_ok (db_applied db)"

lemma tables_ok_insert:
  "tables_ok m \<Longrightarrow> identifier_is_valid name \<Longrightarrow> table_ok t \<Longrightarrow> tables_ok (bm_insert name t m)"
  by (simp add: tables_ok_def)

lemma tables_ok_get:
  "tables_ok m \<Longrightarrow> bm_get m name = Some t \<Longrightarrow> identifier_is_valid name \<and> table_ok t"
  by (simp add: tables_ok_def)

lemma row_matches_update:
  assumes "row_matches_schema cs row" "row_get sc row = Some existing" "cell_tag existing = cell_tag nv"
  shows "row_matches_schema cs (row[sc := nv])"
  using assms
  by (auto simp: row_matches_schema_def row_get_def list_all_length nth_list_update split: if_splits)

lemma update_rows_matches:
  "\<forall>row \<in> set rows. row_matches_schema cs row \<Longrightarrow> update_rows kc kv sc nv n rows = (r, rows') \<Longrightarrow>
     \<forall>row \<in> set rows'. row_matches_schema cs row"
proof (induction rows arbitrary: n r rows')
  case (Cons row rows)
  have rest: "\<forall>row \<in> set rows1. row_matches_schema cs row" if "update_rows kc kv sc nv m rows = (r1, rows1)" for m r1 rows1
    using Cons.IH[OF _ that] Cons.prems(1) by simp
  show ?case
  proof (cases "row_get kc row = Some kv \<and> (\<exists>x. row_get sc row = Some x \<and> cell_tag x = cell_tag nv)")
    case True
    then obtain x where x: "row_get kc row = Some kv" "row_get sc row = Some x" "cell_tag x = cell_tag nv" by blast
    obtain r1 rows1 where u: "update_rows kc kv sc nv (n + 1) rows = (r1, rows1)" by fastforce
    have "rows' = row[sc := nv] # rows1" using Cons.prems(2) x u by simp
    moreover have "row_matches_schema cs (row[sc := nv])"
      using row_matches_update[OF _ x(2,3), of cs] Cons.prems(1) by simp
    ultimately show ?thesis using rest[OF u] by simp
  next
    case False
    then have "rows' = row # rows \<or> (\<exists>r1 rows1. update_rows kc kv sc nv n rows = (r1, rows1) \<and> rows' = row # rows1)"
      using Cons.prems(2) by (auto split: if_splits option.splits prod.splits)
    then show ?thesis using Cons.prems(1) rest by auto
  qed
qed simp

section \<open>The migration ledger\<close>

lemma ledger_ok_last:
  assumes "ledger_ok applied" "applied \<noteq> []"
  shows "unat (fst (last applied)) = length applied"
proof -
  have "unat (fst (last applied)) = last (map (unat \<circ> fst) applied)" using assms(2) by (simp add: last_map)
  also have "\<dots> = length applied" using assms by (cases applied) (auto simp: ledger_ok_def)
  finally show ?thesis .
qed

lemma ledger_ok_length:
  assumes "ledger_ok applied"
  shows "length applied \<le> 255"
proof (cases "applied = []")
  case False
  then show ?thesis
    using ledger_ok_last[OF assms] unsigned_less[of "fst (last applied)", where 'a = nat] by simp
qed simp

lemma apply_migration_cases:
  assumes ok: "ledger_ok (db_applied db)"
  shows "(fst (apply_migration mid checksum db) = Ok Applied
            \<and> snd (apply_migration mid checksum db) = db\<lparr>db_applied := db_applied db @ [(mid, checksum)]\<rparr>
            \<and> unat mid = length (db_applied db) + 1)
         \<or> (fst (apply_migration mid checksum db) \<notin> {Panic, Ok Applied} \<and> snd (apply_migration mid checksum db) = db)"
proof (cases "List.find (\<lambda>(applied_id, _). applied_id = mid) (db_applied db)")
  case (Some a)
  then show ?thesis by (cases a) (simp add: apply_migration_def)
next
  case None
  let ?last = "if db_applied db = [] then 0 else fst (last (db_applied db))"
  let ?n = "length (db_applied db)"
  have n: "unat (word_of_nat ?n :: u8) = ?n"
    using ledger_ok_length[OF ok] by (intro unat_word_of_nat) simp
  show ?thesis
  proof (cases "mid \<le> ?last")
    case True
    then show ?thesis using None by (simp add: apply_migration_def)
  next
    case False
    then have "unat ?last < unat mid" by (simp add: word_less_nat_alt not_le)
    then have lt: "?n < 255"
      using ledger_ok_last[OF ok] unsigned_less[of mid, where 'a = nat] by (cases "db_applied db = []") auto
    then have add: "u_add (word_of_nat ?n) 1 = (Ok (word_of_nat ?n + 1) :: (migration_error, u8) res)"
      by (simp add: u_add_def u_checked_add_def n)
    have val: "unat (word_of_nat ?n + 1 :: u8) = ?n + 1"
      using lt n by (simp add: unat_word_ariths)
    show ?thesis using None False add val by (auto simp: apply_migration_def Let_def)
  qed
qed

lemma ledger_ok_snoc: "ledger_ok applied \<Longrightarrow> unat mid = length applied + 1 \<Longrightarrow> ledger_ok (applied @ [(mid, c)])"
  by (simp add: ledger_ok_def)

section \<open>Every call keeps the invariant\<close>

lemma db_ok_new: "db_ok db_new"
  by (simp add: db_ok_def db_new_def tables_ok_def ledger_ok_def)

lemma db_ok_restore: "db_ok db \<Longrightarrow> db_transaction db \<noteq> TxOpen \<Longrightarrow> db_ok (restore db)"
  by (simp add: db_ok_def restore_def split: option.splits)

lemma db_ok_tables: "db_ok db \<Longrightarrow> tables_ok m \<Longrightarrow> db_ok (db\<lparr>db_tables := m\<rparr>)"
  by (simp add: db_ok_def)

lemma db_ok_transaction: "db_ok db \<Longrightarrow> tx \<noteq> TxOpen \<Longrightarrow> db_ok (db\<lparr>db_transaction := tx\<rparr>)"
  by (simp add: db_ok_def)

lemma db_ok_step: "db_ok db \<Longrightarrow> db_ok (db_step db c)"
proof (cases c)
  case (Db_Create name columns)
  assume "db_ok db"
  then show ?thesis
    by (auto simp: Db_Create create_table_def list_ex_iff table_ok_def db_ok_def intro!: tables_ok_insert)
next
  case (Db_Insert name row)
  assume ok: "db_ok db"
  show ?thesis
  proof (cases "bm_get (db_tables db) name")
    case None
    then show ?thesis using ok by (simp add: Db_Insert db_insert_def)
  next
    case (Some t)
    then have "identifier_is_valid name" "table_ok t" using ok tables_ok_get by (auto simp: db_ok_def)
    then show ?thesis
      using ok Some by (auto simp: Db_Insert db_insert_def table_ok_def db_ok_def intro!: tables_ok_insert)
  qed
next
  case (Db_Update name kc kv sc nv)
  assume ok: "db_ok db"
  show ?thesis
  proof (cases "bm_get (db_tables db) name")
    case None
    then show ?thesis using ok by (simp add: Db_Update update_column_def)
  next
    case (Some t)
    obtain r rows where u: "update_rows kc kv sc nv 0 (tb_rows t) = (r, rows)" by fastforce
    have t: "identifier_is_valid name" "table_ok t" using ok tables_ok_get[OF _ Some] by (auto simp: db_ok_def)
    then have "table_ok (t\<lparr>tb_rows := rows\<rparr>)"
      using update_rows_matches[OF _ u] by (simp add: table_ok_def)
    then show ?thesis
      using ok Some u t by (auto simp: Db_Update update_column_def db_ok_def intro!: tables_ok_insert)
  qed
next
  case (Db_Migrate mid checksum)
  assume ok: "db_ok db"
  then have "ledger_ok (db_applied db)" by (simp add: db_ok_def)
  from apply_migration_cases[OF this, of mid checksum] ok show ?thesis
    by (auto simp: Db_Migrate db_ok_def ledger_ok_snoc)
next
  case Db_Begin
  assume "db_ok db"
  then show ?thesis by (auto simp: Db_Begin db_begin_def Let_def db_ok_def elim: next_on_begin.elims)
next
  case Db_Commit
  assume "db_ok db"
  then show ?thesis
    by (cases "db_transaction db") (auto simp: Db_Commit db_commit_def Let_def db_ok_def)
next
  case Db_Rollback
  assume "db_ok db"
  then show ?thesis
    by (cases "db_transaction db")
       (auto simp: Db_Rollback db_rollback_def Let_def intro!: db_ok_restore db_ok_transaction)
next
  case Db_Lost
  assume "db_ok db"
  then show ?thesis
    by (cases "db_transaction db")
       (auto simp: Db_Lost connection_lost_def Let_def intro!: db_ok_restore db_ok_transaction)
qed

interpretation db: invariant_machine db_step db_ok
  by unfold_locales (rule db_ok_step)

section \<open>What a call leaves alone\<close>

lemma data_call_frame:
  assumes "data_call c"
  shows "db_snapshot (db_step db c) = db_snapshot db \<and> db_transaction (db_step db c) = db_transaction db
     \<and> db_applied (db_step db c) = db_applied db"
  using assms
  by (cases c) (auto simp: create_table_def db_insert_def update_column_def split: option.splits prod.splits)

lemma migrate_frame:
  "db_snapshot (snd (apply_migration mid c db)) = db_snapshot db
   \<and> db_transaction (snd (apply_migration mid c db)) = db_transaction db
   \<and> db_tables (snd (apply_migration mid c db)) = db_tables db"
  by (auto simp: apply_migration_def Let_def split: option.splits prod.splits res.splits)

lemma data_calls_frame:
  "list_all data_call calls \<Longrightarrow>
     db_snapshot (foldl db_step db calls) = db_snapshot db
     \<and> db_transaction (foldl db_step db calls) = db_transaction db"
  by (induction calls arbitrary: db) (simp_all add: data_call_frame)

section \<open>Properties\<close>

text \<open>
  The invariant of the database fixture: after any sequence of calls on a new fixture every
  table name and column name is a safe identifier, every stored row (live or in the snapshot) has
  the shape its table declares, an open transaction has a snapshot, and the migration ledger is
  the gapless sequence 1, 2, ..., n.
\<close>

theorem db_invariant: "db_ok (foldl db_step db_new calls)"
  by (rule db.inv_run) (rule db_ok_new)

text \<open>
  migrations are gapless and never panic: in any state the fixture reaches, a call either
  applies exactly the next migration, appending it, or changes nothing; the narrowing of the
  ledger length to u8 and the increment cannot overflow.
\<close>

theorem migration_gapless:
  fixes calls
  defines "db \<equiv> foldl db_step db_new calls"
  shows "fst (apply_migration mid checksum db) \<noteq> Panic
     \<and> snd (apply_migration mid checksum db) =
         (if fst (apply_migration mid checksum db) = Ok Applied
          then db\<lparr>db_applied := db_applied db @ [(mid, checksum)]\<rparr> else db)
     \<and> length (db_applied db) \<le> 255"
proof -
  have ok: "ledger_ok (db_applied db)" using db_invariant[of calls] by (simp add: db_ok_def db_def)
  show ?thesis
    using apply_migration_cases[OF ok, of mid checksum] ledger_ok_length[OF ok] by auto
qed

text \<open>
  Rollback and a lost connection restore: whatever tables a transaction creates, inserts into
  or updates, partial updates of failed calls included, rolling back succeeds and the tables are
  those at begin; losing the connection restores them too and leaves the state failed.
\<close>

theorem rollback_restores:
  assumes closed: "db_transaction db \<noteq> TxOpen" and calls: "list_all data_call calls"
  shows "(let db1 = foldl db_step (snd (db_begin db)) calls in
            fst (db_rollback db1) = Ok () \<and> db_tables (snd (db_rollback db1)) = db_tables db
            \<and> db_tables (connection_lost db1) = db_tables db
            \<and> db_transaction (connection_lost db1) = TxFailed)"
proof -
  have b: "db_transaction (snd (db_begin db)) = TxOpen" "db_snapshot (snd (db_begin db)) = Some (db_tables db)"
    using closed by (cases "db_transaction db"; simp add: db_begin_def)+
  show ?thesis
    using data_calls_frame[OF calls, of "snd (db_begin db)"] b
    by (simp add: db_rollback_def connection_lost_def restore_def)
qed

definition sample_table :: "string \<times> column list" where
  "sample_table = (''users'', [\<lparr>cl_name = ''id'', cl_tag = 3\<rparr>])"

theorem rollback_restores_witness:
  "db_tables (snd (db_rollback (foldl db_step (snd (db_begin db_new))
       [Db_Create ''users'' (snd sample_table), Db_Insert ''users'' [DV_Usize 1]]))) = []
   \<and> db_tables (foldl db_step (snd (db_begin db_new))
       [Db_Create ''users'' (snd sample_table), Db_Insert ''users'' [DV_Usize 1]])
     = [(''users'', \<lparr>tb_columns = snd sample_table, tb_rows = [[DV_Usize 1]]\<rparr>)]"
proof -
  have "db_transaction db_new \<noteq> TxOpen" by (simp add: db_new_def)
  from rollback_restores[OF this, of "[Db_Create ''users'' (snd sample_table), Db_Insert ''users'' [DV_Usize 1]]"]
  have "db_tables (snd (db_rollback (foldl db_step (snd (db_begin db_new))
       [Db_Create ''users'' (snd sample_table), Db_Insert ''users'' [DV_Usize 1]]))) = []"
    by (simp add: Let_def db_new_def bm_empty_def)
  moreover have "db_tables (foldl db_step (snd (db_begin db_new))
       [Db_Create ''users'' (snd sample_table), Db_Insert ''users'' [DV_Usize 1]])
     = [(''users'', \<lparr>tb_columns = snd sample_table, tb_rows = [[DV_Usize 1]]\<rparr>)]"
    by code_simp
  ultimately show ?thesis by blast
qed

text \<open>
  A second begin inside an open transaction fails and keeps the writes: the call reports
  \<open>TransactionAlreadyOpen\<close>, commit and rollback then both fail, and the tables keep everything the
  refused transaction wrote, also through a new transaction that is rolled back.
\<close>

theorem nested_begin_keeps_writes:
  assumes "db_transaction db = TxOpen"
  shows "fst (db_begin db) = Err TransactionAlreadyOpen
     \<and> fst (db_rollback (snd (db_begin db))) = Err NoOpenTransaction
     \<and> db_tables (foldl db_step db [Db_Begin, Db_Rollback]) = db_tables db
     \<and> db_tables (foldl db_step db [Db_Begin, Db_Begin, Db_Rollback]) = db_tables db"
  using assms by (simp add: db_begin_def db_rollback_def restore_def)

theorem nested_begin_keeps_writes_witness:
  "db_tables (foldl db_step db_new [Db_Begin, Db_Create ''users'' [], Db_Begin, Db_Rollback])
     = [(''users'', \<lparr>tb_columns = [], tb_rows = []\<rparr>)]"
proof -
  let ?db = "foldl db_step db_new [Db_Begin, Db_Create ''users'' []]"
  have "db_transaction ?db = TxOpen \<and> db_tables ?db = [(''users'', \<lparr>tb_columns = [], tb_rows = []\<rparr>)]"
    by code_simp
  then show ?thesis using nested_begin_keeps_writes[of ?db] by simp
qed

end
