(* ===== verification/DatabaseContract.thy ===== *)
theory DatabaseContract
  imports DatabaseFixture
begin

text \<open>
  The contract of the database fixture (\<open>src/database_fixture.rs\<close>), stated without it: tables are a
  function from names to columns and rows, a store is its durable tables and the tables of the open
  transaction, and every call has its answer and its effect in those terms.  The fixture refines it.
\<close>

section \<open>The ideal store\<close>

type_synonym ideal_tables = "string \<Rightarrow> (column list \<times> cell list list) option"

record ideal_db =
  id_durable :: ideal_tables
  id_pending :: "ideal_tables option"

definition ideal_new :: ideal_db where
  "ideal_new = \<lparr>id_durable = (\<lambda>_. None), id_pending = None\<rparr>"

text \<open>A name is one to 63 letters, digits and underscores, the first of them not a digit.\<close>

definition good_name :: "string \<Rightarrow> bool" where
  "good_name name \<longleftrightarrow> length name \<in> {1..63} \<and> (\<forall>b\<in>set name. safe_byte b) \<and> \<not> byte_digit (hd name)"

definition hit :: "nat \<Rightarrow> cell \<Rightarrow> cell list \<Rightarrow> bool" where
  "hit column v row \<longleftrightarrow> column < length row \<and> row ! column = v"

text \<open>
  The writes, on the tables they write to.  A new table is empty and replaces one of its name; a row
  goes to the end of its table and has its column's tag in every cell; an update rewrites one column
  of every row whose key column holds the key, or is refused and rewrites nothing.
\<close>

type_synonym answer = "(fixture_error, nat option) res"

fun ideal_write :: "db_call \<Rightarrow> ideal_tables \<Rightarrow> answer \<times> ideal_tables" where
  "ideal_write (Db_Create name columns) m =
     (if good_name name \<and> (\<forall>c\<in>set columns. good_name (cl_name c))
      then (Ok None, m(name \<mapsto> (columns, []))) else (Err UnsafeIdentifier, m))"
| "ideal_write (Db_Insert name row) m =
     (case m name of
        None \<Rightarrow> (Err UnknownTable, m)
      | Some (columns, rows) \<Rightarrow>
          if map cell_tag row = map cl_tag columns then (Ok None, m(name \<mapsto> (columns, rows @ [row])))
          else (Err RowShapeMismatch, m))"
| "ideal_write (Db_Update name key_column key set_column v) m =
     (case m name of
        None \<Rightarrow> (Err UnknownTable, m)
      | Some (columns, rows) \<Rightarrow>
          if (\<forall>row\<in>set rows. \<not> hit key_column key row)
             \<or> (set_column < length columns \<and> cl_tag (columns ! set_column) = cell_tag v)
          then (Ok (Some (length (filter (hit key_column key) rows))),
                m(name \<mapsto> (columns, map (\<lambda>row. if hit key_column key row then row[set_column := v] else row) rows)))
          else (Err RowShapeMismatch, m))"
| "ideal_write _ m = (Ok None, m)"

text \<open>
  The calls.  Writes go to the pending tables when a transaction is open and are durable at once when
  none is; commit makes the pending tables durable, rollback and a lost connection drop them.  A begin
  inside an open transaction is refused; as the fixture has it, that ends the transaction and keeps
  its writes.
\<close>

definition ideal_tables_of :: "ideal_db \<Rightarrow> ideal_tables" where
  "ideal_tables_of i = (case id_pending i of None \<Rightarrow> id_durable i | Some m \<Rightarrow> m)"

fun ideal_step :: "ideal_db \<Rightarrow> db_call \<Rightarrow> answer \<times> ideal_db" where
  "ideal_step i Db_Begin =
     (case id_pending i of
        None \<Rightarrow> (Ok None, i\<lparr>id_pending := Some (id_durable i)\<rparr>)
      | Some m \<Rightarrow> (Err TransactionAlreadyOpen, \<lparr>id_durable = m, id_pending = None\<rparr>))"
| "ideal_step i Db_Commit =
     (case id_pending i of
        None \<Rightarrow> (Err NoOpenTransaction, i) | Some m \<Rightarrow> (Ok None, \<lparr>id_durable = m, id_pending = None\<rparr>))"
| "ideal_step i Db_Rollback =
     (case id_pending i of
        None \<Rightarrow> (Err NoOpenTransaction, i) | Some m \<Rightarrow> (Ok None, i\<lparr>id_pending := None\<rparr>))"
| "ideal_step i Db_Lost = (Ok None, i\<lparr>id_pending := None\<rparr>)"
| "ideal_step i (Db_Migrate _ _) = (Ok None, i)"
| "ideal_step i c =
     (case ideal_write c (ideal_tables_of i) of (r, m) \<Rightarrow>
        (r, case id_pending i of None \<Rightarrow> i\<lparr>id_durable := m\<rparr> | Some _ \<Rightarrow> i\<lparr>id_pending := Some m\<rparr>))"

text \<open>A read returns the first matching rows, up to the limit, and at least one if there is one.\<close>

definition ideal_select :: "ideal_db \<Rightarrow> string \<Rightarrow> nat \<Rightarrow> cell \<Rightarrow> nat \<Rightarrow> (fixture_error, cell list list) res" where
  "ideal_select i name column v max_rows =
     (case ideal_tables_of i name of
        None \<Rightarrow> Err UnknownTable
      | Some (columns, rows) \<Rightarrow> Ok (take (max 1 max_rows) (filter (hit column v) rows)))"

section \<open>Reading the fixture\<close>

definition tables_view :: "(string, table) bmap \<Rightarrow> ideal_tables" where
  "tables_view m = (\<lambda>name. map_option (\<lambda>t. (tb_columns t, tb_rows t)) (bm_get m name))"

definition db_view :: "database \<Rightarrow> ideal_db" where
  "db_view db =
     (if db_transaction db = TxOpen
      then \<lparr>id_durable = tables_view (the (db_snapshot db)), id_pending = Some (tables_view (db_tables db))\<rparr>
      else \<lparr>id_durable = tables_view (db_tables db), id_pending = None\<rparr>)"

text \<open>What a call answers; the outcome of a migration is not the store's.\<close>

definition plain_answer :: "(fixture_error, unit) db_result \<Rightarrow> answer" where
  "plain_answer r = res_bind (fst r) (\<lambda>_. Ok None)"

fun db_answer :: "database \<Rightarrow> db_call \<Rightarrow> answer" where
  "db_answer db (Db_Create name columns) = plain_answer (create_table name columns db)"
| "db_answer db Db_Begin = plain_answer (db_begin db)"
| "db_answer db Db_Commit = plain_answer (db_commit db)"
| "db_answer db Db_Rollback = plain_answer (db_rollback db)"
| "db_answer db Db_Lost = Ok None"
| "db_answer db (Db_Insert name row) = plain_answer (db_insert name row db)"
| "db_answer db (Db_Update name kc kv sc nv) = res_bind (fst (update_column name kc kv sc nv db)) (\<lambda>n. Ok (Some n))"
| "db_answer db (Db_Migrate mid checksum) = Ok None"

section \<open>The writes\<close>

lemma good_name_iff: "identifier_is_valid name \<longleftrightarrow> good_name name"
  by (cases name) (auto simp: identifier_is_valid_def good_name_def list_all_iff)

lemma row_matches_iff: "row_matches_schema columns row \<longleftrightarrow> map cell_tag row = map cl_tag columns"
  by (auto simp: row_matches_schema_def list_all_length list_eq_iff_nth_eq)

lemma row_get_hit: "row_get i row = Some v \<longleftrightarrow> hit i v row"
  by (simp add: row_get_def hit_def)

text \<open>
  All rows have the shape of the columns, so an update that fails fails at its first hit, and leaves
  the rows as they are.
\<close>

lemma cell_at:
  assumes "map cell_tag row = map cl_tag columns"
  shows "row_get i row = None \<longleftrightarrow> length columns \<le> i" and "row_get i row = Some x \<Longrightarrow> cell_tag x = cl_tag (columns ! i)"
proof -
  have len: "length row = length columns" using assms by (metis length_map)
  then show "row_get i row = None \<longleftrightarrow> length columns \<le> i" by (auto simp: row_get_def)
  assume "row_get i row = Some x"
  then have i: "i < length row" "x = row ! i" by (auto simp: row_get_def split: if_splits)
  then have "map cell_tag row ! i = cell_tag x" by simp
  then show "cell_tag x = cl_tag (columns ! i)" using assms i len by (metis nth_map)
qed

lemma update_rows_fits:
  assumes "\<forall>row\<in>set rows. map cell_tag row = map cl_tag columns"
    and "set_column < length columns \<and> cl_tag (columns ! set_column) = cell_tag v"
  shows "update_rows kc kv set_column v n rows =
     (Ok (n + length (filter (hit kc kv) rows)), map (\<lambda>row. if hit kc kv row then row[set_column := v] else row) rows)"
  using assms(1)
proof (induction rows arbitrary: n)
  case (Cons row rows)
  then have row: "map cell_tag row = map cl_tag columns" by simp
  obtain x where x: "row_get set_column row = Some x"
    using cell_at(1)[OF row, of set_column] assms(2) by (cases "row_get set_column row") simp_all
  then have "cell_tag x = cell_tag v" using cell_at(2)[OF row] assms(2) by simp
  moreover have "update_rows kc kv set_column v m rows =
      (Ok (m + length (filter (hit kc kv) rows)), map (\<lambda>row. if hit kc kv row then row[set_column := v] else row) rows)" for m
    using Cons by simp
  ultimately show ?case using x by (simp add: row_get_hit[of kc row kv])
qed simp

lemma update_rows_refused:
  assumes "\<forall>row\<in>set rows. map cell_tag row = map cl_tag columns"
    and "\<not> (set_column < length columns \<and> cl_tag (columns ! set_column) = cell_tag v)"
  shows "update_rows kc kv set_column v n rows =
     (if \<forall>row\<in>set rows. \<not> hit kc kv row then Ok n else Err RowShapeMismatch, rows)"
  using assms(1)
proof (induction rows arbitrary: n)
  case (Cons row rows)
  then have row: "map cell_tag row = map cl_tag columns" by simp
  have other: "cell_tag x \<noteq> cell_tag v" if "row_get set_column row = Some x" for x
  proof -
    have "set_column < length columns" using cell_at(1)[OF row, of set_column] that by simp
    then show ?thesis using cell_at(2)[OF row that] assms(2) by simp
  qed
  have "update_rows kc kv set_column v m rows =
      (if \<forall>row\<in>set rows. \<not> hit kc kv row then Ok m else Err RowShapeMismatch, rows)" for m
    using Cons by simp
  then show ?case using other by (simp add: row_get_hit[of kc row kv] split: option.split)
qed simp

lemma update_rows_ideal:
  assumes "\<forall>row\<in>set rows. map cell_tag row = map cl_tag columns"
  shows "update_rows kc kv sc v 0 rows =
     (if (\<forall>row\<in>set rows. \<not> hit kc kv row) \<or> (sc < length columns \<and> cl_tag (columns ! sc) = cell_tag v)
      then (Ok (length (filter (hit kc kv) rows)), map (\<lambda>row. if hit kc kv row then row[sc := v] else row) rows)
      else (Err RowShapeMismatch, rows))"
proof (cases "sc < length columns \<and> cl_tag (columns ! sc) = cell_tag v")
  case True
  then show ?thesis using update_rows_fits[OF assms True] by simp
next
  case False
  have "map (\<lambda>row. if hit kc kv row then row[sc := v] else row) rows = rows \<and> filter (hit kc kv) rows = []"
    if "\<forall>row\<in>set rows. \<not> hit kc kv row"
    using that by (auto simp: filter_empty_conv intro: map_idI)
  then show ?thesis using False update_rows_refused[OF assms False, of kc kv 0] by simp
qed

lemma select_rows_ideal: "select_rows column v max_rows n rows = take (max 1 (max_rows - n)) (filter (hit column v) rows)"
proof (induction rows arbitrary: n)
  case (Cons row rows)
  have "max 1 (max_rows - n) = Suc (max 1 (max_rows - (n + 1)))" if "\<not> max_rows \<le> n + 1" using that by simp
  then show ?case using Cons[of n] Cons[of "n + 1"] by (auto simp: row_get_hit)
qed simp

lemma tables_view_insert:
  "tables_view (bm_insert name t m) = (tables_view m)(name \<mapsto> (tb_columns t, tb_rows t))"
  by (auto simp: tables_view_def)

lemma ideal_write_refines:
  assumes "tables_ok (db_tables db)" and "data_call c"
  shows "ideal_write c (tables_view (db_tables db)) = (db_answer db c, tables_view (db_tables (db_step db c)))"
proof (cases c)
  case (Db_Create name columns)
  then show ?thesis
    by (auto simp: create_table_def plain_answer_def list_ex_iff good_name_iff tables_view_insert)
next
  case (Db_Insert name row)
  then show ?thesis
    by (auto simp: db_insert_def plain_answer_def row_matches_iff tables_view_insert tables_view_def split: option.splits)
next
  case (Db_Update name kc kv sc v)
  show ?thesis
  proof (cases "bm_get (db_tables db) name")
    case None
    then show ?thesis by (simp add: Db_Update update_column_def tables_view_def)
  next
    case (Some t)
    then have rows: "\<forall>row\<in>set (tb_rows t). map cell_tag row = map cl_tag (tb_columns t)"
      using tables_ok_get[OF assms(1)] by (simp add: table_ok_def row_matches_iff)
    have same: "(tables_view (db_tables db))(name \<mapsto> (tb_columns t, tb_rows t)) = tables_view (db_tables db)"
      using Some by (auto simp: tables_view_def)
    have "tables_view (db_tables db) name = Some (tb_columns t, tb_rows t)" using Some by (simp add: tables_view_def)
    then show ?thesis
      using Some same unfolding Db_Update
      by (simp add: update_column_def update_rows_ideal[OF rows] tables_view_insert Let_def)
  qed
qed (use assms(2) in simp_all)

section \<open>Refinement\<close>

lemma ideal_data: "data_call c \<Longrightarrow> ideal_step i c =
     (case ideal_write c (ideal_tables_of i) of (r, m) \<Rightarrow>
        (r, case id_pending i of None \<Rightarrow> i\<lparr>id_durable := m\<rparr> | Some _ \<Rightarrow> i\<lparr>id_pending := Some m\<rparr>))"
  by (cases c) simp_all

lemma tables_of_view: "ideal_tables_of (db_view db) = tables_view (db_tables db)"
  by (simp add: ideal_tables_of_def db_view_def)

lemma refines_step:
  assumes ok: "db_ok db"
  shows "ideal_step (db_view db) c = (db_answer db c, db_view (db_step db c))"
proof (cases "data_call c")
  case True
  have "tables_ok (db_tables db)" using ok by (simp add: db_ok_def)
  from ideal_write_refines[OF this True] show ?thesis
    using data_call_frame[OF True, of db] by (simp add: ideal_data[OF True] tables_of_view) (simp add: db_view_def)
next
  case False
  show ?thesis
  proof (cases "db_transaction db = TxOpen")
    case True
    then obtain m where "db_snapshot db = Some m" using ok by (auto simp: db_ok_def)
    then show ?thesis
      using False True migrate_frame
      by (cases c)
         (simp_all add: db_view_def db_begin_def db_commit_def db_rollback_def connection_lost_def restore_def
           plain_answer_def Let_def)
  next
    case closed: False
    then show ?thesis
      using False migrate_frame
      by (cases c; cases "db_transaction db")
         (simp_all add: db_view_def db_begin_def db_commit_def db_rollback_def connection_lost_def plain_answer_def Let_def)
  qed
qed

lemma select_refines: "select_eq name column v max_rows db = ideal_select (db_view db) name column v max_rows"
  by (simp add: select_eq_def ideal_select_def tables_of_view tables_view_def select_rows_ideal split: option.split)

lemma run_refines: "db_ok db \<Longrightarrow> foldl (\<lambda>i c. snd (ideal_step i c)) (db_view db) calls = db_view (foldl db_step db calls)"
  by (induction calls arbitrary: db) (simp_all add: refines_step db_ok_step)

text \<open>
  C34: The fixture implements its contract.  On a new fixture, after any calls, the state is the one the
  ideal store reaches by the same calls, the next call answers what the ideal store answers and takes
  it to the state the ideal store goes to, and every read returns what the ideal store's tables hold.
  The ideal store has durable and pending tables with their own definitions of creating, inserting and
  updating; its one oddity, that a begin inside an open transaction is refused, ends the transaction
  and keeps its writes, is the fixture's.
\<close>

theorem db_refines_contract:
  "let db = foldl db_step db_new calls; i = foldl (\<lambda>i c. snd (ideal_step i c)) ideal_new calls in
     db_view db = i \<and> (db_answer db c, db_view (db_step db c)) = ideal_step i c
     \<and> select_eq name column v max_rows db = ideal_select i name column v max_rows"
proof -
  let ?db = "foldl db_step db_new calls" and ?i = "foldl (\<lambda>i c. snd (ideal_step i c)) ideal_new calls"
  have new: "db_view db_new = ideal_new" by (simp add: db_view_def db_new_def ideal_new_def tables_view_def)
  have view: "db_view ?db = ?i" using run_refines[OF db_ok_new, of calls] unfolding new by simp
  have "db_ok ?db" by (rule db.inv_run[OF db_ok_new])
  from refines_step[OF this, of c] select_refines show ?thesis unfolding view[symmetric] by (simp add: Let_def)
qed

end
