(* ===== verification/JobFixture.thy ===== *)
theory JobFixture
  imports DatabaseFixture
begin

text \<open>
  The durable-job fixture of \<open>src/job_fixture.rs\<close>: the decision procedures, the job record and
  every operation of \<open>JobStore\<close>, over the database fixture its ledger lives in.  Ticks and ids
  are \<open>u64\<close>, attempts \<open>u8\<close>; a plain \<open>+\<close> that overflows is \<open>Panic\<close>.
\<close>

section \<open>Decision procedures\<close>

definition state_is_terminal :: "nat \<Rightarrow> bool" where
  "state_is_terminal s \<longleftrightarrow> s = 4 \<or> s = 6 \<or> s = 7 \<or> s = 9"

definition lease_is_current :: "u64 \<Rightarrow> u64 \<Rightarrow> u64 \<Rightarrow> u64 \<Rightarrow> bool" where
  "lease_is_current lease_generation job_generation now_tick deadline_tick \<longleftrightarrow>
     lease_generation = job_generation \<and> now_tick < deadline_tick"

definition claim_is_legal :: "nat \<Rightarrow> bool \<Rightarrow> bool" where
  "claim_is_legal s is_due \<longleftrightarrow> s = 0 \<or> (s = 1 \<and> is_due)"

definition retry_should_dead_letter :: "u8 \<Rightarrow> u8 \<Rightarrow> bool" where
  "retry_should_dead_letter attempt max_attempts \<longleftrightarrow> max_attempts \<le> attempt"

definition retry_next_state_after_outcome :: "nat \<Rightarrow> u8 \<Rightarrow> u8 \<Rightarrow> nat" where
  "retry_next_state_after_outcome kind attempt max_attempts =
     (if 3 < kind then 6
      else if kind = 0 then 4
      else if kind = 2 then 6
      else if kind = 3 then 8
      else if retry_should_dead_letter attempt max_attempts then 9
      else 5)"

fun backoff_loop :: "nat \<Rightarrow> u64 \<Rightarrow> u64 \<Rightarrow> u64" where
  "backoff_loop 0 ticks max_ticks = ticks"
| "backoff_loop (Suc n) ticks max_ticks =
     (if max_ticks \<le> ticks then ticks
      else backoff_loop n (min (u_saturating_mul ticks 2) max_ticks) max_ticks)"

definition retry_backoff_ticks :: "u8 \<Rightarrow> u64 \<Rightarrow> u64 \<Rightarrow> u64" where
  "retry_backoff_ticks attempt base_ticks max_ticks =
     backoff_loop (unat attempt) (min base_ticks max_ticks) max_ticks"

definition cancel_is_legal :: "nat \<Rightarrow> bool" where
  "cancel_is_legal s \<longleftrightarrow> s = 0 \<or> s = 1 \<or> s = 2 \<or> s = 5"

definition uncertain_retry_is_permitted :: "bool \<Rightarrow> u8 \<Rightarrow> u8 \<Rightarrow> bool" where
  "uncertain_retry_is_permitted is_idempotent_handler attempt max_attempts \<longleftrightarrow>
     is_idempotent_handler \<and> \<not> retry_should_dead_letter attempt max_attempts"

definition schedule_is_due :: "u64 \<Rightarrow> u64 \<Rightarrow> bool" where
  "schedule_is_due now_tick next_run_tick \<longleftrightarrow> next_run_tick \<le> now_tick"

definition schedule_catch_up_next_run :: "u64 \<Rightarrow> u64 \<Rightarrow> u64 \<Rightarrow> u64 \<Rightarrow> (unit, u64) res" where
  "schedule_catch_up_next_run now_tick next_run_tick interval_tick max_catch_up =
     res_bind (if now_tick \<le> next_run_tick then Ok 0
               else expect (u_checked_div (now_tick - next_run_tick) interval_tick)) (\<lambda>missed.
     res_bind (u_add (min missed max_catch_up) 1) (\<lambda>steps.
     res_bind (expect (u_checked_mul interval_tick steps)) (\<lambda>ahead. u_add next_run_tick ahead)))"

section \<open>States, outcomes, records\<close>

datatype job_state =
    Pending | Scheduled | Leased | Running | Succeeded | RetryableFailure | PermanentFailure
  | Cancelled | Uncertain | DeadLettered

fun job_code :: "job_state \<Rightarrow> nat" where
  "job_code Pending = 0"
| "job_code Scheduled = 1"
| "job_code Leased = 2"
| "job_code Running = 3"
| "job_code Succeeded = 4"
| "job_code RetryableFailure = 5"
| "job_code PermanentFailure = 6"
| "job_code Cancelled = 7"
| "job_code Uncertain = 8"
| "job_code DeadLettered = 9"

definition job_from_code :: "nat \<Rightarrow> job_state" where
  "job_from_code code =
     (if code = 0 then Pending else if code = 1 then Scheduled else if code = 2 then Leased
      else if code = 3 then Running else if code = 4 then Succeeded else if code = 5 then RetryableFailure
      else if code = 6 then PermanentFailure else if code = 7 then Cancelled
      else if code = 8 then Uncertain else DeadLettered)"

definition job_is_terminal :: "job_state \<Rightarrow> bool" where
  "job_is_terminal s = state_is_terminal (job_code s)"

datatype outcome_kind = Out_Success | Out_Retryable | Out_Permanent | Out_Uncertain

fun outcome_code :: "outcome_kind \<Rightarrow> nat" where
  "outcome_code Out_Success = 0"
| "outcome_code Out_Retryable = 1"
| "outcome_code Out_Permanent = 2"
| "outcome_code Out_Uncertain = 3"

datatype job_error =
    UnknownJob | ClaimNotLegal | LeaseNotCurrent | CancelNotLegal | NotUncertain
  | RetryNotPermitted | RevisionRefused | ScheduleOverflow | ScheduleNotAdvanceable

record lease =
  le_worker_id :: u32
  le_generation :: u64
  le_deadline_tick :: u64

record job_record =
  jr_key :: "u8 list"
  jr_payload :: "u8 list"
  jr_bound_revision :: u8
  jr_state :: job_state
  jr_generation :: u64
  jr_lease :: "lease option"
  jr_attempt :: u8
  jr_max_attempts :: u8
  jr_idempotent :: bool
  jr_ever_ran :: bool
  jr_next_run :: "u64 option"
  jr_interval :: "u64 option"
  jr_max_occurrences :: "u64 option"
  jr_occurrences_run :: u64

datatype enqueue_outcome = Created u64 | Duplicate u64 | Conflict

record schedule =
  sc_next_run :: u64
  sc_interval :: u64
  sc_max_occurrences :: u64
  sc_max_catch_up :: u64

record completion_attempt =
  ca_lease_generation :: u64
  ca_now_tick :: u64
  ca_outcome :: outcome_kind
  ca_base_backoff :: u64
  ca_max_backoff :: u64

record job_store =
  js_jobs :: "(u64, job_record) bmap"
  js_next_id :: u64
  js_revision :: u8

type_synonym 'a job_result = "(job_error, 'a) res \<times> job_store"

definition JOBS_TABLE :: string where "JOBS_TABLE = ''jobs''"

section \<open>Operations on one job\<close>

text \<open>A fallible value inside an operation: its failure ends the operation with the job as it is.\<close>

definition job_try :: "(job_error, 'a) res \<Rightarrow> ('a \<Rightarrow> (job_error, 'b) res \<times> 'j) \<Rightarrow> 'j \<Rightarrow> (job_error, 'b) res \<times> 'j" where
  "job_try r f job = (case r of Ok x \<Rightarrow> f x | Err e \<Rightarrow> (Err e, job) | Panic \<Rightarrow> (Panic, job))"

definition job_mut ::
  "u64 \<Rightarrow> (job_record \<Rightarrow> (job_error, 'a) res \<times> job_record) \<Rightarrow> job_store \<Rightarrow> 'a job_result" where
  "job_mut jid f st =
     (case bm_get (js_jobs st) jid of
        None \<Rightarrow> (Err UnknownJob, st)
      | Some job \<Rightarrow> let (r, job') = f job in (r, st\<lparr>js_jobs := bm_insert jid job' (js_jobs st)\<rparr>))"

definition current_lease :: "job_record \<Rightarrow> u64 \<Rightarrow> u64 \<Rightarrow> (job_error, lease) res" where
  "current_lease job lease_generation now_tick =
     (case jr_lease job of
        None \<Rightarrow> Err LeaseNotCurrent
      | Some l \<Rightarrow>
        if \<not> lease_is_current lease_generation (le_generation l) now_tick (le_deadline_tick l)
        then Err LeaseNotCurrent else Ok l)"

definition claim_job ::
  "u32 \<Rightarrow> u64 \<Rightarrow> u64 \<Rightarrow> job_record \<Rightarrow> (job_error, u64 \<times> u64 \<times> u64) res \<times> job_record" where
  "claim_job worker_id now_tick lease_ticks job =
     (let is_due = (case jr_next_run job of None \<Rightarrow> True | Some next_run \<Rightarrow> schedule_is_due now_tick next_run) in
      if \<not> claim_is_legal (job_code (jr_state job)) is_due then (Err ClaimNotLegal, job)
      else job_try (u_add (case jr_lease job of None \<Rightarrow> 0 | Some l \<Rightarrow> le_generation l) 1) (\<lambda>lease_generation.
           job_try (u_add now_tick lease_ticks) (\<lambda>deadline_tick.
             (Ok (jr_generation job, lease_generation, deadline_tick),
              job\<lparr>jr_state := Leased,
                  jr_lease := Some \<lparr>le_worker_id = worker_id, le_generation = lease_generation,
                                   le_deadline_tick = deadline_tick\<rparr>\<rparr>)) job) job)"

definition heartbeat_job :: "u64 \<Rightarrow> u64 \<Rightarrow> u64 \<Rightarrow> job_record \<Rightarrow> (job_error, u64) res \<times> job_record" where
  "heartbeat_job lease_generation now_tick extend_ticks job =
     (if jr_state job \<noteq> Leased \<and> jr_state job \<noteq> Running then (Err LeaseNotCurrent, job)
      else job_try (current_lease job lease_generation now_tick) (\<lambda>l.
           job_try (u_add now_tick extend_ticks) (\<lambda>deadline_tick.
             (Ok deadline_tick, job\<lparr>jr_lease := Some (l\<lparr>le_deadline_tick := deadline_tick\<rparr>)\<rparr>)) job) job)"

definition begin_execution_job :: "u64 \<Rightarrow> u64 \<Rightarrow> job_record \<Rightarrow> (job_error, unit) res \<times> job_record" where
  "begin_execution_job lease_generation now_tick job =
     (if jr_state job \<noteq> Leased then (Err LeaseNotCurrent, job)
      else job_try (current_lease job lease_generation now_tick) (\<lambda>_.
             (Ok (), job\<lparr>jr_state := Running, jr_ever_ran := True\<rparr>)) job)"

definition attempt_after :: "outcome_kind \<Rightarrow> u8 \<Rightarrow> u8" where
  "attempt_after outcome attempt = (if outcome = Out_Success then attempt else u_saturating_add attempt 1)"

definition complete_job ::
  "u64 \<Rightarrow> u64 \<Rightarrow> outcome_kind \<Rightarrow> u64 \<Rightarrow> u64 \<Rightarrow> job_record \<Rightarrow> (job_error, job_state) res \<times> job_record" where
  "complete_job lease_generation now_tick outcome base_backoff_ticks max_backoff_ticks job =
     (if jr_state job \<noteq> Running then (Err LeaseNotCurrent, job)
      else job_try (current_lease job lease_generation now_tick) (\<lambda>_.
        let attempt = attempt_after outcome (jr_attempt job);
            state = job_from_code (retry_next_state_after_outcome (outcome_code outcome) attempt
                                     (jr_max_attempts job));
            job1 = job\<lparr>jr_attempt := attempt, jr_state := state, jr_lease := None\<rparr>
        in if state = RetryableFailure
           then job_try (u_add now_tick (retry_backoff_ticks attempt base_backoff_ticks max_backoff_ticks))
                  (\<lambda>next_run. (Ok Scheduled, job1\<lparr>jr_next_run := Some next_run, jr_state := Scheduled\<rparr>)) job
           else (Ok state, job1)) job)"

definition connection_uncertain_job :: "job_record \<Rightarrow> (job_error, unit) res \<times> job_record" where
  "connection_uncertain_job job =
     (if jr_state job \<noteq> Leased \<and> jr_state job \<noteq> Running then (Err LeaseNotCurrent, job)
      else (Ok (), job\<lparr>jr_ever_ran := jr_ever_ran job \<or> jr_state job = Running,
                      jr_state := Uncertain, jr_lease := None\<rparr>))"

definition reconcile_job :: "nat \<Rightarrow> job_record \<Rightarrow> (job_error, job_state) res \<times> job_record" where
  "reconcile_job decision job =
     (if jr_state job \<noteq> Uncertain then (Err NotUncertain, job)
      else if decision = 0 then (Ok Succeeded, job\<lparr>jr_state := Succeeded\<rparr>)
      else if decision = 1 then (Ok PermanentFailure, job\<lparr>jr_state := PermanentFailure\<rparr>)
      else if decision = 2
              \<and> uncertain_retry_is_permitted (jr_idempotent job) (jr_attempt job) (jr_max_attempts job)
      then (Ok Pending, job\<lparr>jr_attempt := u_saturating_add (jr_attempt job) 1, jr_state := Pending\<rparr>)
      else (Ok Uncertain, job))"

definition cancel_job :: "job_record \<Rightarrow> (job_error, job_state) res \<times> job_record" where
  "cancel_job job =
     (if \<not> cancel_is_legal (job_code (jr_state job)) then (Err CancelNotLegal, job)
      else (Ok Cancelled, job\<lparr>jr_state := Cancelled, jr_lease := None\<rparr>))"

definition recurring_next_run :: "u64 \<Rightarrow> u64 \<Rightarrow> u64 \<Rightarrow> u64 \<Rightarrow> (job_error, u64) res" where
  "recurring_next_run next_run_tick interval_tick now_tick max_catch_up =
     (if interval_tick = 0 then Err ScheduleOverflow
      else
        let missed = u_saturating_sub now_tick next_run_tick div interval_tick in
        res_bind (ok_or ScheduleOverflow (u_checked_add (min missed max_catch_up) 1)) (\<lambda>steps.
        res_bind (ok_or ScheduleOverflow (u_checked_mul interval_tick steps)) (\<lambda>ahead.
          ok_or ScheduleOverflow (u_checked_add next_run_tick ahead))))"

definition advance_job :: "u64 \<Rightarrow> u64 \<Rightarrow> job_record \<Rightarrow> (job_error, u64 option) res \<times> job_record" where
  "advance_job now_tick max_catch_up job =
     (if jr_state job \<noteq> Succeeded then (Err ScheduleNotAdvanceable, job)
      else case (jr_next_run job, jr_interval job, jr_max_occurrences job) of
        (Some next_run_tick, Some interval_tick, Some max_occurrences) \<Rightarrow>
          job_try (ok_or ScheduleOverflow (u_checked_add (jr_occurrences_run job) 1)) (\<lambda>occurrences_run.
            if max_occurrences \<le> occurrences_run
            then (Ok None, job\<lparr>jr_occurrences_run := occurrences_run, jr_next_run := None\<rparr>)
            else job_try (recurring_next_run next_run_tick interval_tick now_tick max_catch_up) (\<lambda>next.
                   (Ok (Some next), job\<lparr>jr_occurrences_run := occurrences_run, jr_attempt := 0,
                                       jr_next_run := Some next, jr_state := Scheduled\<rparr>)) job) job
      | _ \<Rightarrow> (Ok None, job))"

section \<open>Operations of the store\<close>

definition job_store_new :: "u8 \<Rightarrow> job_store" where
  "job_store_new revision = \<lparr>js_jobs = bm_empty, js_next_id = 1, js_revision = revision\<rparr>"

definition set_current_revision :: "u8 \<Rightarrow> job_store \<Rightarrow> job_store" where
  "set_current_revision revision st = st\<lparr>js_revision := revision\<rparr>"

definition ledger_columns :: "column list" where
  "ledger_columns =
     [\<lparr>cl_name = ''id'', cl_tag = 3\<rparr>, \<lparr>cl_name = ''idempotency_key'', cl_tag = 4\<rparr>,
      \<lparr>cl_name = ''state'', cl_tag = 3\<rparr>]"

definition install_ledger_schema :: "database \<Rightarrow> (fixture_error, unit) db_result" where
  "install_ledger_schema db =
     (case create_table JOBS_TABLE ledger_columns db of
        (Ok u, db') \<Rightarrow> (Ok u, db')
      | (_, db') \<Rightarrow> (Panic, db'))"

definition new_job :: "u8 list \<Rightarrow> u8 list \<Rightarrow> schedule option \<Rightarrow> u8 \<Rightarrow> bool \<Rightarrow> u8 \<Rightarrow> job_record" where
  "new_job key payload sched max_attempts idempotent revision =
     \<lparr>jr_key = key, jr_payload = payload, jr_bound_revision = revision,
      jr_state = (case sched of None \<Rightarrow> Pending | Some _ \<Rightarrow> Scheduled),
      jr_generation = 0, jr_lease = None, jr_attempt = 0, jr_max_attempts = max_attempts,
      jr_idempotent = idempotent, jr_ever_ran = False,
      jr_next_run = map_option sc_next_run sched, jr_interval = map_option sc_interval sched,
      jr_max_occurrences = map_option sc_max_occurrences sched, jr_occurrences_run = 0\<rparr>"

definition enqueue ::
  "u8 list \<Rightarrow> u8 list \<Rightarrow> schedule option \<Rightarrow> u8 \<Rightarrow> bool \<Rightarrow> job_store \<Rightarrow> database
     \<Rightarrow> (job_error, enqueue_outcome) res \<times> job_store \<times> database" where
  "enqueue key payload sched max_attempts idempotent st db =
     (case List.find (\<lambda>(_, job). jr_key job = key) (js_jobs st) of
        Some (jid, job) \<Rightarrow>
          (if jr_payload job = payload then (Ok (Duplicate jid), st, db) else (Ok Conflict, st, db))
      | None \<Rightarrow>
        (case db_begin db of
           (Ok _, db1) \<Rightarrow>
             (case db_insert JOBS_TABLE [DV_Usize (js_next_id st), DV_Bytes key, DV_Usize 0] db1 of
                (Ok _, db2) \<Rightarrow>
                  (case db_commit db2 of
                     (Ok _, db3) \<Rightarrow>
                       (case (u_add (js_next_id st) 1 :: (job_error, u64) res) of
                          Ok next_id \<Rightarrow>
                            (Ok (Created (js_next_id st)),
                             st\<lparr>js_next_id := next_id,
                                js_jobs := bm_insert (js_next_id st)
                                  (new_job key payload sched max_attempts idempotent (js_revision st))
                                  (js_jobs st)\<rparr>, db3)
                        | _ \<Rightarrow> (Panic, st, db3))
                   | (_, db3) \<Rightarrow> (Panic, st, db3))
              | (_, db2) \<Rightarrow> (Panic, st, db2))
         | (_, db1) \<Rightarrow> (Panic, st, db1)))"

definition state_of :: "job_store \<Rightarrow> u64 \<Rightarrow> job_state option" where
  "state_of st jid = map_option jr_state (bm_get (js_jobs st) jid)"

definition attempt_of :: "job_store \<Rightarrow> u64 \<Rightarrow> u8 option" where
  "attempt_of st jid = map_option jr_attempt (bm_get (js_jobs st) jid)"

definition leased_worker_id :: "job_store \<Rightarrow> u64 \<Rightarrow> u32 option" where
  "leased_worker_id st jid =
     (case bm_get (js_jobs st) jid of None \<Rightarrow> None | Some job \<Rightarrow> map_option le_worker_id (jr_lease job))"

definition claim :: "u64 \<Rightarrow> u32 \<Rightarrow> u64 \<Rightarrow> u64 \<Rightarrow> job_store \<Rightarrow> (u64 \<times> u64 \<times> u64) job_result" where
  "claim jid worker_id now_tick lease_ticks = job_mut jid (claim_job worker_id now_tick lease_ticks)"

definition heartbeat :: "u64 \<Rightarrow> u64 \<Rightarrow> u64 \<Rightarrow> u64 \<Rightarrow> job_store \<Rightarrow> u64 job_result" where
  "heartbeat jid lease_generation now_tick extend_ticks =
     job_mut jid (heartbeat_job lease_generation now_tick extend_ticks)"

definition begin_execution :: "u64 \<Rightarrow> u64 \<Rightarrow> u64 \<Rightarrow> job_store \<Rightarrow> unit job_result" where
  "begin_execution jid lease_generation now_tick = job_mut jid (begin_execution_job lease_generation now_tick)"

definition complete :: "u64 \<Rightarrow> u64 \<Rightarrow> u64 \<Rightarrow> outcome_kind \<Rightarrow> u64 \<Rightarrow> u64 \<Rightarrow> job_store \<Rightarrow> job_state job_result" where
  "complete jid lease_generation now_tick outcome base_backoff_ticks max_backoff_ticks =
     job_mut jid (complete_job lease_generation now_tick outcome base_backoff_ticks max_backoff_ticks)"

definition record_connection_uncertain :: "u64 \<Rightarrow> job_store \<Rightarrow> unit job_result" where
  "record_connection_uncertain jid = job_mut jid connection_uncertain_job"

definition reconcile_uncertain :: "u64 \<Rightarrow> nat \<Rightarrow> job_store \<Rightarrow> job_state job_result" where
  "reconcile_uncertain jid decision = job_mut jid (reconcile_job decision)"

definition cancel :: "u64 \<Rightarrow> job_store \<Rightarrow> job_state job_result" where
  "cancel jid = job_mut jid cancel_job"

definition advance_recurring_schedule :: "u64 \<Rightarrow> u64 \<Rightarrow> u64 \<Rightarrow> job_store \<Rightarrow> u64 option job_result" where
  "advance_recurring_schedule jid now_tick max_catch_up = job_mut jid (advance_job now_tick max_catch_up)"

text \<open>The ledger half of \<open>complete_durable\<close>: whether the commit was confirmed.\<close>

definition commit_state :: "u64 \<Rightarrow> job_state \<Rightarrow> database \<Rightarrow> bool \<times> database" where
  "commit_state jid s db =
     (case db_begin db of
        (Ok _, db1) \<Rightarrow>
          (case update_column JOBS_TABLE 0 (DV_Usize jid) 2 (DV_Usize (word_of_nat (job_code s))) db1 of
             (Ok n, db2) \<Rightarrow>
               if n \<noteq> 1 then (False, snd (db_rollback db2))
               else (case db_commit db2 of (Ok _, db3) \<Rightarrow> (True, db3) | (_, db3) \<Rightarrow> (False, db3))
           | (_, db2) \<Rightarrow> (False, db2))
      | (_, db1) \<Rightarrow> (False, db1))"

definition projected_state :: "outcome_kind \<Rightarrow> job_record \<Rightarrow> job_state" where
  "projected_state outcome job =
     job_from_code (retry_next_state_after_outcome (outcome_code outcome)
       (attempt_after outcome (jr_attempt job)) (jr_max_attempts job))"

definition ledger_state :: "outcome_kind \<Rightarrow> job_record \<Rightarrow> job_state" where
  "ledger_state outcome job =
     (let projected = projected_state outcome job in
      if projected = RetryableFailure then Scheduled else projected)"

definition complete_durable ::
  "u64 \<Rightarrow> completion_attempt \<Rightarrow> job_store \<Rightarrow> database
     \<Rightarrow> (job_error, job_state) res \<times> job_store \<times> database" where
  "complete_durable jid a st db =
     (case bm_get (js_jobs st) jid of
        None \<Rightarrow> (Err UnknownJob, st, db)
      | Some job \<Rightarrow>
        if jr_state job \<noteq> Running then (Err LeaseNotCurrent, st, db)
        else (case current_lease job (ca_lease_generation a) (ca_now_tick a) of
          Err e \<Rightarrow> (Err e, st, db)
        | Panic \<Rightarrow> (Panic, st, db)
        | Ok _ \<Rightarrow>
          (case commit_state jid (ledger_state (ca_outcome a) job) db of
             (True, db') \<Rightarrow>
               (let (r, st') = complete jid (ca_lease_generation a) (ca_now_tick a) (ca_outcome a)
                      (ca_base_backoff a) (ca_max_backoff a) st in (r, st', db'))
           | (False, db') \<Rightarrow>
               (case record_connection_uncertain jid st of
                  (Ok _, st') \<Rightarrow> (Ok Uncertain, st', db')
                | (Err e, st') \<Rightarrow> (Err e, st', db')
                | (Panic, st') \<Rightarrow> (Panic, st', db')))))"

fun expire_jobs :: "u64 \<Rightarrow> (u64, job_record) bmap \<Rightarrow> (job_error, u64 list) res \<times> (u64, job_record) bmap" where
  "expire_jobs now_tick [] = (Ok [], [])"
| "expire_jobs now_tick ((jid, job) # jobs) =
     (if (case jr_lease job of None \<Rightarrow> False | Some l \<Rightarrow> le_deadline_tick l \<le> now_tick)
      then job_try (u_add (jr_generation job) 1) (\<lambda>generation.
             let job' = job\<lparr>jr_generation := generation, jr_lease := None, jr_state := Pending\<rparr>;
                 (r, jobs') = expire_jobs now_tick jobs
             in (res_bind r (\<lambda>ids. Ok (jid # ids)), (jid, job') # jobs')) ((jid, job) # jobs)
      else let (r, jobs') = expire_jobs now_tick jobs in (r, (jid, job) # jobs'))"

definition expire_stale_leases :: "u64 \<Rightarrow> job_store \<Rightarrow> (u64 list) job_result" where
  "expire_stale_leases now_tick st =
     (let (r, jobs) = expire_jobs now_tick (js_jobs st) in (r, st\<lparr>js_jobs := jobs\<rparr>))"

definition compensation_is_required :: "job_store \<Rightarrow> u64 \<Rightarrow> bool option" where
  "compensation_is_required st jid =
     map_option (\<lambda>job. jr_ever_ran job \<and> (jr_state job = PermanentFailure \<or> jr_state job = Cancelled))
       (bm_get (js_jobs st) jid)"

definition occurrences_run_of :: "job_store \<Rightarrow> u64 \<Rightarrow> u64 option" where
  "occurrences_run_of st jid = map_option jr_occurrences_run (bm_get (js_jobs st) jid)"

definition recurring_advance_is_safe :: "job_store \<Rightarrow> u64 \<Rightarrow> u64 \<Rightarrow> u64 \<Rightarrow> (job_error, unit) res" where
  "recurring_advance_is_safe st jid now_tick max_catch_up =
     (case bm_get (js_jobs st) jid of
        None \<Rightarrow> Err UnknownJob
      | Some job \<Rightarrow>
        (case (jr_next_run job, jr_interval job, jr_max_occurrences job) of
           (Some next_run_tick, Some interval_tick, Some max_occurrences) \<Rightarrow>
             res_bind (ok_or ScheduleOverflow (u_checked_add (jr_occurrences_run job) 1)) (\<lambda>occurrences_run.
               if occurrences_run < max_occurrences
               then res_bind (recurring_next_run next_run_tick interval_tick now_tick max_catch_up) (\<lambda>_. Ok ())
               else Ok ())
         | _ \<Rightarrow> Ok ()))"

definition revision_check :: "job_store \<Rightarrow> u64 \<Rightarrow> (job_error, unit) res" where
  "revision_check st jid =
     (case bm_get (js_jobs st) jid of
        None \<Rightarrow> Err UnknownJob
      | Some job \<Rightarrow>
        if 1 \<le> jr_bound_revision job \<and> jr_bound_revision job \<le> js_revision st then Ok ()
        else Err RevisionRefused)"

section \<open>Runs\<close>

datatype job_call =
    Jc_Revision u8
  | Jc_Enqueue "u8 list" "u8 list" "schedule option" u8 bool
  | Jc_Claim u64 u32 u64 u64
  | Jc_Heartbeat u64 u64 u64 u64
  | Jc_Begin u64 u64 u64
  | Jc_Complete u64 u64 u64 outcome_kind u64 u64
  | Jc_Durable u64 completion_attempt
  | Jc_Uncertain u64
  | Jc_Reconcile u64 nat
  | Jc_Expire u64
  | Jc_Cancel u64
  | Jc_Advance u64 u64 u64

fun job_step :: "job_store \<times> database \<Rightarrow> job_call \<Rightarrow> job_store \<times> database" where
  "job_step (st, db) (Jc_Revision r) = (set_current_revision r st, db)"
| "job_step (st, db) (Jc_Enqueue k p s m i) = snd (enqueue k p s m i st db)"
| "job_step (st, db) (Jc_Claim j w t n) = (snd (claim j w t n st), db)"
| "job_step (st, db) (Jc_Heartbeat j g t n) = (snd (heartbeat j g t n st), db)"
| "job_step (st, db) (Jc_Begin j g t) = (snd (begin_execution j g t st), db)"
| "job_step (st, db) (Jc_Complete j g t out b m) = (snd (complete j g t out b m st), db)"
| "job_step (st, db) (Jc_Durable j a) = snd (complete_durable j a st db)"
| "job_step (st, db) (Jc_Uncertain j) = (snd (record_connection_uncertain j st), db)"
| "job_step (st, db) (Jc_Reconcile j d) = (snd (reconcile_uncertain j d st), db)"
| "job_step (st, db) (Jc_Expire t) = (snd (expire_stale_leases t st), db)"
| "job_step (st, db) (Jc_Cancel j) = (snd (cancel j st), db)"
| "job_step (st, db) (Jc_Advance j t m) = (snd (advance_recurring_schedule j t m st), db)"

end
