(* ===== verification/JobProps.thy ===== *)
theory JobProps
  imports JobFixture
begin

text \<open>
  What the durable-job fixture keeps: the invariant of a job and of the store over every run, the
  state machine its operations implement, the ledger that a durable completion leaves behind, the
  bounds of backoff and recurrence, and what a lease generation does and does not protect.
\<close>

section \<open>The state machine\<close>

text \<open>
  The edges of the lifecycle, over the states \<open>docs/DURABLE-JOBS-V1.md\<close> names.  The document has no
  table of edges; these are the ones the fixture takes, and two of them are not what the document
  says: it sends a reconciled retry to \<open>RETRYABLE_FAILURE\<close> where the fixture makes the job \<open>Pending\<close>, and
  it calls \<open>SUCCEEDED\<close> terminal, which a recurring job leaves for its next occurrence.
\<close>

inductive job_edge :: "job_state \<Rightarrow> job_state \<Rightarrow> bool" where
  stay: "job_edge s s"
| claimed: "s = Pending \<or> s = Scheduled \<Longrightarrow> job_edge s Leased"
| started: "job_edge Leased Running"
| completed: "s \<in> {Succeeded, PermanentFailure, Uncertain, DeadLettered, Scheduled} \<Longrightarrow> job_edge Running s"
| lost: "s = Leased \<or> s = Running \<Longrightarrow> job_edge s Uncertain"
| reconciled: "s \<in> {Succeeded, PermanentFailure, Pending} \<Longrightarrow> job_edge Uncertain s"
| expired: "s = Leased \<or> s = Running \<Longrightarrow> job_edge s Pending"
| cancelled: "s \<in> {Pending, Scheduled, Leased} \<Longrightarrow> job_edge s Cancelled"
| recurred: "job_edge Succeeded Scheduled"

inductive_cases edge_from_failureE [elim!]: "job_edge PermanentFailure s"
inductive_cases edge_from_cancelledE [elim!]: "job_edge Cancelled s"
inductive_cases edge_from_deadE [elim!]: "job_edge DeadLettered s"

lemmas edge_intros = stay claimed started completed lost reconciled expired cancelled recurred

section \<open>The invariant of a job\<close>

definition job_ok :: "job_record \<Rightarrow> bool" where
  "job_ok job \<longleftrightarrow>
     (jr_lease job \<noteq> None \<longleftrightarrow> jr_state job = Leased \<or> jr_state job = Running)
     \<and> (\<forall>l. jr_lease job = Some l \<longrightarrow> le_generation l = 1)
     \<and> jr_state job \<noteq> RetryableFailure
     \<and> (jr_state job = Running \<longrightarrow> jr_ever_ran job)
     \<and> (jr_state job = Scheduled \<longrightarrow> jr_next_run job \<noteq> None)
     \<and> unat (jr_attempt job) \<le> unat (jr_max_attempts job) + 1
     \<and> (jr_state job \<in> {Pending, Scheduled, Leased, Running} \<longrightarrow> jr_attempt job \<le> jr_max_attempts job)"

text \<open>What every operation on one job keeps.\<close>

definition lawful :: "(job_record \<Rightarrow> (job_error, 'a) res \<times> job_record) \<Rightarrow> bool" where
  "lawful f \<longleftrightarrow> (\<forall>job. job_ok job \<longrightarrow>
     job_ok (snd (f job)) \<and> jr_key (snd (f job)) = jr_key job
     \<and> job_edge (jr_state job) (jr_state (snd (f job))))"

lemma snd_job_try:
  "snd (job_try r f job) = (case r of Ok x \<Rightarrow> snd (f x) | _ \<Rightarrow> job)"
  by (simp add: job_try_def split: res.split)

lemma lawfulI:
  assumes "\<And>job. job_ok job \<Longrightarrow> job_ok (snd (f job))"
    and "\<And>job. job_ok job \<Longrightarrow> jr_key (snd (f job)) = jr_key job"
    and "\<And>job. job_ok job \<Longrightarrow> job_edge (jr_state job) (jr_state (snd (f job)))"
  shows "lawful f"
  using assms by (simp add: lawful_def)

lemma code_state:
  "job_code s = 0 \<longleftrightarrow> s = Pending" "job_code s = 1 \<longleftrightarrow> s = Scheduled" "job_code s = Suc 0 \<longleftrightarrow> s = Scheduled"
  "job_code s = 2 \<longleftrightarrow> s = Leased" "job_code s = 5 \<longleftrightarrow> s = RetryableFailure"
  by (cases s; simp)+

lemma claim_generation:
  assumes "job_ok job" "claim_job w t n job = (Ok (jg, lg, dl), job')"
  shows "lg = 1 \<and> jg = jr_generation job \<and> dl = t + n \<and> jr_lease job = None"
proof -
  have "jr_lease job = None"
    using assms by (auto simp: claim_job_def Let_def job_ok_def claim_is_legal_def code_state split: if_splits)
  then show ?thesis
    using assms(2) by (auto simp: claim_job_def Let_def job_try_def u_add_def u_checked_add_def split: if_splits res.splits)
qed

lemma lawful_claim: "lawful (claim_job w t n)"
proof (rule lawfulI)
  fix job assume ok: "job_ok job"
  have "snd (claim_job w t n job) = job
    \<or> (\<exists>jg lg dl. claim_job w t n job = (Ok (jg, lg, dl), job\<lparr>jr_state := Leased,
           jr_lease := Some \<lparr>le_worker_id = w, le_generation = lg, le_deadline_tick = dl\<rparr>\<rparr>)
        \<and> (jr_state job = Pending \<or> jr_state job = Scheduled))"
    by (auto simp: claim_job_def Let_def job_try_def claim_is_legal_def code_state split: res.splits)
  then consider (same) "snd (claim_job w t n job) = job"
    | (leased) jg lg dl where "claim_job w t n job = (Ok (jg, lg, dl), job\<lparr>jr_state := Leased,
           jr_lease := Some \<lparr>le_worker_id = w, le_generation = lg, le_deadline_tick = dl\<rparr>\<rparr>)"
        "jr_state job = Pending \<or> jr_state job = Scheduled"
    by blast
  note c = this
  show "job_ok (snd (claim_job w t n job))"
  proof (cases rule: c)
    case leased
    then show ?thesis using ok claim_generation[OF ok leased(1)] by (auto simp: job_ok_def)
  qed (simp add: ok)
  show "jr_key (snd (claim_job w t n job)) = jr_key job"
    "job_edge (jr_state job) (jr_state (snd (claim_job w t n job)))"
    by (cases rule: c; auto intro: edge_intros)+
qed

lemma lawful_heartbeat: "lawful (heartbeat_job g t n)"
  by (rule lawfulI)
     (auto simp: heartbeat_job_def snd_job_try job_ok_def current_lease_def intro: edge_intros
       split: res.splits option.splits if_splits)

lemma lawful_begin: "lawful (begin_execution_job g t)"
  by (rule lawfulI)
     (auto simp: begin_execution_job_def snd_job_try job_ok_def intro: edge_intros split: res.splits)

lemma unat_attempt_after: "unat (attempt_after out a) \<le> unat a + 1"
  by (simp add: attempt_after_def unat_u_saturating_add)

lemma next_state:
  "job_from_code (retry_next_state_after_outcome (outcome_code out) a m) =
     (case out of Out_Success \<Rightarrow> Succeeded | Out_Permanent \<Rightarrow> PermanentFailure | Out_Uncertain \<Rightarrow> Uncertain
      | Out_Retryable \<Rightarrow> if m \<le> a then DeadLettered else RetryableFailure)"
  by (cases out) (simp_all add: job_from_code_def retry_next_state_after_outcome_def retry_should_dead_letter_def)

lemma lawful_complete: "lawful (complete_job g t out b m)"
proof (rule lawfulI)
  fix job assume ok: "job_ok job"
  let ?a = "attempt_after out (jr_attempt job)"
  let ?s = "job_from_code (retry_next_state_after_outcome (outcome_code out) ?a (jr_max_attempts job))"
  have "snd (complete_job g t out b m job) = job
    \<or> (jr_state job = Running \<and> ?s \<noteq> RetryableFailure
        \<and> snd (complete_job g t out b m job) = job\<lparr>jr_attempt := ?a, jr_state := ?s, jr_lease := None\<rparr>)
    \<or> (\<exists>n. jr_state job = Running \<and> ?s = RetryableFailure \<and> snd (complete_job g t out b m job)
           = job\<lparr>jr_attempt := ?a, jr_lease := None, jr_next_run := Some n, jr_state := Scheduled\<rparr>)"
    by (simp add: complete_job_def Let_def job_try_def split: res.split) auto
  then consider (same) "snd (complete_job g t out b m job) = job"
    | (finished) "jr_state job = Running" "?s \<noteq> RetryableFailure"
        "snd (complete_job g t out b m job) = job\<lparr>jr_attempt := ?a, jr_state := ?s, jr_lease := None\<rparr>"
    | (retry) n where "jr_state job = Running" "?s = RetryableFailure"
        "snd (complete_job g t out b m job)
           = job\<lparr>jr_attempt := ?a, jr_lease := None, jr_next_run := Some n, jr_state := Scheduled\<rparr>"
    by blast
  note c = this
  have le: "unat ?a \<le> unat (jr_max_attempts job) + 1" if "jr_state job = Running"
    using that ok unat_attempt_after[of out "jr_attempt job"] by (simp add: job_ok_def word_le_nat_alt)
  show "job_ok (snd (complete_job g t out b m job))"
  proof (cases rule: c)
    case same
    then show ?thesis using ok by simp
  next
    case finished
    then show ?thesis using le by (auto simp: job_ok_def next_state split: outcome_kind.splits if_splits)
  next
    case retry
    then show ?thesis using le by (auto simp: job_ok_def next_state split: outcome_kind.splits if_splits)
  qed
  show "jr_key (snd (complete_job g t out b m job)) = jr_key job"
    by (cases rule: c) simp_all
  show "job_edge (jr_state job) (jr_state (snd (complete_job g t out b m job)))"
    by (cases rule: c) (auto simp: next_state intro!: edge_intros split: outcome_kind.splits if_splits)
qed

lemma lawful_uncertain: "lawful connection_uncertain_job"
  by (rule lawfulI) (auto simp: connection_uncertain_job_def job_ok_def intro: edge_intros)

lemma lawful_reconcile: "lawful (reconcile_job d)"
proof (rule lawfulI)
  fix job assume ok: "job_ok job"
  have sat: "u_saturating_add (jr_attempt job) 1 \<le> jr_max_attempts job"
    if "\<not> jr_max_attempts job \<le> jr_attempt job"
    using that by (simp add: word_le_nat_alt unat_u_saturating_add)
  show "job_ok (snd (reconcile_job d job))"
    using ok sat
    by (auto simp: reconcile_job_def job_ok_def uncertain_retry_is_permitted_def retry_should_dead_letter_def
        word_le_nat_alt)
  show "jr_key (snd (reconcile_job d job)) = jr_key job"
    "job_edge (jr_state job) (jr_state (snd (reconcile_job d job)))"
    by (auto simp: reconcile_job_def intro: edge_intros)
qed

lemma lawful_cancel: "lawful cancel_job"
  by (rule lawfulI)
     (auto simp: cancel_job_def cancel_is_legal_def code_state job_ok_def intro: edge_intros)

lemma lawful_advance: "lawful (advance_job t m)"
proof (rule lawfulI)
  fix job assume ok: "job_ok job"
  have "snd (advance_job t m job) = job
    \<or> (jr_state job = Succeeded \<and> (\<exists>occ. snd (advance_job t m job) = job\<lparr>jr_occurrences_run := occ, jr_next_run := None\<rparr>))
    \<or> (jr_state job = Succeeded \<and> (\<exists>occ n. snd (advance_job t m job) =
         job\<lparr>jr_occurrences_run := occ, jr_attempt := 0, jr_next_run := Some n, jr_state := Scheduled\<rparr>))"
    unfolding advance_job_def job_try_def by (simp split: res.split option.split) blast
  then consider (same) "snd (advance_job t m job) = job"
    | (spent) occ where "jr_state job = Succeeded"
        "snd (advance_job t m job) = job\<lparr>jr_occurrences_run := occ, jr_next_run := None\<rparr>"
    | (again) occ n where "jr_state job = Succeeded" "snd (advance_job t m job) =
         job\<lparr>jr_occurrences_run := occ, jr_attempt := 0, jr_next_run := Some n, jr_state := Scheduled\<rparr>"
    by blast
  note c = this
  show "job_ok (snd (advance_job t m job))"
    using c by cases (use ok in \<open>auto simp: job_ok_def\<close>)
  show "jr_key (snd (advance_job t m job)) = jr_key job"
    using c by cases simp_all
  show "job_edge (jr_state job) (jr_state (snd (advance_job t m job)))"
    using c by cases (auto intro: edge_intros)
qed

section \<open>The invariant of the store\<close>

definition store_ok :: "job_store \<Rightarrow> bool" where
  "store_ok st \<longleftrightarrow> bm_ok (js_jobs st)
     \<and> (\<forall>jid job. bm_get (js_jobs st) jid = Some job \<longrightarrow> job_ok job \<and> jid < js_next_id st)
     \<and> (\<forall>i j a b. bm_get (js_jobs st) i = Some a \<longrightarrow> bm_get (js_jobs st) j = Some b \<longrightarrow>
          jr_key a = jr_key b \<longrightarrow> i = j)"

text \<open>How a call may change the jobs: no job disappears or changes its key, every state moves along
  an edge.\<close>

definition jobs_move :: "job_store \<Rightarrow> job_store \<Rightarrow> bool" where
  "jobs_move st st' \<longleftrightarrow> (\<forall>jid job. bm_get (js_jobs st) jid = Some job \<longrightarrow>
     (\<exists>job'. bm_get (js_jobs st') jid = Some job' \<and> jr_key job' = jr_key job
        \<and> job_edge (jr_state job) (jr_state job')))"

lemma jobs_move_refl [simp]: "js_jobs st' = js_jobs st \<Longrightarrow> jobs_move st st'"
  by (auto simp: jobs_move_def intro: stay)

lemma lawful_store:
  assumes f: "lawful f" and st: "store_ok st"
  shows "store_ok (snd (job_mut jid f st)) \<and> jobs_move st (snd (job_mut jid f st))"
proof (cases "bm_get (js_jobs st) jid")
  case None
  then show ?thesis using st by (simp add: job_mut_def)
next
  case (Some job)
  obtain r job' where fj: "f job = (r, job')" by fastforce
  have "job_ok job" using st Some by (simp add: store_ok_def)
  then have job': "job_ok job'" "jr_key job' = jr_key job" "job_edge (jr_state job) (jr_state job')"
    using f fj by (auto simp: lawful_def dest!: spec[of _ job])
  have st': "snd (job_mut jid f st) = st\<lparr>js_jobs := bm_insert jid job' (js_jobs st)\<rparr>"
    using Some fj by (simp add: job_mut_def)
  have get: "bm_get (js_jobs (snd (job_mut jid f st))) i = (if i = jid then Some job' else bm_get (js_jobs st) i)" for i
    by (simp add: st')
  have "store_ok (snd (job_mut jid f st))"
    unfolding store_ok_def get
  proof (intro conjI allI impI)
    show "bm_ok (js_jobs (snd (job_mut jid f st)))" using st by (simp add: st' store_ok_def)
    fix i a assume a: "(if i = jid then Some job' else bm_get (js_jobs st) i) = Some a"
    show "job_ok a" using a st job' by (auto simp: store_ok_def split: if_splits)
    show "i < js_next_id (snd (job_mut jid f st))"
      using a st Some by (auto simp: store_ok_def st' split: if_splits)
    fix j b assume b: "(if j = jid then Some job' else bm_get (js_jobs st) j) = Some b" "jr_key a = jr_key b"
    obtain a0 where a0: "bm_get (js_jobs st) i = Some a0" "jr_key a0 = jr_key a"
      using a Some job' by (cases "i = jid") auto
    obtain b0 where b0: "bm_get (js_jobs st) j = Some b0" "jr_key b0 = jr_key b"
      using b Some job' by (cases "j = jid") auto
    have "jr_key a0 = jr_key b0" using a0(2) b0(2) b(2) by simp
    then show "i = j" using st a0(1) b0(1) unfolding store_ok_def by blast
  qed
  moreover have "jobs_move st (snd (job_mut jid f st))"
    using job' Some by (auto simp: jobs_move_def get intro: stay)
  ultimately show ?thesis by blast
qed

lemma expire_jobs_get:
  "bm_get (snd (expire_jobs t jobs)) jid = Some job' \<Longrightarrow>
     \<exists>job. bm_get jobs jid = Some job \<and> (job' = job \<or> (jr_lease job \<noteq> None
        \<and> job' = job\<lparr>jr_generation := jr_generation job + 1, jr_lease := None, jr_state := Pending\<rparr>))"
proof (induction t jobs rule: expire_jobs.induct)
  case (2 t i job jobs)
  obtain r jobs' where e: "expire_jobs t jobs = (r, jobs')" by fastforce
  show ?case
    using 2 e
    by (auto simp: snd_job_try Let_def u_add_def u_checked_add_def split: if_splits option.splits res.splits)
qed simp

lemma keys_expire_jobs: "map fst (snd (expire_jobs t jobs)) = map fst jobs"
proof (induction jobs)
  case (Cons x jobs)
  obtain r jobs' where "expire_jobs t jobs = (r, jobs')" by fastforce
  then show ?case using Cons.IH by (cases x) (simp add: snd_job_try split: res.split)
qed simp

lemma get_same_keys: "map fst m = map fst m' \<Longrightarrow> bm_get m k = None \<longleftrightarrow> bm_get m' k = None"
  by (simp add: bm_get_None_iff bm_keys_def)

lemma expire_store:
  assumes st: "store_ok st"
  shows "store_ok (snd (expire_stale_leases t st)) \<and> jobs_move st (snd (expire_stale_leases t st))"
proof -
  let ?st = "snd (expire_stale_leases t st)"
  have jobs: "js_jobs ?st = snd (expire_jobs t (js_jobs st))" "js_next_id ?st = js_next_id st"
    by (simp_all add: expire_stale_leases_def split: prod.split)
  have old: "\<exists>job. bm_get (js_jobs st) jid = Some job \<and> job_ok job' \<and> jr_key job' = jr_key job
      \<and> job_edge (jr_state job) (jr_state job')" if "bm_get (js_jobs ?st) jid = Some job'" for jid job'
  proof -
    note got = that[unfolded jobs]
    obtain job where job: "bm_get (js_jobs st) jid = Some job" "job' = job \<or> (jr_lease job \<noteq> None
        \<and> job' = job\<lparr>jr_generation := jr_generation job + 1, jr_lease := None, jr_state := Pending\<rparr>)"
      using expire_jobs_get[OF got] by blast
    have ok: "job_ok job" using st job(1) by (simp add: store_ok_def)
    from job(2) have "job_ok job' \<and> jr_key job' = jr_key job \<and> job_edge (jr_state job) (jr_state job')"
    proof
      assume "job' = job"
      then show ?thesis using ok by (simp add: stay)
    next
      assume e: "jr_lease job \<noteq> None
        \<and> job' = job\<lparr>jr_generation := jr_generation job + 1, jr_lease := None, jr_state := Pending\<rparr>"
      then have "jr_state job = Leased \<or> jr_state job = Running" using ok by (simp add: job_ok_def)
      then show ?thesis using ok e by (auto simp: job_ok_def intro: expired)
    qed
    with job(1) show ?thesis by blast
  qed
  have "store_ok ?st"
    unfolding store_ok_def
  proof (intro conjI allI impI)
    have "bm_ok (js_jobs st)" using st by (simp add: store_ok_def)
    then show "bm_ok (js_jobs ?st)" by (simp add: bm_ok_def jobs keys_expire_jobs)
    fix i a assume a: "bm_get (js_jobs ?st) i = Some a"
    show "job_ok a" using old[OF a] by blast
    show "i < js_next_id ?st" using old[OF a] st by (auto simp: store_ok_def jobs)
    fix j b assume b: "bm_get (js_jobs ?st) j = Some b" "jr_key a = jr_key b"
    obtain a0 b0 where "bm_get (js_jobs st) i = Some a0" "bm_get (js_jobs st) j = Some b0" "jr_key a0 = jr_key b0"
      using old[OF a] old[OF b(1)] b(2) by metis
    then show "i = j" using st unfolding store_ok_def by blast
  qed
  moreover have "jobs_move st ?st"
    unfolding jobs_move_def
  proof (intro allI impI)
    fix jid job assume job: "bm_get (js_jobs st) jid = Some job"
    then obtain job' where "bm_get (js_jobs ?st) jid = Some job'"
      using get_same_keys[OF keys_expire_jobs[of t "js_jobs st"], of jid] unfolding jobs by auto
    with old[OF this] job show "\<exists>job'. bm_get (js_jobs ?st) jid = Some job' \<and> jr_key job' = jr_key job
        \<and> job_edge (jr_state job) (jr_state job')" by auto
  qed
  ultimately show ?thesis by blast
qed

lemma enqueue_cases:
  "(fst (snd (enqueue k p s m i st db)) = st \<or>
    (List.find (\<lambda>(_, job). jr_key job = k) (js_jobs st) = None \<and>
     fst (enqueue k p s m i st db) = Ok (Created (js_next_id st)) \<and>
     js_next_id st < js_next_id st + 1 \<and>
     fst (snd (enqueue k p s m i st db)) = st\<lparr>js_next_id := js_next_id st + 1,
        js_jobs := bm_insert (js_next_id st) (new_job k p s m i (js_revision st)) (js_jobs st)\<rparr>))"
proof -
  have add: "x < x + 1 \<and> y = x + 1" if "(u_add x 1 :: (job_error, u64) res) = Ok y" for x y
  proof -
    have "unat x + 1 < 2 ^ 64" "y = x + 1" using that by (auto simp: u_add_def u_checked_add_def split: if_splits)
    moreover from this have "x \<noteq> - 1" by (auto simp: unat_max_word)
    ultimately show ?thesis using word_less_Suc[of x] by simp
  qed
  show ?thesis
    by (auto simp: enqueue_def split: option.splits prod.splits res.splits dest!: add)
qed

lemma new_job_ok: "job_ok (new_job k p s m i rv)"
  by (cases s) (auto simp: new_job_def job_ok_def)

lemma enqueue_store:
  assumes st: "store_ok st"
  shows "store_ok (fst (snd (enqueue k p s m i st db))) \<and> jobs_move st (fst (snd (enqueue k p s m i st db)))"
proof (cases "fst (snd (enqueue k p s m i st db)) = st")
  case True
  then show ?thesis using st by simp
next
  case False
  let ?n = "js_next_id st" and ?j = "new_job k p s m i (js_revision st)"
  have f: "List.find (\<lambda>(_, job). jr_key job = k) (js_jobs st) = None" "?n < ?n + 1"
    and st': "fst (snd (enqueue k p s m i st db)) = st\<lparr>js_next_id := ?n + 1, js_jobs := bm_insert ?n ?j (js_jobs st)\<rparr>"
    using False enqueue_cases[of k p s m i st db] by auto
  have lt: "jid < ?n" "job_ok job" if "bm_get (js_jobs st) jid = Some job" for jid job
    using st that by (simp_all add: store_ok_def)
  have fresh: "jr_key job \<noteq> k" if "bm_get (js_jobs st) jid = Some job" for jid job
    using f(1) bm_get_in_set[OF that] by (auto simp: find_None_iff)
  have "store_ok (fst (snd (enqueue k p s m i st db)))"
    unfolding store_ok_def st'
  proof (intro conjI allI impI)
    show "bm_ok (js_jobs (st\<lparr>js_next_id := ?n + 1, js_jobs := bm_insert ?n ?j (js_jobs st)\<rparr>))"
      using st by (simp add: store_ok_def)
    fix a x assume a: "bm_get (js_jobs (st\<lparr>js_next_id := ?n + 1, js_jobs := bm_insert ?n ?j (js_jobs st)\<rparr>)) a = Some x"
    show "job_ok x" using a lt(2)[of a x] new_job_ok by (auto split: if_splits)
    show "a < js_next_id (st\<lparr>js_next_id := ?n + 1, js_jobs := bm_insert ?n ?j (js_jobs st)\<rparr>)"
      using a f(2) lt(1)[of a x] by (auto split: if_splits)
    fix b y assume b: "bm_get (js_jobs (st\<lparr>js_next_id := ?n + 1, js_jobs := bm_insert ?n ?j (js_jobs st)\<rparr>)) b = Some y"
      "jr_key x = jr_key y"
    have key: "jr_key ?j = k" by (simp add: new_job_def)
    show "a = b"
    proof (cases "a = ?n \<or> b = ?n")
      case True
      then show ?thesis using a b fresh[of a x] fresh[of b y] key by (auto split: if_splits)
    next
      case False
      then have "bm_get (js_jobs st) a = Some x" "bm_get (js_jobs st) b = Some y" using a b by simp_all
      then show ?thesis using st b(2) unfolding store_ok_def by blast
    qed
  qed
  moreover have "jobs_move st (fst (snd (enqueue k p s m i st db)))"
    unfolding jobs_move_def st' using lt(1) by (auto intro: stay)
  ultimately show ?thesis by blast
qed

lemma complete_durable_store:
  assumes st: "store_ok st"
  shows "store_ok (fst (snd (complete_durable j a st db))) \<and> jobs_move st (fst (snd (complete_durable j a st db)))"
proof -
  have "fst (snd (complete_durable j a st db)) = st
    \<or> fst (snd (complete_durable j a st db)) = snd (complete j (ca_lease_generation a) (ca_now_tick a) (ca_outcome a)
         (ca_base_backoff a) (ca_max_backoff a) st)
    \<or> fst (snd (complete_durable j a st db)) = snd (record_connection_uncertain j st)"
    by (auto simp: complete_durable_def split: option.splits res.splits prod.splits bool.splits)
  then show ?thesis
    using st lawful_store[OF lawful_complete st] lawful_store[OF lawful_uncertain st]
    by (auto simp: complete_def record_connection_uncertain_def)
qed

lemma step_store:
  assumes st: "store_ok (fst s)"
  shows "store_ok (fst (job_step s c)) \<and> jobs_move (fst s) (fst (job_step s c))"
proof -
  obtain s1 db where s: "s = (s1, db)" by (cases s)
  have ok: "store_ok s1" using st s by simp
  note one = lawful_store[OF lawful_claim ok] lawful_store[OF lawful_heartbeat ok] lawful_store[OF lawful_begin ok]
    lawful_store[OF lawful_complete ok] lawful_store[OF lawful_uncertain ok] lawful_store[OF lawful_reconcile ok]
    lawful_store[OF lawful_cancel ok] lawful_store[OF lawful_advance ok]
  note folds = claim_def heartbeat_def begin_execution_def complete_def record_connection_uncertain_def
    reconcile_uncertain_def cancel_def advance_recurring_schedule_def
  show ?thesis
    unfolding s
    by (cases c)
       (simp_all add: one folds enqueue_store[OF ok] expire_store[OF ok] complete_durable_store[OF ok]
         set_current_revision_def ok[unfolded store_ok_def] store_ok_def[of "s1\<lparr>js_revision := _\<rparr>"])
qed

interpretation job: invariant_machine job_step "\<lambda>s. store_ok (fst s)"
  by unfold_locales (simp add: step_store)

lemma store_ok_new: "store_ok (job_store_new r)"
  by (simp add: store_ok_def job_store_new_def)

end
