(* ===== verification/JobClaims.thy ===== *)
theory JobClaims
  imports JobProps
begin

text \<open>
  The properties of the durable-job fixture of \<open>src/job_fixture.rs\<close>, from the invariant and the
  lifecycle to the durable completion and the lease generations.
\<close>

section \<open>The ledger after a confirmed commit\<close>

lemma update_rows_Ok:
  "update_rows kc kv sc nv m rows = (Ok n, rows') \<Longrightarrow>
     n = m + length (filter (\<lambda>r. row_get kc r = Some kv) rows)
     \<and> rows' = map (\<lambda>r. if row_get kc r = Some kv then r[sc := nv] else r) rows
     \<and> (\<forall>r \<in> set rows. row_get kc r = Some kv \<longrightarrow> sc < length r)"
proof (induction rows arbitrary: m n rows')
  case (Cons row rows)
  show ?case
  proof (cases "row_get kc row = Some kv")
    case False
    then obtain rows1 where "update_rows kc kv sc nv m rows = (Ok n, rows1)" "rows' = row # rows1"
      using Cons.prems by (auto split: prod.splits)
    with Cons.IH[OF this(1)] False show ?thesis by simp
  next
    case True
    then obtain x rows1 where "row_get sc row = Some x" "update_rows kc kv sc nv (m + 1) rows = (Ok n, rows1)"
      "rows' = row[sc := nv] # rows1"
      using Cons.prems by (auto split: prod.splits option.splits if_splits)
    with Cons.IH[OF this(2)] True show ?thesis by (auto simp: row_get_def split: if_splits)
  qed
qed simp

lemma filter_map_update:
  "(\<And>r. P (f r) = P r) \<Longrightarrow> filter P (map (\<lambda>r. if P r then f r else r) xs) = map f (filter P xs)"
  by (induction xs) auto

lemma commit_state_True:
  assumes "commit_state jid s db = (True, db')"
  shows "db_transaction db' = TxCommitted
     \<and> (\<exists>t row. bm_get (db_tables db') JOBS_TABLE = Some t
          \<and> filter (\<lambda>r. row_get 0 r = Some (DV_Usize jid)) (tb_rows t) = [row]
          \<and> row_get 2 row = Some (DV_Usize (word_of_nat (job_code s))))"
proof -
  let ?kv = "DV_Usize jid" and ?nv = "DV_Usize (word_of_nat (job_code s))"
  obtain db1 db2 u v where b: "db_begin db = (Ok u, db1)"
    and up: "update_column JOBS_TABLE 0 ?kv 2 ?nv db1 = (Ok 1, db2)"
    and c: "db_commit db2 = (Ok v, db')"
    using assms by (auto simp: commit_state_def split: prod.splits res.splits if_splits)
  obtain t rows where t: "update_rows 0 ?kv 2 ?nv 0 (tb_rows t) = (Ok 1, rows)"
    and db2: "db2 = db1\<lparr>db_tables := bm_insert JOBS_TABLE (t\<lparr>tb_rows := rows\<rparr>) (db_tables db1)\<rparr>"
    using up by (auto simp: update_column_def split: option.splits prod.splits)
  have tx: "db_transaction db' = TxCommitted" and tables: "db_tables db' = db_tables db2"
    using c by (auto simp: db_commit_def Let_def split: if_splits)
  let ?match = "\<lambda>r. row_get 0 r = Some ?kv"
  have one: "length (filter ?match (tb_rows t)) = 1"
    and rows: "rows = map (\<lambda>r. if ?match r then r[2 := ?nv] else r) (tb_rows t)"
    and wide: "\<forall>r \<in> set (tb_rows t). ?match r \<longrightarrow> 2 < length r"
    using update_rows_Ok[OF t] by simp_all
  have keep: "?match (r[2 := x]) = ?match r" for r x by (simp add: row_get_def)
  have "filter ?match rows = map (\<lambda>r. r[2 := ?nv]) (filter ?match (tb_rows t))"
    unfolding rows by (rule filter_map_update) (rule keep)
  moreover obtain r where r: "filter ?match (tb_rows t) = [r]" using one by (auto simp: length_Suc_conv)
  ultimately have f: "filter ?match rows = [r[2 := ?nv]]" by simp
  have "r \<in> set (filter ?match (tb_rows t))" using r by simp
  then have "r \<in> set (tb_rows t)" "?match r" by simp_all
  then have "row_get 2 (r[2 := ?nv]) = Some ?nv" using wide by (simp add: row_get_def)
  then show ?thesis using tx tables f by (simp add: db2)
qed

lemma complete_state:
  assumes "complete_job g t out b m job = (Ok s, job')"
  shows "s = ledger_state out job \<and> jr_state job' = s"
  using assms
  by (auto simp: complete_job_def ledger_state_def projected_state_def Let_def job_try_def
      split: if_splits res.splits)

section \<open>Backoff and recurrence\<close>

lemma backoff_loop_exact:
  "ticks \<le> m \<Longrightarrow> unat (backoff_loop n ticks m) = min (unat ticks * 2 ^ n) (unat m)"
proof (induction n ticks m rule: backoff_loop.induct)
  case (1 ticks m)
  then show ?case by (simp add: word_le_nat_alt)
next
  case (2 n ticks m)
  show ?case
  proof (cases "m \<le> ticks")
    case True
    then have "unat ticks = unat m" using 2 by (simp add: word_le_nat_alt)
    moreover have "unat m \<le> unat m * 2 ^ Suc n" by simp
    ultimately show ?thesis using True by (simp add: min_absorb2)
  next
    case False
    let ?t = "min (u_saturating_mul ticks 2) m"
    have "unat ?t = min (min (unat ticks * 2) (2 ^ 64 - 1)) (unat m)"
      by (simp add: min_def word_le_nat_alt unat_u_saturating_mul)
    also have "\<dots> = min (unat ticks * 2) (unat m)"
      using unsigned_less[of m, where 'a = nat] by simp
    finally have t: "unat ?t = min (unat ticks * 2) (unat m)" .
    have "unat (backoff_loop (Suc n) ticks m) = min (unat ?t * 2 ^ n) (unat m)"
      using 2 False by simp
    also have "\<dots> = min (unat ticks * 2 ^ Suc n) (unat m)"
    proof (cases "unat ticks * 2 \<le> unat m")
      case True
      then show ?thesis by (simp add: t mult.assoc)
    next
      case big: False
      have "unat m \<le> unat m * 2 ^ n" "unat m \<le> unat ticks * 2 * 2 ^ n"
        using big by (simp_all add: le_trans[of _ "unat ticks * 2"])
      then show ?thesis using big by (simp add: t mult.assoc)
    qed
    finally show ?thesis .
  qed
qed

lemma recurring_next_run_Ok:
  assumes "recurring_next_run n i now m = Ok x"
  shows "unat x = unat n + unat i * (min ((unat now - unat n) div unat i) (unat m) + 1) \<and> 0 < unat i"
proof -
  have i: "i \<noteq> 0" using assms by (auto simp: recurring_next_run_def)
  let ?missed = "u_saturating_sub now n div i"
  obtain steps ahead where s: "u_checked_add (min ?missed m) 1 = Some steps" "u_checked_mul i steps = Some ahead"
    "u_checked_add n ahead = Some x"
    using assms i by (auto simp: recurring_next_run_def Let_def res_iff)
  have "unat ?missed = (unat now - unat n) div unat i"
    by (simp add: unat_div unat_u_saturating_sub)
  then have "unat (min ?missed m) = min ((unat now - unat n) div unat i) (unat m)"
    by (simp add: min_def word_le_nat_alt)
  then show ?thesis
    using u_checked_add_Some[OF s(1)] u_checked_mul_Some[OF s(2)] u_checked_add_Some[OF s(3)] i
    by (simp add: unat_gt_0)
qed

section \<open>Runs\<close>

abbreviation job_run :: "u8 \<Rightarrow> database \<Rightarrow> job_call list \<Rightarrow> job_store \<times> database" where
  "job_run r db calls \<equiv> foldl job_step (job_store_new r, db) calls"

lemma run_ok: "store_ok (fst (job_run r db calls))"
  by (rule job.inv_run) (simp add: store_ok_new)

lemma terminal_run:
  "store_ok (fst s) \<Longrightarrow> state_of (fst s) jid = Some t \<Longrightarrow> t \<in> {PermanentFailure, Cancelled, DeadLettered} \<Longrightarrow>
     state_of (fst (foldl job_step s calls)) jid = Some t"
proof (induction calls arbitrary: s)
  case (Cons c calls)
  note st = step_store[OF Cons.prems(1), of c]
  obtain job where job: "bm_get (js_jobs (fst s)) jid = Some job" "jr_state job = t"
    using Cons.prems(2) by (auto simp: state_of_def)
  obtain job' where "bm_get (js_jobs (fst (job_step s c))) jid = Some job'" "job_edge t (jr_state job')"
    using st job unfolding jobs_move_def by blast
  then have "state_of (fst (job_step s c)) jid = Some t"
    using Cons.prems(3) by (auto simp: state_of_def)
  with Cons.IH[of "job_step s c"] st Cons.prems(3) show ?case by simp
qed simp

lemma enqueue_Created:
  assumes "fst (enqueue k p s m i st db) = Ok (Created jid)"
  shows "jid = js_next_id st \<and> fst (snd (enqueue k p s m i st db)) = st\<lparr>js_next_id := js_next_id st + 1,
     js_jobs := bm_insert jid (new_job k p s m i (js_revision st)) (js_jobs st)\<rparr>"
proof -
  have "\<exists>n. (u_add (js_next_id st) 1 :: (job_error, u64) res) = Ok n \<and> jid = js_next_id st
      \<and> fst (snd (enqueue k p s m i st db)) = st\<lparr>js_next_id := n,
           js_jobs := bm_insert jid (new_job k p s m i (js_revision st)) (js_jobs st)\<rparr>"
    using assms by (auto simp: enqueue_def split: option.splits prod.splits res.splits if_splits)
  then show ?thesis by (auto simp: u_add_def u_checked_add_def split: if_splits)
qed

section \<open>Properties\<close>

text \<open>
  C10: the invariant of the job store: after any sequence of calls every job holds a lease exactly
  while it is leased or running, a running job is marked as having run, a scheduled job has a due
  tick, no job rests in \<open>RetryableFailure\<close>, attempts stay within the ceiling plus one, ids stay
  below the next id and no two jobs share an idempotency key.
\<close>

theorem job_store_invariant: "store_ok (fst (job_run r db calls))"
  by (rule job.inv_run) (simp add: store_ok_new)

text \<open>
  C12: the store refines the lifecycle: whatever call comes next in any run, every job that existed
  still exists under the same key, and its state stayed or moved along an edge of the lifecycle.
\<close>

theorem job_follows_lifecycle:
  "jobs_move (fst (job_run r db calls)) (fst (job_step (job_run r db calls) c))"
  by (simp add: step_store[OF run_ok])

text \<open>
  Permanent failure, cancellation and dead-lettering are final: no later call of any kind
  moves such a job to another state.
\<close>

theorem terminal_absorbing:
  assumes "state_of (fst (job_run r db calls)) jid = Some t"
    and "t \<in> {PermanentFailure, Cancelled, DeadLettered}"
  shows "state_of (fst (job_run r db (calls @ later))) jid = Some t"
  using terminal_run[OF run_ok assms] by simp

definition sample_ledger :: database where
  "sample_ledger = snd (install_ledger_schema db_new)"

definition sample_enqueue :: job_call where
  "sample_enqueue = Jc_Enqueue [1] [2] None 3 True"

theorem terminal_absorbing_witness:
  "state_of (fst (job_run 1 sample_ledger [sample_enqueue, Jc_Cancel 1, Jc_Claim 1 7 0 10])) 1 = Some Cancelled"
proof -
  have "state_of (fst (job_run 1 sample_ledger [sample_enqueue, Jc_Cancel 1])) 1 = Some Cancelled" by code_simp
  from terminal_absorbing[OF this, of "[Jc_Claim 1 7 0 10]"] show ?thesis by simp
qed

text \<open>
  Enqueue is idempotent in the key: once a key has created a job, enqueuing it again with any
  payload, schedule or ceiling changes neither the store nor the ledger, and answers with the
  first job's id for the same payload and with a conflict for another.
\<close>

theorem enqueue_idempotent:
  assumes "fst (enqueue k p s m i (fst (job_run r db calls)) db') = Ok (Created jid)"
  shows "(let st = fst (snd (enqueue k p s m i (fst (job_run r db calls)) db')) in
            enqueue k p' s' m' i' st db'' = ((if p' = p then Ok (Duplicate jid) else Ok Conflict), st, db''))"
proof -
  let ?st = "fst (job_run r db calls)"
  let ?st' = "fst (snd (enqueue k p s m i ?st db'))"
  have jid: "jid = js_next_id ?st" and st': "?st' = ?st\<lparr>js_next_id := js_next_id ?st + 1,
        js_jobs := bm_insert jid (new_job k p s m i (js_revision ?st)) (js_jobs ?st)\<rparr>"
    using enqueue_Created[OF assms] by simp_all
  have ok: "store_ok ?st'" using enqueue_store[OF run_ok] by blast
  have get: "bm_get (js_jobs ?st') jid = Some (new_job k p s m i (js_revision ?st))" by (simp add: st')
  have key: "jr_key (new_job k p s m i (js_revision ?st)) = k" by (simp add: new_job_def)
  obtain i0 j0 where f: "List.find (\<lambda>(_, job). jr_key job = k) (js_jobs ?st') = Some (i0, j0)"
    using bm_get_in_set[OF get] key
    by (cases "List.find (\<lambda>(_, job). jr_key job = k) (js_jobs ?st')") (auto simp: find_None_iff)
  then have "bm_get (js_jobs ?st') i0 = Some j0" "jr_key j0 = k"
    using find_SomeD[OF f] ok in_set_bm_get by (auto simp: store_ok_def)
  then have "i0 = jid" using ok get unfolding store_ok_def by (simp add: new_job_def)
  with \<open>bm_get (js_jobs ?st') i0 = Some j0\<close> get have "j0 = new_job k p s m i (js_revision ?st)" by simp
  then show ?thesis using f \<open>i0 = jid\<close> by (simp add: enqueue_def[of k p'] Let_def new_job_def)
qed

theorem enqueue_idempotent_witness:
  "(let st = fst (snd (enqueue [1] [2] None 3 True (job_store_new 1) sample_ledger)) in
      enqueue [1] [9] None 1 False st sample_ledger = (Ok Conflict, st, sample_ledger))"
proof -
  have "fst (enqueue [1] [2] None 3 True (fst (job_run 1 sample_ledger [])) sample_ledger) = Ok (Created 1)"
    by code_simp
  from enqueue_idempotent[OF this, of "[9]" None 1 False sample_ledger] show ?thesis by (simp add: Let_def)
qed

text \<open>
  C33: a durable completion is durable: when it answers a state other than \<open>Uncertain\<close>, the ledger
  transaction is committed, the job's single ledger row holds the code of exactly that state, and
  the store holds the same state; a commit that is not confirmed is never answered as a success.
\<close>

theorem durable_completion_recorded:
  assumes "complete_durable jid a st db = (Ok s, st', db')" and "s \<noteq> Uncertain"
  shows "db_transaction db' = TxCommitted \<and> state_of st' jid = Some s
     \<and> (\<exists>t row. bm_get (db_tables db') JOBS_TABLE = Some t
          \<and> filter (\<lambda>r. row_get 0 r = Some (DV_Usize jid)) (tb_rows t) = [row]
          \<and> row_get 2 row = Some (DV_Usize (word_of_nat (job_code s))))"
proof -
  obtain job st1 where job: "bm_get (js_jobs st) jid = Some job"
    and c: "commit_state jid (ledger_state (ca_outcome a) job) db = (True, db')"
    and m: "complete jid (ca_lease_generation a) (ca_now_tick a) (ca_outcome a)
        (ca_base_backoff a) (ca_max_backoff a) st = (Ok s, st')"
    using assms
    by (auto simp: complete_durable_def split: option.splits if_splits res.splits prod.splits bool.splits)
  obtain job' where "complete_job (ca_lease_generation a) (ca_now_tick a) (ca_outcome a)
      (ca_base_backoff a) (ca_max_backoff a) job = (Ok s, job')" "st' = st\<lparr>js_jobs := bm_insert jid job' (js_jobs st)\<rparr>"
    using m job by (auto simp: complete_def job_mut_def split: prod.splits)
  then have "s = ledger_state (ca_outcome a) job" "state_of st' jid = Some s"
    using complete_state by (auto simp: state_of_def)
  then show ?thesis using commit_state_True[OF c] by simp
qed

definition sample_attempt :: completion_attempt where
  "sample_attempt = \<lparr>ca_lease_generation = 1, ca_now_tick = 2, ca_outcome = Out_Success,
     ca_base_backoff = 1, ca_max_backoff = 100\<rparr>"

definition sample_running :: "job_store \<times> database" where
  "sample_running = job_run 1 sample_ledger [sample_enqueue, Jc_Claim 1 7 0 10, Jc_Begin 1 1 1]"

theorem durable_completion_recorded_witness:
  "(case complete_durable 1 sample_attempt (fst sample_running) (snd sample_running) of
      (Ok s, st', db') \<Rightarrow> s = Succeeded \<and> db_transaction db' = TxCommitted \<and> state_of st' 1 = Some Succeeded
    | _ \<Rightarrow> False)"
proof -
  have "(case fst (complete_durable 1 sample_attempt (fst sample_running) (snd sample_running)) of
      Ok s \<Rightarrow> s = Succeeded | _ \<Rightarrow> False)" by code_simp
  then obtain st' db' where "complete_durable 1 sample_attempt (fst sample_running) (snd sample_running)
      = (Ok Succeeded, st', db')"
    by (cases "complete_durable 1 sample_attempt (fst sample_running) (snd sample_running)") (auto split: res.splits)
  with durable_completion_recorded[OF this] show ?thesis by simp
qed

text \<open>
  The backoff loop computes the capped exponential exactly: doubling from the capped base with
  saturation and early exit gives the minimum of base times two to the attempt and the ceiling.
\<close>

theorem backoff_exact:
  "unat (retry_backoff_ticks attempt base ceiling) = min (unat base * 2 ^ unat attempt) (unat ceiling)"
proof -
  have "unat (min base ceiling) = min (unat base) (unat ceiling)" by (simp add: min_def word_le_nat_alt)
  then have "unat (retry_backoff_ticks attempt base ceiling)
      = min (min (unat base) (unat ceiling) * 2 ^ unat attempt) (unat ceiling)"
    by (simp add: retry_backoff_ticks_def backoff_loop_exact)
  also have "\<dots> = min (unat base * 2 ^ unat attempt) (unat ceiling)"
  proof (cases "unat base \<le> unat ceiling")
    case False
    have "unat ceiling \<le> unat ceiling * 2 ^ unat attempt" "unat ceiling \<le> unat base * 2 ^ unat attempt"
      using False by (simp_all add: le_trans[of _ "unat base"])
    then show ?thesis using False by (simp add: min_absorb2)
  qed simp
  finally show ?thesis .
qed

text \<open>
  The next occurrence of a recurring job is exact and never in the past beyond the catch-up
  bound: it is the previous tick plus a whole number of intervals, one more than the windows
  missed or the bound on them, computed without overflow, and when the bound was not reached it
  lies strictly after now.
\<close>

theorem recurrence_exact:
  assumes "recurring_next_run next_run interval now max_catch_up = Ok tick"
  shows "unat tick = unat next_run
       + unat interval * (min ((unat now - unat next_run) div unat interval) (unat max_catch_up) + 1)
     \<and> next_run < tick
     \<and> ((unat now - unat next_run) div unat interval \<le> unat max_catch_up \<longrightarrow> now < tick)"
proof -
  note r = recurring_next_run_Ok[OF assms]
  have "unat now < unat tick" if "(unat now - unat next_run) div unat interval \<le> unat max_catch_up"
  proof -
    have "unat now - unat next_run < unat interval * ((unat now - unat next_run) div unat interval + 1)"
      using r dividend_less_times_div[of "unat interval" "unat now - unat next_run"] by (simp add: add.commute)
    then show ?thesis using r that by (simp add: min_absorb1)
  qed
  then show ?thesis using r by (simp add: word_less_nat_alt)
qed

theorem recurrence_exact_witness:
  "recurring_next_run 100 10 999 2 = Ok 130 \<and> (100 :: u64) < 130"
proof -
  have e: "recurring_next_run 100 10 999 2 = Ok 130" by code_simp
  then show ?thesis using recurrence_exact[OF e] by simp
qed

text \<open>
  Every successful claim, in any run, grants lease generation one: the generation is derived
  from the lease the job still holds, and a claimable job holds none.
\<close>

theorem claim_generation_constant:
  assumes "claim jid w now ticks (fst (job_run r db calls)) = (Ok (jg, lg, dl), st')"
  shows "lg = 1 \<and> dl = now + ticks"
proof -
  obtain job where job: "bm_get (js_jobs (fst (job_run r db calls))) jid = Some job"
    using assms by (auto simp: claim_def job_mut_def split: option.splits)
  then obtain job' where "claim_job w now ticks job = (Ok (jg, lg, dl), job')"
    using assms by (auto simp: claim_def job_mut_def split: prod.splits)
  moreover have "job_ok job" using run_ok[of r db calls] job by (simp add: store_ok_def)
  ultimately show ?thesis using claim_generation by blast
qed

theorem claim_generation_constant_witness:
  "fst (claim 1 8 11 10 (fst (job_run 1 sample_ledger [sample_enqueue, Jc_Claim 1 7 0 10, Jc_Expire 10])))
     = Ok (1, 1, 21)"
proof -
  let ?st = "fst (job_run 1 sample_ledger [sample_enqueue, Jc_Claim 1 7 0 10, Jc_Expire 10])"
  have c: "(case claim 1 8 11 10 ?st of (Ok (jg, lg, dl), st') \<Rightarrow> jg = 1 | _ \<Rightarrow> False)" by code_simp
  then obtain lg dl st' where e: "claim 1 8 11 10 ?st = (Ok (1, lg, dl), st')" by (auto split: prod.splits res.splits)
  then show ?thesis using claim_generation_constant[OF e] by simp
qed

lemma complete_current:
  assumes "bm_get (js_jobs st) jid = Some job" and "jr_state job = Running" and "jr_lease job = Some l"
    and "le_generation l = g" and "now < le_deadline_tick l"
  shows "\<exists>st'. complete jid g now Out_Success b m st = (Ok Succeeded, st')
     \<and> state_of st' jid = Some Succeeded \<and> leased_worker_id st' jid = None"
  using assms
  by (simp add: complete_def job_mut_def complete_job_def current_lease_def lease_is_current_def job_try_def
      attempt_after_def retry_next_state_after_outcome_def job_from_code_def Let_def state_of_def leased_worker_id_def)

text \<open>
  C39: A worker whose lease has expired is not kept out.  In any run, when a worker holds a lease, the
  sweep at or after its deadline takes the lease back, and later, after whatever calls, another worker
  is running the job under a lease of its own, then the first worker can still complete the job with
  the generation of its expired lease, as long as the second lease is in time: the completion is
  accepted, the job is \<open>Succeeded\<close> and the second worker's lease is gone.
\<close>

theorem stale_lease_accepted:
  fixes r :: u8 and db :: database
  defines "st \<equiv> \<lambda>calls. fst (job_run r db calls)"
  assumes "bm_get (js_jobs (st before)) jid = Some old" and "jr_lease old = Some expired"
    and "le_deadline_tick expired \<le> tick"
    and "bm_get (js_jobs (st (before @ Jc_Expire tick # later))) jid = Some job" and "jr_state job = Running"
    and "jr_lease job = Some l" and "le_worker_id l \<noteq> le_worker_id expired" and "now < le_deadline_tick l"
  shows "leased_worker_id (st (before @ Jc_Expire tick # later)) jid = Some (le_worker_id l)
     \<and> (\<exists>st'. complete jid (le_generation expired) now Out_Success b m (st (before @ Jc_Expire tick # later)) = (Ok Succeeded, st')
          \<and> state_of st' jid = Some Succeeded \<and> leased_worker_id st' jid = None)"
proof -
  have "job_ok old" "job_ok job"
    using run_ok[of r db before] run_ok[of r db "before @ Jc_Expire tick # later"] assms(2,5) unfolding st_def
    by (auto simp: store_ok_def)
  then have "le_generation expired = 1" "le_generation l = 1" using assms(3,7) by (simp_all add: job_ok_def)
  then have "le_generation l = le_generation expired" by simp
  from complete_current[OF assms(5-7) this assms(9)] show ?thesis using assms(5,7) by (simp add: leased_worker_id_def)
qed

text \<open>Worker 7 claims and starts, its lease expires, worker 8 claims and starts the same job.\<close>

definition sample_before :: "job_call list" where
  "sample_before = [sample_enqueue, Jc_Claim 1 7 0 10, Jc_Begin 1 1 1]"

definition sample_later :: "job_call list" where
  "sample_later = [Jc_Claim 1 8 11 10, Jc_Begin 1 1 12]"

lemma sample_expired:
  "(case bm_get (js_jobs (fst (job_run 1 sample_ledger sample_before))) 1 of None \<Rightarrow> False
    | Some job \<Rightarrow> jr_lease job = Some \<lparr>le_worker_id = 7, le_generation = 1, le_deadline_tick = 10\<rparr>)"
  by code_simp

lemma sample_taken:
  "(case bm_get (js_jobs (fst (job_run 1 sample_ledger (sample_before @ Jc_Expire 10 # sample_later)))) 1 of None \<Rightarrow> False
    | Some job \<Rightarrow> jr_state job = Running \<and> jr_lease job = Some \<lparr>le_worker_id = 8, le_generation = 1, le_deadline_tick = 21\<rparr>)"
  by code_simp

theorem stale_lease_accepted_witness:
  "leased_worker_id (fst (job_run 1 sample_ledger (sample_before @ Jc_Expire 10 # sample_later))) 1 = Some 8
   \<and> (\<exists>st'. complete 1 1 13 Out_Success 1 1 (fst (job_run 1 sample_ledger (sample_before @ Jc_Expire 10 # sample_later))) = (Ok Succeeded, st')
        \<and> state_of st' 1 = Some Succeeded)"
proof -
  obtain old job where j: "bm_get (js_jobs (fst (job_run 1 sample_ledger sample_before))) 1 = Some old"
    "jr_lease old = Some \<lparr>le_worker_id = 7, le_generation = 1, le_deadline_tick = 10\<rparr>"
    "bm_get (js_jobs (fst (job_run 1 sample_ledger (sample_before @ Jc_Expire 10 # sample_later)))) 1 = Some job"
    "jr_state job = Running" "jr_lease job = Some \<lparr>le_worker_id = 8, le_generation = 1, le_deadline_tick = 21\<rparr>"
    using sample_expired sample_taken by (auto split: option.splits)
  from stale_lease_accepted[OF j(1,2) _ j(3-5), of 13 1 1] show ?thesis by auto
qed

end
