(* ===== verification/ScopedTasks.thy ===== *)
theory ScopedTasks
  imports ResolverGraph "HOL-Library.Product_Lexorder"
begin

text \<open>
  The structured-concurrency model of \<open>src/scoped_tasks.rs\<close>: the validated scope tree with its task
  graph (\<open>ScopedTaskModel::try_new\<close>).  A \<open>DeclarationId\<close> is its text.  The SHA-256 behind the
  fingerprints is a parameter.  A loop that climbs parents is bounded by the number of scopes,
  which is enough in a validated model (\<open>scope_lineage_step\<close> gives back the loop's own equation).
\<close>

section \<open>Specifications\<close>

type_synonym decl_id = string

definition SCOPED_TASKS_MODEL_V1 :: string where
  "SCOPED_TASKS_MODEL_V1 = ''semaprax.scoped-tasks-model.v1''"

definition SCOPED_TASKS_TRACE_V1 :: string where
  "SCOPED_TASKS_TRACE_V1 = ''semaprax.scoped-tasks-trace.v1''"

definition MAX_SCOPES :: nat where "MAX_SCOPES = 4096"
definition MAX_TASKS :: nat where "MAX_TASKS = 4096"
definition MAX_DEPENDENCIES :: nat where "MAX_DEPENDENCIES = 65536"
definition ST_MAX_WORK_UNITS :: nat where "ST_MAX_WORK_UNITS = 1000000"

definition MODEL_FINGERPRINT_DOMAIN :: string where
  "MODEL_FINGERPRINT_DOMAIN = ''semaprax.scoped-tasks-model-fingerprint.v1'' @ [CHR 0x00]"

definition TRACE_FINGERPRINT_DOMAIN :: string where
  "TRACE_FINGERPRINT_DOMAIN = ''semaprax.scoped-tasks-trace-fingerprint.v1'' @ [CHR 0x00]"

datatype sendable_mark = Sendable | NotSendable
datatype shareable_mark = Shareable | NotShareable
datatype failure_kind = Semantic | Physical u32
datatype task_outcome = Succeed | Fail failure_kind

record scope_spec =
  ss_id :: decl_id
  ss_parent :: "decl_id option"

record task_spec =
  tsp_id :: decl_id
  tsp_scope :: decl_id
  tsp_sendable :: sendable_mark
  tsp_shareable :: shareable_mark
  tsp_outcome :: task_outcome

record scope_join =
  sj_waiter :: decl_id
  sj_target :: decl_id

record dependency_edge =
  de_prerequisite :: decl_id
  de_dependent :: decl_id

record scope_entry =
  se_parent :: "decl_id option"
  se_depth :: u32

record task_entry =
  te_scope :: decl_id
  te_sendable :: sendable_mark
  te_shareable :: shareable_mark
  te_outcome :: task_outcome

type_synonym scope_map = "(decl_id, scope_entry) bmap"
type_synonym task_map = "(decl_id, task_entry) bmap"

record scoped_task_model =
  sm_schema :: string
  sm_root :: decl_id
  sm_scopes :: scope_map
  sm_tasks :: task_map
  sm_dependencies :: "(decl_id \<times> decl_id) bset"
  sm_joins :: "(decl_id, decl_id) bmap"
  sm_children :: "(decl_id, decl_id bset) bmap"
  sm_fingerprint :: string

datatype scoped_tasks_error =
    MissingRoot | MultipleRoots | InvalidIdentity | DuplicateScope | DuplicateTask | UnknownScope
  | UnknownTask | ScopeCycle | ScopeBoundExceeded | TaskBoundExceeded | DependencyBoundExceeded
  | WorkBudgetExceeded | SelfDependency | DuplicateDependency | EscapingDependency | DependencyCycle
  | UnjoinedChildScope | OrphanJoin | DoubleJoin | InvalidFailureCode | RunAlreadyComplete
  | RunNotComplete | FrameBindingMismatch

type_synonym 'a st_res = "(scoped_tasks_error, 'a) res"

section \<open>Canonical text\<close>

fun join_with :: "string \<Rightarrow> string list \<Rightarrow> string" where
  "join_with sep [] = []"
| "join_with sep [x] = x"
| "join_with sep (x # y # xs) = x @ sep @ join_with sep (y # xs)"

fun sendable_name :: "sendable_mark \<Rightarrow> string" where
  "sendable_name Sendable = ''sendable''"
| "sendable_name NotSendable = ''not_sendable''"

fun shareable_name :: "shareable_mark \<Rightarrow> string" where
  "shareable_name Shareable = ''shareable''"
| "shareable_name NotShareable = ''not_shareable''"

definition json_object :: "(string \<times> string) list \<Rightarrow> string" where
  "json_object members = ''{'' @ join_with '','' (map (\<lambda>(k, v). quote_json k @ '':'' @ v) members) @ ''}''"

definition json_array :: "string list \<Rightarrow> string" where
  "json_array items = ''['' @ join_with '','' items @ '']''"

fun failure_json :: "failure_kind \<Rightarrow> string" where
  "failure_json Semantic = json_object [(''kind'', quote_json ''semantic'')]"
| "failure_json (Physical code) =
     json_object [(''kind'', quote_json ''physical''), (''code'', show_nat (unat code))]"

fun outcome_json :: "task_outcome \<Rightarrow> string" where
  "outcome_json Succeed = json_object [(''kind'', quote_json ''succeed'')]"
| "outcome_json (Fail failure) = json_object [(''kind'', quote_json ''fail''), (''failure'', failure_json failure)]"

definition model_json :: "scoped_task_model \<Rightarrow> string" where
  "model_json m =
     json_object
       [(''schema'', quote_json (sm_schema m)), (''root'', quote_json (sm_root m)),
        (''scopes'', json_array (map (\<lambda>(i, e). json_object
            [(''id'', quote_json i),
             (''parent'', case se_parent e of None \<Rightarrow> ''null'' | Some p \<Rightarrow> quote_json p)]) (sm_scopes m))),
        (''tasks'', json_array (map (\<lambda>(i, e). json_object
            [(''id'', quote_json i), (''scope'', quote_json (te_scope e)),
             (''sendable'', quote_json (sendable_name (te_sendable e))),
             (''shareable'', quote_json (shareable_name (te_shareable e))),
             (''outcome'', outcome_json (te_outcome e))]) (sm_tasks m))),
        (''dependencies'', json_array (map (\<lambda>(p, d). json_array [quote_json p, quote_json d]) (sm_dependencies m))),
        (''joins'', json_array (map (\<lambda>(target, waiter). json_object
            [(''waiter'', quote_json waiter), (''target'', quote_json target)]) (sm_joins m)))]"

text \<open>The length as eight little-endian bytes, and the digest over domain, length and bytes.\<close>

definition le_bytes :: "nat \<Rightarrow> string" where
  "le_bytes n = map (\<lambda>i. char_of (n div 256 ^ i mod 256)) [0..<8]"

definition st_fingerprint :: "(string \<Rightarrow> string) \<Rightarrow> string \<Rightarrow> string \<Rightarrow> string" where
  "st_fingerprint sha256 domain bytes = sha256 (domain @ le_bytes (length bytes) @ bytes)"

section \<open>Scopes\<close>

definition st_validate_identity :: "string \<Rightarrow> unit st_res" where
  "st_validate_identity name =
     (if name = [] \<or> CHR 0x00 \<in> set name then Err InvalidIdentity else Ok ())"

fun declare_scopes ::
  "scope_spec list \<Rightarrow> (decl_id, decl_id option) bmap \<Rightarrow> (decl_id, decl_id option) bmap st_res" where
  "declare_scopes [] parents = Ok parents"
| "declare_scopes (s # ss) parents =
     res_bind (st_validate_identity (ss_id s)) (\<lambda>_.
       if bm_contains parents (ss_id s) then Err DuplicateScope
       else declare_scopes ss (bm_insert (ss_id s) (ss_parent s) parents))"

definition count_roots :: "scope_spec list \<Rightarrow> nat" where
  "count_roots scopes = length (filter (\<lambda>s. ss_parent s = None) scopes)"

fun check_parents :: "(decl_id, decl_id option) bmap \<Rightarrow> scope_spec list \<Rightarrow> unit st_res" where
  "check_parents parents [] = Ok ()"
| "check_parents parents (s # ss) =
     (case ss_parent s of
        None \<Rightarrow> check_parents parents ss
      | Some p \<Rightarrow>
        if ss_id s = p then Err ScopeCycle
        else if \<not> bm_contains parents p then Err UnknownScope
        else check_parents parents ss)"

text \<open>
  \<open>canonical_depths\<close>: climb from a scope to one whose depth is known or to the root, then number
  the climbed scopes on the way back.
\<close>

function climb ::
  "(decl_id, decl_id option) bmap \<Rightarrow> (decl_id, u32) bmap \<Rightarrow> decl_id list \<Rightarrow> decl_id
     \<Rightarrow> (u32 \<times> decl_id list \<times> decl_id) st_res" where
  "climb parents depths stack cursor =
     (case bm_get depths cursor of
        Some known \<Rightarrow> Ok (known, stack, cursor)
      | None \<Rightarrow>
        (case bm_get parents cursor of
           None \<Rightarrow> Panic
         | Some None \<Rightarrow> Ok (0, stack, cursor)
         | Some (Some parent) \<Rightarrow>
             if length parents < Suc (length stack) then Err ScopeCycle
             else climb parents depths (stack @ [cursor]) parent))"
  by pat_completeness auto
termination
  by (relation "measure (\<lambda>(parents, depths, stack, cursor). Suc (length parents) - length stack)") auto

declare climb.simps [simp del]

fun number_back :: "decl_id list \<Rightarrow> u32 \<Rightarrow> (decl_id, u32) bmap \<Rightarrow> (decl_id, u32) bmap st_res" where
  "number_back [] running depths = Ok depths"
| "number_back (name # names) running depths =
     res_bind (ok_or ScopeCycle (u_checked_add running 1)) (\<lambda>next.
       number_back names next (bm_insert name next depths))"

definition depth_of_one ::
  "(decl_id, decl_id option) bmap \<Rightarrow> decl_id \<Rightarrow> (decl_id, u32) bmap \<Rightarrow> (decl_id, u32) bmap st_res" where
  "depth_of_one parents i depths =
     res_bind (climb parents depths [] i) (\<lambda>(base, stack, cursor).
     res_bind (number_back (rev stack) base depths) (\<lambda>depths'.
       Ok (case bm_get depths' cursor of Some _ \<Rightarrow> depths' | None \<Rightarrow> bm_insert cursor base depths')))"

fun depths_loop ::
  "(decl_id, decl_id option) bmap \<Rightarrow> decl_id list \<Rightarrow> (decl_id, u32) bmap \<Rightarrow> (decl_id, u32) bmap st_res" where
  "depths_loop parents [] depths = Ok depths"
| "depths_loop parents (i # is) depths = res_bind (depth_of_one parents i depths) (depths_loop parents is)"

definition canonical_depths :: "(decl_id, decl_id option) bmap \<Rightarrow> (decl_id, u32) bmap st_res" where
  "canonical_depths parents = depths_loop parents (bm_keys parents) bm_empty"

text \<open>The entries: \<open>depths[id]\<close> panics on an id without a depth.\<close>

fun scope_entries ::
  "(decl_id, u32) bmap \<Rightarrow> (decl_id, decl_id option) bmap \<Rightarrow> scope_map st_res" where
  "scope_entries depths [] = Ok []"
| "scope_entries depths ((i, parent) # parents) =
     res_bind (expect (bm_get depths i)) (\<lambda>depth.
     res_bind (scope_entries depths parents) (\<lambda>entries.
       Ok ((i, \<lparr>se_parent = parent, se_depth = depth\<rparr>) # entries)))"

definition add_child :: "decl_id \<Rightarrow> decl_id \<Rightarrow> (decl_id, decl_id bset) bmap \<Rightarrow> (decl_id, decl_id bset) bmap" where
  "add_child parent i m =
     bm_insert parent (bs_insert i (case bm_get m parent of None \<Rightarrow> [] | Some cs \<Rightarrow> cs)) m"

definition scope_children :: "scope_map \<Rightarrow> (decl_id, decl_id bset) bmap" where
  "scope_children scopes =
     fold (\<lambda>(i, e) m. case se_parent e of None \<Rightarrow> m | Some p \<Rightarrow> add_child p i m) scopes bm_empty"

text \<open>A scope and its ancestors, at most \<open>n\<close> of them, nearest first.\<close>

fun lineage :: "nat \<Rightarrow> scope_map \<Rightarrow> decl_id \<Rightarrow> decl_id list" where
  "lineage 0 scopes s = []"
| "lineage (Suc n) scopes s =
     s # (case bm_get scopes s of
            None \<Rightarrow> []
          | Some e \<Rightarrow> (case se_parent e of None \<Rightarrow> [] | Some p \<Rightarrow> lineage n scopes p))"

definition scope_lineage :: "scope_map \<Rightarrow> decl_id \<Rightarrow> decl_id list" where
  "scope_lineage scopes s = lineage (length scopes) scopes s"

definition is_self_or_ancestor :: "scope_map \<Rightarrow> decl_id \<Rightarrow> decl_id \<Rightarrow> bool" where
  "is_self_or_ancestor scopes start candidate \<longleftrightarrow> candidate \<in> set (scope_lineage scopes start)"

section \<open>Tasks, dependencies, joins\<close>

fun declare_tasks :: "scope_map \<Rightarrow> task_spec list \<Rightarrow> task_map \<Rightarrow> task_map st_res" where
  "declare_tasks scopes [] tasks = Ok tasks"
| "declare_tasks scopes (t # ts) tasks =
     res_bind (st_validate_identity (tsp_id t)) (\<lambda>_.
       if \<not> bm_contains scopes (tsp_scope t) then Err UnknownScope
       else if tsp_outcome t = Fail (Physical 0) then Err InvalidFailureCode
       else if bm_contains tasks (tsp_id t) then Err DuplicateTask
       else declare_tasks scopes ts
              (bm_insert (tsp_id t)
                 \<lparr>te_scope = tsp_scope t, te_sendable = tsp_sendable t,
                  te_shareable = tsp_shareable t, te_outcome = tsp_outcome t\<rparr> tasks))"

fun declare_dependencies ::
  "scope_map \<Rightarrow> task_map \<Rightarrow> dependency_edge list \<Rightarrow> (decl_id \<times> decl_id) bset \<Rightarrow> (decl_id \<times> decl_id) bset st_res" where
  "declare_dependencies scopes tasks [] deps = Ok deps"
| "declare_dependencies scopes tasks (e # es) deps =
     (case (bm_get tasks (de_prerequisite e), bm_get tasks (de_dependent e)) of
        (Some pe, Some de) \<Rightarrow>
          if de_prerequisite e = de_dependent e then Err SelfDependency
          else if \<not> is_self_or_ancestor scopes (te_scope de) (te_scope pe) then Err EscapingDependency
          else if bs_contains deps (de_prerequisite e, de_dependent e) then Err DuplicateDependency
          else declare_dependencies scopes tasks es (bs_insert (de_prerequisite e, de_dependent e) deps)
      | _ \<Rightarrow> Err UnknownTask)"

text \<open>\<open>validate_acyclic\<close>: Kahn's algorithm; \<open>None\<close> is a failed \<open>expect\<close> or an underflow.\<close>

fun count_degrees :: "(decl_id \<times> decl_id) list \<Rightarrow> (decl_id, nat) bmap \<Rightarrow> (decl_id, nat) bmap option" where
  "count_degrees [] degrees = Some degrees"
| "count_degrees ((p, d) # es) degrees =
     (case bm_get degrees d of None \<Rightarrow> None | Some c \<Rightarrow> count_degrees es (bm_insert d (c + 1) degrees))"

definition dependents_of :: "(decl_id \<times> decl_id) list \<Rightarrow> (decl_id, decl_id bset) bmap" where
  "dependents_of deps = fold (\<lambda>(p, d). add_child p d) deps bm_empty"

fun release ::
  "decl_id list \<Rightarrow> decl_id bset \<Rightarrow> (decl_id, nat) bmap \<Rightarrow> (decl_id bset \<times> (decl_id, nat) bmap) option" where
  "release [] ready degrees = Some (ready, degrees)"
| "release (d # ds) ready degrees =
     (case bm_get degrees d of
        None \<Rightarrow> None
      | Some 0 \<Rightarrow> None
      | Some (Suc c) \<Rightarrow>
          release ds (if c = 0 then bs_insert d ready else ready) (bm_modify d (\<lambda>n. n - 1) degrees))"

lemma release_size:
  "release ds ready degrees = Some (ready', degrees') \<Longrightarrow>
     sum_list (map snd degrees') + length ready' \<le> sum_list (map snd degrees) + length ready"
proof (induction ds ready degrees rule: release.induct)
  case (2 d ds ready degrees)
  then obtain c where c: "bm_get degrees d = Some (Suc c)" by (auto split: option.splits nat.splits)
  let ?r = "if c = 0 then bs_insert d ready else ready"
  have "sum_list (map snd degrees') + length ready'
      \<le> sum_list (map snd (bm_modify d (\<lambda>n. n - 1) degrees)) + length ?r"
    using "2.IH"[OF c refl] "2.prems" c by simp
  also have "\<dots> \<le> sum_list (map snd degrees) + length ready"
    using sum_modify_pred[OF c] length_bs_insert[of d ready] by simp
  finally show ?case .
qed simp

function drain ::
  "(decl_id, decl_id bset) bmap \<Rightarrow> decl_id bset \<Rightarrow> (decl_id, nat) bmap \<Rightarrow> nat \<Rightarrow> nat option" where
  "drain dependents ready degrees processed =
     (case ready of
        [] \<Rightarrow> Some processed
      | i # rest \<Rightarrow>
        (case release (case bm_get dependents i of None \<Rightarrow> [] | Some ds \<Rightarrow> ds) rest degrees of
           None \<Rightarrow> None
         | Some (ready', degrees') \<Rightarrow> drain dependents ready' degrees' (processed + 1)))"
  by pat_completeness auto
termination
proof (relation "measure (\<lambda>(dependents, ready, degrees, n). sum_list (map snd degrees) + length ready)", goal_cases)
  case (2 dependents ready degrees processed i rest x ready' degrees')
  then show ?case using release_size by fastforce
qed simp

declare drain.simps [simp del]

definition validate_acyclic :: "task_map \<Rightarrow> (decl_id \<times> decl_id) bset \<Rightarrow> unit st_res" where
  "validate_acyclic tasks deps =
     (case count_degrees deps (zero_table (bm_keys tasks)) of
        None \<Rightarrow> Panic
      | Some degrees \<Rightarrow>
        (case drain (dependents_of deps)
                (fold bs_insert (map fst (filter (\<lambda>(i, c). c = 0) degrees)) []) degrees 0 of
           None \<Rightarrow> Panic
         | Some processed \<Rightarrow> if processed \<noteq> length tasks then Err DependencyCycle else Ok ()))"

fun declare_joins ::
  "scope_map \<Rightarrow> decl_id \<Rightarrow> scope_join list \<Rightarrow> (decl_id, decl_id) bmap \<Rightarrow> (decl_id, decl_id) bmap st_res" where
  "declare_joins scopes root [] joins = Ok joins"
| "declare_joins scopes root (j # js) joins =
     (case (bm_get scopes (sj_waiter j), bm_get scopes (sj_target j)) of
        (Some _, Some target) \<Rightarrow>
          if sj_target j = root then Err OrphanJoin
          else res_bind (expect (se_parent target)) (\<lambda>actual_parent.
            if sj_waiter j \<noteq> actual_parent then Err OrphanJoin
            else if bm_contains joins (sj_target j) then Err DoubleJoin
            else declare_joins scopes root js (bm_insert (sj_target j) (sj_waiter j) joins))
      | _ \<Rightarrow> Err UnknownScope)"

definition all_joined :: "scope_map \<Rightarrow> (decl_id, decl_id) bmap \<Rightarrow> bool" where
  "all_joined scopes joins \<longleftrightarrow> list_all (\<lambda>(i, e). se_parent e = None \<or> bm_contains joins i) scopes"

definition work_units :: "nat \<Rightarrow> nat \<Rightarrow> nat \<Rightarrow> nat st_res" where
  "work_units tasks dependencies scopes =
     (if 2 ^ 64 \<le> tasks * (dependencies + 1) then Err WorkBudgetExceeded
      else if 2 ^ 64 \<le> tasks * (dependencies + 1) + scopes then Err WorkBudgetExceeded
      else if ST_MAX_WORK_UNITS < tasks * (dependencies + 1) + scopes then Err WorkBudgetExceeded
      else Ok (tasks * (dependencies + 1) + scopes))"

definition find_root :: "scope_spec list \<Rightarrow> decl_id option" where
  "find_root scopes = map_option ss_id (List.find (\<lambda>s. ss_parent s = None) scopes)"

definition try_new ::
  "(string \<Rightarrow> string) \<Rightarrow> scope_spec list \<Rightarrow> task_spec list \<Rightarrow> dependency_edge list \<Rightarrow> scope_join list
     \<Rightarrow> scoped_task_model st_res" where
  "try_new sha256 scopes tasks dependencies joins =
     (if scopes = [] then Err MissingRoot
      else if MAX_SCOPES < length scopes then Err ScopeBoundExceeded
      else if MAX_TASKS < length tasks then Err TaskBoundExceeded
      else if MAX_DEPENDENCIES < length dependencies then Err DependencyBoundExceeded
      else
        res_bind (work_units (length tasks) (length dependencies) (length scopes)) (\<lambda>_.
        res_bind (declare_scopes scopes bm_empty) (\<lambda>parents.
        if count_roots scopes = 0 then Err MissingRoot
        else if count_roots scopes \<noteq> 1 then Err MultipleRoots
        else
          res_bind (check_parents parents scopes) (\<lambda>_.
          res_bind (canonical_depths parents) (\<lambda>depths.
          res_bind (scope_entries depths parents) (\<lambda>entries.
          res_bind (expect (find_root scopes)) (\<lambda>root.
          res_bind (declare_tasks entries tasks bm_empty) (\<lambda>task_entries.
          res_bind (declare_dependencies entries task_entries dependencies []) (\<lambda>deps.
          res_bind (validate_acyclic task_entries deps) (\<lambda>_.
          if length joins \<noteq> length scopes - 1 then Err UnjoinedChildScope
          else
            res_bind (declare_joins entries root joins bm_empty) (\<lambda>join_map.
            if \<not> all_joined entries join_map then Err UnjoinedChildScope
            else
              let model = \<lparr>sm_schema = SCOPED_TASKS_MODEL_V1, sm_root = root, sm_scopes = entries,
                           sm_tasks = task_entries, sm_dependencies = deps, sm_joins = join_map,
                           sm_children = scope_children entries, sm_fingerprint = replicate 32 (CHR 0x00)\<rparr>
              in Ok (model\<lparr>sm_fingerprint := st_fingerprint sha256 MODEL_FINGERPRINT_DOMAIN (model_json model)\<rparr>))))))))))))"

end
