(* ===== verification/ScopedRun.thy ===== *)
theory ScopedRun
  imports ScopedTasks
begin

text \<open>
  The deterministic run of a scoped-task model (\<open>src/scoped_tasks.rs\<close>): its state, the seven kinds
  of step in their precedence, cancellation and the terminal summary.  Sequence numbers and totals
  are \<open>nat\<close>: a model has at most 4096 tasks, so the code's \<open>u64\<close> counters cannot overflow.
\<close>

section \<open>Events and state\<close>

datatype scope_exit_outcome = Ex_Success | Ex_Failed decl_id failure_kind | Ex_Cancelled

datatype task_event =
    Ev_Started decl_id
  | Ev_Completed decl_id
  | Ev_Failed decl_id failure_kind
  | Ev_Cancelled decl_id
  | Ev_ScopeCancelled decl_id
  | Ev_Finalized decl_id
  | Ev_ScopeExited decl_id scope_exit_outcome

datatype task_state = Ts_Pending | Ts_Started | Ts_Completed | Ts_Failed | Ts_Cancelled

record task_runtime =
  tr_state :: task_state
  tr_seq :: "nat option"

definition runtime_pending :: task_runtime where
  "runtime_pending = \<lparr>tr_state = Ts_Pending, tr_seq = None\<rparr>"

record run_totals =
  rt_started :: nat
  rt_completed :: nat
  rt_failed :: nat
  rt_cancelled :: nat

record scope_run_summary =
  sr_root_outcome :: scope_exit_outcome
  sr_totals :: run_totals

record st_run =
  rn_fingerprint :: string
  rn_model :: scoped_task_model
  rn_states :: "(decl_id, task_runtime) bmap"
  rn_pending :: "(decl_id, nat) bmap"
  rn_dependents :: "(decl_id, decl_id bset) bmap"
  rn_cancelled :: "decl_id bset"
  rn_announced :: "decl_id bset"
  rn_exited :: "decl_id bset"
  rn_finalized :: "decl_id bset"
  rn_failures :: "(decl_id, nat \<times> decl_id \<times> failure_kind) bmap"
  rn_outcomes :: "(decl_id, scope_exit_outcome) bmap"
  rn_seq :: nat
  rn_events :: "task_event list"
  rn_running :: "decl_id option"
  rn_totals :: run_totals
  rn_complete :: bool

definition prepare_run :: "scoped_task_model \<Rightarrow> st_run st_res" where
  "prepare_run m =
     res_bind (expect (count_degrees (sm_dependencies m)
         (fold (\<lambda>i. bm_insert i 0) (bm_keys (sm_tasks m)) bm_empty))) (\<lambda>waits.
       Ok \<lparr>rn_fingerprint = sm_fingerprint m, rn_model = m,
           rn_states = fold (\<lambda>i. bm_insert i runtime_pending) (bm_keys (sm_tasks m)) bm_empty,
           rn_pending = waits, rn_dependents = dependents_of (sm_dependencies m),
           rn_cancelled = [], rn_announced = [], rn_exited = [], rn_finalized = [],
           rn_failures = bm_empty, rn_outcomes = bm_empty, rn_seq = 0, rn_events = [],
           rn_running = None,
           rn_totals = \<lparr>rt_started = 0, rt_completed = 0, rt_failed = 0, rt_cancelled = 0\<rparr>,
           rn_complete = False\<rparr>)"

section \<open>Helpers of a step\<close>

definition task_scope :: "st_run \<Rightarrow> decl_id \<Rightarrow> decl_id option" where
  "task_scope r t = map_option te_scope (bm_get (sm_tasks (rn_model r)) t)"

definition state_is :: "st_run \<Rightarrow> decl_id \<Rightarrow> task_state \<Rightarrow> bool" where
  "state_is r t s \<longleftrightarrow> (case bm_get (rn_states r) t of None \<Rightarrow> False | Some x \<Rightarrow> tr_state x = s)"

definition set_state :: "decl_id \<Rightarrow> task_state \<Rightarrow> st_run \<Rightarrow> st_run" where
  "set_state t s r = r\<lparr>rn_states := bm_modify t (\<lambda>x. x\<lparr>tr_state := s\<rparr>) (rn_states r)\<rparr>"

definition task_in_cancelled_scope :: "st_run \<Rightarrow> decl_id \<Rightarrow> bool" where
  "task_in_cancelled_scope r t \<longleftrightarrow>
     (case task_scope r t of
        None \<Rightarrow> False
      | Some s \<Rightarrow> list_ex (bs_contains (rn_cancelled r)) (scope_lineage (sm_scopes (rn_model r)) s))"

definition is_ready :: "st_run \<Rightarrow> decl_id \<Rightarrow> bool" where
  "is_ready r t \<longleftrightarrow> (case bm_get (rn_pending r) t of None \<Rightarrow> 0 | Some n \<Rightarrow> n) = 0"

text \<open>The first task in id order that is in a state and satisfies a test.\<close>

definition find_task :: "st_run \<Rightarrow> task_state \<Rightarrow> (decl_id \<Rightarrow> bool) \<Rightarrow> decl_id option" where
  "find_task r s p = List.find (\<lambda>t. state_is r t s \<and> p t) (bm_keys (rn_states r))"

text \<open>\<open>None\<close>: a count would go below zero.\<close>

fun settle_completion_edges :: "decl_id list \<Rightarrow> (decl_id, nat) bmap \<Rightarrow> (decl_id, nat) bmap option" where
  "settle_completion_edges [] waits = Some waits"
| "settle_completion_edges (d # ds) waits =
     (case bm_get waits d of
        None \<Rightarrow> settle_completion_edges ds waits
      | Some 0 \<Rightarrow> None
      | Some (Suc n) \<Rightarrow> settle_completion_edges ds (bm_modify d (\<lambda>n. n - 1) waits))"

definition insert_vacant :: "'k::linorder \<Rightarrow> 'v \<Rightarrow> ('k, 'v) bmap \<Rightarrow> ('k, 'v) bmap" where
  "insert_vacant k v m = (case bm_get m k of None \<Rightarrow> bm_insert k v m | Some _ \<Rightarrow> m)"

definition record_failure :: "decl_id \<Rightarrow> decl_id \<Rightarrow> failure_kind \<Rightarrow> st_run \<Rightarrow> st_run" where
  "record_failure t s failure r =
     r\<lparr>rn_failures := fold (\<lambda>scope. insert_vacant scope (rn_seq r, t, failure))
                        (scope_lineage (sm_scopes (rn_model r)) s) (rn_failures r)\<rparr>"

section \<open>The kinds of step\<close>

definition apply_running_outcome :: "st_run \<Rightarrow> (task_event \<times> st_run) option st_res" where
  "apply_running_outcome r =
     (case rn_running r of
        None \<Rightarrow> Ok None
      | Some t \<Rightarrow>
        (case (bm_get (sm_tasks (rn_model r)) t, bm_get (rn_states r) t) of
           (Some entry, Some _) \<Rightarrow>
             let r1 = r\<lparr>rn_running := None,
                        rn_states := bm_modify t (\<lambda>x. x\<lparr>tr_seq := Some (rn_seq r)\<rparr>) (rn_states r),
                        rn_seq := rn_seq r + 1\<rparr>
             in (case te_outcome entry of
                   Succeed \<Rightarrow>
                     let r2 = set_state t Ts_Completed r1 in
                     (case settle_completion_edges
                             (case bm_get (rn_dependents r2) t of None \<Rightarrow> [] | Some ds \<Rightarrow> ds) (rn_pending r2) of
                        None \<Rightarrow> Panic
                      | Some waits \<Rightarrow> Ok (Some (Ev_Completed t, r2\<lparr>rn_pending := waits\<rparr>)))
                 | Fail failure \<Rightarrow>
                     Ok (Some (Ev_Failed t failure,
                               record_failure t (te_scope entry) failure (set_state t Ts_Failed r1))))
         | _ \<Rightarrow> Panic))"

definition materialize_scope_cancelled :: "st_run \<Rightarrow> (task_event \<times> st_run) option" where
  "materialize_scope_cancelled r =
     (case List.find (\<lambda>s. \<not> bs_contains (rn_announced r) s) (rn_cancelled r) of
        None \<Rightarrow> None
      | Some s \<Rightarrow> Some (Ev_ScopeCancelled s, r\<lparr>rn_announced := bs_insert s (rn_announced r)\<rparr>))"

definition materialize_task_cancelled :: "st_run \<Rightarrow> (task_event \<times> st_run) option" where
  "materialize_task_cancelled r =
     (case find_task r Ts_Pending (task_in_cancelled_scope r) of
        None \<Rightarrow> None
      | Some t \<Rightarrow> Some (Ev_Cancelled t, set_state t Ts_Cancelled r))"

definition start_ready_task :: "st_run \<Rightarrow> (task_event \<times> st_run) option" where
  "start_ready_task r =
     (case find_task r Ts_Pending (\<lambda>t. is_ready r t \<and> \<not> task_in_cancelled_scope r t) of
        None \<Rightarrow> None
      | Some t \<Rightarrow> Some (Ev_Started t, (set_state t Ts_Started r)\<lparr>rn_running := Some t\<rparr>))"

definition abandon_blocked_task :: "st_run \<Rightarrow> (task_event \<times> st_run) option" where
  "abandon_blocked_task r =
     (case find_task r Ts_Pending (\<lambda>t. \<not> is_ready r t) of
        None \<Rightarrow> None
      | Some t \<Rightarrow> Some (Ev_Cancelled t, set_state t Ts_Cancelled r))"

definition state_terminal :: "task_state \<Rightarrow> bool" where
  "state_terminal s \<longleftrightarrow> s = Ts_Completed \<or> s = Ts_Failed \<or> s = Ts_Cancelled"

definition scope_settled :: "st_run \<Rightarrow> decl_id \<Rightarrow> bool" where
  "scope_settled r s \<longleftrightarrow>
     list_all (\<lambda>(t, x). task_scope r t = Some s \<longrightarrow> state_terminal (tr_state x)) (rn_states r)"

definition children_exited :: "st_run \<Rightarrow> decl_id \<Rightarrow> bool" where
  "children_exited r s \<longleftrightarrow>
     (case bm_get (sm_children (rn_model r)) s of
        None \<Rightarrow> True
      | Some cs \<Rightarrow> list_all (bs_contains (rn_exited r)) cs)"

text \<open>\<open>max_by\<close>: deepest first, ties to the smaller id; the last of equal elements is kept.\<close>

definition scope_cmp_le :: "decl_id \<times> scope_entry \<Rightarrow> decl_id \<times> scope_entry \<Rightarrow> bool" where
  "scope_cmp_le a b \<longleftrightarrow>
     se_depth (snd a) < se_depth (snd b) \<or> (se_depth (snd a) = se_depth (snd b) \<and> fst b \<le> fst a)"

definition max_by :: "('a \<Rightarrow> 'a \<Rightarrow> bool) \<Rightarrow> 'a list \<Rightarrow> 'a option" where
  "max_by le xs =
     fold (\<lambda>x m. case m of None \<Rightarrow> Some x | Some y \<Rightarrow> if le y x then Some x else Some y) xs None"

definition exit_ready :: "st_run \<Rightarrow> decl_id \<Rightarrow> bool" where
  "exit_ready r s \<longleftrightarrow> \<not> bs_contains (rn_exited r) s \<and> scope_settled r s \<and> children_exited r s"

definition exit_candidate :: "st_run \<Rightarrow> decl_id option" where
  "exit_candidate r =
     map_option fst (max_by scope_cmp_le (filter (\<lambda>(s, e). exit_ready r s) (sm_scopes (rn_model r))))"

definition unfinalized_ran_tasks :: "st_run \<Rightarrow> decl_id \<Rightarrow> (decl_id \<times> nat) list" where
  "unfinalized_ran_tasks r s =
     map (\<lambda>(t, x). (t, case tr_seq x of None \<Rightarrow> 0 | Some n \<Rightarrow> n))
       (filter (\<lambda>(t, x). (tr_state x = Ts_Completed \<or> tr_state x = Ts_Failed)
            \<and> \<not> bs_contains (rn_finalized r) t \<and> task_scope r t = Some s) (rn_states r))"

definition finalize_one_task :: "st_run \<Rightarrow> (task_event \<times> st_run) option" where
  "finalize_one_task r =
     (case exit_candidate r of
        None \<Rightarrow> None
      | Some s \<Rightarrow>
        (case max_by (\<lambda>a b. snd a \<le> snd b) (unfinalized_ran_tasks r s) of
           None \<Rightarrow> None
         | Some (t, _) \<Rightarrow> Some (Ev_Finalized t, r\<lparr>rn_finalized := bs_insert t (rn_finalized r)\<rparr>)))"

definition scope_exit_outcome_for :: "st_run \<Rightarrow> decl_id \<Rightarrow> scope_exit_outcome" where
  "scope_exit_outcome_for r s =
     (case bm_get (rn_failures r) s of
        Some (_, t, failure) \<Rightarrow> Ex_Failed t failure
      | None \<Rightarrow> if bs_contains (rn_cancelled r) s then Ex_Cancelled else Ex_Success)"

definition exit_one_scope :: "st_run \<Rightarrow> (task_event \<times> st_run) option" where
  "exit_one_scope r =
     (case exit_candidate r of
        None \<Rightarrow> None
      | Some s \<Rightarrow>
        if unfinalized_ran_tasks r s \<noteq> [] then None
        else let outcome = scope_exit_outcome_for r s in
             Some (Ev_ScopeExited s outcome,
                   r\<lparr>rn_exited := bs_insert s (rn_exited r),
                     rn_outcomes := bm_insert s outcome (rn_outcomes r)\<rparr>))"

section \<open>Step, cancel, finish\<close>

definition authenticate_run :: "st_run \<Rightarrow> unit st_res" where
  "authenticate_run r =
     (if rn_fingerprint r \<noteq> sm_fingerprint (rn_model r) then Err FrameBindingMismatch else Ok ())"

fun bump_totals :: "task_event \<Rightarrow> run_totals \<Rightarrow> run_totals" where
  "bump_totals (Ev_Started _) n = n\<lparr>rt_started := rt_started n + 1\<rparr>"
| "bump_totals (Ev_Completed _) n = n\<lparr>rt_completed := rt_completed n + 1\<rparr>"
| "bump_totals (Ev_Failed _ _) n = n\<lparr>rt_failed := rt_failed n + 1\<rparr>"
| "bump_totals (Ev_Cancelled _) n = n\<lparr>rt_cancelled := rt_cancelled n + 1\<rparr>"
| "bump_totals _ n = n"

definition record_event :: "task_event \<Rightarrow> st_run \<Rightarrow> st_run" where
  "record_event ev r = r\<lparr>rn_totals := bump_totals ev (rn_totals r), rn_events := rn_events r @ [ev]\<rparr>"

fun first_some :: "(st_run \<Rightarrow> (task_event \<times> st_run) option) list \<Rightarrow> st_run \<Rightarrow> (task_event \<times> st_run) option" where
  "first_some [] r = None"
| "first_some (f # fs) r = (case f r of None \<Rightarrow> first_some fs r | Some x \<Rightarrow> Some x)"

definition st_step :: "st_run \<Rightarrow> task_event option st_res \<times> st_run" where
  "st_step r =
     (case authenticate_run r of
        Err e \<Rightarrow> (Err e, r)
      | Panic \<Rightarrow> (Panic, r)
      | Ok _ \<Rightarrow>
        if rn_complete r then (Ok None, r)
        else (case apply_running_outcome r of
          Err e \<Rightarrow> (Err e, r)
        | Panic \<Rightarrow> (Panic, r)
        | Ok (Some (ev, r1)) \<Rightarrow> (Ok (Some ev), record_event ev r1)
        | Ok None \<Rightarrow>
          (case first_some [materialize_scope_cancelled, materialize_task_cancelled, start_ready_task,
                            abandon_blocked_task, finalize_one_task] r of
             Some (ev, r1) \<Rightarrow> (Ok (Some ev), record_event ev r1)
           | None \<Rightarrow>
             (case exit_one_scope r of
                None \<Rightarrow> (Ok None, r\<lparr>rn_complete := True\<rparr>)
              | Some (ev, r1) \<Rightarrow>
                  let r2 = record_event ev r1 in
                  (Ok (Some ev),
                   case ev of
                     Ev_ScopeExited s _ \<Rightarrow> if s = sm_root (rn_model r2) then r2\<lparr>rn_complete := True\<rparr> else r2
                   | _ \<Rightarrow> r2)))))"

fun push_new :: "decl_id list \<Rightarrow> decl_id list \<Rightarrow> decl_id list" where
  "push_new [] collected = collected"
| "push_new (c # cs) collected =
     push_new cs (if c \<in> set collected then collected else collected @ [c])"

lemma set_push_new: "set (push_new cs collected) = set cs \<union> set collected"
  by (induction cs collected rule: push_new.induct) auto

lemma length_push_new:
  "distinct collected \<Longrightarrow> distinct (push_new cs collected)
     \<and> length (push_new cs collected) = card (set cs \<union> set collected)"
  by (induction cs collected rule: push_new.induct) (auto simp: distinct_card insert_absorb)

lemma push_new_length:
  "length (push_new cs collected) = length collected + card (set cs - set collected)"
proof (induction cs collected rule: push_new.induct)
  case (2 c cs collected)
  show ?case
  proof (cases "c \<in> set collected")
    case True
    then show ?thesis using 2 by (simp add: insert_Diff_if)
  next
    case False
    have "insert c (set cs) - set collected = insert c (set cs - set (collected @ [c]))" using False by auto
    then have "card (insert c (set cs) - set collected) = Suc (card (set cs - set (collected @ [c])))"
      by (simp only:) (simp add: card_insert_if)
    then show ?thesis using 2 False by simp
  qed
qed simp

text \<open>The breadth-first loop of \<open>descendants_including\<close> over the growing list.\<close>

function descend :: "(decl_id, decl_id bset) bmap \<Rightarrow> decl_id list \<Rightarrow> nat \<Rightarrow> decl_id list" where
  "descend children collected index =
     (if index < length collected
      then descend children
             (push_new (case bm_get children (collected ! index) of None \<Rightarrow> [] | Some cs \<Rightarrow> cs) collected)
             (index + 1)
      else collected)"
  by pat_completeness auto
termination
proof (relation "measure (\<lambda>(children, collected, index).
    card (\<Union> (set ` set (map snd children)) - set collected) + (length collected - index))", goal_cases)
  case (2 children collected index)
  let ?U = "\<Union> (set ` set (map snd children))"
  define cs where "cs = (case bm_get children (collected ! index) of None \<Rightarrow> [] | Some cs \<Rightarrow> cs)"
  have sub: "set cs \<subseteq> ?U"
    using bm_get_in_set[of children "collected ! index"] unfolding cs_def by (force split: option.splits)
  have "?U - set (push_new cs collected) = (?U - set collected) - (set cs - set collected)"
    by (auto simp: set_push_new)
  then have "card (?U - set (push_new cs collected)) = card (?U - set collected) - card (set cs - set collected)"
    using sub by (simp only:) (subst card_Diff_subset, auto)
  moreover have "card (set cs - set collected) \<le> card (?U - set collected)"
    using sub by (intro card_mono) auto
  ultimately show ?case using 2 push_new_length[of cs collected] by (simp flip: cs_def)
qed simp

declare descend.simps [simp del]

definition descendants_including :: "st_run \<Rightarrow> decl_id \<Rightarrow> decl_id list" where
  "descendants_including r s = remdups_adj (sort (descend (sm_children (rn_model r)) [s] 0))"

definition cancel_scope :: "decl_id \<Rightarrow> st_run \<Rightarrow> bool st_res \<times> st_run" where
  "cancel_scope s r =
     (case authenticate_run r of
        Err e \<Rightarrow> (Err e, r)
      | Panic \<Rightarrow> (Panic, r)
      | Ok _ \<Rightarrow>
        if rn_complete r then (Err RunAlreadyComplete, r)
        else if \<not> bm_contains (sm_scopes (rn_model r)) s then (Err UnknownScope, r)
        else
          let (inserted, cancelled) =
            fold (\<lambda>c (i, m). (i \<or> \<not> bs_contains m c, bs_insert c m)) (descendants_including r s)
              (False, rn_cancelled r)
          in (Ok inserted, r\<lparr>rn_cancelled := cancelled\<rparr>))"

definition finish :: "st_run \<Rightarrow> scope_run_summary st_res" where
  "finish r =
     res_bind (authenticate_run r) (\<lambda>_.
       if \<not> rn_complete r then Err RunNotComplete
       else res_bind (ok_or RunNotComplete (bm_get (rn_outcomes r) (sm_root (rn_model r)))) (\<lambda>outcome.
              Ok \<lparr>sr_root_outcome = outcome, sr_totals = rn_totals r\<rparr>))"

definition task_phase :: "st_run \<Rightarrow> decl_id \<Rightarrow> task_state option" where
  "task_phase r t = map_option tr_state (bm_get (rn_states r) t)"

definition is_scope_cancelled :: "st_run \<Rightarrow> decl_id \<Rightarrow> bool" where
  "is_scope_cancelled r s = bs_contains (rn_cancelled r) s"

definition first_failure :: "st_run \<Rightarrow> decl_id \<Rightarrow> (decl_id \<times> failure_kind) option" where
  "first_failure r s = map_option snd (bm_get (rn_failures r) s)"

section \<open>The trace\<close>

fun scope_exit_outcome_json :: "scope_exit_outcome \<Rightarrow> string" where
  "scope_exit_outcome_json Ex_Success = json_object [(''kind'', quote_json ''success'')]"
| "scope_exit_outcome_json Ex_Cancelled = json_object [(''kind'', quote_json ''cancelled'')]"
| "scope_exit_outcome_json (Ex_Failed t failure) =
     json_object [(''kind'', quote_json ''failed''), (''task'', quote_json t), (''failure'', failure_json failure)]"

fun event_json :: "task_event \<Rightarrow> string" where
  "event_json (Ev_Started t) = json_object [(''kind'', quote_json ''started''), (''task'', quote_json t)]"
| "event_json (Ev_Completed t) = json_object [(''kind'', quote_json ''completed''), (''task'', quote_json t)]"
| "event_json (Ev_Failed t f) =
     json_object [(''kind'', quote_json ''failed''), (''task'', quote_json t), (''failure'', failure_json f)]"
| "event_json (Ev_Cancelled t) = json_object [(''kind'', quote_json ''cancelled''), (''task'', quote_json t)]"
| "event_json (Ev_ScopeCancelled s) = json_object [(''kind'', quote_json ''scope_cancelled''), (''scope'', quote_json s)]"
| "event_json (Ev_Finalized t) = json_object [(''kind'', quote_json ''finalized''), (''task'', quote_json t)]"
| "event_json (Ev_ScopeExited s outcome) =
     json_object [(''kind'', quote_json ''scope_exited''), (''scope'', quote_json s),
       (''outcome'', scope_exit_outcome_json outcome)]"

definition hex_bytes :: "string \<Rightarrow> string" where
  "hex_bytes bytes =
     concat (map (\<lambda>b. [hex_digit (of_char b div 16), hex_digit (of_char b mod 16)]) bytes)"

definition trace_json :: "st_run \<Rightarrow> string" where
  "trace_json r =
     json_object
       [(''schema'', quote_json SCOPED_TASKS_TRACE_V1),
        (''model_fingerprint'', [CHR 0x22] @ hex_bytes (rn_fingerprint r) @ [CHR 0x22]),
        (''events'', json_array (map event_json (rn_events r))),
        (''root_outcome'', case bm_get (rn_outcomes r) (sm_root (rn_model r)) of
            None \<Rightarrow> ''null'' | Some outcome \<Rightarrow> scope_exit_outcome_json outcome),
        (''first_failure'', case bm_get (rn_failures r) (sm_root (rn_model r)) of
            None \<Rightarrow> ''null''
          | Some (_, t, failure) \<Rightarrow>
              json_object [(''task'', quote_json t), (''failure'', failure_json failure)])]"

definition trace_digest :: "(string \<Rightarrow> string) \<Rightarrow> st_run \<Rightarrow> string" where
  "trace_digest sha256 r = st_fingerprint sha256 TRACE_FINGERPRINT_DOMAIN (trace_json r)"

section \<open>Runs\<close>

datatype st_call = St_Step | St_Cancel decl_id

fun st_call_step :: "st_run \<Rightarrow> st_call \<Rightarrow> st_run" where
  "st_call_step r St_Step = snd (st_step r)"
| "st_call_step r (St_Cancel s) = snd (cancel_scope s r)"

end
