(* ===== verification/ScopedModelProps.thy ===== *)
theory ScopedModelProps
  imports ScopedRun
begin

text \<open>
  What \<open>ScopedTaskModel::try_new\<close> of \<open>src/scoped_tasks.rs\<close> certifies: a single-rooted scope tree with
  exact depths, tasks in known scopes, an acyclic dependency graph that never leaves a scope's
  lineage, and exactly one join per child scope, held by its parent.
\<close>

section \<open>Depths\<close>

fun chain :: "(decl_id, decl_id option) bmap \<Rightarrow> decl_id list \<Rightarrow> decl_id \<Rightarrow> bool" where
  "chain P [] c = True"
| "chain P (x # xs) c = (bm_get P x = Some (Some (hd (xs @ [c]))) \<and> chain P xs c)"

lemma chain_snoc: "chain P (xs @ [y]) c \<longleftrightarrow> chain P xs y \<and> bm_get P y = Some (Some c)"
  by (induction xs) (auto simp: hd_append)

lemma chain_append: "chain P (xs @ ys) c \<longleftrightarrow> chain P xs (hd (ys @ [c])) \<and> chain P ys c"
  by (induction xs) (auto simp: hd_append)

lemma chain_parent: "chain P xs c \<Longrightarrow> x \<in> set xs \<Longrightarrow> \<exists>p. bm_get P x = Some (Some p)"
  by (induction xs) auto

lemma chain_meet:
  "chain P xs c \<Longrightarrow> chain P ys c' \<Longrightarrow> hd (xs @ [c]) = hd (ys @ [c']) \<Longrightarrow> length ys < length xs \<Longrightarrow>
     c' \<in> set xs"
proof (induction ys arbitrary: xs)
  case Nil
  then show ?case by (cases xs) auto
next
  case (Cons y ys)
  obtain x xs' where xs: "xs = x # xs'" using Cons.prems(4) by (cases xs) auto
  have "hd (xs' @ [c]) = hd (ys @ [c'])" using Cons.prems xs by simp
  then show ?case using Cons xs by auto
qed

lemma chain_distinct:
  assumes "chain P xs c" "c \<notin> set xs"
  shows "distinct xs"
  using assms
proof (induction xs)
  case (Cons x xs)
  have "x \<notin> set xs"
  proof
    assume "x \<in> set xs"
    then obtain us vs where xs: "xs = us @ x # vs" by (meson split_list)
    have "chain P (x # vs) c" using Cons.prems(1) xs by (auto simp: chain_append)
    from chain_meet[OF Cons.prems(1) this] Cons.prems(2) xs show False by simp
  qed
  then show ?case using Cons by simp
qed simp

definition depths_ok :: "(decl_id, decl_id option) bmap \<Rightarrow> (decl_id \<Rightarrow> u32 option) \<Rightarrow> bool" where
  "depths_ok P D \<longleftrightarrow> (\<forall>x k. D x = Some k \<longrightarrow>
     (case bm_get P x of
        None \<Rightarrow> False
      | Some None \<Rightarrow> k = 0
      | Some (Some p) \<Rightarrow> \<exists>j. D p = Some j \<and> unat k = Suc (unat j)))"

lemma depths_ok_extend:
  assumes ok: "depths_ok P D" and n: "D n = None" "bm_get P n = Some (Some p)" "D p = Some j" "unat k = Suc (unat j)"
  shows "depths_ok P (D(n \<mapsto> k))"
  unfolding depths_ok_def
proof (intro allI impI)
  fix x i assume x: "(D(n \<mapsto> k)) x = Some i"
  show "case bm_get P x of None \<Rightarrow> False | Some None \<Rightarrow> i = 0
    | Some (Some p) \<Rightarrow> \<exists>j. (D(n \<mapsto> k)) p = Some j \<and> unat i = Suc (unat j)"
  proof (cases "x = n")
    case True
    then show ?thesis using x n by auto
  next
    case False
    then have "D x = Some i" using x by simp
    with ok have "case bm_get P x of None \<Rightarrow> False | Some None \<Rightarrow> i = 0
      | Some (Some p) \<Rightarrow> \<exists>j. D p = Some j \<and> unat i = Suc (unat j)" by (simp add: depths_ok_def)
    then show ?thesis using n(1) by (auto split: option.splits)
  qed
qed

lemma depths_ok_root:
  assumes ok: "depths_ok P D" and n: "D n = None" "bm_get P n = Some None"
  shows "depths_ok P (D(n \<mapsto> 0))"
  using ok n unfolding depths_ok_def by (auto split: option.splits) (metis option.distinct(1))+

lemma climb_Ok:
  "climb P D stack cur = Ok (base, stack', cur') \<Longrightarrow> chain P stack cur \<Longrightarrow> (\<forall>x \<in> set stack. bm_get D x = None) \<Longrightarrow>
     chain P stack' cur' \<and> (\<forall>x \<in> set stack'. bm_get D x = None) \<and> hd (stack' @ [cur']) = hd (stack @ [cur])
     \<and> (bm_get D cur' = Some base \<or> (bm_get D cur' = None \<and> bm_get P cur' = Some None \<and> base = 0))"
proof (induction P D stack cur rule: climb.induct)
  case (1 P D stack cur)
  show ?case
  proof (cases "bm_get D cur")
    case (Some known)
    then show ?thesis using 1 by (simp add: climb.simps)
  next
    case None
    then obtain pp where pp: "bm_get P cur = Some pp"
      using 1(2) by (subst (asm) climb.simps) (auto split: option.splits)
    show ?thesis
    proof (cases pp)
      case None
      then show ?thesis using 1 pp \<open>bm_get D cur = None\<close> by (simp add: climb.simps)
    next
      case (Some p)
      have len: "\<not> length P < Suc (length stack)"
        and rec: "climb P D (stack @ [cur]) p = Ok (base, stack', cur')"
        using 1(2) pp Some None by (subst (asm) climb.simps; simp split: if_splits)+
      have "chain P (stack @ [cur]) p" using 1(3) pp Some by (simp add: chain_snoc)
      from "1.IH"[OF None pp Some len rec this] 1(4) None show ?thesis by (cases stack) auto
    qed
  qed
qed

lemma climb_not_Panic:
  assumes closed: "\<And>x p. bm_get P x = Some (Some p) \<Longrightarrow> bm_get P p \<noteq> None"
  shows "bm_get P cur \<noteq> None \<Longrightarrow> climb P D stack cur \<noteq> Panic"
  using closed
proof (induction P D stack cur rule: climb.induct)
  case (1 P D stack cur)
  obtain pp where pp: "bm_get P cur = Some pp" using 1(2) by blast
  show ?case
  proof (cases "bm_get D cur")
    case Some
    then show ?thesis by (simp add: climb.simps)
  next
    case None
    show ?thesis
    proof (cases pp)
      case None
      then show ?thesis using pp \<open>bm_get D cur = None\<close> by (simp add: climb.simps)
    next
      case (Some p)
      then show ?thesis
        using 1(1)[OF None pp Some] 1(3) pp None by (subst climb.simps) (auto)
    qed
  qed
qed

text \<open>The ids a scope's depth is numbered through, over a base that is counted as numbered.\<close>

lemma number_back_Ok:
  assumes "number_back names run D = Ok D'"
    and "depths_ok P ((bm_get D)(c \<mapsto> base))" and "((bm_get D)(c \<mapsto> base)) tp = Some run"
    and "chain P (rev names) tp" and "distinct names" and "c \<notin> set names" and "\<forall>x \<in> set names. bm_get D x = None"
  shows "depths_ok P ((bm_get D')(c \<mapsto> base)) \<and> set (bm_keys D') = set (bm_keys D) \<union> set names
     \<and> (\<forall>x. x \<notin> set names \<longrightarrow> bm_get D' x = bm_get D x)"
  using assms
proof (induction names arbitrary: run D tp)
  case Nil
  then show ?case by simp
next
  case (Cons n names)
  obtain next' where nx: "u_checked_add run 1 = Some next'"
    and rec: "number_back names next' (bm_insert n next' D) = Ok D'"
    using Cons.prems(1) by (auto simp: res_iff)
  have u: "unat next' = Suc (unat run)" using u_checked_add_Some[OF nx] by simp
  have ch: "chain P (rev names) n" "bm_get P n = Some (Some tp)"
    using Cons.prems(4) by (simp_all add: chain_snoc)
  have n: "n \<noteq> c" "((bm_get D)(c \<mapsto> base)) n = None" using Cons.prems(6,7) by auto
  have ext: "depths_ok P (((bm_get D)(c \<mapsto> base))(n \<mapsto> next'))"
    by (rule depths_ok_extend[OF Cons.prems(2) n(2) ch(2) Cons.prems(3) u])
  have eq: "((bm_get D)(c \<mapsto> base))(n \<mapsto> next') = (bm_get (bm_insert n next' D))(c \<mapsto> base)"
    using n(1) by (auto simp: fun_eq_iff)
  have "depths_ok P ((bm_get D')(c \<mapsto> base)) \<and> set (bm_keys D') = set (bm_keys (bm_insert n next' D)) \<union> set names
     \<and> (\<forall>x. x \<notin> set names \<longrightarrow> bm_get D' x = bm_get (bm_insert n next' D) x)"
  proof (rule Cons.IH[OF rec])
    show "depths_ok P ((bm_get (bm_insert n next' D))(c \<mapsto> base))" using ext unfolding eq .
    show "((bm_get (bm_insert n next' D))(c \<mapsto> base)) n = Some next'" using n(1) by simp
    show "chain P (rev names) n" by (rule ch)
    show "distinct names" "c \<notin> set names" "\<forall>x \<in> set names. bm_get (bm_insert n next' D) x = None"
      using Cons.prems(5-7) by auto
  qed
  then show ?case using Cons.prems(5) by (auto simp: fun_upd_def)
qed

lemma depth_of_one_Ok:
  assumes d: "depth_of_one P i D = Ok D'" and ok: "depths_ok P (bm_get D)" and i: "bm_get P i \<noteq> None"
  shows "depths_ok P (bm_get D') \<and> i \<in> set (bm_keys D') \<and> set (bm_keys D) \<subseteq> set (bm_keys D')"
proof -
  obtain base stack c D1 where climb: "climb P D [] i = Ok (base, stack, c)"
    and nb: "number_back (rev stack) base D = Ok D1"
    and D': "D' = (case bm_get D1 c of Some _ \<Rightarrow> D1 | None \<Rightarrow> bm_insert c base D1)"
    using d by (auto simp: depth_of_one_def res_iff)
  have cl: "chain P stack c" "\<forall>x \<in> set stack. bm_get D x = None" "hd (stack @ [c]) = i"
    "bm_get D c = Some base \<or> (bm_get D c = None \<and> bm_get P c = Some None \<and> base = 0)"
    using climb_Ok[OF climb] by simp_all
  have c: "c \<notin> set stack" using cl chain_parent[OF cl(1)] by force
  have okc: "depths_ok P ((bm_get D)(c \<mapsto> base))"
    using cl(4)
  proof
    assume "bm_get D c = Some base"
    then have "(bm_get D)(c \<mapsto> base) = bm_get D" by auto
    then show ?thesis using ok by simp
  next
    assume "bm_get D c = None \<and> bm_get P c = Some None \<and> base = 0"
    then show ?thesis using depths_ok_root[OF ok] by simp
  qed
  have "depths_ok P ((bm_get D1)(c \<mapsto> base)) \<and> set (bm_keys D1) = set (bm_keys D) \<union> set (rev stack)
     \<and> (\<forall>x. x \<notin> set (rev stack) \<longrightarrow> bm_get D1 x = bm_get D x)"
  proof (rule number_back_Ok[OF nb okc])
    show "((bm_get D)(c \<mapsto> base)) c = Some base" by simp
    show "chain P (rev (rev stack)) c" using cl(1) by simp
    show "distinct (rev stack)" using chain_distinct[OF cl(1) c] by simp
    show "c \<notin> set (rev stack)" using c by simp
    show "\<forall>x \<in> set (rev stack). bm_get D x = None" using cl(2) by simp
  qed
  then have D1: "depths_ok P ((bm_get D1)(c \<mapsto> base))" "set (bm_keys D1) = set (bm_keys D) \<union> set stack"
    "bm_get D1 c = bm_get D c" using c by simp_all
  have get: "bm_get D' = (bm_get D1)(c \<mapsto> base)"
    using cl(4) D1(3) by (auto simp: D' fun_eq_iff)
  have keys: "set (bm_keys D') = insert c (set (bm_keys D1))"
    using bm_get_None_iff[of D1 c] by (auto simp: D' split: option.split)
  have "i \<in> insert c (set stack)" using cl(3) by (cases stack) auto
  then show ?thesis using D1 keys by (auto simp: get)
qed

lemma depths_loop_Ok:
  "depths_loop P is D = Ok D' \<Longrightarrow> depths_ok P (bm_get D) \<Longrightarrow> (\<forall>i \<in> set is. bm_get P i \<noteq> None) \<Longrightarrow>
     depths_ok P (bm_get D') \<and> set is \<subseteq> set (bm_keys D') \<and> set (bm_keys D) \<subseteq> set (bm_keys D')"
proof (induction "is" arbitrary: D)
  case (Cons i "is")
  obtain D1 where D1: "depth_of_one P i D = Ok D1" "depths_loop P is D1 = Ok D'"
    using Cons.prems(1) by (auto simp: res_iff)
  have "depths_ok P (bm_get D1) \<and> i \<in> set (bm_keys D1) \<and> set (bm_keys D) \<subseteq> set (bm_keys D1)"
    using depth_of_one_Ok[OF D1(1)] Cons.prems by simp
  then show ?case using Cons.IH[OF D1(2)] Cons.prems(3) by auto
qed simp

lemma canonical_depths_Ok:
  assumes "canonical_depths P = Ok D"
  shows "depths_ok P (bm_get D) \<and> set (bm_keys P) \<subseteq> set (bm_keys D)"
proof -
  have "\<forall>i \<in> set (bm_keys P). bm_get P i \<noteq> None" using bm_get_None_iff[of P] by auto
  then show ?thesis
    using depths_loop_Ok[of P "bm_keys P" bm_empty D] assms by (simp add: canonical_depths_def depths_ok_def)
qed

lemma number_back_not_Panic: "number_back names run D \<noteq> Panic"
  by (induction names run D rule: number_back.induct) (auto simp: res_iff)

lemma canonical_depths_not_Panic:
  assumes "\<And>x p. bm_get P x = Some (Some p) \<Longrightarrow> bm_get P p \<noteq> None"
  shows "canonical_depths P \<noteq> Panic"
proof -
  have "depths_loop P is D \<noteq> Panic" if "\<forall>i \<in> set is. bm_get P i \<noteq> None" for "is" D
    using that
    by (induction "is" arbitrary: D)
       (auto simp: res_iff depth_of_one_def number_back_not_Panic climb_not_Panic[OF assms])
  then show ?thesis using bm_get_None_iff[of P] by (auto simp: canonical_depths_def)
qed

section \<open>Acyclic dependencies\<close>

lemma count_degrees_fold:
  "(\<forall>e \<in> set es. bm_get m (snd e) \<noteq> None) \<Longrightarrow> count_degrees es m = Some (fold add_indegree es m)"
proof (induction es arbitrary: m)
  case (Cons e es)
  obtain p d where e: "e = (p, d)" by (cases e)
  obtain c where c: "bm_get m d = Some c" using Cons.prems e by auto
  then have "add_indegree e m = bm_insert d (c + 1) m" by (simp add: add_indegree_def e)
  then show ?case using Cons c by (simp add: e)
qed simp

lemma relax_release:
  "relax p ds k = Ok (Some k') \<Longrightarrow> release ds (kh_ready k) (kh_indegree k) = Some (kh_ready k', kh_indegree k')"
proof (induction p ds k rule: relax.induct)
  case (2 p d ds k)
  then obtain depth c where s: "bm_get (kh_depths k) p = Some depth" "bm_get (kh_indegree k) d = Some (Suc c)"
    by (auto simp: Let_def split: option.splits nat.splits)
  show ?case using "2.IH"[OF s(1) refl refl s(2) refl] "2.prems" s by (simp add: Let_def)
qed simp

lemma kahn_drain:
  "kahn_loop deps k seen = Ok (Some (k', n)) \<Longrightarrow>
     (\<And>p. (case bm_get deps' p of None \<Rightarrow> [] | Some ds \<Rightarrow> ds) = (case bm_get deps p of None \<Rightarrow> [] | Some ds \<Rightarrow> ds)) \<Longrightarrow>
     drain deps' (kh_ready k) (kh_indegree k) seen = Some n"
proof (induction deps k seen rule: kahn_loop.induct)
  case (1 deps k seen)
  show ?case
  proof (cases "kh_ready k")
    case Nil
    then show ?thesis using 1(2) by (simp add: kahn_loop.simps drain.simps)
  next
    case (Cons p rest)
    obtain k1 where k1: "relax p (case bm_get deps p of None \<Rightarrow> [] | Some ds \<Rightarrow> ds) (k\<lparr>kh_ready := rest\<rparr>) = Ok (Some k1)"
      and rec: "kahn_loop deps k1 (seen + 1) = Ok (Some (k', n))"
      using 1(2) Cons by (subst (asm) kahn_loop.simps) (auto split: res.splits option.splits)
    have "release (case bm_get deps' p of None \<Rightarrow> [] | Some ds \<Rightarrow> ds) rest (kh_indegree k)
        = Some (kh_ready k1, kh_indegree k1)"
      using relax_release[OF k1] 1(3) by simp
    then show ?thesis using 1(1)[OF Cons k1 refl rec 1(3)] Cons by (subst drain.simps) simp
  qed
qed

lemma bs_insert_last: "\<forall>y \<in> set s. y < x \<Longrightarrow> bs_insert x s = s @ [x]"
  by (induction s) auto

lemma dependents_of_get:
  assumes "bs_ok es"
  shows "(case bm_get (dependents_of es) p of None \<Rightarrow> [] | Some ds \<Rightarrow> ds)
       = (case bm_get (fold add_dependent es bm_empty) p of None \<Rightarrow> [] | Some ds \<Rightarrow> ds)"
proof -
  let ?out = "\<lambda>m. case bm_get m p of None \<Rightarrow> [] | Some ds \<Rightarrow> ds"
  have "?out (fold (\<lambda>(p, d). add_child p d) es m) = ?out m @ map snd (filter (\<lambda>(x, c). x = p) es)"
    if "sorted_wrt (<) es" "\<forall>x \<in> set (?out m). \<forall>e \<in> set es. fst e = p \<longrightarrow> x < snd e" for m
    using that
  proof (induction es arbitrary: m)
    case (Cons e es)
    obtain a d where e: "e = (a, d)" by (cases e)
    have later: "\<forall>x \<in> set es. fst x = a \<longrightarrow> d < snd x" using Cons.prems(1) e by (auto simp: less_prod_def)
    have out: "?out (add_child a d m) = (if a = p then ?out m @ [d] else ?out m)"
      using Cons.prems(2) e by (auto simp: add_child_def bs_insert_last split: option.split)
    have "?out (fold (\<lambda>(p, d). add_child p d) es (add_child a d m))
        = ?out (add_child a d m) @ map snd (filter (\<lambda>(x, c). x = p) es)"
    proof (rule Cons.IH)
      show "sorted_wrt (<) es" using Cons.prems(1) by simp
      show "\<forall>x \<in> set (?out (add_child a d m)). \<forall>e \<in> set es. fst e = p \<longrightarrow> x < snd e"
        using Cons.prems(2) later out by (auto split: if_splits)
    qed
    then show ?case using out by (auto simp: e)
  qed simp
  from this[of bm_empty] assms show ?thesis
    using get_fold_dependents[of es bm_empty p] by (simp add: dependents_of_def bs_ok_def)
qed

lemma validate_acyclic_correct:
  assumes ok: "bm_ok tasks" "bs_ok deps"
    and ends: "fst ` set deps \<subseteq> set (bm_keys tasks)" "snd ` set deps \<subseteq> set (bm_keys tasks)"
  shows "validate_acyclic tasks deps = (if acyclic (set deps) then Ok () else Err DependencyCycle)"
proof -
  let ?keys = "bm_keys tasks"
  let ?in = "fold add_indegree deps (zero_table ?keys)"
  let ?ready = "fold bs_insert (map fst (filter (\<lambda>(i, c). c = 0) ?in)) []"
  have n: "card (set ?keys) = length tasks"
    using distinct_bm_keys[OF ok(1)] by (simp add: distinct_card) (simp add: bm_keys_def)
  have c: "count_degrees deps (zero_table ?keys) = Some ?in"
    using ends(2) by (intro count_degrees_fold) (auto simp: get_zero_table)
  obtain seen depth where run: "run_kahn ?keys deps = Ok (Some (seen, card (set ?keys), depth))"
    and seen: "seen = card (set ?keys) \<longleftrightarrow> acyclic (set deps)"
    using run_kahn_correct[OF ends] by auto
  obtain k' where loop: "kahn_loop (fold add_dependent deps bm_empty)
      \<lparr>kh_ready = ?ready, kh_indegree = ?in, kh_depths = fold (\<lambda>k. bm_insert k 1) (bm_keys ?in) bm_empty\<rparr> 0
      = Ok (Some (k', seen))"
    using run by (auto simp: run_kahn_def Let_def split: res.splits option.splits)
  have "drain (dependents_of deps) ?ready ?in 0 = Some seen"
    using kahn_drain[OF loop dependents_of_get[OF ok(2)]] by simp
  then show ?thesis using c seen n by (simp add: validate_acyclic_def)
qed

section \<open>Well-formed models\<close>

definition parent_in :: "scope_map \<Rightarrow> decl_id \<Rightarrow> decl_id option" where
  "parent_in scopes s = Option.bind (bm_get scopes s) se_parent"

text \<open>A single root, and parents one level up: the scopes form a tree with exact depths.\<close>

definition wf_scopes :: "decl_id \<Rightarrow> scope_map \<Rightarrow> bool" where
  "wf_scopes root scopes \<longleftrightarrow> bm_ok scopes
     \<and> (\<exists>e. bm_get scopes root = Some e \<and> se_parent e = None)
     \<and> (\<forall>s e. bm_get scopes s = Some e \<longrightarrow>
          (case se_parent e of
             None \<Rightarrow> s = root \<and> se_depth e = 0
           | Some p \<Rightarrow> \<exists>pe. bm_get scopes p = Some pe \<and> unat (se_depth e) = Suc (unat (se_depth pe))))"

definition wf_model :: "scoped_task_model \<Rightarrow> bool" where
  "wf_model m \<longleftrightarrow>
     wf_scopes (sm_root m) (sm_scopes m)
     \<and> bm_ok (sm_tasks m) \<and> bs_ok (sm_dependencies m)
     \<and> (\<forall>t e. bm_get (sm_tasks m) t = Some e \<longrightarrow> te_scope e \<in> set (bm_keys (sm_scopes m)))
     \<and> (\<forall>p d. (p, d) \<in> set (sm_dependencies m) \<longrightarrow>
          (\<exists>pe de. bm_get (sm_tasks m) p = Some pe \<and> bm_get (sm_tasks m) d = Some de
             \<and> is_self_or_ancestor (sm_scopes m) (te_scope de) (te_scope pe)))
     \<and> acyclic (set (sm_dependencies m))
     \<and> (\<forall>s c. (case bm_get (sm_children m) s of None \<Rightarrow> False | Some cs \<Rightarrow> c \<in> set cs)
            \<longleftrightarrow> parent_in (sm_scopes m) c = Some s)
     \<and> (\<forall>t w. bm_get (sm_joins m) t = Some w \<longleftrightarrow> parent_in (sm_scopes m) t = Some w)"

lemma wf_scopes_parent:
  assumes "wf_scopes root scopes" "bm_get scopes s = Some e" "se_parent e = Some p"
  obtains pe where "bm_get scopes p = Some pe" "unat (se_depth e) = Suc (unat (se_depth pe))"
proof -
  have "case se_parent e of
      None \<Rightarrow> s = root \<and> se_depth e = 0
    | Some p \<Rightarrow> \<exists>pe. bm_get scopes p = Some pe \<and> unat (se_depth e) = Suc (unat (se_depth pe))"
    using assms(1,2) unfolding wf_scopes_def by blast
  then show thesis using assms(3) that by auto
qed

lemma wf_scopes_root:
  assumes "wf_scopes root scopes" "bm_get scopes s = Some e" "se_parent e = None"
  shows "s = root \<and> se_depth e = 0"
proof -
  have "case se_parent e of
      None \<Rightarrow> s = root \<and> se_depth e = 0
    | Some p \<Rightarrow> \<exists>pe. bm_get scopes p = Some pe \<and> unat (se_depth e) = Suc (unat (se_depth pe))"
    using assms(1,2) unfolding wf_scopes_def by blast
  then show ?thesis using assms(3) by simp
qed

section \<open>Lineages\<close>

lemma depth_below:
  assumes wf: "wf_scopes root scopes" and e: "bm_get scopes s = Some e"
  shows "unat (se_depth e) < length scopes"
proof -
  let ?ds = "(\<lambda>(i, x). unat (se_depth x)) ` set scopes"
  have "{0..k} \<subseteq> ?ds" if "bm_get scopes t = Some x" "unat (se_depth x) = k" for k t x
    using that
  proof (induction k arbitrary: t x)
    case 0
    then show ?case using bm_get_in_set[OF 0(1)] by force
  next
    case (Suc k)
    have "se_parent x \<noteq> None"
    proof
      assume n: "se_parent x = None"
      then have "se_depth x = 0" using wf_scopes_root[OF wf Suc.prems(1)] by blast
      then show False using Suc.prems(2) by simp
    qed
    then obtain p where p: "se_parent x = Some p" by blast
    obtain pe where pe: "bm_get scopes p = Some pe" "unat (se_depth x) = Suc (unat (se_depth pe))"
      by (rule wf_scopes_parent[OF wf Suc.prems(1) p])
    have "{0..k} \<subseteq> ?ds" using Suc.IH[OF pe(1)] pe(2) Suc.prems(2) by simp
    moreover have "Suc k \<in> ?ds" using bm_get_in_set[OF Suc.prems(1)] Suc.prems(2) by force
    ultimately show ?case by (auto simp: atLeastAtMostSuc_conv)
  qed
  from this[OF e refl] have "card {0..unat (se_depth e)} \<le> card ?ds" by (intro card_mono) auto
  also have "\<dots> \<le> card (set scopes)" by (rule card_image_le) simp
  also have "\<dots> \<le> length scopes" by (rule card_length)
  finally show ?thesis by simp
qed

lemma lineage_enough:
  assumes wf: "wf_scopes root scopes"
  shows "bm_get scopes s = Some e \<Longrightarrow> unat (se_depth e) < n \<Longrightarrow> unat (se_depth e) < k \<Longrightarrow>
     lineage n scopes s = lineage k scopes s"
proof (induction n arbitrary: k s e)
  case (Suc n)
  obtain j where k: "k = Suc j" using Suc.prems(3) by (cases k) auto
  show ?case
  proof (cases "se_parent e")
    case None
    then show ?thesis using Suc.prems k by simp
  next
    case (Some p)
    obtain pe where "bm_get scopes p = Some pe" "unat (se_depth e) = Suc (unat (se_depth pe))"
      by (rule wf_scopes_parent[OF wf Suc.prems(1) Some])
    then show ?thesis using Suc.IH[of p pe j] Suc.prems k Some by simp
  qed
qed simp

text \<open>The climbing loop of the code, as an equation.\<close>

lemma scope_lineage_step:
  assumes wf: "wf_scopes root scopes" and e: "bm_get scopes s = Some e"
  shows "scope_lineage scopes s = s # (case se_parent e of None \<Rightarrow> [] | Some p \<Rightarrow> scope_lineage scopes p)"
proof -
  obtain n where n: "length scopes = Suc n" using depth_below[OF wf e] by (cases scopes) auto
  show ?thesis
  proof (cases "se_parent e")
    case None
    then show ?thesis using e by (simp add: scope_lineage_def n)
  next
    case (Some p)
    obtain pe where pe: "bm_get scopes p = Some pe" "unat (se_depth e) = Suc (unat (se_depth pe))"
      by (rule wf_scopes_parent[OF wf e Some])
    have "lineage n scopes p = lineage (Suc n) scopes p"
      using depth_below[OF wf e] pe n by (intro lineage_enough[OF wf pe(1)]) auto
    then show ?thesis using e Some by (simp add: scope_lineage_def n)
  qed
qed

lemma lineage_scopes:
  assumes wf: "wf_scopes root scopes"
  shows "bm_get scopes s \<noteq> None \<Longrightarrow> a \<in> set (lineage n scopes s) \<Longrightarrow> bm_get scopes a \<noteq> None"
proof (induction n arbitrary: s)
  case (Suc n)
  obtain e where e: "bm_get scopes s = Some e" using Suc.prems by blast
  show ?case
  proof (cases "se_parent e")
    case None
    then show ?thesis using Suc.prems e by auto
  next
    case (Some p)
    obtain pe where "bm_get scopes p = Some pe" by (rule wf_scopes_parent[OF wf e Some])
    then show ?thesis using Suc.IH[of p] Suc.prems e Some by auto
  qed
qed simp

lemma root_in_lineage:
  assumes wf: "wf_scopes root scopes"
  shows "bm_get scopes s = Some e \<Longrightarrow> root \<in> set (scope_lineage scopes s)"
proof (induction "unat (se_depth e)" arbitrary: s e)
  case 0
  have "se_parent e = None"
  proof (rule ccontr)
    assume "se_parent e \<noteq> None"
    then obtain p where "se_parent e = Some p" by blast
    from wf_scopes_parent[OF wf 0(2) this] 0(1) show False by auto
  qed
  then show ?case using wf_scopes_root[OF wf 0(2)] scope_lineage_step[OF wf 0(2)] by simp
next
  case (Suc k)
  show ?case
  proof (cases "se_parent e")
    case None
    then show ?thesis using wf_scopes_root[OF wf Suc.prems] scope_lineage_step[OF wf Suc.prems] by simp
  next
    case (Some p)
    obtain pe where "bm_get scopes p = Some pe" "unat (se_depth e) = Suc (unat (se_depth pe))"
      by (rule wf_scopes_parent[OF wf Suc.prems Some])
    then show ?thesis using Suc.hyps scope_lineage_step[OF wf Suc.prems] Some by simp
  qed
qed

section \<open>The parts of the constructor\<close>

lemma declare_scopes_Ok:
  "declare_scopes ss P0 = Ok P \<Longrightarrow> bm_ok P0 \<Longrightarrow>
     bm_ok P \<and> (\<forall>x. bm_get P0 x \<noteq> None \<longrightarrow> bm_get P x = bm_get P0 x)
     \<and> (\<forall>s \<in> set ss. bm_get P (ss_id s) = Some (ss_parent s))
     \<and> (\<forall>x pp. bm_get P x = Some pp \<longrightarrow> bm_get P0 x = Some pp \<or> (\<exists>s \<in> set ss. ss_id s = x \<and> ss_parent s = pp))"
proof (induction ss arbitrary: P0)
  case (Cons s ss)
  have new: "bm_get P0 (ss_id s) = None" and rec: "declare_scopes ss (bm_insert (ss_id s) (ss_parent s) P0) = Ok P"
    using Cons.prems(1) by (auto simp: res_iff bm_contains_def split: if_splits)
  have "bm_ok (bm_insert (ss_id s) (ss_parent s) P0)" using Cons.prems(2) by simp
  note ih = Cons.IH[OF rec this]
  have old: "bm_get P x = bm_get P0 x" if "bm_get P0 x \<noteq> None" for x
    using ih that new by (cases "x = ss_id s") auto
  have head: "bm_get P (ss_id s) = Some (ss_parent s)" using ih by auto
  have inv: "bm_get P0 x = Some pp \<or> (\<exists>s' \<in> set (s # ss). ss_id s' = x \<and> ss_parent s' = pp)"
    if "bm_get P x = Some pp" for x pp
  proof (cases "x = ss_id s")
    case True
    then show ?thesis using head that by auto
  next
    case False
    have "bm_get (bm_insert (ss_id s) (ss_parent s) P0) x = Some pp \<or> (\<exists>s' \<in> set ss. ss_id s' = x \<and> ss_parent s' = pp)"
      using ih that by blast
    then show ?thesis using False by auto
  qed
  show ?case using ih old head inv by auto
qed simp

lemma check_parents_Ok:
  "check_parents P ss = Ok u \<Longrightarrow> \<forall>s \<in> set ss. \<forall>p. ss_parent s = Some p \<longrightarrow> bm_contains P p"
  by (induction P ss rule: check_parents.induct) (auto split: option.splits if_splits)

lemma scope_entries_Ok:
  "scope_entries D P = Ok S \<Longrightarrow> map fst S = map fst P \<and>
     (\<forall>s. bm_get S s = Option.bind (bm_get P s) (\<lambda>pp. map_option (\<lambda>k. \<lparr>se_parent = pp, se_depth = k\<rparr>) (bm_get D s)))"
proof (induction D P arbitrary: S rule: scope_entries.induct)
  case (2 D i parent P)
  obtain k S' where "bm_get D i = Some k" "scope_entries D P = Ok S'"
      "S = (i, \<lparr>se_parent = parent, se_depth = k\<rparr>) # S'"
    using "2.prems" by (auto simp: res_iff)
  with "2.IH"[of S'] show ?case by auto
qed simp

lemma scope_entries_not_Panic:
  "set (bm_keys P) \<subseteq> set (bm_keys D) \<Longrightarrow> scope_entries D P \<noteq> Panic"
proof (induction D P rule: scope_entries.induct)
  case (2 D i parent P)
  then have "bm_get D i \<noteq> None" "scope_entries D P \<noteq> Panic"
    using bm_get_None_iff[of D i] by (auto simp: bm_keys_def)
  then show ?case by (auto simp: res_iff)
qed simp

lemma children_fold:
  "(case bm_get (fold (\<lambda>(i, e) m. case se_parent e of None \<Rightarrow> m | Some p \<Rightarrow> add_child p i m) scopes m) s of
      None \<Rightarrow> False | Some cs \<Rightarrow> c \<in> set cs)
   \<longleftrightarrow> (case bm_get m s of None \<Rightarrow> False | Some cs \<Rightarrow> c \<in> set cs) \<or> (\<exists>e. (c, e) \<in> set scopes \<and> se_parent e = Some s)"
proof (induction scopes arbitrary: m)
  case (Cons x scopes)
  obtain i e where x: "x = (i, e)" by (cases x)
  show ?case
  proof (cases "se_parent e")
    case None
    then show ?thesis using Cons by (auto simp: x)
  next
    case (Some p)
    have "(case bm_get (add_child p i m) s of None \<Rightarrow> False | Some cs \<Rightarrow> c \<in> set cs)
        \<longleftrightarrow> (case bm_get m s of None \<Rightarrow> False | Some cs \<Rightarrow> c \<in> set cs) \<or> (s = p \<and> c = i)"
      by (auto simp: add_child_def split: option.split)
    then show ?thesis using Cons[of "add_child p i m"] Some by (auto simp: x)
  qed
qed simp

lemma scope_children_iff:
  assumes "bm_ok scopes"
  shows "(case bm_get (scope_children scopes) s of None \<Rightarrow> False | Some cs \<Rightarrow> c \<in> set cs)
     \<longleftrightarrow> parent_in scopes c = Some s"
  unfolding scope_children_def children_fold using bm_get_iff[OF assms, of c]
  by (auto simp: parent_in_def bind_eq_Some_conv)

lemma declare_tasks_Ok:
  "declare_tasks scopes ts T0 = Ok T \<Longrightarrow> bm_ok T0 \<Longrightarrow>
     (\<forall>t e. bm_get T0 t = Some e \<longrightarrow> te_scope e \<in> set (bm_keys scopes)) \<Longrightarrow>
     bm_ok T \<and> (\<forall>t e. bm_get T t = Some e \<longrightarrow> te_scope e \<in> set (bm_keys scopes))"
proof (induction ts arbitrary: T0)
  case (Cons t ts)
  let ?e = "\<lparr>te_scope = tsp_scope t, te_sendable = tsp_sendable t,
             te_shareable = tsp_shareable t, te_outcome = tsp_outcome t\<rparr>"
  have c: "bm_contains scopes (tsp_scope t)"
    and rec: "declare_tasks scopes ts (bm_insert (tsp_id t) ?e T0) = Ok T"
    using Cons.prems(1) by (simp_all add: res_iff split: if_splits)
  have ok: "bm_ok (bm_insert (tsp_id t) ?e T0)" using Cons.prems(2) by simp
  have "\<forall>x e. bm_get (bm_insert (tsp_id t) ?e T0) x = Some e \<longrightarrow> te_scope e \<in> set (bm_keys scopes)"
    using Cons.prems(3) c by (simp add: bm_contains_iff)
  then show ?case by (rule Cons.IH[OF rec ok])
qed simp

lemma declare_tasks_not_Panic: "declare_tasks scopes ts T0 \<noteq> Panic"
  by (induction scopes ts T0 rule: declare_tasks.induct) (auto simp: res_iff st_validate_identity_def)

lemma declare_dependencies_Ok:
  "declare_dependencies scopes tasks es d0 = Ok deps \<Longrightarrow> bs_ok d0 \<Longrightarrow>
     bs_ok deps \<and> (\<forall>p d. (p, d) \<in> set deps \<longrightarrow> (p, d) \<in> set d0 \<or>
       (\<exists>pe de. bm_get tasks p = Some pe \<and> bm_get tasks d = Some de
          \<and> is_self_or_ancestor scopes (te_scope de) (te_scope pe)))"
proof (induction es arbitrary: d0)
  case (Cons e es)
  obtain pe de where t: "bm_get tasks (de_prerequisite e) = Some pe" "bm_get tasks (de_dependent e) = Some de"
    and c: "is_self_or_ancestor scopes (te_scope de) (te_scope pe)"
    and rec: "declare_dependencies scopes tasks es (bs_insert (de_prerequisite e, de_dependent e) d0) = Ok deps"
    using Cons.prems(1) by (auto split: option.splits if_splits)
  have "bs_ok (bs_insert (de_prerequisite e, de_dependent e) d0)" using Cons.prems(2) by simp
  note ih = Cons.IH[OF rec this]
  show ?case
  proof (intro conjI allI impI)
    fix p d
    assume "(p, d) \<in> set deps"
    then consider "(p, d) = (de_prerequisite e, de_dependent e)" | "(p, d) \<in> set d0" |
      "\<exists>pe de. bm_get tasks p = Some pe \<and> bm_get tasks d = Some de
          \<and> is_self_or_ancestor scopes (te_scope de) (te_scope pe)"
      using ih by auto
    then show "(p, d) \<in> set d0 \<or> (\<exists>pe de. bm_get tasks p = Some pe \<and> bm_get tasks d = Some de
          \<and> is_self_or_ancestor scopes (te_scope de) (te_scope pe))"
      using t c by cases auto
  qed (use ih in blast)
qed simp

lemma declare_dependencies_not_Panic: "declare_dependencies scopes tasks es d0 \<noteq> Panic"
proof (induction es arbitrary: d0)
  case (Cons e es)
  show ?case
  proof (cases "bm_get tasks (de_prerequisite e)")
    case (Some pe)
    then show ?thesis using Cons.IH by (cases "bm_get tasks (de_dependent e)") simp_all
  qed simp
qed simp

lemma declare_joins_Ok:
  "declare_joins scopes root js j0 = Ok joins \<Longrightarrow>
     (\<forall>t w. bm_get j0 t = Some w \<longrightarrow> parent_in scopes t = Some w) \<Longrightarrow>
     (\<forall>t w. bm_get joins t = Some w \<longrightarrow> parent_in scopes t = Some w)"
proof (induction js arbitrary: j0)
  case (Cons j js)
  obtain te where t: "bm_get scopes (sj_target j) = Some te" "se_parent te = Some (sj_waiter j)"
    and rec: "declare_joins scopes root js (bm_insert (sj_target j) (sj_waiter j) j0) = Ok joins"
    using Cons.prems(1) by (auto simp: res_iff split: option.splits if_splits)
  have "\<forall>t w. bm_get (bm_insert (sj_target j) (sj_waiter j) j0) t = Some w \<longrightarrow> parent_in scopes t = Some w"
    using Cons.prems(2) t by (auto simp: parent_in_def)
  then show ?case by (rule Cons.IH[OF rec])
qed simp

lemma declare_joins_not_Panic:
  assumes wf: "wf_scopes root scopes"
  shows "declare_joins scopes root js j0 \<noteq> Panic"
proof (induction js arbitrary: j0)
  case (Cons j js)
  show ?case
  proof (cases "bm_get scopes (sj_target j)")
    case None
    then show ?thesis by (cases "bm_get scopes (sj_waiter j)") simp_all
  next
    case (Some te)
    have "se_parent te \<noteq> None" if "sj_target j \<noteq> root"
      using wf_scopes_root[OF wf Some] that by blast
    then show ?thesis using Some Cons.IH
      by (cases "bm_get scopes (sj_waiter j)"; cases "se_parent te") auto
  qed
qed simp

end
