(* ===== verification/ScopedMoves.thy ===== *)
theory ScopedMoves
  imports ScopedModelProps
begin

text \<open>
  The steps of a scoped-task run (\<open>src/scoped_tasks.rs\<close>) as a relation: one rule per kind of
  event, with the guard under which \<open>step\<close> emits it.  \<open>st_step_cases\<close> says that the code's step
  takes one of these moves or is one of the quiet cases.
\<close>

section \<open>Reading a run\<close>

lemma state_is_phase: "state_is r t s \<longleftrightarrow> task_phase r t = Some s"
  by (simp add: state_is_def task_phase_def split: option.splits)

lemma phase_set_state:
  "task_phase (set_state t s r) u = (if u = t \<and> task_phase r t \<noteq> None then Some s else task_phase r u)"
  by (auto simp: task_phase_def set_state_def bm_get_modify)

named_theorems run_simps \<open>reading a run through an update\<close>

lemma phase_update [run_simps]:
  "task_phase (r\<lparr>rn_running := a\<rparr>) = task_phase r" "task_phase (r\<lparr>rn_pending := b\<rparr>) = task_phase r"
  "task_phase (r\<lparr>rn_announced := c\<rparr>) = task_phase r" "task_phase (r\<lparr>rn_cancelled := c\<rparr>) = task_phase r"
  "task_phase (r\<lparr>rn_finalized := c\<rparr>) = task_phase r" "task_phase (r\<lparr>rn_exited := c\<rparr>) = task_phase r"
  "task_phase (r\<lparr>rn_outcomes := d\<rparr>) = task_phase r" "task_phase (r\<lparr>rn_failures := e\<rparr>) = task_phase r"
  "task_phase (r\<lparr>rn_complete := g\<rparr>) = task_phase r" "task_phase (r\<lparr>rn_seq := n\<rparr>) = task_phase r"
  "task_phase (r\<lparr>rn_totals := h\<rparr>) = task_phase r" "task_phase (r\<lparr>rn_events := j\<rparr>) = task_phase r"
  by (simp_all add: task_phase_def fun_eq_iff)

lemma phase_set_seq [run_simps]:
  "task_phase (r\<lparr>rn_states := bm_modify t (\<lambda>x. x\<lparr>tr_seq := q\<rparr>) (rn_states r)\<rparr>) = task_phase r"
  by (auto simp: task_phase_def bm_get_modify fun_eq_iff option.map_comp comp_def)

lemma set_state_reads [run_simps]:
  "rn_fingerprint (set_state t s r) = rn_fingerprint r" "rn_model (set_state t s r) = rn_model r"
  "rn_pending (set_state t s r) = rn_pending r" "rn_dependents (set_state t s r) = rn_dependents r"
  "rn_cancelled (set_state t s r) = rn_cancelled r" "rn_announced (set_state t s r) = rn_announced r"
  "rn_exited (set_state t s r) = rn_exited r" "rn_finalized (set_state t s r) = rn_finalized r"
  "rn_failures (set_state t s r) = rn_failures r" "rn_outcomes (set_state t s r) = rn_outcomes r"
  "rn_seq (set_state t s r) = rn_seq r" "rn_events (set_state t s r) = rn_events r"
  "rn_running (set_state t s r) = rn_running r" "rn_totals (set_state t s r) = rn_totals r"
  "rn_complete (set_state t s r) = rn_complete r"
  "bm_keys (rn_states (set_state t s r)) = bm_keys (rn_states r)"
  by (simp_all add: set_state_def)

lemma record_failure_reads [run_simps]:
  "rn_fingerprint (record_failure t s f r) = rn_fingerprint r" "rn_model (record_failure t s f r) = rn_model r"
  "rn_pending (record_failure t s f r) = rn_pending r" "rn_dependents (record_failure t s f r) = rn_dependents r"
  "rn_cancelled (record_failure t s f r) = rn_cancelled r" "rn_announced (record_failure t s f r) = rn_announced r"
  "rn_exited (record_failure t s f r) = rn_exited r" "rn_finalized (record_failure t s f r) = rn_finalized r"
  "rn_outcomes (record_failure t s f r) = rn_outcomes r" "rn_states (record_failure t s f r) = rn_states r"
  "rn_seq (record_failure t s f r) = rn_seq r" "rn_events (record_failure t s f r) = rn_events r"
  "rn_running (record_failure t s f r) = rn_running r" "rn_totals (record_failure t s f r) = rn_totals r"
  "rn_complete (record_failure t s f r) = rn_complete r"
  "task_phase (record_failure t s f r) = task_phase r"
  by (simp_all add: record_failure_def task_phase_def fun_eq_iff)

lemma record_event_reads [run_simps]:
  "rn_fingerprint (record_event ev r) = rn_fingerprint r" "rn_model (record_event ev r) = rn_model r"
  "rn_pending (record_event ev r) = rn_pending r" "rn_dependents (record_event ev r) = rn_dependents r"
  "rn_cancelled (record_event ev r) = rn_cancelled r" "rn_announced (record_event ev r) = rn_announced r"
  "rn_exited (record_event ev r) = rn_exited r" "rn_finalized (record_event ev r) = rn_finalized r"
  "rn_failures (record_event ev r) = rn_failures r" "rn_outcomes (record_event ev r) = rn_outcomes r"
  "rn_states (record_event ev r) = rn_states r" "rn_seq (record_event ev r) = rn_seq r"
  "rn_running (record_event ev r) = rn_running r" "rn_complete (record_event ev r) = rn_complete r"
  "rn_events (record_event ev r) = rn_events r @ [ev]"
  "rn_totals (record_event ev r) = bump_totals ev (rn_totals r)"
  "task_phase (record_event ev r) = task_phase r"
  by (simp_all add: record_event_def task_phase_def fun_eq_iff)

lemma task_scope_model: "rn_model r' = rn_model r \<Longrightarrow> task_scope r' = task_scope r"
  by (simp add: task_scope_def fun_eq_iff)

section \<open>The moves\<close>

definition run_deps :: "st_run \<Rightarrow> decl_id \<Rightarrow> decl_id list" where
  "run_deps r t = (case bm_get (rn_dependents r) t of None \<Rightarrow> [] | Some ds \<Rightarrow> ds)"

text \<open>The running task is taken off the processor and stamped with its completion number.\<close>

definition retire :: "decl_id \<Rightarrow> st_run \<Rightarrow> st_run" where
  "retire t r = r\<lparr>rn_running := None,
     rn_states := bm_modify t (\<lambda>x. x\<lparr>tr_seq := Some (rn_seq r)\<rparr>) (rn_states r), rn_seq := rn_seq r + 1\<rparr>"

lemma retire_reads [run_simps]:
  "rn_fingerprint (retire t r) = rn_fingerprint r" "rn_model (retire t r) = rn_model r"
  "rn_pending (retire t r) = rn_pending r" "rn_dependents (retire t r) = rn_dependents r"
  "rn_cancelled (retire t r) = rn_cancelled r" "rn_announced (retire t r) = rn_announced r"
  "rn_exited (retire t r) = rn_exited r" "rn_finalized (retire t r) = rn_finalized r"
  "rn_failures (retire t r) = rn_failures r" "rn_outcomes (retire t r) = rn_outcomes r"
  "rn_events (retire t r) = rn_events r" "rn_running (retire t r) = None"
  "rn_totals (retire t r) = rn_totals r" "rn_complete (retire t r) = rn_complete r"
  "bm_keys (rn_states (retire t r)) = bm_keys (rn_states r)"
  "rn_seq (retire t r) = rn_seq r + 1"
  "task_phase (retire t r) = task_phase r"
  by (simp_all add: retire_def) (auto simp: task_phase_def bm_get_modify fun_eq_iff option.map_comp comp_def)

inductive st_move :: "st_run \<Rightarrow> task_event \<Rightarrow> st_run \<Rightarrow> bool" where
  mv_complete: "rn_running r = Some t \<Longrightarrow> bm_get (sm_tasks (rn_model r)) t = Some e \<Longrightarrow> te_outcome e = Succeed \<Longrightarrow>
     settle_completion_edges (run_deps r t) (rn_pending r) = Some waits \<Longrightarrow>
     st_move r (Ev_Completed t) ((set_state t Ts_Completed (retire t r))\<lparr>rn_pending := waits\<rparr>)"
| mv_fail: "rn_running r = Some t \<Longrightarrow> bm_get (sm_tasks (rn_model r)) t = Some e \<Longrightarrow> te_outcome e = Fail failure \<Longrightarrow>
     st_move r (Ev_Failed t failure) (record_failure t (te_scope e) failure (set_state t Ts_Failed (retire t r)))"
| mv_announce: "rn_running r = None \<Longrightarrow> bs_contains (rn_cancelled r) s \<Longrightarrow> \<not> bs_contains (rn_announced r) s \<Longrightarrow>
     st_move r (Ev_ScopeCancelled s) (r\<lparr>rn_announced := bs_insert s (rn_announced r)\<rparr>)"
| mv_cancel: "rn_running r = None \<Longrightarrow> task_phase r t = Some Ts_Pending \<Longrightarrow> task_in_cancelled_scope r t \<Longrightarrow>
     st_move r (Ev_Cancelled t) (set_state t Ts_Cancelled r)"
| mv_start: "rn_running r = None \<Longrightarrow> task_phase r t = Some Ts_Pending \<Longrightarrow> is_ready r t \<Longrightarrow>
     \<not> task_in_cancelled_scope r t \<Longrightarrow> \<forall>s. bs_contains (rn_cancelled r) s \<longrightarrow> bs_contains (rn_announced r) s \<Longrightarrow>
     st_move r (Ev_Started t) ((set_state t Ts_Started r)\<lparr>rn_running := Some t\<rparr>)"
| mv_abandon: "rn_running r = None \<Longrightarrow> task_phase r t = Some Ts_Pending \<Longrightarrow> \<not> is_ready r t \<Longrightarrow>
     \<forall>u. task_phase r u = Some Ts_Pending \<longrightarrow> \<not> is_ready r u \<and> \<not> task_in_cancelled_scope r u \<Longrightarrow>
     st_move r (Ev_Cancelled t) (set_state t Ts_Cancelled r)"
| mv_finalize: "rn_running r = None \<Longrightarrow> \<forall>u. task_phase r u \<noteq> Some Ts_Pending \<Longrightarrow> exit_candidate r = Some s \<Longrightarrow>
     max_by (\<lambda>a b. snd a \<le> snd b) (unfinalized_ran_tasks r s) = Some (t, q) \<Longrightarrow>
     st_move r (Ev_Finalized t) (r\<lparr>rn_finalized := bs_insert t (rn_finalized r)\<rparr>)"
| mv_exit: "rn_running r = None \<Longrightarrow> \<forall>u. task_phase r u \<noteq> Some Ts_Pending \<Longrightarrow> exit_candidate r = Some s \<Longrightarrow>
     unfinalized_ran_tasks r s = [] \<Longrightarrow>
     st_move r (Ev_ScopeExited s (scope_exit_outcome_for r s))
       (r\<lparr>rn_exited := bs_insert s (rn_exited r),
          rn_outcomes := bm_insert s (scope_exit_outcome_for r s) (rn_outcomes r)\<rparr>)"

text \<open>Recording the event; the exit of the root completes the run.\<close>

definition conclude :: "task_event \<Rightarrow> st_run \<Rightarrow> st_run" where
  "conclude ev r =
     (case ev of
        Ev_ScopeExited s _ \<Rightarrow> if s = sm_root (rn_model r) then (record_event ev r)\<lparr>rn_complete := True\<rparr>
                              else record_event ev r
      | _ \<Rightarrow> record_event ev r)"

section \<open>The handlers are moves\<close>

lemma find_task_Some:
  "find_task r s p = Some t \<Longrightarrow> task_phase r t = Some s \<and> p t"
  by (auto simp: find_task_def find_Some_iff state_is_phase)

lemma find_task_None:
  "find_task r s p = None \<Longrightarrow> task_phase r t = Some s \<Longrightarrow> \<not> p t"
proof -
  assume f: "find_task r s p = None" and t: "task_phase r t = Some s"
  have "t \<in> set (bm_keys (rn_states r))"
    using t bm_get_None_iff[of "rn_states r" t] by (auto simp: task_phase_def)
  then show "\<not> p t" using f t by (auto simp: find_task_def find_None_iff state_is_phase)
qed

lemma apply_running_move:
  assumes "apply_running_outcome r = Ok (Some (ev, r1))"
  shows "st_move r ev r1 \<and> (\<forall>s x. ev \<noteq> Ev_ScopeExited s x)"
proof -
  obtain t where t: "rn_running r = Some t"
    using assms by (cases "rn_running r") (simp_all add: apply_running_outcome_def)
  obtain e where e: "bm_get (sm_tasks (rn_model r)) t = Some e"
    using assms t by (cases "bm_get (sm_tasks (rn_model r)) t") (simp_all add: apply_running_outcome_def)
  obtain x where x: "bm_get (rn_states r) t = Some x"
    using assms t e by (cases "bm_get (rn_states r) t") (simp_all add: apply_running_outcome_def)
  note a = assms[unfolded apply_running_outcome_def Let_def, folded retire_def]
  show ?thesis
  proof (cases "te_outcome e")
    case Succeed
    then obtain waits where w: "settle_completion_edges (run_deps r t) (rn_pending r) = Some waits"
        "ev = Ev_Completed t" "r1 = (set_state t Ts_Completed (retire t r))\<lparr>rn_pending := waits\<rparr>"
      using a t e x by (auto simp: run_deps_def run_simps split: option.splits)
    show ?thesis unfolding w(2,3) using mv_complete[OF t e Succeed w(1)] by simp
  next
    case (Fail failure)
    then have "ev = Ev_Failed t failure"
        "r1 = record_failure t (te_scope e) failure (set_state t Ts_Failed (retire t r))"
      using a t e x by simp_all
    then show ?thesis using mv_fail[OF t e Fail] by simp
  qed
qed

lemma apply_running_None: "apply_running_outcome r = Ok None \<Longrightarrow> rn_running r = None"
  by (auto simp: apply_running_outcome_def Let_def split: option.splits task_outcome.splits)

lemma apply_running_Err: "apply_running_outcome r \<noteq> Err e"
  by (auto simp: apply_running_outcome_def Let_def split: option.splits task_outcome.splits)

lemma announce_None:
  "materialize_scope_cancelled r = None \<Longrightarrow> bs_contains (rn_cancelled r) s \<Longrightarrow> bs_contains (rn_announced r) s"
  by (auto simp: materialize_scope_cancelled_def find_None_iff bs_contains_def split: option.splits)

lemma announce_move:
  "materialize_scope_cancelled r = Some (ev, r1) \<Longrightarrow> rn_running r = None \<Longrightarrow>
     st_move r ev r1 \<and> (\<forall>s x. ev \<noteq> Ev_ScopeExited s x)"
  by (auto simp: materialize_scope_cancelled_def find_Some_iff bs_contains_def
      intro!: mv_announce[unfolded bs_contains_def] split: option.splits)

lemma cancel_move:
  "materialize_task_cancelled r = Some (ev, r1) \<Longrightarrow> rn_running r = None \<Longrightarrow>
     st_move r ev r1 \<and> (\<forall>s x. ev \<noteq> Ev_ScopeExited s x)"
  by (auto simp: materialize_task_cancelled_def intro!: mv_cancel dest: find_task_Some split: option.splits)

lemma start_move:
  "start_ready_task r = Some (ev, r1) \<Longrightarrow> rn_running r = None \<Longrightarrow> materialize_scope_cancelled r = None \<Longrightarrow>
     st_move r ev r1 \<and> (\<forall>s x. ev \<noteq> Ev_ScopeExited s x)"
  by (auto simp: start_ready_task_def intro!: mv_start dest: find_task_Some announce_None split: option.splits)

lemma none_startable:
  assumes "materialize_task_cancelled r = None" "start_ready_task r = None" "task_phase r u = Some Ts_Pending"
  shows "\<not> is_ready r u \<and> \<not> task_in_cancelled_scope r u"
  using assms find_task_None[OF _ assms(3)]
  by (auto simp: materialize_task_cancelled_def start_ready_task_def split: option.splits)

lemma abandon_move:
  assumes "abandon_blocked_task r = Some (ev, r1)" "rn_running r = None"
    "materialize_task_cancelled r = None" "start_ready_task r = None"
  shows "st_move r ev r1 \<and> (\<forall>s x. ev \<noteq> Ev_ScopeExited s x)"
  using assms none_startable[OF assms(3,4)]
  by (auto simp: abandon_blocked_task_def intro!: mv_abandon dest: find_task_Some split: option.splits)

lemma none_pending:
  assumes "materialize_task_cancelled r = None" "start_ready_task r = None" "abandon_blocked_task r = None"
  shows "task_phase r u \<noteq> Some Ts_Pending"
  using none_startable[OF assms(1,2), of u] assms(3) find_task_None[of r Ts_Pending _ u]
  by (auto simp: abandon_blocked_task_def split: option.splits)

lemma finalize_move:
  "finalize_one_task r = Some (ev, r1) \<Longrightarrow> rn_running r = None \<Longrightarrow> (\<forall>u. task_phase r u \<noteq> Some Ts_Pending) \<Longrightarrow>
     st_move r ev r1 \<and> (\<forall>s x. ev \<noteq> Ev_ScopeExited s x)"
  by (auto simp: finalize_one_task_def intro!: mv_finalize split: option.splits)

lemma exit_move:
  "exit_one_scope r = Some (ev, r1) \<Longrightarrow> rn_running r = None \<Longrightarrow> (\<forall>u. task_phase r u \<noteq> Some Ts_Pending) \<Longrightarrow>
     st_move r ev r1"
  by (auto simp: exit_one_scope_def Let_def intro!: mv_exit split: option.splits if_splits)

section \<open>The code's step\<close>

definition stuck :: "st_run \<Rightarrow> bool" where
  "stuck r \<longleftrightarrow> rn_running r = None \<and> (\<forall>u. task_phase r u \<noteq> Some Ts_Pending)
     \<and> finalize_one_task r = None \<and> exit_one_scope r = None"

lemma first_some_move:
  assumes "first_some [materialize_scope_cancelled, materialize_task_cancelled, start_ready_task,
      abandon_blocked_task, finalize_one_task] r = Some (ev, r1)" "rn_running r = None"
  shows "st_move r ev r1 \<and> (\<forall>s x. ev \<noteq> Ev_ScopeExited s x)"
proof -
  show ?thesis
  proof (cases "materialize_scope_cancelled r")
    case a: None
    show ?thesis
    proof (cases "materialize_task_cancelled r")
      case b: None
      show ?thesis
      proof (cases "start_ready_task r")
        case c: None
        show ?thesis
        proof (cases "abandon_blocked_task r")
          case d: None
          have "finalize_one_task r = Some (ev, r1)"
            using assms(1) a b c d by (cases "finalize_one_task r") simp_all
          then show ?thesis using finalize_move none_pending[OF b c d] assms(2) by blast
        qed (use assms a b c abandon_move in auto)
      qed (use assms a b start_move in auto)
    qed (use assms a cancel_move in auto)
  qed (use assms announce_move in auto)
qed

lemma first_some_Cons:
  "first_some (f # fs) r = None \<longleftrightarrow> f r = None \<and> first_some fs r = None"
  by (cases "f r") simp_all

lemma first_some_stuck:
  assumes "first_some [materialize_scope_cancelled, materialize_task_cancelled, start_ready_task,
      abandon_blocked_task, finalize_one_task] r = None"
  shows "(\<forall>u. task_phase r u \<noteq> Some Ts_Pending) \<and> finalize_one_task r = None"
proof -
  have "materialize_task_cancelled r = None" "start_ready_task r = None" "abandon_blocked_task r = None"
      "finalize_one_task r = None"
    using assms unfolding first_some_Cons by blast+
  then show ?thesis using none_pending by blast
qed

lemma conclude_other: "\<forall>s x. ev \<noteq> Ev_ScopeExited s x \<Longrightarrow> conclude ev r = record_event ev r"
  by (cases ev) (simp_all add: conclude_def)

abbreviation step_order :: "(st_run \<Rightarrow> (task_event \<times> st_run) option) list" where
  "step_order \<equiv> [materialize_scope_cancelled, materialize_task_cancelled, start_ready_task,
                  abandon_blocked_task, finalize_one_task]"

lemma st_step_refused: "authenticate_run r = Err e \<Longrightarrow> st_step r = (Err e, r)"
  by (simp add: st_step_def)

lemma st_step_quiet: "authenticate_run r = Ok u \<Longrightarrow> rn_complete r \<Longrightarrow> st_step r = (Ok None, r)"
  by (simp add: st_step_def)

lemma st_step_running:
  "authenticate_run r = Ok u \<Longrightarrow> \<not> rn_complete r \<Longrightarrow> apply_running_outcome r = Ok (Some (ev, r1)) \<Longrightarrow>
     st_step r = (Ok (Some ev), record_event ev r1)"
  by (simp add: st_step_def)

lemma st_step_first:
  "authenticate_run r = Ok u \<Longrightarrow> \<not> rn_complete r \<Longrightarrow> apply_running_outcome r = Ok None \<Longrightarrow>
     first_some step_order r = Some (ev, r1) \<Longrightarrow> st_step r = (Ok (Some ev), record_event ev r1)"
  by (simp add: st_step_def del: first_some.simps)

lemma st_step_exit:
  "authenticate_run r = Ok u \<Longrightarrow> \<not> rn_complete r \<Longrightarrow> apply_running_outcome r = Ok None \<Longrightarrow>
     first_some step_order r = None \<Longrightarrow> exit_one_scope r = Some (Ev_ScopeExited s x, r1) \<Longrightarrow>
     st_step r = (Ok (Some (Ev_ScopeExited s x)), conclude (Ev_ScopeExited s x) r1)"
  by (simp add: st_step_def conclude_def Let_def run_simps del: first_some.simps)

lemma st_step_stuck:
  "authenticate_run r = Ok u \<Longrightarrow> \<not> rn_complete r \<Longrightarrow> apply_running_outcome r = Ok None \<Longrightarrow>
     first_some step_order r = None \<Longrightarrow> exit_one_scope r = None \<Longrightarrow>
     st_step r = (Ok None, r\<lparr>rn_complete := True\<rparr>)"
  by (simp add: st_step_def del: first_some.simps)

lemma exit_event: "exit_one_scope r = Some (ev, r1) \<Longrightarrow> \<exists>s x. ev = Ev_ScopeExited s x"
  by (auto simp: exit_one_scope_def Let_def split: option.splits if_splits)

lemma st_step_cases:
  assumes step: "st_step r = (res, r')"
  obtains (refused) e where "authenticate_run r = Err e" "res = Err e" "r' = r"
  | (quiet) "rn_complete r" "res = Ok None" "r' = r"
  | (broken) "apply_running_outcome r = Panic"
  | (moved) ev r1 where "\<not> rn_complete r" "st_move r ev r1" "res = Ok (Some ev)" "r' = conclude ev r1"
  | (stuck) "\<not> rn_complete r" "stuck r" "res = Ok None" "r' = r\<lparr>rn_complete := True\<rparr>"
proof (cases "authenticate_run r")
  case auth: (Ok u)
  show thesis
  proof (cases "rn_complete r")
    case True
    then show thesis using st_step_quiet[OF auth] step by (intro quiet) simp_all
  next
    case run: False
    show thesis
    proof (cases "apply_running_outcome r")
      case a: (Ok x)
      show thesis
      proof (cases x)
        case (Some y)
        then obtain ev r1 where y: "apply_running_outcome r = Ok (Some (ev, r1))" using a by (cases y) simp
        note m = apply_running_move[OF y]
        have "res = Ok (Some ev)" "r' = conclude ev r1"
            using m st_step_running[OF auth run y] step by (simp_all add: conclude_other)
          then show thesis using moved[OF run] m by blast
      next
        case None
        then have b: "apply_running_outcome r = Ok None" using a by simp
        note idle = apply_running_None[OF b]
        show thesis
        proof (cases "first_some step_order r")
          case (Some y)
          then obtain ev r1 where y: "first_some step_order r = Some (ev, r1)" by (cases y) simp
          note m = first_some_move[OF y idle]
          have "res = Ok (Some ev)" "r' = conclude ev r1"
            using m st_step_first[OF auth run b y] step by (simp_all add: conclude_other)
          then show thesis using moved[OF run] m by blast
        next
          case n: None
          note st = first_some_stuck[OF n]
          show thesis
          proof (cases "exit_one_scope r")
            case e: None
            have "stuck r" using st idle e by (simp add: stuck_def)
            then show thesis using stuck[OF run] st_step_stuck[OF auth run b n e] step by simp
          next
            case (Some y)
            then obtain ev r1 where y: "exit_one_scope r = Some (ev, r1)" by (cases y) simp
            obtain s x where ev: "ev = Ev_ScopeExited s x" using exit_event[OF y] by blast
            have "st_move r ev r1" using exit_move[OF y idle] st by blast
            from moved[OF run this] show thesis
              using st_step_exit[OF auth run b n] y ev step by simp
          qed
        qed
      qed
    next
      case (Err e)
      then show thesis using apply_running_Err by blast
    next
      case Panic
      then show thesis by (rule broken)
    qed
  qed
next
  case (Err e)
  then show thesis using st_step_refused[OF Err] step by (intro refused) simp_all
next
  case Panic
  then show thesis by (simp add: authenticate_run_def split: if_splits)
qed

end
