(* ===== verification/ScopedModel.thy ===== *)
theory ScopedModel
  imports ScopedModelProps
begin

text \<open>
  The constructor of the scoped-task model (\<open>ScopedTaskModel::try_new\<close> of \<open>src/scoped_tasks.rs\<close>):
  a model it returns is well formed, and it never panics.
\<close>

section \<open>Reading a chain of checks\<close>

lemma bind_OkE: "res_bind x f = Ok y \<Longrightarrow> (\<And>a. x = Ok a \<Longrightarrow> f a = Ok y \<Longrightarrow> R) \<Longrightarrow> R"
  by (cases x) auto

lemma guard_OkE: "(if c then Err e else x) = Ok y \<Longrightarrow> (\<not> c \<Longrightarrow> x = Ok y \<Longrightarrow> R) \<Longrightarrow> R"
  by (cases c) auto

lemma bind_not_Panic: "x \<noteq> Panic \<Longrightarrow> (\<And>a. x = Ok a \<Longrightarrow> f a \<noteq> Panic) \<Longrightarrow> res_bind x f \<noteq> Panic"
  by (cases x) auto

lemma guard_not_Panic: "(\<not> c \<Longrightarrow> x \<noteq> Panic) \<Longrightarrow> (if c then Err e else x) \<noteq> Panic"
  by (cases c) auto

section \<open>Scope entries\<close>

lemma declare_scopes_not_Panic: "declare_scopes ss P \<noteq> Panic"
  by (induction ss arbitrary: P) (auto simp: res_iff st_validate_identity_def)

lemma find_root_Some:
  assumes "count_roots ss = 1"
  obtains s where "s \<in> set ss" "ss_parent s = None" "find_root ss = Some (ss_id s)"
    "\<forall>s' \<in> set ss. ss_parent s' = None \<longrightarrow> s' = s"
proof -
  obtain s where f: "filter (\<lambda>s. ss_parent s = None) ss = [s]"
    using assms by (auto simp: count_roots_def length_Suc_conv)
  have mem: "x \<in> set ss \<and> ss_parent x = None \<longleftrightarrow> x = s" for x
    using arg_cong[OF f, of set] by auto
  have "\<exists>x. List.find (\<lambda>s. ss_parent s = None) ss = Some x"
  proof (rule ccontr)
    assume "\<nexists>x. List.find (\<lambda>s. ss_parent s = None) ss = Some x"
    then have "List.find (\<lambda>s. ss_parent s = None) ss = None" by (cases "List.find (\<lambda>s. ss_parent s = None) ss") simp_all
    then show False using mem[of s] unfolding find_None_iff by blast
  qed
  then obtain x where x: "List.find (\<lambda>s. ss_parent s = None) ss = Some x" by blast
  then have "x \<in> set ss \<and> ss_parent x = None" by (auto simp: find_Some_iff)
  then have xs: "x = s" by (simp only: mem)
  have r: "find_root ss = Some (ss_id s)" by (simp add: find_root_def x xs)
  have "s \<in> set ss" "ss_parent s = None" using mem[of s] by blast+
  moreover have "\<forall>s' \<in> set ss. ss_parent s' = None \<longrightarrow> s' = s" using mem by blast
  ultimately show thesis using that r by blast
qed

lemma parents_closed:
  assumes "declare_scopes ss bm_empty = Ok P" "check_parents P ss = Ok u" "bm_get P x = Some (Some p)"
  shows "bm_get P p \<noteq> None"
proof -
  obtain s where "s \<in> set ss" "ss_parent s = Some p"
    using declare_scopes_Ok[OF assms(1) bm_ok_empty] assms(3) by (metis bm_get_empty option.distinct(1))
  then show ?thesis using check_parents_Ok[OF assms(2)] by (auto simp: bm_contains_def)
qed

lemma entries_wf:
  assumes decl: "declare_scopes ss bm_empty = Ok P" and n: "count_roots ss = 1"
    and cd: "canonical_depths P = Ok D" and se: "scope_entries D P = Ok S"
    and r: "find_root ss = Some root"
  shows "wf_scopes root S"
proof -
  note P0 = declare_scopes_Ok[OF decl bm_ok_empty]
  have P: "bm_ok P" "\<And>s. s \<in> set ss \<Longrightarrow> bm_get P (ss_id s) = Some (ss_parent s)" using P0 by blast+
  have Pinv: "\<exists>s \<in> set ss. ss_id s = x \<and> ss_parent s = pp" if "bm_get P x = Some pp" for x pp
    using P0 that by (metis bm_get_empty option.distinct(1))
  note D = canonical_depths_Ok[OF cd]
  note S = scope_entries_Ok[OF se]
  obtain rs where rs: "rs \<in> set ss" "ss_parent rs = None" "root = ss_id rs"
      "\<forall>s' \<in> set ss. ss_parent s' = None \<longrightarrow> s' = rs"
  proof (rule find_root_Some[OF n], goal_cases)
    case (1 s)
    have "root = ss_id s" using 1(4) r by (simp only: option.inject)
    with 1(2,3) show thesis using 1(5) by (intro 1(1)[of s])
  qed
  have d: "bm_get D x \<noteq> None" if "bm_get P x \<noteq> None" for x
  proof -
    have "x \<in> set (bm_keys P)" using that bm_get_None_iff[of P x] by simp
    then have "x \<in> set (bm_keys D)" using D by (meson subsetD)
    then show ?thesis using bm_get_None_iff[of D x] by simp
  qed
  have Pr: "bm_get P root = Some None" using P(2)[OF rs(1)] rs(2,3) by simp
  have ok: "bm_ok S" using P(1) S by (simp add: bm_ok_def)
  have rootS: "\<exists>e. bm_get S root = Some e \<and> se_parent e = None"
  proof -
    obtain k where "bm_get D root = Some k" using d[of root] Pr by auto
    then have "bm_get S root = Some \<lparr>se_parent = None, se_depth = k\<rparr>" using S Pr by simp
    then show ?thesis by simp
  qed
  have entry: "bm_get P x = Some (se_parent e) \<and> bm_get D x = Some (se_depth e)" if "bm_get S x = Some e" for x e
  proof -
    have "Option.bind (bm_get P x) (\<lambda>pp. map_option (\<lambda>k. \<lparr>se_parent = pp, se_depth = k\<rparr>) (bm_get D x)) = Some e"
      using S that by simp
    then show ?thesis by (cases "bm_get P x"; cases "bm_get D x") auto
  qed
  have "case se_parent e of
      None \<Rightarrow> x = root \<and> se_depth e = 0
    | Some p \<Rightarrow> \<exists>pe. bm_get S p = Some pe \<and> unat (se_depth e) = Suc (unat (se_depth pe))"
    if x: "bm_get S x = Some e" for x e
  proof -
    have dep: "case bm_get P x of
        None \<Rightarrow> False
      | Some None \<Rightarrow> se_depth e = 0
      | Some (Some p) \<Rightarrow> \<exists>j. bm_get D p = Some j \<and> unat (se_depth e) = Suc (unat j)"
      using D entry[OF x] unfolding depths_ok_def by blast
    show ?thesis
    proof (cases "se_parent e")
      case None
      then obtain s where "s \<in> set ss" "ss_id s = x" "ss_parent s = None" using Pinv entry[OF x] by metis
      then have "x = root" using rs(3,4) by metis
      then show ?thesis using None dep entry[OF x] by simp
    next
      case (Some p)
      then obtain j where j: "bm_get D p = Some j" "unat (se_depth e) = Suc (unat j)"
        using dep entry[OF x] by auto
      have "case bm_get P p of None \<Rightarrow> False | Some None \<Rightarrow> j = 0 | Some (Some q) \<Rightarrow> \<exists>i. bm_get D q = Some i \<and> unat j = Suc (unat i)"
        using D j(1) unfolding depths_ok_def by blast
      then obtain pp where "bm_get P p = Some pp" by (cases "bm_get P p") auto
      then have "bm_get S p = Some \<lparr>se_parent = pp, se_depth = j\<rparr>" using S j(1) by simp
      then show ?thesis using Some j(2) by simp
    qed
  qed
  then show ?thesis using ok rootS unfolding wf_scopes_def by blast
qed

section \<open>The constructor\<close>

lemma try_new_parts:
  assumes "try_new sha256 ss ts es js = Ok m"
  obtains P D S T E J root where
    "declare_scopes ss bm_empty = Ok P" "count_roots ss = 1" "check_parents P ss = Ok ()"
    "canonical_depths P = Ok D" "scope_entries D P = Ok S" "find_root ss = Some root"
    "declare_tasks S ts bm_empty = Ok T" "declare_dependencies S T es [] = Ok E"
    "validate_acyclic T E = Ok ()" "declare_joins S root js bm_empty = Ok J" "all_joined S J"
    "sm_root m = root" "sm_scopes m = S" "sm_tasks m = T" "sm_dependencies m = E" "sm_joins m = J"
    "sm_children m = scope_children S"
proof -
  from assms show thesis unfolding try_new_def Let_def
  proof (elim guard_OkE bind_OkE, goal_cases)
    case (1 u P u' D S root T E u'' J)
    have "count_roots ss = 1" using 1 by simp
    moreover have "find_root ss = Some root" using 1 by (simp add: res_iff)
    ultimately show thesis using 1 by (intro that[of P D S root T E J]) auto
  qed
qed

lemma deps_ends:
  assumes "declare_dependencies S T es [] = Ok E" "bm_ok T"
  shows "fst ` set E \<subseteq> set (bm_keys T)" "snd ` set E \<subseteq> set (bm_keys T)"
proof -
  have "bm_get T p \<noteq> None \<and> bm_get T d \<noteq> None" if "(p, d) \<in> set E" for p d
    using declare_dependencies_Ok[OF assms(1)] that by auto
  then show "fst ` set E \<subseteq> set (bm_keys T)" "snd ` set E \<subseteq> set (bm_keys T)"
    using bm_get_None_iff by force+
qed

lemma all_joined_get:
  assumes "all_joined S J" "bm_get S t = Some e" "se_parent e = Some p"
  shows "bm_get J t \<noteq> None"
  using assms bm_get_in_set[OF assms(2)] unfolding all_joined_def list_all_iff bm_contains_def by fastforce

lemma try_new_wf:
  assumes "try_new sha256 ss ts es js = Ok m"
  shows "wf_model m"
proof -
  obtain P D S T E J root where p: "declare_scopes ss bm_empty = Ok P" "count_roots ss = 1"
      "check_parents P ss = Ok ()" "canonical_depths P = Ok D" "scope_entries D P = Ok S"
      "find_root ss = Some root" "declare_tasks S ts bm_empty = Ok T" "declare_dependencies S T es [] = Ok E"
      "validate_acyclic T E = Ok ()" "declare_joins S root js bm_empty = Ok J" "all_joined S J"
    and m: "sm_root m = root" "sm_scopes m = S" "sm_tasks m = T" "sm_dependencies m = E" "sm_joins m = J"
      "sm_children m = scope_children S"
    using try_new_parts[OF assms] by metis
  have wf: "wf_scopes root S" by (rule entries_wf[OF p(1,2,4,5,6)])
  then have S: "bm_ok S" by (simp add: wf_scopes_def)
  have T: "bm_ok T" "\<forall>t e. bm_get T t = Some e \<longrightarrow> te_scope e \<in> set (bm_keys S)"
    using declare_tasks_Ok[OF p(7)] by simp_all
  have E: "bs_ok E" "\<forall>p d. (p, d) \<in> set E \<longrightarrow> (\<exists>pe de. bm_get T p = Some pe \<and> bm_get T d = Some de
      \<and> is_self_or_ancestor S (te_scope de) (te_scope pe))"
    using declare_dependencies_Ok[OF p(8)] by simp_all
  have acyc: "acyclic (set E)"
    using p(9) validate_acyclic_correct[OF T(1) E(1) deps_ends[OF p(8) T(1)]] by (simp split: if_splits)
  have J: "\<forall>t w. bm_get J t = Some w \<longrightarrow> parent_in S t = Some w"
    using declare_joins_Ok[OF p(10)] by simp
  have "bm_get J t = Some w \<longleftrightarrow> parent_in S t = Some w" for t w
  proof
    assume w: "parent_in S t = Some w"
    then obtain e where "bm_get S t = Some e" "se_parent e = Some w" by (auto simp: parent_in_def bind_eq_Some_conv)
    from all_joined_get[OF p(11) this] obtain w' where "bm_get J t = Some w'" by blast
    then show "bm_get J t = Some w" using J w by auto
  qed (use J in blast)
  then show ?thesis using wf T E acyc scope_children_iff[OF S] by (simp add: wf_model_def m)
qed

text \<open>
  C22: whatever specification \<open>ScopedTaskModel::try_new\<close> accepts, the model it returns is well
  formed: one root, every other scope one level below its declared parent, every task in a known
  scope, every dependency from the same scope or an ancestor, no dependency cycle, the child index
  exact, and every non-root scope joined once, by its parent.
\<close>
theorem try_new_certifies:
  assumes "try_new sha256 ss ts es js = Ok m"
  shows "wf_model m"
  by (rule try_new_wf[OF assms])

text \<open>
  \<open>ScopedTaskModel::try_new\<close> never panics: none of its \<open>expect\<close>s, map indexings and
  counter decrements can fail, whatever the specification.
\<close>
theorem try_new_never_panics: "try_new sha256 ss ts es js \<noteq> Panic"
  unfolding try_new_def Let_def
proof (intro guard_not_Panic bind_not_Panic, goal_cases)
  case (3 u P)
  show ?case by (induction P ss rule: check_parents.induct) (auto split: option.split)
next
  case (4 u P u')
  then show ?case using parents_closed[of ss P] canonical_depths_not_Panic by auto
next
  case (5 u P u' D)
  then show ?case using canonical_depths_Ok[of P D] by (intro scope_entries_not_Panic) blast
next
  case (6 u P u' D S)
  then have "count_roots ss = 1" by simp
  then obtain s :: scope_spec where "find_root ss = Some (ss_id s)" by (rule find_root_Some) blast
  then show ?case by (simp add: res_iff)
next
  case (9 u P u' D S root T E)
  then have T: "bm_ok T" using declare_tasks_Ok[of S ts bm_empty T] by simp
  then show ?case using validate_acyclic_correct[OF T _ deps_ends] 9 declare_dependencies_Ok[of S T es "[]" E] by simp
next
  case (10 u P u' D S root T E)
  then have n: "count_roots ss = 1" and r: "find_root ss = Some root" by (simp_all add: res_iff)
  have "wf_scopes root S" by (rule entries_wf[OF 10(6) n _ _ r]) (fact 10)+
  then show ?case by (rule declare_joins_not_Panic)
qed (simp_all add: work_units_def declare_scopes_not_Panic declare_tasks_not_Panic declare_dependencies_not_Panic)

end
