(* ===== verification/ScopedTaskInv.thy ===== *)
theory ScopedTaskInv
  imports ScopedMoves ScopedModel
begin

text \<open>
  The invariant of a scoped-task run (\<open>src/scoped_tasks.rs\<close>), first half: the frame (the model, its
  task table and dependency index) and the tasks (who runs, what each task still waits for, and that
  no task ran before its prerequisites completed).
\<close>

section \<open>Definitions\<close>

definition run_edges :: "st_run \<Rightarrow> (decl_id \<times> decl_id) set" where
  "run_edges r = set (sm_dependencies (rn_model r))"

definition waiting :: "st_run \<Rightarrow> decl_id \<Rightarrow> decl_id set" where
  "waiting r t = {p. (p, t) \<in> run_edges r \<and> task_phase r p \<noteq> Some Ts_Completed}"

definition frame_inv :: "st_run \<Rightarrow> bool" where
  "frame_inv r \<longleftrightarrow> wf_model (rn_model r) \<and> rn_fingerprint r = sm_fingerprint (rn_model r)
     \<and> rn_dependents r = dependents_of (sm_dependencies (rn_model r)) \<and> bm_ok (rn_states r)
     \<and> (\<forall>t. task_phase r t = None \<longleftrightarrow> bm_get (sm_tasks (rn_model r)) t = None)"

text \<open>A task that was started, whatever became of it.\<close>

definition has_run :: "st_run \<Rightarrow> decl_id \<Rightarrow> bool" where
  "has_run r t \<longleftrightarrow> task_phase r t \<in> {Some Ts_Started, Some Ts_Completed, Some Ts_Failed}"

definition task_inv :: "st_run \<Rightarrow> bool" where
  "task_inv r \<longleftrightarrow>
     (\<forall>t. rn_running r = Some t \<longleftrightarrow> task_phase r t = Some Ts_Started)
     \<and> (\<forall>t. task_phase r t \<noteq> None \<longrightarrow> bm_get (rn_pending r) t = Some (card (waiting r t)))
     \<and> (\<forall>p t. (p, t) \<in> run_edges r \<longrightarrow> has_run r t \<longrightarrow> task_phase r p = Some Ts_Completed)"

lemma running_iff: "task_inv r \<Longrightarrow> rn_running r = Some t \<longleftrightarrow> task_phase r t = Some Ts_Started"
  unfolding task_inv_def by blast

lemma pending_count: "task_inv r \<Longrightarrow> task_phase r t \<noteq> None \<Longrightarrow> bm_get (rn_pending r) t = Some (card (waiting r t))"
  unfolding task_inv_def by blast

lemma prerequisites_done:
  "task_inv r \<Longrightarrow> (p, t) \<in> run_edges r \<Longrightarrow> has_run r t \<Longrightarrow> task_phase r p = Some Ts_Completed"
  unfolding task_inv_def by blast

lemma known_task:
  assumes "frame_inv r" "task_phase r t = Some x"
  obtains e where "bm_get (sm_tasks (rn_model r)) t = Some e"
proof -
  have "task_phase r t = None \<longleftrightarrow> bm_get (sm_tasks (rn_model r)) t = None"
    using assms(1) unfolding frame_inv_def by blast
  then show thesis using assms(2) that by (cases "bm_get (sm_tasks (rn_model r)) t") simp_all
qed

section \<open>The dependency index\<close>

lemma run_deps_filter:
  assumes "frame_inv r"
  shows "run_deps r t = map snd (filter (\<lambda>(p, d). p = t) (sm_dependencies (rn_model r)))"
  using assms dependents_of_get[of "sm_dependencies (rn_model r)" t]
    get_fold_dependents[of "sm_dependencies (rn_model r)" bm_empty t]
  by (simp add: run_deps_def frame_inv_def wf_model_def)

lemma set_run_deps: "frame_inv r \<Longrightarrow> set (run_deps r t) = {d. (t, d) \<in> run_edges r}"
  by (force simp: run_deps_filter run_edges_def)

lemma distinct_run_deps:
  assumes "frame_inv r"
  shows "distinct (run_deps r t)"
proof -
  have "sorted_wrt (<) (sm_dependencies (rn_model r))"
    using assms by (simp add: frame_inv_def wf_model_def bs_ok_def)
  then have "distinct (filter (\<lambda>(p, d). p = t) (sm_dependencies (rn_model r)))"
    by (simp add: strict_sorted_iff)
  moreover have "inj_on snd (set (filter (\<lambda>(p, d). p = t) (sm_dependencies (rn_model r))))"
    by (auto simp: inj_on_def)
  ultimately show ?thesis using run_deps_filter[OF assms] by (simp only: distinct_map)
qed

lemma finite_waiting [simp]: "finite (waiting r t)"
  by (rule finite_subset[of _ "fst ` run_edges r"]) (force simp: waiting_def run_edges_def)+

lemma edge_tasks:
  assumes "frame_inv r" "(p, d) \<in> run_edges r"
  shows "task_phase r p \<noteq> None" "task_phase r d \<noteq> None"
proof -
  have "\<exists>pe de. bm_get (sm_tasks (rn_model r)) p = Some pe \<and> bm_get (sm_tasks (rn_model r)) d = Some de"
    using assms unfolding frame_inv_def wf_model_def run_edges_def by blast
  then show "task_phase r p \<noteq> None" "task_phase r d \<noteq> None" using assms(1) by (auto simp: frame_inv_def)
qed

lemma no_self_edge:
  assumes "frame_inv r"
  shows "(t, t) \<notin> run_edges r"
proof
  assume "(t, t) \<in> run_edges r"
  moreover have "acyclic (run_edges r)" using assms by (simp add: frame_inv_def wf_model_def run_edges_def)
  ultimately show False by (auto simp: acyclic_def)
qed

section \<open>Settling\<close>

lemma settle_get:
  "settle_completion_edges ds w = Some w' \<Longrightarrow> distinct ds \<Longrightarrow>
     bm_get w' t = (if t \<in> set ds then map_option (\<lambda>n. n - 1) (bm_get w t) else bm_get w t)"
proof (induction ds w rule: settle_completion_edges.induct)
  case (2 d ds w)
  show ?case
  proof (cases "bm_get w d")
    case None
    then show ?thesis using 2 by auto
  next
    case (Some n)
    then obtain k where k: "n = Suc k" using "2.prems" by (cases n) auto
    then show ?thesis using "2.IH"(2)[OF Some k] "2.prems" Some by auto
  qed
qed simp

lemma settle_Some:
  "distinct ds \<Longrightarrow> (\<forall>d \<in> set ds. bm_get w d \<noteq> Some 0) \<Longrightarrow> settle_completion_edges ds w \<noteq> None"
proof (induction ds w rule: settle_completion_edges.induct)
  case (2 d ds w)
  show ?case
  proof (cases "bm_get w d")
    case None
    then show ?thesis using 2 by auto
  next
    case (Some n)
    then obtain k where k: "n = Suc k" using "2.prems" by (cases n) auto
    have "\<forall>x \<in> set ds. bm_get (bm_modify d (\<lambda>n. n - 1) w) x \<noteq> Some 0" using "2.prems" by auto
    then show ?thesis using "2.IH"(2)[OF Some k] "2.prems" Some k by simp
  qed
qed simp

lemma waiting_complete:
  assumes "frame_inv r" "task_phase r t \<noteq> None" "\<And>u. task_phase r' u = (if u = t then Some Ts_Completed else task_phase r u)"
    "rn_model r' = rn_model r"
  shows "waiting r' d = waiting r d - {t}"
  using assms(3,4) by (auto simp: waiting_def run_edges_def)

section \<open>Moves keep the frame\<close>

lemma bm_ok_modify [simp]: "bm_ok (bm_modify k f m) = bm_ok m"
  by (simp add: bm_modify_def)

lemma states_ok [simp]:
  "bm_ok (rn_states (set_state t s r)) = bm_ok (rn_states r)"
  "bm_ok (rn_states (retire t r)) = bm_ok (rn_states r)"
  by (simp_all add: set_state_def retire_def)

lemma move_model: "st_move r ev r1 \<Longrightarrow> rn_model r1 = rn_model r"
  by (induction rule: st_move.induct) (simp_all add: run_simps)

lemma move_frame_parts:
  "st_move r ev r1 \<Longrightarrow> rn_fingerprint r1 = rn_fingerprint r \<and> rn_dependents r1 = rn_dependents r
     \<and> bm_ok (rn_states r1) = bm_ok (rn_states r) \<and> (\<forall>t. task_phase r1 t = None \<longleftrightarrow> task_phase r t = None)"
  by (induction rule: st_move.induct) (simp_all add: run_simps phase_set_state)

lemma move_frame: "st_move r ev r1 \<Longrightarrow> frame_inv r \<Longrightarrow> frame_inv r1"
  using move_frame_parts[of r ev r1] move_model[of r ev r1] by (simp add: frame_inv_def)

section \<open>Moves keep the task invariant\<close>

text \<open>Moves that change no phase, and moves that give up a task that waits.\<close>

lemma task_inv_same:
  assumes "task_inv r" "task_phase r' = task_phase r" "rn_model r' = rn_model r"
    "rn_running r' = rn_running r" "rn_pending r' = rn_pending r"
  shows "task_inv r'"
  using assms by (simp add: task_inv_def waiting_def run_edges_def has_run_def)

lemma task_inv_cancel:
  assumes "task_inv r" "task_phase r t = Some Ts_Pending"
  shows "task_inv (set_state t Ts_Cancelled r)"
proof -
  have "waiting (set_state t Ts_Cancelled r) = waiting r"
    using assms(2) by (auto simp: fun_eq_iff waiting_def run_edges_def run_simps phase_set_state)
  then show ?thesis using assms
    by (auto simp: task_inv_def run_edges_def has_run_def run_simps phase_set_state)
qed

lemma task_inv_start:
  assumes fr: "frame_inv r" and inv: "task_inv r" and t: "task_phase r t = Some Ts_Pending" "is_ready r t"
    and idle: "rn_running r = None"
  shows "task_inv ((set_state t Ts_Started r)\<lparr>rn_running := Some t\<rparr>)"
proof -
  let ?r = "(set_state t Ts_Started r)\<lparr>rn_running := Some t\<rparr>"
  have ph: "task_phase ?r u = (if u = t then Some Ts_Started else task_phase r u)" for u
    using t by (simp add: run_simps phase_set_state)
  have w: "waiting ?r = waiting r" using ph t by (auto simp: fun_eq_iff waiting_def run_edges_def run_simps)
  have "card (waiting r t) = 0" using inv t by (auto simp: task_inv_def is_ready_def)
  then have none: "waiting r t = {}" by simp
  have ready: "task_phase r p = Some Ts_Completed" if "(p, t) \<in> run_edges r" for p
    using none that by (auto simp: waiting_def)
  have nostart: "task_phase r u \<noteq> Some Ts_Started" for u using inv idle by (auto simp: task_inv_def)
  show ?thesis unfolding task_inv_def
  proof (intro conjI allI impI)
    fix p u
    assume e: "(p, u) \<in> run_edges ?r" and h: "has_run ?r u"
    then have e': "(p, u) \<in> run_edges r" by (simp add: run_edges_def run_simps)
    have c: "task_phase r p = Some Ts_Completed"
      using ready e' inv h ph by (cases "u = t") (auto simp: task_inv_def has_run_def)
    then show "task_phase ?r p = Some Ts_Completed" using ph t by auto
  next
    fix u
    assume "task_phase ?r u \<noteq> None"
    then have "task_phase r u \<noteq> None" using ph t by (auto split: if_splits)
    then show "bm_get (rn_pending ?r) u = Some (card (waiting ?r u))"
      using pending_count[OF inv] w by (simp add: run_simps)
  qed (use ph t nostart in \<open>auto simp: run_simps\<close>)
qed

lemma task_inv_finish:
  assumes fr: "frame_inv r" and inv: "task_inv r" and t: "rn_running r = Some t"
    and ph: "\<And>u. task_phase r' u = (if u = t then Some s else task_phase r u)"
    and m: "rn_model r' = rn_model r" "rn_running r' = None"
    and s: "s = Ts_Completed \<or> s = Ts_Failed"
    and w: "\<And>u. task_phase r u \<noteq> None \<Longrightarrow> bm_get (rn_pending r') u = Some (card (waiting r' u))"
  shows "task_inv r'"
proof -
  have st: "task_phase r t = Some Ts_Started" using running_iff[OF inv, of t] t by simp
  have one: "task_phase r u \<noteq> Some Ts_Started" if "u \<noteq> t" for u using inv t that by (auto simp: task_inv_def)
  have edges: "run_edges r' = run_edges r" by (simp add: run_edges_def m)
  show ?thesis unfolding task_inv_def
  proof (intro conjI allI impI)
    fix p u
    assume e: "(p, u) \<in> run_edges r'" and h: "has_run r' u"
    have "has_run r u" using h ph st by (auto simp: has_run_def split: if_splits)
    then have "task_phase r p = Some Ts_Completed" using inv e edges by (auto simp: task_inv_def)
    then show "task_phase r' p = Some Ts_Completed" using ph st by auto
  next
    fix u
    assume "task_phase r' u \<noteq> None"
    then have "task_phase r u \<noteq> None" using ph st by (auto split: if_splits)
    then show "bm_get (rn_pending r') u = Some (card (waiting r' u))" by (rule w)
  qed (use m ph one s in auto)
qed

lemma task_inv_completed:
  assumes fr: "frame_inv r" and inv: "task_inv r" and t: "rn_running r = Some t"
    and settle: "settle_completion_edges (run_deps r t) (rn_pending r) = Some waits"
  shows "task_inv ((set_state t Ts_Completed (retire t r))\<lparr>rn_pending := waits\<rparr>)" (is "task_inv ?r")
proof (rule task_inv_finish[OF fr inv t])
  have st: "task_phase r t = Some Ts_Started" using running_iff[OF inv, of t] t by simp
  show ph: "task_phase ?r u = (if u = t then Some Ts_Completed else task_phase r u)" for u
    using st by (simp add: run_simps phase_set_state)
  have m: "rn_model ?r = rn_model r" by (simp add: run_simps)
  fix u
  assume u: "task_phase r u \<noteq> None"
  have wait: "waiting ?r u = waiting r u - {t}" by (rule waiting_complete[OF fr _ ph m]) (simp add: st)
  have old: "bm_get (rn_pending r) u = Some (card (waiting r u))" using inv u by (simp add: task_inv_def)
  have new: "bm_get waits u = (if u \<in> set (run_deps r t) then map_option (\<lambda>n. n - 1) (bm_get (rn_pending r) u)
      else bm_get (rn_pending r) u)"
    by (rule settle_get[OF settle distinct_run_deps[OF fr]])
  have "t \<in> waiting r u \<longleftrightarrow> u \<in> set (run_deps r t)" using set_run_deps[OF fr] st by (auto simp: waiting_def)
  then show "bm_get (rn_pending ?r) u = Some (card (waiting ?r u))"
    using new old wait by (simp add: card_Diff_singleton_if)
qed (simp_all add: run_simps)

lemma task_inv_failed:
  assumes fr: "frame_inv r" and inv: "task_inv r" and t: "rn_running r = Some t"
  shows "task_inv (record_failure t sc f (set_state t Ts_Failed (retire t r)))" (is "task_inv ?r")
proof (rule task_inv_finish[OF fr inv t])
  have st: "task_phase r t = Some Ts_Started" using running_iff[OF inv, of t] t by simp
  show ph: "task_phase ?r u = (if u = t then Some Ts_Failed else task_phase r u)" for u
    using st by (simp add: run_simps phase_set_state)
  fix u
  assume u: "task_phase r u \<noteq> None"
  have "waiting ?r u = waiting r u"
    using ph st by (auto simp: waiting_def run_edges_def run_simps)
  then show "bm_get (rn_pending ?r) u = Some (card (waiting ?r u))"
    using inv u by (simp add: task_inv_def run_simps)
qed (simp_all add: run_simps)

lemma move_task_inv: "st_move r ev r1 \<Longrightarrow> frame_inv r \<Longrightarrow> task_inv r \<Longrightarrow> task_inv r1"
proof (induction rule: st_move.induct)
  case (mv_complete r t e waits)
  then show ?case by (intro task_inv_completed)
next
  case (mv_fail r t e failure)
  then show ?case by (intro task_inv_failed)
next
  case (mv_start r t)
  then show ?case by (intro task_inv_start)
qed (auto intro: task_inv_cancel task_inv_same simp: run_simps)

text \<open>Retiring the running task cannot underflow a count: its dependents still wait for it.\<close>

lemma settle_total:
  assumes fr: "frame_inv r" and inv: "task_inv r" and t: "rn_running r = Some t"
  shows "settle_completion_edges (run_deps r t) (rn_pending r) \<noteq> None"
proof (rule settle_Some[OF distinct_run_deps[OF fr]], intro ballI)
  fix d
  assume "d \<in> set (run_deps r t)"
  then have e: "(t, d) \<in> run_edges r" using set_run_deps[OF fr] by blast
  have st: "task_phase r t = Some Ts_Started" using running_iff[OF inv, of t] t by simp
  then have "t \<in> waiting r d" using e by (simp add: waiting_def)
  then have "card (waiting r d) \<noteq> 0" by auto
  moreover have "bm_get (rn_pending r) d = Some (card (waiting r d))"
    using inv edge_tasks(2)[OF fr e] by (simp add: task_inv_def)
  ultimately show "bm_get (rn_pending r) d \<noteq> Some 0" by simp
qed

lemma apply_running_total:
  assumes fr: "frame_inv r" and inv: "task_inv r"
  shows "apply_running_outcome r \<noteq> Panic"
proof (cases "rn_running r")
  case (Some t)
  have ph: "task_phase r t = Some Ts_Started" using running_iff[OF inv, of t] Some by simp
  obtain x where x: "bm_get (rn_states r) t = Some x" using ph by (auto simp: task_phase_def)
  obtain e where e: "bm_get (sm_tasks (rn_model r)) t = Some e" by (rule known_task[OF fr ph])
  obtain waits where "settle_completion_edges (run_deps r t) (rn_pending r) = Some waits"
    using settle_total[OF fr inv Some] by blast
  then show ?thesis using Some e x
    by (simp add: apply_running_outcome_def Let_def run_simps run_deps_def set_state_def split: task_outcome.split)
qed (simp add: apply_running_outcome_def)

end
