(* ===== verification/ScopedScopeInv.thy ===== *)
theory ScopedScopeInv
  imports ScopedTaskInv
begin

text \<open>
  The invariant of a scoped-task run (\<open>src/scoped_tasks.rs\<close>), second half: an exited scope has left
  nothing behind, failures are recorded exactly on the scopes above a failed task, and cancellation
  covers whole subtrees.
\<close>

section \<open>Definitions\<close>

abbreviation run_scopes :: "st_run \<Rightarrow> scope_map" where
  "run_scopes r \<equiv> sm_scopes (rn_model r)"

text \<open>\<open>above r s c\<close>: \<open>s\<close> is \<open>c\<close> or an ancestor of it.\<close>

definition above :: "st_run \<Rightarrow> decl_id \<Rightarrow> decl_id \<Rightarrow> bool" where
  "above r s c \<longleftrightarrow> s \<in> set (scope_lineage (run_scopes r) c)"

definition settled_task :: "st_run \<Rightarrow> decl_id \<Rightarrow> bool" where
  "settled_task r t \<longleftrightarrow> task_phase r t = Some Ts_Cancelled
     \<or> (task_phase r t \<in> {Some Ts_Completed, Some Ts_Failed} \<and> t \<in> set (rn_finalized r))"

definition scope_inv :: "st_run \<Rightarrow> bool" where
  "scope_inv r \<longleftrightarrow>
     (\<forall>t \<in> set (rn_finalized r). task_phase r t \<in> {Some Ts_Completed, Some Ts_Failed})
     \<and> (\<forall>s \<in> set (rn_exited r). bm_get (run_scopes r) s \<noteq> None)
     \<and> (\<forall>s \<in> set (rn_exited r). \<forall>t. task_scope r t = Some s \<longrightarrow> settled_task r t)
     \<and> (\<forall>s \<in> set (rn_exited r). \<forall>c. parent_in (run_scopes r) c = Some s \<longrightarrow> c \<in> set (rn_exited r))
     \<and> (\<forall>s. bm_get (rn_outcomes r) s \<noteq> None \<longleftrightarrow> s \<in> set (rn_exited r))"

definition complete_inv :: "st_run \<Rightarrow> bool" where
  "complete_inv r \<longleftrightarrow> (rn_complete r \<longleftrightarrow> sm_root (rn_model r) \<in> set (rn_exited r))"

definition failed_under :: "st_run \<Rightarrow> decl_id \<Rightarrow> decl_id \<Rightarrow> bool" where
  "failed_under r s t \<longleftrightarrow> task_phase r t = Some Ts_Failed \<and> (\<exists>c. task_scope r t = Some c \<and> above r s c)"

definition declared_failure :: "st_run \<Rightarrow> decl_id \<Rightarrow> failure_kind option" where
  "declared_failure r t =
     (case bm_get (sm_tasks (rn_model r)) t of
        None \<Rightarrow> None
      | Some e \<Rightarrow> (case te_outcome e of Succeed \<Rightarrow> None | Fail f \<Rightarrow> Some f))"

definition failure_inv :: "st_run \<Rightarrow> bool" where
  "failure_inv r \<longleftrightarrow>
     (\<forall>s. case first_failure r s of
        None \<Rightarrow> \<forall>t. \<not> failed_under r s t
      | Some (t, f) \<Rightarrow> failed_under r s t \<and> declared_failure r t = Some f)"

text \<open>A recorded exit outcome still says what happened in the subtree.\<close>

definition outcome_inv :: "st_run \<Rightarrow> bool" where
  "outcome_inv r \<longleftrightarrow>
     (\<forall>s x. bm_get (rn_outcomes r) s = Some x \<longrightarrow>
        (case x of
           Ex_Failed t f \<Rightarrow> first_failure r s = Some (t, f)
         | Ex_Cancelled \<Rightarrow> first_failure r s = None \<and> bs_contains (rn_cancelled r) s
         | Ex_Success \<Rightarrow> first_failure r s = None))"

definition cancel_inv :: "st_run \<Rightarrow> bool" where
  "cancel_inv r \<longleftrightarrow> set (rn_announced r) \<subseteq> set (rn_cancelled r)
     \<and> (\<forall>s \<in> set (rn_cancelled r). bm_get (run_scopes r) s \<noteq> None)
     \<and> (\<forall>s \<in> set (rn_cancelled r). \<forall>c. parent_in (run_scopes r) c = Some s \<longrightarrow> c \<in> set (rn_cancelled r))"

section \<open>Reading the invariant\<close>

lemma exited_settled:
  "scope_inv r \<Longrightarrow> s \<in> set (rn_exited r) \<Longrightarrow> task_scope r t = Some s \<Longrightarrow> settled_task r t"
  unfolding scope_inv_def by blast

lemma exited_children:
  "scope_inv r \<Longrightarrow> s \<in> set (rn_exited r) \<Longrightarrow> parent_in (run_scopes r) c = Some s \<Longrightarrow> c \<in> set (rn_exited r)"
  unfolding scope_inv_def by blast

lemma cancelled_children:
  "cancel_inv r \<Longrightarrow> s \<in> set (rn_cancelled r) \<Longrightarrow> parent_in (run_scopes r) c = Some s \<Longrightarrow> c \<in> set (rn_cancelled r)"
  unfolding cancel_inv_def by blast

lemma finalized_ran:
  "scope_inv r \<Longrightarrow> t \<in> set (rn_finalized r) \<Longrightarrow> task_phase r t \<in> {Some Ts_Completed, Some Ts_Failed}"
  unfolding scope_inv_def by blast

lemma settled_not_waiting:
  "settled_task r t \<Longrightarrow> task_phase r t \<noteq> Some Ts_Pending \<and> task_phase r t \<noteq> Some Ts_Started"
  by (auto simp: settled_task_def)

lemma wf_run_scopes: "frame_inv r \<Longrightarrow> wf_scopes (sm_root (rn_model r)) (run_scopes r)"
  by (simp add: frame_inv_def wf_model_def)

lemma parent_in_Some: "bm_get scopes c = Some e \<Longrightarrow> parent_in scopes c = se_parent e"
  by (simp add: parent_in_def)

text \<open>A property that children inherit holds in the whole subtree.\<close>

lemma subtree_closed:
  assumes wf: "wf_scopes root scopes" and closed: "\<And>p x. p \<in> A \<Longrightarrow> parent_in scopes x = Some p \<Longrightarrow> x \<in> A"
  shows "bm_get scopes c = Some e \<Longrightarrow> s \<in> set (scope_lineage scopes c) \<Longrightarrow> s \<in> A \<Longrightarrow> c \<in> A"
proof (induction "unat (se_depth e)" arbitrary: c e)
  case 0
  have "se_parent e = None"
  proof (rule ccontr)
    assume "se_parent e \<noteq> None"
    then obtain p where "se_parent e = Some p" by blast
    from wf_scopes_parent[OF wf 0(2) this] 0(1) show False by auto
  qed
  then show ?case using scope_lineage_step[OF wf 0(2)] 0(3,4) by simp
next
  case (Suc k)
  show ?case
  proof (cases "se_parent e")
    case None
    then show ?thesis using scope_lineage_step[OF wf Suc(3)] Suc(4,5) by simp
  next
    case (Some p)
    obtain pe where pe: "bm_get scopes p = Some pe" "unat (se_depth e) = Suc (unat (se_depth pe))"
      by (rule wf_scopes_parent[OF wf Suc(3) Some])
    have "p \<in> A" if "s \<noteq> c"
      using Suc(1)[OF _ pe(1)] pe(2) Suc(2,4,5) scope_lineage_step[OF wf Suc(3)] Some that by simp
    then show ?thesis using closed parent_in_Some[OF Suc(3)] Some Suc(5) by metis
  qed
qed

lemma task_scope_known:
  assumes "frame_inv r" "task_scope r t = Some c"
  shows "bm_get (run_scopes r) c \<noteq> None" "task_phase r t \<noteq> None"
proof -
  obtain e where e: "bm_get (sm_tasks (rn_model r)) t = Some e" "te_scope e = c"
    using assms(2) by (auto simp: task_scope_def)
  have "te_scope e \<in> set (bm_keys (run_scopes r))"
    using assms(1) e(1) unfolding frame_inv_def wf_model_def by blast
  then show "bm_get (run_scopes r) c \<noteq> None" using e(2) bm_get_None_iff[of "run_scopes r" c] by simp
  have "task_phase r t = None \<longleftrightarrow> bm_get (sm_tasks (rn_model r)) t = None"
    using assms(1) unfolding frame_inv_def by blast
  then show "task_phase r t \<noteq> None" using e(1) by simp
qed

lemma exited_subtree:
  assumes "frame_inv r" "scope_inv r" "s \<in> set (rn_exited r)" "task_scope r t = Some c" "above r s c"
  shows "c \<in> set (rn_exited r)"
proof -
  obtain e where "bm_get (run_scopes r) c = Some e" using task_scope_known(1)[OF assms(1,4)] by blast
  then show ?thesis
    using subtree_closed[OF wf_run_scopes[OF assms(1)], of "set (rn_exited r)" c e s]
      exited_children[OF assms(2)] assms(3,5) by (simp add: above_def)
qed

lemma cancelled_subtree:
  assumes "frame_inv r" "cancel_inv r" "s \<in> set (rn_cancelled r)" "task_scope r t = Some c" "above r s c"
  shows "c \<in> set (rn_cancelled r)"
proof -
  obtain e where "bm_get (run_scopes r) c = Some e" using task_scope_known(1)[OF assms(1,4)] by blast
  then show ?thesis
    using subtree_closed[OF wf_run_scopes[OF assms(1)], of "set (rn_cancelled r)" c e s]
      cancelled_children[OF assms(2)] assms(3,5) by (simp add: above_def)
qed

section \<open>The exit candidate\<close>

abbreviation keep_max :: "('a \<Rightarrow> 'a \<Rightarrow> bool) \<Rightarrow> 'a \<Rightarrow> 'a option \<Rightarrow> 'a option" where
  "keep_max le x m \<equiv> (case m of None \<Rightarrow> Some x | Some y \<Rightarrow> if le y x then Some x else Some y)"

lemma keep_max_in: "fold (keep_max le) xs m = Some z \<Longrightarrow> m = Some z \<or> z \<in> set xs"
proof (induction xs arbitrary: m)
  case (Cons x xs)
  have "keep_max le x m = Some z \<or> z \<in> set xs" using Cons.IH[of "keep_max le x m"] Cons.prems by simp
  then show ?case by (cases m) (auto split: if_splits)
qed simp

lemma keep_max_Some: "\<exists>z. fold (keep_max le) xs (Some y) = Some z"
proof (induction xs arbitrary: y)
  case (Cons x xs)
  then show ?case by (cases "le y x") simp_all
qed simp

lemma max_by_in: "max_by le xs = Some x \<Longrightarrow> x \<in> set xs"
  using keep_max_in[of le xs None x] by (simp add: max_by_def)

lemma max_by_None: "max_by le xs = None \<longleftrightarrow> xs = []"
  using keep_max_Some[of le "tl xs" "hd xs"] by (cases xs) (auto simp: max_by_def)

lemma exit_candidate_Some:
  assumes "exit_candidate r = Some s"
  shows "bm_get (run_scopes r) s \<noteq> None" "exit_ready r s"
proof -
  obtain e where "max_by scope_cmp_le (filter (\<lambda>(s, e). exit_ready r s) (run_scopes r)) = Some (s, e)"
    using assms by (auto simp: exit_candidate_def)
  from max_by_in[OF this] have "(s, e) \<in> set (run_scopes r)" and "exit_ready r s" by auto
  then show "bm_get (run_scopes r) s \<noteq> None" "exit_ready r s"
    using bm_get_None_iff[of "run_scopes r" s] by (force simp: bm_keys_def)+
qed

lemma exit_candidate_exists:
  assumes "bm_get (run_scopes r) s = Some e" "exit_ready r s"
  shows "exit_candidate r \<noteq> None"
proof -
  have "(s, e) \<in> set (filter (\<lambda>(s, e). exit_ready r s) (run_scopes r))"
    using bm_get_in_set[OF assms(1)] assms(2) by simp
  then have "filter (\<lambda>(s, e). exit_ready r s) (run_scopes r) \<noteq> []" by (metis empty_iff empty_set)
  then have "max_by scope_cmp_le (filter (\<lambda>(s, e). exit_ready r s) (run_scopes r)) \<noteq> None"
    by (simp only: max_by_None not_False_eq_True)
  then show ?thesis by (simp add: exit_candidate_def)
qed

lemma states_phase:
  assumes "frame_inv r"
  shows "(t, x) \<in> set (rn_states r) \<Longrightarrow> task_phase r t = Some (tr_state x)"
    and "task_phase r t = Some y \<Longrightarrow> \<exists>x. (t, x) \<in> set (rn_states r) \<and> tr_state x = y"
proof -
  have ok: "bm_ok (rn_states r)" using assms by (simp add: frame_inv_def)
  show "(t, x) \<in> set (rn_states r) \<Longrightarrow> task_phase r t = Some (tr_state x)"
    using in_set_bm_get[OF ok] by (simp add: task_phase_def)
  show "task_phase r t = Some y \<Longrightarrow> \<exists>x. (t, x) \<in> set (rn_states r) \<and> tr_state x = y"
    using bm_get_in_set[of "rn_states r" t] by (auto simp: task_phase_def)
qed

lemma scope_settled_iff:
  assumes "frame_inv r"
  shows "scope_settled r s \<longleftrightarrow> (\<forall>t. task_scope r t = Some s \<longrightarrow> (\<exists>x. task_phase r t = Some x \<and> state_terminal x))"
proof
  assume h: "scope_settled r s"
  show "\<forall>t. task_scope r t = Some s \<longrightarrow> (\<exists>x. task_phase r t = Some x \<and> state_terminal x)"
  proof (intro allI impI)
    fix t
    assume sc: "task_scope r t = Some s"
    then obtain y where y: "task_phase r t = Some y" using task_scope_known(2)[OF assms] by blast
    then obtain x where "(t, x) \<in> set (rn_states r)" "tr_state x = y" using states_phase(2)[OF assms] by blast
    then show "\<exists>x. task_phase r t = Some x \<and> state_terminal x"
      using h sc y by (auto simp: scope_settled_def list_all_iff)
  qed
next
  assume "\<forall>t. task_scope r t = Some s \<longrightarrow> (\<exists>x. task_phase r t = Some x \<and> state_terminal x)"
  then show "scope_settled r s"
    using states_phase(1)[OF assms] by (fastforce simp: scope_settled_def list_all_iff)
qed

lemma children_exited_iff:
  assumes "frame_inv r"
  shows "children_exited r s \<longleftrightarrow> (\<forall>c. parent_in (run_scopes r) c = Some s \<longrightarrow> c \<in> set (rn_exited r))"
proof -
  have "(case bm_get (sm_children (rn_model r)) s of None \<Rightarrow> False | Some cs \<Rightarrow> c \<in> set cs)
      \<longleftrightarrow> parent_in (run_scopes r) c = Some s" for c
    using assms unfolding frame_inv_def wf_model_def by blast
  then show ?thesis
    by (cases "bm_get (sm_children (rn_model r)) s") (auto simp: children_exited_def list_all_iff bs_contains_def)
qed

lemma unfinalized_member:
  assumes "frame_inv r" "(t, q) \<in> set (unfinalized_ran_tasks r s)"
  shows "task_phase r t \<in> {Some Ts_Completed, Some Ts_Failed}" "t \<notin> set (rn_finalized r)" "task_scope r t = Some s"
  using assms states_phase(1)[OF assms(1)] by (auto simp: unfinalized_ran_tasks_def bs_contains_def)

lemma unfinalized_Nil:
  assumes "frame_inv r" "unfinalized_ran_tasks r s = []" "task_scope r t = Some s"
    "task_phase r t \<in> {Some Ts_Completed, Some Ts_Failed}"
  shows "t \<in> set (rn_finalized r)"
proof -
  obtain x where x: "(t, x) \<in> set (rn_states r)" "tr_state x = Ts_Completed \<or> tr_state x = Ts_Failed"
    using assms(4) states_phase(2)[OF assms(1)] by auto
  then show ?thesis using assms(2,3)
    by (auto simp: unfinalized_ran_tasks_def filter_empty_conv bs_contains_def)
qed

lemma ready_settled:
  assumes "frame_inv r" "exit_ready r s" "unfinalized_ran_tasks r s = []" "task_scope r t = Some s"
  shows "settled_task r t"
proof -
  obtain x where "task_phase r t = Some x" "state_terminal x"
    using assms scope_settled_iff[OF assms(1)] by (auto simp: exit_ready_def)
  then show ?thesis using unfinalized_Nil[OF assms(1,3,4)] by (auto simp: settled_task_def state_terminal_def)
qed

end
