(* ===== verification/ScopedRunInv.thy ===== *)
theory ScopedRunInv
  imports ScopedScopeInv
begin

text \<open>
  Every operation of a scoped-task run (\<open>src/scoped_tasks.rs\<close>) keeps the invariant: the moves of
  \<open>step\<close> one by one, then \<open>step\<close>, \<open>cancel_scope\<close> and \<open>prepare_run\<close>.
\<close>

section \<open>Scopes\<close>

lemma task_scope_same: "rn_model r' = rn_model r \<Longrightarrow> task_scope r' t = task_scope r t"
  by (simp add: task_scope_def)

lemma scope_inv_phases:
  assumes inv: "scope_inv r" and m: "rn_model r' = rn_model r" "rn_finalized r' = rn_finalized r"
      "rn_exited r' = rn_exited r" "rn_outcomes r' = rn_outcomes r"
    and ph: "\<And>u. task_phase r u \<noteq> Some Ts_Pending \<Longrightarrow> task_phase r u \<noteq> Some Ts_Started \<Longrightarrow>
      task_phase r' u = task_phase r u"
  shows "scope_inv r'"
proof -
  have sc: "task_scope r' = task_scope r" using m(1) by (simp add: fun_eq_iff task_scope_def)
  have fin: "\<forall>t \<in> set (rn_finalized r). task_phase r' t \<in> {Some Ts_Completed, Some Ts_Failed}"
    using finalized_ran[OF inv] ph by fastforce
  have "settled_task r' t" if "settled_task r t" for t
    using that ph[of t] settled_not_waiting[OF that] m(2) by (simp add: settled_task_def)
  then show ?thesis using inv m sc fin unfolding scope_inv_def by simp
qed

lemma scope_inv_finalize:
  assumes fr: "frame_inv r" and inv: "scope_inv r"
    and t: "max_by (\<lambda>a b. snd a \<le> snd b) (unfinalized_ran_tasks r s) = Some (t, q)"
  shows "scope_inv (r\<lparr>rn_finalized := bs_insert t (rn_finalized r)\<rparr>)" (is "scope_inv ?r")
proof -
  have t': "task_phase r t \<in> {Some Ts_Completed, Some Ts_Failed}"
    using unfinalized_member(1)[OF fr max_by_in[OF t]] .
  have sc: "task_scope ?r = task_scope r" by (simp add: fun_eq_iff task_scope_def)
  have ph: "task_phase ?r = task_phase r" by (simp add: run_simps)
  have "settled_task ?r u" if "settled_task r u" for u using that by (auto simp: settled_task_def ph)
  then show ?thesis using inv t' unfolding scope_inv_def by (simp add: sc ph)
qed

lemma scope_inv_exit:
  assumes fr: "frame_inv r" and inv: "scope_inv r" and c: "exit_candidate r = Some s"
    and n: "unfinalized_ran_tasks r s = []"
  shows "scope_inv (r\<lparr>rn_exited := bs_insert s (rn_exited r), rn_outcomes := bm_insert s x (rn_outcomes r)\<rparr>)"
    (is "scope_inv ?r")
proof -
  note s = exit_candidate_Some[OF c]
  have sc: "task_scope ?r = task_scope r" by (simp add: fun_eq_iff task_scope_def)
  have ph: "task_phase ?r = task_phase r" by (simp add: run_simps)
  have st: "settled_task ?r = settled_task r" by (simp add: fun_eq_iff settled_task_def ph)
  have set: "\<And>t. task_scope r t = Some s \<Longrightarrow> settled_task r t" by (rule ready_settled[OF fr s(2) n])
  have ch: "\<And>c. parent_in (run_scopes r) c = Some s \<Longrightarrow> c \<in> set (rn_exited r)"
    using s(2) children_exited_iff[OF fr] by (simp add: exit_ready_def)
  show ?thesis unfolding scope_inv_def
  proof (intro conjI ballI allI impI)
    fix a t
    assume "a \<in> set (rn_exited ?r)" "task_scope ?r t = Some a"
    then show "settled_task ?r t" using set exited_settled[OF inv] by (auto simp: st sc)
  next
    fix a b
    assume "a \<in> set (rn_exited ?r)" "parent_in (run_scopes ?r) b = Some a"
    then show "b \<in> set (rn_exited ?r)" using ch exited_children[OF inv] by auto
  qed (use inv s(1) in \<open>auto simp: scope_inv_def ph\<close>)
qed

lemma move_scope_inv: "st_move r ev r1 \<Longrightarrow> frame_inv r \<Longrightarrow> task_inv r \<Longrightarrow> scope_inv r \<Longrightarrow> scope_inv r1"
proof (induction rule: st_move.induct)
  case (mv_complete r t e waits)
  have t: "task_phase r t = Some Ts_Started" using running_iff[OF mv_complete(6)] mv_complete(1) by blast
  show ?case by (rule scope_inv_phases[OF mv_complete(7)]) (auto simp: run_simps phase_set_state t)
next
  case (mv_fail r t e failure)
  have t: "task_phase r t = Some Ts_Started" using running_iff[OF mv_fail(5)] mv_fail(1) by blast
  show ?case by (rule scope_inv_phases[OF mv_fail(6)]) (auto simp: run_simps phase_set_state t)
next
  case (mv_announce r s)
  show ?case by (rule scope_inv_phases[OF mv_announce(6)]) (simp_all add: run_simps)
next
  case (mv_cancel r t)
  show ?case by (rule scope_inv_phases[OF mv_cancel(6)]) (auto simp: run_simps phase_set_state mv_cancel(2))
next
  case (mv_start r t)
  show ?case by (rule scope_inv_phases[OF mv_start(8)]) (auto simp: run_simps phase_set_state mv_start(2))
next
  case (mv_abandon r t)
  show ?case by (rule scope_inv_phases[OF mv_abandon(7)]) (auto simp: run_simps phase_set_state mv_abandon(2))
next
  case (mv_finalize r s t q)
  show ?case by (rule scope_inv_finalize[OF mv_finalize(5,7,4)])
next
  case (mv_exit r s)
  show ?case by (rule scope_inv_exit[OF mv_exit(5,7,3,4)])
qed

section \<open>Failures and outcomes\<close>

lemma above_same: "rn_model r' = rn_model r \<Longrightarrow> above r' s c = above r s c"
  by (simp add: above_def)

lemma declared_same: "rn_model r' = rn_model r \<Longrightarrow> declared_failure r' t = declared_failure r t"
  by (simp add: declared_failure_def)

lemma failed_under_same:
  "rn_model r' = rn_model r \<Longrightarrow> (task_phase r' t = Some Ts_Failed) = (task_phase r t = Some Ts_Failed) \<Longrightarrow>
     failed_under r' s t = failed_under r s t"
  by (simp add: failed_under_def task_scope_def above_def)

lemma failure_inv_same:
  assumes "failure_inv r" "rn_model r' = rn_model r" "rn_failures r' = rn_failures r"
    "\<And>t. (task_phase r' t = Some Ts_Failed) = (task_phase r t = Some Ts_Failed)"
  shows "failure_inv r'"
proof -
  have eqs: "first_failure r' = first_failure r" "failed_under r' = failed_under r"
      "declared_failure r' = declared_failure r"
    using failed_under_same[OF assms(2,4)] declared_same[OF assms(2)]
    by (simp_all add: fun_eq_iff first_failure_def assms(3))
  show ?thesis using assms(1) unfolding failure_inv_def eqs .
qed

lemma get_insert_vacant:
  "bm_get (fold (\<lambda>s. insert_vacant s v) ss m) s = (case bm_get m s of
      None \<Rightarrow> if s \<in> set ss then Some v else None
    | Some w \<Rightarrow> Some w)"
  by (induction ss arbitrary: m) (auto simp: insert_vacant_def split: option.split)

lemma first_failure_record:
  "first_failure (record_failure t c f r) s = (case first_failure r s of
      None \<Rightarrow> if above r s c then Some (t, f) else None
    | Some w \<Rightarrow> Some w)"
  by (simp add: first_failure_def record_failure_def get_insert_vacant above_def split: option.split)

lemma failure_inv_fail:
  assumes fr: "frame_inv r" and inv: "failure_inv r" and t: "task_phase r t = Some Ts_Started"
    and e: "bm_get (sm_tasks (rn_model r)) t = Some e" "te_outcome e = Fail f"
  shows "failure_inv (record_failure t (te_scope e) f (set_state t Ts_Failed (retire t r)))" (is "failure_inv ?r")
proof -
  have m: "rn_model ?r = rn_model r" by (simp add: run_simps)
  have ph: "task_phase ?r u = (if u = t then Some Ts_Failed else task_phase r u)" for u
    using t by (simp add: run_simps phase_set_state)
  have ff: "first_failure ?r s = (case first_failure r s of
      None \<Rightarrow> if above r s (te_scope e) then Some (t, f) else None | Some w \<Rightarrow> Some w)" for s
    unfolding first_failure_record by (simp add: first_failure_def above_def run_simps)
  have fu: "failed_under ?r s u \<longleftrightarrow> failed_under r s u \<or> (u = t \<and> above r s (te_scope e))" for s u
    using e t by (auto simp: failed_under_def ph task_scope_same[OF m] above_same[OF m]) (auto simp: task_scope_def)
  have dt: "declared_failure r t = Some f" using e by (simp add: declared_failure_def)
  show ?thesis unfolding failure_inv_def
  proof
    fix s
    have old: "case first_failure r s of None \<Rightarrow> \<forall>t. \<not> failed_under r s t
        | Some (t, f) \<Rightarrow> failed_under r s t \<and> declared_failure r t = Some f"
      using inv by (simp add: failure_inv_def)
    show "case first_failure ?r s of None \<Rightarrow> \<forall>t. \<not> failed_under ?r s t
        | Some (t, f) \<Rightarrow> failed_under ?r s t \<and> declared_failure ?r t = Some f"
    proof (cases "first_failure r s")
      case None
      then show ?thesis using old dt by (auto simp: ff fu declared_same[OF m])
    next
      case (Some w)
      then show ?thesis using old by (cases w) (simp add: ff fu declared_same[OF m])
    qed
  qed
qed

lemma move_failure_inv:
  "st_move r ev r1 \<Longrightarrow> frame_inv r \<Longrightarrow> task_inv r \<Longrightarrow> failure_inv r \<Longrightarrow> failure_inv r1"
proof (induction rule: st_move.induct)
  case (mv_complete r t e waits)
  have t: "task_phase r t = Some Ts_Started" using running_iff[OF mv_complete(6)] mv_complete(1) by blast
  show ?case by (rule failure_inv_same[OF mv_complete(7)]) (simp_all add: run_simps phase_set_state t)
next
  case (mv_fail r t e failure)
  have t: "task_phase r t = Some Ts_Started" using running_iff[OF mv_fail(5)] mv_fail(1) by blast
  show ?case by (rule failure_inv_fail[OF mv_fail(4,6) t mv_fail(2,3)])
next
  case (mv_announce r s)
  show ?case by (rule failure_inv_same[OF mv_announce(6)]) (simp_all add: run_simps)
next
  case (mv_cancel r t)
  show ?case by (rule failure_inv_same[OF mv_cancel(6)]) (simp_all add: run_simps phase_set_state mv_cancel(2))
next
  case (mv_start r t)
  show ?case by (rule failure_inv_same[OF mv_start(8)]) (simp_all add: run_simps phase_set_state mv_start(2))
next
  case (mv_abandon r t)
  show ?case by (rule failure_inv_same[OF mv_abandon(7)]) (simp_all add: run_simps phase_set_state mv_abandon(2))
next
  case (mv_finalize r s t q)
  show ?case by (rule failure_inv_same[OF mv_finalize(7)]) (simp_all add: run_simps)
next
  case (mv_exit r s)
  show ?case by (rule failure_inv_same[OF mv_exit(7)]) (simp_all add: run_simps)
qed

lemma outcome_inv_same:
  assumes "outcome_inv r" "rn_outcomes r' = rn_outcomes r" "set (rn_cancelled r) \<subseteq> set (rn_cancelled r')"
    "\<And>s. s \<in> set (bm_keys (rn_outcomes r)) \<Longrightarrow> first_failure r' s = first_failure r s"
  shows "outcome_inv r'"
  unfolding outcome_inv_def
proof (intro allI impI)
  fix s x
  assume x: "bm_get (rn_outcomes r') s = Some x"
  then have "s \<in> set (bm_keys (rn_outcomes r))"
    using assms(2) bm_get_None_iff[of "rn_outcomes r" s] by auto
  then have ff: "first_failure r' s = first_failure r s" by (rule assms(4))
  have "case x of Ex_Failed t f \<Rightarrow> first_failure r s = Some (t, f)
      | Ex_Cancelled \<Rightarrow> first_failure r s = None \<and> bs_contains (rn_cancelled r) s
      | Ex_Success \<Rightarrow> first_failure r s = None"
    using assms(1,2) x by (simp add: outcome_inv_def)
  then show "case x of Ex_Failed t f \<Rightarrow> first_failure r' s = Some (t, f)
      | Ex_Cancelled \<Rightarrow> first_failure r' s = None \<and> bs_contains (rn_cancelled r') s
      | Ex_Success \<Rightarrow> first_failure r' s = None"
    using assms(3) ff by (cases x) (auto simp: bs_contains_def)
qed

lemma outcome_keys:
  assumes "scope_inv r"
  shows "s \<in> set (bm_keys (rn_outcomes r)) \<longleftrightarrow> s \<in> set (rn_exited r)"
  using assms bm_get_None_iff[of "rn_outcomes r" s] unfolding scope_inv_def by blast

text \<open>A task that is still running has no exited scope above it.\<close>

lemma running_not_exited:
  assumes "frame_inv r" "scope_inv r" "task_phase r t = Some Ts_Started" "task_scope r t = Some c" "above r s c"
  shows "s \<notin> set (rn_exited r)"
  using exited_subtree[OF assms(1,2) _ assms(4,5)] exited_settled[OF assms(2) _ assms(4)]
    settled_not_waiting[of r t] assms(3) by blast

lemma outcome_inv_fail:
  assumes fr: "frame_inv r" and sc: "scope_inv r" and inv: "outcome_inv r" and t: "task_phase r t = Some Ts_Started"
    and e: "bm_get (sm_tasks (rn_model r)) t = Some e"
  shows "outcome_inv (record_failure t (te_scope e) f (set_state t Ts_Failed (retire t r)))"
proof (rule outcome_inv_same[OF inv])
  fix s
  assume "s \<in> set (bm_keys (rn_outcomes r))"
  then have "s \<in> set (rn_exited r)" using outcome_keys[OF sc] by blast
  then have "\<not> above r s (te_scope e)"
    using running_not_exited[OF fr sc t, of "te_scope e" s] e by (auto simp: task_scope_def)
  then show "first_failure (record_failure t (te_scope e) f (set_state t Ts_Failed (retire t r))) s = first_failure r s"
    unfolding first_failure_record by (simp add: first_failure_def above_def run_simps split: option.split)
qed (simp_all add: run_simps)

lemma outcome_inv_exit:
  assumes "outcome_inv r"
  shows "outcome_inv (r\<lparr>rn_exited := a, rn_outcomes := bm_insert s (scope_exit_outcome_for r s) (rn_outcomes r)\<rparr>)"
    (is "outcome_inv ?r")
  unfolding outcome_inv_def
proof (intro allI impI)
  fix b x
  assume x: "bm_get (rn_outcomes ?r) b = Some x"
  have ff: "first_failure ?r b = first_failure r b" by (simp add: first_failure_def)
  show "case x of Ex_Failed t f \<Rightarrow> first_failure ?r b = Some (t, f)
      | Ex_Cancelled \<Rightarrow> first_failure ?r b = None \<and> bs_contains (rn_cancelled ?r) b
      | Ex_Success \<Rightarrow> first_failure ?r b = None"
  proof (cases "b = s")
    case True
    then have "x = scope_exit_outcome_for r s" using x by simp
    then show ?thesis using True unfolding ff
      by (auto simp: scope_exit_outcome_for_def first_failure_def split: option.split)
  next
    case False
    then have "bm_get (rn_outcomes r) b = Some x" using x by simp
    then have "case x of Ex_Failed t f \<Rightarrow> first_failure r b = Some (t, f)
      | Ex_Cancelled \<Rightarrow> first_failure r b = None \<and> bs_contains (rn_cancelled r) b
      | Ex_Success \<Rightarrow> first_failure r b = None"
      using assms unfolding outcome_inv_def by blast
    then show ?thesis unfolding ff by (cases x) simp_all
  qed
qed

lemma move_outcome_inv:
  "st_move r ev r1 \<Longrightarrow> frame_inv r \<Longrightarrow> task_inv r \<Longrightarrow> scope_inv r \<Longrightarrow> outcome_inv r \<Longrightarrow> outcome_inv r1"
proof (induction rule: st_move.induct)
  case (mv_complete r t e waits)
  show ?case by (rule outcome_inv_same[OF mv_complete(8)]) (simp_all add: run_simps first_failure_def)
next
  case (mv_fail r t e failure)
  have t: "task_phase r t = Some Ts_Started" using running_iff[OF mv_fail(5)] mv_fail(1) by blast
  show ?case by (rule outcome_inv_fail[OF mv_fail(4,6,7) t mv_fail(2)])
next
  case (mv_announce r s)
  show ?case by (rule outcome_inv_same[OF mv_announce(7)]) (simp_all add: first_failure_def)
next
  case (mv_cancel r t)
  show ?case by (rule outcome_inv_same[OF mv_cancel(7)]) (simp_all add: run_simps first_failure_def)
next
  case (mv_start r t)
  show ?case by (rule outcome_inv_same[OF mv_start(9)]) (simp_all add: run_simps first_failure_def)
next
  case (mv_abandon r t)
  show ?case by (rule outcome_inv_same[OF mv_abandon(8)]) (simp_all add: run_simps first_failure_def)
next
  case (mv_finalize r s t q)
  show ?case by (rule outcome_inv_same[OF mv_finalize(8)]) (simp_all add: first_failure_def)
next
  case (mv_exit r s)
  show ?case by (rule outcome_inv_exit[OF mv_exit(8)])
qed

section \<open>Cancellation\<close>

lemma move_cancelled: "st_move r ev r1 \<Longrightarrow> rn_cancelled r1 = rn_cancelled r"
  by (induction rule: st_move.induct) (simp_all add: run_simps)

lemma move_announced:
  "st_move r ev r1 \<Longrightarrow> set (rn_announced r) \<subseteq> set (rn_cancelled r) \<Longrightarrow> set (rn_announced r1) \<subseteq> set (rn_cancelled r)"
  by (induction rule: st_move.induct) (simp_all add: run_simps bs_contains_def)

lemma move_cancel_inv: "st_move r ev r1 \<Longrightarrow> cancel_inv r \<Longrightarrow> cancel_inv r1"
  using move_cancelled[of r ev r1] move_announced[of r ev r1] move_model[of r ev r1] by (simp add: cancel_inv_def)

lemma descend_simp:
  "descend children collected index =
     (if index < length collected
      then descend children
             (push_new (case bm_get children (collected ! index) of None \<Rightarrow> [] | Some cs \<Rightarrow> cs) collected)
             (index + 1)
      else collected)"
  by (rule descend.simps)

lemma push_new_append: "\<exists>ys. push_new cs collected = collected @ ys"
  by (induction cs collected rule: push_new.induct) auto

text \<open>The search collects everything reachable: its result keeps the list and is closed under children.\<close>

lemma descend_closed:
  "(\<forall>i < index. \<forall>c. (case bm_get children (collected ! i) of None \<Rightarrow> False | Some cs \<Rightarrow> c \<in> set cs) \<longrightarrow> c \<in> set collected) \<Longrightarrow>
   index \<le> length collected \<Longrightarrow>
   set collected \<subseteq> set (descend children collected index)
   \<and> (\<forall>s \<in> set (descend children collected index). \<forall>c.
        (case bm_get children s of None \<Rightarrow> False | Some cs \<Rightarrow> c \<in> set cs) \<longrightarrow> c \<in> set (descend children collected index))"
proof (induction children collected index rule: descend.induct)
  case (1 children collected index)
  let ?kids = "\<lambda>s. case bm_get children s of None \<Rightarrow> [] | Some cs \<Rightarrow> cs"
  have kids: "(case bm_get children s of None \<Rightarrow> False | Some cs \<Rightarrow> c \<in> set cs) \<longleftrightarrow> c \<in> set (?kids s)" for s c
    by (simp split: option.split)
  show ?case
  proof (cases "index < length collected")
    case True
    let ?next = "push_new (?kids (collected ! index)) collected"
    obtain ys where ys: "?next = collected @ ys" using push_new_append by blast
    have set: "set ?next = set (?kids (collected ! index)) \<union> set collected" by (rule set_push_new)
    have pre: "\<forall>i < index + 1. \<forall>c. (case bm_get children (?next ! i) of None \<Rightarrow> False | Some cs \<Rightarrow> c \<in> set cs) \<longrightarrow> c \<in> set ?next"
    proof (intro allI impI)
      fix i c
      assume i: "i < index + 1" and c: "case bm_get children (?next ! i) of None \<Rightarrow> False | Some cs \<Rightarrow> c \<in> set cs"
      have nth: "?next ! i = collected ! i" using i True ys by (simp add: nth_append)
      show "c \<in> set ?next"
      proof (cases "i = index")
        case True
        then show ?thesis using c nth set kids by simp
      next
        case False
        then have "i < index" using i by simp
        then have "c \<in> set collected" using 1(2) c nth by simp
        then show ?thesis using set by simp
      qed
    qed
    have len: "index + 1 \<le> length ?next" using True ys by simp
    note ih = "1.IH"[OF True pre len]
    show ?thesis using ih set by (subst (1 2 3) descend_simp) (use True in auto)
  next
    case False
    then have "descend children collected index = collected" by (simp add: descend_simp)
    moreover have "\<exists>i < index. collected ! i = s" if "s \<in> set collected" for s
      using that False 1(3) by (metis in_set_conv_nth le_antisym linorder_not_less)
    ultimately show ?thesis using 1(2) by fastforce
  qed
qed

text \<open>It collects nothing but declared scopes.\<close>

lemma descend_within:
  "(\<And>s c. (case bm_get children s of None \<Rightarrow> False | Some cs \<Rightarrow> c \<in> set cs) \<Longrightarrow> c \<in> A) \<Longrightarrow>
   set collected \<subseteq> A \<Longrightarrow> set (descend children collected index) \<subseteq> A"
proof (induction children collected index rule: descend.induct)
  case (1 children collected index)
  show ?case
  proof (cases "index < length collected")
    case True
    have "set (case bm_get children (collected ! index) of None \<Rightarrow> [] | Some cs \<Rightarrow> cs) \<subseteq> A"
    proof (cases "bm_get children (collected ! index)")
      case (Some cs)
      have "c \<in> A" if "c \<in> set cs" for c using 1(2)[of c "collected ! index"] 1(2)[of "collected ! index" c] that Some by simp
      then show ?thesis using Some by auto
    qed simp
    then have "set (push_new (case bm_get children (collected ! index) of None \<Rightarrow> [] | Some cs \<Rightarrow> cs) collected) \<subseteq> A"
      using 1(3) by (simp only: set_push_new Un_subset_iff)
    from "1.IH"[OF True 1(2) this] show ?thesis using True by (simp add: descend_simp[of children collected index])
  next
    case False
    then show ?thesis using 1(3) by (simp add: descend_simp)
  qed
qed

section \<open>The whole invariant\<close>

definition run_inv :: "st_run \<Rightarrow> bool" where
  "run_inv r \<longleftrightarrow> frame_inv r \<and> task_inv r \<and> scope_inv r \<and> failure_inv r \<and> outcome_inv r \<and> cancel_inv r
     \<and> complete_inv r"

lemmas run_inv_parts = run_inv_def[THEN iffD1]

lemma record_task_phase: "task_phase (record_event ev r) = task_phase r"
  by (simp add: run_simps)

text \<open>The bookkeeping fields are outside every part but the last.\<close>

lemma parts_cong:
  assumes "rn_model r' = rn_model r" "rn_fingerprint r' = rn_fingerprint r" "rn_states r' = rn_states r"
    "rn_pending r' = rn_pending r" "rn_dependents r' = rn_dependents r" "rn_cancelled r' = rn_cancelled r"
    "rn_announced r' = rn_announced r" "rn_exited r' = rn_exited r" "rn_finalized r' = rn_finalized r"
    "rn_failures r' = rn_failures r" "rn_outcomes r' = rn_outcomes r" "rn_running r' = rn_running r"
    "frame_inv r" "task_inv r" "scope_inv r" "failure_inv r" "outcome_inv r" "cancel_inv r"
  shows "frame_inv r' \<and> task_inv r' \<and> scope_inv r' \<and> failure_inv r' \<and> outcome_inv r' \<and> cancel_inv r'"
proof -
  have ph: "task_phase r' = task_phase r" by (simp add: task_phase_def fun_eq_iff assms(3))
  have "frame_inv r'" using assms(13) by (simp add: frame_inv_def ph assms)
  moreover have "task_inv r'" by (rule task_inv_same[OF assms(14)]) (simp_all add: ph assms)
  moreover have "scope_inv r'" by (rule scope_inv_phases[OF assms(15)]) (simp_all add: ph assms)
  moreover have "failure_inv r'" by (rule failure_inv_same[OF assms(16)]) (simp_all add: ph assms)
  moreover have "outcome_inv r'"
    by (rule outcome_inv_same[OF assms(17)]) (simp_all add: assms first_failure_def)
  moreover have "cancel_inv r'" using assms(18) by (simp add: cancel_inv_def assms)
  ultimately show ?thesis by blast
qed

lemma conclude_fields:
  "rn_model (conclude ev r) = rn_model r" "rn_fingerprint (conclude ev r) = rn_fingerprint r"
  "rn_states (conclude ev r) = rn_states r" "rn_pending (conclude ev r) = rn_pending r"
  "rn_dependents (conclude ev r) = rn_dependents r" "rn_cancelled (conclude ev r) = rn_cancelled r"
  "rn_announced (conclude ev r) = rn_announced r" "rn_exited (conclude ev r) = rn_exited r"
  "rn_finalized (conclude ev r) = rn_finalized r" "rn_failures (conclude ev r) = rn_failures r"
  "rn_outcomes (conclude ev r) = rn_outcomes r" "rn_running (conclude ev r) = rn_running r"
  "rn_events (conclude ev r) = rn_events r @ [ev]" "rn_totals (conclude ev r) = bump_totals ev (rn_totals r)"
  "task_phase (conclude ev r) = task_phase r"
  by (cases ev; simp add: conclude_def run_simps)+

lemma conclude_complete:
  "rn_complete (conclude ev r) \<longleftrightarrow>
     rn_complete r \<or> (\<exists>x. ev = Ev_ScopeExited (sm_root (rn_model r)) x)"
  by (cases ev) (auto simp: conclude_def run_simps)

lemma move_exited:
  "st_move r ev r1 \<Longrightarrow> rn_complete r1 = rn_complete r
     \<and> set (rn_exited r1) = set (rn_exited r) \<union> {s. \<exists>x. ev = Ev_ScopeExited s x}"
  by (induction rule: st_move.induct) (auto simp: run_simps)

lemma move_run_inv:
  assumes mv: "st_move r ev r1" and inv: "run_inv r"
  shows "run_inv (conclude ev r1)"
proof -
  note p = inv[unfolded run_inv_def]
  have "frame_inv r1" "task_inv r1" "scope_inv r1" "failure_inv r1" "outcome_inv r1" "cancel_inv r1"
    using p move_frame[OF mv] move_task_inv[OF mv] move_scope_inv[OF mv] move_failure_inv[OF mv]
      move_outcome_inv[OF mv] move_cancel_inv[OF mv] by blast+
  then have parts: "frame_inv (conclude ev r1) \<and> task_inv (conclude ev r1) \<and> scope_inv (conclude ev r1)
      \<and> failure_inv (conclude ev r1) \<and> outcome_inv (conclude ev r1) \<and> cancel_inv (conclude ev r1)"
    by (intro parts_cong[of "conclude ev r1" r1]) (simp_all add: conclude_fields)
  have "complete_inv (conclude ev r1)"
    using p move_exited[OF mv] move_model[OF mv]
    by (simp add: complete_inv_def conclude_fields conclude_complete)
  then show ?thesis using parts by (simp add: run_inv_def)
qed

section \<open>Progress\<close>

lemma authenticate_ok: "frame_inv r \<Longrightarrow> authenticate_run r = Ok ()"
  by (simp add: authenticate_run_def frame_inv_def)

lemma finite_has_deepest:
  fixes f :: "'a \<Rightarrow> nat"
  assumes "A \<noteq> {}" "finite A"
  shows "\<exists>s \<in> A. \<forall>c \<in> A. f c \<le> f s"
proof -
  have "Max (f ` A) \<in> f ` A" using assms by (intro Max_in) auto
  then obtain s where "s \<in> A" "f s = Max (f ` A)" by auto
  then show ?thesis using assms(2) by (intro bexI[of _ s]) (simp_all add: Max_ge)
qed

text \<open>With nothing running or waiting, the deepest open scope can exit.\<close>

lemma exit_candidate_idle:
  assumes fr: "frame_inv r" and ti: "task_inv r" and ci: "complete_inv r" and unf: "\<not> rn_complete r"
    and idle: "rn_running r = None" "\<forall>u. task_phase r u \<noteq> Some Ts_Pending"
  shows "exit_candidate r \<noteq> None"
proof -
  let ?open = "{s \<in> set (bm_keys (run_scopes r)). s \<notin> set (rn_exited r)}"
  let ?depth = "\<lambda>s. case bm_get (run_scopes r) s of None \<Rightarrow> 0 | Some e \<Rightarrow> unat (se_depth e)"
  note wf = wf_run_scopes[OF fr]
  obtain re where "bm_get (run_scopes r) (sm_root (rn_model r)) = Some re" using wf by (auto simp: wf_scopes_def)
  then have "sm_root (rn_model r) \<in> ?open"
    using ci unf bm_get_None_iff[of "run_scopes r" "sm_root (rn_model r)"] by (auto simp: complete_inv_def)
  then have ne: "?open \<noteq> {}" and fin: "finite ?open" by auto
  obtain s where s: "s \<in> ?open" "\<forall>c \<in> ?open. ?depth c \<le> ?depth s"
    using finite_has_deepest[OF ne fin, of ?depth] by blast
  obtain e where e: "bm_get (run_scopes r) s = Some e" using s(1) bm_get_None_iff[of "run_scopes r" s] by blast
  have done_: "\<exists>x. task_phase r t = Some x \<and> state_terminal x" if t: "task_scope r t = Some s" for t
  proof -
    obtain x where x: "task_phase r t = Some x" using task_scope_known(2)[OF fr t] by blast
    have "x \<noteq> Ts_Started" using running_iff[OF ti, of t] idle(1) x by auto
    then have "state_terminal x" using idle(2) x by (cases x) (auto simp: state_terminal_def)
    then show ?thesis using x by blast
  qed
  have kids: "c \<in> set (rn_exited r)" if c: "parent_in (run_scopes r) c = Some s" for c
  proof (rule ccontr)
    assume n: "c \<notin> set (rn_exited r)"
    obtain ce where ce: "bm_get (run_scopes r) c = Some ce" "se_parent ce = Some s"
      using c by (auto simp: parent_in_def bind_eq_Some_conv)
    have "c \<in> ?open" using n ce(1) bm_get_None_iff[of "run_scopes r" c] by auto
    then have le: "unat (se_depth ce) \<le> unat (se_depth e)" using s(2) ce(1) e by fastforce
    obtain pe where "bm_get (run_scopes r) s = Some pe" "unat (se_depth ce) = Suc (unat (se_depth pe))"
      by (rule wf_scopes_parent[OF wf ce])
    then show False using le e by simp
  qed
  have "exit_ready r s"
    using s(1) done_ kids scope_settled_iff[OF fr] children_exited_iff[OF fr] by (simp add: exit_ready_def bs_contains_def)
  then show ?thesis by (rule exit_candidate_exists[OF e])
qed

lemma not_stuck:
  assumes "frame_inv r" "task_inv r" "complete_inv r" "\<not> rn_complete r"
  shows "\<not> stuck r"
proof
  assume st: "stuck r"
  then obtain s where s: "exit_candidate r = Some s"
    using exit_candidate_idle[OF assms] by (auto simp: stuck_def)
  have "unfinalized_ran_tasks r s = []"
    using st s max_by_None[of "\<lambda>a b. snd a \<le> snd b" "unfinalized_ran_tasks r s"]
    by (auto simp: stuck_def finalize_one_task_def split: option.splits)
  then show False using st s by (simp add: stuck_def exit_one_scope_def Let_def)
qed

lemma st_step_progress:
  assumes inv: "run_inv r"
  shows "(rn_complete r \<and> st_step r = (Ok None, r))
     \<or> (\<exists>ev r1. \<not> rn_complete r \<and> st_move r ev r1 \<and> st_step r = (Ok (Some ev), conclude ev r1))"
proof -
  obtain res r' where st: "st_step r = (res, r')" by (cases "st_step r")
  note p = inv[unfolded run_inv_def]
  from st show ?thesis
  proof (cases rule: st_step_cases)
    case (refused e)
    then show ?thesis using authenticate_ok p by auto
  next
    case broken
    then show ?thesis using apply_running_total p by blast
  next
    case stuck
    then show ?thesis using not_stuck p by blast
  qed (use st in auto)
qed

lemma step_run_inv: "run_inv r \<Longrightarrow> run_inv (snd (st_step r))"
  using st_step_progress[of r] move_run_inv[of r] by auto

end
