(* ===== verification/ScopedSchedule.thy ===== *)
theory ScopedSchedule
  imports ScopedRunInv
begin

text \<open>
  Schedules of a scoped-task run (\<open>src/scoped_tasks.rs\<close>): steps and cancellations in any order.
  The invariant holds along every schedule, and the work left bounds the number of steps.
\<close>

section \<open>Cancelling a scope\<close>

lemma set_remdups_adj_sort: "set (remdups_adj (sort xs)) = set xs"
  by simp

lemma cancel_fold:
  "fold (\<lambda>c (i, m). (i \<or> \<not> bs_contains m c, bs_insert c m)) cs (b, m)
     = (b', m') \<Longrightarrow> set m' = set cs \<union> set m"
  by (induction cs arbitrary: b m) auto

lemma descendants_scopes:
  assumes fr: "frame_inv r" and s: "bm_get (run_scopes r) s \<noteq> None"
  shows "s \<in> set (descendants_including r s)"
    and "c \<in> set (descendants_including r s) \<Longrightarrow> bm_get (run_scopes r) c \<noteq> None"
    and "c \<in> set (descendants_including r s) \<Longrightarrow> parent_in (run_scopes r) d = Some c \<Longrightarrow>
      d \<in> set (descendants_including r s)"
proof -
  have kids: "(case bm_get (sm_children (rn_model r)) a of None \<Rightarrow> False | Some cs \<Rightarrow> b \<in> set cs)
      \<longleftrightarrow> parent_in (run_scopes r) b = Some a" for a b
    using fr unfolding frame_inv_def wf_model_def by blast
  have set: "set (descendants_including r s) = set (descend (sm_children (rn_model r)) [s] 0)"
    by (simp add: descendants_including_def)
  note closed = descend_closed[of 0 "sm_children (rn_model r)" "[s]", simplified]
  show "s \<in> set (descendants_including r s)" using closed set by simp
  have "set (descend (sm_children (rn_model r)) [s] 0) \<subseteq> {c. bm_get (run_scopes r) c \<noteq> None}"
  proof (rule descend_within)
    fix a b
    assume "case bm_get (sm_children (rn_model r)) a of None \<Rightarrow> False | Some cs \<Rightarrow> b \<in> set cs"
    then have "parent_in (run_scopes r) b = Some a" using kids by blast
    then show "b \<in> {c. bm_get (run_scopes r) c \<noteq> None}" by (auto simp: parent_in_def bind_eq_Some_conv)
  qed (use s in simp)
  then show "c \<in> set (descendants_including r s) \<Longrightarrow> bm_get (run_scopes r) c \<noteq> None" using set by auto
  show "c \<in> set (descendants_including r s) \<Longrightarrow> parent_in (run_scopes r) d = Some c \<Longrightarrow>
      d \<in> set (descendants_including r s)"
    using closed set kids by blast
qed

lemma cancel_scope_effect:
  assumes fr: "frame_inv r"
  shows "snd (cancel_scope s r) = r
     \<or> (\<not> rn_complete r \<and> bm_get (run_scopes r) s \<noteq> None \<and> (\<exists>m. snd (cancel_scope s r) = r\<lparr>rn_cancelled := m\<rparr>
          \<and> set m = set (descendants_including r s) \<union> set (rn_cancelled r)))"
proof (cases "rn_complete r \<or> \<not> bm_contains (run_scopes r) s")
  case True
  then show ?thesis using authenticate_ok[OF fr] by (auto simp: cancel_scope_def)
next
  case False
  obtain b m where bm: "fold (\<lambda>c (i, m). (i \<or> \<not> bs_contains m c, bs_insert c m)) (descendants_including r s)
      (False, rn_cancelled r) = (b, m)" by fastforce
  have "snd (cancel_scope s r) = r\<lparr>rn_cancelled := m\<rparr>"
    using False authenticate_ok[OF fr] bm by (simp add: cancel_scope_def)
  then show ?thesis using cancel_fold[OF bm] False by (auto simp: bm_contains_def)
qed

lemma cancel_run_inv:
  assumes inv: "run_inv r"
  shows "run_inv (snd (cancel_scope s r))"
proof -
  note p = inv[unfolded run_inv_def]
  have fr: "frame_inv r" using p by blast
  consider "snd (cancel_scope s r) = r"
    | m where "bm_get (run_scopes r) s \<noteq> None" "snd (cancel_scope s r) = r\<lparr>rn_cancelled := m\<rparr>"
      "set m = set (descendants_including r s) \<union> set (rn_cancelled r)"
    using cancel_scope_effect[OF fr, of s] by blast
  then show ?thesis
  proof cases
    case 1
    then show ?thesis using inv by simp
  next
    case (2 m)
    let ?r = "r\<lparr>rn_cancelled := m\<rparr>"
    note d = descendants_scopes[OF fr 2(1)]
    have "frame_inv ?r" using fr by (simp add: frame_inv_def run_simps)
    moreover have "task_inv ?r" by (rule task_inv_same[of r]) (use p in \<open>simp_all add: run_simps\<close>)
    moreover have "scope_inv ?r" by (rule scope_inv_phases[of r]) (use p in \<open>simp_all add: run_simps\<close>)
    moreover have "failure_inv ?r" by (rule failure_inv_same[of r]) (use p in \<open>simp_all add: run_simps\<close>)
    moreover have "outcome_inv ?r"
      by (rule outcome_inv_same[of r]) (use p 2(3) in \<open>simp_all add: first_failure_def\<close>)
    moreover have "complete_inv ?r" using p by (simp add: complete_inv_def)
    moreover have "cancel_inv ?r"
      unfolding cancel_inv_def
    proof (intro conjI ballI allI impI)
      show "set (rn_announced ?r) \<subseteq> set (rn_cancelled ?r)" using p 2(3) by (auto simp: cancel_inv_def)
    next
      fix c
      assume "c \<in> set (rn_cancelled ?r)"
      then have "c \<in> set (descendants_including r s) \<or> c \<in> set (rn_cancelled r)" using 2(3) by auto
      then show "bm_get (run_scopes ?r) c \<noteq> None" using d(2) p by (auto simp: cancel_inv_def)
    next
      fix c e
      assume "c \<in> set (rn_cancelled ?r)" "parent_in (run_scopes ?r) e = Some c"
      then have "c \<in> set (descendants_including r s) \<or> c \<in> set (rn_cancelled r)"
        and "parent_in (run_scopes r) e = Some c" using 2(3) by auto
      then have "e \<in> set (descendants_including r s) \<or> e \<in> set (rn_cancelled r)"
        using d(3) cancelled_children p by blast
      then show "e \<in> set (rn_cancelled ?r)" using 2(3) by auto
    qed
    ultimately show ?thesis using 2(2) by (simp add: run_inv_def)
  qed
qed

section \<open>Preparing\<close>

lemma get_fold_insert:
  "bm_get (fold (\<lambda>i. bm_insert i v) ks m) k = (if k \<in> set ks then Some v else bm_get m k)"
  by (induction ks arbitrary: m) auto

lemma ok_fold_insert: "bm_ok m \<Longrightarrow> bm_ok (fold (\<lambda>i. bm_insert i v) ks m)"
  by (induction ks arbitrary: m) auto

lemma prepare_waits:
  assumes wf: "wf_model m"
  shows "count_degrees (sm_dependencies m) (fold (\<lambda>i. bm_insert i 0) (bm_keys (sm_tasks m)) bm_empty)
     = Some (fold add_indegree (sm_dependencies m) (zero_table (bm_keys (sm_tasks m))))"
proof -
  have "bm_get (zero_table (bm_keys (sm_tasks m))) (snd e) \<noteq> None" if "e \<in> set (sm_dependencies m)" for e
  proof -
    have "\<exists>de. bm_get (sm_tasks m) (snd e) = Some de"
      using wf that unfolding wf_model_def by (cases e) force
    then show ?thesis using bm_get_None_iff[of "sm_tasks m" "snd e"] by (auto simp: get_zero_table)
  qed
  then show ?thesis by (simp add: count_degrees_fold zero_table_def)
qed

lemma prepare_run_Ok: "wf_model m \<Longrightarrow> \<exists>r. prepare_run m = Ok r"
  by (simp add: prepare_run_def prepare_waits)

lemma prepare_run_inv:
  assumes wf: "wf_model m" and r: "prepare_run m = Ok r"
  shows "run_inv r"
proof -
  have r': "r = \<lparr>rn_fingerprint = sm_fingerprint m, rn_model = m,
      rn_states = fold (\<lambda>i. bm_insert i runtime_pending) (bm_keys (sm_tasks m)) bm_empty,
      rn_pending = fold add_indegree (sm_dependencies m) (zero_table (bm_keys (sm_tasks m))),
      rn_dependents = dependents_of (sm_dependencies m),
      rn_cancelled = [], rn_announced = [], rn_exited = [], rn_finalized = [],
      rn_failures = bm_empty, rn_outcomes = bm_empty, rn_seq = 0, rn_events = [],
      rn_running = None,
      rn_totals = \<lparr>rt_started = 0, rt_completed = 0, rt_failed = 0, rt_cancelled = 0\<rparr>,
      rn_complete = False\<rparr>"
    using r by (simp add: prepare_run_def prepare_waits[OF wf])
  have ph: "task_phase r t = (if t \<in> set (bm_keys (sm_tasks m)) then Some Ts_Pending else None)" for t
    by (simp add: task_phase_def r' get_fold_insert runtime_pending_def)
  have running: "rn_running r = None" by (simp add: r')
  have "frame_inv r"
  proof -
    have "task_phase r t = None \<longleftrightarrow> bm_get (sm_tasks (rn_model r)) t = None" for t
      by (simp only: ph bm_get_None_iff) (simp add: r')
    then show ?thesis using wf unfolding frame_inv_def by (simp add: r' ok_fold_insert)
  qed
  moreover have "task_inv r"
    unfolding task_inv_def
  proof (intro conjI allI impI)
    fix t
    assume t: "task_phase r t \<noteq> None"
    have d: "distinct (sm_dependencies m)" using wf by (auto simp: wf_model_def bs_ok_def strict_sorted_iff)
    have "waiting r t = {a. (a, t) \<in> set (sm_dependencies m)}"
      unfolding waiting_def run_edges_def by (auto simp: ph) (simp_all add: r')
    also have "\<dots> = fst ` set (filter (\<lambda>(a, c). c = t) (sm_dependencies m))" by force
    also have "card \<dots> = length (filter (\<lambda>(a, c). c = t) (sm_dependencies m))"
      using d distinct_card[of "filter (\<lambda>(a, c). c = t) (sm_dependencies m)"]
      by (subst card_image) (auto simp: inj_on_def)
    finally have "card (waiting r t) = into t (sm_dependencies m)" by (simp add: into_def)
    then show "bm_get (rn_pending r) t = Some (card (waiting r t))"
      using t ph by (simp add: r' get_fold_indegree get_zero_table split: if_splits)
  qed (auto simp: ph has_run_def running split: if_splits)
  moreover have "failure_inv r"
  proof -
    have "rn_failures r = bm_empty" by (simp add: r')
    moreover have "\<not> failed_under r s t" for s t by (simp add: failed_under_def ph)
    ultimately show ?thesis by (simp add: failure_inv_def first_failure_def)
  qed
  moreover have "scope_inv r" "outcome_inv r" "cancel_inv r" "complete_inv r"
    by (simp_all add: scope_inv_def outcome_inv_def cancel_inv_def complete_inv_def
        first_failure_def ph) (simp_all add: r')
  ultimately show ?thesis by (simp add: run_inv_def)
qed

section \<open>The work left\<close>

definition task_weight :: "st_run \<Rightarrow> decl_id \<Rightarrow> nat" where
  "task_weight r t =
     (case task_phase r t of
        None \<Rightarrow> 0
      | Some Ts_Pending \<Rightarrow> 3
      | Some Ts_Started \<Rightarrow> 2
      | Some Ts_Cancelled \<Rightarrow> 0
      | Some _ \<Rightarrow> if t \<in> set (rn_finalized r) then 0 else 1)"

definition work_left :: "st_run \<Rightarrow> nat" where
  "work_left r = (\<Sum>t \<in> set (bm_keys (sm_tasks (rn_model r))). task_weight r t)
     + card (set (bm_keys (run_scopes r)) - set (rn_announced r))
     + card (set (bm_keys (run_scopes r)) - set (rn_exited r))"

lemma work_task:
  assumes fr: "frame_inv r" and t: "task_phase r t = Some x" "task_weight r' t < task_weight r t"
    and m: "rn_model r' = rn_model r" "rn_announced r' = rn_announced r" "rn_exited r' = rn_exited r"
    and other: "\<And>u. u \<noteq> t \<Longrightarrow> task_weight r' u = task_weight r u"
  shows "work_left r' < work_left r"
proof -
  obtain e where "bm_get (sm_tasks (rn_model r)) t = Some e" by (rule known_task[OF fr t(1)])
  then have "t \<in> set (bm_keys (sm_tasks (rn_model r)))" using bm_get_None_iff[of "sm_tasks (rn_model r)" t] by auto
  moreover have "task_weight r' u \<le> task_weight r u" for u using t(2) other[of u] by (cases "u = t") auto
  ultimately have "(\<Sum>t \<in> set (bm_keys (sm_tasks (rn_model r))). task_weight r' t)
      < (\<Sum>t \<in> set (bm_keys (sm_tasks (rn_model r))). task_weight r t)"
    using t(2) by (intro sum_strict_mono_ex1) auto
  then show ?thesis by (simp add: work_left_def m)
qed

lemma card_remove_less: "finite A \<Longrightarrow> x \<in> A \<Longrightarrow> x \<notin> B \<Longrightarrow> card (A - insert x B) < card (A - B)"
  by (intro psubset_card_mono) auto

lemma weight_cong:
  "task_phase r' t = task_phase r t \<Longrightarrow> (t \<in> set (rn_finalized r') \<longleftrightarrow> t \<in> set (rn_finalized r)) \<Longrightarrow>
     task_weight r' t = task_weight r t"
  by (simp add: task_weight_def)

lemma move_work: "st_move r ev r1 \<Longrightarrow> run_inv r \<Longrightarrow> work_left r1 < work_left r"
proof (induction rule: st_move.induct)
  case (mv_complete r t e waits)
  note p = mv_complete(5)[unfolded run_inv_def]
  have t: "task_phase r t = Some Ts_Started" using running_iff mv_complete(1) p by blast
  show ?case
    by (rule work_task[OF _ t]) (use p in \<open>simp_all add: run_simps phase_set_state t task_weight_def\<close>)
next
  case (mv_fail r t e failure)
  note p = mv_fail(4)[unfolded run_inv_def]
  have t: "task_phase r t = Some Ts_Started" using running_iff mv_fail(1) p by blast
  show ?case
    by (rule work_task[OF _ t]) (use p in \<open>simp_all add: run_simps phase_set_state t task_weight_def\<close>)
next
  case (mv_announce r s)
  note p = mv_announce(4)[unfolded run_inv_def]
  let ?r = "r\<lparr>rn_announced := bs_insert s (rn_announced r)\<rparr>"
  have "bm_get (run_scopes r) s \<noteq> None" using p mv_announce(2) by (simp add: cancel_inv_def bs_contains_def)
  then have "s \<in> set (bm_keys (run_scopes r))" using bm_get_None_iff[of "run_scopes r" s] by simp
  moreover have "task_weight ?r = task_weight r" by (simp add: fun_eq_iff task_weight_def run_simps)
  ultimately show ?case
    using mv_announce(3) card_remove_less[of "set (bm_keys (run_scopes r))" s "set (rn_announced r)"]
    by (simp add: work_left_def bs_contains_def)
next
  case (mv_cancel r t)
  show ?case
    by (rule work_task[OF _ mv_cancel(2)])
      (use mv_cancel(4) in \<open>simp_all add: run_inv_def run_simps phase_set_state mv_cancel(2) task_weight_def\<close>)
next
  case (mv_start r t)
  show ?case
    by (rule work_task[OF _ mv_start(2)])
      (use mv_start(6) in \<open>simp_all add: run_inv_def run_simps phase_set_state mv_start(2) task_weight_def\<close>)
next
  case (mv_abandon r t)
  show ?case
    by (rule work_task[OF _ mv_abandon(2)])
      (use mv_abandon(5) in \<open>simp_all add: run_inv_def run_simps phase_set_state mv_abandon(2) task_weight_def\<close>)
next
  case (mv_finalize r s t q)
  note p = mv_finalize(5)[unfolded run_inv_def]
  have fr: "frame_inv r" using p by blast
  note u = unfinalized_member[OF fr max_by_in[OF mv_finalize(4)]]
  obtain x where x: "task_phase r t = Some x" "x = Ts_Completed \<or> x = Ts_Failed" using u(1) by blast
  show ?case
    by (rule work_task[OF fr x(1)]) (use x u(2) in \<open>auto simp: run_simps task_weight_def\<close>)
next
  case (mv_exit r s)
  let ?r = "r\<lparr>rn_exited := bs_insert s (rn_exited r),
      rn_outcomes := bm_insert s (scope_exit_outcome_for r s) (rn_outcomes r)\<rparr>"
  note s = exit_candidate_Some[OF mv_exit(3)]
  have "s \<in> set (bm_keys (run_scopes r))" using s(1) bm_get_None_iff[of "run_scopes r" s] by simp
  moreover have "task_weight ?r = task_weight r" by (simp add: fun_eq_iff task_weight_def run_simps)
  moreover have "s \<notin> set (rn_exited r)" using s(2) by (simp add: exit_ready_def bs_contains_def)
  ultimately show ?case
    using card_remove_less[of "set (bm_keys (run_scopes r))" s "set (rn_exited r)"]
    by (simp add: work_left_def)
qed

lemma conclude_work: "work_left (conclude ev r) = work_left r"
proof -
  have "task_weight (conclude ev r) = task_weight r"
    by (simp add: fun_eq_iff) (intro allI weight_cong, simp_all add: conclude_fields)
  then show ?thesis by (simp add: work_left_def conclude_fields)
qed

lemma step_work:
  assumes "run_inv r" "\<not> rn_complete r"
  shows "work_left (snd (st_step r)) < work_left r"
  using st_step_progress[OF assms(1)] move_work[OF _ assms(1)] conclude_work assms(2) by fastforce

lemma cancel_work:
  assumes "run_inv r"
  shows "work_left (snd (cancel_scope s r)) = work_left r"
proof -
  have fr: "frame_inv r" using assms by (simp add: run_inv_def)
  have "work_left (r\<lparr>rn_cancelled := m\<rparr>) = work_left r" for m
  proof -
    have "task_weight (r\<lparr>rn_cancelled := m\<rparr>) = task_weight r"
      by (simp add: fun_eq_iff) (intro allI weight_cong, simp_all add: run_simps)
    then show ?thesis by (simp add: work_left_def)
  qed
  then show ?thesis using cancel_scope_effect[OF fr, of s] by (elim disjE conjE exE) simp_all
qed

lemma work_bound:
  "work_left r \<le> 3 * length (sm_tasks (rn_model r)) + 2 * length (run_scopes r)"
proof -
  have "(\<Sum>t \<in> set (bm_keys (sm_tasks (rn_model r))). task_weight r t)
      \<le> (\<Sum>t \<in> set (bm_keys (sm_tasks (rn_model r))). 3)"
    by (intro sum_mono) (simp add: task_weight_def split: option.split task_state.split)
  also have "\<dots> \<le> 3 * length (sm_tasks (rn_model r))"
    using card_length[of "bm_keys (sm_tasks (rn_model r))"] by (simp add: bm_keys_def)
  finally have a: "(\<Sum>t \<in> set (bm_keys (sm_tasks (rn_model r))). task_weight r t)
      \<le> 3 * length (sm_tasks (rn_model r))" .
  have "card (set (bm_keys (run_scopes r)) - B) \<le> length (run_scopes r)" for B
  proof -
    have "card (set (bm_keys (run_scopes r)) - B) \<le> card (set (bm_keys (run_scopes r)))" by (intro card_mono) auto
    also have "\<dots> \<le> length (run_scopes r)" using card_length[of "bm_keys (run_scopes r)"] by (simp add: bm_keys_def)
    finally show ?thesis .
  qed
  from this[of "set (rn_announced r)"] this[of "set (rn_exited r)"] a show ?thesis by (simp add: work_left_def)
qed

section \<open>Schedules\<close>

interpretation scoped: invariant_machine st_call_step run_inv
proof
  fix r c
  assume "run_inv r"
  then show "run_inv (st_call_step r c)" by (cases c) (simp_all add: step_run_inv cancel_run_inv)
qed

lemma call_model:
  assumes "run_inv r"
  shows "rn_model (st_call_step r c) = rn_model r"
proof (cases c)
  case St_Step
  then show ?thesis using st_step_progress[OF assms] move_model[of r] conclude_fields(1) by auto
next
  case (St_Cancel s)
  have fr: "frame_inv r" using assms by (simp add: run_inv_def)
  show ?thesis using cancel_scope_effect[OF fr, of s] St_Cancel by auto
qed

lemma call_complete:
  assumes "run_inv r" "rn_complete r"
  shows "st_call_step r c = r"
proof -
  have "authenticate_run r = Ok ()" using assms(1) authenticate_ok by (simp add: run_inv_def)
  then show ?thesis using assms(2) by (cases c) (simp_all add: st_step_quiet cancel_scope_def)
qed

lemma schedule_complete:
  "run_inv r \<Longrightarrow> rn_complete r \<Longrightarrow> foldl st_call_step r cs = r"
  by (induction cs) (simp_all add: call_complete)

lemma no_work_complete:
  assumes inv: "run_inv r" and "work_left r = 0"
  shows "rn_complete r"
proof -
  note p = inv[unfolded run_inv_def]
  have "wf_scopes (sm_root (rn_model r)) (run_scopes r)" using wf_run_scopes p by blast
  then obtain e where "bm_get (run_scopes r) (sm_root (rn_model r)) = Some e" unfolding wf_scopes_def by blast
  then have "sm_root (rn_model r) \<in> set (bm_keys (run_scopes r))"
    using bm_get_None_iff[of "run_scopes r" "sm_root (rn_model r)"] by simp
  moreover have "set (bm_keys (run_scopes r)) \<subseteq> set (rn_exited r)" using assms(2) by (simp add: work_left_def)
  ultimately show ?thesis using p by (auto simp: complete_inv_def)
qed

lemma schedule_completes:
  "run_inv r \<Longrightarrow> work_left r \<le> length (filter (\<lambda>c. c = St_Step) cs) \<Longrightarrow> rn_complete (foldl st_call_step r cs)"
proof (induction cs arbitrary: r)
  case Nil
  then show ?case using no_work_complete by simp
next
  case (Cons c cs)
  show ?case
  proof (cases "rn_complete r")
    case True
    then show ?thesis by (simp only: schedule_complete[OF Cons.prems(1) True])
  next
    case open_: False
    have inv: "run_inv (st_call_step r c)" by (rule scoped.inv_step[OF Cons.prems(1)])
    show ?thesis
    proof (cases c)
      case St_Step
      have "work_left (st_call_step r c) < work_left r" using step_work[OF Cons.prems(1) open_] St_Step by simp
      then show ?thesis using Cons.IH[OF inv] Cons.prems(2) St_Step by simp
    next
      case (St_Cancel s)
      have "work_left (st_call_step r c) = work_left r" using cancel_work[OF Cons.prems(1)] St_Cancel by simp
      then show ?thesis using Cons.IH[OF inv] Cons.prems(2) St_Cancel by simp
    qed
  qed
qed

lemma finish_Ok:
  assumes inv: "run_inv r" and c: "rn_complete r"
  shows "\<exists>x. finish r = Ok \<lparr>sr_root_outcome = x, sr_totals = rn_totals r\<rparr>
     \<and> bm_get (rn_outcomes r) (sm_root (rn_model r)) = Some x"
proof -
  note p = inv[unfolded run_inv_def]
  have "sm_root (rn_model r) \<in> set (rn_exited r)" using p c unfolding complete_inv_def by blast
  moreover have "bm_get (rn_outcomes r) (sm_root (rn_model r)) \<noteq> None \<longleftrightarrow> sm_root (rn_model r) \<in> set (rn_exited r)"
    using p unfolding scope_inv_def by blast
  ultimately obtain x where "bm_get (rn_outcomes r) (sm_root (rn_model r)) = Some x" by blast
  then show ?thesis using p c authenticate_ok by (simp add: finish_def)
qed

end
