(* ===== verification/ScopedTotals.thy ===== *)
theory ScopedTotals
  imports ScopedSchedule
begin

text \<open>
  The bookkeeping of a scoped-task run (\<open>src/scoped_tasks.rs\<close>): the totals count the tasks by their
  phase, cancellation marks only grow, and what a step emits.
\<close>

section \<open>Counting phases\<close>

definition phase_count :: "st_run \<Rightarrow> task_state \<Rightarrow> nat" where
  "phase_count r x = card {t. task_phase r t = Some x}"

definition totals_inv :: "st_run \<Rightarrow> bool" where
  "totals_inv r \<longleftrightarrow>
     rt_completed (rn_totals r) = phase_count r Ts_Completed
     \<and> rt_failed (rn_totals r) = phase_count r Ts_Failed
     \<and> rt_cancelled (rn_totals r) = phase_count r Ts_Cancelled
     \<and> rt_started (rn_totals r) = phase_count r Ts_Started + phase_count r Ts_Completed + phase_count r Ts_Failed"

lemma finite_phase: "finite {t. task_phase r t = Some x}"
proof (rule finite_subset[OF _ finite_set])
  show "{t. task_phase r t = Some x} \<subseteq> set (bm_keys (rn_states r))"
    using bm_get_None_iff[of "rn_states r"] by (force simp: task_phase_def)
qed

lemma phase_count_change:
  assumes ph: "\<And>u. task_phase r' u = (if u = t then Some y else task_phase r u)"
    and t: "task_phase r t = Some x" and ne: "x \<noteq> y"
  shows "phase_count r' z = (if z = y then phase_count r y + 1
     else if z = x then phase_count r x - 1 else phase_count r z)"
    and "0 < phase_count r x"
proof -
  have "{u. task_phase r' u = Some z} =
      (if z = y then insert t {u. task_phase r u = Some y}
       else if z = x then {u. task_phase r u = Some x} - {t} else {u. task_phase r u = Some z})"
    using t ne by (auto simp: ph)
  then show "phase_count r' z = (if z = y then phase_count r y + 1
     else if z = x then phase_count r x - 1 else phase_count r z)"
    using t ne finite_phase[of r] by (auto simp: phase_count_def card_insert_if)
  have "{u. task_phase r u = Some x} \<noteq> {}" using t by auto
  then show "0 < phase_count r x" using finite_phase[of r x] by (simp add: phase_count_def card_gt_0_iff)
qed

lemma phase_count_same: "task_phase r' = task_phase r \<Longrightarrow> phase_count r' = phase_count r"
  by (simp add: phase_count_def fun_eq_iff)

lemma move_totals_inv:
  "st_move r ev r1 \<Longrightarrow> task_inv r \<Longrightarrow> totals_inv r \<Longrightarrow> totals_inv (conclude ev r1)"
proof (induction rule: st_move.induct)
  case (mv_complete r t e waits)
  let ?r = "conclude (Ev_Completed t) ((set_state t Ts_Completed (retire t r))\<lparr>rn_pending := waits\<rparr>)"
  have t: "task_phase r t = Some Ts_Started" using running_iff[OF mv_complete(5)] mv_complete(1) by blast
  have ph: "task_phase ?r u = (if u = t then Some Ts_Completed else task_phase r u)" for u
    by (simp add: conclude_fields run_simps phase_set_state t)
  show ?case using mv_complete(6) phase_count_change[OF ph t]
    by (simp add: totals_inv_def conclude_fields run_simps)
next
  case (mv_fail r t e failure)
  let ?r = "conclude (Ev_Failed t failure) (record_failure t (te_scope e) failure (set_state t Ts_Failed (retire t r)))"
  have t: "task_phase r t = Some Ts_Started" using running_iff[OF mv_fail(4)] mv_fail(1) by blast
  have ph: "task_phase ?r u = (if u = t then Some Ts_Failed else task_phase r u)" for u
    by (simp add: conclude_fields run_simps phase_set_state t)
  show ?case using mv_fail(5) phase_count_change[OF ph t]
    by (simp add: totals_inv_def conclude_fields run_simps)
next
  case (mv_announce r s)
  show ?case using mv_announce(5)
    by (simp add: totals_inv_def conclude_fields run_simps phase_count_def)
next
  case (mv_cancel r t)
  let ?r = "conclude (Ev_Cancelled t) (set_state t Ts_Cancelled r)"
  have ph: "task_phase ?r u = (if u = t then Some Ts_Cancelled else task_phase r u)" for u
    by (simp add: conclude_fields phase_set_state mv_cancel(2))
  show ?case using mv_cancel(5) phase_count_change[OF ph mv_cancel(2)]
    by (simp add: totals_inv_def conclude_fields run_simps)
next
  case (mv_start r t)
  let ?r = "conclude (Ev_Started t) ((set_state t Ts_Started r)\<lparr>rn_running := Some t\<rparr>)"
  have ph: "task_phase ?r u = (if u = t then Some Ts_Started else task_phase r u)" for u
    by (simp add: conclude_fields run_simps phase_set_state mv_start(2))
  show ?case using mv_start(7) phase_count_change[OF ph mv_start(2)]
    by (simp add: totals_inv_def conclude_fields run_simps)
next
  case (mv_abandon r t)
  let ?r = "conclude (Ev_Cancelled t) (set_state t Ts_Cancelled r)"
  have ph: "task_phase ?r u = (if u = t then Some Ts_Cancelled else task_phase r u)" for u
    by (simp add: conclude_fields phase_set_state mv_abandon(2))
  show ?case using mv_abandon(6) phase_count_change[OF ph mv_abandon(2)]
    by (simp add: totals_inv_def conclude_fields run_simps)
next
  case (mv_finalize r s t q)
  show ?case using mv_finalize(6)
    by (simp add: totals_inv_def conclude_fields run_simps phase_count_def)
next
  case (mv_exit r s)
  show ?case using mv_exit(6)
    by (simp add: totals_inv_def conclude_fields run_simps phase_count_def)
qed

definition counted_inv :: "st_run \<Rightarrow> bool" where
  "counted_inv r \<longleftrightarrow> run_inv r \<and> totals_inv r"

lemma step_totals: "counted_inv r \<Longrightarrow> counted_inv (snd (st_step r))"
  using st_step_progress[of r] step_run_inv[of r] move_totals_inv[of r]
  by (auto simp: counted_inv_def run_inv_def)

lemma cancel_totals:
  assumes "counted_inv r"
  shows "counted_inv (snd (cancel_scope s r))"
proof -
  have inv: "run_inv r" and fr: "frame_inv r" using assms by (auto simp: counted_inv_def run_inv_def)
  have "totals_inv (r\<lparr>rn_cancelled := m\<rparr>)" for m
    using assms by (simp add: counted_inv_def totals_inv_def phase_count_def run_simps)
  then have "totals_inv (snd (cancel_scope s r))"
    using cancel_scope_effect[OF fr, of s] assms by (auto simp: counted_inv_def)
  then show ?thesis using cancel_run_inv[OF inv] by (simp add: counted_inv_def)
qed

interpretation counted: invariant_machine st_call_step counted_inv
proof
  fix r c
  assume "counted_inv r"
  then show "counted_inv (st_call_step r c)" by (cases c) (simp_all add: step_totals cancel_totals)
qed

lemma prepare_counted:
  assumes "wf_model m" "prepare_run m = Ok r"
  shows "counted_inv r"
proof -
  have "rn_totals r = \<lparr>rt_started = 0, rt_completed = 0, rt_failed = 0, rt_cancelled = 0\<rparr>"
    and "rn_states r = fold (\<lambda>i. bm_insert i runtime_pending) (bm_keys (sm_tasks m)) bm_empty"
    using assms by (auto simp: prepare_run_def res_iff)
  moreover from this(2) have "task_phase r t = None \<or> task_phase r t = Some Ts_Pending" for t
    by (simp add: task_phase_def get_fold_insert runtime_pending_def)
  then have "task_phase r t \<noteq> Some x" if "x \<noteq> Ts_Pending" for t x
    using that by (metis option.distinct(1) option.inject)
  then have "phase_count r x = 0" if "x \<noteq> Ts_Pending" for x using that by (simp add: phase_count_def)
  ultimately show ?thesis using prepare_run_inv[OF assms] by (simp add: counted_inv_def totals_inv_def)
qed

text \<open>A complete run has settled every task.\<close>

lemma complete_settled:
  assumes inv: "run_inv r" and c: "rn_complete r" and t: "task_scope r t = Some s"
  shows "settled_task r t"
proof -
  note p = inv[unfolded run_inv_def]
  have fr: "frame_inv r" and sc: "scope_inv r" using p by blast+
  have root: "sm_root (rn_model r) \<in> set (rn_exited r)" using p c unfolding complete_inv_def by blast
  obtain e where "bm_get (run_scopes r) s = Some e" using task_scope_known(1)[OF fr t] by blast
  then have "above r (sm_root (rn_model r)) s"
    using root_in_lineage[OF wf_run_scopes[OF fr]] by (simp add: above_def)
  then have "s \<in> set (rn_exited r)" by (rule exited_subtree[OF fr sc root t])
  then show ?thesis using exited_settled[OF sc _ t] by blast
qed

lemma phase_partition:
  assumes fr: "frame_inv r"
  shows "length (sm_tasks (rn_model r)) = phase_count r Ts_Pending + phase_count r Ts_Started
     + phase_count r Ts_Completed + phase_count r Ts_Failed + phase_count r Ts_Cancelled"
proof -
  let ?P = "\<lambda>x. {t. task_phase r t = Some x}"
  have ok: "bm_ok (sm_tasks (rn_model r))" using fr by (simp add: frame_inv_def wf_model_def)
  have "t \<in> set (bm_keys (sm_tasks (rn_model r))) \<longleftrightarrow> task_phase r t \<noteq> None" for t
  proof -
    have "task_phase r t = None \<longleftrightarrow> bm_get (sm_tasks (rn_model r)) t = None"
      using fr unfolding frame_inv_def by blast
    then show ?thesis using bm_get_None_iff[of "sm_tasks (rn_model r)" t] by simp
  qed
  then have keys: "set (bm_keys (sm_tasks (rn_model r))) =
      ?P Ts_Pending \<union> (?P Ts_Started \<union> (?P Ts_Completed \<union> (?P Ts_Failed \<union> ?P Ts_Cancelled)))"
    by (auto; metis task_state.exhaust)
  have "length (sm_tasks (rn_model r)) = card (set (bm_keys (sm_tasks (rn_model r))))"
    using distinct_card[OF distinct_bm_keys[OF ok]] by (simp add: bm_keys_def)
  also have "\<dots> = phase_count r Ts_Pending + (phase_count r Ts_Started
     + (phase_count r Ts_Completed + (phase_count r Ts_Failed + phase_count r Ts_Cancelled)))"
    unfolding keys phase_count_def
    by (subst card_Un_disjoint, (auto simp: finite_phase)[3])+ simp
  finally show ?thesis by simp
qed

lemma complete_totals:
  assumes inv: "counted_inv r" and c: "rn_complete r"
  shows "rt_started (rn_totals r) = rt_completed (rn_totals r) + rt_failed (rn_totals r)
     \<and> rt_started (rn_totals r) + rt_cancelled (rn_totals r) = length (sm_tasks (rn_model r))"
proof -
  have ri: "run_inv r" and ti: "totals_inv r" using inv by (auto simp: counted_inv_def)
  have fr: "frame_inv r" using ri by (simp add: run_inv_def)
  have "task_phase r t \<noteq> Some Ts_Pending \<and> task_phase r t \<noteq> Some Ts_Started" for t
  proof (cases "task_phase r t")
    case (Some x)
    obtain e where "bm_get (sm_tasks (rn_model r)) t = Some e" by (rule known_task[OF fr Some])
    then have "task_scope r t = Some (te_scope e)" by (simp add: task_scope_def)
    from settled_not_waiting[OF complete_settled[OF ri c this]] show ?thesis .
  qed simp
  then have "phase_count r Ts_Pending = 0" "phase_count r Ts_Started = 0" by (simp_all add: phase_count_def)
  then show ?thesis using ti phase_partition[OF fr] by (simp add: totals_inv_def)
qed

section \<open>What a schedule emits\<close>

lemma in_cancelled_iff:
  "task_in_cancelled_scope r t \<longleftrightarrow> (\<exists>c s. task_scope r t = Some c \<and> s \<in> set (rn_cancelled r) \<and> above r s c)"
  by (auto simp: task_in_cancelled_scope_def above_def list_ex_iff bs_contains_def split: option.splits)

inductive_cases started_move: "st_move r (Ev_Started t) r1"

lemma cancelled_schedule:
  "run_inv r \<Longrightarrow> s \<in> set (rn_cancelled r) \<Longrightarrow>
     \<exists>evs. rn_events (foldl st_call_step r cs) = rn_events r @ evs
       \<and> (\<forall>t c. Ev_Started t \<in> set evs \<longrightarrow> task_scope r t = Some c \<longrightarrow> \<not> above r s c)"
proof (induction cs arbitrary: r)
  case (Cons x cs)
  let ?r = "st_call_step r x"
  have inv: "run_inv ?r" by (rule scoped.inv_step[OF Cons.prems(1)])
  have m: "rn_model ?r = rn_model r" by (rule call_model[OF Cons.prems(1)])
  have fr: "frame_inv r" using Cons.prems(1) by (simp add: run_inv_def)
  have head: "s \<in> set (rn_cancelled ?r) \<and> (\<exists>evs. rn_events ?r = rn_events r @ evs
      \<and> (\<forall>t c. Ev_Started t \<in> set evs \<longrightarrow> task_scope r t = Some c \<longrightarrow> \<not> above r s c))"
  proof (cases x)
    case St_Step
    consider "?r = r" | ev r1 where "st_move r ev r1" "?r = conclude ev r1"
      using st_step_progress[OF Cons.prems(1)] St_Step by auto
    then show ?thesis
    proof cases
      case 1
      then show ?thesis using Cons.prems(2) by simp
    next
      case (2 ev r1)
      have "\<not> above r s c" if "ev = Ev_Started t" "task_scope r t = Some c" for t c
      proof -
        have "\<not> task_in_cancelled_scope r t" using 2(1) that(1) by (auto elim: started_move)
        then show ?thesis using that(2) Cons.prems(2) by (simp add: in_cancelled_iff)
      qed
      moreover have "rn_events r1 = rn_events r" using 2(1) by (induction rule: st_move.induct) (simp_all add: run_simps)
      ultimately show ?thesis using 2 move_cancelled[OF 2(1)] Cons.prems(2) by (auto simp: conclude_fields)
    qed
  next
    case (St_Cancel a)
    then show ?thesis using cancel_scope_effect[OF fr, of a] Cons.prems(2) by auto
  qed
  then obtain evs where e: "rn_events ?r = rn_events r @ evs" "s \<in> set (rn_cancelled ?r)"
      "\<forall>t c. Ev_Started t \<in> set evs \<longrightarrow> task_scope r t = Some c \<longrightarrow> \<not> above r s c" by blast
  obtain evs' where e': "rn_events (foldl st_call_step ?r cs) = rn_events ?r @ evs'"
      "\<forall>t c. Ev_Started t \<in> set evs' \<longrightarrow> task_scope ?r t = Some c \<longrightarrow> \<not> above ?r s c"
    using Cons.IH[OF inv e(2)] by blast
  show ?case
    by (rule exI[of _ "evs @ evs'"])
      (use e e' in \<open>auto simp: task_scope_same[OF m] above_same[OF m]\<close>)
qed simp

section \<open>The order of finalizers\<close>

lemma keep_max_greatest:
  assumes "\<And>a b. le a b \<or> le b a" "\<And>a b c. le a b \<Longrightarrow> le b c \<Longrightarrow> le a c"
  shows "fold (keep_max le) xs (Some y) = Some z \<Longrightarrow> le y z \<and> (\<forall>x \<in> set xs. le x z)"
proof (induction xs arbitrary: y)
  case Nil
  then show ?case using assms(1)[of y y] by simp
next
  case (Cons x xs)
  show ?case
  proof (cases "le y x")
    case True
    then have "le x z \<and> (\<forall>x \<in> set xs. le x z)" using Cons.IH[of x] Cons.prems by simp
    then show ?thesis using True assms(2)[of y x z] by simp
  next
    case False
    then have "le y z \<and> (\<forall>x \<in> set xs. le x z)" using Cons.IH[of y] Cons.prems by simp
    then show ?thesis using False assms(1)[of x y] assms(2)[of x y z] by simp
  qed
qed

lemma max_by_greatest:
  assumes "\<And>a b. le a b \<or> le b a" "\<And>a b c. le a b \<Longrightarrow> le b c \<Longrightarrow> le a c"
    and "max_by le xs = Some z" "x \<in> set xs"
  shows "le x z"
  using assms(3,4) keep_max_greatest[of le "tl xs" "hd xs" z, OF assms(1,2)]
  by (cases xs) (auto simp: max_by_def)

definition completion_number :: "st_run \<Rightarrow> decl_id \<Rightarrow> nat" where
  "completion_number r t =
     (case Option.bind (bm_get (rn_states r) t) tr_seq of None \<Rightarrow> 0 | Some n \<Rightarrow> n)"

lemma unfinalized_iff:
  assumes fr: "frame_inv r"
  shows "(t, q) \<in> set (unfinalized_ran_tasks r s) \<longleftrightarrow>
     task_phase r t \<in> {Some Ts_Completed, Some Ts_Failed} \<and> t \<notin> set (rn_finalized r)
     \<and> task_scope r t = Some s \<and> q = completion_number r t"
proof -
  have ok: "bm_ok (rn_states r)" using fr by (simp add: frame_inv_def)
  have member: "(t, q) \<in> set (unfinalized_ran_tasks r s) \<longleftrightarrow> (\<exists>x. (t, x) \<in> set (rn_states r)
      \<and> (tr_state x = Ts_Completed \<or> tr_state x = Ts_Failed) \<and> t \<notin> set (rn_finalized r)
      \<and> task_scope r t = Some s \<and> q = (case tr_seq x of None \<Rightarrow> 0 | Some n \<Rightarrow> n))"
    by (auto simp: unfinalized_ran_tasks_def bs_contains_def)
  show ?thesis
  proof (cases "bm_get (rn_states r) t")
    case None
    then have "(t, x) \<notin> set (rn_states r)" for x using bm_get_iff[OF ok, of t x] by simp
    then show ?thesis using None member by (simp add: task_phase_def)
  next
    case (Some y)
    then have "(t, x) \<in> set (rn_states r) \<longleftrightarrow> x = y" for x using bm_get_iff[OF ok, of t x] by auto
    then show ?thesis using Some member by (auto simp: task_phase_def completion_number_def)
  qed
qed

end
