(* ===== verification/ScopedClaims.thy ===== *)
theory ScopedClaims
  imports ScopedTotals
begin

text \<open>
  What a scoped-task run (\<open>src/scoped_tasks.rs\<close>) promises, for every accepted model and every
  interleaving of \<open>step\<close> and \<open>cancel_scope\<close>.
\<close>

section \<open>Runs of an accepted model\<close>

definition schedule :: "scoped_task_model \<Rightarrow> st_call list \<Rightarrow> st_run st_res" where
  "schedule m cs = res_bind (prepare_run m) (\<lambda>r. Ok (foldl st_call_step r cs))"

lemma schedule_reaches:
  assumes "try_new sha256 ss ts es js = Ok m" "schedule m cs = Ok r"
  shows "counted_inv r" and "rn_model r = m"
proof -
  have wf: "wf_model m" by (rule try_new_wf[OF assms(1)])
  obtain r0 where r0: "prepare_run m = Ok r0" "r = foldl st_call_step r0 cs"
    using assms(2) by (auto simp: schedule_def res_iff)
  have inv: "counted_inv r0" by (rule prepare_counted[OF wf r0(1)])
  then show "counted_inv r" unfolding r0(2) by (rule counted.inv_run)
  have m: "rn_model (foldl st_call_step q cs) = rn_model q" if "counted_inv q" for q
    using that
  proof (induction cs arbitrary: q)
    case (Cons c cs)
    have "rn_model (st_call_step q c) = rn_model q"
      using Cons.prems call_model by (simp add: counted_inv_def)
    then show ?case using Cons.IH[OF counted.inv_step[OF Cons.prems]] by simp
  qed simp
  have "rn_model r0 = m" using r0(1) by (auto simp: prepare_run_def res_iff)
  then show "rn_model r = m" using m[OF inv] r0(2) by simp
qed

lemma schedule_run_inv:
  "try_new sha256 ss ts es js = Ok m \<Longrightarrow> schedule m cs = Ok r \<Longrightarrow> run_inv r"
  using schedule_reaches(1) by (simp add: counted_inv_def)

lemma schedule_Ok:
  assumes "try_new sha256 ss ts es js = Ok m"
  shows "\<exists>r. schedule m cs = Ok r"
  using prepare_run_Ok[OF try_new_wf[OF assms]] by (auto simp: schedule_def)

section \<open>What the root ends with\<close>

text \<open>The first failure of a trace.\<close>

fun first_failed :: "task_event list \<Rightarrow> (decl_id \<times> failure_kind) option" where
  "first_failed [] = None"
| "first_failed (Ev_Failed t f # evs) = Some (t, f)"
| "first_failed (_ # evs) = first_failed evs"

lemma first_failed_append:
  "first_failed (xs @ ys) = (case first_failed xs of None \<Rightarrow> first_failed ys | Some x \<Rightarrow> Some x)"
  by (induction xs rule: first_failed.induct) simp_all

text \<open>What a root with this trace deserves.\<close>

definition root_verdict :: "st_run \<Rightarrow> scope_exit_outcome" where
  "root_verdict r =
     (case first_failed (rn_events r) of
        Some (t, f) \<Rightarrow> Ex_Failed t f
      | None \<Rightarrow> if sm_root (rn_model r) \<in> set (rn_cancelled r) then Ex_Cancelled else Ex_Success)"

definition verdict_inv :: "st_run \<Rightarrow> bool" where
  "verdict_inv r \<longleftrightarrow> run_inv r \<and> first_failure r (sm_root (rn_model r)) = first_failed (rn_events r)
     \<and> (rn_complete r \<longrightarrow> bm_get (rn_outcomes r) (sm_root (rn_model r)) = Some (root_verdict r))"

lemma move_first_failed:
  "st_move r ev r1 \<Longrightarrow> frame_inv r \<Longrightarrow> first_failure r (sm_root (rn_model r)) = first_failed (rn_events r) \<Longrightarrow>
     first_failure r1 (sm_root (rn_model r)) = first_failed (rn_events r @ [ev])"
proof (induction rule: st_move.induct)
  case (mv_fail r t e failure)
  have "task_scope r t = Some (te_scope e)" using mv_fail(2) by (simp add: task_scope_def)
  then obtain se where "bm_get (run_scopes r) (te_scope e) = Some se"
    using task_scope_known(1)[OF mv_fail(4)] by blast
  then have "above r (sm_root (rn_model r)) (te_scope e)"
    using root_in_lineage[OF wf_run_scopes[OF mv_fail(4)]] by (simp add: above_def)
  then show ?case using mv_fail(5) unfolding first_failure_record
    by (simp add: first_failure_def first_failed_append above_def run_simps split: option.split)
qed (simp_all add: first_failure_def first_failed_append run_simps split: option.split)

lemma move_events: "st_move r ev r1 \<Longrightarrow> rn_events r1 = rn_events r"
  by (induction rule: st_move.induct) (simp_all add: run_simps)

inductive_cases exited_move: "st_move r (Ev_ScopeExited s x) r1"

lemma move_verdict:
  assumes mv: "st_move r ev r1" and inv: "verdict_inv r" and unf: "\<not> rn_complete r"
  shows "verdict_inv (conclude ev r1)"
proof -
  have ri: "run_inv r" and fr: "frame_inv r" and ff: "first_failure r (sm_root (rn_model r)) = first_failed (rn_events r)"
    using inv by (auto simp: verdict_inv_def run_inv_def)
  have m: "rn_model r1 = rn_model r" by (rule move_model[OF mv])
  have out: "bm_get (rn_outcomes r1) (sm_root (rn_model r)) = Some (root_verdict (conclude ev r1))"
    if c: "rn_complete (conclude ev r1)"
  proof -
    obtain x where "ev = Ev_ScopeExited (sm_root (rn_model r)) x"
      using c unf move_exited[OF mv] m by (auto simp: conclude_complete)
    then show ?thesis using mv ff
      by (auto elim!: exited_move simp: root_verdict_def conclude_fields first_failed_append scope_exit_outcome_for_def
          first_failure_def bs_contains_def split: option.splits)
  qed
  have "first_failure (conclude ev r1) (sm_root (rn_model r)) = first_failed (rn_events r @ [ev])"
    using move_first_failed[OF mv fr ff] by (simp add: first_failure_def conclude_fields)
  then show ?thesis
    using move_run_inv[OF mv ri] out by (simp add: verdict_inv_def conclude_fields m move_events[OF mv])
qed

lemma step_verdict:
  assumes "verdict_inv r"
  shows "verdict_inv (snd (st_step r))"
proof -
  have "run_inv r" using assms by (simp add: verdict_inv_def)
  from st_step_progress[OF this] assms move_verdict[OF _ assms] show ?thesis by auto
qed

lemma cancel_verdict:
  assumes "verdict_inv r"
  shows "verdict_inv (snd (cancel_scope s r))"
proof -
  have ri: "run_inv r" using assms by (simp add: verdict_inv_def)
  have fr: "frame_inv r" using ri by (simp add: run_inv_def)
  show ?thesis
  proof (cases "rn_complete r")
    case True
    then show ?thesis using assms by (simp add: cancel_scope_def authenticate_ok[OF fr])
  next
    case False
    have "r = r\<lparr>rn_cancelled := rn_cancelled r\<rparr>" by simp
    then obtain m where m: "snd (cancel_scope s r) = r\<lparr>rn_cancelled := m\<rparr>" using cancel_scope_effect[OF fr, of s] by metis
    show ?thesis using assms cancel_run_inv[OF ri, of s] False unfolding m
      by (simp add: verdict_inv_def first_failure_def)
  qed
qed

interpretation verdict: invariant_machine st_call_step verdict_inv
proof
  fix r c
  assume "verdict_inv r"
  then show "verdict_inv (st_call_step r c)" by (cases c) (simp_all add: step_verdict cancel_verdict)
qed

lemma prepare_verdict:
  assumes "wf_model m" "prepare_run m = Ok r"
  shows "verdict_inv r"
proof -
  have "rn_failures r = bm_empty" "rn_events r = []" "\<not> rn_complete r"
    using assms by (auto simp: prepare_run_def res_iff)
  then show ?thesis using prepare_run_inv[OF assms] by (simp add: verdict_inv_def first_failure_def)
qed

lemma schedule_verdict:
  assumes "try_new sha256 ss ts es js = Ok m" "schedule m cs = Ok r"
  shows "verdict_inv r"
  using prepare_verdict[OF try_new_wf[OF assms(1)]] verdict.inv_run assms(2) by (auto simp: schedule_def res_iff)

section \<open>Properties\<close>

text \<open>
  C30: in every run of an accepted model, a task that was started (still running, completed or
  failed) has all its prerequisites completed.
\<close>
theorem scoped_dependencies_respected:
  assumes "try_new sha256 ss ts es js = Ok m" "schedule m cs = Ok r"
    and "(p, t) \<in> set (sm_dependencies m)"
    and "task_phase r t \<in> {Some Ts_Started, Some Ts_Completed, Some Ts_Failed}"
  shows "task_phase r p = Some Ts_Completed"
proof -
  have "task_inv r" using schedule_run_inv[OF assms(1,2)] by (simp add: run_inv_def)
  then show ?thesis
    using assms(3,4) schedule_reaches(2)[OF assms(1,2)]
    by (intro prerequisites_done) (simp_all add: run_edges_def has_run_def)
qed

text \<open>
  C8: structured concurrency.  In every run of an accepted model, once a scope has exited, every
  scope below it has exited and every task of its subtree is settled: cancelled, or finished and
  finalized.  Nothing outlives its scope.
\<close>
theorem scoped_exit_leaves_nothing:
  assumes "try_new sha256 ss ts es js = Ok m" "schedule m cs = Ok r"
    and "s \<in> set (rn_exited r)" "task_scope r t = Some c" "above r s c"
  shows "c \<in> set (rn_exited r) \<and> settled_task r t"
proof -
  have "frame_inv r" "scope_inv r" using schedule_run_inv[OF assms(1,2)] by (simp_all add: run_inv_def)
  then show ?thesis using exited_subtree[OF _ _ assms(3-5)] exited_settled[OF _ _ assms(4)] by blast
qed

text \<open>
  \<open>step\<close> never fails, never panics and never gives up: in every run of an accepted model it
  emits an event until the root scope exits, and afterwards it is quiescent.
\<close>
theorem scoped_step_never_stuck:
  assumes "try_new sha256 ss ts es js = Ok m" "schedule m cs = Ok r"
  shows "if rn_complete r then st_step r = (Ok None, r) \<and> sm_root m \<in> set (rn_exited r)
     else \<exists>ev r'. st_step r = (Ok (Some ev), r')"
proof -
  have inv: "run_inv r" by (rule schedule_run_inv[OF assms])
  then have "rn_complete r \<longleftrightarrow> sm_root m \<in> set (rn_exited r)"
    using schedule_reaches(2)[OF assms] by (simp add: run_inv_def complete_inv_def)
  then show ?thesis using st_step_progress[OF inv] by auto
qed

text \<open>
  C6: every schedule of an accepted model that has at least three steps per task and two per scope,
  with cancellations anywhere between them, completes; \<open>finish\<close> then returns its summary, whose
  totals account for every declared task exactly once.
\<close>
theorem scoped_schedule_finishes:
  assumes "try_new sha256 ss ts es js = Ok m"
    and "3 * length (sm_tasks m) + 2 * length (sm_scopes m) \<le> length (filter (\<lambda>c. c = St_Step) cs)"
  shows "\<exists>r s. schedule m cs = Ok r \<and> finish r = Ok s
     \<and> rt_started (sr_totals s) = rt_completed (sr_totals s) + rt_failed (sr_totals s)
     \<and> rt_started (sr_totals s) + rt_cancelled (sr_totals s) = length (sm_tasks m)"
proof -
  have wf: "wf_model m" by (rule try_new_wf[OF assms(1)])
  obtain r0 where r0: "prepare_run m = Ok r0" using prepare_run_Ok[OF wf] by blast
  let ?r = "foldl st_call_step r0 cs"
  have sch: "schedule m cs = Ok ?r" by (simp add: schedule_def r0)
  have m0: "rn_model r0 = m" using r0 by (auto simp: prepare_run_def res_iff)
  have c: "rn_complete ?r"
    using schedule_completes[OF prepare_run_inv[OF wf r0]] work_bound[of r0] assms(2) m0 by simp
  note inv = schedule_reaches[OF assms(1) sch]
  have "run_inv ?r" using inv(1) by (simp add: counted_inv_def)
  from finish_Ok[OF this c] obtain x where
    "finish ?r = Ok \<lparr>sr_root_outcome = x, sr_totals = rn_totals ?r\<rparr>" by blast
  then show ?thesis using sch complete_totals[OF inv(1) c] inv(2) by (intro exI) auto
qed

text \<open>
  C25: the summary tells the truth.  When \<open>finish\<close> returns for a run of an accepted model, the root outcome is
  the first failure of the trace, of whatever scope; without a failure it is a cancellation exactly when
  the root is marked as cancelled, and a success otherwise.  A named failure is the one its task's declaration
  prescribes, and the named task has failed; otherwise no task has failed.
\<close>
theorem scoped_outcome_exact:
  assumes "try_new sha256 ss ts es js = Ok m" "schedule m cs = Ok r" "finish r = Ok s"
  shows "sr_root_outcome s =
       (case first_failed (rn_events r) of
          Some (t, f) \<Rightarrow> Ex_Failed t f
        | None \<Rightarrow> if sm_root m \<in> set (rn_cancelled r) then Ex_Cancelled else Ex_Success)
   \<and> (case sr_root_outcome s of
       Ex_Failed t f \<Rightarrow> task_phase r t = Some Ts_Failed \<and> declared_failure r t = Some f
     | Ex_Cancelled \<Rightarrow> bs_contains (rn_cancelled r) (sm_root m) \<and> (\<forall>t. task_phase r t \<noteq> Some Ts_Failed)
     | Ex_Success \<Rightarrow> \<not> bs_contains (rn_cancelled r) (sm_root m) \<and> (\<forall>t. task_phase r t \<noteq> Some Ts_Failed))"
proof -
  have m: "rn_model r = m" by (rule schedule_reaches(2)[OF assms(1,2)])
  have inv: "run_inv r" by (rule schedule_run_inv[OF assms(1,2)])
  note p = inv[unfolded run_inv_def]
  have fr: "frame_inv r" and fi: "failure_inv r" and oi: "outcome_inv r" using p by blast+
  have c: "rn_complete r" using assms(3) by (auto simp: finish_def res_iff split: if_splits)
  from finish_Ok[OF inv this] have x: "bm_get (rn_outcomes r) (sm_root m) = Some (sr_root_outcome s)"
    using assms(3) m by auto
  have out: "case sr_root_outcome s of
       Ex_Failed t f \<Rightarrow> first_failure r (sm_root m) = Some (t, f)
     | Ex_Cancelled \<Rightarrow> first_failure r (sm_root m) = None \<and> bs_contains (rn_cancelled r) (sm_root m)
     | Ex_Success \<Rightarrow> first_failure r (sm_root m) = None"
    using oi x unfolding outcome_inv_def by blast
  have ff: "case first_failure r (sm_root m) of None \<Rightarrow> \<forall>t. \<not> failed_under r (sm_root m) t
      | Some (t, f) \<Rightarrow> failed_under r (sm_root m) t \<and> declared_failure r t = Some f"
    using fi unfolding failure_inv_def by blast
  have under: "failed_under r (sm_root m) t" if t: "task_phase r t = Some Ts_Failed" for t
  proof -
    obtain e where e: "bm_get (sm_tasks (rn_model r)) t = Some e" by (rule known_task[OF fr t])
    then have sc: "task_scope r t = Some (te_scope e)" by (simp add: task_scope_def)
    obtain se where "bm_get (run_scopes r) (te_scope e) = Some se" using task_scope_known(1)[OF fr sc] by blast
    then have "above r (sm_root m) (te_scope e)"
      using root_in_lineage[OF wf_run_scopes[OF fr]] m by (simp add: above_def)
    then show ?thesis using t sc by (auto simp: failed_under_def)
  qed
  have verdict: "sr_root_outcome s = root_verdict r"
    using schedule_verdict[OF assms(1,2)] c x m by (simp add: verdict_inv_def)
  then have "\<not> bs_contains (rn_cancelled r) (sm_root m)" if "sr_root_outcome s = Ex_Success"
    using that m by (auto simp: root_verdict_def bs_contains_def split: option.splits if_splits)
  then have "case sr_root_outcome s of
       Ex_Failed t f \<Rightarrow> task_phase r t = Some Ts_Failed \<and> declared_failure r t = Some f
     | Ex_Cancelled \<Rightarrow> bs_contains (rn_cancelled r) (sm_root m) \<and> (\<forall>t. task_phase r t \<noteq> Some Ts_Failed)
     | Ex_Success \<Rightarrow> \<not> bs_contains (rn_cancelled r) (sm_root m) \<and> (\<forall>t. task_phase r t \<noteq> Some Ts_Failed)"
  proof (cases "sr_root_outcome s")
    case (Ex_Failed t f)
    then show ?thesis using out ff by (simp add: failed_under_def)
  qed (use out ff under in auto)
  then show ?thesis using verdict m by (simp add: root_verdict_def)
qed

text \<open>
  C28: cancellation is sticky and covers the subtree.  After \<open>cancel_scope\<close> has accepted a scope,
  whatever is called next, no task of that scope or of a scope below it starts any more.
\<close>
theorem cancelled_scope_starts_nothing:
  assumes "try_new sha256 ss ts es js = Ok m" "schedule m cs = Ok r"
    and "cancel_scope s r = (Ok b, r1)" "r2 = foldl st_call_step r1 ds"
    and "task_scope r t = Some c" "above r s c"
  shows "Ev_Started t \<notin> set (drop (length (rn_events r)) (rn_events r2))"
proof -
  have inv: "run_inv r" by (rule schedule_run_inv[OF assms(1,2)])
  have fr: "frame_inv r" using inv by (simp add: run_inv_def)
  have r1: "r1 = snd (cancel_scope s r)" using assms(3) by simp
  have "\<not> rn_complete r" and known: "bm_contains (run_scopes r) s"
    using assms(3) authenticate_ok[OF fr] by (auto simp: cancel_scope_def split: if_splits)
  obtain b' m' where "fold (\<lambda>c (i, m). (i \<or> \<not> bs_contains m c, bs_insert c m)) (descendants_including r s)
      (False, rn_cancelled r) = (b', m')" by fastforce
  note f = this cancel_fold[OF this]
  have r1': "r1 = r\<lparr>rn_cancelled := m'\<rparr>"
    using assms(3) authenticate_ok[OF fr] f(1) \<open>\<not> rn_complete r\<close> known by (auto simp: cancel_scope_def)
  have "s \<in> set (rn_cancelled r1)"
    using descendants_scopes(1)[OF fr, of s] known f(2) r1' by (simp add: bm_contains_def)
  moreover have "run_inv r1" using cancel_run_inv[OF inv] r1 by simp
  ultimately obtain evs where "rn_events r2 = rn_events r1 @ evs"
      "\<forall>t c. Ev_Started t \<in> set evs \<longrightarrow> task_scope r1 t = Some c \<longrightarrow> \<not> above r1 s c"
    using cancelled_schedule[of r1 s ds] assms(4) by blast
  then show ?thesis using assms(5,6) r1' by (auto simp: task_scope_def above_def)
qed

inductive_cases finalized_move: "st_move r (Ev_Finalized t) r1"

text \<open>
  finalizers run in reverse completion order.  When \<open>step\<close> finalizes a task, no other finished
  and not yet finalized task of the same scope completed after it.
\<close>
theorem finalizers_reverse_completion:
  assumes "try_new sha256 ss ts es js = Ok m" "schedule m cs = Ok r"
    and "st_step r = (Ok (Some (Ev_Finalized t)), r')"
    and "task_scope r u = task_scope r t" "task_phase r u \<in> {Some Ts_Completed, Some Ts_Failed}"
    and "u \<notin> set (rn_finalized r)"
  shows "completion_number r u \<le> completion_number r t"
proof -
  have inv: "run_inv r" by (rule schedule_run_inv[OF assms(1,2)])
  have fr: "frame_inv r" using inv by (simp add: run_inv_def)
  obtain r1 where "st_move r (Ev_Finalized t) r1" using st_step_progress[OF inv] assms(3) by auto
  then obtain s q where mx: "max_by (\<lambda>a b. snd a \<le> snd b) (unfinalized_ran_tasks r s) = Some (t, q)"
    by (elim finalized_move) blast
  then have t: "task_scope r t = Some s" "q = completion_number r t"
    using max_by_in[OF mx] unfinalized_iff[OF fr] by auto
  then have "(u, completion_number r u) \<in> set (unfinalized_ran_tasks r s)"
    using assms(4-6) unfinalized_iff[OF fr] by simp
  from max_by_greatest[OF _ _ mx this] have "completion_number r u \<le> q" using nat_le_linear by fastforce
  then show ?thesis using t(2) by simp
qed

end
