(* ===== verification/ScopedDemo.thy ===== *)
theory ScopedDemo
  imports ScopedClaims
begin

text \<open>
  Concrete scoped-task models and their runs, and with them the instances of the properties of
  \<open>ScopedModel\<close> and \<open>ScopedClaims\<close>.  The digest parameter is instantiated by the first 32 bytes.
\<close>

section \<open>Models\<close>

definition demo_hash :: "string \<Rightarrow> string" where
  "demo_hash bytes = take 32 bytes"

definition demo_task :: "decl_id \<Rightarrow> decl_id \<Rightarrow> task_outcome \<Rightarrow> task_spec" where
  "demo_task i s x = \<lparr>tsp_id = i, tsp_scope = s, tsp_sendable = Sendable, tsp_shareable = NotShareable, tsp_outcome = x\<rparr>"

definition demo_entry :: "decl_id \<Rightarrow> task_outcome \<Rightarrow> task_entry" where
  "demo_entry s x = \<lparr>te_scope = s, te_sendable = Sendable, te_shareable = NotShareable, te_outcome = x\<rparr>"

definition demo_root :: scope_spec where "demo_root = \<lparr>ss_id = ''r'', ss_parent = None\<rparr>"

text \<open>A child scope whose task waits for one of the root.\<close>

definition nested :: scoped_task_model where
  "nested =
     \<lparr>sm_schema = ''semaprax.scoped-tasks-model.v1'', sm_root = ''r'',
      sm_scopes = [(''c'', \<lparr>se_parent = Some ''r'', se_depth = 1\<rparr>), (''r'', \<lparr>se_parent = None, se_depth = 0\<rparr>)],
      sm_tasks = [(''a'', demo_entry ''r'' Succeed), (''b'', demo_entry ''c'' (Fail (Physical 7)))],
      sm_dependencies = [(''a'', ''b'')], sm_joins = [(''c'', ''r'')], sm_children = [(''r'', [''c''])],
      sm_fingerprint = ''semaprax.scoped-tasks-model-fing''\<rparr>"

definition nested_built :: "scoped_task_model st_res" where
  "nested_built = try_new demo_hash [demo_root, \<lparr>ss_id = ''c'', ss_parent = Some ''r''\<rparr>]
     [demo_task ''a'' ''r'' Succeed, demo_task ''b'' ''c'' (Fail (Physical 7))]
     [\<lparr>de_prerequisite = ''a'', de_dependent = ''b''\<rparr>] [\<lparr>sj_waiter = ''r'', sj_target = ''c''\<rparr>]"

lemma nested_Ok: "nested_built = Ok nested"
  by code_simp

lemmas nested_new = nested_Ok[unfolded nested_built_def]

text \<open>Two independent tasks of the root.\<close>

definition pair_model :: scoped_task_model where
  "pair_model =
     \<lparr>sm_schema = ''semaprax.scoped-tasks-model.v1'', sm_root = ''r'',
      sm_scopes = [(''r'', \<lparr>se_parent = None, se_depth = 0\<rparr>)],
      sm_tasks = [(''a'', demo_entry ''r'' Succeed), (''b'', demo_entry ''r'' Succeed)],
      sm_dependencies = [], sm_joins = [], sm_children = [],
      sm_fingerprint = ''semaprax.scoped-tasks-model-fing''\<rparr>"

definition pair_built :: "scoped_task_model st_res" where
  "pair_built = try_new demo_hash [demo_root] [demo_task ''a'' ''r'' Succeed, demo_task ''b'' ''r'' Succeed] [] []"

lemma pair_Ok: "pair_built = Ok pair_model"
  by code_simp

lemmas pair_new = pair_Ok[unfolded pair_built_def]

text \<open>One task that fails.\<close>

definition solo :: scoped_task_model where
  "solo =
     \<lparr>sm_schema = ''semaprax.scoped-tasks-model.v1'', sm_root = ''r'',
      sm_scopes = [(''r'', \<lparr>se_parent = None, se_depth = 0\<rparr>)],
      sm_tasks = [(''a'', demo_entry ''r'' (Fail Semantic))],
      sm_dependencies = [], sm_joins = [], sm_children = [],
      sm_fingerprint = ''semaprax.scoped-tasks-model-fing''\<rparr>"

definition solo_built :: "scoped_task_model st_res" where
  "solo_built = try_new demo_hash [demo_root] [demo_task ''a'' ''r'' (Fail Semantic)] [] []"

lemma solo_Ok: "solo_built = Ok solo"
  by code_simp

lemmas solo_new = solo_Ok[unfolded solo_built_def]

theorem try_new_certifies_witness: "nested_built = Ok nested \<and> wf_model nested"
  using nested_Ok try_new_certifies[OF nested_new] by blast

section \<open>Runs\<close>

definition demo_check :: "scoped_task_model \<Rightarrow> nat \<Rightarrow> (st_run \<Rightarrow> bool) \<Rightarrow> bool" where
  "demo_check m n P = (case schedule m (replicate n St_Step) of Ok r \<Rightarrow> P r | Err e \<Rightarrow> False | Panic \<Rightarrow> False)"

lemma demo_checked:
  assumes "demo_check m n P"
  obtains r where "schedule m (replicate n St_Step) = Ok r" "P r"
  using assms by (auto simp: demo_check_def split: res.splits)

lemma nested_third: "demo_check nested 3 (\<lambda>r. task_phase r ''b'' = Some Ts_Started)"
  by code_simp

theorem scoped_dependencies_respected_witness:
  "\<exists>r. schedule nested (replicate 3 St_Step) = Ok r \<and> task_phase r ''b'' = Some Ts_Started
     \<and> task_phase r ''a'' = Some Ts_Completed"
proof -
  obtain r where r: "schedule nested (replicate 3 St_Step) = Ok r" "task_phase r ''b'' = Some Ts_Started"
    by (rule demo_checked[OF nested_third])
  have "(''a'', ''b'') \<in> set (sm_dependencies nested)" by (simp add: nested_def)
  from scoped_dependencies_respected[OF nested_new r(1) this] r show ?thesis by simp
qed

lemma solo_last: "demo_check solo 4 (\<lambda>r. bs_contains (rn_exited r) ''r'' \<and> task_scope r ''a'' = Some ''r''
     \<and> bs_contains (scope_lineage (sm_scopes (rn_model r)) ''r'') ''r''
     \<and> finish r = Ok \<lparr>sr_root_outcome = Ex_Failed ''a'' Semantic,
          sr_totals = \<lparr>rt_started = 1, rt_completed = 0, rt_failed = 1, rt_cancelled = 0\<rparr>\<rparr>)"
  by code_simp

theorem scoped_exit_leaves_nothing_witness:
  "\<exists>r. schedule solo (replicate 4 St_Step) = Ok r \<and> ''r'' \<in> set (rn_exited r) \<and> settled_task r ''a''"
proof -
  obtain r where r: "schedule solo (replicate 4 St_Step) = Ok r" and
    "bs_contains (rn_exited r) ''r'' \<and> task_scope r ''a'' = Some ''r''
     \<and> bs_contains (scope_lineage (sm_scopes (rn_model r)) ''r'') ''r''"
    by (rule demo_checked[OF solo_last]) blast
  then have "''r'' \<in> set (rn_exited r)" "task_scope r ''a'' = Some ''r''" "above r ''r'' ''r''"
    by (simp_all add: bs_contains_def above_def)
  from scoped_exit_leaves_nothing[OF solo_new r this] r show ?thesis by blast
qed

theorem scoped_step_never_stuck_witness:
  "\<exists>r. schedule nested [] = Ok r \<and> (if rn_complete r then st_step r = (Ok None, r) \<and> sm_root nested \<in> set (rn_exited r)
     else \<exists>ev r'. st_step r = (Ok (Some ev), r'))"
proof -
  obtain r where "schedule nested [] = Ok r" using schedule_Ok[OF nested_new] by blast
  with scoped_step_never_stuck[OF nested_new this] show ?thesis by blast
qed

theorem scoped_schedule_finishes_witness:
  "\<exists>r s. schedule nested (St_Cancel ''c'' # replicate 10 St_Step) = Ok r \<and> finish r = Ok s
     \<and> rt_started (sr_totals s) = rt_completed (sr_totals s) + rt_failed (sr_totals s)
     \<and> rt_started (sr_totals s) + rt_cancelled (sr_totals s) = length (sm_tasks nested)"
  by (rule scoped_schedule_finishes[OF nested_new]) (simp add: nested_def)

theorem scoped_outcome_exact_witness:
  "\<exists>r. schedule solo (replicate 4 St_Step) = Ok r \<and> task_phase r ''a'' = Some Ts_Failed
     \<and> declared_failure r ''a'' = Some Semantic"
proof -
  obtain r where r: "schedule solo (replicate 4 St_Step) = Ok r" and
    "finish r = Ok \<lparr>sr_root_outcome = Ex_Failed ''a'' Semantic,
          sr_totals = \<lparr>rt_started = 1, rt_completed = 0, rt_failed = 1, rt_cancelled = 0\<rparr>\<rparr>"
    by (rule demo_checked[OF solo_last]) blast
  from scoped_outcome_exact[OF solo_new this] r show ?thesis by simp
qed

lemma nested_cancel: "demo_check nested 0 (\<lambda>r. fst (cancel_scope ''r'' r) = Ok True \<and> task_scope r ''b'' = Some ''c''
     \<and> bs_contains (scope_lineage (sm_scopes (rn_model r)) ''c'') ''r'')"
  by code_simp

theorem cancelled_scope_starts_nothing_witness:
  "\<exists>r. schedule nested (replicate 0 St_Step) = Ok r \<and> fst (cancel_scope ''r'' r) = Ok True
     \<and> Ev_Started ''b'' \<notin> set (drop (length (rn_events r))
          (rn_events (foldl st_call_step (snd (cancel_scope ''r'' r)) (replicate 9 St_Step))))"
proof -
  obtain r where r: "schedule nested (replicate 0 St_Step) = Ok r" and
    c: "fst (cancel_scope ''r'' r) = Ok True \<and> task_scope r ''b'' = Some ''c''
     \<and> bs_contains (scope_lineage (sm_scopes (rn_model r)) ''c'') ''r''"
    by (rule demo_checked[OF nested_cancel])
  have "cancel_scope ''r'' r = (Ok True, snd (cancel_scope ''r'' r))" using c by (metis prod.collapse)
  from cancelled_scope_starts_nothing[OF nested_new r this refl] c r show ?thesis
    by (auto simp: above_def bs_contains_def)
qed

lemma pair_fourth: "demo_check pair_model 4 (\<lambda>r. fst (st_step r) = Ok (Some (Ev_Finalized ''b''))
     \<and> task_scope r ''a'' = task_scope r ''b'' \<and> task_phase r ''a'' = Some Ts_Completed
     \<and> \<not> bs_contains (rn_finalized r) ''a'')"
  by code_simp

theorem finalizers_reverse_completion_witness:
  "\<exists>r. schedule pair_model (replicate 4 St_Step) = Ok r \<and> fst (st_step r) = Ok (Some (Ev_Finalized ''b''))
     \<and> completion_number r ''a'' \<le> completion_number r ''b''"
proof -
  obtain r where r: "schedule pair_model (replicate 4 St_Step) = Ok r" and
    c: "fst (st_step r) = Ok (Some (Ev_Finalized ''b'')) \<and> task_scope r ''a'' = task_scope r ''b''
      \<and> task_phase r ''a'' = Some Ts_Completed \<and> \<not> bs_contains (rn_finalized r) ''a''"
    by (rule demo_checked[OF pair_fourth])
  have "st_step r = (Ok (Some (Ev_Finalized ''b'')), snd (st_step r))" using c by (metis prod.collapse)
  from finalizers_reverse_completion[OF pair_new r this] c r show ?thesis by (auto simp: bs_contains_def)
qed

end
