(* ===== verification/HostOwnership.thy ===== *)
theory HostOwnership
  imports Status OrdMap
begin

text \<open>
  The ownership ledger of the host boundary (\<open>src/host_ownership.rs\<close>): owners behind tokens, calls
  that take all their inputs or none, and their completion.  A \<open>HostIdentity\<close> is its text; the
  process-wide nonce counter is a \<open>u64\<close> that the registry constructor takes and returns.  The
  trusted code a call executes is a parameter: it returns, fails with a status, or unwinds.
\<close>

section \<open>Values\<close>

definition HOST_OWNERSHIP_SCHEMA_V1 :: string where
  "HOST_OWNERSHIP_SCHEMA_V1 = ''semaprax.host-ownership.v1''"

datatype host_rejection =
    Hr_InvalidIdentity | Hr_RegistryExhausted | Hr_InvocationExhausted | Hr_ReentrantInvocation
  | Hr_RegistryPoisoned | Hr_InputCountMismatch | Hr_UnknownOwner | Hr_StaleOwner | Hr_OwnerNotLive
  | Hr_DuplicateOwner | Hr_WrongModule | Hr_WrongAdapter | Hr_WrongResourceType | Hr_WrongLifecycle
  | Hr_WrongThread | Hr_InvalidOwnedResult | Hr_ResultKindMismatch | Hr_StalePlan

type_synonym 'a host_res = "(host_rejection, 'a) res"

definition identity_try_new :: "string \<Rightarrow> string host_res" where
  "identity_try_new s = (if s = [] \<or> CHR 0x00 \<in> set s then Err Hr_InvalidIdentity else Ok s)"

record host_provenance =
  hp_module :: string
  hp_adapter :: string
  hp_resource_type :: string
  hp_lifecycle :: string
  hp_owner_thread :: u64

definition provenance_try_new ::
  "string \<Rightarrow> string \<Rightarrow> string \<Rightarrow> string \<Rightarrow> u64 \<Rightarrow> host_provenance host_res" where
  "provenance_try_new m adapter resource_type lifecycle owner_thread =
     (if owner_thread = 0 then Err Hr_WrongThread
      else Ok \<lparr>hp_module = m, hp_adapter = adapter, hp_resource_type = resource_type,
               hp_lifecycle = lifecycle, hp_owner_thread = owner_thread\<rparr>)"

record host_requirement =
  hq_resource_type :: string
  hq_lifecycle :: string

datatype host_result_plan = ScalarResult | OwnedInput nat

record host_contract =
  hc_module :: string
  hc_adapter :: string
  hc_function :: string
  hc_bound_thread :: u64
  hc_inputs :: "host_requirement list"
  hc_result :: host_result_plan

definition contract_try_new ::
  "string \<Rightarrow> string \<Rightarrow> string \<Rightarrow> u64 \<Rightarrow> host_requirement list \<Rightarrow> host_result_plan \<Rightarrow> host_contract host_res" where
  "contract_try_new m adapter f bound_thread inputs result =
     (if bound_thread = 0 then Err Hr_WrongThread
      else if (case result of ScalarResult \<Rightarrow> False | OwnedInput i \<Rightarrow> length inputs \<le> i)
      then Err Hr_InvalidOwnedResult
      else Ok \<lparr>hc_module = m, hc_adapter = adapter, hc_function = f, hc_bound_thread = bound_thread,
               hc_inputs = inputs, hc_result = result\<rparr>)"

record host_token =
  ht_nonce :: u64
  ht_slot :: u64
  ht_generation :: u64

definition next_generation :: "host_token \<Rightarrow> host_token option" where
  "next_generation t = map_option (\<lambda>g. t\<lparr>ht_generation := g\<rparr>) (u_checked_add (ht_generation t) 1)"

record host_request =
  hr_contract :: host_contract
  hr_thread :: u64
  hr_owners :: "host_token list"

datatype host_value = PublishedScalar i64 | PublishedOwner host_token
datatype host_outcome = ExecutedSuccess host_value | ExecutedFailure normalized_status
datatype host_boundary_result = Rejected host_rejection | Executed host_outcome

datatype owner_state = Live | InInvocation u64 | Dead

record host_owner =
  ho_generation :: u64
  ho_provenance :: host_provenance
  ho_payload :: u64
  ho_state :: owner_state

record active_call =
  ac_sequence :: u64
  ac_slots :: "u64 list"

record host_registry =
  hg_schema :: string
  hg_nonce :: u64
  hg_next_slot :: u64
  hg_next_invocation :: u64
  hg_owners :: "(u64, host_owner) bmap"
  hg_active :: "active_call option"
  hg_last_abandonment :: bool
  hg_poisoned :: bool

record host_plan =
  pl_nonce :: u64
  pl_sequence :: u64
  pl_result_slot :: "u64 option"
  pl_tokens :: "host_token list"
  pl_slots :: "u64 list"
  pl_resources :: "u64 list"
  pl_payloads :: "u64 list"

record host_invocation =
  iv_sequence :: u64
  iv_result_slot :: "u64 option"
  iv_resources :: "u64 list"
  iv_payloads :: "u64 list"

section \<open>Registration\<close>

definition registry_try_new :: "u64 \<Rightarrow> host_registry host_res \<times> u64" where
  "registry_try_new counter =
     (case u_checked_add counter 1 of
        None \<Rightarrow> (Err Hr_RegistryExhausted, counter)
      | Some next \<Rightarrow>
          (Ok \<lparr>hg_schema = HOST_OWNERSHIP_SCHEMA_V1, hg_nonce = counter, hg_next_slot = 1,
               hg_next_invocation = 1, hg_owners = bm_empty, hg_active = None,
               hg_last_abandonment = False, hg_poisoned = False\<rparr>, next))"

definition register_adapter_owner ::
  "host_provenance \<Rightarrow> u64 \<Rightarrow> host_registry \<Rightarrow> host_token host_res \<times> host_registry" where
  "register_adapter_owner provenance payload r =
     (if hg_poisoned r then (Err Hr_RegistryPoisoned, r)
      else if hg_active r \<noteq> None then (Err Hr_ReentrantInvocation, r)
      else (case u_checked_add (hg_next_slot r) 1 of
              None \<Rightarrow> (Err Hr_RegistryExhausted, r)
            | Some next \<Rightarrow>
                (Ok \<lparr>ht_nonce = hg_nonce r, ht_slot = hg_next_slot r, ht_generation = 1\<rparr>,
                 r\<lparr>hg_next_slot := next,
                   hg_owners := bm_insert (hg_next_slot r)
                     \<lparr>ho_generation = 1, ho_provenance = provenance, ho_payload = payload,
                      ho_state = Live\<rparr> (hg_owners r)\<rparr>)))"

definition rollback_adapter_owner :: "host_token \<Rightarrow> host_registry \<Rightarrow> unit host_res \<times> host_registry" where
  "rollback_adapter_owner t r =
     (if hg_poisoned r \<or> hg_active r \<noteq> None then (Err Hr_StalePlan, r)
      else (case u_checked_add (ht_slot t) 1 of
              None \<Rightarrow> (Err Hr_StalePlan, r)
            | Some expected_next \<Rightarrow>
              if ht_nonce t \<noteq> hg_nonce r \<or> hg_next_slot r \<noteq> expected_next then (Err Hr_StalePlan, r)
              else (case bm_get (hg_owners r) (ht_slot t) of
                      None \<Rightarrow> (Err Hr_StalePlan, r)
                    | Some owner \<Rightarrow>
                      if ho_generation owner \<noteq> ht_generation t \<or> ho_state owner \<noteq> Live
                      then (Err Hr_StalePlan, r)
                      else (Ok (), r\<lparr>hg_next_slot := ht_slot t,
                                     hg_owners := bm_delete (ht_slot t) (hg_owners r)\<rparr>))))"

section \<open>Planning and committing a call\<close>

definition host_lookup :: "host_token \<Rightarrow> host_registry \<Rightarrow> host_owner host_res" where
  "host_lookup t r =
     (if ht_nonce t \<noteq> hg_nonce r then Err Hr_UnknownOwner
      else (case bm_get (hg_owners r) (ht_slot t) of
              None \<Rightarrow> Err Hr_UnknownOwner
            | Some owner \<Rightarrow> if ho_generation owner \<noteq> ht_generation t then Err Hr_StaleOwner else Ok owner))"

definition compare_contract ::
  "host_provenance \<Rightarrow> host_contract \<Rightarrow> host_requirement \<Rightarrow> u64 \<Rightarrow> unit host_res" where
  "compare_contract actual contract requirement executing_thread =
     (if hp_module actual \<noteq> hc_module contract then Err Hr_WrongModule
      else if hp_adapter actual \<noteq> hc_adapter contract then Err Hr_WrongAdapter
      else if hp_resource_type actual \<noteq> hq_resource_type requirement then Err Hr_WrongResourceType
      else if hp_lifecycle actual \<noteq> hq_lifecycle requirement then Err Hr_WrongLifecycle
      else if hp_owner_thread actual \<noteq> executing_thread then Err Hr_WrongThread
      else Ok ())"

text \<open>The loop over the tokens and their requirements; \<open>seen\<close> is the set \<open>unique\<close>.\<close>

fun check_owners ::
  "host_request \<Rightarrow> host_registry \<Rightarrow> (host_token \<times> host_requirement) list \<Rightarrow> host_token set \<Rightarrow> unit host_res" where
  "check_owners request r [] seen = Ok ()"
| "check_owners request r ((t, requirement) # rest) seen =
     (if t \<in> seen then Err Hr_DuplicateOwner
      else res_bind (host_lookup t r) (\<lambda>owner.
        if ho_state owner \<noteq> Live then Err Hr_OwnerNotLive
        else res_bind (compare_contract (ho_provenance owner) (hr_contract request) requirement (hr_thread request))
          (\<lambda>_. check_owners request r rest (insert t seen))))"

definition preflight :: "host_request \<Rightarrow> host_registry \<Rightarrow> unit host_res" where
  "preflight request r =
     (if hg_poisoned r then Err Hr_RegistryPoisoned
      else if hg_active r \<noteq> None then Err Hr_ReentrantInvocation
      else if hg_next_invocation r = - 1 then Err Hr_InvocationExhausted
      else if hr_thread request = 0 \<or> hr_thread request \<noteq> hc_bound_thread (hr_contract request)
      then Err Hr_WrongThread
      else if length (hr_owners request) \<noteq> length (hc_inputs (hr_contract request))
      then Err Hr_InputCountMismatch
      else
        res_bind (check_owners request r (zip (hr_owners request) (hc_inputs (hr_contract request))) {}) (\<lambda>_.
          case hc_result (hr_contract request) of
            ScalarResult \<Rightarrow> Ok ()
          | OwnedInput i \<Rightarrow>
              if length (hr_owners request) \<le> i then Panic
              else res_bind (host_lookup (hr_owners request ! i) r) (\<lambda>owner.
                if ho_generation owner = - 1 then Err Hr_RegistryExhausted else Ok ())))"

definition preflight_prepared :: "host_request \<Rightarrow> host_registry \<Rightarrow> u64 host_res" where
  "preflight_prepared request r = res_bind (preflight request r) (\<lambda>_. Ok (hg_next_invocation r))"

fun owner_payloads :: "host_token list \<Rightarrow> host_registry \<Rightarrow> (u64 list) host_res" where
  "owner_payloads [] r = Ok []"
| "owner_payloads (t # ts) r =
     (case host_lookup t r of
        Ok owner \<Rightarrow> res_bind (owner_payloads ts r) (\<lambda>ps. Ok (ho_payload owner # ps))
      | _ \<Rightarrow> Panic)"

definition plan_call :: "host_request \<Rightarrow> host_registry \<Rightarrow> host_plan host_res" where
  "plan_call request r =
     res_bind (preflight request r) (\<lambda>_.
     res_bind (owner_payloads (hr_owners request) r) (\<lambda>payloads.
     let slots = map ht_slot (hr_owners request);
         plan = (\<lambda>result_slot. \<lparr>pl_nonce = hg_nonce r, pl_sequence = hg_next_invocation r,
                   pl_result_slot = result_slot, pl_tokens = hr_owners request, pl_slots = slots,
                   pl_resources = payloads, pl_payloads = payloads\<rparr>)
     in case hc_result (hr_contract request) of
          ScalarResult \<Rightarrow> Ok (plan None)
        | OwnedInput i \<Rightarrow> if length slots \<le> i then Panic else Ok (plan (Some (slots ! i)))))"

definition plan_scalar :: "host_request \<Rightarrow> host_registry \<Rightarrow> host_plan host_res" where
  "plan_scalar request r =
     (if hc_result (hr_contract request) \<noteq> ScalarResult then Err Hr_ResultKindMismatch
      else plan_call request r)"

definition plan_owned :: "host_request \<Rightarrow> host_registry \<Rightarrow> host_plan host_res" where
  "plan_owned request r =
     (if hc_result (hr_contract request) = ScalarResult then Err Hr_ResultKindMismatch
      else plan_call request r)"

text \<open>The checks of one row of a plan; the lists have equal lengths.\<close>

fun validate_rows ::
  "host_registry \<Rightarrow> host_token list \<Rightarrow> u64 list \<Rightarrow> u64 list \<Rightarrow> u64 list \<Rightarrow> unit host_res" where
  "validate_rows r (t # ts) (slot # slots) (resource # resources) (payload # payloads) =
     (if ht_slot t \<noteq> slot then Err Hr_StalePlan
      else (case host_lookup t r of
              Ok owner \<Rightarrow>
                if ho_state owner \<noteq> Live \<or> ho_payload owner \<noteq> payload \<or> ho_payload owner \<noteq> resource
                then Err Hr_StalePlan
                else validate_rows r ts slots resources payloads
            | _ \<Rightarrow> Err Hr_StalePlan))"
| "validate_rows r ts slots resources payloads = Ok ()"

definition validate_plan :: "host_plan \<Rightarrow> host_registry \<Rightarrow> unit host_res" where
  "validate_plan p r =
     (if hg_poisoned r \<or> hg_active r \<noteq> None \<or> pl_nonce p \<noteq> hg_nonce r
         \<or> pl_sequence p \<noteq> hg_next_invocation r \<or> length (pl_tokens p) \<noteq> length (pl_slots p)
         \<or> length (pl_tokens p) \<noteq> length (pl_resources p) \<or> length (pl_tokens p) \<noteq> length (pl_payloads p)
      then Err Hr_StalePlan
      else res_bind (validate_rows r (pl_tokens p) (pl_slots p) (pl_resources p) (pl_payloads p)) (\<lambda>_.
        case pl_result_slot p of
          None \<Rightarrow> Ok ()
        | Some slot \<Rightarrow> if slot \<notin> set (pl_slots p) then Err Hr_StalePlan else Ok ()))"

text \<open>Rewriting the entry of a slot, a panic when there is none.\<close>

definition with_owner ::
  "(host_owner \<Rightarrow> host_owner) \<Rightarrow> u64 \<Rightarrow> (u64, host_owner) bmap \<Rightarrow> (u64, host_owner) bmap option" where
  "with_owner f slot owners = map_option (\<lambda>owner. bm_insert slot (f owner) owners) (bm_get owners slot)"

text \<open>The state reached and whether every slot was present; a missing one stops the loop.\<close>

fun hold_owners :: "u64 \<Rightarrow> host_token list \<Rightarrow> (u64, host_owner) bmap \<Rightarrow> bool \<times> (u64, host_owner) bmap" where
  "hold_owners sequence [] owners = (True, owners)"
| "hold_owners sequence (t # ts) owners =
     (case with_owner (\<lambda>owner. owner\<lparr>ho_state := InInvocation sequence\<rparr>) (ht_slot t) owners of
        None \<Rightarrow> (False, owners)
      | Some owners' \<Rightarrow> hold_owners sequence ts owners')"

definition commit_plan :: "host_plan \<Rightarrow> host_registry \<Rightarrow> host_invocation host_res \<times> host_registry" where
  "commit_plan p r =
     (case validate_plan p r of
        Err e \<Rightarrow> (Err e, r)
      | Panic \<Rightarrow> (Panic, r)
      | Ok _ \<Rightarrow>
        (case u_checked_add (hg_next_invocation r) 1 of
           None \<Rightarrow> (Panic, r)
         | Some next \<Rightarrow>
           let (present, owners) = hold_owners (pl_sequence p) (pl_tokens p) (hg_owners r);
               r1 = r\<lparr>hg_next_invocation := next, hg_owners := owners\<rparr>
           in if \<not> present then (Panic, r1)
              else (Ok \<lparr>iv_sequence = pl_sequence p, iv_result_slot = pl_result_slot p,
                        iv_resources = pl_resources p, iv_payloads = pl_payloads p\<rparr>,
                    r1\<lparr>hg_active := Some \<lparr>ac_sequence = pl_sequence p, ac_slots = pl_slots p\<rparr>\<rparr>)))"

definition prepare_call :: "host_request \<Rightarrow> host_registry \<Rightarrow> host_invocation host_res \<times> host_registry" where
  "prepare_call request r =
     (case plan_call request r of
        Err e \<Rightarrow> (Err e, r)
      | Panic \<Rightarrow> (Panic, r)
      | Ok p \<Rightarrow> commit_plan p r)"

definition prepare_scalar :: "host_request \<Rightarrow> host_registry \<Rightarrow> host_invocation host_res \<times> host_registry" where
  "prepare_scalar request r =
     (if hc_result (hr_contract request) \<noteq> ScalarResult then (Err Hr_ResultKindMismatch, r)
      else prepare_call request r)"

definition prepare_owned :: "host_request \<Rightarrow> host_registry \<Rightarrow> host_invocation host_res \<times> host_registry" where
  "prepare_owned request r =
     (if hc_result (hr_contract request) = ScalarResult then (Err Hr_ResultKindMismatch, r)
      else prepare_call request r)"

end
