(* ===== verification/HostCalls.thy ===== *)
theory HostCalls
  imports HostOwnership
begin

text \<open>
  Completion of host calls (\<open>src/host_ownership.rs\<close>): \<open>finish\<close>, \<open>finish_checked\<close>, \<open>abandon\<close>, the
  scoped execution with its drop guard, retirement, and the machine of everything a holder of
  plans and invocations can do with one registry.
\<close>

section \<open>Completion\<close>

text \<open>The assertions over the committed slots; \<open>False\<close> is a failed one.\<close>

fun finish_guard :: "u64 \<Rightarrow> u64 option \<Rightarrow> u64 list \<Rightarrow> (u64, host_owner) bmap \<Rightarrow> bool" where
  "finish_guard sequence published [] owners = True"
| "finish_guard sequence published (slot # slots) owners =
     (case bm_get owners slot of
        None \<Rightarrow> False
      | Some owner \<Rightarrow>
          ho_state owner = InInvocation sequence
          \<and> (published = Some slot \<longrightarrow> ho_generation owner < - 1)
          \<and> finish_guard sequence published slots owners)"

text \<open>The mutating loop: whether every entry was there to rewrite, and the last token published.\<close>

fun settle_slots ::
  "u64 \<Rightarrow> u64 option \<Rightarrow> u64 list \<Rightarrow> host_token option \<Rightarrow> (u64, host_owner) bmap
     \<Rightarrow> bool \<times> host_token option \<times> (u64, host_owner) bmap" where
  "settle_slots nonce published [] token owners = (True, token, owners)"
| "settle_slots nonce published (slot # slots) token owners =
     (case bm_get owners slot of
        None \<Rightarrow> (False, token, owners)
      | Some owner \<Rightarrow>
        if published = Some slot
        then (case u_checked_add (ho_generation owner) 1 of
                None \<Rightarrow> (False, token, owners)
              | Some g \<Rightarrow>
                settle_slots nonce published slots
                  (Some \<lparr>ht_nonce = nonce, ht_slot = slot, ht_generation = g\<rparr>)
                  (bm_insert slot (owner\<lparr>ho_generation := g, ho_state := Live\<rparr>) owners))
        else settle_slots nonce published slots token (bm_insert slot (owner\<lparr>ho_state := Dead\<rparr>) owners))"

definition one_outcome :: "u64 option \<Rightarrow> i64 option \<Rightarrow> normalized_status option \<Rightarrow> bool" where
  "one_outcome published scalar failure \<longleftrightarrow>
     (published = None \<and> scalar \<noteq> None \<and> failure = None)
     \<or> (published \<noteq> None \<and> scalar = None \<and> failure = None)
     \<or> (published = None \<and> scalar = None \<and> failure \<noteq> None)"

definition host_finish ::
  "u64 \<Rightarrow> u64 option \<Rightarrow> i64 option \<Rightarrow> normalized_status option \<Rightarrow> host_registry
     \<Rightarrow> host_outcome host_res \<times> host_registry" where
  "host_finish sequence published scalar failure r =
     (case hg_active r of
        None \<Rightarrow> (Panic, r)
      | Some active \<Rightarrow>
        if ac_sequence active \<noteq> sequence \<or> \<not> one_outcome published scalar failure
           \<or> (case published of None \<Rightarrow> False | Some slot \<Rightarrow> slot \<notin> set (ac_slots active))
           \<or> \<not> finish_guard sequence published (ac_slots active) (hg_owners r)
        then (Panic, r)
        else
          let (settled, token, owners) =
                settle_slots (hg_nonce r) published (ac_slots active) None (hg_owners r);
              r1 = r\<lparr>hg_active := None, hg_owners := owners\<rparr>
          in if \<not> settled then (Panic, r1)
             else (case failure of
                     Some status \<Rightarrow> (Ok (ExecutedFailure status), r1)
                   | None \<Rightarrow>
                     (case (scalar, token) of
                        (Some v, None) \<Rightarrow> (Ok (ExecutedSuccess (PublishedScalar v)), r1)
                      | (None, Some owner) \<Rightarrow> (Ok (ExecutedSuccess (PublishedOwner owner)), r1)
                      | _ \<Rightarrow> (Panic, r1))))"

text \<open>\<open>finish_checked\<close>: the same with every refusal an error before the first change.\<close>

fun checked_guard :: "u64 \<Rightarrow> u64 \<Rightarrow> u64 \<Rightarrow> u64 list \<Rightarrow> (u64, host_owner) bmap \<Rightarrow> bool" where
  "checked_guard sequence published expected [] owners = True"
| "checked_guard sequence published expected (slot # slots) owners =
     (case bm_get owners slot of
        None \<Rightarrow> False
      | Some owner \<Rightarrow>
          ho_state owner = InInvocation sequence
          \<and> (slot = published \<longrightarrow> u_checked_add (ho_generation owner) 1 = Some expected)
          \<and> checked_guard sequence published expected slots owners)"

fun checked_settle ::
  "u64 \<Rightarrow> u64 \<Rightarrow> u64 list \<Rightarrow> (u64, host_owner) bmap \<Rightarrow> bool \<times> (u64, host_owner) bmap" where
  "checked_settle published expected [] owners = (True, owners)"
| "checked_settle published expected (slot # slots) owners =
     (case bm_get owners slot of
        None \<Rightarrow> (False, owners)
      | Some owner \<Rightarrow>
        checked_settle published expected slots
          (bm_insert slot
             (if slot = published then owner\<lparr>ho_generation := expected, ho_state := Live\<rparr>
              else owner\<lparr>ho_state := Dead\<rparr>) owners))"

definition finish_checked ::
  "u64 \<Rightarrow> u64 \<Rightarrow> host_token \<Rightarrow> host_registry \<Rightarrow> host_outcome host_res \<times> host_registry" where
  "finish_checked sequence published expected r =
     (case hg_active r of
        None \<Rightarrow> (Err Hr_StalePlan, r)
      | Some active \<Rightarrow>
        if ac_sequence active \<noteq> sequence \<or> published \<notin> set (ac_slots active)
           \<or> ht_nonce expected \<noteq> hg_nonce r \<or> ht_slot expected \<noteq> published
           \<or> \<not> checked_guard sequence published (ht_generation expected) (ac_slots active) (hg_owners r)
        then (Err Hr_StalePlan, r)
        else
          let (present, owners) =
                checked_settle published (ht_generation expected) (ac_slots active) (hg_owners r);
              r1 = r\<lparr>hg_active := None, hg_owners := owners\<rparr>
          in if \<not> present then (Err Hr_StalePlan, r1)
             else (Ok (ExecutedSuccess (PublishedOwner expected)), r1))"

fun abandon_slots :: "u64 \<Rightarrow> u64 list \<Rightarrow> bool \<Rightarrow> (u64, host_owner) bmap \<Rightarrow> bool \<times> (u64, host_owner) bmap" where
  "abandon_slots sequence [] poisoned owners = (poisoned, owners)"
| "abandon_slots sequence (slot # slots) poisoned owners =
     (case bm_get owners slot of
        None \<Rightarrow> abandon_slots sequence slots True owners
      | Some owner \<Rightarrow>
        abandon_slots sequence slots (poisoned \<or> ho_state owner \<noteq> InInvocation sequence)
          (bm_insert slot (owner\<lparr>ho_state := Dead\<rparr>) owners))"

definition abandon :: "u64 \<Rightarrow> host_registry \<Rightarrow> host_registry" where
  "abandon sequence r =
     (case hg_active r of
        None \<Rightarrow> r\<lparr>hg_poisoned := True, hg_last_abandonment := True\<rparr>
      | Some active \<Rightarrow>
        let (poisoned, owners) = abandon_slots sequence (ac_slots active)
              (hg_poisoned r \<or> ac_sequence active \<noteq> sequence) (hg_owners r)
        in r\<lparr>hg_active := None, hg_poisoned := poisoned, hg_owners := owners, hg_last_abandonment := True\<rparr>)"

section \<open>The completion methods\<close>

type_synonym 'a executed = "(normalized_status, 'a) res"

text \<open>A result handed back by trusted code is \<open>Ok\<close> or \<open>Err\<close>; \<open>Panic\<close> stands for unwinding.\<close>

definition complete_prepared_scalar ::
  "host_invocation \<Rightarrow> i64 executed \<Rightarrow> host_registry \<Rightarrow> host_outcome host_res \<times> host_registry" where
  "complete_prepared_scalar invocation result r =
     (if iv_result_slot invocation \<noteq> None then (Panic, r)
      else (case result of
              Ok v \<Rightarrow> host_finish (iv_sequence invocation) None (Some v) None r
            | Err status \<Rightarrow> host_finish (iv_sequence invocation) None None (Some status) r
            | Panic \<Rightarrow> (Panic, r)))"

definition complete_prepared_owned ::
  "host_invocation \<Rightarrow> unit executed \<Rightarrow> host_registry \<Rightarrow> host_outcome host_res \<times> host_registry" where
  "complete_prepared_owned invocation result r =
     (case iv_result_slot invocation of
        None \<Rightarrow> (Panic, r)
      | Some slot \<Rightarrow>
        (case result of
           Ok _ \<Rightarrow> host_finish (iv_sequence invocation) (Some slot) None None r
         | Err status \<Rightarrow> host_finish (iv_sequence invocation) None None (Some status) r
         | Panic \<Rightarrow> (Panic, r)))"

definition complete_prepared_owned_expected ::
  "host_invocation \<Rightarrow> host_token \<Rightarrow> host_registry \<Rightarrow> host_outcome host_res \<times> host_registry" where
  "complete_prepared_owned_expected invocation expected r =
     (case iv_result_slot invocation of
        None \<Rightarrow> (Err Hr_ResultKindMismatch, r)
      | Some slot \<Rightarrow> finish_checked (iv_sequence invocation) slot expected r)"

definition abandon_prepared :: "host_invocation \<Rightarrow> host_registry \<Rightarrow> host_registry" where
  "abandon_prepared invocation r = abandon (iv_sequence invocation) r"

definition abandonment_status :: "(host_rejection, normalized_status) res" where
  "abandonment_status = expect_ok (status_try_new ''semaprax.adapter.host-ownership.v1'' 1 Adapter (Known False))"

definition take_last_abandonment_flag :: "host_registry \<Rightarrow> bool \<times> host_registry" where
  "take_last_abandonment_flag r = (hg_last_abandonment r, r\<lparr>hg_last_abandonment := False\<rparr>)"

definition take_last_abandonment :: "host_registry \<Rightarrow> normalized_status option host_res \<times> host_registry" where
  "take_last_abandonment r =
     (let (flag, r1) = take_last_abandonment_flag r
      in (if flag then res_bind abandonment_status (\<lambda>s. Ok (Some s)) else Ok None, r1))"

section \<open>Scoped execution\<close>

text \<open>
  The completion guard: when the trusted code or the completion itself unwinds, dropping the guard
  abandons the call and the panic continues.
\<close>

definition guarded :: "u64 \<Rightarrow> host_outcome host_res \<times> host_registry \<Rightarrow> host_boundary_result host_res \<times> host_registry" where
  "guarded sequence x =
     (case x of
        (Ok out, r) \<Rightarrow> (Ok (Executed out), r)
      | (_, r) \<Rightarrow> (Panic, abandon sequence r))"

definition run_scalar ::
  "host_invocation \<Rightarrow> (u64 list \<Rightarrow> i64 executed) \<Rightarrow> host_registry \<Rightarrow> host_boundary_result host_res \<times> host_registry" where
  "run_scalar invocation execute r =
     (let sequence = iv_sequence invocation in
      case execute (iv_resources invocation) of
        Ok v \<Rightarrow> guarded sequence (host_finish sequence None (Some v) None r)
      | Err status \<Rightarrow> guarded sequence (host_finish sequence None None (Some status) r)
      | Panic \<Rightarrow> (Panic, abandon sequence r))"

definition run_owned ::
  "host_invocation \<Rightarrow> u64 \<Rightarrow> (u64 list \<Rightarrow> unit executed) \<Rightarrow> host_registry
     \<Rightarrow> host_boundary_result host_res \<times> host_registry" where
  "run_owned invocation slot execute r =
     (let sequence = iv_sequence invocation in
      case execute (iv_resources invocation) of
        Ok _ \<Rightarrow> guarded sequence (host_finish sequence (Some slot) None None r)
      | Err status \<Rightarrow> guarded sequence (host_finish sequence None None (Some status) r)
      | Panic \<Rightarrow> (Panic, abandon sequence r))"

definition execute_scalar ::
  "host_request \<Rightarrow> (u64 list \<Rightarrow> i64 executed) \<Rightarrow> host_registry \<Rightarrow> host_boundary_result host_res \<times> host_registry" where
  "execute_scalar request execute r =
     (if hc_result (hr_contract request) \<noteq> ScalarResult then (Ok (Rejected Hr_ResultKindMismatch), r)
      else (case prepare_call request r of
              (Err e, r1) \<Rightarrow> (Ok (Rejected e), r1)
            | (Panic, r1) \<Rightarrow> (Panic, r1)
            | (Ok invocation, r1) \<Rightarrow> run_scalar invocation execute r1))"

definition execute_owned ::
  "host_request \<Rightarrow> (u64 list \<Rightarrow> unit executed) \<Rightarrow> host_registry \<Rightarrow> host_boundary_result host_res \<times> host_registry" where
  "execute_owned request execute r =
     (if hc_result (hr_contract request) = ScalarResult then (Ok (Rejected Hr_ResultKindMismatch), r)
      else (case prepare_call request r of
              (Err e, r1) \<Rightarrow> (Ok (Rejected e), r1)
            | (Panic, r1) \<Rightarrow> (Panic, r1)
            | (Ok invocation, r1) \<Rightarrow>
                (case iv_result_slot invocation of
                   None \<Rightarrow> (Panic, r1)
                 | Some slot \<Rightarrow> run_owned invocation slot execute r1)))"

section \<open>Queries and retirement\<close>

definition is_live :: "host_token \<Rightarrow> host_registry \<Rightarrow> bool" where
  "is_live t r \<longleftrightarrow> (case host_lookup t r of Ok owner \<Rightarrow> ho_state owner = Live | _ \<Rightarrow> False)"

definition host_payload :: "host_token \<Rightarrow> host_registry \<Rightarrow> u64 option" where
  "host_payload t r =
     (case host_lookup t r of
        Ok owner \<Rightarrow> if ho_state owner = Live then Some (ho_payload owner) else None
      | _ \<Rightarrow> None)"

definition retire_owner :: "host_token \<Rightarrow> host_registry \<Rightarrow> u64 host_res \<times> host_registry" where
  "retire_owner t r =
     (if hg_poisoned r then (Err Hr_RegistryPoisoned, r)
      else (case host_lookup t r of
              Err e \<Rightarrow> (Err e, r)
            | Panic \<Rightarrow> (Panic, r)
            | Ok owner \<Rightarrow>
              if ho_state owner \<noteq> Live then (Err Hr_OwnerNotLive, r)
              else (Ok (ho_payload owner),
                    r\<lparr>hg_owners := bm_insert (ht_slot t) (owner\<lparr>ho_state := Dead\<rparr>) (hg_owners r)\<rparr>)))"

definition live_owner_count :: "host_registry \<Rightarrow> nat" where
  "live_owner_count r = length (filter (\<lambda>owner. ho_state owner = Live) (bm_values (hg_owners r)))"

section \<open>Everything a host can do\<close>

text \<open>
  The registry with the plans and invocations it handed out.  A holder may present any of them, in
  any order and more than once; the linear types of the code allow no more.
\<close>

record host_world =
  hw_registry :: host_registry
  hw_plans :: "host_plan list"
  hw_calls :: "host_invocation list"

datatype host_call =
    Hc_Register host_provenance u64
  | Hc_Rollback host_token
  | Hc_Plan host_request
  | Hc_Commit nat
  | Hc_Prepare host_request
  | Hc_CompleteScalar nat "i64 executed"
  | Hc_CompleteOwned nat "unit executed"
  | Hc_CompleteExpected nat host_token
  | Hc_Abandon nat
  | Hc_Retire host_token
  | Hc_TakeAbandonment
  | Hc_ExecuteScalar host_request "i64 executed"
  | Hc_ExecuteOwned host_request "unit executed"

definition keep_call :: "host_invocation host_res \<times> host_registry \<Rightarrow> host_world \<Rightarrow> host_world" where
  "keep_call x w =
     (case x of
        (Ok invocation, r) \<Rightarrow> w\<lparr>hw_registry := r, hw_calls := hw_calls w @ [invocation]\<rparr>
      | (_, r) \<Rightarrow> w\<lparr>hw_registry := r\<rparr>)"

definition on_registry :: "(host_registry \<Rightarrow> host_registry) \<Rightarrow> host_world \<Rightarrow> host_world" where
  "on_registry f w = w\<lparr>hw_registry := f (hw_registry w)\<rparr>"

fun host_step :: "host_world \<Rightarrow> host_call \<Rightarrow> host_world" where
  "host_step w (Hc_Register p payload) = on_registry (\<lambda>r. snd (register_adapter_owner p payload r)) w"
| "host_step w (Hc_Rollback t) = on_registry (\<lambda>r. snd (rollback_adapter_owner t r)) w"
| "host_step w (Hc_Plan q) =
     (case plan_call q (hw_registry w) of Ok p \<Rightarrow> w\<lparr>hw_plans := hw_plans w @ [p]\<rparr> | _ \<Rightarrow> w)"
| "host_step w (Hc_Commit i) =
     (if i < length (hw_plans w) then keep_call (commit_plan (hw_plans w ! i) (hw_registry w)) w else w)"
| "host_step w (Hc_Prepare q) = keep_call (prepare_call q (hw_registry w)) w"
| "host_step w (Hc_CompleteScalar i x) =
     (if i < length (hw_calls w)
      then on_registry (\<lambda>r. snd (complete_prepared_scalar (hw_calls w ! i) x r)) w else w)"
| "host_step w (Hc_CompleteOwned i x) =
     (if i < length (hw_calls w)
      then on_registry (\<lambda>r. snd (complete_prepared_owned (hw_calls w ! i) x r)) w else w)"
| "host_step w (Hc_CompleteExpected i t) =
     (if i < length (hw_calls w)
      then on_registry (\<lambda>r. snd (complete_prepared_owned_expected (hw_calls w ! i) t r)) w else w)"
| "host_step w (Hc_Abandon i) =
     (if i < length (hw_calls w) then on_registry (abandon_prepared (hw_calls w ! i)) w else w)"
| "host_step w (Hc_Retire t) = on_registry (\<lambda>r. snd (retire_owner t r)) w"
| "host_step w Hc_TakeAbandonment = on_registry (\<lambda>r. snd (take_last_abandonment r)) w"
| "host_step w (Hc_ExecuteScalar q x) = on_registry (\<lambda>r. snd (execute_scalar q (\<lambda>_. x) r)) w"
| "host_step w (Hc_ExecuteOwned q x) = on_registry (\<lambda>r. snd (execute_owned q (\<lambda>_. x) r)) w"

definition world_of :: "host_registry \<Rightarrow> host_world" where
  "world_of r = \<lparr>hw_registry = r, hw_plans = [], hw_calls = []\<rparr>"

end
