(* ===== verification/HostMoves.thy ===== *)
theory HostMoves
  imports HostCalls
begin

text \<open>
  What the operations of the host ledger (\<open>src/host_ownership.rs\<close>) do to it, as a relation with
  one rule per kind of change (the flag of a move says whether rolling back is allowed): flags, a registration, a rollback, a commit, a settlement, a
  retirement.  Every operation is a sequence of at most two moves; invariants are proved on moves.
\<close>

section \<open>Invariant\<close>

definition owner_at :: "host_registry \<Rightarrow> u64 \<Rightarrow> host_owner option" where
  "owner_at r slot = bm_get (hg_owners r) slot"

definition held_by :: "host_registry \<Rightarrow> u64 \<Rightarrow> u64 \<Rightarrow> bool" where
  "held_by r slot sequence \<longleftrightarrow> (\<exists>ow. owner_at r slot = Some ow \<and> ho_state ow = InInvocation sequence)"

text \<open>
  Slots and generations are issued from one; the owners held by an invocation are exactly those of
  the active call, which is older than the next one.
\<close>

definition ledger_ok :: "host_registry \<Rightarrow> bool" where
  "ledger_ok r \<longleftrightarrow>
     bm_ok (hg_owners r) \<and> 0 < hg_next_slot r \<and> 0 < hg_next_invocation r
     \<and> (\<forall>slot ow. owner_at r slot = Some ow \<longrightarrow> 0 < slot \<and> slot < hg_next_slot r \<and> 0 < ho_generation ow)
     \<and> (\<forall>slot sequence. held_by r slot sequence \<longleftrightarrow>
          (\<exists>call. hg_active r = Some call \<and> ac_sequence call = sequence \<and> slot \<in> set (ac_slots call)))
     \<and> (\<forall>call. hg_active r = Some call \<longrightarrow>
          distinct (ac_slots call) \<and> ac_sequence call < hg_next_invocation r)"

section \<open>Moves\<close>

definition settled :: "u64 option \<Rightarrow> u64 \<Rightarrow> host_owner \<Rightarrow> host_owner" where
  "settled published slot ow =
     (if published = Some slot then ow\<lparr>ho_generation := ho_generation ow + 1, ho_state := Live\<rparr>
      else ow\<lparr>ho_state := Dead\<rparr>)"

definition rewrite_owners ::
  "(u64 \<Rightarrow> host_owner \<Rightarrow> host_owner) \<Rightarrow> u64 set \<Rightarrow> (u64, host_owner) bmap \<Rightarrow> (u64, host_owner) bmap \<Rightarrow> bool" where
  "rewrite_owners f slots m m' \<longleftrightarrow>
     (bm_ok m \<longrightarrow> bm_ok m')
     \<and> (\<forall>s. bm_get m' s = (if s \<in> slots then map_option (f s) (bm_get m s) else bm_get m s))"

inductive ledger_move :: "bool \<Rightarrow> host_registry \<Rightarrow> host_registry \<Rightarrow> bool" where
  Mv_Flags: "ledger_move k r (r\<lparr>hg_last_abandonment := b, hg_poisoned := p\<rparr>)"
| Mv_Register: "hg_active r = None \<Longrightarrow> u_checked_add (hg_next_slot r) 1 = Some next \<Longrightarrow>
    ledger_move k r (r\<lparr>hg_next_slot := next,
      hg_owners := bm_insert (hg_next_slot r)
        \<lparr>ho_generation = 1, ho_provenance = provenance, ho_payload = payload, ho_state = Live\<rparr> (hg_owners r)\<rparr>)"
| Mv_Rollback: "hg_active r = None \<Longrightarrow> owner_at r slot = Some ow \<Longrightarrow> ho_state ow = Live \<Longrightarrow>
    u_checked_add slot 1 = Some (hg_next_slot r) \<Longrightarrow>
    ledger_move True r (r\<lparr>hg_next_slot := slot, hg_owners := bm_delete slot (hg_owners r)\<rparr>)"
| Mv_Commit: "hg_active r = None \<Longrightarrow> u_checked_add (hg_next_invocation r) 1 = Some next \<Longrightarrow>
    distinct slots \<Longrightarrow>
    \<forall>s\<in>set slots. \<exists>ow. owner_at r s = Some ow \<and> ho_state ow = Live \<Longrightarrow>
    rewrite_owners (\<lambda>_ ow. ow\<lparr>ho_state := InInvocation (hg_next_invocation r)\<rparr>) (set slots) (hg_owners r) m \<Longrightarrow>
    ledger_move k r (r\<lparr>hg_next_invocation := next, hg_owners := m,
      hg_active := Some \<lparr>ac_sequence = hg_next_invocation r, ac_slots = slots\<rparr>\<rparr>)"
| Mv_Settle: "hg_active r = Some call \<Longrightarrow>
    \<forall>s ow. published = Some s \<and> owner_at r s = Some ow \<longrightarrow> ho_generation ow \<noteq> - 1 \<Longrightarrow>
    rewrite_owners (settled published) (set (ac_slots call)) (hg_owners r) m \<Longrightarrow>
    ledger_move k r (r\<lparr>hg_active := None, hg_owners := m, hg_last_abandonment := b, hg_poisoned := p\<rparr>)"
| Mv_Retire: "owner_at r slot = Some ow \<Longrightarrow> ho_state ow = Live \<Longrightarrow>
    ledger_move k r (r\<lparr>hg_owners := bm_insert slot (ow\<lparr>ho_state := Dead\<rparr>) (hg_owners r)\<rparr>)"

lemma move_same: "ledger_move k r r"
  using Mv_Flags[where r = r and b = "hg_last_abandonment r" and p = "hg_poisoned r"] by simp

lemma owner_at_update [simp]:
  "owner_at (r\<lparr>hg_next_slot := a\<rparr>) = owner_at r" "owner_at (r\<lparr>hg_next_invocation := b\<rparr>) = owner_at r"
  "owner_at (r\<lparr>hg_active := c\<rparr>) = owner_at r" "owner_at (r\<lparr>hg_last_abandonment := d\<rparr>) = owner_at r"
  "owner_at (r\<lparr>hg_poisoned := e\<rparr>) = owner_at r" "owner_at (r\<lparr>hg_owners := m\<rparr>) = bm_get m"
  by (simp_all add: owner_at_def fun_eq_iff)

lemma next_nonzero: "u_checked_add (n :: u64) 1 = Some m \<Longrightarrow> m = n + 1 \<and> n < m \<and> 0 < m"
  by (auto simp: u_checked_add_def word_less_nat_alt unat_word_ariths split: if_splits)

lemma generation_next: "(g :: u64) \<noteq> - 1 \<Longrightarrow> g < g + 1 \<and> 0 < g + 1"
  using word_less_Suc[of g] word_gt_0 by (metis word_not_simps(1))

lemma rewrite_owner_at:
  "rewrite_owners f slots (hg_owners r) m \<Longrightarrow>
     bm_get m s = (if s \<in> slots then map_option (f s) (owner_at r s) else owner_at r s)"
  by (simp add: rewrite_owners_def owner_at_def)

lemma rewrite_ok: "rewrite_owners f slots m m' \<Longrightarrow> bm_ok m \<Longrightarrow> bm_ok m'"
  by (simp add: rewrite_owners_def)

lemma not_held: "ledger_ok r \<Longrightarrow> hg_active r = None \<Longrightarrow> owner_at r s = Some ow \<Longrightarrow>
    ho_state ow \<noteq> InInvocation q"
  unfolding ledger_ok_def held_by_def by (metis option.distinct(1))


lemma owned_in: "ledger_ok r \<Longrightarrow> owner_at r s = Some ow \<Longrightarrow>
    0 < s \<and> s < hg_next_slot r \<and> 0 < ho_generation ow"
  by (simp add: ledger_ok_def)

lemma fresh_slot: "ledger_ok r \<Longrightarrow> owner_at r (hg_next_slot r) = None"
  using owned_in[of r "hg_next_slot r"] by (cases "owner_at r (hg_next_slot r)") auto

lemma ledger_ok_idle:
  assumes "hg_active r = None"
  shows "ledger_ok r \<longleftrightarrow> bm_ok (hg_owners r) \<and> 0 < hg_next_slot r \<and> 0 < hg_next_invocation r
     \<and> (\<forall>slot ow. owner_at r slot = Some ow \<longrightarrow>
          0 < slot \<and> slot < hg_next_slot r \<and> 0 < ho_generation ow \<and> (\<forall>q. ho_state ow \<noteq> InInvocation q))"
  using assms unfolding ledger_ok_def held_by_def by (auto; blast)

lemma register_ok:
  assumes ok: "ledger_ok r" and idle: "hg_active r = None" and nxt: "u_checked_add (hg_next_slot r) 1 = Some n"
  shows "ledger_ok (r\<lparr>hg_next_slot := n, hg_owners := bm_insert (hg_next_slot r)
      \<lparr>ho_generation = 1, ho_provenance = p, ho_payload = pay, ho_state = Live\<rparr> (hg_owners r)\<rparr>)"
proof -
  have old: "0 < hg_next_slot r" using ok by (simp add: ledger_ok_def)
  have lt: "hg_next_slot r < n" "0 < n" using next_nonzero[OF nxt] by auto
  show ?thesis
    using ok lt old unfolding ledger_ok_idle[OF idle]
    by (subst ledger_ok_idle) (auto simp: idle owner_at_def intro: less_trans)
qed

lemma rollback_ok:
  assumes ok: "ledger_ok r" and idle: "hg_active r = None" and own: "owner_at r slot = Some ow"
    and nxt: "u_checked_add slot 1 = Some (hg_next_slot r)"
  shows "ledger_ok (r\<lparr>hg_next_slot := slot, hg_owners := bm_delete slot (hg_owners r)\<rparr>)"
proof -
  have pos: "0 < slot" using owned_in[OF ok own] by simp
  have le: "s \<noteq> slot \<Longrightarrow> s < hg_next_slot r \<Longrightarrow> s < slot" for s
    using u_checked_add_Some[OF nxt] by (auto simp: word_less_nat_alt word_unat_eq_iff)
  show ?thesis
    using ok pos le unfolding ledger_ok_idle[OF idle]
    by (subst ledger_ok_idle) (auto simp: idle owner_at_def split: if_splits)
qed

lemma retire_ok:
  assumes ok: "ledger_ok r" and own: "owner_at r slot = Some ow" and live: "ho_state ow = Live"
  shows "ledger_ok (r\<lparr>hg_owners := bm_insert slot (ow\<lparr>ho_state := Dead\<rparr>) (hg_owners r)\<rparr>)" (is "ledger_ok ?r")
proof -
  have held: "held_by ?r s q \<longleftrightarrow> held_by r s q" for s q
    using own live by (auto simp: held_by_def owner_at_def)
  show ?thesis
    using ok own unfolding ledger_ok_def held
    by (auto simp: owner_at_def split: if_splits)
qed

lemma commit_ok:
  assumes ok: "ledger_ok r" and idle: "hg_active r = None"
    and nxt: "u_checked_add (hg_next_invocation r) 1 = Some n" and dist: "distinct slots"
    and live: "\<forall>s\<in>set slots. \<exists>ow. owner_at r s = Some ow \<and> ho_state ow = Live"
    and m: "rewrite_owners (\<lambda>_ ow. ow\<lparr>ho_state := InInvocation (hg_next_invocation r)\<rparr>) (set slots) (hg_owners r) m"
  shows "ledger_ok (r\<lparr>hg_next_invocation := n, hg_owners := m,
           hg_active := Some \<lparr>ac_sequence = hg_next_invocation r, ac_slots = slots\<rparr>\<rparr>)" (is "ledger_ok ?r")
proof -
  have get: "owner_at ?r s = (if s \<in> set slots
      then map_option (\<lambda>ow. ow\<lparr>ho_state := InInvocation (hg_next_invocation r)\<rparr>) (owner_at r s)
      else owner_at r s)" for s
    using rewrite_owner_at[OF m] by simp
  have held: "held_by ?r s q \<longleftrightarrow> s \<in> set slots \<and> q = hg_next_invocation r" for s q
    using live not_held[OF ok idle] unfolding held_by_def get by (cases "s \<in> set slots") fastforce+
  have rows: "owner_at ?r s = Some ow \<Longrightarrow> 0 < s \<and> s < hg_next_slot r \<and> 0 < ho_generation ow" for s ow
    unfolding get using owned_in[OF ok, of s] by (auto split: if_splits)
  show ?thesis
    unfolding ledger_ok_def held
    using ok rows dist next_nonzero[OF nxt] rewrite_ok[OF m]
    by (auto simp: ledger_ok_def)
qed

lemma settle_ok:
  assumes ok: "ledger_ok r" and act: "hg_active r = Some call"
    and small: "\<forall>s ow. published = Some s \<and> owner_at r s = Some ow \<longrightarrow> ho_generation ow \<noteq> - 1"
    and m: "rewrite_owners (settled published) (set (ac_slots call)) (hg_owners r) m"
  shows "ledger_ok (r\<lparr>hg_active := None, hg_owners := m, hg_last_abandonment := b, hg_poisoned := p\<rparr>)"
    (is "ledger_ok ?r")
proof -
  have get: "owner_at ?r s = (if s \<in> set (ac_slots call)
      then map_option (settled published s) (owner_at r s) else owner_at r s)" for s
    using rewrite_owner_at[OF m] by simp
  have held: "s \<in> set (ac_slots call)" if "owner_at r s = Some ow" "ho_state ow = InInvocation q" for s ow q
    using ok act that unfolding ledger_ok_def held_by_def by (metis option.inject)
  have rows: "owner_at ?r s = Some ow \<Longrightarrow>
      0 < s \<and> s < hg_next_slot r \<and> 0 < ho_generation ow \<and> (\<forall>q. ho_state ow \<noteq> InInvocation q)" for s ow
    unfolding get using owned_in[OF ok, of s] held[of s] small generation_next
    by (auto simp: settled_def split: if_splits)
  show ?thesis
    by (subst ledger_ok_idle) (use ok rows rewrite_ok[OF m] in \<open>auto simp: ledger_ok_def\<close>)
qed

lemma move_ok: "ledger_move k r r' \<Longrightarrow> ledger_ok r \<Longrightarrow> ledger_ok r'"
proof (induction rule: ledger_move.induct)
  case (Mv_Flags r b p)
  then show ?case by (simp add: ledger_ok_def held_by_def)
next
  case (Mv_Register r n provenance payload)
  then show ?case by (blast intro: register_ok)
next
  case (Mv_Rollback r slot ow)
  then show ?case by (blast intro: rollback_ok)
next
  case (Mv_Commit r n slots m)
  then show ?case by (blast intro: commit_ok)
next
  case (Mv_Settle r call published m b p)
  then show ?case by (blast intro: settle_ok)
next
  case (Mv_Retire r slot ow)
  then show ?case by (blast intro: retire_ok)
qed

section \<open>The loops\<close>

lemma rewrite_nil: "rewrite_owners f {} m m"
  by (simp add: rewrite_owners_def)

lemma rewrite_cons:
  assumes "bm_get m s = Some ow" and "s \<notin> S"
    and "rewrite_owners f S (bm_insert s (f s ow) m) m'"
  shows "rewrite_owners f (insert s S) m m'"
  using assms by (auto simp: rewrite_owners_def)

lemma settle_slots_exact:
  assumes "distinct slots" and "finish_guard sequence published slots m"
  shows "\<exists>m'. settle_slots nonce published slots token m =
      (True,
       (case published of
          None \<Rightarrow> token
        | Some s \<Rightarrow> if s \<in> set slots
            then Some \<lparr>ht_nonce = nonce, ht_slot = s, ht_generation = ho_generation (the (bm_get m s)) + 1\<rparr>
            else token), m')
    \<and> rewrite_owners (settled published) (set slots) m m'"
  using assms
proof (induction slots arbitrary: m token)
  case Nil
  then show ?case by (auto simp: rewrite_nil split: option.splits)
next
  case (Cons s slots)
  from Cons.prems obtain ow where ow: "bm_get m s = Some ow" "ho_state ow = InInvocation sequence"
    and small: "published = Some s \<longrightarrow> ho_generation ow < - 1"
    and guard: "finish_guard sequence published slots m"
    and new: "s \<notin> set slots" and dist: "distinct slots"
    by (auto split: option.splits)
  let ?m = "bm_insert s (settled published s ow) m"
  have guard': "finish_guard sequence published slots (bm_insert s v m)" for v
    using guard new by (induction slots) (auto split: option.splits)
  have inc: "u_checked_add (ho_generation ow) 1 = Some (ho_generation ow + 1)" if "published = Some s"
    using small that word_less_Suc[of "ho_generation ow"]
    by (auto simp: u_checked_add_def word_less_nat_alt unat_word_ariths unat_max_word)
  let ?t = "if published = Some s
      then Some \<lparr>ht_nonce = nonce, ht_slot = s, ht_generation = ho_generation ow + 1\<rparr> else token"
  have step: "settle_slots nonce published (s # slots) token m = settle_slots nonce published slots ?t ?m"
    using ow inc by (simp add: settled_def)
  obtain m' where m': "settle_slots nonce published slots ?t ?m =
      (True, (case published of None \<Rightarrow> ?t | Some s' \<Rightarrow> if s' \<in> set slots
            then Some \<lparr>ht_nonce = nonce, ht_slot = s', ht_generation = ho_generation (the (bm_get ?m s')) + 1\<rparr>
            else ?t), m')"
    and rw: "rewrite_owners (settled published) (set slots) ?m m'"
    using Cons.IH[OF dist guard'] by blast
  have "rewrite_owners (settled published) (set (s # slots)) m m'"
    using rewrite_cons[of m s ow "set slots" "settled published" m'] ow(1) new rw by simp
  then show ?case
    unfolding step m' using new ow(1) by (auto split: option.splits)
qed

lemma checked_settle_exact:
  assumes "distinct slots" and "checked_guard sequence published expected slots m"
  shows "\<exists>m'. checked_settle published expected slots m = (True, m')
    \<and> rewrite_owners (settled (Some published)) (set slots) m m'"
  using assms
proof (induction slots arbitrary: m)
  case Nil
  then show ?case by (auto simp: rewrite_nil)
next
  case (Cons s slots)
  from Cons.prems obtain ow where ow: "bm_get m s = Some ow"
    and inc: "s = published \<longrightarrow> u_checked_add (ho_generation ow) 1 = Some expected"
    and guard: "checked_guard sequence published expected slots m"
    and new: "s \<notin> set slots" and dist: "distinct slots"
    by (auto split: option.splits)
  let ?m = "bm_insert s (settled (Some published) s ow) m"
  have guard': "checked_guard sequence published expected slots (bm_insert s v m)" for v
    using guard new by (induction slots) (auto split: option.splits)
  have step: "checked_settle published expected (s # slots) m = checked_settle published expected slots ?m"
    using ow inc next_nonzero[of "ho_generation ow" expected] by (auto simp: settled_def)
  obtain m' where m': "checked_settle published expected slots ?m = (True, m')"
    and rw: "rewrite_owners (settled (Some published)) (set slots) ?m m'"
    using Cons.IH[OF dist guard'] by blast
  have "rewrite_owners (settled (Some published)) (set (s # slots)) m m'"
    using rewrite_cons[of m s ow "set slots" "settled (Some published)" m'] ow new rw by simp
  then show ?case unfolding step using m' by blast
qed

lemma abandon_slots_exact:
  assumes "distinct slots"
  shows "rewrite_owners (settled None) (set slots) m (snd (abandon_slots sequence slots poisoned m))"
  using assms
proof (induction slots arbitrary: m poisoned)
  case Nil
  then show ?case by (simp add: rewrite_nil)
next
  case (Cons s slots)
  show ?case
  proof (cases "bm_get m s")
    case None
    then show ?thesis
      using Cons.IH[of m True] Cons.prems by (auto simp: rewrite_owners_def)
  next
    case (Some ow)
    have dead: "ow\<lparr>ho_state := Dead\<rparr> = settled None s ow" by (simp add: settled_def)
    show ?thesis
      using rewrite_cons[OF Some, of "set slots" "settled None"] Cons Some
      by (simp add: dead)
  qed
qed

text \<open>The flag of \<open>abandon\<close>: it poisons exactly when a committed owner is not held by the call.\<close>

lemma abandon_slots_flag:
  assumes "distinct slots"
  shows "fst (abandon_slots sequence slots poisoned m) \<longleftrightarrow>
    poisoned \<or> (\<exists>s\<in>set slots. \<not> (\<exists>ow. bm_get m s = Some ow \<and> ho_state ow = InInvocation sequence))"
  using assms
proof (induction slots arbitrary: m poisoned)
  case Nil
  then show ?case by simp
next
  case (Cons s slots)
  then show ?case by (auto split: option.splits)
qed

lemma hold_owners_exact:
  assumes "distinct (map ht_slot ts)" and "\<forall>t\<in>set ts. bm_get m (ht_slot t) \<noteq> None"
  shows "\<exists>m'. hold_owners q ts m = (True, m')
    \<and> rewrite_owners (\<lambda>_ ow. ow\<lparr>ho_state := InInvocation q\<rparr>) (set (map ht_slot ts)) m m'"
  using assms
proof (induction ts arbitrary: m)
  case Nil
  then show ?case by (simp add: rewrite_nil)
next
  case (Cons t ts)
  from Cons.prems obtain ow where ow: "bm_get m (ht_slot t) = Some ow" by auto
  let ?m = "bm_insert (ht_slot t) (ow\<lparr>ho_state := InInvocation q\<rparr>) m"
  have "\<forall>t\<in>set ts. bm_get ?m (ht_slot t) \<noteq> None" using Cons.prems by auto
  then obtain m' where m': "hold_owners q ts ?m = (True, m')"
    and rw: "rewrite_owners (\<lambda>_ ow. ow\<lparr>ho_state := InInvocation q\<rparr>) (set (map ht_slot ts)) ?m m'"
    using Cons.IH[of ?m] Cons.prems by auto
  have "rewrite_owners (\<lambda>_ ow. ow\<lparr>ho_state := InInvocation q\<rparr>) (set (map ht_slot (t # ts))) m m'"
    using rewrite_cons[OF ow, of "set (map ht_slot ts)" "\<lambda>_ ow. ow\<lparr>ho_state := InInvocation q\<rparr>" m']
      Cons.prems rw by simp
  then show ?case using m' ow by (simp add: with_owner_def)
qed

section \<open>Planning\<close>

lemma lookup_Ok_iff: "host_lookup t r = Ok ow \<longleftrightarrow>
    ht_nonce t = hg_nonce r \<and> owner_at r (ht_slot t) = Some ow \<and> ho_generation ow = ht_generation t"
  by (auto simp: host_lookup_def owner_at_def split: option.splits)

lemma lookup_no_panic [simp]: "host_lookup t r \<noteq> Panic"
  by (simp add: host_lookup_def split: option.splits)

lemma compare_no_panic [simp]: "compare_contract p c q th \<noteq> Panic"
  by (simp add: compare_contract_def)

text \<open>A live owner named by its current token.\<close>

definition live_owner :: "host_registry \<Rightarrow> host_token \<Rightarrow> bool" where
  "live_owner r t \<longleftrightarrow> (\<exists>ow. host_lookup t r = Ok ow \<and> ho_state ow = Live)"

lemma check_owners_Ok:
  "check_owners q r rows seen = Ok u \<longleftrightarrow>
     distinct (map fst rows) \<and> set (map fst rows) \<inter> seen = {}
     \<and> (\<forall>(t, req)\<in>set rows. \<exists>ow. host_lookup t r = Ok ow \<and> ho_state ow = Live
          \<and> compare_contract (ho_provenance ow) (hr_contract q) req (hr_thread q) = Ok ())"
  by (induction q r rows seen rule: check_owners.induct) (auto simp: res_iff)

lemma check_owners_no_panic: "check_owners q r rows seen \<noteq> Panic"
  by (induction q r rows seen rule: check_owners.induct) (auto simp: res_iff)

text \<open>A request is acceptable in a registry.\<close>

definition call_admissible :: "host_request \<Rightarrow> host_registry \<Rightarrow> bool" where
  "call_admissible q r \<longleftrightarrow>
     \<not> hg_poisoned r \<and> hg_active r = None \<and> hg_next_invocation r \<noteq> - 1
     \<and> hr_thread q \<noteq> 0 \<and> hr_thread q = hc_bound_thread (hr_contract q)
     \<and> length (hr_owners q) = length (hc_inputs (hr_contract q)) \<and> distinct (hr_owners q)
     \<and> (\<forall>i<length (hr_owners q). \<exists>ow. host_lookup (hr_owners q ! i) r = Ok ow \<and> ho_state ow = Live
          \<and> compare_contract (ho_provenance ow) (hr_contract q) (hc_inputs (hr_contract q) ! i) (hr_thread q) = Ok ())
     \<and> (\<forall>i. hc_result (hr_contract q) = OwnedInput i \<longrightarrow>
          i < length (hr_owners q) \<and> ht_generation (hr_owners q ! i) \<noteq> - 1)"

lemma preflight_Ok: "preflight q r = Ok u \<longleftrightarrow> call_admissible q r"
proof -
  have rows: "(\<forall>(t, req)\<in>set (zip (hr_owners q) (hc_inputs (hr_contract q))). \<exists>ow. host_lookup t r = Ok ow \<and> ho_state ow = Live
          \<and> compare_contract (ho_provenance ow) (hr_contract q) req (hr_thread q) = Ok ()) \<longleftrightarrow>
     (\<forall>i<length (hr_owners q). \<exists>ow. host_lookup (hr_owners q ! i) r = Ok ow \<and> ho_state ow = Live
          \<and> compare_contract (ho_provenance ow) (hr_contract q) (hc_inputs (hr_contract q) ! i) (hr_thread q) = Ok ())"
    if "length (hr_owners q) = length (hc_inputs (hr_contract q))"
    using that by (fastforce simp: set_zip)
  have gen: "host_lookup t r = Ok ow \<Longrightarrow> ho_generation ow = ht_generation t" for t ow
    by (simp add: lookup_Ok_iff)
  show ?thesis
    unfolding preflight_def call_admissible_def
    using rows by (auto simp: res_iff check_owners_Ok not_le gen split: host_result_plan.splits if_splits; metis gen)
qed

lemma owner_payloads_Ok:
  "\<forall>t\<in>set ts. \<exists>ow. host_lookup t r = Ok ow \<Longrightarrow>
     owner_payloads ts r = Ok (map (\<lambda>t. ho_payload (the (owner_at r (ht_slot t)))) ts)"
proof (induction ts)
  case (Cons t ts)
  then obtain ow where ow: "host_lookup t r = Ok ow" by auto
  then have "owner_at r (ht_slot t) = Some ow" by (simp add: lookup_Ok_iff)
  then show ?case using Cons ow by simp
qed simp

definition token_payloads :: "host_token list \<Rightarrow> host_registry \<Rightarrow> u64 list" where
  "token_payloads ts r = map (\<lambda>t. ho_payload (the (owner_at r (ht_slot t)))) ts"

text \<open>The plan of an admissible request.\<close>

definition call_plan :: "host_request \<Rightarrow> host_registry \<Rightarrow> host_plan" where
  "call_plan q r = \<lparr>pl_nonce = hg_nonce r, pl_sequence = hg_next_invocation r,
     pl_result_slot = (case hc_result (hr_contract q) of
        ScalarResult \<Rightarrow> None | OwnedInput i \<Rightarrow> Some (ht_slot (hr_owners q ! i))),
     pl_tokens = hr_owners q, pl_slots = map ht_slot (hr_owners q),
     pl_resources = token_payloads (hr_owners q) r, pl_payloads = token_payloads (hr_owners q) r\<rparr>"

lemma admissible_lookup: "call_admissible q r \<Longrightarrow> t \<in> set (hr_owners q) \<Longrightarrow>
    \<exists>ow. host_lookup t r = Ok ow \<and> ho_state ow = Live"
  unfolding call_admissible_def in_set_conv_nth by blast

lemma plan_call_Ok: "plan_call q r = Ok p \<longleftrightarrow> call_admissible q r \<and> p = call_plan q r"
proof (cases "call_admissible q r")
  case True
  then have pre: "preflight q r = Ok ()" by (simp add: preflight_Ok)
  have "owner_payloads (hr_owners q) r = Ok (token_payloads (hr_owners q) r)"
    unfolding token_payloads_def using admissible_lookup[OF True] by (blast intro: owner_payloads_Ok)
  then show ?thesis
    using True pre
    by (auto simp: plan_call_def call_plan_def call_admissible_def Let_def not_le split: host_result_plan.splits)
next
  case False
  then show ?thesis by (auto simp: plan_call_def res_iff preflight_Ok)
qed

lemma plan_call_no_panic:
  assumes "\<forall>i. hc_result (hr_contract q) = OwnedInput i \<longrightarrow> i < length (hc_inputs (hr_contract q))"
  shows "plan_call q r \<noteq> Panic"
proof
  assume bad: "plan_call q r = Panic"
  show False
  proof (cases "call_admissible q r")
    case True
    then show False using bad plan_call_Ok[of q r "call_plan q r"] by simp
  next
    case False
    then have "preflight q r = Panic"
      using bad preflight_Ok[of q r "()"] by (auto simp: plan_call_def res_iff)
    then show False
      using assms by (auto simp: preflight_def res_iff check_owners_no_panic split: host_result_plan.splits if_splits)
  qed
qed

section \<open>Committing\<close>

text \<open>What every plan the registry hands out satisfies, and what validity adds at commit time.\<close>

definition plan_ok :: "host_plan \<Rightarrow> bool" where
  "plan_ok p \<longleftrightarrow> distinct (pl_tokens p) \<and> pl_slots p = map ht_slot (pl_tokens p)"

definition plan_current :: "host_plan \<Rightarrow> host_registry \<Rightarrow> bool" where
  "plan_current p r \<longleftrightarrow>
     \<not> hg_poisoned r \<and> hg_active r = None \<and> pl_nonce p = hg_nonce r \<and> pl_sequence p = hg_next_invocation r
     \<and> pl_slots p = map ht_slot (pl_tokens p)
     \<and> (\<forall>t\<in>set (pl_tokens p). live_owner r t)
     \<and> pl_resources p = token_payloads (pl_tokens p) r \<and> pl_payloads p = token_payloads (pl_tokens p) r
     \<and> (\<forall>slot. pl_result_slot p = Some slot \<longrightarrow> slot \<in> set (pl_slots p))"

lemma validate_rows_Ok:
  "length ts = length slots \<Longrightarrow> length ts = length resources \<Longrightarrow> length ts = length payloads \<Longrightarrow>
     validate_rows r ts slots resources payloads = Ok u \<longleftrightarrow>
       slots = map ht_slot ts \<and> (\<forall>t\<in>set ts. live_owner r t)
       \<and> resources = token_payloads ts r \<and> payloads = token_payloads ts r"
proof (induction r ts slots resources payloads rule: validate_rows.induct)
  case (1 r t ts slot slots resource resources payload payloads)
  show ?case
  proof (cases "host_lookup t r")
    case (Ok ow)
    have at: "owner_at r (ht_slot t) = Some ow" using Ok by (simp add: lookup_Ok_iff)
    show ?thesis
    proof (cases "ht_slot t = slot \<and> ho_state ow = Live \<and> ho_payload ow = payload \<and> ho_payload ow = resource")
      case True
      have eq: "validate_rows r (t # ts) (slot # slots) (resource # resources) (payload # payloads) =
          validate_rows r ts slots resources payloads"
        using True Ok by auto
      have ih: "validate_rows r ts slots resources payloads = Ok u \<longleftrightarrow>
          slots = map ht_slot ts \<and> (\<forall>t\<in>set ts. live_owner r t)
          \<and> resources = token_payloads ts r \<and> payloads = token_payloads ts r"
        by (rule 1(1)[OF _ Ok]) (use True 1(2-4) in auto)
      have row: "live_owner r t" "ho_payload (the (owner_at r (ht_slot t))) = payload" "payload = resource"
        using True Ok at by (auto simp: live_owner_def)
      show ?thesis
        unfolding eq ih using row True by (simp add: token_payloads_def)
    next
      case False
      then show ?thesis using Ok at by (auto simp: live_owner_def token_payloads_def)
    qed
  qed (auto simp: live_owner_def)
qed (auto simp: token_payloads_def)

lemma validate_plan_Ok: "validate_plan p r = Ok u \<longleftrightarrow> plan_current p r"
proof (cases "length (pl_tokens p) = length (pl_slots p) \<and> length (pl_tokens p) = length (pl_resources p)
    \<and> length (pl_tokens p) = length (pl_payloads p)")
  case True
  then show ?thesis
    by (auto simp: validate_plan_def plan_current_def res_iff validate_rows_Ok split: option.splits)
next
  case False
  then show ?thesis
    by (auto simp: validate_plan_def plan_current_def token_payloads_def)
qed

lemma current_distinct_slots:
  assumes "plan_current p r" and "plan_ok p"
  shows "distinct (map ht_slot (pl_tokens p))"
proof -
  have "inj_on ht_slot (set (pl_tokens p))"
  proof (rule inj_onI)
    fix t u assume "t \<in> set (pl_tokens p)" "u \<in> set (pl_tokens p)" and slot: "ht_slot t = ht_slot u"
    then have "live_owner r t" "live_owner r u"
      using assms(1) by (auto simp: plan_current_def)
    then show "t = u" using slot by (auto simp: live_owner_def lookup_Ok_iff)
  qed
  then show ?thesis using assms(2) by (simp add: plan_ok_def distinct_map)
qed

text \<open>The registry a commit leaves, given the rewritten owners.\<close>

definition committed :: "host_plan \<Rightarrow> (u64, host_owner) bmap \<Rightarrow> host_registry \<Rightarrow> host_registry" where
  "committed p m r = r\<lparr>hg_next_invocation := hg_next_invocation r + 1, hg_owners := m,
     hg_active := Some \<lparr>ac_sequence = hg_next_invocation r, ac_slots = pl_slots p\<rparr>\<rparr>"

definition plan_invocation :: "host_plan \<Rightarrow> host_invocation" where
  "plan_invocation p = \<lparr>iv_sequence = pl_sequence p, iv_result_slot = pl_result_slot p,
     iv_resources = pl_resources p, iv_payloads = pl_payloads p\<rparr>"

lemma max_next: "(n :: u64) \<noteq> - 1 \<Longrightarrow> u_checked_add n 1 = Some (n + 1)"
  using word_less_Suc[of n]
  by (auto simp: u_checked_add_def word_less_nat_alt unat_word_ariths)

lemma commit_plan_exact:
  assumes p: "plan_ok p" and cur: "plan_current p r" and inv: "hg_next_invocation r \<noteq> - 1"
  shows "\<exists>m. commit_plan p r = (Ok (plan_invocation p), committed p m r)
     \<and> rewrite_owners (\<lambda>_ ow. ow\<lparr>ho_state := InInvocation (hg_next_invocation r)\<rparr>)
          (set (pl_slots p)) (hg_owners r) m"
proof -
  have seq: "pl_sequence p = hg_next_invocation r" and slots: "pl_slots p = map ht_slot (pl_tokens p)"
    using cur by (auto simp: plan_current_def)
  have "\<forall>t\<in>set (pl_tokens p). bm_get (hg_owners r) (ht_slot t) \<noteq> None"
    using cur by (auto simp: plan_current_def live_owner_def lookup_Ok_iff owner_at_def)
  then obtain m where m: "hold_owners (pl_sequence p) (pl_tokens p) (hg_owners r) = (True, m)"
    and rw: "rewrite_owners (\<lambda>_ ow. ow\<lparr>ho_state := InInvocation (pl_sequence p)\<rparr>)
       (set (map ht_slot (pl_tokens p))) (hg_owners r) m"
    using hold_owners_exact[OF current_distinct_slots[OF cur p]] by blast
  have "commit_plan p r = (Ok (plan_invocation p), committed p m r)"
    using validate_plan_Ok[of p r "()"] cur m
    by (simp add: commit_plan_def max_next[OF inv] committed_def plan_invocation_def seq Let_def)
  then show ?thesis using rw seq slots by metis
qed

lemma commit_plan_rejects: "\<not> plan_current p r \<Longrightarrow> \<exists>e. commit_plan p r = (Err e, r) \<or> commit_plan p r = (Panic, r)"
  using validate_plan_Ok[of p r "()"] by (auto simp: commit_plan_def split: res.splits)

lemma commit_plan_move:
  assumes ok: "ledger_ok r" and p: "plan_ok p"
  shows "ledger_move k r (snd (commit_plan p r))"
proof (cases "plan_current p r \<and> hg_next_invocation r \<noteq> - 1")
  case True
  then obtain m where c: "commit_plan p r = (Ok (plan_invocation p), committed p m r)"
    and rw: "rewrite_owners (\<lambda>_ ow. ow\<lparr>ho_state := InInvocation (hg_next_invocation r)\<rparr>)
          (set (pl_slots p)) (hg_owners r) m"
    using commit_plan_exact[OF p] by blast
  have slots: "pl_slots p = map ht_slot (pl_tokens p)" and idle: "hg_active r = None"
    and live: "\<forall>t\<in>set (pl_tokens p). live_owner r t"
    using True by (auto simp: plan_current_def)
  have dist: "distinct (pl_slots p)"
    unfolding slots using current_distinct_slots True p by blast
  have lv: "\<forall>s\<in>set (pl_slots p). \<exists>ow. owner_at r s = Some ow \<and> ho_state ow = Live"
    using live slots by (auto simp: live_owner_def lookup_Ok_iff)
  show ?thesis
    unfolding c committed_def snd_conv
    by (rule Mv_Commit[OF idle max_next dist lv rw]) (use True in blast)
next
  case False
  then have "snd (commit_plan p r) = r"
  proof (cases "plan_current p r")
    case True
    then have "u_checked_add (hg_next_invocation r) 1 = None" using False by (simp add: u_checked_add_def unat_max_word)
    then show ?thesis by (simp add: commit_plan_def split: res.splits)
  next
    case False
    then show ?thesis using commit_plan_rejects[OF False] by auto
  qed
  then show ?thesis by (simp add: move_same)
qed

lemma call_plan_ok: "call_admissible q r \<Longrightarrow> plan_ok (call_plan q r)"
  by (simp add: plan_ok_def call_plan_def call_admissible_def)

lemma call_plan_current: "call_admissible q r \<Longrightarrow> plan_current (call_plan q r) r"
  using admissible_lookup[of q r]
  by (auto simp: plan_current_def call_plan_def call_admissible_def live_owner_def split: host_result_plan.splits)

lemma prepare_call_exact:
  assumes adm: "call_admissible q r"
  shows "\<exists>m. prepare_call q r = (Ok (plan_invocation (call_plan q r)), committed (call_plan q r) m r)
     \<and> rewrite_owners (\<lambda>_ ow. ow\<lparr>ho_state := InInvocation (hg_next_invocation r)\<rparr>)
          (set (map ht_slot (hr_owners q))) (hg_owners r) m"
proof -
  have "plan_call q r = Ok (call_plan q r)" using adm by (simp add: plan_call_Ok)
  moreover have "hg_next_invocation r \<noteq> - 1" using adm by (simp add: call_admissible_def)
  ultimately show ?thesis
    using commit_plan_exact[OF call_plan_ok[OF adm] call_plan_current[OF adm]]
    by (simp add: prepare_call_def call_plan_def)
qed

lemma prepare_call_rejects:
  "\<not> call_admissible q r \<Longrightarrow> snd (prepare_call q r) = r \<and> (\<forall>iv. fst (prepare_call q r) \<noteq> Ok iv)"
  using plan_call_Ok[of q r] by (auto simp: prepare_call_def split: res.splits)

lemma prepare_call_move: "ledger_ok r \<Longrightarrow> ledger_move k r (snd (prepare_call q r))"
proof (cases "call_admissible q r")
  case True
  assume ok: "ledger_ok r"
  have "plan_call q r = Ok (call_plan q r)" using True by (simp add: plan_call_Ok)
  then show ?thesis using commit_plan_move[OF ok call_plan_ok[OF True]] by (simp add: prepare_call_def)
next
  case False
  then show ?thesis using prepare_call_rejects[OF False] by (simp add: move_same)
qed

section \<open>Completing\<close>

lemma active_rows:
  assumes "ledger_ok r" and "hg_active r = Some call"
  shows "distinct (ac_slots call)"
    and "s \<in> set (ac_slots call) \<Longrightarrow> \<exists>ow. owner_at r s = Some ow \<and> ho_state ow = InInvocation (ac_sequence call)"
  using assms unfolding ledger_ok_def held_by_def by (auto; blast)+

lemma finish_guard_iff:
  "finish_guard q published slots m \<longleftrightarrow>
     (\<forall>s\<in>set slots. \<exists>ow. bm_get m s = Some ow \<and> ho_state ow = InInvocation q
        \<and> (published = Some s \<longrightarrow> ho_generation ow < - 1))"
  by (induction slots) (auto split: option.splits)

lemma checked_guard_iff:
  "checked_guard q published expected slots m \<longleftrightarrow>
     (\<forall>s\<in>set slots. \<exists>ow. bm_get m s = Some ow \<and> ho_state ow = InInvocation q
        \<and> (s = published \<longrightarrow> u_checked_add (ho_generation ow) 1 = Some expected))"
  by (induction slots) (auto split: option.splits)

lemma below_max: "(g :: u64) < - 1 \<longleftrightarrow> g \<noteq> - 1"
  by (simp add: order.strict_iff_order)

definition next_token :: "host_registry \<Rightarrow> u64 \<Rightarrow> host_token" where
  "next_token r s = \<lparr>ht_nonce = hg_nonce r, ht_slot = s, ht_generation = ho_generation (the (owner_at r s)) + 1\<rparr>"

definition finish_value ::
  "host_registry \<Rightarrow> u64 option \<Rightarrow> i64 option \<Rightarrow> normalized_status option \<Rightarrow> host_outcome" where
  "finish_value r published scalar failure =
     (case failure of
        Some status \<Rightarrow> ExecutedFailure status
      | None \<Rightarrow>
        (case published of
           Some s \<Rightarrow> ExecutedSuccess (PublishedOwner (next_token r s))
         | None \<Rightarrow> ExecutedSuccess (PublishedScalar (the scalar))))"

text \<open>When the completion of an active call is accepted.\<close>

definition finishable :: "u64 \<Rightarrow> u64 option \<Rightarrow> i64 option \<Rightarrow> normalized_status option \<Rightarrow> host_registry \<Rightarrow> bool" where
  "finishable q published scalar failure r \<longleftrightarrow>
     (\<exists>call. hg_active r = Some call \<and> ac_sequence call = q \<and> one_outcome published scalar failure
        \<and> (\<forall>s. published = Some s \<longrightarrow> s \<in> set (ac_slots call) \<and> ho_generation (the (owner_at r s)) \<noteq> - 1))"

lemma host_finish_exact:
  assumes ok: "ledger_ok r" and act: "hg_active r = Some call"
    and fin: "finishable (ac_sequence call) published scalar failure r"
  shows "\<exists>m. host_finish (ac_sequence call) published scalar failure r =
      (Ok (finish_value r published scalar failure), r\<lparr>hg_active := None, hg_owners := m\<rparr>)
    \<and> rewrite_owners (settled published) (set (ac_slots call)) (hg_owners r) m"
proof -
  have one: "one_outcome published scalar failure"
    and pub: "published = Some s \<Longrightarrow> s \<in> set (ac_slots call) \<and> ho_generation (the (owner_at r s)) \<noteq> - 1" for s
    using fin act by (auto simp: finishable_def)
  have guard: "finish_guard (ac_sequence call) published (ac_slots call) (hg_owners r)"
    unfolding finish_guard_iff below_max using active_rows(2)[OF ok act] pub
    by (fastforce simp: owner_at_def)
  obtain m where m: "settle_slots (hg_nonce r) published (ac_slots call) None (hg_owners r) =
      (True, map_option (next_token r) published, m)"
    and rw: "rewrite_owners (settled published) (set (ac_slots call)) (hg_owners r) m"
    using settle_slots_exact[OF active_rows(1)[OF ok act] guard, of "hg_nonce r" None] pub
    by (auto simp: next_token_def owner_at_def split: option.splits)
  have "host_finish (ac_sequence call) published scalar failure r =
      (Ok (finish_value r published scalar failure), r\<lparr>hg_active := None, hg_owners := m\<rparr>)"
  proof -
    have pass: "\<not> (ac_sequence call \<noteq> ac_sequence call \<or> \<not> one_outcome published scalar failure
           \<or> (case published of None \<Rightarrow> False | Some slot \<Rightarrow> slot \<notin> set (ac_slots call))
           \<or> \<not> finish_guard (ac_sequence call) published (ac_slots call) (hg_owners r))"
      using one pub guard by (auto split: option.splits)
    from one consider v where "published = None" "scalar = Some v" "failure = None"
      | s where "published = Some s" "scalar = None" "failure = None"
      | st where "published = None" "scalar = None" "failure = Some st"
      by (auto simp: one_outcome_def)
    then show ?thesis
      unfolding host_finish_def act option.case if_not_P[OF pass] m Let_def prod.case
      by cases (simp_all add: finish_value_def)
  qed
  then show ?thesis using rw by blast
qed

lemma host_finish_refuses:
  assumes ok: "ledger_ok r" and no: "\<not> finishable q published scalar failure r"
  shows "host_finish q published scalar failure r = (Panic, r)"
proof (cases "hg_active r")
  case None
  then show ?thesis by (simp add: host_finish_def)
next
  case (Some call)
  have "ac_sequence call \<noteq> q \<or> \<not> one_outcome published scalar failure
           \<or> (case published of None \<Rightarrow> False | Some slot \<Rightarrow> slot \<notin> set (ac_slots call))
           \<or> \<not> finish_guard q published (ac_slots call) (hg_owners r)"
    using no Some unfolding finishable_def finish_guard_iff below_max
    by (fastforce simp: owner_at_def split: option.splits)
  then show ?thesis using Some by (simp add: host_finish_def)
qed

lemma finishable_active: "finishable q published scalar failure r \<Longrightarrow>
    \<exists>call. hg_active r = Some call \<and> ac_sequence call = q"
  by (auto simp: finishable_def)

lemma settle_move:
  assumes "hg_active r = Some call" and "rewrite_owners (settled published) (set (ac_slots call)) (hg_owners r) m"
    and "\<forall>s. published = Some s \<longrightarrow> ho_generation (the (owner_at r s)) \<noteq> - 1"
  shows "ledger_move k r (r\<lparr>hg_active := None, hg_owners := m\<rparr>)"
proof -
  have "ledger_move k r (r\<lparr>hg_active := None, hg_owners := m, hg_last_abandonment := hg_last_abandonment r,
      hg_poisoned := hg_poisoned r\<rparr>)"
    by (rule Mv_Settle[OF assms(1) _ assms(2)]) (use assms(3) in auto)
  moreover have "r\<lparr>hg_active := None, hg_owners := m, hg_last_abandonment := hg_last_abandonment r,
      hg_poisoned := hg_poisoned r\<rparr> = r\<lparr>hg_active := None, hg_owners := m\<rparr>"
    by simp
  ultimately show ?thesis by simp
qed

lemma host_finish_move:
  assumes ok: "ledger_ok r"
  shows "ledger_move k r (snd (host_finish q published scalar failure r))"
proof (cases "finishable q published scalar failure r")
  case True
  obtain call where act: "hg_active r = Some call" and q: "q = ac_sequence call"
    using finishable_active[OF True] by blast
  obtain m where fin: "host_finish q published scalar failure r =
      (Ok (finish_value r published scalar failure), r\<lparr>hg_active := None, hg_owners := m\<rparr>)"
    and rw: "rewrite_owners (settled published) (set (ac_slots call)) (hg_owners r) m"
    using host_finish_exact[OF ok act] True q by blast
  show ?thesis
    unfolding fin snd_conv by (rule settle_move[OF act rw]) (use True in \<open>auto simp: finishable_def\<close>)
next
  case False
  then show ?thesis by (simp add: host_finish_refuses[OF ok] move_same)
qed

lemma finish_checked_exact:
  assumes ok: "ledger_ok r" and act: "hg_active r = Some call"
    and slot: "s \<in> set (ac_slots call)" and gen: "ho_generation (the (owner_at r s)) \<noteq> - 1"
  shows "\<exists>m. finish_checked (ac_sequence call) s (next_token r s) r =
      (Ok (ExecutedSuccess (PublishedOwner (next_token r s))), r\<lparr>hg_active := None, hg_owners := m\<rparr>)
    \<and> rewrite_owners (settled (Some s)) (set (ac_slots call)) (hg_owners r) m"
proof -
  have guard: "checked_guard (ac_sequence call) s (ht_generation (next_token r s)) (ac_slots call) (hg_owners r)"
    unfolding checked_guard_iff next_token_def using active_rows(2)[OF ok act] gen max_next
    by (fastforce simp: owner_at_def)
  then show ?thesis
    using checked_settle_exact[OF active_rows(1)[OF ok act] guard] act slot
    by (auto simp: finish_checked_def Let_def next_token_def)
qed

lemma finish_checked_cases:
  assumes ok: "ledger_ok r"
  shows "finish_checked q s t r = (Err Hr_StalePlan, r)
    \<or> (\<exists>call. hg_active r = Some call \<and> q = ac_sequence call \<and> s \<in> set (ac_slots call)
         \<and> ho_generation (the (owner_at r s)) \<noteq> - 1 \<and> t = next_token r s)"
proof (cases "\<exists>call. hg_active r = Some call \<and> q = ac_sequence call \<and> s \<in> set (ac_slots call)
    \<and> ht_nonce t = hg_nonce r \<and> ht_slot t = s \<and> checked_guard q s (ht_generation t) (ac_slots call) (hg_owners r)")
  case True
  then obtain call where c: "hg_active r = Some call" "q = ac_sequence call" "s \<in> set (ac_slots call)"
    "ht_nonce t = hg_nonce r" "ht_slot t = s" "checked_guard q s (ht_generation t) (ac_slots call) (hg_owners r)"
    by blast
  then obtain ow where ow: "owner_at r s = Some ow" "u_checked_add (ho_generation ow) 1 = Some (ht_generation t)"
    unfolding checked_guard_iff owner_at_def by blast
  have gen: "ht_generation t = ho_generation ow + 1" using next_nonzero[OF ow(2)] by simp
  have "ho_generation ow \<noteq> - 1" using next_nonzero[OF ow(2)] by auto
  then show ?thesis using c ow(1) gen by (auto simp: next_token_def)
next
  case False
  then show ?thesis by (auto simp: finish_checked_def split: option.splits)
qed

lemma finish_checked_move:
  assumes ok: "ledger_ok r"
  shows "ledger_move k r (snd (finish_checked q s t r))"
  using finish_checked_cases[OF ok, of q s t]
proof (elim disjE exE conjE)
  fix call assume a: "hg_active r = Some call" "q = ac_sequence call" "s \<in> set (ac_slots call)"
    "ho_generation (the (owner_at r s)) \<noteq> - 1" "t = next_token r s"
  obtain m where "finish_checked q s t r =
      (Ok (ExecutedSuccess (PublishedOwner (next_token r s))), r\<lparr>hg_active := None, hg_owners := m\<rparr>)"
    and rw: "rewrite_owners (settled (Some s)) (set (ac_slots call)) (hg_owners r) m"
    using finish_checked_exact[OF ok a(1) a(3) a(4)] a(2,5) by blast
  then show ?thesis using settle_move[OF a(1) rw] a(4) by simp
qed (simp add: move_same)

lemma abandon_exact:
  assumes ok: "ledger_ok r" and act: "hg_active r = Some call"
  shows "\<exists>m. abandon q r = r\<lparr>hg_active := None, hg_owners := m, hg_last_abandonment := True,
        hg_poisoned := hg_poisoned r \<or> ac_sequence call \<noteq> q\<rparr>
    \<and> rewrite_owners (settled None) (set (ac_slots call)) (hg_owners r) m"
proof -
  let ?p = "hg_poisoned r \<or> ac_sequence call \<noteq> q"
  let ?x = "abandon_slots q (ac_slots call) ?p (hg_owners r)"
  have flag: "fst ?x = ?p"
    using abandon_slots_flag[OF active_rows(1)[OF ok act], of q ?p "hg_owners r"] active_rows(2)[OF ok act]
    by (auto simp: owner_at_def)
  have "abandon q r = r\<lparr>hg_active := None, hg_owners := snd ?x, hg_last_abandonment := True, hg_poisoned := fst ?x\<rparr>"
    using act by (simp add: abandon_def Let_def split: prod.splits)
  then show ?thesis
    unfolding flag using abandon_slots_exact[OF active_rows(1)[OF ok act]] by blast
qed

lemma abandon_ledger_move:
  assumes ok: "ledger_ok r"
  shows "ledger_move k r (abandon q r)"
proof (cases "hg_active r")
  case None
  then have "abandon q r = r\<lparr>hg_last_abandonment := True, hg_poisoned := True\<rparr>"
    by (simp add: abandon_def)
  then show ?thesis using Mv_Flags[where k = k and r = r and b = True and p = True] by simp
next
  case (Some call)
  then show ?thesis using abandon_exact[OF ok Some, of q] Mv_Settle[of r call None] by auto
qed

end
