(* ===== verification/HostProps.thy ===== *)
theory HostProps
  imports HostMoves
begin

text \<open>
  The machine of the host ledger (\<open>src/host_ownership.rs\<close>): its invariant over any run, and the
  lifecycle of tokens, which only a rollback can turn back.
\<close>

section \<open>Every operation is a sequence of moves\<close>

definition ledger_moves :: "bool \<Rightarrow> host_registry \<Rightarrow> host_registry \<Rightarrow> bool" where
  "ledger_moves k r r' \<longleftrightarrow> (ledger_move k)\<^sup>*\<^sup>* r r'"

lemma moves_one: "ledger_move k r r' \<Longrightarrow> ledger_moves k r r'"
  by (simp add: ledger_moves_def)

lemma moves_refl [simp]: "ledger_moves k r r"
  by (simp add: ledger_moves_def)

lemma moves_trans: "ledger_moves k r s \<Longrightarrow> ledger_moves k s t \<Longrightarrow> ledger_moves k r t"
  by (simp add: ledger_moves_def)

lemma moves_ok: "ledger_moves k r r' \<Longrightarrow> ledger_ok r \<Longrightarrow> ledger_ok r'"
  unfolding ledger_moves_def by (induction rule: rtranclp_induct) (auto intro: move_ok)

lemma register_moves: "ledger_moves k r (snd (register_adapter_owner p payload r))"
  by (auto simp: register_adapter_owner_def split: option.splits intro!: moves_one Mv_Register)

lemma rollback_moves: "ledger_moves True r (snd (rollback_adapter_owner t r))"
  by (auto simp: rollback_adapter_owner_def owner_at_def split: option.splits
      intro!: moves_one Mv_Rollback[where ow = "the (bm_get (hg_owners r) (ht_slot t))"])

lemma retire_moves: "ledger_moves k r (snd (retire_owner t r))"
  by (auto simp: retire_owner_def lookup_Ok_iff split: res.splits intro!: moves_one Mv_Retire)

lemma take_abandonment_moves: "ledger_moves k r (snd (take_last_abandonment r))"
proof -
  have "snd (take_last_abandonment r) = r\<lparr>hg_last_abandonment := False, hg_poisoned := hg_poisoned r\<rparr>"
    by (simp add: take_last_abandonment_def take_last_abandonment_flag_def)
  then show ?thesis using moves_one[OF Mv_Flags[where k = k and r = r and b = False and p = "hg_poisoned r"]] by simp
qed

lemma complete_moves:
  assumes "ledger_ok r"
  shows "ledger_moves k r (snd (complete_prepared_scalar iv x r))"
    and "ledger_moves k r (snd (complete_prepared_owned iv y r))"
    and "ledger_moves k r (snd (complete_prepared_owned_expected iv t r))"
    and "ledger_moves k r (abandon_prepared iv r)"
  unfolding complete_prepared_scalar_def complete_prepared_owned_def complete_prepared_owned_expected_def
    abandon_prepared_def
  by (auto split: res.splits option.splits
      intro!: moves_one host_finish_move finish_checked_move abandon_ledger_move assms)

lemma guarded_moves:
  assumes ok: "ledger_ok r" and x: "ledger_moves k r (snd x)"
  shows "ledger_moves k r (snd (guarded q x))"
proof -
  have "snd (guarded q x) = snd x \<or> snd (guarded q x) = abandon q (snd x)"
    by (auto simp: guarded_def split: prod.splits res.splits)
  then show ?thesis
    using x moves_trans[OF x moves_one[OF abandon_ledger_move[OF moves_ok[OF x ok]]]] by metis
qed

lemma run_moves:
  assumes ok: "ledger_ok r"
  shows "ledger_moves k r (snd (run_scalar iv f r))" and "ledger_moves k r (snd (run_owned iv slot g r))"
  unfolding run_scalar_def run_owned_def Let_def
  by (auto split: res.splits intro!: guarded_moves moves_one[OF host_finish_move] moves_one[OF abandon_ledger_move] ok)

lemma execute_moves:
  assumes ok: "ledger_ok r"
  shows "ledger_moves k r (snd (execute_scalar q f r))" and "ledger_moves k r (snd (execute_owned q g r))"
proof -
  have one: "ledger_moves k r (snd (prepare_call q r))"
    by (rule moves_one[OF prepare_call_move[OF ok]])
  have ok1: "ledger_ok (snd (prepare_call q r))" by (rule moves_ok[OF one ok])
  note two = moves_trans[OF one run_moves(1)[OF ok1]] moves_trans[OF one run_moves(2)[OF ok1]]
  show "ledger_moves k r (snd (execute_scalar q f r))"
    using one two(1)
    by (cases "prepare_call q r"; cases "fst (prepare_call q r)") (auto simp: execute_scalar_def)
  show "ledger_moves k r (snd (execute_owned q g r))"
    using one two(2)
    by (cases "prepare_call q r"; cases "fst (prepare_call q r)") (auto simp: execute_owned_def split: option.splits)
qed

section \<open>The invariant of a world\<close>

text \<open>The plans handed out name distinct owners, and the ledger is consistent.\<close>

definition host_ok :: "host_world \<Rightarrow> bool" where
  "host_ok w \<longleftrightarrow> ledger_ok (hw_registry w) \<and> (\<forall>p\<in>set (hw_plans w). plan_ok p)"

definition is_rollback :: "host_call \<Rightarrow> bool" where
  "is_rollback c \<longleftrightarrow> (\<exists>t. c = Hc_Rollback t)"

lemma keep_call_reads [simp]:
  "hw_registry (keep_call x w) = snd x" "hw_plans (keep_call x w) = hw_plans w"
  by (auto simp: keep_call_def split: prod.splits res.splits)

lemma on_registry_reads [simp]:
  "hw_registry (on_registry f w) = f (hw_registry w)" "hw_plans (on_registry f w) = hw_plans w"
  by (simp_all add: on_registry_def)

lemma host_step_moves:
  assumes ok: "host_ok w" and k: "is_rollback c \<longrightarrow> k"
  shows "ledger_moves k (hw_registry w) (hw_registry (host_step w c))"
proof -
  have led: "ledger_ok (hw_registry w)" using ok by (simp add: host_ok_def)
  have commit: "i < length (hw_plans w) \<Longrightarrow> ledger_moves k (hw_registry w) (snd (commit_plan (hw_plans w ! i) (hw_registry w)))" for i
    using ok by (auto simp: host_ok_def intro!: moves_one commit_plan_move)
  show ?thesis
    using k rollback_moves
    by (cases c) (auto simp: is_rollback_def register_moves retire_moves take_abandonment_moves
        complete_moves[OF led] execute_moves[OF led] commit moves_one[OF prepare_call_move[OF led]]
        split: res.splits)
qed

lemma host_step_plans: "host_ok w \<Longrightarrow> p \<in> set (hw_plans (host_step w c)) \<Longrightarrow> plan_ok p"
  by (cases c) (auto simp: host_ok_def plan_call_Ok call_plan_ok split: res.splits if_splits)

lemma host_ok_step: "host_ok w \<Longrightarrow> host_ok (host_step w c)"
  using host_step_moves[of w c True] moves_ok host_step_plans by (auto simp: host_ok_def)

interpretation host: invariant_machine host_step host_ok
  by unfold_locales (rule host_ok_step)

lemma registry_try_new_ok: "registry_try_new counter = (Ok r, counter') \<Longrightarrow> host_ok (world_of r)"
  by (auto simp: registry_try_new_def host_ok_def ledger_ok_def world_of_def held_by_def owner_at_def
      split: option.splits)

section \<open>The lifecycle of a token\<close>

datatype token_phase = Unissued | Usable | Held | Spent

fun phase_rank :: "token_phase \<Rightarrow> nat" where
  "phase_rank Unissued = 0"
| "phase_rank Usable = 1"
| "phase_rank Held = 2"
| "phase_rank Spent = 3"

lemma phase_rank_inj: "phase_rank p = phase_rank q \<longleftrightarrow> p = q"
  by (cases p; cases q) simp_all

instantiation token_phase :: linorder
begin

definition less_eq_token_phase :: "token_phase \<Rightarrow> token_phase \<Rightarrow> bool" where
  "less_eq_token_phase p q \<longleftrightarrow> phase_rank p \<le> phase_rank q"

definition less_token_phase :: "token_phase \<Rightarrow> token_phase \<Rightarrow> bool" where
  "less_token_phase p q \<longleftrightarrow> phase_rank p < phase_rank q"

instance
  by intro_classes (auto simp: less_eq_token_phase_def less_token_phase_def phase_rank_inj)

end

definition owner_phase :: "u64 \<Rightarrow> host_owner \<Rightarrow> token_phase" where
  "owner_phase generation ow =
     (if generation < ho_generation ow then Spent
      else if ho_generation ow < generation then Unissued
      else (case ho_state ow of Live \<Rightarrow> Usable | InInvocation _ \<Rightarrow> Held | Dead \<Rightarrow> Spent))"

definition token_phase_of :: "host_registry \<Rightarrow> host_token \<Rightarrow> token_phase" where
  "token_phase_of r t =
     (if ht_nonce t \<noteq> hg_nonce r then Unissued
      else (case owner_at r (ht_slot t) of None \<Rightarrow> Unissued | Some ow \<Rightarrow> owner_phase (ht_generation t) ow))"

lemmas phase_order = less_eq_token_phase_def less_token_phase_def

lemma phase_bounds [simp]: "Unissued \<le> p" "p \<le> Spent"
  by (cases p; simp add: phase_order)+

lemma phase_rank_le [simp]: "phase_rank p \<le> 3"
  by (cases p) simp_all

lemma usable_iff: "token_phase_of r t = Usable \<longleftrightarrow> is_live t r"
  by (auto simp: token_phase_of_def owner_phase_def is_live_def host_lookup_def owner_at_def
      split: option.splits owner_state.splits)

lemma move_phase:
  assumes "ledger_move False r r'" and "ledger_ok r"
  shows "token_phase_of r t \<le> token_phase_of r' t \<and> hg_nonce r' = hg_nonce r"
  using assms
proof (cases rule: ledger_move.cases)
  case (Mv_Register n p payload)
  then show ?thesis using fresh_slot[OF assms(2)]
    by (auto simp: token_phase_of_def owner_at_def split: option.splits)
next
  case (Mv_Commit n slots m)
  have "owner_phase (ht_generation t) ow \<le> owner_phase (ht_generation t) (ow\<lparr>ho_state := InInvocation (hg_next_invocation r)\<rparr>)"
    if "ho_state ow = Live" for ow
    using that by (auto simp: owner_phase_def phase_order)
  then show ?thesis using Mv_Commit rewrite_owner_at[OF Mv_Commit(6)]
    by (auto simp: token_phase_of_def split: option.splits; fastforce)
next
  case (Mv_Settle call published m b p)
  have "owner_phase (ht_generation t) ow \<le> owner_phase (ht_generation t) (settled published (ht_slot t) ow)"
    if "published = Some (ht_slot t) \<longrightarrow> ho_generation ow \<noteq> - 1" for ow
    using that generation_next[of "ho_generation ow"]
    by (cases "ht_generation t" "ho_generation ow" rule: linorder_cases)
       (auto simp: owner_phase_def settled_def phase_order)
  then show ?thesis using Mv_Settle rewrite_owner_at[OF Mv_Settle(4)]
    by (auto simp: token_phase_of_def split: option.splits)
next
  case (Mv_Retire slot ow)
  then show ?thesis
    by (auto simp: token_phase_of_def owner_phase_def owner_at_def phase_order split: option.splits)
qed (simp_all add: token_phase_of_def owner_at_def)

end
