(* ===== verification/HostRuns.thy ===== *)
theory HostRuns
  imports HostProps
begin

text \<open>
  Whole calls of the host ledger (\<open>src/host_ownership.rs\<close>): the exact state after an execution
  that returns, fails or unwinds, and the order of invocation numbers over a run.
\<close>

section \<open>Completing an active call\<close>

text \<open>The owners after the committed slots of a call were settled.\<close>

definition after_call :: "u64 set \<Rightarrow> u64 option \<Rightarrow> host_registry \<Rightarrow> u64 \<Rightarrow> host_owner option" where
  "after_call slots published r s =
     (if s \<in> slots then map_option (settled published s) (owner_at r s) else owner_at r s)"

text \<open>The three results of trusted code, for a call that publishes \<open>published\<close> on success.\<close>

lemma run_exact:
  assumes ok: "ledger_ok r" and act: "hg_active r = Some call" and q: "iv_sequence iv = ac_sequence call"
  shows "f (iv_resources iv) = Ok v \<Longrightarrow>
      \<exists>m. run_scalar iv f r = (Ok (Executed (ExecutedSuccess (PublishedScalar v))), r\<lparr>hg_active := None, hg_owners := m\<rparr>)
        \<and> rewrite_owners (settled None) (set (ac_slots call)) (hg_owners r) m"
    and "f (iv_resources iv) = Err status \<Longrightarrow>
      \<exists>m. run_scalar iv f r = (Ok (Executed (ExecutedFailure status)), r\<lparr>hg_active := None, hg_owners := m\<rparr>)
        \<and> rewrite_owners (settled None) (set (ac_slots call)) (hg_owners r) m"
    and "g (iv_resources iv) = Ok () \<Longrightarrow> slot \<in> set (ac_slots call) \<Longrightarrow>
      ho_generation (the (owner_at r slot)) \<noteq> - 1 \<Longrightarrow>
      \<exists>m. run_owned iv slot g r = (Ok (Executed (ExecutedSuccess (PublishedOwner (next_token r slot)))),
            r\<lparr>hg_active := None, hg_owners := m\<rparr>)
        \<and> rewrite_owners (settled (Some slot)) (set (ac_slots call)) (hg_owners r) m"
    and "g (iv_resources iv) = Err status \<Longrightarrow>
      \<exists>m. run_owned iv slot g r = (Ok (Executed (ExecutedFailure status)), r\<lparr>hg_active := None, hg_owners := m\<rparr>)
        \<and> rewrite_owners (settled None) (set (ac_slots call)) (hg_owners r) m"
proof -
  note fin = host_finish_exact[OF ok act]
  show "\<exists>m. run_scalar iv f r = (Ok (Executed (ExecutedSuccess (PublishedScalar v))), r\<lparr>hg_active := None, hg_owners := m\<rparr>)
        \<and> rewrite_owners (settled None) (set (ac_slots call)) (hg_owners r) m" if "f (iv_resources iv) = Ok v"
    using fin[of None "Some v" None] act q that
    by (auto simp: finishable_def one_outcome_def run_scalar_def guarded_def finish_value_def Let_def)
  show "\<exists>m. run_scalar iv f r = (Ok (Executed (ExecutedFailure status)), r\<lparr>hg_active := None, hg_owners := m\<rparr>)
        \<and> rewrite_owners (settled None) (set (ac_slots call)) (hg_owners r) m" if "f (iv_resources iv) = Err status"
    using fin[of None None "Some status"] act q that
    by (auto simp: finishable_def one_outcome_def run_scalar_def guarded_def finish_value_def Let_def)
  show "\<exists>m. run_owned iv slot g r = (Ok (Executed (ExecutedSuccess (PublishedOwner (next_token r slot)))),
            r\<lparr>hg_active := None, hg_owners := m\<rparr>)
        \<and> rewrite_owners (settled (Some slot)) (set (ac_slots call)) (hg_owners r) m"
    if "g (iv_resources iv) = Ok ()" "slot \<in> set (ac_slots call)" "ho_generation (the (owner_at r slot)) \<noteq> - 1"
    using fin[of "Some slot" None None] act q that
    by (auto simp: finishable_def one_outcome_def run_owned_def guarded_def finish_value_def Let_def)
  show "\<exists>m. run_owned iv slot g r = (Ok (Executed (ExecutedFailure status)), r\<lparr>hg_active := None, hg_owners := m\<rparr>)
        \<and> rewrite_owners (settled None) (set (ac_slots call)) (hg_owners r) m" if "g (iv_resources iv) = Err status"
    using fin[of None None "Some status"] act q that
    by (auto simp: finishable_def one_outcome_def run_owned_def guarded_def finish_value_def Let_def)
qed

lemma run_unwinds:
  assumes ok: "ledger_ok r" and act: "hg_active r = Some call" and q: "iv_sequence iv = ac_sequence call"
    and live: "\<not> hg_poisoned r"
  shows "f (iv_resources iv) = Panic \<Longrightarrow>
      \<exists>m. run_scalar iv f r = (Panic, r\<lparr>hg_active := None, hg_owners := m, hg_last_abandonment := True,
             hg_poisoned := False\<rparr>)
        \<and> rewrite_owners (settled None) (set (ac_slots call)) (hg_owners r) m"
    and "g (iv_resources iv) = Panic \<Longrightarrow>
      \<exists>m. run_owned iv slot g r = (Panic, r\<lparr>hg_active := None, hg_owners := m, hg_last_abandonment := True,
             hg_poisoned := False\<rparr>)
        \<and> rewrite_owners (settled None) (set (ac_slots call)) (hg_owners r) m"
  using abandon_exact[OF ok act, of "ac_sequence call"] q live
  by (auto simp: run_scalar_def run_owned_def Let_def)

section \<open>A committed call\<close>

text \<open>The registry right after a commit, seen from the owners before it.\<close>

lemma committed_view:
  assumes adm: "call_admissible q r" and ok: "ledger_ok r"
    and m: "rewrite_owners (\<lambda>_ ow. ow\<lparr>ho_state := InInvocation (hg_next_invocation r)\<rparr>)
          (set (map ht_slot (hr_owners q))) (hg_owners r) m"
    and pc: "prepare_call q r = (Ok (plan_invocation (call_plan q r)), r1)" and r1: "r1 = committed (call_plan q r) m r"
  shows "ledger_ok r1"
    and "hg_active r1 = Some \<lparr>ac_sequence = hg_next_invocation r, ac_slots = map ht_slot (hr_owners q)\<rparr>"
    and "rewrite_owners (settled published) (set (map ht_slot (hr_owners q))) (hg_owners r1) m' \<Longrightarrow>
      bm_get m' = after_call (set (map ht_slot (hr_owners q))) published r"
    and "t \<in> set (hr_owners q) \<Longrightarrow> ht_generation t \<noteq> - 1 \<Longrightarrow>
      ho_generation (the (owner_at r1 (ht_slot t))) \<noteq> - 1
      \<and> next_token r1 (ht_slot t) = t\<lparr>ht_generation := ht_generation t + 1\<rparr>"
    and "hg_poisoned r1 = hg_poisoned r"
proof -
  show "ledger_ok r1" using move_ok[OF prepare_call_move[OF ok, of False q] ok] pc by simp
  show "hg_active r1 = Some \<lparr>ac_sequence = hg_next_invocation r, ac_slots = map ht_slot (hr_owners q)\<rparr>"
    by (simp add: r1 committed_def call_plan_def)
  have at1: "owner_at r1 s = (if s \<in> set (map ht_slot (hr_owners q))
      then map_option (\<lambda>ow. ow\<lparr>ho_state := InInvocation (hg_next_invocation r)\<rparr>) (owner_at r s) else owner_at r s)" for s
    using rewrite_owner_at[OF m] by (simp add: r1 committed_def)
  show "bm_get m' = after_call (set (map ht_slot (hr_owners q))) published r"
    if rw: "rewrite_owners (settled published) (set (map ht_slot (hr_owners q))) (hg_owners r1) m'"
  proof
    fix s
    have "settled published s (ow\<lparr>ho_state := InInvocation n\<rparr>) = settled published s ow" for ow n
      by (simp add: settled_def)
    then show "bm_get m' s = after_call (set (map ht_slot (hr_owners q))) published r s"
      unfolding rewrite_owner_at[OF rw] after_call_def at1 by (simp add: option.map_comp comp_def)
  qed
  show "ho_generation (the (owner_at r1 (ht_slot t))) \<noteq> - 1
      \<and> next_token r1 (ht_slot t) = t\<lparr>ht_generation := ht_generation t + 1\<rparr>"
    if t: "t \<in> set (hr_owners q)" and g: "ht_generation t \<noteq> - 1"
  proof -
    obtain ow where "host_lookup t r = Ok ow" using admissible_lookup[OF adm t] by blast
    then have "ht_nonce t = hg_nonce r" "owner_at r (ht_slot t) = Some ow" "ho_generation ow = ht_generation t"
      by (auto simp: lookup_Ok_iff)
    moreover have "hg_nonce r1 = hg_nonce r" by (simp add: r1 committed_def)
    ultimately show ?thesis using t g at1[of "ht_slot t"] by (simp add: next_token_def)
  qed
  show "hg_poisoned r1 = hg_poisoned r" by (simp add: r1 committed_def)
qed

lemma prepare_call_err:
  assumes "\<not> call_admissible q r"
    and "\<forall>i. hc_result (hr_contract q) = OwnedInput i \<longrightarrow> i < length (hc_inputs (hr_contract q))"
  shows "\<exists>e. prepare_call q r = (Err e, r)"
  using plan_call_no_panic[OF assms(2), of r] plan_call_Ok[of q r] assms(1)
  by (auto simp: prepare_call_def split: res.splits)

text \<open>An owned-result call right after its commit.\<close>

definition owned_commit ::
  "host_request \<Rightarrow> nat \<Rightarrow> host_registry \<Rightarrow> host_invocation \<Rightarrow> host_registry \<Rightarrow> active_call \<Rightarrow> bool" where
  "owned_commit q i r iv r1 call \<longleftrightarrow>
     (let t = hr_owners q ! i in
      ledger_ok r1 \<and> hg_active r1 = Some call \<and> \<not> hg_poisoned r1
      \<and> ac_slots call = map ht_slot (hr_owners q) \<and> ht_slot t \<in> set (ac_slots call)
      \<and> iv_sequence iv = ac_sequence call \<and> iv_resources iv = token_payloads (hr_owners q) r
      \<and> (\<forall>f. execute_owned q f r = run_owned iv (ht_slot t) f r1)
      \<and> ho_generation (the (owner_at r1 (ht_slot t))) \<noteq> - 1
      \<and> next_token r1 (ht_slot t) = t\<lparr>ht_generation := ht_generation t + 1\<rparr>
      \<and> (\<forall>published m. rewrite_owners (settled published) (set (ac_slots call)) (hg_owners r1) m \<longrightarrow>
           bm_get m = after_call (set (ac_slots call)) published r))"

lemma owned_commit_exists:
  assumes ok: "ledger_ok r" and res: "hc_result (hr_contract q) = OwnedInput i" and adm: "call_admissible q r"
  shows "\<exists>iv r1 call. owned_commit q i r iv r1 call"
proof -
  let ?iv = "plan_invocation (call_plan q r)" and ?t = "hr_owners q ! i"
  obtain m r1 where pc: "prepare_call q r = (Ok ?iv, r1)" and r1: "r1 = committed (call_plan q r) m r"
    and rw: "rewrite_owners (\<lambda>_ ow. ow\<lparr>ho_state := InInvocation (hg_next_invocation r)\<rparr>)
          (set (map ht_slot (hr_owners q))) (hg_owners r) m"
    using prepare_call_exact[OF adm] by blast
  note view = committed_view[OF adm ok rw pc r1]
  have t: "?t \<in> set (hr_owners q)" and gen: "ht_generation ?t \<noteq> - 1" and live: "\<not> hg_poisoned r"
    using adm res by (auto simp: call_admissible_def)
  have iv: "iv_sequence ?iv = hg_next_invocation r" "iv_resources ?iv = token_payloads (hr_owners q) r"
    "iv_result_slot ?iv = Some (ht_slot ?t)"
    using res by (simp_all add: plan_invocation_def call_plan_def)
  have exec: "execute_owned q f r = run_owned ?iv (ht_slot ?t) f r1" for f
    using pc res iv(3) by (simp add: execute_owned_def)
  have after: "rewrite_owners (settled published) (ht_slot ` set (hr_owners q)) (hg_owners r1) m' \<Longrightarrow>
      bm_get m' = after_call (ht_slot ` set (hr_owners q)) published r" for published m'
    using view(3)[of published m'] by simp
  have "owned_commit q i r ?iv r1 \<lparr>ac_sequence = hg_next_invocation r, ac_slots = map ht_slot (hr_owners q)\<rparr>"
    unfolding owned_commit_def Let_def
    using view(1,2,5) view(4)[OF t gen] t live iv(1,2) exec after by simp
  then show ?thesis by blast
qed

lemma owned_commitD:
  assumes "owned_commit q i r iv r1 call"
  shows "\<not> hg_poisoned r1"
    and "next_token r1 (ht_slot (hr_owners q ! i)) = (hr_owners q ! i)\<lparr>ht_generation := ht_generation (hr_owners q ! i) + 1\<rparr>"
  using assms by (simp_all add: owned_commit_def Let_def)

lemma owned_commit_runs:
  assumes c: "owned_commit q i r iv r1 call"
  defines "s \<equiv> ht_slot (hr_owners q ! i)" and "slots \<equiv> set (map ht_slot (hr_owners q))"
  shows "f (token_payloads (hr_owners q) r) = Ok () \<Longrightarrow>
      \<exists>m. execute_owned q f r = (Ok (Executed (ExecutedSuccess (PublishedOwner (next_token r1 s)))),
            r1\<lparr>hg_active := None, hg_owners := m\<rparr>) \<and> bm_get m = after_call slots (Some s) r"
    and "f (token_payloads (hr_owners q) r) = Err status \<Longrightarrow>
      \<exists>m. execute_owned q f r = (Ok (Executed (ExecutedFailure status)), r1\<lparr>hg_active := None, hg_owners := m\<rparr>)
        \<and> bm_get m = after_call slots None r"
    and "f (token_payloads (hr_owners q) r) = Panic \<Longrightarrow>
      \<exists>m. execute_owned q f r = (Panic, r1\<lparr>hg_active := None, hg_owners := m, hg_last_abandonment := True,
            hg_poisoned := False\<rparr>) \<and> bm_get m = after_call slots None r"
proof -
  have d: "ledger_ok r1" "hg_active r1 = Some call" "iv_sequence iv = ac_sequence call" "\<not> hg_poisoned r1"
    and iv: "iv_resources iv = token_payloads (hr_owners q) r" and exec: "execute_owned q f r = run_owned iv s f r1"
    and slot: "s \<in> set (ac_slots call)" "ho_generation (the (owner_at r1 s)) \<noteq> - 1" and slots: "set (ac_slots call) = slots"
    and after: "rewrite_owners (settled published) slots (hg_owners r1) m \<Longrightarrow> bm_get m = after_call slots published r" for published m
    using c by (auto simp: owned_commit_def Let_def s_def slots_def)
  note run = run_exact(3,4)[OF d(1-3), where g = f and slot = s, unfolded slots iv]
    run_unwinds(2)[OF d, where g = f and slot = s, unfolded slots iv]
  show "\<exists>m. execute_owned q f r = (Ok (Executed (ExecutedSuccess (PublishedOwner (next_token r1 s)))),
            r1\<lparr>hg_active := None, hg_owners := m\<rparr>) \<and> bm_get m = after_call slots (Some s) r"
    if "f (token_payloads (hr_owners q) r) = Ok ()"
    using run(1)[OF that slot[unfolded slots]] after unfolding exec by blast
  show "\<exists>m. execute_owned q f r = (Ok (Executed (ExecutedFailure status)), r1\<lparr>hg_active := None, hg_owners := m\<rparr>)
        \<and> bm_get m = after_call slots None r" if "f (token_payloads (hr_owners q) r) = Err status"
    using run(2)[OF that] after unfolding exec by blast
  show "\<exists>m. execute_owned q f r = (Panic, r1\<lparr>hg_active := None, hg_owners := m, hg_last_abandonment := True,
            hg_poisoned := False\<rparr>) \<and> bm_get m = after_call slots None r" if "f (token_payloads (hr_owners q) r) = Panic"
    using run(3)[OF that] after unfolding exec by blast
qed

section \<open>Numbers over a run\<close>

text \<open>
  Invocation numbers only grow, an active call is one of the start or has a number issued since,
  and the nonce stays.
\<close>

definition later :: "host_registry \<Rightarrow> host_registry \<Rightarrow> bool" where
  "later r r' \<longleftrightarrow> hg_nonce r' = hg_nonce r \<and> hg_next_invocation r \<le> hg_next_invocation r'
     \<and> (\<forall>call. hg_active r' = Some call \<longrightarrow> hg_active r = Some call \<or> hg_next_invocation r \<le> ac_sequence call)"

lemma later_refl: "later r r"
  by (simp add: later_def)

lemma later_trans: "later r s \<Longrightarrow> later s t \<Longrightarrow> later r t"
  unfolding later_def by (metis order_trans)

lemma move_later: "ledger_move k r r' \<Longrightarrow> later r r'"
  by (induction rule: ledger_move.induct) (auto simp: later_def dest: next_nonzero)

lemma moves_later: "ledger_moves k r r' \<Longrightarrow> later r r'"
  unfolding ledger_moves_def
  by (induction rule: rtranclp_induct) (auto intro: later_refl later_trans move_later)

text \<open>Worlds related by what a run may do: the invariant kept, numbers later, phases advanced.\<close>

definition world_later :: "host_world \<Rightarrow> host_world \<Rightarrow> bool" where
  "world_later w w' \<longleftrightarrow> (host_ok w \<longrightarrow> host_ok w' \<and> later (hw_registry w) (hw_registry w'))"

interpretation numbers: monotone_machine host_step world_later
proof unfold_locales
  show "world_later w w" for w by (simp add: world_later_def later_refl)
  show "world_later w x" if "world_later w v" "world_later v x" for w v x
    using that later_trans by (auto simp: world_later_def)
  show "world_later w (host_step w c)" for w c
    using host_ok_step host_step_moves[of w c True] moves_later by (auto simp: world_later_def)
qed

section \<open>Phases over a run\<close>

lemma moves_phase: "ledger_moves False r r' \<Longrightarrow> ledger_ok r \<Longrightarrow> token_phase_of r t \<le> token_phase_of r' t"
  unfolding ledger_moves_def
proof (induction rule: rtranclp_induct)
  case base
  then show ?case by simp
next
  case (step s u)
  have "ledger_ok s" using step(1,4) moves_ok by (auto simp: ledger_moves_def)
  then show ?case using move_phase[OF step(2)] step(3)[OF step(4)] by (meson order_trans)
qed

text \<open>The machine without rollback.\<close>

definition host_step_forward :: "host_world \<Rightarrow> host_call \<Rightarrow> host_world" where
  "host_step_forward w c = (if is_rollback c then w else host_step w c)"

definition phases_advance :: "host_world \<Rightarrow> host_world \<Rightarrow> bool" where
  "phases_advance w w' \<longleftrightarrow> (host_ok w \<longrightarrow>
     host_ok w' \<and> (\<forall>t. token_phase_of (hw_registry w) t \<le> token_phase_of (hw_registry w') t))"

interpretation phases: monotone_machine host_step_forward phases_advance
proof unfold_locales
  show "phases_advance w w" for w by (simp add: phases_advance_def)
  show "phases_advance w x" if "phases_advance w v" "phases_advance v x" for w v x
    using that by (auto simp: phases_advance_def intro: order_trans)
  show "phases_advance w (host_step_forward w c)" for w c
    using host_ok_step host_step_moves[of w c False] moves_phase
    by (auto simp: phases_advance_def host_step_forward_def host_ok_def)
qed

lemma forward_run: "\<forall>c\<in>set cs. \<not> is_rollback c \<Longrightarrow> foldl host_step_forward w cs = foldl host_step w cs"
  by (induction cs arbitrary: w) (auto simp: host_step_forward_def)

end
