(* ===== verification/HostClaims.thy ===== *)
theory HostClaims
  imports HostRuns
begin

text \<open>
  The properties of the host ledger (\<open>src/host_ownership.rs\<close>), with their witnesses.
\<close>

section \<open>A demonstration registry\<close>

definition demo_registry :: host_registry where
  "demo_registry = \<lparr>hg_schema = HOST_OWNERSHIP_SCHEMA_V1, hg_nonce = 7, hg_next_slot = 1,
     hg_next_invocation = 1, hg_owners = [], hg_active = None, hg_last_abandonment = False, hg_poisoned = False\<rparr>"

definition demo_provenance :: host_provenance where
  "demo_provenance = \<lparr>hp_module = ''m'', hp_adapter = ''a'', hp_resource_type = ''File'',
     hp_lifecycle = ''close'', hp_owner_thread = 3\<rparr>"

definition demo_contract :: "nat \<Rightarrow> host_result_plan \<Rightarrow> host_contract" where
  "demo_contract n result = \<lparr>hc_module = ''m'', hc_adapter = ''a'', hc_function = ''f'', hc_bound_thread = 3,
     hc_inputs = replicate n \<lparr>hq_resource_type = ''File'', hq_lifecycle = ''close''\<rparr>, hc_result = result\<rparr>"

definition demo_token :: "u64 \<Rightarrow> u64 \<Rightarrow> host_token" where
  "demo_token slot g = \<lparr>ht_nonce = 7, ht_slot = slot, ht_generation = g\<rparr>"

definition demo_request :: "host_token list \<Rightarrow> host_result_plan \<Rightarrow> host_request" where
  "demo_request ts result = \<lparr>hr_contract = demo_contract (length ts) result, hr_thread = 3, hr_owners = ts\<rparr>"

lemmas demo_defs = demo_registry_def demo_provenance_def demo_contract_def demo_token_def demo_request_def

lemma demo_new: "registry_try_new 7 = (Ok demo_registry, 8)"
  by (simp add: registry_try_new_def demo_defs u_checked_add_def bm_empty_def)

text \<open>Two owners registered.\<close>

definition demo_two :: host_registry where
  "demo_two = hw_registry (foldl host_step (world_of demo_registry)
     [Hc_Register demo_provenance 10, Hc_Register demo_provenance 20])"

lemma demo_two_value: "demo_two = demo_registry\<lparr>hg_next_slot := 3,
    hg_owners := [(1, \<lparr>ho_generation = 1, ho_provenance = demo_provenance, ho_payload = 10, ho_state = Live\<rparr>),
                  (2, \<lparr>ho_generation = 1, ho_provenance = demo_provenance, ho_payload = 20, ho_state = Live\<rparr>)]\<rparr>"
  by (simp add: demo_two_def world_of_def on_registry_def register_adapter_owner_def demo_registry_def
      u_checked_add_def)

lemma demo_two_ok: "ledger_ok demo_two"
  using host.inv_run[OF registry_try_new_ok[OF demo_new]] unfolding demo_two_def host_ok_def by blast

section \<open>Properties\<close>

text \<open>
  C15: over any sequence of registrations, rollbacks, plans, commits, completions, abandonments,
  retirements and executions, in any order and with any plan or invocation handed out so far, the
  owners marked as held are exactly those of the one active call, every plan names distinct owners,
  and slots, generations and invocation numbers stay in the range issued.
\<close>

theorem host_invariant:
  assumes "registry_try_new counter = (Ok r, counter')"
  shows "host_ok (foldl host_step (world_of r) calls)"
  by (rule host.inv_run[OF registry_try_new_ok[OF assms]])

lemma host_invariant_witness: "host_ok (foldl host_step (world_of demo_registry) [Hc_Register demo_provenance 10, Hc_Retire (demo_token 1 1)])"
  by (rule host_invariant[OF demo_new])

text \<open>
  A call takes all its inputs or none: it is prepared exactly when the request is admissible
  (every token names a live owner of this registry with the required provenance, no token twice,
  the right thread and number); then each input is held by the new invocation and nothing else
  changes, otherwise the registry is as before.
\<close>

theorem prepare_call_all_or_nothing:
  "case prepare_call q r of
     (Ok iv, r') \<Rightarrow>
       call_admissible q r
       \<and> iv_sequence iv = hg_next_invocation r \<and> iv_payloads iv = token_payloads (hr_owners q) r
       \<and> hg_active r' = Some \<lparr>ac_sequence = hg_next_invocation r, ac_slots = map ht_slot (hr_owners q)\<rparr>
       \<and> (\<forall>s. owner_at r' s =
            (if s \<in> ht_slot ` set (hr_owners q)
             then map_option (\<lambda>ow. ow\<lparr>ho_state := InInvocation (hg_next_invocation r)\<rparr>) (owner_at r s)
             else owner_at r s))
   | (_, r') \<Rightarrow> \<not> call_admissible q r \<and> r' = r"
proof (cases "call_admissible q r")
  case True
  obtain m where pc: "prepare_call q r = (Ok (plan_invocation (call_plan q r)), committed (call_plan q r) m r)"
    and rw: "rewrite_owners (\<lambda>_ ow. ow\<lparr>ho_state := InInvocation (hg_next_invocation r)\<rparr>)
          (set (map ht_slot (hr_owners q))) (hg_owners r) m"
    using prepare_call_exact[OF True] by blast
  show ?thesis
    using True rewrite_owner_at[OF rw]
    by (simp add: pc plan_invocation_def call_plan_def committed_def)
next
  case False
  then show ?thesis using prepare_call_rejects[OF False] by (auto split: prod.splits res.splits)
qed

text \<open>
  C13: an owned-result call of a well-formed contract either is rejected and changes nothing, or
  gives the trusted code the payloads of its inputs in order and settles every input exactly once:
  on success the result input is live again under the next generation and its new token is
  published; a failure publishes nothing; an unwinding is recorded and does not poison the registry.
  All other inputs are dead, all other owners are untouched, and no call stays active.
\<close>

theorem execute_owned_exact:
  assumes ok: "ledger_ok r"
    and contract: "contract_try_new m a fn th inputs (OwnedInput i) = Ok (hr_contract q)"
  defines "slots \<equiv> map ht_slot (hr_owners q)" and "t \<equiv> hr_owners q ! i"
  shows "if call_admissible q r
    then (let (x, r') = execute_owned q f r in
      hg_active r' = None \<and> \<not> hg_poisoned r'
      \<and> (case f (token_payloads (hr_owners q) r) of
           Ok _ \<Rightarrow> x = Ok (Executed (ExecutedSuccess (PublishedOwner (t\<lparr>ht_generation := ht_generation t + 1\<rparr>))))
             \<and> owner_at r' = after_call (set slots) (Some (ht_slot t)) r
         | Err status \<Rightarrow> x = Ok (Executed (ExecutedFailure status)) \<and> owner_at r' = after_call (set slots) None r
         | Panic \<Rightarrow> x = Panic \<and> hg_last_abandonment r' \<and> owner_at r' = after_call (set slots) None r))
    else (\<exists>e. execute_owned q f r = (Ok (Rejected e), r))"
proof -
  have res: "hc_result (hr_contract q) = OwnedInput i" and i: "i < length (hc_inputs (hr_contract q))"
    using contract by (auto simp: contract_try_new_def dest!: sym[of _ "hr_contract q"] split: if_splits)
  show ?thesis
  proof (cases "call_admissible q r")
    case False
    then obtain e where "prepare_call q r = (Err e, r)" using prepare_call_err[OF False] res i by auto
    then show ?thesis using False res by (simp add: execute_owned_def)
  next
    case True
    then obtain iv r1 call where c: "owned_commit q i r iv r1 call" using owned_commit_exists[OF ok res] by blast
    note view = owned_commitD[OF c] and run = owned_commit_runs[OF c, of f]
    show ?thesis
    proof (cases "f (token_payloads (hr_owners q) r)")
      case (Ok u)
      then obtain m' where x: "execute_owned q f r =
          (Ok (Executed (ExecutedSuccess (PublishedOwner (next_token r1 (ht_slot t))))), r1\<lparr>hg_active := None, hg_owners := m'\<rparr>)"
        and "bm_get m' = after_call (set slots) (Some (ht_slot t)) r"
        using run(1) by (auto simp: slots_def t_def)
      then show ?thesis using True Ok view by (simp add: x t_def)
    next
      case (Err st)
      then obtain m' where x: "execute_owned q f r =
          (Ok (Executed (ExecutedFailure st)), r1\<lparr>hg_active := None, hg_owners := m'\<rparr>)"
        and "bm_get m' = after_call (set slots) None r"
        using run(2) by (auto simp: slots_def)
      then show ?thesis using True Err view by (simp add: x)
    next
      case Panic
      then obtain m' where x: "execute_owned q f r =
          (Panic, r1\<lparr>hg_active := None, hg_owners := m', hg_last_abandonment := True, hg_poisoned := False\<rparr>)"
        and "bm_get m' = after_call (set slots) None r"
        using run(3) by (auto simp: slots_def)
      then show ?thesis using True Panic by (simp add: x)
    qed
  qed
qed

lemma execute_owned_exact_witness:
  "execute_owned (demo_request [demo_token 2 1, demo_token 1 1] (OwnedInput 1))
      (\<lambda>seen. if seen = [20, 10] then Ok () else Panic) demo_two
   = (Ok (Executed (ExecutedSuccess (PublishedOwner (demo_token 1 2)))),
      snd (execute_owned (demo_request [demo_token 2 1, demo_token 1 1] (OwnedInput 1)) (\<lambda>_. Ok ()) demo_two))"
proof -
  let ?q = "demo_request [demo_token 2 1, demo_token 1 1] (OwnedInput 1)"
  have contract: "contract_try_new ''m'' ''a'' ''f'' 3 [\<lparr>hq_resource_type = ''File'', hq_lifecycle = ''close''\<rparr>, \<lparr>hq_resource_type = ''File'', hq_lifecycle = ''close''\<rparr>]
      (OwnedInput 1) = Ok (hr_contract ?q)"
    by (simp add: contract_try_new_def demo_request_def demo_contract_def)
  have adm: "call_admissible ?q demo_two"
    unfolding preflight_Ok[symmetric, where u = "()"] demo_two_value by code_simp
  have seen: "token_payloads (hr_owners ?q) demo_two = [20, 10]"
    unfolding demo_two_value by (simp add: demo_defs token_payloads_def owner_at_def)
  note exact = execute_owned_exact[OF demo_two_ok contract, unfolded seen if_P[OF adm]]
  have bump: "demo_token 1 1\<lparr>ht_generation := ht_generation (demo_token 1 1) + 1\<rparr> = demo_token 1 2"
    by (simp add: demo_token_def)
  have "fst (execute_owned ?q (\<lambda>seen. if seen = [20, 10] then Ok () else Panic) demo_two) =
      Ok (Executed (ExecutedSuccess (PublishedOwner (demo_token 1 2))))"
    using exact[of "\<lambda>seen. if seen = [20, 10] then Ok () else Panic"] bump
    by (simp add: demo_request_def Let_def split: prod.splits)
  moreover have "snd (execute_owned ?q (\<lambda>seen. if seen = [20, 10] then Ok () else Panic) demo_two) =
      snd (execute_owned ?q (\<lambda>_. Ok ()) demo_two)"
    unfolding demo_two_value by code_simp
  ultimately show ?thesis by (metis prod.collapse)
qed

text \<open>A rollback is the one call that takes a phase back.\<close>

lemma rollback_phase:
  "token_phase_of r t \<le> token_phase_of (snd (rollback_adapter_owner t' r)) t
   \<or> is_live t' r \<and> ht_slot t' = ht_slot t \<and> u_checked_add (ht_slot t) 1 = Some (hg_next_slot r)
     \<and> token_phase_of (snd (rollback_adapter_owner t' r)) t = Unissued"
proof (cases "fst (rollback_adapter_owner t' r)")
  case (Ok u)
  then have live: "is_live t' r" and slot: "u_checked_add (ht_slot t') 1 = Some (hg_next_slot r)"
    and after: "snd (rollback_adapter_owner t' r) =
      r\<lparr>hg_next_slot := ht_slot t', hg_owners := bm_delete (ht_slot t') (hg_owners r)\<rparr>"
    by (auto simp: rollback_adapter_owner_def is_live_def host_lookup_def split: if_splits option.splits)
  show ?thesis
  proof (cases "ht_slot t' = ht_slot t")
    case True
    then show ?thesis using live slot by (simp add: after token_phase_of_def owner_at_def)
  next
    case False
    then show ?thesis by (simp add: after token_phase_of_def owner_at_def)
  qed
qed (auto simp: rollback_adapter_owner_def split: if_splits option.splits)

text \<open>
  C14: A token is unissued, usable (exactly when \<open>is_live\<close> accepts it), held by a call, or spent.  No
  call ever takes a token back in this order, with one exception: an accepted rollback, which needs a
  live token of the slot registered last, takes every token of that slot back to unissued.  So over
  any further calls without a rollback the phases only advance: a token taken by a call or retired
  never names a live owner again.
\<close>

theorem token_lifecycle:
  assumes "registry_try_new counter = (Ok r, counter')"
  shows "let w = foldl host_step (world_of r) before; phase = (\<lambda>w. token_phase_of (hw_registry w) t) in
     (is_live t (hw_registry w) \<longleftrightarrow> phase w = Usable)
     \<and> (phase w \<le> phase (host_step w c)
        \<or> (\<exists>t'. c = Hc_Rollback t' \<and> is_live t' (hw_registry w) \<and> ht_slot t' = ht_slot t
             \<and> u_checked_add (ht_slot t) 1 = Some (hg_next_slot (hw_registry w)) \<and> phase (host_step w c) = Unissued))
     \<and> ((\<forall>d\<in>set after. \<not> is_rollback d) \<longrightarrow> phase w \<le> phase (foldl host_step w after))"
proof -
  let ?w = "foldl host_step (world_of r) before" and ?phase = "\<lambda>w. token_phase_of (hw_registry w) t"
  have ok: "host_ok ?w" by (rule host.inv_run[OF registry_try_new_ok[OF assms]])
  have "?phase ?w \<le> ?phase (host_step ?w c)
      \<or> (\<exists>t'. c = Hc_Rollback t' \<and> is_live t' (hw_registry ?w) \<and> ht_slot t' = ht_slot t
           \<and> u_checked_add (ht_slot t) 1 = Some (hg_next_slot (hw_registry ?w)) \<and> ?phase (host_step ?w c) = Unissued)"
  proof (cases "is_rollback c")
    case True
    then obtain t' where c: "c = Hc_Rollback t'" by (auto simp: is_rollback_def)
    show ?thesis using rollback_phase[of "hw_registry ?w" t t'] unfolding c by auto
  next
    case False
    then have "ledger_moves False (hw_registry ?w) (hw_registry (host_step ?w c))" using host_step_moves[OF ok] by blast
    from moves_phase[OF this] ok show ?thesis by (simp add: host_ok_def)
  qed
  moreover have "?phase ?w \<le> ?phase (foldl host_step ?w after)" if "\<forall>d\<in>set after. \<not> is_rollback d"
    using ok phases.rel_run[of ?w after] forward_run[OF that, of ?w] by (simp add: phases_advance_def)
  ultimately show ?thesis by (simp add: Let_def usable_iff)
qed

lemma token_lifecycle_witness:
  "token_phase_of (hw_registry (world_of demo_registry)) (demo_token 1 1)
    \<le> token_phase_of (hw_registry (foldl host_step (world_of demo_registry)
         [Hc_Register demo_provenance 10, Hc_Retire (demo_token 1 1)])) (demo_token 1 1)"
  using token_lifecycle[OF demo_new, where before = "[]" and t = "demo_token 1 1" and c = Hc_TakeAbandonment
      and after = "[Hc_Register demo_provenance 10, Hc_Retire (demo_token 1 1)]"]
  by (simp add: is_rollback_def Let_def)

text \<open>
  C40: Rolling back is not limited to undoing the preceding registration.  After any calls, when the
  live owner of the slot registered last has been published again, so that its generation is not the
  first, its first token is spent; but its current token can still be rolled back, the slot is then
  registered again from generation one, and the spent token is usable and names the new owner.
\<close>

theorem rollback_revives_spent_token:
  assumes "registry_try_new counter = (Ok r, counter')" and "w = hw_registry (foldl host_step (world_of r) calls)"
    and "is_live t w" and "1 < ht_generation t" and "u_checked_add (ht_slot t) 1 = Some (hg_next_slot w)"
    and "hg_active w = None" and "\<not> hg_poisoned w"
  shows "token_phase_of w (t\<lparr>ht_generation := 1\<rparr>) = Spent
     \<and> (\<exists>r1 r2. rollback_adapter_owner t w = (Ok (), r1)
          \<and> register_adapter_owner provenance payload r1 = (Ok (t\<lparr>ht_generation := 1\<rparr>), r2)
          \<and> token_phase_of r2 (t\<lparr>ht_generation := 1\<rparr>) = Usable
          \<and> host_payload (t\<lparr>ht_generation := 1\<rparr>) r2 = Some payload)"
proof -
  obtain ow where ow: "ht_nonce t = hg_nonce w" "owner_at w (ht_slot t) = Some ow"
    "ho_generation ow = ht_generation t" "ho_state ow = Live"
    using assms(3) by (auto simp: is_live_def lookup_Ok_iff split: res.splits)
  have "token_phase_of w (t\<lparr>ht_generation := 1\<rparr>) = Spent"
    using ow assms(4) by (simp add: token_phase_of_def owner_phase_def)
  moreover define r1 where "r1 = w\<lparr>hg_next_slot := ht_slot t, hg_owners := bm_delete (ht_slot t) (hg_owners w)\<rparr>"
  have "rollback_adapter_owner t w = (Ok (), r1)"
    using ow assms(5-7) by (simp add: rollback_adapter_owner_def owner_at_def r1_def)
  moreover define r2 where "r2 = snd (register_adapter_owner provenance payload r1)"
  have "register_adapter_owner provenance payload r1 = (Ok (t\<lparr>ht_generation := 1\<rparr>), r2)"
    using ow(1) assms(5-7) by (cases t) (simp add: register_adapter_owner_def r1_def r2_def)
  moreover have "is_live (t\<lparr>ht_generation := 1\<rparr>) r2 \<and> host_payload (t\<lparr>ht_generation := 1\<rparr>) r2 = Some payload"
    using ow(1) assms(5-7)
    by (simp add: register_adapter_owner_def r1_def r2_def is_live_def host_payload_def host_lookup_def)
  ultimately show ?thesis using usable_iff by blast
qed

definition published_calls :: "host_call list" where
  "published_calls = [Hc_Register demo_provenance 10,
     Hc_ExecuteOwned (demo_request [demo_token 1 1] (OwnedInput 0)) (Ok ())]"

lemma published_state:
  "let w = hw_registry (foldl host_step (world_of demo_registry) published_calls) in
   is_live (demo_token 1 2) w \<and> u_checked_add (ht_slot (demo_token 1 2)) 1 = Some (hg_next_slot w)
   \<and> hg_active w = None \<and> \<not> hg_poisoned w"
  by code_simp

lemma rollback_revives_spent_token_witness:
  "token_phase_of (hw_registry (foldl host_step (world_of demo_registry) published_calls)) (demo_token 1 1) = Spent
   \<and> (\<exists>r1 r2. register_adapter_owner demo_provenance 20 r1 = (Ok (demo_token 1 1), r2)
        \<and> host_payload (demo_token 1 1) r2 = Some 20)"
proof -
  have "demo_token 1 2\<lparr>ht_generation := 1\<rparr> = demo_token 1 1" "1 < ht_generation (demo_token 1 2)"
    by (simp_all add: demo_token_def)
  then show ?thesis
    using rollback_revives_spent_token[OF demo_new refl, where calls = published_calls and t = "demo_token 1 2"
        and provenance = demo_provenance and payload = 20] published_state
    by (auto simp: Let_def)
qed

lemma plan_spent:
  assumes w: "host_ok w" and c: "commit_plan p (hw_registry w) = (Ok iv, hw_registry w')" and p: "p \<in> set (hw_plans w)"
    and w': "host_ok w'"
  shows "commit_plan p (hw_registry (foldl host_step w' cs)) = (Err Hr_StalePlan, hw_registry (foldl host_step w' cs))"
proof -
  let ?r = "hw_registry (foldl host_step w' cs)"
  have pok: "plan_ok p" using w p by (auto simp: host_ok_def)
  have cur: "plan_current p (hw_registry w)" using commit_plan_rejects c by fastforce
  have room: "hg_next_invocation (hw_registry w) \<noteq> - 1"
    using c cur validate_plan_Ok[of p "hw_registry w" "()"]
    by (auto simp: commit_plan_def u_checked_add_def unat_max_word)
  then obtain m where r': "hw_registry w' = committed p m (hw_registry w)"
    using commit_plan_exact[OF pok cur] c by auto
  have less: "pl_sequence p < hg_next_invocation (hw_registry w')"
    using cur word_less_Suc[OF room] by (simp add: r' committed_def plan_current_def)
  have "hg_next_invocation (hw_registry w') \<le> hg_next_invocation ?r"
    using numbers.rel_run[of w' cs] w' by (simp add: world_later_def later_def)
  then have "pl_sequence p \<noteq> hg_next_invocation ?r" using less by auto
  then show ?thesis by (simp add: commit_plan_def validate_plan_def)
qed

text \<open>
  A plan commits at most once: after a commit succeeded the same plan is stale in every later
  state of the registry, and presenting it changes nothing.
\<close>

theorem plan_commits_once:
  assumes "registry_try_new counter = (Ok r, counter')"
    and "w = foldl host_step (world_of r) before" and "i < length (hw_plans w)"
    and "fst (commit_plan (hw_plans w ! i) (hw_registry w)) = Ok iv"
  shows "let w' = foldl host_step w (Hc_Commit i # after) in
     commit_plan (hw_plans w ! i) (hw_registry w') = (Err Hr_StalePlan, hw_registry w')"
proof -
  have w: "host_ok w" unfolding assms(2) by (rule host.inv_run[OF registry_try_new_ok[OF assms(1)]])
  have "commit_plan (hw_plans w ! i) (hw_registry w) = (Ok iv, hw_registry (host_step w (Hc_Commit i)))"
    using assms(3,4) by (simp add: prod_eq_iff)
  then show ?thesis
    using plan_spent[OF w _ _ host_ok_step[OF w, of "Hc_Commit i"]] assms(3) by (simp del: host_step.simps)
qed

lemma plan_commits_once_witness:
  "fst (commit_plan (call_plan (demo_request [demo_token 1 1] ScalarResult)
         (hw_registry (host_step (world_of demo_registry) (Hc_Register demo_provenance 10))))
     (hw_registry (foldl host_step (world_of demo_registry)
       [Hc_Register demo_provenance 10, Hc_Plan (demo_request [demo_token 1 1] ScalarResult),
        Hc_Commit 0, Hc_CompleteScalar 0 (Ok 5)]))) = Err Hr_StalePlan"
proof -
  let ?before = "[Hc_Register demo_provenance 10, Hc_Plan (demo_request [demo_token 1 1] ScalarResult)]"
  let ?w = "foldl host_step (world_of demo_registry) ?before"
  let ?p = "call_plan (demo_request [demo_token 1 1] ScalarResult)
         (hw_registry (host_step (world_of demo_registry) (Hc_Register demo_provenance 10)))"
  have p: "hw_plans ?w = [?p]" by code_simp
  have "is_ok (fst (commit_plan ?p (hw_registry ?w)))" by code_simp
  then obtain iv where iv: "fst (commit_plan ?p (hw_registry ?w)) = Ok iv"
    unfolding is_ok_iff by blast
  show ?thesis
    using plan_commits_once[OF demo_new refl, of 0 ?before iv "[Hc_CompleteScalar 0 (Ok 5)]"] iv
    unfolding p by (simp add: Let_def del: host_step.simps)
qed

lemma finished_call:
  assumes w: "host_ok w" and f: "host_finish sequence published scalar failure (hw_registry w) = (Ok out, hw_registry w')"
    and w': "host_ok w'"
  shows "host_finish sequence published' scalar' failure' (hw_registry (foldl host_step w' cs)) =
     (Panic, hw_registry (foldl host_step w' cs))"
proof -
  let ?r = "hw_registry (foldl host_step w' cs)"
  have ok: "ledger_ok (hw_registry w)" using w by (simp add: host_ok_def)
  have fin: "finishable sequence published scalar failure (hw_registry w)"
    using host_finish_refuses[OF ok, of sequence published scalar failure] f by auto
  obtain call where act: "hg_active (hw_registry w) = Some call" and q: "sequence = ac_sequence call"
    using finishable_active[OF fin] by blast
  obtain m where r': "hw_registry w' = (hw_registry w)\<lparr>hg_active := None, hg_owners := m\<rparr>"
    using host_finish_exact[OF ok act fin[unfolded q]] f q by auto
  have old: "sequence < hg_next_invocation (hw_registry w')" using ok act q by (simp add: ledger_ok_def r')
  have "later (hw_registry w') ?r" and ok': "ledger_ok ?r"
    using numbers.rel_run[of w' cs] w' by (simp_all add: world_later_def host_ok_def)
  then have "\<not> finishable sequence published' scalar' failure' ?r"
    using old by (auto simp: later_def finishable_def r')
  then show ?thesis by (rule host_finish_refuses[OF ok'])
qed

text \<open>
  An invocation completes at most once: after a completion returned, completing the same
  invocation again panics before any change, in every later state of the registry.
\<close>

theorem invocation_completes_once:
  assumes "registry_try_new counter = (Ok r, counter')"
    and "w = foldl host_step (world_of r) before" and "i < length (hw_calls w)"
    and "fst (complete_prepared_owned (hw_calls w ! i) x (hw_registry w)) = Ok out"
  shows "let w' = foldl host_step w (Hc_CompleteOwned i x # after) in
     complete_prepared_owned (hw_calls w ! i) y (hw_registry w') = (Panic, hw_registry w')"
proof -
  have w: "host_ok w" unfolding assms(2) by (rule host.inv_run[OF registry_try_new_ok[OF assms(1)]])
  let ?iv = "hw_calls w ! i" and ?w = "host_step w (Hc_CompleteOwned i x)"
  have c: "complete_prepared_owned ?iv x (hw_registry w) = (Ok out, hw_registry ?w)"
    using assms(3,4) by (simp add: prod_eq_iff)
  then obtain slot where slot: "iv_result_slot ?iv = Some slot"
    by (auto simp: complete_prepared_owned_def split: option.splits)
  from c obtain published failure where
    "host_finish (iv_sequence ?iv) published None failure (hw_registry w) = (Ok out, hw_registry ?w)"
    by (auto simp: complete_prepared_owned_def slot simp del: host_step.simps split: res.splits)
  then show ?thesis
    using finished_call[OF w _ host_ok_step[OF w]]
    by (auto simp: complete_prepared_owned_def slot Let_def simp del: host_step.simps split: res.splits)
qed

lemma invocation_completes_once_witness:
  "complete_prepared_owned \<lparr>iv_sequence = 1, iv_result_slot = Some 1, iv_resources = [10], iv_payloads = [10]\<rparr> (Ok ())
     (hw_registry (foldl host_step (world_of demo_registry)
       [Hc_Register demo_provenance 10, Hc_Prepare (demo_request [demo_token 1 1] (OwnedInput 0)),
        Hc_CompleteOwned 0 (Ok ()), Hc_Prepare (demo_request [demo_token 1 2] (OwnedInput 0))])) =
   (Panic, hw_registry (foldl host_step (world_of demo_registry)
       [Hc_Register demo_provenance 10, Hc_Prepare (demo_request [demo_token 1 1] (OwnedInput 0)),
        Hc_CompleteOwned 0 (Ok ()), Hc_Prepare (demo_request [demo_token 1 2] (OwnedInput 0))]))"
proof -
  let ?before = "[Hc_Register demo_provenance 10, Hc_Prepare (demo_request [demo_token 1 1] (OwnedInput 0))]"
  let ?iv = "\<lparr>iv_sequence = 1, iv_result_slot = Some 1, iv_resources = [10], iv_payloads = [10]\<rparr>"
  let ?w = "foldl host_step (world_of demo_registry) ?before"
  have calls: "hw_calls ?w = [?iv]" by code_simp
  have "is_ok (fst (complete_prepared_owned ?iv (Ok ()) (hw_registry ?w)))" by code_simp
  then obtain out where out: "fst (complete_prepared_owned ?iv (Ok ()) (hw_registry ?w)) = Ok out"
    unfolding is_ok_iff by blast
  show ?thesis
    using invocation_completes_once[OF demo_new refl, of 0 ?before "Ok ()" out
        "[Hc_Prepare (demo_request [demo_token 1 2] (OwnedInput 0))]" "Ok ()"] out
    unfolding calls by (simp add: Let_def del: host_step.simps)
qed

text \<open>
  An invocation carries its number but not the registry that issued it: one prepared by another
  registry completes the call of this registry that has the same number.
\<close>

theorem foreign_invocation_completes:
  "let other = demo_registry\<lparr>hg_nonce := 9\<rparr>;
       w = foldl host_step (world_of demo_registry)
         [Hc_Register demo_provenance 10, Hc_Prepare (demo_request [demo_token 1 1] ScalarResult)];
       w' = foldl host_step (world_of other)
         [Hc_Register demo_provenance 20,
          Hc_Prepare (demo_request [(demo_token 1 1)\<lparr>ht_nonce := 9\<rparr>] ScalarResult)]
   in hg_nonce (hw_registry w) \<noteq> hg_nonce (hw_registry w')
      \<and> fst (complete_prepared_scalar (hw_calls w' ! 0) (Ok 5) (hw_registry w))
        = Ok (ExecutedSuccess (PublishedScalar 5))"
  by code_simp

end
