(* ===== verification/AggregateLayout.thy ===== *)
theory AggregateLayout
  imports HirTypes
begin

unbundle bit_operations_syntax

text \<open>
  Layouts of aggregate records (\<open>src/aggregate_layout.rs\<close>).  SHA-256 is a parameter.  The set
  \<open>visiting\<close> is passed down: the code removes what it inserted before it returns.  The recursion
  over types and the search for generic descendants take fuel; running out is \<open>Panic\<close>, the
  exhausted stack, and \<open>LayoutTotal\<close> shows that enough fuel always exists.
\<close>

section \<open>Values\<close>

definition LAYOUT_DIGEST_DOMAIN :: string where
  "LAYOUT_DIGEST_DOMAIN = ''semaprax.aggregate-layout.v1'' @ [CHR 0x00]"

datatype aggregate_target = Native64 | Wasm32

fun target_tag :: "aggregate_target \<Rightarrow> u8" where
  "target_tag Native64 = 1"
| "target_tag Wasm32 = 2"

fun target_name :: "aggregate_target \<Rightarrow> string" where
  "target_name Native64 = ''Native64''"
| "target_name Wasm32 = ''Wasm32''"

datatype field_value_kind = Fv_Copy | Fv_OwnedBytes | Fv_Resource | Fv_Aggregate

record field_layout =
  afl_field :: declaration_id
  afl_ty :: rtype
  afl_value_kind :: field_value_kind
  afl_offset :: u32
  afl_size :: u32
  afl_align :: u32
  afl_nested_digest :: string

record aggregate_layout =
  al_target :: aggregate_target
  al_record :: declaration_id
  al_instance :: rtype
  al_size :: u32
  al_align :: u32
  al_fields :: "field_layout list"
  al_digest :: string

datatype value_layout_kind = Vk_Scalar | Vk_OwnedBytes | Vk_Resource | Vk_Record "field_layout list"

fun field_kind :: "value_layout_kind \<Rightarrow> field_value_kind" where
  "field_kind Vk_Scalar = Fv_Copy"
| "field_kind Vk_OwnedBytes = Fv_OwnedBytes"
| "field_kind Vk_Resource = Fv_Resource"
| "field_kind (Vk_Record rows) = Fv_Aggregate"

record value_layout =
  vl_size :: u32
  vl_align :: u32
  vl_digest :: string
  vl_kind :: value_layout_kind

type_synonym 'a laid = "(diagnostic, 'a) res"

definition layout_error :: "string \<Rightarrow> diagnostic" where
  "layout_error message = diag_io ''SPX-H007'' (''aggregate layout: '' @ message)"

section \<open>Alignment\<close>

definition is_power_of_two :: "u32 \<Rightarrow> bool" where
  "is_power_of_two a = list_ex (\<lambda>k. a = 2 ^ k) [0..<32]"

definition align_up :: "u32 \<Rightarrow> u32 \<Rightarrow> u32 laid" where
  "align_up v align =
     (if \<not> is_power_of_two align then Err (layout_error ''aggregate alignment is not a power of two'')
      else let mask = align - 1
           in (case u_checked_add v mask of
                 Some rounded \<Rightarrow> Ok (rounded AND NOT mask)
               | None \<Rightarrow> Err (layout_error ''aggregate alignment overflows u32'')))"

section \<open>Digests\<close>

definition le_u32 :: "u32 \<Rightarrow> string" where
  "le_u32 n = map (\<lambda>i. char_of (unat n div 256 ^ i mod 256)) [0..<4]"

definition le_u64 :: "u64 \<Rightarrow> string" where
  "le_u64 n = map (\<lambda>i. char_of (unat n div 256 ^ i mod 256)) [0..<8]"

definition try_u32 :: "nat \<Rightarrow> u32 option" where
  "try_u32 n = (if n < 2 ^ 32 then Some (word_of_nat n) else None)"

text \<open>A \<open>usize\<close> is a \<open>u64\<close>; lengths fit.\<close>

definition framed :: "string \<Rightarrow> string" where
  "framed bytes = le_u64 (word_of_nat (length bytes)) @ bytes"

fun field_digests :: "field_layout list \<Rightarrow> string list \<Rightarrow> string laid" where
  "field_digests (field # rows) (nested # digests) =
     res_bind (identity_key (afl_ty field)) (\<lambda>key.
     res_bind (field_digests rows digests) (\<lambda>rest.
       Ok (framed (afl_field field) @ framed key @ le_u32 (afl_offset field) @ le_u32 (afl_size field)
           @ le_u32 (afl_align field) @ nested @ rest)))"
| "field_digests rows digests = Ok []"

definition digest_value_with_fields ::
  "(string \<Rightarrow> string) \<Rightarrow> aggregate_target \<Rightarrow> rtype \<Rightarrow> u32 \<Rightarrow> u32 \<Rightarrow> field_layout list \<Rightarrow> string list \<Rightarrow> string laid" where
  "digest_value_with_fields sha256 target ty sz align rows digests =
     res_bind (identity_key ty) (\<lambda>key.
     res_bind (field_digests rows digests) (\<lambda>rest.
       Ok (sha256 (LAYOUT_DIGEST_DOMAIN @ [char_of (unat (target_tag target))] @ framed key
         @ le_u32 sz @ le_u32 align
         @ le_u32 (case try_u32 (length rows) of Some n \<Rightarrow> n | None \<Rightarrow> - 1) @ rest))))"

definition digest_value ::
  "(string \<Rightarrow> string) \<Rightarrow> aggregate_target \<Rightarrow> rtype \<Rightarrow> u32 \<Rightarrow> u32 \<Rightarrow> field_layout list \<Rightarrow> string laid" where
  "digest_value sha256 target ty sz align rows =
     digest_value_with_fields sha256 target ty sz align rows []"

section \<open>Leaves\<close>

fun owned_bytes_size_align :: "aggregate_target \<Rightarrow> u32 \<times> u32" where
  "owned_bytes_size_align Native64 = (16, 8)"
| "owned_bytes_size_align Wasm32 = (8, 8)"

definition scalar_size_align :: "aggregate_target \<Rightarrow> rtype \<Rightarrow> (u32 \<times> u32) laid" where
  "scalar_size_align target ty =
     (case ty of
        Ty_I64 \<Rightarrow> Ok (8, 8)
      | Ty_I32 \<Rightarrow> Ok (4, 4)
      | Ty_Char \<Rightarrow> Ok (4, 4)
      | Ty_U8 \<Rightarrow> (case target of Native64 \<Rightarrow> Ok (1, 1) | Wasm32 \<Rightarrow> Ok (4, 4))
      | Ty_Usize \<Rightarrow> Ok (8, 8)
      | Ty_F32 \<Rightarrow> Ok (4, 4)
      | Ty_F64 \<Rightarrow> Ok (8, 8)
      | Ty_Bool \<Rightarrow> (case target of Native64 \<Rightarrow> Ok (1, 1) | Wasm32 \<Rightarrow> Ok (4, 4))
      | _ \<Rightarrow> res_bind (identity_key ty) (\<lambda>key.
          Err (layout_error (''type `'' @ key @ ''` is not a scalar aggregate-layout value''))))"

definition leaf_layout ::
  "(string \<Rightarrow> string) \<Rightarrow> aggregate_target \<Rightarrow> rtype \<Rightarrow> u32 \<Rightarrow> u32 \<Rightarrow> value_layout_kind \<Rightarrow> value_layout laid" where
  "leaf_layout sha256 target ty sz align kind =
     res_bind (digest_value sha256 target ty sz align []) (\<lambda>digest.
       Ok \<lparr>vl_size = sz, vl_align = align, vl_digest = digest, vl_kind = kind\<rparr>)"

section \<open>Records\<close>

definition unique_type :: "hir_program \<Rightarrow> declaration_id \<Rightarrow> type_declaration laid" where
  "unique_type program d =
     (case filter (\<lambda>item. td_id item = d) (hp_types program) of
        [] \<Rightarrow> Err (layout_error (''unknown aggregate type `'' @ d @ ''`''))
      | [item] \<Rightarrow> Ok item
      | _ \<Rightarrow> Err (layout_error (''aggregate type `'' @ d @ ''` is duplicated'')))"

text \<open>
  The loop over the fields: the declarations with their ordinals, the identifiers seen, the offset,
  the alignment and the layouts so far.  \<open>lay\<close> lays out a field's type.
\<close>

fun layout_fields ::
  "(rtype \<Rightarrow> value_layout laid) \<Rightarrow> declaration_id \<Rightarrow> rtype list \<Rightarrow> nat \<Rightarrow> field_declaration list
     \<Rightarrow> string list \<Rightarrow> u32 \<Rightarrow> u32 \<Rightarrow> field_layout list \<Rightarrow> (u32 \<times> u32 \<times> field_layout list) laid" where
  "layout_fields lay rec arguments ordinal [] seen offset align rows = Ok (offset, align, rows)"
| "layout_fields lay rec arguments ordinal (d # ds) seen offset align rows =
     (case try_u32 ordinal of
        None \<Rightarrow> Err (layout_error (''record `'' @ rec @ ''` has too many fields''))
      | Some expected_index \<Rightarrow>
        if fd_index d \<noteq> expected_index
        then Err (layout_error (''record `'' @ rec @ ''` field indices are not declaration-order canonical''))
        else if fd_id d \<in> set seen
        then Err (layout_error (''record `'' @ rec @ ''` repeats field `'' @ fd_id d @ ''`''))
        else
          res_bind (substitute_type (fd_ty d) rec arguments) (\<lambda>field_ty.
          res_bind (lay field_ty) (\<lambda>layout.
          res_bind (align_up offset (vl_align layout)) (\<lambda>start.
            case u_checked_add start (vl_size layout) of
              None \<Rightarrow> Err (layout_error (''record `'' @ rec @ ''` layout overflows u32''))
            | Some stop \<Rightarrow>
              layout_fields lay rec arguments (ordinal + 1) ds (fd_id d # seen) stop
                (max align (vl_align layout))
                (rows @ [\<lparr>afl_field = fd_id d, afl_ty = field_ty, afl_value_kind = field_kind (vl_kind layout),
                            afl_offset = start, afl_size = vl_size layout, afl_align = vl_align layout,
                            afl_nested_digest = vl_digest layout\<rparr>])))))"

definition layout_record ::
  "(rtype \<Rightarrow> value_layout laid) \<Rightarrow> (string \<Rightarrow> string) \<Rightarrow> aggregate_target \<Rightarrow> declaration_id \<Rightarrow> rtype list
     \<Rightarrow> field_declaration list \<Rightarrow> value_layout laid" where
  "layout_record lay sha256 target rec arguments ds =
     res_bind (layout_fields lay rec arguments 0 ds [] (if ds = [] then 1 else 0) 1 [])
       (\<lambda>(offset, align, rows).
         res_bind (align_up offset align) (\<lambda>sz.
         res_bind (digest_value_with_fields sha256 target (Ty_Nominal rec arguments) sz align rows
             (map afl_nested_digest rows)) (\<lambda>digest.
           Ok \<lparr>vl_size = sz, vl_align = align, vl_digest = digest, vl_kind = Vk_Record rows\<rparr>)))"

definition layout_nominal ::
  "(rtype \<Rightarrow> string list \<Rightarrow> value_layout laid) \<Rightarrow> (string \<Rightarrow> string) \<Rightarrow> hir_program \<Rightarrow> aggregate_target
     \<Rightarrow> declaration_id \<Rightarrow> rtype list \<Rightarrow> string list \<Rightarrow> value_layout laid" where
  "layout_nominal lay sha256 program target d arguments visiting =
     res_bind (unique_type program d) (\<lambda>item.
       let as_record = (\<lambda>rows.
             if length arguments \<noteq> length (td_type_parameters item)
             then Err (layout_error (''record `'' @ d @ ''` has invalid concrete arguments''))
             else res_bind (identity_key (Ty_Nominal d arguments)) (\<lambda>key.
               if key \<in> set visiting
               then Err (layout_error (''record instance `'' @ key @ ''` has a recursive by-value layout''))
               else layout_record (\<lambda>ty. lay ty (key # visiting)) sha256 target d arguments rows))
       in case td_kind item of
            Kind_Resource dr \<Rightarrow>
              if arguments \<noteq> [] then Err (layout_error (''resource `'' @ d @ ''` cannot take generic arguments''))
              else if rd_kind dr \<noteq> DropTrivial
              then Err (layout_error (''resource `'' @ d @ ''` is not direct-trivial''))
              else (case target of
                      Native64 \<Rightarrow> leaf_layout sha256 target (Ty_Nominal d []) 8 8 Vk_Resource
                    | Wasm32 \<Rightarrow> leaf_layout sha256 target (Ty_Nominal d []) 4 4 Vk_Resource)
          | Kind_Record rows \<Rightarrow> as_record rows
          | Kind_Class rows methods \<Rightarrow> as_record rows
          | Kind_Variant cases \<Rightarrow>
              Err (layout_error (''variant `'' @ d @ ''` requires the variant-layout profile'')))"

fun layout_type ::
  "nat \<Rightarrow> (string \<Rightarrow> string) \<Rightarrow> hir_program \<Rightarrow> aggregate_target \<Rightarrow> rtype \<Rightarrow> string list \<Rightarrow> value_layout laid" where
  "layout_type 0 sha256 program target ty visiting = Panic"
| "layout_type (Suc n) sha256 program target ty visiting =
     (case ty of
        Ty_Unit \<Rightarrow> Err (layout_error ''unit has no aggregate value layout'')
      | Ty_Function parameters result \<Rightarrow>
          Err (layout_error ''function values cannot appear in executable aggregate layouts v1'')
      | Ty_ArrayU8 len \<Rightarrow> leaf_layout sha256 target ty len 1 Vk_Scalar
      | Ty_String \<Rightarrow> Err (layout_error ''owned string values have no aggregate value layout in v1'')
      | Ty_Bytes \<Rightarrow>
          (case owned_bytes_size_align target of (sz, align) \<Rightarrow> leaf_layout sha256 target ty sz align Vk_OwnedBytes)
      | Ty_Str \<Rightarrow> Err (layout_error ''borrowed string views have no aggregate value layout'')
      | Ty_SliceU8 \<Rightarrow> Err (layout_error ''borrowed byte-slice views have no aggregate value layout'')
      | Ty_Parameter owner index \<Rightarrow>
          Err (layout_error ''generic aggregate layouts are outside executable records v1'')
      | Ty_Nominal d arguments \<Rightarrow>
          layout_nominal (\<lambda>ty visiting. layout_type n sha256 program target ty visiting)
            sha256 program target d arguments visiting
      | _ \<Rightarrow> res_bind (scalar_size_align target ty) (\<lambda>(sz, align). leaf_layout sha256 target ty sz align Vk_Scalar))"

section \<open>Admission of concrete instances\<close>

definition MAX_CONCRETE_ARGUMENT_RECORD_DEPTH :: nat where
  "MAX_CONCRETE_ARGUMENT_RECORD_DEPTH = 64"

definition MAX_CONCRETE_ARGUMENT_OWNED_LEAVES :: nat where
  "MAX_CONCRETE_ARGUMENT_OWNED_LEAVES = 256"

definition MAX_CONCRETE_ARGUMENT_FIELDS :: nat where
  "MAX_CONCRETE_ARGUMENT_FIELDS = 4096"

datatype admission_frame =
    Af_Type rtype nat
  | Af_Fields declaration_id "field_declaration list" "rtype list" nat nat
  | Af_Leave string

fun admission_weight :: "admission_frame \<Rightarrow> nat" where
  "admission_weight (Af_Type ty depth) = 3"
| "admission_weight (Af_Fields d rows arguments i depth) = 1"
| "admission_weight (Af_Leave key) = 1"

function admission_loop ::
  "hir_program \<Rightarrow> admission_frame list \<Rightarrow> string list \<Rightarrow> nat \<Rightarrow> nat \<Rightarrow> bool laid" where
  "admission_loop program [] active visited leaves = Ok True"
| "admission_loop program (Af_Type ty depth # pending) active visited leaves =
     (case ty of
        Ty_Bytes \<Rightarrow>
          if leaves + 1 > MAX_CONCRETE_ARGUMENT_OWNED_LEAVES then Ok False
          else admission_loop program pending active visited (leaves + 1)
      | Ty_I64 \<Rightarrow> admission_loop program pending active visited leaves
      | Ty_I32 \<Rightarrow> admission_loop program pending active visited leaves
      | Ty_Char \<Rightarrow> admission_loop program pending active visited leaves
      | Ty_U8 \<Rightarrow> admission_loop program pending active visited leaves
      | Ty_Usize \<Rightarrow> admission_loop program pending active visited leaves
      | Ty_F32 \<Rightarrow> admission_loop program pending active visited leaves
      | Ty_F64 \<Rightarrow> admission_loop program pending active visited leaves
      | Ty_Bool \<Rightarrow> admission_loop program pending active visited leaves
      | Ty_Nominal d arguments \<Rightarrow>
          if depth > MAX_CONCRETE_ARGUMENT_RECORD_DEPTH then Ok False
          else (case unique_type program d of
                  Ok item \<Rightarrow>
                    (case td_kind item of
                       Kind_Record rows \<Rightarrow>
                         if length arguments \<noteq> length (td_type_parameters item) then Ok False
                         else res_bind (identity_key (Ty_Nominal d arguments)) (\<lambda>key.
                           if key \<in> set active then Ok False
                           else admission_loop program (Af_Fields d rows arguments 0 depth # Af_Leave key # pending)
                                  (key # active) visited leaves)
                     | _ \<Rightarrow> Ok False)
                | _ \<Rightarrow> Ok False)
      | _ \<Rightarrow> Ok False)"
| "admission_loop program (Af_Fields d rows arguments i depth # pending) active visited leaves =
     (if length rows \<le> i then admission_loop program pending active visited leaves
      else if visited + 1 > MAX_CONCRETE_ARGUMENT_FIELDS then Ok False
      else (case substitute_type (fd_ty (rows ! i)) d arguments of
              Ok field_ty \<Rightarrow>
                admission_loop program
                  (Af_Type field_ty (depth + 1) # Af_Fields d rows arguments (i + 1) depth # pending)
                  active (visited + 1) leaves
            | _ \<Rightarrow> Ok False))"
| "admission_loop program (Af_Leave key # pending) active visited leaves =
     admission_loop program pending (removeAll key active) visited leaves"
  by pat_completeness auto

termination
  by (relation "(\<lambda>(program, pending, active, visited, leaves). Suc MAX_CONCRETE_ARGUMENT_FIELDS - visited)
      <*mlex*> measure (\<lambda>(program, pending, active, visited, leaves). sum_list (map admission_weight pending))")
     (auto simp: wf_mlex mlex_prod_def)

definition concrete_layout_instance_is_admitted :: "hir_program \<Rightarrow> rtype \<Rightarrow> bool laid" where
  "concrete_layout_instance_is_admitted program instance_ty =
     admission_loop program [Af_Type instance_ty 1] [] 0 0"

text \<open>The search for a generic record among the descendants; the stack is a list, top first.\<close>

fun descendant_fields :: "declaration_id \<Rightarrow> rtype list \<Rightarrow> field_declaration list \<Rightarrow> rtype list" where
  "descendant_fields d arguments [] = []"
| "descendant_fields d arguments (row # rows) =
     (case substitute_type (fd_ty row) d arguments of
        Ok ty \<Rightarrow> ty # descendant_fields d arguments rows
      | _ \<Rightarrow> descendant_fields d arguments rows)"

fun descendant_loop :: "nat \<Rightarrow> hir_program \<Rightarrow> rtype list \<Rightarrow> string list \<Rightarrow> bool laid" where
  "descendant_loop 0 program pending visited = Panic"
| "descendant_loop (Suc n) program [] visited = Ok False"
| "descendant_loop (Suc n) program (ty # pending) visited =
     (case ty of
        Ty_Nominal d arguments \<Rightarrow>
          res_bind (identity_key (Ty_Nominal d arguments)) (\<lambda>key.
            if key \<in> set visited then descendant_loop n program pending visited
            else (case unique_type program d of
                    Ok item \<Rightarrow>
                      (case td_kind item of
                         Kind_Record rows \<Rightarrow>
                           if arguments \<noteq> [] then Ok True
                           else descendant_loop n program (descendant_fields d arguments rows @ pending) (key # visited)
                       | Kind_Class rows methods \<Rightarrow>
                           descendant_loop n program (descendant_fields d arguments rows @ pending) (key # visited)
                       | _ \<Rightarrow> descendant_loop n program pending (key # visited))
                  | _ \<Rightarrow> descendant_loop n program pending (key # visited)))
      | _ \<Rightarrow> descendant_loop n program pending visited)"

definition contains_concrete_generic_record_descendant :: "nat \<Rightarrow> hir_program \<Rightarrow> rtype \<Rightarrow> bool laid" where
  "contains_concrete_generic_record_descendant n program root = descendant_loop n program [root] []"

section \<open>Layouts of instances\<close>

definition layout_for_type ::
  "nat \<Rightarrow> (string \<Rightarrow> string) \<Rightarrow> hir_program \<Rightarrow> aggregate_target \<Rightarrow> rtype \<Rightarrow> aggregate_layout laid" where
  "layout_for_type n sha256 program target instance_ty =
     (case instance_ty of
        Ty_Nominal rec arguments \<Rightarrow>
          res_bind (if arguments \<noteq> [] then Ok True
                    else contains_concrete_generic_record_descendant n program instance_ty) (\<lambda>generic.
          res_bind (if generic then concrete_layout_instance_is_admitted program instance_ty else Ok True) (\<lambda>admitted.
            if \<not> admitted then Err (layout_error (''record `'' @ rec @ ''` has invalid concrete arguments''))
            else
              res_bind (layout_nominal (\<lambda>ty visiting. layout_type n sha256 program target ty visiting)
                  sha256 program target rec arguments []) (\<lambda>layout.
                case vl_kind layout of
                  Vk_Record rows \<Rightarrow>
                    Ok \<lparr>al_target = target, al_record = rec, al_instance = instance_ty, al_size = vl_size layout,
                        al_align = vl_align layout, al_fields = rows, al_digest = vl_digest layout\<rparr>
                | _ \<Rightarrow> Err (layout_error (''`'' @ rec @ ''` is not a record'')))))
      | _ \<Rightarrow> Err (layout_error ''record instance is not nominal''))"

definition layout_for_record ::
  "nat \<Rightarrow> (string \<Rightarrow> string) \<Rightarrow> hir_program \<Rightarrow> aggregate_target \<Rightarrow> declaration_id \<Rightarrow> aggregate_layout laid" where
  "layout_for_record n sha256 program target rec =
     layout_for_type n sha256 program target (Ty_Nominal rec [])"

definition layout_validate :: "nat \<Rightarrow> (string \<Rightarrow> string) \<Rightarrow> hir_program \<Rightarrow> aggregate_layout \<Rightarrow> unit laid" where
  "layout_validate n sha256 program layout =
     res_bind (layout_for_type n sha256 program (al_target layout) (al_instance layout)) (\<lambda>expected.
       if layout \<noteq> expected
       then Err (layout_error (''record `'' @ al_record layout @ ''` layout is not the canonical ''
              @ target_name (al_target layout) @ '' layout''))
       else Ok ())"

definition layout_field :: "aggregate_layout \<Rightarrow> declaration_id \<Rightarrow> field_layout option" where
  "layout_field layout field_id = List.find (\<lambda>item. afl_field item = field_id) (al_fields layout)"

end
