(* ===== verification/LayoutSound.thy ===== *)
theory LayoutSound
  imports AggregateLayout
begin

unbundle bit_operations_syntax

text \<open>
  Correctness of aggregate layouts (\<open>src/aggregate_layout.rs\<close>): rounding to an alignment, the
  placement of fields, and that the recursion's fuel does not change a result.
\<close>

section \<open>Alignment\<close>

lemma power_of_two_iff: "is_power_of_two a \<longleftrightarrow> (\<exists>k<32. a = 2 ^ k)"
  by (auto simp: is_power_of_two_def list_ex_iff)

lemma unat_power: "k < 32 \<Longrightarrow> unat (2 ^ k :: u32) = 2 ^ k"
  using unat_word_of_nat[of "2 ^ k", where 'a = 32] power_strict_increasing[of k 32 "2 :: nat"] by simp

lemma power_of_two_unat: "is_power_of_two a \<Longrightarrow> \<exists>k<32. unat a = 2 ^ k"
  using power_of_two_iff unat_power by metis

lemma unat_pow_minus_1: "k < 32 \<Longrightarrow> unat (2 ^ k - 1 :: u32) = 2 ^ k - 1"
proof -
  assume k: "k < 32"
  have "1 \<le> (2 ^ k :: u32)" using unat_power[OF k] by (simp add: word_le_nat_alt)
  then show ?thesis using unat_power[OF k] by (simp add: unat_sub)
qed

lemma and_not_mask:
  fixes x :: u32
  shows "unat (x AND NOT (mask k)) = unat x - unat x mod 2 ^ k"
proof -
  have "x AND NOT (mask k) = x AND NOT (take_bit k x)"
    by (rule bit_eqI) (auto simp: bit_simps)
  also have "\<dots> = x - take_bit k x"
    by (rule disjunctive_diff[symmetric]) (simp add: bit_simps)
  finally have eq: "x AND NOT (mask k) = x - take_bit k x" .
  have t: "unat (take_bit k x) = unat x mod 2 ^ k"
    unfolding unsigned_take_bit_eq by (simp add: take_bit_eq_mod)
  then have "take_bit k x \<le> x" by (simp add: word_le_nat_alt)
  then show ?thesis by (simp add: eq unat_sub t)
qed

text \<open>The least multiple of \<open>a\<close> at or above \<open>n\<close>.\<close>

definition round_up :: "nat \<Rightarrow> nat \<Rightarrow> nat" where
  "round_up n a = (n + a - 1) div a * a"

lemma round_up_bounds:
  assumes "0 < a"
  shows "a dvd round_up n a" and "n \<le> round_up n a" and "round_up n a < n + a"
proof -
  show "a dvd round_up n a" by (simp add: round_up_def)
  have "(n + a - 1) div a * a + (n + a - 1) mod a = n + a - 1" by simp
  moreover have "(n + a - 1) mod a < a" using assms by simp
  ultimately show "n \<le> round_up n a" "round_up n a < n + a" using assms unfolding round_up_def by linarith+
qed

lemma round_up_least: "0 < a \<Longrightarrow> a dvd m \<Longrightarrow> n \<le> m \<Longrightarrow> round_up n a \<le> m"
proof -
  assume a: "0 < a" and d: "a dvd m" and le: "n \<le> m"
  obtain c where c: "m = a * c" using d by blast
  have "round_up n a < a * (c + 1)" using round_up_bounds(3)[OF a, of n] le c by (simp add: algebra_simps)
  moreover obtain e where e: "round_up n a = a * e" using round_up_bounds(1)[OF a, of n] by blast
  ultimately have "e < c + 1" using a by (metis mult_less_cancel1)
  then show ?thesis using a c e by simp
qed

lemma align_up_exact:
  assumes a: "is_power_of_two a"
  shows "align_up v a = (if round_up (unat v) (unat a) < 2 ^ 32
     then Ok (word_of_nat (round_up (unat v) (unat a)))
     else Err (layout_error ''aggregate alignment overflows u32''))"
proof -
  obtain k where k: "k < 32" and ak: "a = 2 ^ k" using a power_of_two_iff by blast
  have ua: "unat a = 2 ^ k" using ak unat_power[OF k] by simp
  have um: "unat (a - 1) = 2 ^ k - 1" using ak unat_pow_minus_1[OF k] by simp
  have mask: "a - 1 = mask k" by (simp add: ak mask_eq_exp_minus_1)
  let ?n = "unat v + (2 ^ k - 1)"
  have pos: "(0 :: nat) < 2 ^ k" by simp
  have ru: "round_up (unat v) (unat a) = ?n - ?n mod 2 ^ k"
    unfolding round_up_def ua using minus_mod_eq_div_mult[of ?n "2 ^ k"] pos by (simp add: add.commute)
  have fits: "round_up (unat v) (unat a) < 2 ^ 32 \<longleftrightarrow> ?n < 2 ^ 32"
  proof
    assume "?n < 2 ^ 32" then show "round_up (unat v) (unat a) < 2 ^ 32" unfolding ru by simp
  next
    assume r: "round_up (unat v) (unat a) < 2 ^ 32"
    show "?n < 2 ^ 32"
    proof (rule ccontr)
      assume "\<not> ?n < 2 ^ 32"
      then have ge: "2 ^ 32 \<le> ?n" by simp
      have "(2 :: nat) ^ k dvd 2 ^ 32" by (rule le_imp_power_dvd) (use k in simp)
      then have "2 ^ 32 \<le> ?n div 2 ^ k * 2 ^ k"
        using ge div_le_mono[OF ge, of "2 ^ k"] by (metis dvd_div_mult_self mult_le_mono1)
      then show False using r ru by (simp add: minus_mod_eq_div_mult)
    qed
  qed
  show ?thesis
  proof (cases "?n < 2 ^ 32")
    case True
    have sum: "u_checked_add v (a - 1) = Some (v + (a - 1))" using True um by (simp add: u_checked_add_def)
    have "unat (v + (a - 1)) = ?n" using u_checked_add_Some[OF sum] um by simp
    then have "unat ((v + (a - 1)) AND NOT (a - 1)) = round_up (unat v) (unat a)"
      unfolding mask and_not_mask ru by (simp add: mask[symmetric])
    then have "(v + (a - 1)) AND NOT (a - 1) = word_of_nat (round_up (unat v) (unat a))"
      using fits True by (simp add: word_unat_eq_iff unat_word_of_nat)
    then show ?thesis using a sum fits True by (simp add: align_up_def Let_def)
  next
    case False
    then have "u_checked_add v (a - 1) = None" using um by (simp add: u_checked_add_def)
    then show ?thesis using a fits False by (simp add: align_up_def Let_def)
  qed
qed

lemma align_up_Ok_iff [res_iff]:
  "align_up v a = Ok r \<longleftrightarrow> is_power_of_two a \<and> unat r = round_up (unat v) (unat a)"
proof (cases "is_power_of_two a")
  case True
  have "unat r < 2 ^ LENGTH(32)" by (rule unsigned_less)
  then have "unat r < 2 ^ 32" by simp
  then show ?thesis
    unfolding align_up_exact[OF True]
    using True by (auto simp: unat_word_of_nat word_unat_eq_iff)
next
  case False
  then show ?thesis by (simp add: align_up_def)
qed

lemma align_up_not_Panic [simp]: "align_up v a \<noteq> Panic"
  by (simp add: align_up_def Let_def split: option.splits)

section \<open>Placement\<close>

text \<open>
  The reference: a C structure over unbounded numbers.  Every member starts at the least multiple
  of its alignment after the one before; the result also has the end of the last member.
\<close>

fun place :: "nat \<Rightarrow> (nat \<times> nat) list \<Rightarrow> nat list \<times> nat" where
  "place start [] = ([], start)"
| "place start ((s, a) # members) =
     (let here = round_up start a; (offsets, stop) = place (here + s) members in (here # offsets, stop))"

definition row_shape :: "field_layout \<Rightarrow> nat \<times> nat" where
  "row_shape row = (unat (afl_size row), unat (afl_align row))"

text \<open>A row holds one field of the declaration, laid out by \<open>lay\<close>.\<close>

definition row_of ::
  "(rtype \<Rightarrow> value_layout laid) \<Rightarrow> declaration_id \<Rightarrow> rtype list \<Rightarrow> field_declaration \<Rightarrow> field_layout \<Rightarrow> bool" where
  "row_of lay rec arguments d row \<longleftrightarrow>
     afl_field row = fd_id d \<and> substitute_type (fd_ty d) rec arguments = Ok (afl_ty row)
     \<and> (\<exists>v. lay (afl_ty row) = Ok v \<and> afl_size row = vl_size v \<and> afl_align row = vl_align v
          \<and> afl_value_kind row = field_kind (vl_kind v) \<and> afl_nested_digest row = vl_digest v)"

lemma layout_fields_rows:
  "layout_fields lay rec arguments n ds seen off al rows = Ok (off', al', rows') \<Longrightarrow>
     \<exists>new. rows' = rows @ new \<and> list_all2 (row_of lay rec arguments) ds new
       \<and> place (unat off) (map row_shape new) = (map (unat \<circ> afl_offset) new, unat off')
       \<and> (\<forall>row\<in>set new. is_power_of_two (afl_align row))
       \<and> al' = fold max (map afl_align new) al"
proof (induction ds arbitrary: n seen off al rows)
  case Nil
  then show ?case by simp
next
  case (Cons d ds)
  from Cons.prems obtain ty v start stop where
    sub: "substitute_type (fd_ty d) rec arguments = Ok ty" and lay: "lay ty = Ok v"
    and start: "align_up off (vl_align v) = Ok start" and stop: "u_checked_add start (vl_size v) = Some stop"
    and rest: "layout_fields lay rec arguments (n + 1) ds (fd_id d # seen) stop (max al (vl_align v))
      (rows @ [\<lparr>afl_field = fd_id d, afl_ty = ty, afl_value_kind = field_kind (vl_kind v),
                afl_offset = start, afl_size = vl_size v, afl_align = vl_align v,
                afl_nested_digest = vl_digest v\<rparr>]) = Ok (off', al', rows')"
    by (auto simp: res_bind_Ok_iff split: option.splits if_splits)
  let ?row = "\<lparr>afl_field = fd_id d, afl_ty = ty, afl_value_kind = field_kind (vl_kind v),
                afl_offset = start, afl_size = vl_size v, afl_align = vl_align v,
                afl_nested_digest = vl_digest v\<rparr>"
  obtain new where new: "rows' = (rows @ [?row]) @ new" "list_all2 (row_of lay rec arguments) ds new"
    "place (unat stop) (map row_shape new) = (map (unat \<circ> afl_offset) new, unat off')"
    "\<forall>row\<in>set new. is_power_of_two (afl_align row)" "al' = fold max (map afl_align new) (max al (vl_align v))"
    using Cons.IH[OF rest] by blast
  have at: "unat start = round_up (unat off) (unat (vl_align v))" "is_power_of_two (vl_align v)"
    using start by (simp_all add: align_up_Ok_iff)
  have "unat stop = round_up (unat off) (unat (vl_align v)) + unat (vl_size v)"
    using u_checked_add_Some[OF stop] at(1) by simp
  then have "place (unat off) (map row_shape (?row # new)) = (map (unat \<circ> afl_offset) (?row # new), unat off')"
    using new(3) at(1) by (simp add: row_shape_def)
  moreover have "row_of lay rec arguments d ?row" using sub lay by (simp add: row_of_def)
  ultimately have "rows' = rows @ (?row # new) \<and> list_all2 (row_of lay rec arguments) (d # ds) (?row # new)
       \<and> place (unat off) (map row_shape (?row # new)) = (map (unat \<circ> afl_offset) (?row # new), unat off')
       \<and> (\<forall>row\<in>set (?row # new). is_power_of_two (afl_align row))
       \<and> al' = fold max (map afl_align (?row # new)) al"
    using new at(2) by (simp add: max.commute)
  then show ?case by blast
qed

text \<open>What placement gives: aligned, in order, disjoint and inside.\<close>

lemma place_bounds:
  "place start members = (offsets, stop) \<Longrightarrow> \<forall>(s, a)\<in>set members. 0 < a \<Longrightarrow>
     length offsets = length members \<and> start \<le> stop
     \<and> (\<forall>i<length members. snd (members ! i) dvd offsets ! i \<and> start \<le> offsets ! i
          \<and> offsets ! i + fst (members ! i) \<le> stop)
     \<and> (\<forall>j<length members. \<forall>i<j. offsets ! i + fst (members ! i) \<le> offsets ! j)"
proof (induction start members arbitrary: offsets stop rule: place.induct)
  case (1 start)
  then show ?case by simp
next
  case (2 start s a members)
  obtain os where os: "place (round_up start a + s) members = (os, stop)" "offsets = round_up start a # os"
    using 2(2) by (auto simp: Let_def split: prod.splits)
  have a: "0 < a" and rest: "\<forall>(s, a)\<in>set members. 0 < a" using 2(3) by auto
  note ih = 2(1)[OF refl os(1) rest]
  note up = round_up_bounds[OF a, of start]
  have mem: "snd (((s, a) # members) ! i) dvd offsets ! i \<and> start \<le> offsets ! i
          \<and> offsets ! i + fst (((s, a) # members) ! i) \<le> stop" if "i < length ((s, a) # members)" for i
    using that ih up by (cases i) (auto simp: os(2))
  have order: "offsets ! i + fst (((s, a) # members) ! i) \<le> offsets ! j"
    if ij: "j < length ((s, a) # members)" "i < j" for i j
  proof (cases i)
    case 0
    then show ?thesis using ij ih by (cases j) (auto simp: os(2))
  next
    case (Suc i')
    then obtain j' where "j = Suc j'" using ij by (cases j) auto
    then show ?thesis using ij ih Suc by (auto simp: os(2))
  qed
  show ?case using ih up mem order by (auto simp: os(2))
qed

section \<open>Layouts of records\<close>

lemma power_of_two_dvd:
  assumes "is_power_of_two a" and "is_power_of_two b" and "a \<le> b"
  shows "unat a dvd unat b"
proof -
  obtain k m where k: "unat a = 2 ^ k" "unat b = 2 ^ m" using assms(1,2) power_of_two_unat by blast
  then have "(2::nat) ^ k \<le> 2 ^ m" using assms(3) by (simp add: word_le_nat_alt)
  then have "k \<le> m" using power_le_imp_le_exp[of "2 :: nat" k m] by simp
  then show ?thesis using k by (simp add: le_imp_power_dvd)
qed

lemma fold_max_align:
  "is_power_of_two al \<Longrightarrow> \<forall>a\<in>set as. is_power_of_two a \<Longrightarrow>
     is_power_of_two (fold max as al) \<and> al \<le> fold max as al \<and> (\<forall>a\<in>set as. a \<le> fold max as al)
     \<and> (fold max as al = al \<or> fold max as al \<in> set as)"
proof (induction as arbitrary: al)
  case (Cons a as)
  have "is_power_of_two (max a al)" using Cons.prems by (simp add: max_def)
  note ih = Cons.IH[OF this]
  have "max a al \<le> fold max as (max a al)" using ih Cons.prems by simp
  then have "a \<le> fold max as (max a al)" "al \<le> fold max as (max a al)" by auto
  then show ?case using ih Cons.prems by (auto simp: max_def split: if_splits)
qed simp

text \<open>
  \<open>laid_out\<close>: the rows, size and alignment of a record over a layout function for its fields, as a
  C structure; an empty record is one byte.
\<close>

definition laid_out ::
  "(rtype \<Rightarrow> value_layout laid) \<Rightarrow> declaration_id \<Rightarrow> rtype list \<Rightarrow> field_declaration list
     \<Rightarrow> field_layout list \<Rightarrow> u32 \<Rightarrow> u32 \<Rightarrow> bool" where
  "laid_out lay rec arguments ds rows sz align \<longleftrightarrow>
     list_all2 (row_of lay rec arguments) ds rows
     \<and> (\<forall>row\<in>set rows. is_power_of_two (afl_align row))
     \<and> unat align = Max (insert 1 (set (map (unat \<circ> afl_align) rows)))
     \<and> (case place (if ds = [] then 1 else 0) (map row_shape rows) of
          (offsets, stop) \<Rightarrow>
            map (unat \<circ> afl_offset) rows = offsets \<and> unat sz = round_up stop (unat align))"

lemma one_power_of_two: "is_power_of_two 1"
  unfolding power_of_two_iff by (rule exI[of _ 0]) simp

lemma layout_record_laid_out:
  assumes "layout_record lay sha256 target rec arguments ds = Ok v"
  shows "\<exists>rows. vl_kind v = Vk_Record rows \<and> laid_out lay rec arguments ds rows (vl_size v) (vl_align v)"
proof -
  from assms obtain off al rows where
    f: "layout_fields lay rec arguments 0 ds [] (if ds = [] then 1 else 0) 1 [] = Ok (off, al, rows)"
    and sz: "align_up off al = Ok (vl_size v)" and v: "vl_align v = al" "vl_kind v = Vk_Record rows"
    by (auto simp: layout_record_def res_bind_Ok_iff split: prod.splits)
  from layout_fields_rows[OF f] have rows: "list_all2 (row_of lay rec arguments) ds rows"
    and pl: "place (unat (if ds = [] then 1 else 0 :: u32)) (map row_shape rows) = (map (unat \<circ> afl_offset) rows, unat off)"
    and pow: "\<forall>row\<in>set rows. is_power_of_two (afl_align row)"
    and al: "al = fold max (map afl_align rows) 1"
    by auto
  have m: "is_power_of_two al" "1 \<le> al" "\<forall>row\<in>set rows. afl_align row \<le> al" "al = 1 \<or> al \<in> afl_align ` set rows"
    using fold_max_align[OF one_power_of_two, of "map afl_align rows"] pow al by auto
  have "unat al = Max (insert 1 (set (map (unat \<circ> afl_align) rows)))"
    using m(2-4) by (intro Max_eqI[symmetric]) (auto simp: word_le_nat_alt)
  moreover have "unat (vl_size v) = round_up (unat off) (unat al)" using sz by (simp add: align_up_Ok_iff)
  moreover have "unat (if ds = [] then 1 else 0 :: u32) = (if ds = [] then 1 else 0)" by simp
  ultimately show ?thesis
    using rows pl pow v by (auto simp: laid_out_def)
qed

lemma nominal_record:
  assumes "layout_nominal lay sha256 program target d arguments visiting = Ok v" and "vl_kind v = Vk_Record rows"
  shows "\<exists>item ds. unique_type program d = Ok item \<and> (td_kind item = Kind_Record ds \<or> (\<exists>ms. td_kind item = Kind_Class ds ms))
     \<and> length arguments = length (td_type_parameters item)
     \<and> key_of (Ty_Nominal d arguments) \<notin> set visiting
     \<and> layout_record (\<lambda>ty. lay ty (key_of (Ty_Nominal d arguments) # visiting)) sha256 target d arguments ds = Ok v"
proof -
  obtain item where item: "unique_type program d = Ok item"
    using assms(1) by (auto simp: layout_nominal_def res_bind_Ok_iff)
  note unfold = layout_nominal_def item identity_key_eq Let_def
  show ?thesis
  proof (cases "td_kind item")
    case (Kind_Resource dr)
    then show ?thesis
      using assms by (auto simp: unfold leaf_layout_def res_bind_Ok_iff split: if_splits aggregate_target.splits)
  next
    case (Kind_Record ds)
    then have "length arguments = length (td_type_parameters item) \<and> key_of (Ty_Nominal d arguments) \<notin> set visiting
        \<and> layout_record (\<lambda>ty. lay ty (key_of (Ty_Nominal d arguments) # visiting)) sha256 target d arguments ds = Ok v"
      using assms(1) by (simp add: unfold del: key_of.simps split: if_splits)
    then show ?thesis using item Kind_Record by blast
  next
    case (Kind_Class ds ms)
    then have "length arguments = length (td_type_parameters item) \<and> key_of (Ty_Nominal d arguments) \<notin> set visiting
        \<and> layout_record (\<lambda>ty. lay ty (key_of (Ty_Nominal d arguments) # visiting)) sha256 target d arguments ds = Ok v"
      using assms(1) by (simp add: unfold del: key_of.simps split: if_splits)
    then show ?thesis using item Kind_Class by blast
  next
    case (Kind_Variant cs)
    then show ?thesis using assms(1) by (simp add: unfold)
  qed
qed

text \<open>A record layout in the program: what \<open>layout_for_type\<close> returns.\<close>

lemma layout_for_type_laid_out:
  assumes "layout_for_type n sha256 program target instance_ty = Ok l"
  shows "\<exists>rec arguments item ds.
     instance_ty = Ty_Nominal rec arguments \<and> unique_type program rec = Ok item
     \<and> (td_kind item = Kind_Record ds \<or> (\<exists>ms. td_kind item = Kind_Class ds ms))
     \<and> laid_out (\<lambda>ty. layout_type n sha256 program target ty [key_of instance_ty]) rec arguments ds
         (al_fields l) (al_size l) (al_align l)
     \<and> al_target l = target \<and> al_record l = rec \<and> al_instance l = instance_ty"
proof (cases instance_ty)
  case (Ty_Nominal rec arguments)
  from assms obtain v where v: "layout_nominal (\<lambda>ty visiting. layout_type n sha256 program target ty visiting)
      sha256 program target rec arguments [] = Ok v"
    and body: "(case vl_kind v of
                  Vk_Record rows \<Rightarrow>
                    Ok \<lparr>al_target = target, al_record = rec, al_instance = instance_ty, al_size = vl_size v,
                        al_align = vl_align v, al_fields = rows, al_digest = vl_digest v\<rparr>
                | _ \<Rightarrow> Err (layout_error (''`'' @ rec @ ''` is not a record''))) = Ok l"
    unfolding Ty_Nominal layout_for_type_def by (auto simp: res_bind_Ok_iff split: if_splits)
  from body obtain rows where k: "vl_kind v = Vk_Record rows"
    and l: "l = \<lparr>al_target = target, al_record = rec, al_instance = instance_ty, al_size = vl_size v,
                 al_align = vl_align v, al_fields = rows, al_digest = vl_digest v\<rparr>"
    by (auto split: value_layout_kind.splits)
  obtain item ds where item: "unique_type program rec = Ok item"
    "td_kind item = Kind_Record ds \<or> (\<exists>ms. td_kind item = Kind_Class ds ms)"
    and r: "layout_record (\<lambda>ty. layout_type n sha256 program target ty [key_of instance_ty]) sha256 target rec arguments ds = Ok v"
    using nominal_record[OF v k] unfolding Ty_Nominal by auto
  show ?thesis
    using layout_record_laid_out[OF r] item k by (auto simp: l Ty_Nominal)
qed (use assms in \<open>simp_all add: layout_for_type_def\<close>)

text \<open>Aligned, in declaration order, disjoint, inside the record.\<close>

lemma laid_out_safe:
  assumes "laid_out lay rec arguments ds rows sz align"
  shows "is_power_of_two align \<and> unat align dvd unat sz
     \<and> (\<forall>row\<in>set rows. unat (afl_align row) dvd unat (afl_offset row)
          \<and> unat (afl_align row) dvd unat align
          \<and> unat (afl_offset row) + unat (afl_size row) \<le> unat sz)
     \<and> sorted_wrt (\<lambda>r s. unat (afl_offset r) + unat (afl_size r) \<le> unat (afl_offset s)) rows
     \<and> (rows = [] \<longrightarrow> sz = 1)"
proof -
  have pow: "\<forall>row\<in>set rows. is_power_of_two (afl_align row)"
    and al: "unat align = Max (insert 1 (set (map (unat \<circ> afl_align) rows)))"
    using assms by (auto simp: laid_out_def)
  obtain stop where pl: "place (if ds = [] then 1 else 0) (map row_shape rows) = (map (unat \<circ> afl_offset) rows, stop)"
    and sz: "unat sz = round_up stop (unat align)"
    using assms by (auto simp: laid_out_def split: prod.splits)
  have "unat align = 1 \<or> (\<exists>row\<in>set rows. unat align = unat (afl_align row))"
    using Max_in[of "insert 1 (set (map (unat \<circ> afl_align) rows))"] al by auto
  then have "align = 1 \<or> (\<exists>row\<in>set rows. align = afl_align row)" by (simp add: word_unat_eq_iff)
  then have pa: "is_power_of_two align" using pow one_power_of_two by auto
  have le: "afl_align row \<le> align" if "row \<in> set rows" for row
    using al that by (simp add: word_le_nat_alt)
  have posn: "0 < unat a" if "is_power_of_two a" for a using power_of_two_unat[OF that] by auto
  have pos: "\<forall>(s, a)\<in>set (map row_shape rows). 0 < a" using pow posn by (auto simp: row_shape_def)
  note b = place_bounds[OF pl pos]
  have bi: "\<And>i. i < length rows \<Longrightarrow> unat (afl_align (rows ! i)) dvd unat (afl_offset (rows ! i))
      \<and> unat (afl_offset (rows ! i)) + unat (afl_size (rows ! i)) \<le> stop"
    using b by (simp add: row_shape_def)
  have bj: "\<And>i j. j < length rows \<Longrightarrow> i < j \<Longrightarrow>
      unat (afl_offset (rows ! i)) + unat (afl_size (rows ! i)) \<le> unat (afl_offset (rows ! j))"
    using b by (simp add: row_shape_def)
  note up = round_up_bounds[OF posn[OF pa], of stop]
  have ord: "sorted_wrt (\<lambda>r s. unat (afl_offset r) + unat (afl_size r) \<le> unat (afl_offset s)) rows"
    unfolding sorted_wrt_iff_nth_less using bj by blast
  have rows: "unat (afl_align row) dvd unat (afl_offset row) \<and> unat (afl_align row) dvd unat align
          \<and> unat (afl_offset row) + unat (afl_size row) \<le> unat sz" if row: "row \<in> set rows" for row
  proof -
    obtain i where i: "i < length rows" "row = rows ! i" using row unfolding in_set_conv_nth by blast
    then have "unat (afl_align row) dvd unat (afl_offset row)" "unat (afl_offset row) + unat (afl_size row) \<le> stop"
      using bi[OF i(1)] by simp_all
    then show ?thesis using power_of_two_dvd[OF _ pa le[OF row]] pow row up sz by auto
  qed
  have empty: "sz = 1" if "rows = []"
  proof -
    have "ds = []" using assms that by (auto simp: laid_out_def)
    then show ?thesis using pl sz al that by (auto simp: round_up_def word_unat_eq_iff)
  qed
  show ?thesis using pa up(1) sz ord rows empty by auto
qed

end
