(* ===== verification/LayoutTotal.thy ===== *)
theory LayoutTotal
  imports LayoutSound
begin

text \<open>
  Laying a type out terminates (\<open>src/aggregate_layout.rs\<close>): the search for generic descendants stays
  among the instances a type reaches, an admitted generic instance nests at most 64 records, and any
  other record repeats no instance on a path.  So where a type reaches finitely many instances, a
  bound computed from them is enough fuel, and more fuel does not change the result.
\<close>

section \<open>More fuel\<close>

text \<open>\<open>extends f g\<close>: where \<open>f\<close> returned, \<open>g\<close> returns the same.\<close>

definition extends :: "('a \<Rightarrow> 'b laid) \<Rightarrow> ('a \<Rightarrow> 'b laid) \<Rightarrow> bool" where
  "extends f g \<longleftrightarrow> (\<forall>x. f x \<noteq> Panic \<longrightarrow> g x = f x)"

lemma extends_bind: "(m \<noteq> Panic \<Longrightarrow> m' = m) \<Longrightarrow> (\<And>x. m = Ok x \<Longrightarrow> f x \<noteq> Panic \<Longrightarrow> g x = f x) \<Longrightarrow>
    res_bind m f \<noteq> Panic \<Longrightarrow> res_bind m' g = res_bind m f"
  by (cases m) auto

lemma layout_fields_extends:
  assumes "extends lay lay'"
  shows "layout_fields lay rec arguments n ds seen off al rows \<noteq> Panic \<Longrightarrow>
     layout_fields lay' rec arguments n ds seen off al rows = layout_fields lay rec arguments n ds seen off al rows"
proof (induction ds arbitrary: n seen off al rows)
  case (Cons d ds)
  have lay: "\<And>ty. lay ty \<noteq> Panic \<Longrightarrow> lay' ty = lay ty" using assms by (simp add: extends_def)
  show ?case
  proof (cases "substitute_type (fd_ty d) rec arguments")
    case sub: (Ok ty)
    show ?thesis
    proof (cases "lay ty")
      case v: (Ok v)
      have v': "lay' ty = Ok v" using lay[of ty] v by simp
      show ?thesis
      proof (cases "align_up off (vl_align v)")
        case (Ok start)
        then show ?thesis
          using Cons.prems Cons.IH by (auto simp: sub v v' split: option.splits)
      qed (simp_all add: sub v v' split: option.splits)
    next
      case (Err e)
      then show ?thesis using lay[of ty] by (simp add: sub split: option.splits)
    next
      case Panic
      then show ?thesis using Cons.prems by (auto simp: sub split: option.splits if_splits)
    qed
  qed (simp_all split: option.splits)
qed simp

lemma layout_record_extends:
  assumes "extends lay lay'" and "layout_record lay sha256 target rec arguments ds \<noteq> Panic"
  shows "layout_record lay' sha256 target rec arguments ds = layout_record lay sha256 target rec arguments ds"
proof -
  have "layout_fields lay rec arguments 0 ds [] (if ds = [] then 1 else 0) 1 [] \<noteq> Panic"
    using assms(2) by (auto simp: layout_record_def)
  from layout_fields_extends[OF assms(1) this] show ?thesis by (simp add: layout_record_def)
qed

lemma layout_nominal_extends:
  assumes "\<And>key. extends (\<lambda>ty. lay ty (key # visiting)) (\<lambda>ty. lay' ty (key # visiting))"
    and "layout_nominal lay sha256 program target d arguments visiting \<noteq> Panic"
  shows "layout_nominal lay' sha256 program target d arguments visiting =
     layout_nominal lay sha256 program target d arguments visiting"
  using assms(2) layout_record_extends[OF assms(1)]
  by (cases "unique_type program d")
     (auto simp: layout_nominal_def identity_key_eq Let_def split: type_declaration_kind.splits)

lemma layout_type_more:
  "layout_type n sha256 program target ty visiting \<noteq> Panic \<Longrightarrow>
     layout_type (Suc n) sha256 program target ty visiting = layout_type n sha256 program target ty visiting"
proof (induction n arbitrary: ty visiting)
  case (Suc n)
  show ?case
  proof (cases ty)
    case (Ty_Nominal d arguments)
    have "layout_nominal (layout_type (Suc n) sha256 program target) sha256 program target d arguments visiting =
        layout_nominal (layout_type n sha256 program target) sha256 program target d arguments visiting"
      by (rule layout_nominal_extends) (use Suc Ty_Nominal in \<open>simp_all add: extends_def\<close>)
    then show ?thesis using Ty_Nominal by simp
  qed simp_all
qed simp

lemma layout_type_fuel:
  assumes "layout_type n sha256 program target ty visiting \<noteq> Panic" and "n \<le> m"
  shows "layout_type m sha256 program target ty visiting = layout_type n sha256 program target ty visiting"
  using assms(2,1) by (induction m rule: dec_induct) (simp_all add: layout_type_more del: layout_type.simps)

lemma descendant_loop_more:
  "descendant_loop n program pending visited \<noteq> Panic \<Longrightarrow>
     descendant_loop (Suc n) program pending visited = descendant_loop n program pending visited"
proof (induction n program pending visited rule: descendant_loop.induct)
  case (3 n program ty pending visited)
  then show ?case
    by (cases ty)
       (auto simp: identity_key_eq simp del: key_of.simps split: res.splits type_declaration_kind.splits if_splits)
qed auto

section \<open>Returning at all\<close>

lemma unique_type_not_Panic [simp]: "unique_type program d \<noteq> Panic"
  by (simp add: unique_type_def split: list.splits)

lemma subst_not_Panic: "subst owner arguments ty \<noteq> Panic"
proof (induction ty)
  case (Ty_Function ps r)
  moreover have "substs owner arguments ps \<noteq> Panic"
    using Ty_Function(1) by (induction ps) (auto simp: res_iff)
  ultimately show ?case by (auto simp: res_iff)
next
  case (Ty_Nominal d as)
  then have "substs owner arguments as \<noteq> Panic" by (induction as) (auto simp: res_iff)
  then show ?case by (auto simp: res_iff)
next
  case (Ty_Parameter owner' index)
  then show ?case by (simp add: substitute_parameter_def)
qed simp_all

lemma field_digests_Ok: "\<exists>text'. field_digests rows digests = Ok text'"
  by (induction rows digests rule: field_digests.induct) (auto simp: identity_key_eq)

lemma digests_Ok:
  "\<exists>text'. digest_value_with_fields sha256 target ty sz align rows digests = Ok text'"
  using field_digests_Ok[of rows digests]
  by (auto simp: digest_value_with_fields_def identity_key_eq)

lemma leaf_layout_Ok: "\<exists>v. leaf_layout sha256 target ty sz align kind = Ok v"
  using digests_Ok[of sha256 target ty sz align "[]" "[]"]
  by (auto simp: leaf_layout_def digest_value_def)

lemma leaf_layout_not_Panic [simp]: "leaf_layout sha256 target ty sz align kind \<noteq> Panic"
  using leaf_layout_Ok[of sha256 target ty sz align kind] by auto

lemma layout_fields_not_Panic:
  assumes "\<forall>d\<in>set ds. \<forall>ty. substitute_type (fd_ty d) rec arguments = Ok ty \<longrightarrow> lay ty \<noteq> Panic"
  shows "layout_fields lay rec arguments n ds seen off al rows \<noteq> Panic"
  using assms
proof (induction ds arbitrary: n seen off al rows)
  case (Cons d ds)
  then show ?case
    using subst_not_Panic[of rec arguments "fd_ty d"]
    by (cases "substitute_type (fd_ty d) rec arguments")
       (auto simp: res_iff substitute_type_eq split: option.splits)
qed simp

lemma layout_record_not_Panic:
  assumes "\<forall>d\<in>set ds. \<forall>ty. substitute_type (fd_ty d) rec arguments = Ok ty \<longrightarrow> lay ty \<noteq> Panic"
  shows "layout_record lay sha256 target rec arguments ds \<noteq> Panic"
proof -
  have "digest_value_with_fields sha256 target ty sz align rows digests \<noteq> Panic" for ty sz align rows digests
    using digests_Ok[of sha256 target ty sz align rows digests] by auto
  then show ?thesis
    using layout_fields_not_Panic[OF assms] by (auto simp: layout_record_def res_iff split: prod.splits)
qed

text \<open>The fields of a type that is a record or class of the program.\<close>

definition fields_of :: "hir_program \<Rightarrow> declaration_id \<Rightarrow> field_declaration list" where
  "fields_of program d =
     (case unique_type program d of
        Ok item \<Rightarrow> (case td_kind item of Kind_Record ds \<Rightarrow> ds | Kind_Class ds ms \<Rightarrow> ds | _ \<Rightarrow> [])
      | _ \<Rightarrow> [])"

lemma layout_nominal_not_Panic:
  assumes "\<And>ty fd. fd \<in> set (fields_of program d) \<Longrightarrow> substitute_type (fd_ty fd) d arguments = Ok ty \<Longrightarrow>
      length arguments = arity \<Longrightarrow>
      key_of (Ty_Nominal d arguments) \<notin> set visiting \<Longrightarrow> lay ty (key_of (Ty_Nominal d arguments) # visiting) \<noteq> Panic"
    and "\<And>item. unique_type program d = Ok item \<Longrightarrow> length (td_type_parameters item) = arity"
  shows "layout_nominal lay sha256 program target d arguments visiting \<noteq> Panic"
proof (cases "unique_type program d")
  case (Ok item)
  have rec_ok: "layout_record (\<lambda>ty. lay ty (key_of (Ty_Nominal d arguments) # visiting)) sha256 target d arguments ds \<noteq> Panic"
    if "fields_of program d = ds" "length arguments = arity" "key_of (Ty_Nominal d arguments) \<notin> set visiting" for ds
    by (rule layout_record_not_Panic) (use assms(1) that in blast)
  show ?thesis
    using rec_ok assms(2)[OF Ok] Ok
    by (cases "td_kind item")
       (auto simp: layout_nominal_def identity_key_eq Let_def fields_of_def simp del: key_of.simps
         split: aggregate_target.splits)
qed (simp_all add: layout_nominal_def)

section \<open>Admitted instances nest boundedly\<close>

fun is_nominal :: "rtype \<Rightarrow> bool" where
  "is_nominal (Ty_Nominal d arguments) = True"
| "is_nominal _ = False"

text \<open>At most \<open>k\<close> records inside each other.\<close>

fun shallow :: "nat \<Rightarrow> hir_program \<Rightarrow> rtype \<Rightarrow> bool" where
  "shallow 0 program ty \<longleftrightarrow> \<not> is_nominal ty"
| "shallow (Suc k) program ty \<longleftrightarrow>
     (case ty of
        Ty_Nominal d arguments \<Rightarrow>
          (\<forall>fd\<in>set (fields_of program d). \<forall>t. substitute_type (fd_ty fd) d arguments = Ok t \<longrightarrow> shallow k program t)
      | _ \<Rightarrow> True)"

lemma shallow_leaf: "\<not> is_nominal ty \<Longrightarrow> shallow k program ty"
  by (cases k; cases ty) simp_all

definition frame_shallow :: "hir_program \<Rightarrow> admission_frame \<Rightarrow> bool" where
  "frame_shallow program frame =
     (case frame of
        Af_Type ty depth \<Rightarrow> shallow (Suc MAX_CONCRETE_ARGUMENT_RECORD_DEPTH - depth) program ty
      | Af_Fields d rows arguments i depth \<Rightarrow>
          (\<forall>j. i \<le> j \<and> j < length rows \<longrightarrow> (\<forall>t. substitute_type (fd_ty (rows ! j)) d arguments = Ok t
             \<longrightarrow> shallow (MAX_CONCRETE_ARGUMENT_RECORD_DEPTH - depth) program t))
      | Af_Leave key \<Rightarrow> True)"

lemma admission_shallow:
  "admission_loop program pending active visited leaves = Ok True \<Longrightarrow> \<forall>frame\<in>set pending. frame_shallow program frame"
proof (induction program pending active visited leaves rule: admission_loop.induct)
  case (2 program ty depth pending active visited leaves)
  show ?case
  proof (cases ty)
    case (Ty_Nominal d arguments)
    from 2(11) Ty_Nominal obtain item rows where item: "unique_type program d = Ok item"
      and k: "td_kind item = Kind_Record rows" and depth: "\<not> MAX_CONCRETE_ARGUMENT_RECORD_DEPTH < depth"
      and rest: "admission_loop program
         (Af_Fields d rows arguments 0 depth # Af_Leave (key_of ty) # pending) (key_of ty # active) visited leaves = Ok True"
      and new: "key_of ty \<notin> set active" and arity: "length arguments = length (td_type_parameters item)"
      by (auto simp: identity_key_eq simp del: key_of.simps split: res.splits type_declaration_kind.splits if_splits)
    have "\<forall>frame\<in>set (Af_Fields d rows arguments 0 depth # Af_Leave (key_of ty) # pending). frame_shallow program frame"
      using 2(10)[OF Ty_Nominal depth item k _ new] rest arity by simp
    then have fields: "\<forall>fd\<in>set rows. \<forall>t. substitute_type (fd_ty fd) d arguments = Ok t
         \<longrightarrow> shallow (MAX_CONCRETE_ARGUMENT_RECORD_DEPTH - depth) program t"
      and others: "\<forall>frame\<in>set pending. frame_shallow program frame"
      by (auto simp: frame_shallow_def in_set_conv_nth)
    have "Suc MAX_CONCRETE_ARGUMENT_RECORD_DEPTH - depth = Suc (MAX_CONCRETE_ARGUMENT_RECORD_DEPTH - depth)"
      using depth by simp
    then show ?thesis using fields others Ty_Nominal item k by (auto simp: frame_shallow_def fields_of_def)
  qed (use 2 in \<open>auto simp: frame_shallow_def shallow_leaf split: if_splits\<close>)
next
  case (3 program d rows arguments i depth pending active visited leaves)
  show ?case
  proof (cases "length rows \<le> i")
    case True
    then show ?thesis using 3 by (auto simp: frame_shallow_def)
  next
    case False
    then obtain t where t: "substitute_type (fd_ty (rows ! i)) d arguments = Ok t"
      and rest: "admission_loop program
                  (Af_Type t (depth + 1) # Af_Fields d rows arguments (i + 1) depth # pending)
                  active (visited + 1) leaves = Ok True" and few: "\<not> visited + 1 > MAX_CONCRETE_ARGUMENT_FIELDS"
      using 3(3) by (auto split: res.splits if_splits)
    have ih: "\<forall>frame\<in>set (Af_Type t (depth + 1) # Af_Fields d rows arguments (i + 1) depth # pending).
        frame_shallow program frame"
      by (rule 3(2)[OF False few t rest])
    have first: "shallow (MAX_CONCRETE_ARGUMENT_RECORD_DEPTH - depth) program t"
      and later: "\<forall>j u. Suc i \<le> j \<longrightarrow> j < length rows \<longrightarrow> substitute_type (fd_ty (rows ! j)) d arguments = Ok u
        \<longrightarrow> shallow (MAX_CONCRETE_ARGUMENT_RECORD_DEPTH - depth) program u"
      using ih by (simp_all add: frame_shallow_def)
    have "shallow (MAX_CONCRETE_ARGUMENT_RECORD_DEPTH - depth) program u"
      if j: "i \<le> j" "j < length rows" "substitute_type (fd_ty (rows ! j)) d arguments = Ok u" for j u
    proof (cases "j = i")
      case True
      then show ?thesis using first t j(3) by simp
    next
      case False
      then have "Suc i \<le> j" using j(1) by simp
      then show ?thesis using later j by blast
    qed
    then show ?thesis using ih by (auto simp: frame_shallow_def)
  qed
qed (auto simp: frame_shallow_def)

lemma shallow_returns:
  "shallow k program ty \<Longrightarrow> layout_type (Suc k) sha256 program target ty visiting \<noteq> Panic"
proof (induction k arbitrary: ty visiting)
  case 0
  then show ?case by (cases ty) (auto simp: scalar_size_align_def res_iff split: aggregate_target.splits prod.splits)
next
  case (Suc k)
  show ?case
  proof (cases ty)
    case (Ty_Nominal d arguments)
    have "layout_nominal (layout_type (Suc k) sha256 program target) sha256 program target d arguments visiting \<noteq> Panic"
    proof (rule layout_nominal_not_Panic[where arity = "case unique_type program d of Ok item \<Rightarrow> length (td_type_parameters item) | _ \<Rightarrow> 0"])
      fix t fd
      assume "fd \<in> set (fields_of program d)" "substitute_type (fd_ty fd) d arguments = Ok t"
      then have "shallow k program t" using Suc.prems Ty_Nominal by auto
      then show "layout_type (Suc k) sha256 program target t (key_of (Ty_Nominal d arguments) # visiting) \<noteq> Panic"
        by (rule Suc.IH)
    qed simp
    then show ?thesis using Ty_Nominal by simp
  qed (auto simp: scalar_size_align_def res_iff split: aggregate_target.splits prod.splits)
qed

section \<open>The search for generic descendants\<close>

text \<open>
  A generic record stops the search, a class does not, and a class may have type parameters too.  The
  search returns on a list of types that is closed under the fields of its classes and of its records
  without arguments.
\<close>

definition field_closed :: "hir_program \<Rightarrow> rtype list \<Rightarrow> bool" where
  "field_closed program us \<longleftrightarrow>
     list_all (\<lambda>t. case t of
         Ty_Nominal d arguments \<Rightarrow>
           (case unique_type program d of
              Ok item \<Rightarrow>
                (case td_kind item of
                   Kind_Record ds \<Rightarrow> arguments = [] \<longrightarrow> list_all (\<lambda>t. t \<in> set us) (descendant_fields d arguments ds)
                 | Kind_Class ds ms \<Rightarrow> list_all (\<lambda>t. t \<in> set us) (descendant_fields d arguments ds)
                 | _ \<Rightarrow> True)
            | _ \<Rightarrow> True)
       | _ \<Rightarrow> True) us"

lemma closed_fields:
  assumes "field_closed program us" and "Ty_Nominal d arguments \<in> set us" and "unique_type program d = Ok item"
    and "(td_kind item = Kind_Record ds \<and> arguments = []) \<or> td_kind item = Kind_Class ds ms"
  shows "set (descendant_fields d arguments ds) \<subseteq> set us"
  using bspec[OF assms(1)[unfolded field_closed_def list_all_iff] assms(2)] assms(3,4) by (auto simp: list_all_iff)

definition declared_types :: "hir_program \<Rightarrow> rtype list" where
  "declared_types program =
     concat (map (\<lambda>item. case td_kind item of
        Kind_Record ds \<Rightarrow> map fd_ty ds | Kind_Class ds ms \<Rightarrow> map fd_ty ds | _ \<Rightarrow> []) (hp_types program))"

lemma unique_type_in: "unique_type program d = Ok item \<Longrightarrow> item \<in> set (hp_types program) \<and> td_id item = d"
proof -
  assume "unique_type program d = Ok item"
  then have "filter (\<lambda>item. td_id item = d) (hp_types program) = [item]"
    by (auto simp: unique_type_def split: list.splits)
  then have "item \<in> set (filter (\<lambda>item. td_id item = d) (hp_types program))" by simp
  then show ?thesis by simp
qed

lemma descendant_fields_iff: "t \<in> set (descendant_fields d arguments ds) \<longleftrightarrow>
    (\<exists>fd\<in>set ds. substitute_type (fd_ty fd) d arguments = Ok t)"
  by (induction ds) (auto split: res.splits)

lemma length_descendant_fields: "length (descendant_fields d arguments ds) \<le> length ds"
  by (induction ds) (auto split: res.splits)

text \<open>
  The types of \<open>V\<close> are expanded in \<open>W\<close>: none is a generic record, and the types of their fields
  are in \<open>W\<close>.
\<close>

definition expanded :: "hir_program \<Rightarrow> rtype set \<Rightarrow> rtype set \<Rightarrow> bool" where
  "expanded program V W \<longleftrightarrow>
     (\<forall>d arguments item. Ty_Nominal d arguments \<in> V \<longrightarrow> unique_type program d = Ok item \<longrightarrow>
        (\<forall>ds. td_kind item = Kind_Record ds \<longrightarrow> arguments = [])
        \<and> (\<forall>fd\<in>set (fields_of program d). \<forall>t. substitute_type (fd_ty fd) d arguments = Ok t
             \<longrightarrow> \<not> is_nominal t \<or> t \<in> W))"

lemma expanded_into:
  "expanded program V W \<Longrightarrow> (\<And>t. t \<in> W \<Longrightarrow> is_nominal t \<Longrightarrow> t \<in> W') \<Longrightarrow> expanded program V W'"
  unfolding expanded_def by blast

lemma expanded_leaf: "\<not> is_nominal ty \<Longrightarrow> expanded program (insert ty V) W \<longleftrightarrow> expanded program V W"
  unfolding expanded_def by (cases ty) auto

lemma expanded_insert:
  assumes "expanded program V W" and "W \<subseteq> W'"
    and "\<And>d arguments item. ty = Ty_Nominal d arguments \<Longrightarrow> unique_type program d = Ok item \<Longrightarrow>
        (\<forall>ds. td_kind item = Kind_Record ds \<longrightarrow> arguments = [])
        \<and> set (descendant_fields d arguments (fields_of program d)) \<subseteq> W'"
  shows "expanded program (insert ty V) W'"
  using assms unfolding expanded_def by (fastforce simp: descendant_fields_iff subset_iff)

text \<open>When the search answers no, the types it saw form a closure.\<close>

lemma search_closure:
  assumes "field_closed program us"
  shows "descendant_loop n program pending (map key_of vs) = Ok False \<Longrightarrow>
     expanded program (set vs) (set vs \<union> set pending) \<Longrightarrow> set vs \<union> set pending \<subseteq> set us \<Longrightarrow>
     \<exists>W. set vs \<union> set pending \<subseteq> W \<and> expanded program W W \<and> W \<subseteq> set us"
proof (induction n arbitrary: pending vs)
  case (Suc n)
  show ?case
  proof (cases pending)
    case Nil
    then show ?thesis using Suc.prems by (intro exI[of _ "set vs"]) auto
  next
    case (Cons ty rest)
    show ?thesis
    proof (cases "is_nominal ty \<and> ty \<notin> set vs")
      case False
      then have a: "descendant_loop n program rest (map key_of vs) = Ok False"
        using Suc.prems(1) unfolding Cons
        by (cases ty) (auto simp: identity_key_eq image_iff key_of_inj simp del: key_of.simps)
      have b: "expanded program (set vs) (set vs \<union> set rest)"
        by (rule expanded_into[OF Suc.prems(2)]) (use False in \<open>auto simp: Cons\<close>)
      obtain W where W: "set vs \<union> set rest \<subseteq> W" "expanded program W W" "W \<subseteq> set us"
        using Suc.IH[OF a b] Suc.prems(3) Cons by auto
      show ?thesis
      proof (cases "is_nominal ty")
        case True
        then show ?thesis using W False by (intro exI[of _ W]) (auto simp: Cons)
      next
        case leaf: False
        have "expanded program (insert ty W) (insert ty W)"
          unfolding expanded_leaf[OF leaf] by (rule expanded_into[OF W(2)]) simp
        then show ?thesis using W Suc.prems(3) by (intro exI[of _ "insert ty W"]) (auto simp: Cons)
      qed
    next
      case True
      then obtain d arguments where ty: "ty = Ty_Nominal d arguments" by (cases ty) auto
      have new: "key_of ty \<notin> set (map key_of vs)" using True by (auto simp: key_of_inj)
      let ?more = "descendant_fields d arguments (fields_of program d)"
      have step: "descendant_loop n program (?more @ rest) (map key_of (ty # vs)) = Ok False
        \<and> (\<forall>item ds. unique_type program d = Ok item \<longrightarrow> td_kind item = Kind_Record ds \<longrightarrow> arguments = [])"
      proof (cases "unique_type program d")
        case (Ok item)
        then show ?thesis
          using Suc.prems(1) new unfolding Cons ty
          by (cases "td_kind item") (auto simp: identity_key_eq fields_of_def simp del: key_of.simps split: if_splits)
      qed (use Suc.prems(1) new in \<open>auto simp: Cons ty identity_key_eq fields_of_def simp del: key_of.simps\<close>)
      have "expanded program (insert ty (set vs)) (set (ty # vs) \<union> set (?more @ rest))"
        by (rule expanded_insert[OF Suc.prems(2)]) (use step in \<open>auto simp: Cons ty\<close>)
      moreover have "set ?more \<subseteq> set us"
      proof
        fix t assume "t \<in> set ?more"
        then obtain fd where fd: "fd \<in> set (fields_of program d)" "t \<in> set ?more"
          by (auto simp: descendant_fields_iff)
        then obtain item where item: "unique_type program d = Ok item"
          by (cases "unique_type program d") (auto simp: fields_of_def)
        then have "(td_kind item = Kind_Record (fields_of program d) \<and> arguments = [])
            \<or> (\<exists>ms. td_kind item = Kind_Class (fields_of program d) ms)"
          using fd(1) step by (cases "td_kind item") (auto simp: fields_of_def)
        moreover have "Ty_Nominal d arguments \<in> set us" using Suc.prems(3) by (simp add: Cons ty)
        ultimately show "t \<in> set us" using closed_fields[OF assms _ item] fd(2) by blast
      qed
      ultimately obtain W where "set (ty # vs) \<union> set (?more @ rest) \<subseteq> W" "expanded program W W" "W \<subseteq> set us"
        using Suc.IH[of "?more @ rest" "ty # vs"] step Suc.prems(3) by (auto simp: Cons)
      then show ?thesis unfolding Cons by (intro exI[of _ W]) auto
    qed
  qed
qed simp

lemma fields_bound: "length (fields_of program d) \<le> length (declared_types program)"
proof (cases "unique_type program d")
  case (Ok item)
  let ?fs = "\<lambda>item. case td_kind item of
      Kind_Record ds \<Rightarrow> map fd_ty ds | Kind_Class ds ms \<Rightarrow> map fd_ty ds | _ \<Rightarrow> []"
  have "item \<in> set (hp_types program)" using unique_type_in[OF Ok] by simp
  then have "length (?fs item) \<le> length (declared_types program)"
    by (auto simp: declared_types_def length_concat intro!: member_le_sum_list)
  moreover have "length (fields_of program d) = length (?fs item)"
    using Ok by (auto simp: fields_of_def split: type_declaration_kind.splits)
  ultimately show ?thesis by simp
qed (simp_all add: fields_of_def)

text \<open>The search returns: a type is expanded once, and the types stay in the closed list.\<close>

lemma descendant_returns:
  assumes "field_closed program us"
  shows "set waiting \<subseteq> set us \<Longrightarrow> set vs \<subseteq> set us \<Longrightarrow>
     length waiting + (card (set us) - card (set vs)) * length (declared_types program) < n \<Longrightarrow>
     descendant_loop n program waiting (map key_of vs) \<noteq> Panic"
proof (induction n arbitrary: waiting vs)
  case (Suc n)
  show ?case
  proof (cases waiting)
    case (Cons ty rest)
    have skip: "descendant_loop n program rest (map key_of vs) \<noteq> Panic"
      by (rule Suc.IH) (use Suc.prems Cons in simp_all)
    show ?thesis
    proof (cases "is_nominal ty \<and> ty \<notin> set vs")
      case False
      then show ?thesis
        using skip unfolding Cons
        by (cases ty) (auto simp: identity_key_eq image_iff key_of_inj simp del: key_of.simps)
    next
      case True
      then obtain d arguments where ty: "ty = Ty_Nominal d arguments" by (cases ty) auto
      have new: "key_of ty \<notin> set (map key_of vs)" using True by (auto simp: key_of_inj)
      have fewer: "Suc (card (set vs)) \<le> card (set us)"
      proof -
        have "insert ty (set vs) \<subseteq> set us" using Suc.prems Cons by auto
        then have "card (insert ty (set vs)) \<le> card (set us)" by (intro card_mono) simp_all
        then show ?thesis using True by simp
      qed
      have seen: "length more + length rest + (card (set us) - card (set (ty # vs))) * length (declared_types program) < n"
        if "length more \<le> length (declared_types program)" for more :: "rtype list"
      proof -
        obtain k where k: "card (set us) = Suc (card (set vs) + k)"
          using fewer by (metis add_Suc le_iff_add)
        then show ?thesis using Suc.prems(3) that True unfolding Cons by simp
      qed
      have leaf: "descendant_loop n program rest (key_of ty # map key_of vs) \<noteq> Panic"
        using Suc.IH[of rest "ty # vs"] seen[of "[]"] Suc.prems Cons by simp
      have more: "descendant_loop n program (descendant_fields d arguments ds @ rest) (key_of ty # map key_of vs) \<noteq> Panic"
        if item: "unique_type program d = Ok item"
          and kind: "(td_kind item = Kind_Record ds \<and> arguments = []) \<or> td_kind item = Kind_Class ds ms" for item ds ms
      proof -
        have "Ty_Nominal d arguments \<in> set us" using Suc.prems(1) by (simp add: Cons ty)
        then have "set (descendant_fields d arguments ds) \<subseteq> set us" by (rule closed_fields[OF assms _ item kind])
        moreover have "length (descendant_fields d arguments ds) \<le> length (declared_types program)"
        proof -
          have "fields_of program d = ds" using item kind by (auto simp: fields_of_def)
          then show ?thesis
            using length_descendant_fields[of d arguments ds] fields_bound[of program d] by simp
        qed
        ultimately show ?thesis
          using Suc.IH[of "descendant_fields d arguments ds @ rest" "ty # vs"] seen Suc.prems Cons by simp
      qed
      show ?thesis
      proof (cases "unique_type program d")
        case (Ok item)
        then show ?thesis
          using new leaf more[OF Ok] unfolding Cons ty
          by (cases "td_kind item") (auto simp: identity_key_eq simp del: key_of.simps)
      qed (use new leaf in \<open>auto simp: Cons ty identity_key_eq simp del: key_of.simps\<close>)
    qed
  qed simp
qed simp

section \<open>Instances without generic records\<close>

lemma closed_returns:
  assumes "finite W" and "expanded program W W"
  shows "\<not> is_nominal ty \<or> ty \<in> W \<Longrightarrow> card (W - set vs) < n \<Longrightarrow>
     layout_type n sha256 program target ty (map key_of vs) \<noteq> Panic"
proof (induction n arbitrary: ty vs)
  case (Suc n)
  show ?case
  proof (cases ty)
    case (Ty_Nominal d arguments)
    have "layout_nominal (layout_type n sha256 program target) sha256 program target d arguments (map key_of vs) \<noteq> Panic"
    proof (rule layout_nominal_not_Panic[where arity = "case unique_type program d of Ok item \<Rightarrow> length (td_type_parameters item) | _ \<Rightarrow> 0"])
      fix t fd
      assume fd: "fd \<in> set (fields_of program d)" "substitute_type (fd_ty fd) d arguments = Ok t"
        and "key_of (Ty_Nominal d arguments) \<notin> set (map key_of vs)"
      then have new: "ty \<notin> set vs" by (auto simp: Ty_Nominal simp del: key_of.simps)
      obtain item where "unique_type program d = Ok item"
        using fd(1) by (cases "unique_type program d") (auto simp: fields_of_def)
      then have t: "\<not> is_nominal t \<or> t \<in> W"
        using assms(2) Suc.prems(1) fd unfolding expanded_def Ty_Nominal by fastforce
      have "W - set (ty # vs) \<subset> W - set vs" using new Suc.prems(1) Ty_Nominal by auto
      then have "card (W - set (ty # vs)) < card (W - set vs)"
        using assms(1) by (intro psubset_card_mono) auto
      then have "layout_type n sha256 program target t (map key_of (ty # vs)) \<noteq> Panic"
        using Suc.IH[OF t, of "ty # vs"] Suc.prems(2) by linarith
      then show "layout_type n sha256 program target t (key_of (Ty_Nominal d arguments) # map key_of vs) \<noteq> Panic"
        by (simp add: Ty_Nominal del: key_of.simps)
    qed simp
    then show ?thesis using Ty_Nominal by simp
  qed (auto simp: scalar_size_align_def res_iff split: aggregate_target.splits prod.splits)
qed simp

section \<open>Enough fuel\<close>

definition layout_fuel :: "hir_program \<Rightarrow> rtype list \<Rightarrow> nat" where
  "layout_fuel program us = Suc (length us) * Suc (length (declared_types program)) + 65"

lemma search_returns:
  assumes "field_closed program us" and "ty \<in> set us" and "layout_fuel program us \<le> n"
  shows "contains_concrete_generic_record_descendant n program ty \<noteq> Panic"
proof -
  let ?f = "length (declared_types program)"
  have "card (set us) * ?f \<le> length us * ?f" by (rule mult_le_mono1) (rule card_length)
  moreover have "layout_fuel program us = length us * ?f + length us + ?f + 66" by (simp add: layout_fuel_def)
  ultimately have "1 + card (set us) * ?f < n" using assms(3) by linarith
  then have "descendant_loop n program [ty] (map key_of []) \<noteq> Panic"
    using assms(2) by (intro descendant_returns[OF assms(1)]) auto
  then show ?thesis by (simp add: contains_concrete_generic_record_descendant_def)
qed

lemma closed_nominal_returns:
  assumes "field_closed program us" and "Ty_Nominal d arguments \<in> set us" and "layout_fuel program us \<le> n"
    and "contains_concrete_generic_record_descendant n program (Ty_Nominal d arguments) = Ok False"
  shows "layout_nominal (layout_type n sha256 program target) sha256 program target d arguments [] \<noteq> Panic"
proof -
  let ?ty = "Ty_Nominal d arguments"
  have "descendant_loop n program [?ty] (map key_of []) = Ok False"
    using assms(4) by (simp add: contains_concrete_generic_record_descendant_def)
  then obtain W where W: "?ty \<in> W" "expanded program W W" "W \<subseteq> set us"
    using search_closure[OF assms(1), of n "[?ty]" "[]"] assms(2) by (auto simp: expanded_def)
  then have fin: "finite W" by (auto intro: finite_subset)
  have "card W \<le> length us" using card_mono[OF _ W(3)] card_length[of us] by simp
  then have "card W < n" using assms(3) by (simp add: layout_fuel_def)
  then have "layout_type (Suc n) sha256 program target ?ty (map key_of []) \<noteq> Panic"
    using W fin by (intro closed_returns[OF fin W(2)]) auto
  then show ?thesis by simp
qed

lemma admitted_nominal_returns:
  assumes "concrete_layout_instance_is_admitted program (Ty_Nominal d arguments) = Ok True" and "64 \<le> n"
  shows "layout_nominal (layout_type n sha256 program target) sha256 program target d arguments [] \<noteq> Panic"
proof -
  have "shallow MAX_CONCRETE_ARGUMENT_RECORD_DEPTH program (Ty_Nominal d arguments)"
    using admission_shallow[of program "[Af_Type (Ty_Nominal d arguments) 1]" "[]" 0 0] assms(1)
    by (simp add: concrete_layout_instance_is_admitted_def frame_shallow_def)
  then have "layout_type (Suc 64) sha256 program target (Ty_Nominal d arguments) [] \<noteq> Panic"
    unfolding MAX_CONCRETE_ARGUMENT_RECORD_DEPTH_def by (rule shallow_returns)
  then have "layout_type (Suc n) sha256 program target (Ty_Nominal d arguments) [] \<noteq> Panic"
    using layout_type_fuel[of "Suc 64" sha256 program target "Ty_Nominal d arguments" "[]" "Suc n"] assms(2)
    by (simp del: layout_type.simps)
  then show ?thesis by simp
qed

lemma admission_not_Panic: "admission_loop program waiting active visited leaves \<noteq> Panic"
proof (induction program waiting active visited leaves rule: admission_loop.induct)
  case (2 program ty depth waiting active visited leaves)
  then show ?case
    by (cases ty) (auto simp: identity_key_eq simp del: key_of.simps split: res.splits type_declaration_kind.splits)
next
  case (3 program d rows arguments i depth waiting active visited leaves)
  then show ?case by (auto split: res.splits)
qed auto

lemma layout_for_type_returns:
  assumes "field_closed program us" and "ty \<in> set us" and "layout_fuel program us \<le> n"
  shows "layout_for_type n sha256 program target ty \<noteq> Panic"
proof (cases ty)
  case (Ty_Nominal d arguments)
  have n: "64 \<le> n" using assms(3) by (simp add: layout_fuel_def)
  show ?thesis
    using search_returns[OF assms] closed_nominal_returns[OF assms(1) assms(2)[unfolded Ty_Nominal] assms(3), of sha256 target]
      admitted_nominal_returns[OF _ n, of program d arguments sha256 target]
      admission_not_Panic[of program "[Af_Type ty 1]" "[]" 0 0]
    unfolding Ty_Nominal layout_for_type_def concrete_layout_instance_is_admitted_def
    by (auto simp: res_iff split: value_layout_kind.splits)
qed (simp_all add: layout_for_type_def)

lemma layout_for_type_more:
  assumes "layout_for_type n sha256 program target ty \<noteq> Panic"
  shows "layout_for_type (Suc n) sha256 program target ty = layout_for_type n sha256 program target ty"
proof (cases ty)
  case (Ty_Nominal d arguments)
  let ?lay = "\<lambda>n. layout_nominal (layout_type n sha256 program target) sha256 program target d arguments []"
  define search where "search n = (if arguments \<noteq> [] then Ok True
      else contains_concrete_generic_record_descendant n program ty)" for n
  define finish where "finish = (\<lambda>v :: value_layout. case vl_kind v of
      Vk_Record rows \<Rightarrow>
        Ok \<lparr>al_target = target, al_record = d, al_instance = ty, al_size = vl_size v,
            al_align = vl_align v, al_fields = rows, al_digest = vl_digest v\<rparr>
    | _ \<Rightarrow> Err (layout_error (''`'' @ d @ ''` is not a record'')))"
  have whole: "layout_for_type n sha256 program target ty = res_bind (search n) (\<lambda>generic.
      res_bind (if generic then concrete_layout_instance_is_admitted program ty else Ok True) (\<lambda>admitted.
        if \<not> admitted then Err (layout_error (''record `'' @ d @ ''` has invalid concrete arguments''))
        else res_bind (?lay n) finish))" for n
    by (simp only: Ty_Nominal layout_for_type_def search_def finish_def rtype.case)
  have lay: "?lay (Suc n) = ?lay n" if "?lay n \<noteq> Panic"
    by (rule layout_nominal_extends) (use that in \<open>simp_all add: extends_def layout_type_more del: layout_type.simps\<close>)
  have tail: "res_bind (?lay (Suc n)) finish = res_bind (?lay n) finish" if "res_bind (?lay n) finish \<noteq> Panic"
    by (rule extends_bind) (use lay that in simp_all)
  have search: "search (Suc n) = search n" if "search n \<noteq> Panic"
    using that descendant_loop_more[of n program "[ty]" "[]"]
    by (auto simp: search_def contains_concrete_generic_record_descendant_def simp del: descendant_loop.simps)
  show ?thesis
    unfolding whole
  proof (rule extends_bind)
    show "search n \<noteq> Panic \<Longrightarrow> search (Suc n) = search n" by (rule search)
    show "res_bind (search n) (\<lambda>generic. res_bind
        (if generic then concrete_layout_instance_is_admitted program ty else Ok True) (\<lambda>admitted.
          if \<not> admitted then Err (layout_error (''record `'' @ d @ ''` has invalid concrete arguments''))
          else res_bind (?lay n) finish)) \<noteq> Panic"
      using assms by (simp only: whole not_False_eq_True)
    show "res_bind (if generic then concrete_layout_instance_is_admitted program ty else Ok True) (\<lambda>admitted.
          if \<not> admitted then Err (layout_error (''record `'' @ d @ ''` has invalid concrete arguments''))
          else res_bind (?lay (Suc n)) finish) =
        res_bind (if generic then concrete_layout_instance_is_admitted program ty else Ok True) (\<lambda>admitted.
          if \<not> admitted then Err (layout_error (''record `'' @ d @ ''` has invalid concrete arguments''))
          else res_bind (?lay n) finish)"
      if inner: "res_bind (if generic then concrete_layout_instance_is_admitted program ty else Ok True) (\<lambda>admitted.
          if \<not> admitted then Err (layout_error (''record `'' @ d @ ''` has invalid concrete arguments''))
          else res_bind (?lay n) finish) \<noteq> Panic" for generic
      by (rule extends_bind[OF refl _ inner]) (use tail in \<open>simp split: if_splits\<close>)
  qed
qed (simp_all add: layout_for_type_def)

lemma layout_for_type_settles:
  assumes "field_closed program us" and "ty \<in> set us" and "layout_fuel program us \<le> n"
  shows "layout_for_type n sha256 program target ty = layout_for_type (layout_fuel program us) sha256 program target ty"
  using assms(3)
proof (induction n rule: dec_induct)
  case (step m)
  then show ?case
    using layout_for_type_more[OF layout_for_type_returns[OF assms(1,2)], of m] by simp
qed simp

section \<open>Programs whose classes have no type parameters\<close>

text \<open>There the declared field types are a closed list, whatever type one starts from.\<close>

fun closed_type :: "rtype \<Rightarrow> bool" where
  "closed_type (Ty_Function ps r) \<longleftrightarrow> list_all closed_type ps \<and> closed_type r"
| "closed_type (Ty_Nominal d as) \<longleftrightarrow> list_all closed_type as"
| "closed_type (Ty_Parameter owner index) \<longleftrightarrow> False"
| "closed_type _ \<longleftrightarrow> True"

definition classes_monomorphic :: "hir_program \<Rightarrow> bool" where
  "classes_monomorphic program \<longleftrightarrow>
     list_all (\<lambda>item. case td_kind item of
        Kind_Class ds ms \<Rightarrow> td_type_parameters item = [] \<and> list_all (\<lambda>d. closed_type (fd_ty d)) ds
      | _ \<Rightarrow> True) (hp_types program)"

lemma substs_closed: "(\<And>t. t \<in> set ts \<Longrightarrow> subst owner arguments t = Ok t) \<Longrightarrow> substs owner arguments ts = Ok ts"
  by (induction ts) auto

lemma subst_closed: "closed_type t \<Longrightarrow> subst owner arguments t = Ok t"
  by (induction t) (auto simp: list_all_iff substs_closed)

lemma substs_no_arguments:
  "(\<And>t u. t \<in> set ts \<Longrightarrow> subst owner [] t = Ok u \<Longrightarrow> u = t) \<Longrightarrow> substs owner [] ts = Ok us \<Longrightarrow> us = ts"
  by (induction ts arbitrary: us) (auto simp: res_iff)

lemma subst_no_arguments: "subst owner [] t = Ok u \<Longrightarrow> u = t"
proof (induction t arbitrary: u)
  case (Ty_Function ps r)
  then obtain ps' r' where p: "substs owner [] ps = Ok ps'" "subst owner [] r = Ok r'" "u = Ty_Function ps' r'"
    by (auto simp: res_iff)
  have "ps' = ps" by (rule substs_no_arguments[OF Ty_Function(1) p(1)])
  then show ?case using Ty_Function(2)[OF p(2)] p(3) by simp
next
  case (Ty_Nominal d as)
  then obtain as' where a: "substs owner [] as = Ok as'" "u = Ty_Nominal d as'" by (auto simp: res_iff)
  have "as' = as" by (rule substs_no_arguments[OF Ty_Nominal(1) a(1)])
  then show ?case using a(2) by simp
qed (simp_all add: substitute_parameter_def split: if_splits)

text \<open>What the search may push: the fields of a monomorphic record or of a class.\<close>

lemma field_declared:
  assumes "classes_monomorphic program" and "unique_type program d = Ok item"
    and "(td_kind item = Kind_Record ds \<and> arguments = []) \<or> td_kind item = Kind_Class ds ms"
    and "fd \<in> set ds" and "substitute_type (fd_ty fd) d arguments = Ok t"
  shows "t = fd_ty fd \<and> t \<in> set (declared_types program)"
proof -
  have item: "item \<in> set (hp_types program)" using unique_type_in[OF assms(2)] by simp
  have "t = fd_ty fd"
    using assms(3)
  proof
    assume "td_kind item = Kind_Record ds \<and> arguments = []"
    then show ?thesis using assms(5) subst_no_arguments by (auto simp: substitute_type_eq)
  next
    assume "td_kind item = Kind_Class ds ms"
    then have "closed_type (fd_ty fd)"
      using assms(1,4) item by (auto simp: classes_monomorphic_def list_all_iff)
    then show ?thesis using assms(5) subst_closed by (auto simp: substitute_type_eq)
  qed
  then show ?thesis
    using item assms(3,4) by (force simp: declared_types_def)
qed

lemma monomorphic_closed:
  assumes "classes_monomorphic program"
  shows "field_closed program (ty # declared_types program)"
  using field_declared[OF assms]
  by (fastforce simp: field_closed_def list_all_iff descendant_fields_iff
      split: rtype.splits res.splits type_declaration_kind.splits)

section \<open>A class that grows\<close>

text \<open>
  The condition cannot be dropped.  A class with a field of a larger instance of itself, as in
  \<open>class Grow<T> { next: Grow<Grow<T>> }\<close>, reaches instances without end: no fuel is enough for the
  search, whose visited set never meets the same instance twice.
\<close>

definition growing :: "hir_program \<Rightarrow> bool" where
  "growing program \<longleftrightarrow> (\<exists>item ds ms. unique_type program ''Grow'' = Ok item \<and> td_kind item = Kind_Class ds ms
     \<and> (\<forall>t. descendant_fields ''Grow'' [t] ds = [Ty_Nominal ''Grow'' [Ty_Nominal ''Grow'' [t]]]))"

lemma growing_never_settles:
  assumes "growing program"
  shows "\<forall>v\<in>set vs. size v < size (Ty_Nominal ''Grow'' [t]) \<Longrightarrow>
     descendant_loop n program [Ty_Nominal ''Grow'' [t]] (map key_of vs) = Panic"
proof (induction n arbitrary: t vs)
  case (Suc n)
  have "Ty_Nominal ''Grow'' [t] \<notin> set vs" using Suc.prems by blast
  then have new: "key_of (Ty_Nominal ''Grow'' [t]) \<notin> set (map key_of vs)" by (auto simp: key_of_inj simp del: key_of.simps)
  have "descendant_loop n program [Ty_Nominal ''Grow'' [Ty_Nominal ''Grow'' [t]]] (map key_of (Ty_Nominal ''Grow'' [t] # vs)) = Panic"
    by (rule Suc.IH) (use Suc.prems in auto)
  then show ?case
    using assms new by (auto simp: growing_def identity_key_eq simp del: key_of.simps)
qed simp

end
