(* ===== verification/LayoutDigest.thy ===== *)
theory LayoutDigest
  imports LayoutSound
begin

text \<open>
  What a layout's digest commits to (\<open>digest_value_with_fields\<close> of \<open>src/aggregate_layout.rs\<close>): the
  bytes fed to SHA-256 determine the target, the type, the sizes and every row but its value kind.
  The bytes are the result for the parameter \<open>\<lambda>m. m\<close>.
\<close>

section \<open>Numbers\<close>

lemma same_digits:
  "(\<And>i. i < k \<Longrightarrow> (x :: nat) div 256 ^ i mod 256 = y div 256 ^ i mod 256) \<Longrightarrow> x < 256 ^ k \<Longrightarrow> y < 256 ^ k \<Longrightarrow> x = y"
proof (induction k arbitrary: x y)
  case (Suc k)
  have "x div 256 = y div 256"
  proof (rule Suc.IH)
    fix i assume "i < k"
    then show "x div 256 div 256 ^ i mod 256 = y div 256 div 256 ^ i mod 256"
      using Suc.prems(1)[of "Suc i"] by (simp add: div_mult2_eq[symmetric])
  qed (use Suc.prems in \<open>auto simp: less_mult_imp_div_less\<close>)
  moreover have "x mod 256 = y mod 256" using Suc.prems(1)[of 0] by simp
  ultimately show ?case by (metis div_mult_mod_eq)
qed simp

lemma char_digits:
  "map (\<lambda>i. char_of (x div 256 ^ i mod 256)) [0..<k] = map (\<lambda>i. char_of (y div 256 ^ i mod 256) :: char) [0..<k] \<Longrightarrow>
     x < 256 ^ k \<Longrightarrow> y < 256 ^ k \<Longrightarrow> x = (y :: nat)"
  by (rule same_digits[of k]) (auto simp: char_of_eq_iff take_bit_eq_mod)

lemma unat_below32: "unat (a :: u32) < 256 ^ 4"
proof -
  have "unat a < 2 ^ LENGTH(32)" by (rule unsigned_less)
  then show ?thesis by simp
qed

lemma unat_below64: "unat (a :: u64) < 256 ^ 8"
proof -
  have "unat a < 2 ^ LENGTH(64)" by (rule unsigned_less)
  then show ?thesis by simp
qed

lemma le_u32_inj: "le_u32 a = le_u32 b \<longleftrightarrow> a = b"
proof
  assume "le_u32 a = le_u32 b"
  then have "unat a = unat b"
    unfolding le_u32_def
    by (rule char_digits) (rule unat_below32 unat_below64)+
  then show "a = b" by (simp only: word_unat_eq_iff)
qed simp

lemma le_u64_inj: "le_u64 a = le_u64 b \<longleftrightarrow> a = b"
proof
  assume "le_u64 a = le_u64 b"
  then have "unat a = unat b"
    unfolding le_u64_def
    by (rule char_digits) (rule unat_below32 unat_below64)+
  then show "a = b" by (simp only: word_unat_eq_iff)
qed simp

lemma le_u32_length [simp]: "length (le_u32 a) = 4"
  by (simp add: le_u32_def)

lemma le_u64_length [simp]: "length (le_u64 a) = 8"
  by (simp add: le_u64_def)

lemma le_u32_append: "le_u32 a @ x = le_u32 b @ y \<longleftrightarrow> a = b \<and> x = y"
  by (auto simp: le_u32_inj)

text \<open>Lengths are \<open>usize\<close>.\<close>

definition fits_usize :: "string \<Rightarrow> bool" where
  "fits_usize s \<longleftrightarrow> length s < 2 ^ 64"

lemma framed_append:
  assumes "fits_usize s" and "fits_usize t"
  shows "framed s @ x = framed t @ y \<longleftrightarrow> s = t \<and> x = y"
proof
  assume eq: "framed s @ x = framed t @ y"
  then have "le_u64 (word_of_nat (length s)) = le_u64 (word_of_nat (length t))"
    and rest: "s @ x = t @ y" by (simp_all add: framed_def)
  then have "unat (word_of_nat (length s) :: u64) = unat (word_of_nat (length t) :: u64)" by (simp add: le_u64_inj)
  then have "length s = length t" using assms by (simp add: fits_usize_def unat_word_of_nat)
  then show "s = t \<and> x = y" using rest by simp
qed simp

section \<open>Rows\<close>

text \<open>A row of lengths that occur: texts below the address space, digests of 32 bytes.\<close>

definition row_fits :: "field_layout \<Rightarrow> bool" where
  "row_fits row \<longleftrightarrow> fits_usize (afl_field row) \<and> fits_usize (key_of (afl_ty row)) \<and> length (afl_nested_digest row) = 32"

definition committed :: "field_layout \<Rightarrow> field_layout" where
  "committed row = row\<lparr>afl_value_kind := Fv_Copy\<rparr>"

lemma committed_eq: "committed r = committed s \<longleftrightarrow>
    afl_field r = afl_field s \<and> afl_ty r = afl_ty s \<and> afl_offset r = afl_offset s \<and> afl_size r = afl_size s
    \<and> afl_align r = afl_align s \<and> afl_nested_digest r = afl_nested_digest s"
  by (cases r; cases s) (auto simp: committed_def)

lemma field_digests_row:
  "field_digests (row # rows) (map afl_nested_digest (row # rows)) = Ok t \<longleftrightarrow>
     (\<exists>rest. field_digests rows (map afl_nested_digest rows) = Ok rest
        \<and> t = framed (afl_field row) @ framed (key_of (afl_ty row)) @ le_u32 (afl_offset row) @ le_u32 (afl_size row)
           @ le_u32 (afl_align row) @ afl_nested_digest row @ rest)"
  by (auto simp: identity_key_eq res_iff)

lemma field_digests_inj:
  "length rows = length rows' \<Longrightarrow> list_all row_fits rows \<Longrightarrow> list_all row_fits rows' \<Longrightarrow>
     field_digests rows (map afl_nested_digest rows) = Ok t \<Longrightarrow>
     field_digests rows' (map afl_nested_digest rows') = Ok t \<Longrightarrow> map committed rows = map committed rows'"
proof (induction rows rows' arbitrary: t rule: list_induct2)
  case (Cons r rs r' rs')
  obtain rest where a: "field_digests rs (map afl_nested_digest rs) = Ok rest"
    "t = framed (afl_field r) @ framed (key_of (afl_ty r)) @ le_u32 (afl_offset r) @ le_u32 (afl_size r)
           @ le_u32 (afl_align r) @ afl_nested_digest r @ rest"
    using Cons.prems(3) unfolding field_digests_row by blast
  obtain rest' where b: "field_digests rs' (map afl_nested_digest rs') = Ok rest'"
    "t = framed (afl_field r') @ framed (key_of (afl_ty r')) @ le_u32 (afl_offset r') @ le_u32 (afl_size r')
           @ le_u32 (afl_align r') @ afl_nested_digest r' @ rest'"
    using Cons.prems(4) unfolding field_digests_row by blast
  have "row_fits r" "row_fits r'" using Cons.prems by simp_all
  then have "committed r = committed r' \<and> rest = rest'"
    using a(2) b(2) by (simp add: row_fits_def committed_eq framed_append le_u32_append key_of_inj)
  then show ?case using Cons.IH[of rest] Cons.prems a(1) b(1) by simp
qed simp

section \<open>Layouts\<close>

definition layout_fits :: "rtype \<Rightarrow> field_layout list \<Rightarrow> bool" where
  "layout_fits ty rows \<longleftrightarrow> fits_usize (key_of ty) \<and> length rows < 2 ^ 32 \<and> list_all row_fits rows"

lemma digest_message:
  "digest_value_with_fields (\<lambda>m. m) target ty sz align rows digests = Ok m \<longleftrightarrow>
     (\<exists>rest. field_digests rows digests = Ok rest
        \<and> m = LAYOUT_DIGEST_DOMAIN @ [char_of (unat (target_tag target))] @ framed (key_of ty) @ le_u32 sz @ le_u32 align
            @ le_u32 (case try_u32 (length rows) of Some n \<Rightarrow> n | None \<Rightarrow> - 1) @ rest)"
  by (auto simp: digest_value_with_fields_def identity_key_eq res_iff)

lemma target_tag_byte: "unat (target_tag a) mod 256 = unat (target_tag b) mod 256 \<longleftrightarrow> a = b"
  by (cases a; cases b) simp_all

lemma count_inj:
  "m < 2 ^ 32 \<Longrightarrow> n < 2 ^ 32 \<Longrightarrow>
     (case try_u32 m of Some n \<Rightarrow> n | None \<Rightarrow> - 1) = (case try_u32 n of Some n \<Rightarrow> n | None \<Rightarrow> - 1) \<longleftrightarrow> m = n"
  by (auto simp: try_u32_def word_unat_eq_iff unat_word_of_nat)

lemma digest_bytes_commit:
  assumes "layout_fits ty rows" and "layout_fits ty' rows'"
    and "digest_value_with_fields (\<lambda>m. m) target ty sz align rows (map afl_nested_digest rows) = Ok m"
    and "digest_value_with_fields (\<lambda>m. m) target' ty' sz' align' rows' (map afl_nested_digest rows') = Ok m"
  shows "target = target' \<and> ty = ty' \<and> sz = sz' \<and> align = align' \<and> map committed rows = map committed rows'"
proof -
  obtain t t' where t: "field_digests rows (map afl_nested_digest rows) = Ok t"
    "field_digests rows' (map afl_nested_digest rows') = Ok t'"
    and m: "LAYOUT_DIGEST_DOMAIN @ [char_of (unat (target_tag target))] @ framed (key_of ty) @ le_u32 sz @ le_u32 align
            @ le_u32 (case try_u32 (length rows) of Some n \<Rightarrow> n | None \<Rightarrow> - 1) @ t =
      LAYOUT_DIGEST_DOMAIN @ [char_of (unat (target_tag target'))] @ framed (key_of ty') @ le_u32 sz' @ le_u32 align'
            @ le_u32 (case try_u32 (length rows') of Some n \<Rightarrow> n | None \<Rightarrow> - 1) @ t'"
    using assms(3,4) unfolding digest_message by metis
  have fits: "fits_usize (key_of ty)" "fits_usize (key_of ty')" "length rows < 2 ^ 32" "length rows' < 2 ^ 32"
    "list_all row_fits rows" "list_all row_fits rows'"
    using assms(1,2) by (simp_all add: layout_fits_def)
  have eqs: "target = target' \<and> ty = ty' \<and> sz = sz' \<and> align = align' \<and> length rows = length rows' \<and> t = t'"
    using m by (simp add: framed_append[OF fits(1,2)] le_u32_append target_tag_byte key_of_inj count_inj[OF fits(3,4)])
  then show ?thesis using field_digests_inj[OF _ fits(5,6) t(1)] t(2) by simp
qed

end
