(* ===== verification/LayoutClaims.thy ===== *)
theory LayoutClaims
  imports LayoutTotal LayoutDigest
begin

text \<open>
  The properties of resolved types and aggregate layouts (\<open>src/hir/nodes.rs\<close>,
  \<open>src/hir/monomorphize.rs\<close>, \<open>src/aggregate_layout.rs\<close>), with their witnesses.
\<close>

section \<open>A demonstration program\<close>

definition demo_span :: span where
  "demo_span = \<lparr>sp_start = 0, sp_end = 0, sp_line = 1, sp_column = 1\<rparr>"

definition demo_field :: "string \<Rightarrow> u32 \<Rightarrow> rtype \<Rightarrow> field_declaration" where
  "demo_field name i ty = \<lparr>fd_id = name, fd_name = name, fd_index = i, fd_ty = ty, fd_span = demo_span\<rparr>"

definition demo_declaration :: "string \<Rightarrow> type_parameter_declaration list \<Rightarrow> type_declaration_kind \<Rightarrow> type_declaration" where
  "demo_declaration name parameters kind =
     \<lparr>td_id = name, td_name = name, td_type_parameters = parameters, td_kind = kind, td_span = demo_span\<rparr>"

text \<open>\<open>record Inner { flag: bool, count: i64, tail: char }\<close>, \<open>record Box<T> { cell: T, mark: u8 }\<close> and
  \<open>record Outer { first: Inner, second: Box<Bytes> }\<close>.\<close>

definition demo_types :: hir_program where
  "demo_types = \<lparr>hp_module = ''m'', hp_entrypoint = ''main'', hp_types =
     [demo_declaration ''Inner'' []
        (Kind_Record [demo_field ''flag'' 0 Ty_Bool, demo_field ''count'' 1 Ty_I64, demo_field ''tail'' 2 Ty_Char]),
      demo_declaration ''Box'' [\<lparr>tp_name = ''T'', tp_index = 0, tp_span = demo_span\<rparr>]
        (Kind_Record [demo_field ''cell'' 0 (Ty_Parameter ''Box'' 0), demo_field ''mark'' 1 Ty_U8]),
      demo_declaration ''Outer'' []
        (Kind_Record [demo_field ''first'' 0 (Ty_Nominal ''Inner'' []), demo_field ''second'' 1 (Ty_Nominal ''Box'' [Ty_Bytes])])]\<rparr>"

definition demo_hash :: "string \<Rightarrow> string" where
  "demo_hash m = replicate 32 (CHR ''h'')"

definition demo_shape :: "aggregate_layout laid \<Rightarrow> (nat \<times> nat \<times> (nat \<times> nat \<times> nat) list) option" where
  "demo_shape r = (case r of
     Ok l \<Rightarrow> Some (unat (al_size l), unat (al_align l),
       map (\<lambda>row. (unat (afl_offset row), unat (afl_size row), unat (afl_align row))) (al_fields l))
   | _ \<Rightarrow> None)"

lemmas demo_layout_defs = demo_types_def demo_declaration_def demo_field_def

lemma demo_digest: "digest_value_with_fields demo_hash target ty sz align rows digests = Ok (replicate 32 (CHR ''h''))"
  using field_digests_Ok[of rows digests]
  by (auto simp: digest_value_with_fields_def identity_key_eq demo_hash_def simp del: replicate.simps)

lemma demo_powers: "is_power_of_two 1" "is_power_of_two 4" "is_power_of_two 8"
  by (simp_all add: is_power_of_two_def upt_rec)

lemma bind_weak_cong: "m = m' \<Longrightarrow> res_bind m f = res_bind m' f"
  by simp

lemma demo_seven: "(7 :: nat) = Suc (Suc (Suc (Suc (Suc (Suc (Suc 0))))))"
  by simp

lemmas demo_run = nominal_key_inj substitute_parameter_def demo_shape_def layout_for_type_def layout_nominal_def unique_type_def demo_layout_defs layout_record_def
  contains_concrete_generic_record_descendant_def concrete_layout_instance_is_admitted_def identity_key_eq demo_digest
  leaf_layout_def digest_value_def substitute_type_eq try_u32_def align_up_def demo_powers scalar_size_align_def Let_def
  u_checked_add_def MAX_CONCRETE_ARGUMENT_RECORD_DEPTH_def MAX_CONCRETE_ARGUMENT_FIELDS_def
  MAX_CONCRETE_ARGUMENT_OWNED_LEAVES_def

lemma demo_outer:
  "demo_shape (layout_for_type 7 demo_hash demo_types Wasm32 (Ty_Nominal ''Outer'' [])) =
     Some (40, 8, [(0, 24, 8), (24, 16, 8)])"
  unfolding demo_seven by (simp add: demo_run cong: bind_weak_cong)

lemma demo_inner:
  "demo_shape (layout_for_type 7 demo_hash demo_types Native64 (Ty_Nominal ''Inner'' [])) =
     Some (24, 8, [(0, 1, 1), (8, 8, 8), (16, 4, 4)])"
  unfolding demo_seven by (simp add: demo_run cong: bind_weak_cong)

lemma demo_shape_Ok: "demo_shape r = Some s \<Longrightarrow> \<exists>l. r = Ok l"
  by (auto simp: demo_shape_def split: res.splits)


section \<open>Types\<close>

text \<open>
  C31: the identity key of a type always exists and names it alone: two types have the same key
  exactly when they are the same type, although identifiers are arbitrary texts.
\<close>

theorem identity_key_names_type:
  "(\<exists>key. identity_key t = Ok key) \<and> (identity_key t = identity_key u \<longleftrightarrow> t = u)"
  by (simp add: identity_key_eq key_of_inj)

text \<open>
  The substitution's stack machine computes the recursive substitution: parameters of the
  owner are replaced by the arguments, those of another owner and an index out of range are the
  errors, in the order of a left-to-right walk; the "did not settle" errors never occur.
\<close>

theorem substitute_type_is_recursive:
  "substitute_type template owner arguments = subst owner arguments template"
  by (rule substitute_type_eq)

section \<open>Layouts\<close>

text \<open>\<open>class Pair<T, U> { left: T, right: U }\<close> and \<open>record Holder { held: Pair<i64, bool>, mark: u8 }\<close>.\<close>

definition demo_classes :: hir_program where
  "demo_classes = \<lparr>hp_module = ''m'', hp_entrypoint = ''main'', hp_types =
     [demo_declaration ''Pair'' [\<lparr>tp_name = ''T'', tp_index = 0, tp_span = demo_span\<rparr>, \<lparr>tp_name = ''U'', tp_index = 1, tp_span = demo_span\<rparr>]
        (Kind_Class [demo_field ''left'' 0 (Ty_Parameter ''Pair'' 0), demo_field ''right'' 1 (Ty_Parameter ''Pair'' 1)] []),
      demo_declaration ''Holder'' []
        (Kind_Record [demo_field ''held'' 0 (Ty_Nominal ''Pair'' [Ty_I64, Ty_Bool]), demo_field ''mark'' 1 Ty_U8])]\<rparr>"

definition demo_reached :: "rtype list" where
  "demo_reached = [Ty_Nominal ''Holder'' [], Ty_Nominal ''Pair'' [Ty_I64, Ty_Bool], Ty_I64, Ty_Bool, Ty_U8]"

lemma demo_reached_closed: "field_closed demo_classes demo_reached"
  by (simp add: field_closed_def demo_classes_def demo_reached_def demo_declaration_def demo_field_def unique_type_def
      substitute_type_eq substitute_parameter_def)

text \<open>\<open>class Grow<T> { next: Grow<Grow<T>> }\<close>.\<close>

lemma grow_growing: "growing \<lparr>hp_module = ''m'', hp_entrypoint = ''main'', hp_types =
     [demo_declaration ''Grow'' [\<lparr>tp_name = ''T'', tp_index = 0, tp_span = demo_span\<rparr>]
        (Kind_Class [demo_field ''next'' 0 (Ty_Nominal ''Grow'' [Ty_Nominal ''Grow'' [Ty_Parameter ''Grow'' 0]])] [])]\<rparr>"
  by (simp add: growing_def demo_declaration_def demo_field_def unique_type_def substitute_type_eq substitute_parameter_def)

lemma demo_fuel: "layout_fuel demo_classes demo_reached \<le> 200"
  by (simp add: layout_fuel_def declared_types_def demo_classes_def demo_reached_def demo_declaration_def)

text \<open>
  C16: Laying out a type returns, classes and records with type parameters included, when the type
  reaches finitely many instances: given a list of types that contains it and, with each class
  instance and each record without arguments, their field types, a number computed from the lengths of
  that list and of the declared fields is enough fuel for every target and hash, and more fuel
  changes nothing.  When no class has type parameters the declared field types are such a list
  (\<open>monomorphic_closed\<close>); for a class that contains ever larger instances of itself there is none, and
  the search does not return (\<open>growing_never_settles\<close>).
\<close>

theorem layout_for_type_total:
  assumes "field_closed program us" and "ty \<in> set us" and "layout_fuel program us \<le> n"
  shows "layout_for_type n sha256 program target ty \<noteq> Panic
     \<and> layout_for_type n sha256 program target ty = layout_for_type (layout_fuel program us) sha256 program target ty"
  by (intro conjI layout_for_type_returns[OF assms] layout_for_type_settles[OF assms])

theorem layout_for_type_total_witness:
  "layout_for_type 200 demo_hash demo_classes Wasm32 (Ty_Nominal ''Holder'' []) \<noteq> Panic"
proof -
  have "Ty_Nominal ''Holder'' [] \<in> set demo_reached" by (simp add: demo_reached_def)
  from layout_for_type_total[OF demo_reached_closed this demo_fuel] show ?thesis by blast
qed

text \<open>
  C9: a layout is that of a C structure: its rows are the declared fields in order, each with the
  substituted type's size, alignment, kind and digest, placed at the least aligned offset after the
  one before over unbounded numbers; the alignment is the largest of the fields', the size the end
  of the last field rounded up, and an empty record takes one byte.
\<close>

theorem layout_is_c_structure:
  assumes "layout_for_type n sha256 program target ty = Ok l"
  shows "\<exists>rec arguments item ds. ty = Ty_Nominal rec arguments \<and> unique_type program rec = Ok item
     \<and> (td_kind item = Kind_Record ds \<or> (\<exists>ms. td_kind item = Kind_Class ds ms))
     \<and> list_all2 (row_of (\<lambda>t. layout_type n sha256 program target t [key_of ty]) rec arguments) ds (al_fields l)
     \<and> unat (al_align l) = Max (insert 1 (set (map (unat \<circ> afl_align) (al_fields l))))
     \<and> (case place (if ds = [] then 1 else 0) (map row_shape (al_fields l)) of
          (offsets, stop) \<Rightarrow> map (unat \<circ> afl_offset) (al_fields l) = offsets
            \<and> unat (al_size l) = round_up stop (unat (al_align l)))"
  using layout_for_type_laid_out[OF assms] unfolding laid_out_def by (fastforce split: prod.splits)

theorem layout_is_c_structure_witness:
  "\<exists>l rec arguments item ds. layout_for_type 7 demo_hash demo_types Native64 (Ty_Nominal ''Inner'' []) = Ok l
     \<and> Ty_Nominal ''Inner'' [] = Ty_Nominal rec arguments \<and> unique_type demo_types rec = Ok item
     \<and> (td_kind item = Kind_Record ds \<or> (\<exists>ms. td_kind item = Kind_Class ds ms))
     \<and> length ds = length (al_fields l)"
proof -
  obtain l where l: "layout_for_type 7 demo_hash demo_types Native64 (Ty_Nominal ''Inner'' []) = Ok l"
    using demo_shape_Ok[OF demo_inner] by blast
  from layout_is_c_structure[OF this] l show ?thesis by (metis list_all2_lengthD)
qed

text \<open>
  C20: the fields of a layout are aligned, inside the record, in declaration order and disjoint, and
  the record's alignment is a power of two that every field's divides and that divides its size.
\<close>

theorem layout_fields_disjoint:
  assumes "layout_for_type n sha256 program target ty = Ok l"
  shows "is_power_of_two (al_align l) \<and> unat (al_align l) dvd unat (al_size l)
     \<and> (\<forall>row\<in>set (al_fields l). unat (afl_align row) dvd unat (afl_offset row)
          \<and> unat (afl_align row) dvd unat (al_align l)
          \<and> unat (afl_offset row) + unat (afl_size row) \<le> unat (al_size l))
     \<and> sorted_wrt (\<lambda>r s. unat (afl_offset r) + unat (afl_size r) \<le> unat (afl_offset s)) (al_fields l)
     \<and> (al_fields l = [] \<longrightarrow> al_size l = 1)"
  using layout_for_type_laid_out[OF assms] laid_out_safe by blast

theorem layout_fields_disjoint_witness:
  "\<exists>l. layout_for_type 7 demo_hash demo_types Wasm32 (Ty_Nominal ''Outer'' []) = Ok l
     \<and> sorted_wrt (\<lambda>r s. unat (afl_offset r) + unat (afl_size r) \<le> unat (afl_offset s)) (al_fields l)"
proof -
  obtain l where l: "layout_for_type 7 demo_hash demo_types Wasm32 (Ty_Nominal ''Outer'' []) = Ok l"
    using demo_shape_Ok[OF demo_outer] by blast
  from layout_fields_disjoint[OF this] l show ?thesis by blast
qed

text \<open>
  C26: the bytes a layout's digest hashes determine the layout: when two layouts hash the same bytes,
  they have the same target, type, size and alignment, and rows with the same fields, types,
  offsets, sizes, alignments and nested digests.  The lengths are those of texts in memory and of
  SHA-256 digests; the value kinds are not hashed, they follow from the types.
\<close>

theorem layout_digest_commits:
  assumes "layout_fits ty rows" and "layout_fits ty' rows'"
    and "digest_value_with_fields (\<lambda>m. m) target ty sz align rows (map afl_nested_digest rows)
       = digest_value_with_fields (\<lambda>m. m) target' ty' sz' align' rows' (map afl_nested_digest rows')"
  shows "target = target' \<and> ty = ty' \<and> sz = sz' \<and> align = align' \<and> map committed rows = map committed rows'"
proof -
  obtain m where "digest_value_with_fields (\<lambda>m. m) target ty sz align rows (map afl_nested_digest rows) = Ok m"
    using digests_Ok by blast
  then show ?thesis using digest_bytes_commit[OF assms(1,2)] assms(3) by metis
qed

definition demo_row :: "field_value_kind \<Rightarrow> field_layout" where
  "demo_row kind = \<lparr>afl_field = ''first'', afl_ty = Ty_Nominal ''Inner'' [], afl_value_kind = kind, afl_offset = 0,
     afl_size = 24, afl_align = 8, afl_nested_digest = replicate 32 (CHR ''d'')\<rparr>"

lemma demo_row_fits: "layout_fits (Ty_Nominal ''Outer'' []) [demo_row kind]"
  by (simp add: layout_fits_def row_fits_def fits_usize_def demo_row_def nominal_key_def framed_keys_def show_nat.simps)

theorem layout_digest_commits_witness:
  "map committed [demo_row Fv_Aggregate] = map committed [demo_row Fv_Copy]"
proof -
  have "digest_value_with_fields (\<lambda>m. m) Wasm32 (Ty_Nominal ''Outer'' []) 24 8 [demo_row Fv_Aggregate]
        (map afl_nested_digest [demo_row Fv_Aggregate])
     = digest_value_with_fields (\<lambda>m. m) Wasm32 (Ty_Nominal ''Outer'' []) 24 8 [demo_row Fv_Copy]
        (map afl_nested_digest [demo_row Fv_Copy])"
    by code_simp
  from layout_digest_commits[OF demo_row_fits demo_row_fits this] show ?thesis by blast
qed

section \<open>Checking a layout\<close>

lemma layout_validate_exact:
  "layout_validate n sha256 program l = Ok () \<longleftrightarrow>
     layout_for_type n sha256 program (al_target l) (al_instance l) = Ok l"
  by (auto simp: layout_validate_def res_iff split: if_splits)

lemma layout_for_type_validates:
  assumes "layout_for_type n sha256 program target ty = Ok l"
  shows "layout_validate n sha256 program l = Ok ()"
  using layout_for_type_laid_out[OF assms] assms by (auto simp: layout_validate_exact)

end
