(* ===== verification/ArcZones.thy ===== *)
theory ArcZones
  imports ScopedRun
begin

text \<open>
  The managed-zone model of \<open>src/arc_zones.rs\<close>: the certified zone tree with its objects
  (\<open>ArcZonesModel::try_new\<close>), and the run of a script over it (\<open>ArcZonesRun\<close>): reference counts,
  finalization with its cascades, and the exit of a zone.  A \<open>DeclarationId\<close> is its text; SHA-256 is
  a parameter.  An operation returns the changed run with its events, or leaves the run as it was.
  The recursion of \<open>finalize\<close> is its list of targets still to look at, in the order of the calls.
\<close>

section \<open>Specifications\<close>

definition ARC_ZONES_MODEL_V1 :: string where
  "ARC_ZONES_MODEL_V1 = ''semaprax.arc-zones-model.v1''"

definition ARC_ZONES_TRACE_V1 :: string where
  "ARC_ZONES_TRACE_V1 = ''semaprax.arc-zones-trace.v1''"

definition MAX_ZONES :: nat where "MAX_ZONES = 4096"
definition MAX_OBJECTS :: nat where "MAX_OBJECTS = 4096"
definition MAX_SCRIPT_OPS :: nat where "MAX_SCRIPT_OPS = 65536"

definition AZ_MODEL_FINGERPRINT_DOMAIN :: string where
  "AZ_MODEL_FINGERPRINT_DOMAIN = ''semaprax.arc-zones-model-fingerprint.v1'' @ [CHR 0x00]"

definition AZ_TRACE_FINGERPRINT_DOMAIN :: string where
  "AZ_TRACE_FINGERPRINT_DOMAIN = ''semaprax.arc-zones-trace-fingerprint.v1'' @ [CHR 0x00]"

datatype az_mark = Az_Shareable | Az_NotShareable

record zone_spec =
  zs_id :: decl_id
  zs_parent :: "decl_id option"
  zs_thread :: decl_id

record object_spec =
  os_id :: decl_id
  os_zone :: decl_id
  os_shareable :: az_mark

datatype arc_op =
    Op_Construct decl_id | Op_Retain decl_id | Op_Release decl_id
  | Op_Link decl_id decl_id | Op_Unlink decl_id decl_id | Op_Demote decl_id
  | Op_EnterZone decl_id | Op_ExitZone decl_id

record zone_entry =
  ze_parent :: "decl_id option"
  ze_depth :: u32
  ze_thread :: decl_id

record object_entry =
  oe_zone :: decl_id
  oe_shareable :: az_mark

record arc_model =
  am_schema :: string
  am_root :: decl_id
  am_zones :: "(decl_id, zone_entry) bmap"
  am_objects :: "(decl_id, object_entry) bmap"
  am_fingerprint :: string

datatype arc_error =
    Az_MissingRoot | Az_MultipleRoots | Az_InvalidIdentity | Az_DuplicateZone | Az_DuplicateObject
  | Az_UnknownZone | Az_UnknownObject | Az_ZoneCycle | Az_ZoneBoundExceeded | Az_ObjectBoundExceeded
  | Az_ScriptBoundExceeded | Az_WorkBudgetExceeded | Az_NoOpenZone | Az_ZoneAlreadyOpen
  | Az_ParentNotOpen | Az_ZoneNotOpen | Az_UnbalancedZoneExit | Az_AlreadyConstructed
  | Az_DeadOrUnconstructedObject | Az_ForeignZoneObject | Az_DoubleRelease
  | Az_SharingWithoutShareable | Az_SharedUseOfUnique | Az_UnknownLiveLink | Az_DuplicateLiveLink
  | Az_DemotionNotApplicable | Az_RunNotFinished | Az_FrameBindingMismatch

type_synonym 'a az_res = "(arc_error, 'a) res"

section \<open>The model\<close>

fun az_shareable_name :: "az_mark \<Rightarrow> string" where
  "az_shareable_name Az_Shareable = ''shareable''"
| "az_shareable_name Az_NotShareable = ''not_shareable''"

definition az_fingerprint :: "(string \<Rightarrow> string) \<Rightarrow> string \<Rightarrow> string \<Rightarrow> string" where
  "az_fingerprint sha256 domain bytes = sha256 (domain @ le_bytes (length bytes) @ bytes)"

definition az_model_json :: "arc_model \<Rightarrow> string" where
  "az_model_json m =
     json_object
       [(''schema'', quote_json (am_schema m)), (''root'', quote_json (am_root m)),
        (''zones'', json_array (map (\<lambda>(i, e). json_object
            [(''id'', quote_json i),
             (''parent'', case ze_parent e of None \<Rightarrow> ''null'' | Some p \<Rightarrow> quote_json p),
             (''thread'', quote_json (ze_thread e))]) (am_zones m))),
        (''objects'', json_array (map (\<lambda>(i, e). json_object
            [(''id'', quote_json i), (''zone'', quote_json (oe_zone e)),
             (''shareable'', quote_json (az_shareable_name (oe_shareable e)))]) (am_objects m)))]"

definition az_validate_identity :: "string \<Rightarrow> unit az_res" where
  "az_validate_identity name =
     (if name = [] \<or> CHR 0x00 \<in> set name then Err Az_InvalidIdentity else Ok ())"

fun declare_zones ::
  "zone_spec list \<Rightarrow> (decl_id, decl_id option) bmap \<Rightarrow> (decl_id, decl_id) bmap
     \<Rightarrow> ((decl_id, decl_id option) bmap \<times> (decl_id, decl_id) bmap) az_res" where
  "declare_zones [] parents threads = Ok (parents, threads)"
| "declare_zones (z # zs) parents threads =
     res_bind (az_validate_identity (zs_id z)) (\<lambda>_.
     res_bind (az_validate_identity (zs_thread z)) (\<lambda>_.
       if bm_contains parents (zs_id z) then Err Az_DuplicateZone
       else declare_zones zs (bm_insert (zs_id z) (zs_parent z) parents)
              (bm_insert (zs_id z) (zs_thread z) threads)))"

definition az_count_roots :: "zone_spec list \<Rightarrow> nat" where
  "az_count_roots zones = length (filter (\<lambda>z. zs_parent z = None) zones)"

fun az_check_parents :: "(decl_id, decl_id option) bmap \<Rightarrow> zone_spec list \<Rightarrow> unit az_res" where
  "az_check_parents parents [] = Ok ()"
| "az_check_parents parents (z # zs) =
     (case zs_parent z of
        None \<Rightarrow> az_check_parents parents zs
      | Some p \<Rightarrow>
        if zs_id z = p then Err Az_ZoneCycle
        else if \<not> bm_contains parents p then Err Az_UnknownZone
        else az_check_parents parents zs)"

function az_climb ::
  "(decl_id, decl_id option) bmap \<Rightarrow> (decl_id, u32) bmap \<Rightarrow> decl_id list \<Rightarrow> decl_id
     \<Rightarrow> (u32 \<times> decl_id list \<times> decl_id) az_res" where
  "az_climb parents depths stack cursor =
     (case bm_get depths cursor of
        Some known \<Rightarrow> Ok (known, stack, cursor)
      | None \<Rightarrow>
        (case bm_get parents cursor of
           None \<Rightarrow> Panic
         | Some None \<Rightarrow> Ok (0, stack, cursor)
         | Some (Some parent) \<Rightarrow>
             if length parents < Suc (length stack) then Err Az_ZoneCycle
             else az_climb parents depths (stack @ [cursor]) parent))"
  by pat_completeness auto
termination
  by (relation "measure (\<lambda>(parents, depths, stack, cursor). Suc (length parents) - length stack)") auto

declare az_climb.simps [simp del]

fun az_number_back :: "decl_id list \<Rightarrow> u32 \<Rightarrow> (decl_id, u32) bmap \<Rightarrow> (decl_id, u32) bmap az_res" where
  "az_number_back [] running depths = Ok depths"
| "az_number_back (name # names) running depths =
     res_bind (ok_or Az_ZoneCycle (u_checked_add running 1)) (\<lambda>next.
       az_number_back names next (bm_insert name next depths))"

definition az_depth_of_one ::
  "(decl_id, decl_id option) bmap \<Rightarrow> decl_id \<Rightarrow> (decl_id, u32) bmap \<Rightarrow> (decl_id, u32) bmap az_res" where
  "az_depth_of_one parents i depths =
     res_bind (az_climb parents depths [] i) (\<lambda>(base, stack, cursor).
     res_bind (az_number_back (rev stack) base depths) (\<lambda>depths'.
       Ok (case bm_get depths' cursor of Some _ \<Rightarrow> depths' | None \<Rightarrow> bm_insert cursor base depths')))"

fun az_depths_loop ::
  "(decl_id, decl_id option) bmap \<Rightarrow> decl_id list \<Rightarrow> (decl_id, u32) bmap \<Rightarrow> (decl_id, u32) bmap az_res" where
  "az_depths_loop parents [] depths = Ok depths"
| "az_depths_loop parents (i # is) depths =
     res_bind (az_depth_of_one parents i depths) (az_depths_loop parents is)"

definition az_canonical_depths :: "(decl_id, decl_id option) bmap \<Rightarrow> (decl_id, u32) bmap az_res" where
  "az_canonical_depths parents = az_depths_loop parents (bm_keys parents) bm_empty"

text \<open>\<open>depths[id]\<close> and \<open>threads[id]\<close> panic on an unknown id.\<close>

fun zone_entries ::
  "(decl_id, u32) bmap \<Rightarrow> (decl_id, decl_id) bmap \<Rightarrow> (decl_id, decl_id option) bmap
     \<Rightarrow> (decl_id, zone_entry) bmap az_res" where
  "zone_entries depths threads [] = Ok []"
| "zone_entries depths threads ((i, parent) # parents) =
     res_bind (expect (bm_get depths i)) (\<lambda>depth.
     res_bind (expect (bm_get threads i)) (\<lambda>thread.
     res_bind (zone_entries depths threads parents) (\<lambda>entries.
       Ok ((i, \<lparr>ze_parent = parent, ze_depth = depth, ze_thread = thread\<rparr>) # entries))))"

fun declare_objects ::
  "(decl_id, zone_entry) bmap \<Rightarrow> object_spec list \<Rightarrow> (decl_id, object_entry) bmap
     \<Rightarrow> (decl_id, object_entry) bmap az_res" where
  "declare_objects zones [] objects = Ok objects"
| "declare_objects zones (b # bs) objects =
     res_bind (az_validate_identity (os_id b)) (\<lambda>_.
       if \<not> bm_contains zones (os_zone b) then Err Az_UnknownZone
       else if bm_contains objects (os_id b) then Err Az_DuplicateObject
       else declare_objects zones bs
              (bm_insert (os_id b) \<lparr>oe_zone = os_zone b, oe_shareable = os_shareable b\<rparr> objects))"

definition az_find_root :: "zone_spec list \<Rightarrow> decl_id option" where
  "az_find_root zones = map_option zs_id (List.find (\<lambda>z. zs_parent z = None) zones)"

text \<open>The work of a model; the counts are below the bounds, so no product overflows.\<close>

definition az_work :: "nat \<Rightarrow> nat \<Rightarrow> nat az_res" where
  "az_work zones objects =
     (if 2 ^ 64 \<le> zones * (objects + 1) then Err Az_WorkBudgetExceeded
      else if 2 ^ 64 \<le> zones * (objects + 1) + objects then Err Az_WorkBudgetExceeded
      else if 1000000 < zones * (objects + 1) + objects then Err Az_WorkBudgetExceeded
      else Ok (zones * (objects + 1) + objects))"

definition az_try_new :: "(string \<Rightarrow> string) \<Rightarrow> zone_spec list \<Rightarrow> object_spec list \<Rightarrow> arc_model az_res" where
  "az_try_new sha256 zones objects =
     (if zones = [] then Err Az_MissingRoot
      else if MAX_ZONES < length zones then Err Az_ZoneBoundExceeded
      else if MAX_OBJECTS < length objects then Err Az_ObjectBoundExceeded
      else
        res_bind (az_work (length zones) (length objects)) (\<lambda>_.
        res_bind (declare_zones zones bm_empty bm_empty) (\<lambda>(parents, threads).
        if az_count_roots zones = 0 then Err Az_MissingRoot
        else if az_count_roots zones \<noteq> 1 then Err Az_MultipleRoots
        else
          res_bind (az_check_parents parents zones) (\<lambda>_.
          res_bind (az_canonical_depths parents) (\<lambda>depths.
          res_bind (zone_entries depths threads parents) (\<lambda>entries.
          res_bind (expect (az_find_root zones)) (\<lambda>root.
          res_bind (declare_objects entries objects bm_empty) (\<lambda>object_entries.
            let model = \<lparr>am_schema = ARC_ZONES_MODEL_V1, am_root = root, am_zones = entries,
                         am_objects = object_entries, am_fingerprint = replicate 32 (CHR 0x00)\<rparr>
            in Ok (model\<lparr>am_fingerprint := az_fingerprint sha256 AZ_MODEL_FINGERPRINT_DOMAIN (az_model_json model)\<rparr>)))))))))"

end
