(* ===== verification/ArcRun.thy ===== *)
theory ArcRun
  imports ArcZones
begin

text \<open>
  The run of a script (\<open>ArcZonesRun\<close> of \<open>src/arc_zones.rs\<close>): the state, the operations, and the
  drivers \<open>step\<close> and \<open>finish\<close>.
\<close>

section \<open>State\<close>

datatype finalize_cause = Fc_Release | Fc_Cascade | Fc_ZoneExit

datatype arc_event =
    Av_Constructed decl_id | Av_Retained decl_id | Av_Released decl_id
  | Av_Linked decl_id decl_id | Av_Unlinked decl_id decl_id | Av_EscapedToUnique decl_id
  | Av_Finalized decl_id finalize_cause
  | Av_ZoneEntered decl_id | Av_ZoneExited decl_id | Av_ZoneRejectedCycle decl_id decl_id

datatype arc_phase = Ph_NotConstructed | Ph_Live | Ph_Finalized

datatype run_status = Rs_Running | Rs_Complete | Rs_Rejected

record arc_totals =
  at_constructed :: u64
  at_retained :: u64
  at_released :: u64
  at_finalized :: u64
  at_zones_entered :: u64
  at_zones_exited :: u64
  at_zones_rejected :: u64

datatype arc_status = As_Complete | As_Rejected

record arc_summary =
  ay_status :: arc_status
  ay_rejected_witness :: "decl_id option"
  ay_totals :: arc_totals

record arc_run =
  ar_fingerprint :: string
  ar_model :: arc_model
  ar_script :: "arc_op list"
  ar_cursor :: nat
  ar_phases :: "(decl_id, arc_phase) bmap"
  ar_seq :: "(decl_id, u64) bmap"
  ar_held :: "(decl_id, u32) bmap"
  ar_base_released :: "decl_id bset"
  ar_unique :: "decl_id bset"
  ar_links :: "(decl_id, decl_id bset) bmap"
  ar_degree :: "(decl_id, u32) bmap"
  ar_next_seq :: u64
  ar_open :: "decl_id list"
  ar_events :: "arc_event list"
  ar_status :: run_status
  ar_witness :: "decl_id option"
  ar_totals :: arc_totals

type_synonym arc_change = "(arc_run \<times> arc_event list) az_res"

definition az_prepare_run :: "arc_model \<Rightarrow> arc_op list \<Rightarrow> arc_run" where
  "az_prepare_run m script =
     \<lparr>ar_fingerprint = am_fingerprint m, ar_model = m, ar_script = script, ar_cursor = 0,
      ar_phases = bm_empty, ar_seq = bm_empty, ar_held = bm_empty, ar_base_released = [],
      ar_unique = [], ar_links = bm_empty, ar_degree = bm_empty, ar_next_seq = 0, ar_open = [],
      ar_events = [], ar_status = Rs_Running, ar_witness = None,
      ar_totals = \<lparr>at_constructed = 0, at_retained = 0, at_released = 0, at_finalized = 0,
        at_zones_entered = 0, at_zones_exited = 0, at_zones_rejected = 0\<rparr>\<rparr>"

section \<open>Counts\<close>

definition az_phase :: "arc_run \<Rightarrow> decl_id \<Rightarrow> arc_phase" where
  "az_phase r i = (case bm_get (ar_phases r) i of None \<Rightarrow> Ph_NotConstructed | Some p \<Rightarrow> p)"

definition az_or_zero :: "u32 option \<Rightarrow> u32" where
  "az_or_zero v = (case v of None \<Rightarrow> 0 | Some n \<Rightarrow> n)"

definition az_live_total :: "arc_run \<Rightarrow> decl_id \<Rightarrow> u32 az_res" where
  "az_live_total r i =
     res_bind (u_add (if bs_contains (ar_base_released r) i then 0 else 1) (az_or_zero (bm_get (ar_degree r) i)))
       (\<lambda>n. u_add n (az_or_zero (bm_get (ar_held r) i)))"

definition az_strong_count :: "arc_run \<Rightarrow> decl_id \<Rightarrow> u32 option az_res" where
  "az_strong_count r i =
     (if bm_get (ar_phases r) i = Some Ph_Live
      then res_bind (az_live_total r i) (\<lambda>n. Ok (Some n)) else Ok None)"

definition az_record :: "arc_run \<Rightarrow> arc_event list \<Rightarrow> arc_run \<times> arc_event list" where
  "az_record r batch = (r\<lparr>ar_events := ar_events r @ batch\<rparr>, batch)"

definition az_current_zone :: "arc_run \<Rightarrow> decl_id az_res" where
  "az_current_zone r = (if ar_open r = [] then Err Az_NoOpenZone else Ok (last (ar_open r)))"

definition az_object :: "arc_run \<Rightarrow> decl_id \<Rightarrow> object_entry az_res" where
  "az_object r i = ok_or Az_UnknownObject (bm_get (am_objects (ar_model r)) i)"

definition az_live_object :: "arc_run \<Rightarrow> decl_id \<Rightarrow> unit az_res" where
  "az_live_object r i =
     res_bind (az_object r i) (\<lambda>entry.
       if az_phase r i \<noteq> Ph_Live then Err Az_DeadOrUnconstructedObject
       else res_bind (az_current_zone r) (\<lambda>zone.
         if oe_zone entry \<noteq> zone then Err Az_ForeignZoneObject else Ok ()))"

definition az_constructible :: "arc_run \<Rightarrow> decl_id \<Rightarrow> unit az_res" where
  "az_constructible r i =
     res_bind (az_object r i) (\<lambda>entry.
       if az_phase r i \<noteq> Ph_NotConstructed then Err Az_AlreadyConstructed
       else res_bind (az_current_zone r) (\<lambda>zone.
         if oe_zone entry \<noteq> zone then Err Az_ForeignZoneObject else Ok ()))"

section \<open>Finalization\<close>

text \<open>The in-degrees of the targets of a finalized object go down; an entry at zero is removed.\<close>

definition az_lower :: "decl_id \<Rightarrow> (decl_id, u32) bmap \<Rightarrow> (decl_id, u32) bmap az_res" where
  "az_lower t degrees =
     res_bind (expect (bm_get degrees t)) (\<lambda>degree.
     res_bind (u_sub degree 1) (\<lambda>d.
       Ok (if d = 0 then bm_delete t degrees else bm_insert t d degrees)))"

fun az_lower_all :: "decl_id list \<Rightarrow> (decl_id, u32) bmap \<Rightarrow> (decl_id, u32) bmap az_res" where
  "az_lower_all [] degrees = Ok degrees"
| "az_lower_all (t # ts) degrees = res_bind (az_lower t degrees) (az_lower_all ts)"

text \<open>
  One object: its phase, its outgoing links, the count.  The \<open>debug_assert\<close> that it is live is a
  panic here, as in a build with debug assertions.
\<close>

definition az_targets :: "arc_run \<Rightarrow> decl_id \<Rightarrow> decl_id list" where
  "az_targets r i = (case bm_get (ar_links r) i of None \<Rightarrow> [] | Some ts \<Rightarrow> ts)"

definition az_finalize_one :: "arc_run \<Rightarrow> decl_id \<Rightarrow> arc_run az_res" where
  "az_finalize_one r i =
     (if bm_get (ar_phases r) i \<noteq> Some Ph_Live then Panic
      else
        res_bind (az_lower_all (az_targets r i) (ar_degree r)) (\<lambda>degrees.
        res_bind (u_add (at_finalized (ar_totals r)) 1) (\<lambda>n.
          Ok (r\<lparr>ar_phases := bm_insert i Ph_Finalized (ar_phases r), ar_degree := degrees,
                ar_links := bm_delete i (ar_links r), ar_totals := (ar_totals r)\<lparr>at_finalized := n\<rparr>\<rparr>))))"

definition live_count :: "arc_run \<Rightarrow> nat" where
  "live_count r = card {i. bm_get (ar_phases r) i = Some Ph_Live}"

lemma finite_live: "finite {i. bm_get (ar_phases r) i = Some Ph_Live}"
  by (rule finite_subset[of _ "fst ` set (ar_phases r)"]) (auto dest: bm_get_in_set intro: rev_image_eqI)

lemma finalize_one_phases:
  "az_finalize_one r i = Ok r' \<Longrightarrow> ar_phases r' = bm_insert i Ph_Finalized (ar_phases r)"
  by (auto simp: az_finalize_one_def res_iff split: if_splits)

lemma finalize_one_live_count:
  assumes "az_finalize_one r i = Ok r'" and "bm_get (ar_phases r) i = Some Ph_Live"
  shows "live_count r' < live_count r"
proof -
  have "{j. bm_get (ar_phases r') j = Some Ph_Live} = {j. bm_get (ar_phases r) j = Some Ph_Live} - {i}"
    using finalize_one_phases[OF assms(1)] by auto
  then show ?thesis
    unfolding live_count_def by (simp only: card_Diff1_less[OF finite_live] assms(2) mem_Collect_eq)
qed

function az_cascade :: "decl_id list \<Rightarrow> arc_run \<Rightarrow> arc_event list \<Rightarrow> arc_change" where
  "az_cascade [] r batch = Ok (r, batch)"
| "az_cascade (t # waiting) r batch =
     (if bm_get (ar_phases r) t \<noteq> Some Ph_Live then az_cascade waiting r batch
      else case az_live_total r t of
             Ok n \<Rightarrow>
               if n \<noteq> 0 then az_cascade waiting r batch
               else (case az_finalize_one r t of
                       Ok r' \<Rightarrow> az_cascade (az_targets r t @ waiting) r' (batch @ [Av_Finalized t Fc_Cascade])
                     | Err e \<Rightarrow> Err e
                     | Panic \<Rightarrow> Panic)
           | Err e \<Rightarrow> Err e
           | Panic \<Rightarrow> Panic)"
  by pat_completeness auto

termination
  by (relation "(\<lambda>(waiting, r, batch). live_count r) <*mlex*> measure (\<lambda>(waiting, r, batch). length waiting)")
     (auto simp: wf_mlex mlex_prod_def dest: finalize_one_live_count)

definition az_finalize :: "decl_id \<Rightarrow> finalize_cause \<Rightarrow> arc_run \<Rightarrow> arc_event list \<Rightarrow> arc_change" where
  "az_finalize i cause r batch =
     res_bind (az_finalize_one r i) (\<lambda>r'. az_cascade (az_targets r i) r' (batch @ [Av_Finalized i cause]))"

section \<open>Operations on objects\<close>

definition az_construct :: "decl_id \<Rightarrow> arc_run \<Rightarrow> arc_change" where
  "az_construct i r =
     res_bind (az_constructible r i) (\<lambda>_.
     res_bind (u_add (ar_next_seq r) 1) (\<lambda>next.
     res_bind (u_add (at_constructed (ar_totals r)) 1) (\<lambda>n.
       Ok (az_record (r\<lparr>ar_phases := bm_insert i Ph_Live (ar_phases r),
                        ar_seq := bm_insert i (ar_next_seq r) (ar_seq r), ar_next_seq := next,
                        ar_held := bm_insert i 0 (ar_held r),
                        ar_totals := (ar_totals r)\<lparr>at_constructed := n\<rparr>\<rparr>) [Av_Constructed i]))))"

definition az_retain :: "decl_id \<Rightarrow> arc_run \<Rightarrow> arc_change" where
  "az_retain i r =
     res_bind (az_live_object r i) (\<lambda>_.
       if bs_contains (ar_unique r) i then Err Az_SharedUseOfUnique
       else
         res_bind (expect (bm_get (ar_held r) i)) (\<lambda>held.
         res_bind (u_add held 1) (\<lambda>held'.
         res_bind (u_add (at_retained (ar_totals r)) 1) (\<lambda>n.
           Ok (az_record (r\<lparr>ar_held := bm_insert i held' (ar_held r),
                            ar_totals := (ar_totals r)\<lparr>at_retained := n\<rparr>\<rparr>) [Av_Retained i])))))"

text \<open>When no reference is left, the object is finalized.\<close>

definition az_settle :: "decl_id \<Rightarrow> arc_run \<Rightarrow> arc_event list \<Rightarrow> arc_change" where
  "az_settle i r batch =
     res_bind (az_live_total r i) (\<lambda>total.
       if total = 0
       then res_bind (az_finalize i Fc_Release r batch) (\<lambda>(r', batch'). Ok (az_record r' batch'))
       else Ok (az_record r batch))"

definition az_release :: "decl_id \<Rightarrow> arc_run \<Rightarrow> arc_change" where
  "az_release i r =
     res_bind (az_live_object r i) (\<lambda>_.
     res_bind (expect (bm_get (ar_held r) i)) (\<lambda>held.
       if held = 0 \<and> bs_contains (ar_base_released r) i then Err Az_DoubleRelease
       else
         let r1 = (if 0 < held then r\<lparr>ar_held := bm_insert i (held - 1) (ar_held r)\<rparr>
                   else r\<lparr>ar_base_released := bs_insert i (ar_base_released r)\<rparr>)
         in res_bind (u_add (at_released (ar_totals r)) 1) (\<lambda>n.
              az_settle i (r1\<lparr>ar_totals := (ar_totals r)\<lparr>at_released := n\<rparr>\<rparr>) [Av_Released i])))"

definition az_zone_thread :: "arc_run \<Rightarrow> decl_id \<Rightarrow> decl_id az_res" where
  "az_zone_thread r zone = res_bind (expect (bm_get (am_zones (ar_model r)) zone)) (\<lambda>entry. Ok (ze_thread entry))"

definition az_link :: "decl_id \<Rightarrow> decl_id \<Rightarrow> arc_run \<Rightarrow> arc_change" where
  "az_link src dst r =
     res_bind (az_live_object r src) (\<lambda>_.
     res_bind (az_object r dst) (\<lambda>entry.
       if az_phase r dst \<noteq> Ph_Live then Err Az_DeadOrUnconstructedObject
       else
         res_bind (az_current_zone r) (\<lambda>current.
           if bs_contains (ar_unique r) src \<or> bs_contains (ar_unique r) dst then Err Az_SharedUseOfUnique
           else
             res_bind (az_zone_thread r current) (\<lambda>from_thread.
             res_bind (az_zone_thread r (oe_zone entry)) (\<lambda>to_thread.
               if (oe_zone entry \<noteq> current \<or> from_thread \<noteq> to_thread) \<and> oe_shareable entry \<noteq> Az_Shareable
               then Err Az_SharingWithoutShareable
               else if bs_contains (az_targets r src) dst then Err Az_DuplicateLiveLink
               else
                 res_bind (u_add (az_or_zero (bm_get (ar_degree r) dst)) 1) (\<lambda>d.
                   Ok (az_record (r\<lparr>ar_links := bm_insert src (bs_insert dst (az_targets r src)) (ar_links r),
                                    ar_degree := bm_insert dst d (ar_degree r)\<rparr>) [Av_Linked src dst])))))))"

definition az_unlink :: "decl_id \<Rightarrow> decl_id \<Rightarrow> arc_run \<Rightarrow> arc_change" where
  "az_unlink src dst r =
     res_bind (az_live_object r src) (\<lambda>_.
       if az_phase r dst \<noteq> Ph_Live then Err Az_DeadOrUnconstructedObject
       else if \<not> bs_contains (az_targets r src) dst then Err Az_UnknownLiveLink
       else
         let left = bs_remove dst (az_targets r src);
             links = (if left = [] then bm_delete src (ar_links r) else bm_insert src left (ar_links r))
         in res_bind (az_lower dst (ar_degree r)) (\<lambda>degrees.
              az_settle dst (r\<lparr>ar_links := links, ar_degree := degrees\<rparr>) [Av_Unlinked src dst]))"

definition az_demote :: "decl_id \<Rightarrow> arc_run \<Rightarrow> arc_change" where
  "az_demote i r =
     res_bind (az_live_object r i) (\<lambda>_.
       if bs_contains (ar_unique r) i then Err Az_DemotionNotApplicable
       else res_bind (az_live_total r i) (\<lambda>total.
         if total \<noteq> 1 then Err Az_DemotionNotApplicable
         else Ok (az_record (r\<lparr>ar_unique := bs_insert i (ar_unique r)\<rparr>) [Av_EscapedToUnique i])))"

end
