(* ===== verification/ArcCycles.thy ===== *)
theory ArcCycles
  imports ArcRun
begin

text \<open>
  The zones of a run (\<open>enter_zone\<close>, \<open>exit_zone\<close>) with the search for cycles among the live objects:
  \<open>cycle_participants\<close> of \<open>src/arc_zones.rs\<close>, Tarjan's algorithm on an explicit stack.  Stacks are
  lists with their top first.
\<close>

section \<open>Strongly connected components\<close>

type_synonym adjacency = "(decl_id, decl_id list) bmap"

record tarjan =
  tj_index :: "(decl_id, nat) bmap"
  tj_low :: "(decl_id, nat) bmap"
  tj_on :: "decl_id bset"
  tj_component :: "decl_id list"
  tj_participants :: "decl_id bset"
  tj_next :: nat

definition tj_empty :: tarjan where
  "tj_empty = \<lparr>tj_index = bm_empty, tj_low = bm_empty, tj_on = [], tj_component = [],
     tj_participants = [], tj_next = 0\<rparr>"

definition tj_push :: "decl_id \<Rightarrow> tarjan \<Rightarrow> tarjan" where
  "tj_push v t = t\<lparr>tj_index := bm_insert v (tj_next t) (tj_index t), tj_low := bm_insert v (tj_next t) (tj_low t),
     tj_next := tj_next t + 1, tj_component := v # tj_component t, tj_on := bs_insert v (tj_on t)\<rparr>"

text \<open>Pop the component stack down to a node.\<close>

fun tj_pop :: "decl_id \<Rightarrow> decl_id list \<Rightarrow> decl_id bset \<Rightarrow> decl_id list \<Rightarrow> decl_id list \<times> decl_id bset \<times> decl_id list" where
  "tj_pop v [] on members = ([], on, members)"
| "tj_pop v (m # ms) on members =
     (if m = v then (ms, bs_remove m on, members @ [m]) else tj_pop v ms (bs_remove m on) (members @ [m]))"

definition tj_close :: "decl_id \<Rightarrow> tarjan \<Rightarrow> tarjan" where
  "tj_close v t =
     (case tj_pop v (tj_component t) (tj_on t) [] of (component, on, members) \<Rightarrow>
        t\<lparr>tj_component := component, tj_on := on,
          tj_participants := (if 1 < length members then fold bs_insert members (tj_participants t)
                              else tj_participants t)\<rparr>)"

text \<open>The end of a node: its low link goes to its parent, and a root closes its component.\<close>

definition tj_finish :: "decl_id \<Rightarrow> (decl_id \<times> nat) list \<Rightarrow> tarjan \<Rightarrow> tarjan az_res" where
  "tj_finish v rest t =
     res_bind (expect (bm_get (tj_low t) v)) (\<lambda>low.
     res_bind (case rest of
         [] \<Rightarrow> Ok t
       | (parent, slot) # rest' \<Rightarrow>
           res_bind (expect (bm_get (tj_low t) parent)) (\<lambda>parent_low.
             Ok (t\<lparr>tj_low := bm_insert parent (min parent_low low) (tj_low t)\<rparr>))) (\<lambda>t1.
     res_bind (expect (bm_get (tj_index t) v)) (\<lambda>index.
       Ok (if low = index then tj_close v t1 else t1))))"

definition tj_back :: "decl_id \<Rightarrow> decl_id \<Rightarrow> tarjan \<Rightarrow> tarjan az_res" where
  "tj_back v successor t =
     res_bind (expect (bm_get (tj_index t) successor)) (\<lambda>index.
     res_bind (expect (bm_get (tj_low t) v)) (\<lambda>low.
       Ok (t\<lparr>tj_low := bm_insert v (min low index) (tj_low t)\<rparr>)))"

definition tj_nodes :: "adjacency \<Rightarrow> decl_id set" where
  "tj_nodes adjacent = (\<Union>(v, successors)\<in>set adjacent. set successors)"

definition tj_unseen :: "adjacency \<Rightarrow> tarjan \<Rightarrow> nat" where
  "tj_unseen adjacent t = card {v \<in> tj_nodes adjacent. bm_get (tj_index t) v = None}"

definition tj_slots :: "adjacency \<Rightarrow> (decl_id \<times> nat) list \<Rightarrow> nat" where
  "tj_slots adjacent work =
     (\<Sum>(v, slot)\<leftarrow>work. Suc ((case bm_get adjacent v of None \<Rightarrow> 0 | Some ss \<Rightarrow> length ss) - slot))"

lemma finite_nodes [simp]: "finite (tj_nodes adjacent)"
  by (auto simp: tj_nodes_def)

lemma unseen_push:
  assumes "bm_get adjacent v = Some ss" and "i < length ss" and "bm_get (tj_index t) (ss ! i) = None"
  shows "tj_unseen adjacent (tj_push (ss ! i) t) < tj_unseen adjacent t"
proof -
  have "ss ! i \<in> tj_nodes adjacent" using bm_get_in_set[OF assms(1)] assms(2) by (force simp: tj_nodes_def)
  moreover have "{v \<in> tj_nodes adjacent. bm_get (tj_index (tj_push (ss ! i) t)) v = None}
      = {v \<in> tj_nodes adjacent. bm_get (tj_index t) v = None} - {ss ! i}"
    by (auto simp: tj_push_def)
  moreover have "finite {v \<in> tj_nodes adjacent. bm_get (tj_index t) v = None}" by simp
  ultimately show ?thesis
    using assms(3) unfolding tj_unseen_def by (simp only: card_Diff1_less mem_Collect_eq simp_thms)
qed

lemma unseen_same: "tj_index t' = tj_index t \<Longrightarrow> tj_unseen adjacent t' = tj_unseen adjacent t"
  by (simp add: tj_unseen_def)

lemma close_index [simp]: "tj_index (tj_close v t) = tj_index t"
  by (simp add: tj_close_def split: prod.splits)

lemma finish_index: "tj_finish v rest t = Ok t' \<Longrightarrow> tj_index t' = tj_index t"
  by (cases rest) (auto simp: tj_finish_def res_iff split: if_splits)

lemma back_index: "tj_back v s t = Ok t' \<Longrightarrow> tj_index t' = tj_index t"
  by (auto simp: tj_back_def res_iff)

lemma slots_rest: "tj_slots adjacent rest < tj_slots adjacent ((v, slot) # rest)"
  by (simp add: tj_slots_def)

lemma slots_step:
  "bm_get adjacent v = Some ss \<Longrightarrow> slot < length ss \<Longrightarrow>
     tj_slots adjacent ((v, Suc slot) # rest) < tj_slots adjacent ((v, slot) # rest)"
  by (simp add: tj_slots_def)

function tj_run :: "adjacency \<Rightarrow> (decl_id \<times> nat) list \<Rightarrow> tarjan \<Rightarrow> tarjan az_res" where
  "tj_run adjacent [] t = Ok t"
| "tj_run adjacent ((v, slot) # rest) t =
     (case bm_get adjacent v of
        None \<Rightarrow> Panic
      | Some ss \<Rightarrow>
          if slot < length ss
          then if bm_get (tj_index t) (ss ! slot) = None
               then tj_run adjacent ((ss ! slot, 0) # (v, slot + 1) # rest) (tj_push (ss ! slot) t)
               else if bs_contains (tj_on t) (ss ! slot)
               then (case tj_back v (ss ! slot) t of
                       Ok t' \<Rightarrow> tj_run adjacent ((v, slot + 1) # rest) t'
                     | Err e \<Rightarrow> Err e
                     | Panic \<Rightarrow> Panic)
               else tj_run adjacent ((v, slot + 1) # rest) t
          else (case tj_finish v rest t of
                  Ok t' \<Rightarrow> tj_run adjacent rest t'
                | Err e \<Rightarrow> Err e
                | Panic \<Rightarrow> Panic))"
  by pat_completeness auto

termination
proof (relation "(\<lambda>(adjacent, work, t). tj_unseen adjacent t) <*mlex*>
    measure (\<lambda>(adjacent, work, t). tj_slots adjacent work)", goal_cases)
  case 1
  show ?case by (rule wf_mlex) simp
next
  case (2 adjacent v slot rest t ss)
  then show ?case by (intro mlex_less) (simp add: unseen_push)
next
  case (3 adjacent v slot rest t ss t')
  then show ?case by (intro mlex_leq) (simp_all add: unseen_same[OF back_index] slots_step)
next
  case (4 adjacent v slot rest t ss)
  then show ?case by (intro mlex_leq) (simp_all add: slots_step)
next
  case (5 adjacent v slot rest t ss t')
  then show ?case by (intro mlex_leq) (simp_all add: unseen_same[OF finish_index] slots_rest)
qed

declare tj_run.simps(2) [simp del]

fun tj_starts :: "adjacency \<Rightarrow> decl_id list \<Rightarrow> tarjan \<Rightarrow> tarjan az_res" where
  "tj_starts adjacent [] t = Ok t"
| "tj_starts adjacent (v # vs) t =
     (if bm_get (tj_index t) v \<noteq> None then tj_starts adjacent vs t
      else res_bind (tj_run adjacent [(v, 0)] (tj_push v t)) (tj_starts adjacent vs))"

type_synonym links = "(decl_id, decl_id bset) bmap"

definition az_adjacency :: "decl_id bset \<Rightarrow> links \<Rightarrow> adjacency" where
  "az_adjacency live links =
     map (\<lambda>v. (v, case bm_get links v of None \<Rightarrow> [] | Some ts \<Rightarrow> filter (bs_contains live) ts)) live"

definition self_linked :: "(decl_id, arc_phase) bmap \<Rightarrow> links \<Rightarrow> decl_id \<Rightarrow> bool" where
  "self_linked phases links v \<longleftrightarrow> bm_get phases v = Some Ph_Live
     \<and> (case bm_get links v of None \<Rightarrow> False | Some ts \<Rightarrow> bs_contains ts v)"

definition az_cycle_participants ::
  "decl_id list \<Rightarrow> links \<Rightarrow> (decl_id, arc_phase) bmap \<Rightarrow> decl_id bset az_res" where
  "az_cycle_participants live links phases =
     (let live_set = fold bs_insert live []
      in res_bind (tj_starts (az_adjacency live_set links) live_set tj_empty) (\<lambda>t.
           Ok (fold bs_insert (filter (self_linked phases links) live_set) (tj_participants t))))"

section \<open>Zones\<close>

definition az_enter_zone :: "decl_id \<Rightarrow> arc_run \<Rightarrow> arc_change" where
  "az_enter_zone zone r =
     res_bind (ok_or Az_UnknownZone (bm_get (am_zones (ar_model r)) zone)) (\<lambda>entry.
       if zone \<in> set (ar_open r) then Err Az_ZoneAlreadyOpen
       else if (case ze_parent entry of
                  Some parent \<Rightarrow> ar_open r = [] \<or> last (ar_open r) \<noteq> parent
                | None \<Rightarrow> ar_open r \<noteq> [])
       then Err Az_ParentNotOpen
       else
         res_bind (u_add (at_zones_entered (ar_totals r)) 1) (\<lambda>n.
           Ok (az_record (r\<lparr>ar_open := ar_open r @ [zone],
                            ar_totals := (ar_totals r)\<lparr>at_zones_entered := n\<rparr>\<rparr>) [Av_ZoneEntered zone])))"

definition az_live_here :: "arc_run \<Rightarrow> decl_id \<Rightarrow> decl_id list" where
  "az_live_here r zone =
     map fst (filter (\<lambda>(i, phase). phase = Ph_Live
       \<and> map_option oe_zone (bm_get (am_objects (ar_model r)) i) = Some zone) (ar_phases r))"

definition min_of :: "decl_id list \<Rightarrow> decl_id option" where
  "min_of xs = (case xs of [] \<Rightarrow> None | x # ys \<Rightarrow> Some (fold min ys x))"

fun az_seqs :: "arc_run \<Rightarrow> decl_id list \<Rightarrow> (u64 \<times> decl_id) list az_res" where
  "az_seqs r [] = Ok []"
| "az_seqs r (i # is) =
     res_bind (expect (bm_get (ar_seq r) i)) (\<lambda>n. res_bind (az_seqs r is) (\<lambda>rest. Ok ((n, i) # rest)))"

fun az_drain :: "decl_id list \<Rightarrow> arc_run \<Rightarrow> arc_event list \<Rightarrow> arc_change" where
  "az_drain [] r batch = Ok (r, batch)"
| "az_drain (i # is) r batch =
     (if bm_get (ar_phases r) i = Some Ph_Live
      then res_bind (az_finalize i Fc_ZoneExit r batch) (\<lambda>(r', batch'). az_drain is r' batch')
      else az_drain is r batch)"

definition az_reject :: "decl_id \<Rightarrow> decl_id \<Rightarrow> arc_run \<Rightarrow> arc_change" where
  "az_reject zone witness r =
     res_bind (u_add (at_zones_rejected (ar_totals r)) 1) (\<lambda>n.
       Ok (az_record (r\<lparr>ar_status := Rs_Rejected, ar_witness := Some witness,
                        ar_totals := (ar_totals r)\<lparr>at_zones_rejected := n\<rparr>\<rparr>)
             [Av_ZoneRejectedCycle zone witness]))"

definition az_leave :: "decl_id \<Rightarrow> decl_id list \<Rightarrow> arc_run \<Rightarrow> arc_change" where
  "az_leave zone live_here r =
     res_bind (az_seqs r live_here) (\<lambda>rows.
     res_bind (az_drain (map snd (rev (sort rows))) r []) (\<lambda>(r1, batch).
     res_bind (u_add (at_zones_exited (ar_totals r1)) 1) (\<lambda>n.
       let open' = butlast (ar_open r1)
       in Ok (az_record (r1\<lparr>ar_open := open', ar_totals := (ar_totals r1)\<lparr>at_zones_exited := n\<rparr>,
                            ar_status := (if open' = [] then Rs_Complete else ar_status r1)\<rparr>)
                (batch @ [Av_ZoneExited zone])))))"

definition az_exit_zone :: "decl_id \<Rightarrow> arc_run \<Rightarrow> arc_change" where
  "az_exit_zone zone r =
     (if \<not> bm_contains (am_zones (ar_model r)) zone then Err Az_UnknownZone
      else if ar_open r = [] \<or> last (ar_open r) \<noteq> zone
      then Err (if zone \<in> set (ar_open r) then Az_UnbalancedZoneExit else Az_ZoneNotOpen)
      else
        let live_here = az_live_here r zone
        in res_bind (az_cycle_participants live_here (ar_links r) (ar_phases r)) (\<lambda>participants.
             case min_of (filter (bs_contains participants) live_here) of
               Some witness \<Rightarrow> az_reject zone witness r
             | None \<Rightarrow> az_leave zone live_here r))"

section \<open>Steps\<close>

fun az_apply :: "arc_op \<Rightarrow> arc_run \<Rightarrow> arc_change" where
  "az_apply (Op_Construct i) r = az_construct i r"
| "az_apply (Op_Retain i) r = az_retain i r"
| "az_apply (Op_Release i) r = az_release i r"
| "az_apply (Op_Link src dst) r = az_link src dst r"
| "az_apply (Op_Unlink src dst) r = az_unlink src dst r"
| "az_apply (Op_Demote i) r = az_demote i r"
| "az_apply (Op_EnterZone zone) r = az_enter_zone zone r"
| "az_apply (Op_ExitZone zone) r = az_exit_zone zone r"

definition az_authenticate :: "arc_run \<Rightarrow> unit az_res" where
  "az_authenticate r =
     (if ar_fingerprint r \<noteq> am_fingerprint (ar_model r) then Err Az_FrameBindingMismatch else Ok ())"

definition az_quiescent :: "arc_run \<Rightarrow> bool" where
  "az_quiescent r \<longleftrightarrow> ar_status r \<noteq> Rs_Running \<or> length (ar_script r) \<le> ar_cursor r"

text \<open>The cursor moves before the operation, also when the operation fails.\<close>

definition az_step :: "arc_run \<Rightarrow> arc_event list az_res \<times> arc_run" where
  "az_step r =
     (case az_authenticate r of
        Err e \<Rightarrow> (Err e, r)
      | Panic \<Rightarrow> (Panic, r)
      | Ok _ \<Rightarrow>
          if MAX_SCRIPT_OPS < length (ar_script r) then (Err Az_ScriptBoundExceeded, r)
          else if az_quiescent r then (Ok [], r)
          else
            let r1 = r\<lparr>ar_cursor := ar_cursor r + 1\<rparr>
            in (case az_apply (ar_script r ! ar_cursor r) r1 of
                  Ok (r2, batch) \<Rightarrow> (Ok batch, r2)
                | Err e \<Rightarrow> (Err e, r1)
                | Panic \<Rightarrow> (Panic, r1)))"

end
