(* ===== verification/ArcTarjan.thy ===== *)
theory ArcTarjan
  imports Main
begin

text \<open>
  The invariant of Tarjan's search, over any nodes: \<open>E\<close> are the edges, \<open>V\<close> the nodes seen, \<open>W\<close> the
  path being explored and \<open>S\<close> the component stack (both top first), \<open>idx\<close> and \<open>low\<close> the numbers,
  \<open>did v\<close> the successors of \<open>v\<close> already looked at, \<open>P\<close> the members of components found so far.
  One lemma per move of the search.
\<close>

section \<open>Paths and owners\<close>

fun chain :: "('a \<times> 'a) set \<Rightarrow> 'a list \<Rightarrow> bool" where
  "chain E (child # parent # ws) \<longleftrightarrow> (parent, child) \<in> E \<and> chain E (parent # ws)"
| "chain E ws \<longleftrightarrow> True"

lemma chain_reach: "chain E (w # ws) \<Longrightarrow> q \<in> set (w # ws) \<Longrightarrow> (q, w) \<in> E\<^sup>*"
proof (induction ws arbitrary: w)
  case (Cons p ws)
  show ?case
  proof (cases "q = w")
    case False
    then have "(q, p) \<in> E\<^sup>*" using Cons by auto
    then show ?thesis using Cons.prems(1) by (auto intro: rtrancl_into_rtrancl)
  qed simp
qed simp

text \<open>The owner of a node: the last node of the path that is not newer.\<close>

definition owner :: "('a \<Rightarrow> nat) \<Rightarrow> 'a list \<Rightarrow> 'a \<Rightarrow> 'a \<Rightarrow> bool" where
  "owner idx W w v \<longleftrightarrow> w \<in> set W \<and> idx w \<le> idx v \<and> (\<forall>u\<in>set W. idx u \<le> idx v \<longrightarrow> idx u \<le> idx w)"

definition falling :: "('a \<Rightarrow> nat) \<Rightarrow> 'a list \<Rightarrow> bool" where
  "falling idx W \<longleftrightarrow> sorted_wrt (\<lambda>a b. idx b < idx a) W"

lemma falling_Cons: "falling idx (v # W) \<longleftrightarrow> (\<forall>w\<in>set W. idx w < idx v) \<and> falling idx W"
  by (simp add: falling_def)

lemma owner_top:
  assumes "falling idx (v # W)" and "idx v \<le> idx x"
  shows "owner idx (v # W) w x \<longleftrightarrow> w = v"
proof
  assume o: "owner idx (v # W) w x"
  then have "idx v \<le> idx w" using assms(2) by (auto simp: owner_def)
  then show "w = v" using o assms(1) by (force simp: owner_def falling_Cons)
next
  assume "w = v"
  then show "owner idx (v # W) w x" using assms by (force simp: owner_def falling_Cons)
qed

lemma owner_below: "idx x < idx v \<Longrightarrow> owner idx (v # W) w x \<longleftrightarrow> owner idx W w x"
  by (auto simp: owner_def)

lemma owner_cong: "(\<And>u. u \<in> set W \<Longrightarrow> idx' u = idx u) \<Longrightarrow> idx' x = idx x \<Longrightarrow> owner idx' W w x \<longleftrightarrow> owner idx W w x"
  by (auto simp: owner_def)

lemma falling_cong: "(\<And>u. u \<in> set W \<Longrightarrow> idx' u = idx u) \<Longrightarrow> falling idx' W \<longleftrightarrow> falling idx W"
  unfolding falling_def by (induction W) auto

definition mutual :: "('a \<times> 'a) set \<Rightarrow> 'a \<Rightarrow> 'a \<Rightarrow> bool" where
  "mutual E u v \<longleftrightarrow> (u, v) \<in> E\<^sup>* \<and> (v, u) \<in> E\<^sup>*"

lemma mutual_sym: "mutual E u v \<Longrightarrow> mutual E v u"
  by (simp add: mutual_def)

lemma mutual_trans: "mutual E u v \<Longrightarrow> mutual E v w \<Longrightarrow> mutual E u w"
  unfolding mutual_def by (meson rtrancl_trans)

section \<open>The invariant\<close>

definition in_components :: "('a \<times> 'a) set \<Rightarrow> 'a set \<Rightarrow> 'a set" where
  "in_components E D = {v \<in> D. \<exists>u\<in>D. u \<noteq> v \<and> mutual E v u}"

definition search_inv ::
  "('a \<times> 'a) set \<Rightarrow> 'a set \<Rightarrow> 'a list \<Rightarrow> 'a list \<Rightarrow> ('a \<Rightarrow> nat) \<Rightarrow> ('a \<Rightarrow> nat) \<Rightarrow> ('a \<Rightarrow> 'a set) \<Rightarrow> 'a set \<Rightarrow> bool" where
  "search_inv E V W S idx low did P \<longleftrightarrow>
     set S \<subseteq> V \<and> set W \<subseteq> set S \<and> falling idx S \<and> falling idx W \<and> chain E W
     \<and> (\<forall>v\<in>V. did v \<subseteq> E `` {v} \<and> did v \<subseteq> V) \<and> (\<forall>v\<in>V - set W. did v = E `` {v})
     \<and> E `` (V - set S) \<subseteq> V - set S
     \<and> (\<forall>v\<in>set S. \<exists>w. owner idx W w v \<and> mutual E w v)
     \<and> (\<forall>v\<in>set S. \<forall>x\<in>did v \<inter> set S. \<forall>w. owner idx W w v \<longrightarrow> low w \<le> idx x)
     \<and> (\<forall>w\<in>set W. low w \<le> idx w \<and> (\<exists>u\<in>set S. idx u = low w \<and> (w, u) \<in> E\<^sup>*))
     \<and> P = in_components E (V - set S)"

lemma search_invI:
  assumes "set S \<subseteq> V" "set W \<subseteq> set S" "falling idx S" "falling idx W" "chain E W"
    "\<forall>v\<in>V. did v \<subseteq> E `` {v} \<and> did v \<subseteq> V" "\<forall>v\<in>V - set W. did v = E `` {v}"
    "E `` (V - set S) \<subseteq> V - set S"
    "\<forall>v\<in>set S. \<exists>w. owner idx W w v \<and> mutual E w v"
    "\<forall>v\<in>set S. \<forall>x\<in>did v \<inter> set S. \<forall>w. owner idx W w v \<longrightarrow> low w \<le> idx x"
    "\<forall>w\<in>set W. low w \<le> idx w \<and> (\<exists>u\<in>set S. idx u = low w \<and> (w, u) \<in> E\<^sup>*)"
    "P = in_components E (V - set S)"
  shows "search_inv E V W S idx low did P"
  unfolding search_inv_def using assms by (intro conjI)

lemma closed_reach: "(v, u) \<in> E\<^sup>* \<Longrightarrow> E `` D \<subseteq> D \<Longrightarrow> v \<in> D \<Longrightarrow> u \<in> D"
  by (induction rule: rtrancl_induct) auto

text \<open>A new node goes on the path.\<close>

lemma search_push:
  assumes inv: "search_inv E V W S idx low did P"
    and new: "c \<notin> V" and nxt: "\<forall>v\<in>V. idx v < n"
    and edge: "W \<noteq> [] \<Longrightarrow> (hd W, c) \<in> E" and empty: "W = [] \<Longrightarrow> S = []"
    and did': "\<forall>v\<in>V. did' v = (if W \<noteq> [] \<and> v = hd W then insert c (did v) else did v)" and did_c: "did' c = {}"
  shows "search_inv E (insert c V) (c # W) (c # S) (idx(c := n)) (low(c := n)) did' P"
proof -
  have S: "set S \<subseteq> V" "set W \<subseteq> set S" and fS: "falling idx S" and fW: "falling idx W" and ch: "chain E W"
    and d1: "\<forall>v\<in>V. did v \<subseteq> E `` {v} \<and> did v \<subseteq> V" and d2: "\<forall>v\<in>V - set W. did v = E `` {v}"
    and cl: "E `` (V - set S) \<subseteq> V - set S"
    and own: "\<forall>v\<in>set S. \<exists>w. owner idx W w v \<and> mutual E w v"
    and bk: "\<forall>v\<in>set S. \<forall>x\<in>did v \<inter> set S. \<forall>w. owner idx W w v \<longrightarrow> low w \<le> idx x"
    and lw: "\<forall>w\<in>set W. low w \<le> idx w \<and> (\<exists>u\<in>set S. idx u = low w \<and> (w, u) \<in> E\<^sup>*)"
    and P: "P = in_components E (V - set S)"
    using inv unfolding search_inv_def by blast+
  let ?idx = "idx(c := n)" and ?low = "low(c := n)"
  have same: "v \<in> V \<Longrightarrow> ?idx v = idx v \<and> ?low v = low v \<and> idx v < n" for v using new nxt by auto
  have cS: "c \<notin> set S" "c \<notin> set W" using new S by auto
  have idx_S: "\<And>u. u \<in> set S \<Longrightarrow> ?idx u = idx u" and idx_W: "\<And>u. u \<in> set W \<Longrightarrow> ?idx u = idx u" using cS by auto
  have "falling ?idx S" using falling_cong[of S ?idx idx] idx_S fS by blast
  moreover have "falling ?idx W" using falling_cong[of W ?idx idx] idx_W fW by blast
  moreover have "\<forall>u\<in>set S. idx u < n" using S nxt by blast
  ultimately have fS': "falling ?idx (c # S)" "falling ?idx (c # W)"
    using cS S by (auto simp: falling_Cons)
  have own_c: "owner ?idx (c # W) w c \<longleftrightarrow> w = c" for w by (rule owner_top[OF fS'(2)]) simp
  have own_old: "owner ?idx (c # W) w v \<longleftrightarrow> owner idx W w v" if "v \<in> V" for w v
    using owner_below[of ?idx v c W w] owner_cong[of W ?idx idx v w] same[OF that] S same by auto
  have c5: "chain E (c # W)" using ch edge by (cases W) auto
  have c6: "\<forall>v\<in>insert c V. did' v \<subseteq> E `` {v} \<and> did' v \<subseteq> insert c V"
    using d1 did' did_c edge by auto
  have c7: "\<forall>v\<in>insert c V - set (c # W). did' v = E `` {v}"
    using d2 did' by (cases W) auto
  have c8: "E `` (insert c V - set (c # S)) \<subseteq> insert c V - set (c # S)" using cl new cS by auto
  have c9: "\<forall>v\<in>set (c # S). \<exists>w. owner ?idx (c # W) w v \<and> mutual E w v"
    using own own_c own_old S by (auto simp: mutual_def)
  have c10: "\<forall>v\<in>set (c # S). \<forall>x\<in>did' v \<inter> set (c # S). \<forall>w. owner ?idx (c # W) w v \<longrightarrow> ?low w \<le> ?idx x"
  proof (intro ballI allI impI)
    fix v x w
    assume v: "v \<in> set (c # S)" and x: "x \<in> did' v \<inter> set (c # S)" and w: "owner ?idx (c # W) w v"
    show "?low w \<le> ?idx x"
    proof (cases "v = c")
      case True
      then show ?thesis using x did_c by simp
    next
      case False
      then have vS: "v \<in> set S" using v by simp
      then have wo: "owner idx W w v" using w own_old S by blast
      then have wW: "w \<in> set W" by (simp add: owner_def)
      have wV: "w \<in> V" using wW S by auto
      show ?thesis
      proof (cases "x = c")
        case True
        have "low w \<le> idx w" using lw wW by blast
        then show ?thesis using True same[OF wV] by simp
      next
        case xc: False
        then have "x \<in> did v \<inter> set S" using x did' vS S by (auto split: if_splits)
        then have "low w \<le> idx x" using bk vS wo by blast
        then show ?thesis using xc same[OF wV] by simp
      qed
    qed
  qed
  have c11: "\<forall>w\<in>set (c # W). ?low w \<le> ?idx w \<and> (\<exists>u\<in>set (c # S). ?idx u = ?low w \<and> (w, u) \<in> E\<^sup>*)"
  proof
    fix w assume "w \<in> set (c # W)"
    then consider "w = c" | "w \<in> set W" by auto
    then show "?low w \<le> ?idx w \<and> (\<exists>u\<in>set (c # S). ?idx u = ?low w \<and> (w, u) \<in> E\<^sup>*)"
    proof cases
      case 2
      then obtain u where "low w \<le> idx w" "u \<in> set S" "idx u = low w" "(w, u) \<in> E\<^sup>*" using lw by blast
      then show ?thesis using 2 S same[of w] same[of u] by (intro conjI bexI[of _ u]) auto
    qed simp
  qed
  have c12: "insert c V - set (c # S) = V - set S" using new by auto
  have st: "set (c # S) \<subseteq> insert c V" "set (c # W) \<subseteq> set (c # S)" using S by auto
  show ?thesis by (rule search_invI[OF st fS' c5 c6 c7 c8 c9 c10 c11]) (simp only: P c12)
qed

text \<open>A successor already on the stack lowers the low link; one already done changes nothing.\<close>

lemma search_back:
  assumes inv: "search_inv E V (v # W) S idx low did P" and x: "x \<in> set S" and edge: "(v, x) \<in> E"
  shows "search_inv E V (v # W) S idx (low(v := min (low v) (idx x))) (did(v := insert x (did v))) P"
proof -
  have S: "set S \<subseteq> V" "set (v # W) \<subseteq> set S" and fW: "falling idx (v # W)"
    and bk: "\<forall>v'\<in>set S. \<forall>x\<in>did v' \<inter> set S. \<forall>w. owner idx (v # W) w v' \<longrightarrow> low w \<le> idx x"
    and lw: "\<forall>w\<in>set (v # W). low w \<le> idx w \<and> (\<exists>u\<in>set S. idx u = low w \<and> (w, u) \<in> E\<^sup>*)"
    using inv unfolding search_inv_def by blast+
  let ?low = "low(v := min (low v) (idx x))" and ?did = "did(v := insert x (did v))"
  have le: "?low w \<le> low w" for w by simp
  have "\<forall>v'\<in>set S. \<forall>y\<in>?did v' \<inter> set S. \<forall>w. owner idx (v # W) w v' \<longrightarrow> ?low w \<le> idx y"
  proof (intro ballI allI impI)
    fix v' y w assume a: "v' \<in> set S" "y \<in> ?did v' \<inter> set S" "owner idx (v # W) w v'"
    show "?low w \<le> idx y"
    proof (cases "v' = v \<and> y = x")
      case True
      then have "w = v" using a(3) owner_top[OF fW, of v w] by simp
      then show ?thesis using True by simp
    next
      case False
      then have "low w \<le> idx y" using a bk by (auto split: if_splits)
      then show ?thesis using le[of w] by linarith
    qed
  qed
  moreover have "\<forall>w\<in>set (v # W). ?low w \<le> idx w \<and> (\<exists>u\<in>set S. idx u = ?low w \<and> (w, u) \<in> E\<^sup>*)"
  proof
    fix w assume w: "w \<in> set (v # W)"
    obtain u where u: "low w \<le> idx w" "u \<in> set S" "idx u = low w" "(w, u) \<in> E\<^sup>*" using lw w by blast
    show "?low w \<le> idx w \<and> (\<exists>u\<in>set S. idx u = ?low w \<and> (w, u) \<in> E\<^sup>*)"
    proof (cases "w = v \<and> idx x < low v")
      case True
      then show ?thesis using x edge u(1) by (intro conjI bexI[of _ x]) auto
    next
      case False
      then have "?low w = low w" by auto
      then show ?thesis using u by auto
    qed
  qed
  ultimately show ?thesis
    using inv x edge S unfolding search_inv_def by auto
qed

lemma search_skip:
  assumes inv: "search_inv E V (v # W) S idx low did P" and x: "x \<in> V - set S" and edge: "(v, x) \<in> E"
  shows "search_inv E V (v # W) S idx low (did(v := insert x (did v))) P"
  using assms unfolding search_inv_def by auto


text \<open>A root closes its component: the nodes above it on the stack.\<close>

lemma falling_distinct: "falling idx xs \<Longrightarrow> distinct xs"
  by (induction xs) (auto simp: falling_Cons)

lemma falling_split:
  assumes "falling idx (M @ v # S)"
  shows "(\<forall>m\<in>set M. idx v < idx m) \<and> (\<forall>y\<in>set S. idx y < idx v) \<and> falling idx S \<and> distinct (M @ [v])"
  using assms using assms falling_distinct[of idx "M @ v # S"] by (auto simp: falling_def sorted_wrt_append)

lemma search_close:
  assumes inv: "search_inv E V (v # W) (M @ v # S) idx low did P"
    and all: "did v = E `` {v}" and root: "low v = idx v"
  shows "search_inv E V W S idx low did (P \<union> (if M = [] then {} else set (M @ [v])))"
proof -
  let ?T = "M @ v # S"
  have sub: "set ?T \<subseteq> V" "set (v # W) \<subseteq> set ?T" and fT: "falling idx ?T" and fW: "falling idx (v # W)"
    and ch: "chain E (v # W)"
    and d1: "\<forall>u\<in>V. did u \<subseteq> E `` {u} \<and> did u \<subseteq> V" and d2: "\<forall>u\<in>V - set (v # W). did u = E `` {u}"
    and cl: "E `` (V - set ?T) \<subseteq> V - set ?T"
    and own: "\<forall>u\<in>set ?T. \<exists>w. owner idx (v # W) w u \<and> mutual E w u"
    and bk: "\<forall>u\<in>set ?T. \<forall>x\<in>did u \<inter> set ?T. \<forall>w. owner idx (v # W) w u \<longrightarrow> low w \<le> idx x"
    and lw: "\<forall>w\<in>set (v # W). low w \<le> idx w \<and> (\<exists>u\<in>set ?T. idx u = low w \<and> (w, u) \<in> E\<^sup>*)"
    and P: "P = in_components E (V - set ?T)"
    using inv unfolding search_inv_def by blast+
  have sp: "\<forall>m\<in>set M. idx v < idx m" "\<forall>y\<in>set S. idx y < idx v" and fS: "falling idx S"
    and dist: "distinct (M @ [v])"
    using falling_split[OF fT] by blast+
  have wlt: "\<forall>w\<in>set W. idx w < idx v" and fW': "falling idx W" using fW by (auto simp: falling_Cons)
  have WS: "set W \<subseteq> set S"
  proof
    fix w assume "w \<in> set W"
    then have "idx w < idx v" "w \<in> set ?T" using wlt sub by auto
    then show "w \<in> set S" using sp(1) by auto
  qed
  have top: "owner idx (v # W) w m \<longleftrightarrow> w = v" if "m \<in> set (M @ [v])" for w m
    by (rule owner_top[OF fW]) (use that sp in auto)
  have ownS: "owner idx (v # W) w y \<longleftrightarrow> owner idx W w y" if "y \<in> set S" for w y
    by (rule owner_below) (use that sp in auto)
  have members: "mutual E v m" if "m \<in> set (M @ [v])" for m
    using own that top by fastforce
  let ?D = "V - set ?T" and ?D' = "V - set S"
  have D': "?D' = ?D \<union> set (M @ [v])" using sub sp by (auto dest: less_asym)
  have memb_closed: "E `` {m} \<subseteq> ?D'" if m: "m \<in> set (M @ [v])" for m
  proof
    fix x assume x: "x \<in> E `` {m}"
    have "m \<notin> set W" using m sp wlt by fastforce
    then have did: "did m = E `` {m}" using m d2 sub all by (cases "m = v") auto
    then have xV: "x \<in> V" using x d1 m sub by auto
    show "x \<in> ?D'"
    proof (cases "x \<in> set ?T")
      case True
      have "owner idx (v # W) v m" using top[OF m] by simp
      moreover have "m \<in> set ?T" "x \<in> did m \<inter> set ?T" using m x did True by auto
      ultimately have "low v \<le> idx x" using bk by blast
      then have "x \<notin> set S" using root sp(2) by force
      then show ?thesis using xV by simp
    qed (use xV in auto)
  qed
  have closed: "E `` ?D' \<subseteq> ?D'"
  proof
    fix x assume "x \<in> E `` ?D'"
    then obtain u where u: "u \<in> ?D'" "(u, x) \<in> E" by auto
    then consider "u \<in> ?D" | "u \<in> set (M @ [v])" unfolding D' by blast
    then show "x \<in> ?D'"
    proof cases
      case 1
      then have "x \<in> ?D" using cl u(2) by blast
      then show ?thesis unfolding D' by blast
    next
      case 2
      then show ?thesis using memb_closed u(2) by blast
    qed
  qed
  have comp: "in_components E ?D' = in_components E ?D \<union> (if M = [] then {} else set (M @ [v]))"
  proof -
    have old: "(\<exists>u\<in>?D'. u \<noteq> x \<and> mutual E x u) \<longleftrightarrow> (\<exists>u\<in>?D. u \<noteq> x \<and> mutual E x u)" if x: "x \<in> ?D" for x
    proof
      assume "\<exists>u\<in>?D'. u \<noteq> x \<and> mutual E x u"
      then obtain u where u: "u \<noteq> x" "mutual E x u" by blast
      have "u \<in> ?D" using closed_reach[OF _ cl x] u(2) unfolding mutual_def by blast
      then show "\<exists>u\<in>?D. u \<noteq> x \<and> mutual E x u" using u by blast
    qed (use D' in blast)
    have fresh: "(\<exists>u\<in>?D'. u \<noteq> x \<and> mutual E x u) \<longleftrightarrow> M \<noteq> []" if x: "x \<in> set (M @ [v])" for x
    proof
      assume "\<exists>u\<in>?D'. u \<noteq> x \<and> mutual E x u"
      then obtain u where u: "u \<in> ?D'" "u \<noteq> x" "mutual E x u" by blast
      have "u \<notin> ?D"
      proof
        assume "u \<in> ?D"
        then have "x \<in> ?D" using closed_reach[OF _ cl] u(3) unfolding mutual_def by blast
        then show False using x by auto
      qed
      then have "u \<in> set (M @ [v])" using u(1) D' by blast
      then show "M \<noteq> []" using u(2) x by auto
    next
      assume "M \<noteq> []"
      then obtain u where "u \<in> set (M @ [v])" "u \<noteq> x" using dist x by (cases M) auto
      moreover from this have "mutual E x u" using mutual_trans[OF mutual_sym[OF members[OF x]] members] by blast
      ultimately show "\<exists>u\<in>?D'. u \<noteq> x \<and> mutual E x u" using D' by blast
    qed
    show ?thesis
    proof (rule set_eqI)
      fix x
      consider (a) "x \<in> ?D" | (b) "x \<in> set (M @ [v])" | (c) "x \<notin> ?D'" using D' by blast
      then show "x \<in> in_components E ?D' \<longleftrightarrow> x \<in> in_components E ?D \<union> (if M = [] then {} else set (M @ [v]))"
      proof cases
        case a
        then have "x \<notin> set (M @ [v])" "x \<in> ?D'" using D' by auto
        then show ?thesis using old[OF a] a by (simp only: in_components_def mem_Collect_eq) auto
      next
        case b
        then have "x \<notin> ?D" "x \<in> ?D'" using D' by auto
        then show ?thesis using fresh[OF b] b by (simp only: in_components_def mem_Collect_eq) auto
      next
        case c
        then have "x \<notin> ?D" "x \<notin> set (M @ [v])" using D' by blast+
        then show ?thesis using c by (simp only: in_components_def mem_Collect_eq) auto
      qed
    qed
  qed
  have c5: "chain E W" using ch by (cases W) auto
  have c7: "\<forall>u\<in>V - set W. did u = E `` {u}" using d2 all by auto
  have c9: "\<forall>y\<in>set S. \<exists>w. owner idx W w y \<and> mutual E w y"
  proof
    fix y assume y: "y \<in> set S"
    then obtain w where "owner idx (v # W) w y" "mutual E w y" using own by auto
    then show "\<exists>w. owner idx W w y \<and> mutual E w y" using ownS[OF y] by blast
  qed
  have c10: "\<forall>y\<in>set S. \<forall>x\<in>did y \<inter> set S. \<forall>w. owner idx W w y \<longrightarrow> low w \<le> idx x"
  proof (intro ballI allI impI)
    fix y x w assume a: "y \<in> set S" "x \<in> did y \<inter> set S" "owner idx W w y"
    then have "owner idx (v # W) w y" "y \<in> set ?T" "x \<in> did y \<inter> set ?T" using ownS[OF a(1)] by auto
    then show "low w \<le> idx x" using bk by blast
  qed
  have c11: "\<forall>w\<in>set W. low w \<le> idx w \<and> (\<exists>u\<in>set S. idx u = low w \<and> (w, u) \<in> E\<^sup>*)"
  proof
    fix w assume w: "w \<in> set W"
    then obtain u where u: "low w \<le> idx w" "u \<in> set ?T" "idx u = low w" "(w, u) \<in> E\<^sup>*" using lw by auto
    have "idx u < idx v" using u wlt w by fastforce
    then have "u \<in> set S" using u(2) sp(1) by auto
    then show "low w \<le> idx w \<and> (\<exists>u\<in>set S. idx u = low w \<and> (w, u) \<in> E\<^sup>*)" using u by blast
  qed
  have "set S \<subseteq> V" using sub by auto
  from search_invI[OF this WS fS fW' c5 d1 c7 closed c9 c10 c11] comp P show ?thesis by simp
qed

text \<open>A node that is no root gives its low link to its parent.\<close>

lemma search_fold:
  assumes inv: "search_inv E V (v # p # W) S idx low did P"
    and all: "did v = E `` {v}" and low: "low v \<noteq> idx v"
  shows "search_inv E V (p # W) S idx (low(p := min (low p) (low v))) did P"
proof -
  have sub: "set S \<subseteq> V" "set (v # p # W) \<subseteq> set S" and fS: "falling idx S" and P: "P = in_components E (V - set S)"
    and d1: "\<forall>v\<in>V. did v \<subseteq> E `` {v} \<and> did v \<subseteq> V" and cl: "E `` (V - set S) \<subseteq> V - set S"
    and fW: "falling idx (v # p # W)" and ch: "chain E (v # p # W)"
    and d2: "\<forall>u\<in>V - set (v # p # W). did u = E `` {u}"
    and own: "\<forall>u\<in>set S. \<exists>w. owner idx (v # p # W) w u \<and> mutual E w u"
    and bk: "\<forall>u\<in>set S. \<forall>x\<in>did u \<inter> set S. \<forall>w. owner idx (v # p # W) w u \<longrightarrow> low w \<le> idx x"
    and lw: "\<forall>w\<in>set (v # p # W). low w \<le> idx w \<and> (\<exists>u\<in>set S. idx u = low w \<and> (w, u) \<in> E\<^sup>*)"
    using inv unfolding search_inv_def by blast+
  let ?low = "low(p := min (low p) (low v))"
  have lt: "idx p < idx v" and fp: "falling idx (p # W)" using fW by (auto simp: falling_Cons)
  have le: "?low w \<le> low w" for w by simp
  obtain u where u: "u \<in> set S" "idx u = low v" "(v, u) \<in> E\<^sup>*" and ult: "idx u < idx v"
    using lw low by fastforce
  obtain q where q: "owner idx (p # W) q u" "mutual E q u"
    using own u(1) owner_below[of idx u v "p # W", OF ult] by blast
  have pv: "mutual E p v"
  proof -
    have "(p, v) \<in> E\<^sup>*" using ch by auto
    moreover have "(q, p) \<in> E\<^sup>*" using chain_reach[of E p W q] ch q(1) by (auto simp: owner_def)
    then have "(v, p) \<in> E\<^sup>*" using u(3) q(2) unfolding mutual_def by (meson rtrancl_trans)
    ultimately show ?thesis by (simp add: mutual_def)
  qed
  have new_owner: "owner idx (p # W) p y" if "idx v \<le> idx y" for y
    using owner_top[OF fp, of y p] that lt by simp
  have c9: "\<forall>y\<in>set S. \<exists>w. owner idx (p # W) w y \<and> mutual E w y"
  proof
    fix y assume y: "y \<in> set S"
    show "\<exists>w. owner idx (p # W) w y \<and> mutual E w y"
    proof (cases "idx v \<le> idx y")
      case True
      obtain w where "owner idx (v # p # W) w y" "mutual E w y" using own y by blast
      then have "mutual E v y" using owner_top[OF fW True, of w] by simp
      from mutual_trans[OF pv this] show ?thesis using new_owner[OF True] by blast
    next
      case False
      obtain w where w: "owner idx (v # p # W) w y" "mutual E w y" using own y by blast
      then show ?thesis using owner_below[of idx y v "p # W" w] False by auto
    qed
  qed
  have c10: "\<forall>y\<in>set S. \<forall>x\<in>did y \<inter> set S. \<forall>w. owner idx (p # W) w y \<longrightarrow> ?low w \<le> idx x"
  proof (intro ballI allI impI)
    fix y x w assume a: "y \<in> set S" "x \<in> did y \<inter> set S" "owner idx (p # W) w y"
    show "?low w \<le> idx x"
    proof (cases "idx v \<le> idx y")
      case True
      have "owner idx (v # p # W) v y" using owner_top[OF fW True] by simp
      then have "low v \<le> idx x" using bk a by blast
      moreover have "w = p" using a(3) owner_top[OF fp, of y w] True lt by simp
      ultimately show ?thesis by simp
    next
      case False
      then have "owner idx (v # p # W) w y" using a(3) owner_below[of idx y v "p # W"] by simp
      then have "low w \<le> idx x" using bk a by blast
      then show ?thesis using le[of w] by linarith
    qed
  qed
  have c11: "\<forall>w\<in>set (p # W). ?low w \<le> idx w \<and> (\<exists>u\<in>set S. idx u = ?low w \<and> (w, u) \<in> E\<^sup>*)"
  proof
    fix w assume w: "w \<in> set (p # W)"
    obtain x where x: "low w \<le> idx w" "x \<in> set S" "idx x = low w" "(w, x) \<in> E\<^sup>*" using lw w by auto
    show "?low w \<le> idx w \<and> (\<exists>u\<in>set S. idx u = ?low w \<and> (w, u) \<in> E\<^sup>*)"
    proof (cases "w = p \<and> low v < low p")
      case True
      have "(p, u) \<in> E\<^sup>*" using pv u(3) unfolding mutual_def by (meson rtrancl_trans)
      then show ?thesis using True u x by (intro conjI bexI[of _ u]) auto
    next
      case False
      then have "?low w = low w" by auto
      then show ?thesis using x by auto
    qed
  qed
  have c7: "\<forall>u\<in>V - set (p # W). did u = E `` {u}" using d2 all by auto
  have c5: "chain E (p # W)" using ch by simp
  have "set (p # W) \<subseteq> set S" using sub by auto
  from search_invI[OF sub(1) this fS fp c5 d1 c7 cl c9 c10 c11 P] show ?thesis .
qed

text \<open>A finished path leaves no stack, and a search without a path has found every component.\<close>

lemma search_no_path:
  assumes "search_inv E V [] S idx low did P"
  shows "S = [] \<and> E `` V \<subseteq> V \<and> P = in_components E V"
  using assms unfolding search_inv_def owner_def by fastforce

lemma search_start: "search_inv E {} [] [] idx low did {}"
  by (simp add: search_inv_def falling_def in_components_def)

lemma components_cycles:
  assumes "E \<subseteq> N \<times> N"
  shows "v \<in> in_components E N \<or> (v, v) \<in> E \<longleftrightarrow> (v, v) \<in> E\<^sup>+"
proof
  assume "v \<in> in_components E N \<or> (v, v) \<in> E"
  then show "(v, v) \<in> E\<^sup>+"
  proof
    assume "v \<in> in_components E N"
    then obtain u where "u \<noteq> v" "(v, u) \<in> E\<^sup>*" "(u, v) \<in> E\<^sup>*" by (auto simp: in_components_def mutual_def)
    then have "(v, u) \<in> E\<^sup>+" by (simp add: rtrancl_eq_or_trancl)
    then show ?thesis using \<open>(u, v) \<in> E\<^sup>*\<close> by simp
  qed auto
next
  assume c: "(v, v) \<in> E\<^sup>+"
  then obtain w where w: "(v, w) \<in> E" "(w, v) \<in> E\<^sup>*" by (meson tranclD)
  then have "v \<in> N" "w \<in> N" using assms by auto
  then show "v \<in> in_components E N \<or> (v, v) \<in> E"
    using w by (cases "w = v") (auto simp: in_components_def mutual_def)
qed

end
