(* ===== verification/ArcSearch.thy ===== *)
theory ArcSearch
  imports ArcCycles ArcTarjan
begin

text \<open>
  The search of \<open>cycle_participants\<close> (\<open>src/arc_zones.rs\<close>) is Tarjan's: it never panics, and it
  returns the live objects that lie on a cycle of links between live objects.
\<close>

section \<open>The abstraction\<close>

definition succs :: "adjacency \<Rightarrow> decl_id \<Rightarrow> decl_id list" where
  "succs adjacent v = (case bm_get adjacent v of None \<Rightarrow> [] | Some ss \<Rightarrow> ss)"

definition edges :: "adjacency \<Rightarrow> (decl_id \<times> decl_id) set" where
  "edges adjacent = {(v, w). w \<in> set (succs adjacent v)}"

definition closed_graph :: "adjacency \<Rightarrow> bool" where
  "closed_graph adjacent \<longleftrightarrow> (\<forall>v w. (v, w) \<in> edges adjacent \<longrightarrow> bm_get adjacent w \<noteq> None)"

definition seen :: "tarjan \<Rightarrow> decl_id set" where
  "seen t = {v. bm_get (tj_index t) v \<noteq> None}"

definition idx :: "tarjan \<Rightarrow> decl_id \<Rightarrow> nat" where
  "idx t v = (case bm_get (tj_index t) v of None \<Rightarrow> 0 | Some i \<Rightarrow> i)"

definition low :: "tarjan \<Rightarrow> decl_id \<Rightarrow> nat" where
  "low t v = (case bm_get (tj_low t) v of None \<Rightarrow> 0 | Some i \<Rightarrow> i)"

definition did :: "adjacency \<Rightarrow> (decl_id \<times> nat) list \<Rightarrow> decl_id \<Rightarrow> decl_id set" where
  "did adjacent work v = (case map_of work v of
     Some slot \<Rightarrow> set (take slot (succs adjacent v)) | None \<Rightarrow> set (succs adjacent v))"

definition tarjan_ok :: "adjacency \<Rightarrow> (decl_id \<times> nat) list \<Rightarrow> tarjan \<Rightarrow> bool" where
  "tarjan_ok adjacent work t \<longleftrightarrow>
     search_inv (edges adjacent) (seen t) (map fst work) (tj_component t) (idx t) (low t)
       (did adjacent work) (set (tj_participants t))
     \<and> (\<forall>v\<in>seen t. bm_get (tj_low t) v \<noteq> None \<and> idx t v < tj_next t \<and> bm_get adjacent v \<noteq> None)
     \<and> set (tj_on t) = set (tj_component t)"

lemma edges_image: "edges adjacent `` {v} = set (succs adjacent v)"
  by (auto simp: edges_def)

lemma search_distinct: "search_inv E V W S i l d P \<Longrightarrow> distinct W \<and> distinct S \<and> set W \<subseteq> set S \<and> set S \<subseteq> V"
  unfolding search_inv_def using falling_distinct by blast

section \<open>Moves\<close>

lemma tarjan_push:
  assumes ok: "tarjan_ok adjacent work t" and new: "bm_get (tj_index t) c = None" and c: "bm_get adjacent c \<noteq> None"
    and edge: "work \<noteq> [] \<Longrightarrow> snd (hd work) < length (succs adjacent (fst (hd work)))
        \<and> succs adjacent (fst (hd work)) ! snd (hd work) = c"
    and empty: "work = [] \<Longrightarrow> tj_component t = []"
  shows "tarjan_ok adjacent ((c, 0) # (case work of [] \<Rightarrow> [] | (v, slot) # rest \<Rightarrow> (v, Suc slot) # rest)) (tj_push c t)"
proof -
  let ?work = "(c, 0) # (case work of [] \<Rightarrow> [] | (v, slot) # rest \<Rightarrow> (v, Suc slot) # rest)"
  have inv: "search_inv (edges adjacent) (seen t) (map fst work) (tj_component t) (idx t) (low t)
       (did adjacent work) (set (tj_participants t))"
    and nxt: "\<forall>v\<in>seen t. bm_get (tj_low t) v \<noteq> None \<and> idx t v < tj_next t \<and> bm_get adjacent v \<noteq> None"
    and on: "set (tj_on t) = set (tj_component t)"
    using ok by (simp_all add: tarjan_ok_def)
  have cV: "c \<notin> seen t" using new by (simp add: seen_def)
  have V: "seen (tj_push c t) = insert c (seen t)" by (auto simp: seen_def tj_push_def)
  have I: "idx (tj_push c t) = (idx t)(c := tj_next t)" "low (tj_push c t) = (low t)(c := tj_next t)"
    by (auto simp: idx_def low_def tj_push_def fun_eq_iff)
  have W: "map fst ?work = c # map fst work" by (simp split: list.splits)
  have D: "\<forall>v\<in>seen t. did adjacent ?work v =
      (if map fst work \<noteq> [] \<and> v = hd (map fst work) then insert c (did adjacent work v) else did adjacent work v)"
  proof
    fix v assume v: "v \<in> seen t"
    then have "v \<noteq> c" using cV by auto
    then show "did adjacent ?work v =
      (if map fst work \<noteq> [] \<and> v = hd (map fst work) then insert c (did adjacent work v) else did adjacent work v)"
      using edge by (cases work) (auto simp: did_def take_Suc_conv_app_nth)
  qed
  have "search_inv (edges adjacent) (insert c (seen t)) (c # map fst work) (c # tj_component t)
      ((idx t)(c := tj_next t)) ((low t)(c := tj_next t)) (did adjacent ?work) (set (tj_participants t))"
  proof (rule search_push[OF inv cV _ _ _ D])
    show "\<forall>v\<in>seen t. idx t v < tj_next t" using nxt by blast
    show "(hd (map fst work), c) \<in> edges adjacent" if "map fst work \<noteq> []"
      using edge that by (auto simp: edges_def hd_map in_set_conv_nth)
    show "tj_component t = []" if "map fst work = []" using empty that by simp
    show "did adjacent ?work c = {}" by (simp add: did_def)
  qed
  moreover have "bm_get (tj_low (tj_push c t)) v \<noteq> None \<and> idx (tj_push c t) v < tj_next (tj_push c t)
      \<and> bm_get adjacent v \<noteq> None" if "v \<in> insert c (seen t)" for v
    using that nxt c unfolding I by (auto simp: tj_push_def less_SucI)
  ultimately show ?thesis
    unfolding tarjan_ok_def V I W using on by (simp add: tj_push_def)
qed

lemma did_step:
  assumes "slot < length (succs adjacent v)"
  shows "did adjacent ((v, Suc slot) # rest) =
    (did adjacent ((v, slot) # rest))(v := insert (succs adjacent v ! slot) (did adjacent ((v, slot) # rest) v))"
  using assms by (auto simp: did_def fun_eq_iff take_Suc_conv_app_nth)

lemma tarjan_back:
  assumes ok: "tarjan_ok adjacent ((v, slot) # rest) t" and slot: "slot < length (succs adjacent v)"
    and x: "succs adjacent v ! slot \<in> set (tj_component t)"
  shows "\<exists>t'. tj_back v (succs adjacent v ! slot) t = Ok t' \<and> tarjan_ok adjacent ((v, Suc slot) # rest) t'
     \<and> seen t' = seen t"
proof -
  let ?x = "succs adjacent v ! slot"
  have inv: "search_inv (edges adjacent) (seen t) (v # map fst rest) (tj_component t) (idx t) (low t)
       (did adjacent ((v, slot) # rest)) (set (tj_participants t))"
    and nxt: "\<forall>v\<in>seen t. bm_get (tj_low t) v \<noteq> None \<and> idx t v < tj_next t \<and> bm_get adjacent v \<noteq> None"
    and on: "set (tj_on t) = set (tj_component t)"
    using ok by (simp_all add: tarjan_ok_def)
  have vx: "v \<in> seen t" "?x \<in> seen t" using search_distinct[OF inv] x by auto
  then obtain i l where i: "bm_get (tj_index t) ?x = Some i" and l: "bm_get (tj_low t) v = Some l"
    using nxt by (auto simp: seen_def)
  let ?t = "t\<lparr>tj_low := bm_insert v (min l i) (tj_low t)\<rparr>"
  have "tj_back v ?x t = Ok ?t" using i l by (simp add: tj_back_def)
  moreover have "low ?t = (low t)(v := min (low t v) (idx t ?x))"
    using i l by (auto simp: low_def idx_def fun_eq_iff)
  moreover have "idx ?t = idx t" "seen ?t = seen t" by (auto simp: idx_def seen_def fun_eq_iff)
  moreover have "(v, ?x) \<in> edges adjacent" using slot by (simp add: edges_def)
  ultimately show ?thesis
    using search_back[OF inv x] nxt on did_step[OF slot, of rest] by (auto simp: tarjan_ok_def)
qed

lemma tarjan_skip:
  assumes ok: "tarjan_ok adjacent ((v, slot) # rest) t" and slot: "slot < length (succs adjacent v)"
    and x: "succs adjacent v ! slot \<in> seen t" "succs adjacent v ! slot \<notin> set (tj_component t)"
  shows "tarjan_ok adjacent ((v, Suc slot) # rest) t"
proof -
  have inv: "search_inv (edges adjacent) (seen t) (v # map fst rest) (tj_component t) (idx t) (low t)
       (did adjacent ((v, slot) # rest)) (set (tj_participants t))"
    using ok by (simp add: tarjan_ok_def)
  have "(v, succs adjacent v ! slot) \<in> edges adjacent" using slot by (simp add: edges_def)
  from search_skip[OF inv _ this] x have "search_inv (edges adjacent) (seen t) (v # map fst rest) (tj_component t)
      (idx t) (low t) (did adjacent ((v, Suc slot) # rest)) (set (tj_participants t))"
    unfolding did_step[OF slot] by blast
  then show ?thesis using ok by (simp add: tarjan_ok_def)
qed

lemma tj_pop_split:
  "v \<notin> set M \<Longrightarrow> tj_pop v (M @ v # S) on members = (S, filter (\<lambda>y. y \<notin> set (M @ [v])) on, members @ M @ [v])"
  by (induction M arbitrary: on members) (auto simp: bs_remove_def filter_filter intro: filter_cong)

lemma set_fold_insert [simp]: "set (fold bs_insert xs s) = set xs \<union> set s"
  by (induction xs arbitrary: s) auto

lemma did_finish:
  assumes "length (succs adjacent v) \<le> slot" and "v \<notin> fst ` set rest"
  shows "did adjacent ((v, slot) # rest) = did adjacent rest" and "did adjacent rest v = edges adjacent `` {v}"
  using assms by (auto simp: did_def fun_eq_iff edges_image map_of_eq_None_iff[THEN iffD2])

lemma tarjan_finish:
  assumes ok: "tarjan_ok adjacent ((v, slot) # rest) t" and slot: "length (succs adjacent v) \<le> slot"
  shows "\<exists>t'. tj_finish v rest t = Ok t' \<and> tarjan_ok adjacent rest t' \<and> seen t' = seen t"
proof -
  have inv: "search_inv (edges adjacent) (seen t) (v # map fst rest) (tj_component t) (idx t) (low t)
       (did adjacent ((v, slot) # rest)) (set (tj_participants t))"
    and nxt: "\<forall>v\<in>seen t. bm_get (tj_low t) v \<noteq> None \<and> idx t v < tj_next t \<and> bm_get adjacent v \<noteq> None"
    and on: "set (tj_on t) = set (tj_component t)"
    using ok by (simp_all add: tarjan_ok_def)
  have dist: "v \<notin> fst ` set rest" "distinct (tj_component t)" "v \<in> set (tj_component t)"
    and WV: "insert v (fst ` set rest) \<subseteq> seen t"
    using search_distinct[OF inv] by auto
  note did = did_finish[OF slot dist(1)]
  have inv': "search_inv (edges adjacent) (seen t) (v # map fst rest) (tj_component t) (idx t) (low t)
       (did adjacent rest) (set (tj_participants t))" using inv unfolding did(1) .
  obtain l i where l: "bm_get (tj_low t) v = Some l" and i: "bm_get (tj_index t) v = Some i"
    using nxt WV by (auto simp: seen_def)
  have li: "low t v = l" "idx t v = i" using l i by (simp_all add: low_def idx_def)
  have lw: "\<forall>w\<in>set (v # map fst rest). low t w \<le> idx t w" and fW: "falling (idx t) (v # map fst rest)"
    using inv by (simp_all add: search_inv_def)
  obtain t1 where t1: "(case rest of [] \<Rightarrow> Ok t
       | (parent, slot) # rest' \<Rightarrow>
           res_bind (expect (bm_get (tj_low t) parent)) (\<lambda>parent_low.
             Ok (t\<lparr>tj_low := bm_insert parent (min parent_low l) (tj_low t)\<rparr>))) = (Ok t1 :: tarjan az_res)"
    and same: "tj_index t1 = tj_index t" "tj_component t1 = tj_component t" "tj_on t1 = tj_on t"
      "tj_participants t1 = tj_participants t" "tj_next t1 = tj_next t"
      "\<forall>u. bm_get (tj_low t) u \<noteq> None \<longrightarrow> bm_get (tj_low t1) u \<noteq> None"
    and low1: "low t1 = (case rest of [] \<Rightarrow> low t | p # rest' \<Rightarrow> (low t)(fst p := min (low t (fst p)) l))"
  proof (cases rest)
    case Nil
    then show ?thesis using that[of t] by simp
  next
    case (Cons p rest')
    obtain parent sp where p: "p = (parent, sp)" by (cases p)
    have "parent \<in> seen t" using WV Cons p by auto
    then obtain pl where pl: "bm_get (tj_low t) parent = Some pl" using nxt by auto
    show ?thesis
    proof (rule that[of "t\<lparr>tj_low := bm_insert parent (min pl l) (tj_low t)\<rparr>"])
      show "low (t\<lparr>tj_low := bm_insert parent (min pl l) (tj_low t)\<rparr>) =
          (case rest of [] \<Rightarrow> low t | p # rest' \<Rightarrow> (low t)(fst p := min (low t (fst p)) l))"
        using pl by (auto simp: low_def fun_eq_iff Cons p)
    qed (simp_all add: Cons p pl)
  qed
  have fin: "tj_finish v rest t = Ok (if l = i then tj_close v t1 else t1)"
    unfolding tj_finish_def using l i same(1) t1 by simp
  have seen1: "seen t1 = seen t" "idx t1 = idx t" using same(1) by (auto simp: seen_def idx_def fun_eq_iff)
  show ?thesis
  proof (cases "l = i")
    case True
    obtain M S where S: "tj_component t = M @ v # S" using dist(3) split_list by metis
    then have vM: "v \<notin> set M" using dist(2) by simp
    have "low t1 = low t"
    proof (cases rest)
      case (Cons p rest')
      then have "low t (fst p) \<le> idx t (fst p)" "idx t (fst p) < idx t v" using lw fW by (auto simp: falling_Cons)
      then have "min (low t (fst p)) l = low t (fst p)" using li True by simp
      then show ?thesis by (simp add: low1 Cons)
    qed (simp add: low1)
    moreover have "search_inv (edges adjacent) (seen t) (map fst rest) S (idx t) (low t) (did adjacent rest)
        (set (tj_participants t) \<union> (if M = [] then {} else set (M @ [v])))"
      by (rule search_close[OF inv'[unfolded S] did(2)]) (use li True in simp)
    moreover have close: "tj_close v t1 = t1\<lparr>tj_component := S, tj_on := filter (\<lambda>y. y \<notin> set (M @ [v])) (tj_on t),
        tj_participants := (if 1 < length (M @ [v]) then fold bs_insert (M @ [v]) (tj_participants t)
          else tj_participants t)\<rparr>"
      by (simp add: tj_close_def same S tj_pop_split[OF vM])
    moreover have "set (tj_participants (tj_close v t1)) =
        set (tj_participants t) \<union> (if M = [] then {} else set (M @ [v]))"
      unfolding close by auto
    moreover have "set (tj_on (tj_close v t1)) = set S"
      unfolding close using on S dist(2) by auto
    moreover have "tj_component (tj_close v t1) = S" "tj_low (tj_close v t1) = tj_low t1"
      "tj_next (tj_close v t1) = tj_next t" unfolding close using same by simp_all
    moreover from this have "low (tj_close v t1) = low t1" "seen (tj_close v t1) = seen t" "idx (tj_close v t1) = idx t"
      using seen1 by (simp_all add: low_def seen_def idx_def fun_eq_iff)
    ultimately show ?thesis using fin True nxt same(6) by (auto simp: tarjan_ok_def)
  next
    case False
    have "rest \<noteq> []"
    proof
      assume e: "rest = []"
      obtain u where u: "u \<in> set (tj_component t)" "idx t u = low t v" using inv unfolding search_inv_def by auto
      then obtain w where "owner (idx t) [v] w u" using inv unfolding search_inv_def e by auto
      then have "idx t v \<le> low t v" using u by (auto simp: owner_def)
      then show False using lw li False by simp
    qed
    then obtain p rest' where r: "rest = p # rest'" by (cases rest) auto
    have inv2: "search_inv (edges adjacent) (seen t) (v # fst p # map fst rest') (tj_component t) (idx t) (low t)
       (did adjacent rest) (set (tj_participants t))" using inv' by (simp add: r)
    have "search_inv (edges adjacent) (seen t) (fst p # map fst rest') (tj_component t) (idx t)
       ((low t)(fst p := min (low t (fst p)) (low t v))) (did adjacent rest) (set (tj_participants t))"
      by (rule search_fold[OF inv2 did(2)]) (use li False in simp)
    then have "tarjan_ok adjacent rest t1"
      using nxt on same seen1 low1 li r by (auto simp: tarjan_ok_def)
    then show ?thesis using fin False seen1 by auto
  qed
qed


section \<open>The search\<close>

lemma tarjan_top:
  assumes "tarjan_ok adjacent ((v, slot) # rest) t"
  shows "bm_get adjacent v = Some (succs adjacent v)"
proof -
  have inv: "search_inv (edges adjacent) (seen t) (v # map fst rest) (tj_component t) (idx t) (low t)
       (did adjacent ((v, slot) # rest)) (set (tj_participants t))"
    using assms by (simp add: tarjan_ok_def)
  have "v \<in> seen t" using search_distinct[OF inv] by auto
  then show ?thesis using assms by (auto simp: tarjan_ok_def succs_def)
qed

lemma tj_run_correct:
  "closed_graph adjacent \<Longrightarrow> tarjan_ok adjacent work t \<Longrightarrow>
     \<exists>t'. tj_run adjacent work t = Ok t' \<and> tarjan_ok adjacent [] t' \<and> seen t \<subseteq> seen t'"
proof (induction adjacent work t rule: tj_run.induct)
  case (1 adjacent t)
  then show ?case by simp
next
  case (2 adjacent v slot rest t)
  note top = tarjan_top[OF 2(6)]
  let ?ss = "succs adjacent v"
  show ?case
  proof (cases "slot < length ?ss")
    case True
    let ?c = "?ss ! slot"
    show ?thesis
    proof (cases "bm_get (tj_index t) ?c = None")
      case new: True
      have c: "bm_get adjacent ?c \<noteq> None"
        using 2(5) nth_mem[OF True] by (auto simp: closed_graph_def edges_def)
      have "tarjan_ok adjacent ((?c, 0) # (v, slot + 1) # rest) (tj_push ?c t)"
        using tarjan_push[OF 2(6) new c] True by simp
      from 2(1)[OF top True new 2(5) this] obtain t' where
        "tj_run adjacent ((?c, 0) # (v, slot + 1) # rest) (tj_push ?c t) = Ok t'" "tarjan_ok adjacent [] t'"
        "seen (tj_push ?c t) \<subseteq> seen t'" by blast
      moreover have "seen t \<subseteq> seen (tj_push ?c t)" by (auto simp: seen_def tj_push_def)
      ultimately show ?thesis by (auto simp: tj_run.simps(2) top True new)
    next
      case old: False
      show ?thesis
      proof (cases "bs_contains (tj_on t) ?c")
        case on: True
        then have "?c \<in> set (tj_component t)" using 2(6) by (simp add: tarjan_ok_def bs_contains_def)
        from tarjan_back[OF 2(6) True this] obtain t1 where t1: "tj_back v ?c t = Ok t1"
          "tarjan_ok adjacent ((v, slot + 1) # rest) t1" "seen t1 = seen t" by auto
        show ?thesis
          using 2(2)[OF top True old on t1(1) 2(5) t1(2)] t1(3) by (auto simp: tj_run.simps(2) top True old on t1(1))
      next
        case off: False
        then have "?c \<notin> set (tj_component t)" "?c \<in> seen t"
          using 2(6) old by (simp_all add: tarjan_ok_def bs_contains_def seen_def)
        then have "tarjan_ok adjacent ((v, slot + 1) # rest) t" using tarjan_skip[OF 2(6) True] by simp
        then show ?thesis using 2(3)[OF top True old off 2(5)] old off by (auto simp: tj_run.simps(2) top True)
      qed
    qed
  next
    case False
    from tarjan_finish[OF 2(6)] False obtain t1 where t1: "tj_finish v rest t = Ok t1" "tarjan_ok adjacent rest t1"
      "seen t1 = seen t" by auto
    show ?thesis using 2(4)[OF top False t1(1) 2(5) t1(2)] t1(3) by (auto simp: tj_run.simps(2) top False t1(1))
  qed
qed

lemma tarjan_ok_no_path: "tarjan_ok adjacent [] t \<Longrightarrow> tj_component t = []"
  using search_no_path by (fastforce simp: tarjan_ok_def)

lemma tj_starts_correct:
  assumes "closed_graph adjacent" and "\<forall>v\<in>set vs. bm_get adjacent v \<noteq> None"
  shows "tarjan_ok adjacent [] t \<Longrightarrow>
     \<exists>t'. tj_starts adjacent vs t = Ok t' \<and> tarjan_ok adjacent [] t' \<and> seen t \<union> set vs \<subseteq> seen t'"
  using assms(2)
proof (induction vs arbitrary: t)
  case (Cons v vs)
  show ?case
  proof (cases "bm_get (tj_index t) v = None")
    case True
    have "tarjan_ok adjacent [(v, 0)] (tj_push v t)"
      using tarjan_push[OF Cons.prems(1) True] Cons.prems tarjan_ok_no_path by simp
    from tj_run_correct[OF assms(1) this] obtain t1 where t1: "tj_run adjacent [(v, 0)] (tj_push v t) = Ok t1"
      "tarjan_ok adjacent [] t1" "seen (tj_push v t) \<subseteq> seen t1" by blast
    have "insert v (seen t) \<subseteq> seen (tj_push v t)" by (auto simp: seen_def tj_push_def)
    moreover obtain t' where "tj_starts adjacent vs t1 = Ok t'" "tarjan_ok adjacent [] t'" "seen t1 \<union> set vs \<subseteq> seen t'"
      using Cons.IH[OF t1(2)] Cons.prems(2) by auto
    ultimately show ?thesis using t1 True by (intro exI[of _ t']) (simp, blast)
  next
    case False
    then have "v \<in> seen t" by (simp add: seen_def)
    then show ?thesis using Cons.IH[OF Cons.prems(1)] Cons.prems(2) False by auto
  qed
qed simp

lemma tarjan_empty: "tarjan_ok adjacent [] tj_empty"
  using search_start[of "edges adjacent"] by (simp add: tarjan_ok_def tj_empty_def seen_def)

section \<open>Cycle participants\<close>

text \<open>The links between live objects.\<close>

definition live_edges :: "decl_id set \<Rightarrow> links \<Rightarrow> (decl_id \<times> decl_id) set" where
  "live_edges L links = {(u, w). u \<in> L \<and> w \<in> L \<and> (\<exists>ts. bm_get links u = Some ts \<and> w \<in> set ts)}"

lemma adjacency_get:
  "bm_get (az_adjacency live links) v =
     (if v \<in> set live then Some (case bm_get links v of None \<Rightarrow> [] | Some ts \<Rightarrow> filter (bs_contains live) ts) else None)"
proof -
  have "bm_get (map (\<lambda>v. (v, f v)) xs) v = (if v \<in> set xs then Some (f v) else None)" for f :: "decl_id \<Rightarrow> decl_id list" and xs
    by (induction xs) auto
  then show ?thesis by (simp add: az_adjacency_def)
qed

lemma adjacency_edges: "edges (az_adjacency live links) = live_edges (set live) links"
  by (auto simp: edges_def succs_def adjacency_get live_edges_def bs_contains_def split: option.splits if_splits)

lemma cycle_participants_correct:
  assumes "\<forall>v\<in>set live. bm_get phases v = Some Ph_Live"
  shows "\<exists>ps. az_cycle_participants live links phases = Ok ps
     \<and> set ps = {v \<in> set live. (v, v) \<in> (live_edges (set live) links)\<^sup>+}"
proof -
  let ?live = "fold bs_insert live []" and ?E = "live_edges (set live) links"
  let ?adj = "az_adjacency ?live links"
  have E: "edges ?adj = ?E" by (simp add: adjacency_edges)
  have closed: "closed_graph ?adj" unfolding closed_graph_def E by (auto simp: adjacency_get live_edges_def)
  have "\<forall>v\<in>set ?live. bm_get ?adj v \<noteq> None" by (simp add: adjacency_get)
  from tj_starts_correct[OF closed this tarjan_empty] obtain t where
    t: "tj_starts ?adj ?live tj_empty = Ok t" "tarjan_ok ?adj [] t" "set live \<subseteq> seen t" by auto
  have "seen t \<subseteq> set live" using t(2) by (auto simp: tarjan_ok_def adjacency_get split: if_splits)
  then have V: "seen t = set live" using t(3) by blast
  have "set (tj_participants t) = in_components ?E (set live)"
    using search_no_path t(2) unfolding tarjan_ok_def E V by fastforce
  moreover have "self_linked phases links v \<longleftrightarrow> (v, v) \<in> ?E" if "v \<in> set live" for v
    using that assms by (auto simp: self_linked_def live_edges_def bs_contains_def split: option.splits)
  ultimately have "set (fold bs_insert (filter (self_linked phases links) ?live) (tj_participants t)) =
      {v. v \<in> in_components ?E (set live) \<or> (v, v) \<in> ?E}"
    by (auto simp: in_components_def live_edges_def)
  also have "\<dots> = {v \<in> set live. (v, v) \<in> ?E\<^sup>+}"
  proof -
    have sub: "?E \<subseteq> set live \<times> set live" by (auto simp: live_edges_def)
    then have "(v, v) \<in> ?E\<^sup>+ \<Longrightarrow> v \<in> set live" for v using trancl_subset_Sigma[OF sub] by blast
    then show ?thesis using components_cycles[OF sub] by blast
  qed
  finally show ?thesis using t(1) by (auto simp: az_cycle_participants_def Let_def)
qed

end
