(* ===== verification/ArcDrive.thy ===== *)
theory ArcDrive
  imports ArcSearch
begin

text \<open>
  Driving a run of \<open>src/arc_zones.rs\<close> to its end (\<open>finish\<close>) and its canonical texts.  An operation
  never touches the script, the cursor or the model, which is why \<open>finish\<close> ends.
\<close>

section \<open>What operations keep\<close>

definition az_frame :: "arc_run \<Rightarrow> string \<times> arc_model \<times> arc_op list \<times> nat" where
  "az_frame r = (ar_fingerprint r, ar_model r, ar_script r, ar_cursor r)"

lemma record_frame [simp]: "az_frame (fst (az_record r batch)) = az_frame r" "az_record r batch = (r', b) \<Longrightarrow> az_frame r' = az_frame r"
  by (auto simp: az_record_def az_frame_def)

lemma finalize_one_frame: "az_finalize_one r i = Ok r' \<Longrightarrow> az_frame r' = az_frame r \<and> ar_open r' = ar_open r
    \<and> ar_events r' = ar_events r \<and> ar_seq r' = ar_seq r \<and> ar_status r' = ar_status r"
  by (auto simp: az_finalize_one_def res_iff az_frame_def split: if_splits)

lemma cascade_frame: "az_cascade waiting r batch = Ok (r', b) \<Longrightarrow> az_frame r' = az_frame r \<and> ar_open r' = ar_open r
    \<and> ar_events r' = ar_events r \<and> ar_seq r' = ar_seq r \<and> ar_status r' = ar_status r"
proof (induction waiting r batch rule: az_cascade.induct)
  case (2 t waiting r batch)
  then show ?case
    by (auto split: if_splits res.splits dest!: finalize_one_frame)
qed simp

lemma finalize_frame: "az_finalize i cause r batch = Ok (r', b) \<Longrightarrow> az_frame r' = az_frame r \<and> ar_open r' = ar_open r
    \<and> ar_events r' = ar_events r \<and> ar_seq r' = ar_seq r \<and> ar_status r' = ar_status r"
  by (auto simp: az_finalize_def res_iff dest!: finalize_one_frame cascade_frame)

lemma settle_frame: "az_settle i r batch = Ok (r', b) \<Longrightarrow> az_frame r' = az_frame r"
  by (auto simp: az_settle_def res_iff split: if_splits prod.splits dest!: finalize_frame dest: record_frame(2))

lemma drain_frame: "az_drain is r batch = Ok (r', b) \<Longrightarrow> az_frame r' = az_frame r \<and> ar_open r' = ar_open r
    \<and> ar_events r' = ar_events r \<and> ar_seq r' = ar_seq r \<and> ar_status r' = ar_status r"
proof (induction "is" r batch rule: az_drain.induct)
  case (2 i "is" r batch)
  then show ?case by (auto simp: res_iff split: if_splits prod.splits dest!: finalize_frame)
qed simp

lemma leave_frame: "az_leave zone xs r = Ok (r', b) \<Longrightarrow> az_frame r' = az_frame r"
  by (auto simp: az_leave_def res_iff Let_def az_frame_def az_record_def split: prod.splits dest!: drain_frame)

lemma release_frame: "az_release i r = Ok (r', b) \<Longrightarrow> az_frame r' = az_frame r"
  by (auto simp: az_release_def res_iff Let_def az_frame_def split: if_splits dest!: settle_frame)

lemma unlink_frame: "az_unlink u t r = Ok (r', b) \<Longrightarrow> az_frame r' = az_frame r"
  by (auto simp: az_unlink_def res_iff Let_def az_frame_def split: if_splits dest!: settle_frame)

lemma exit_frame: "az_exit_zone zone r = Ok (r', b) \<Longrightarrow> az_frame r' = az_frame r"
  by (auto simp: az_exit_zone_def res_iff Let_def split: if_splits option.splits dest!: leave_frame)
     (auto simp: az_reject_def res_iff az_frame_def az_record_def)

lemma apply_frame: "az_apply op r = Ok (r', batch) \<Longrightarrow> az_frame r' = az_frame r"
proof (cases op)
  case (Op_Release i)
  then show "az_apply op r = Ok (r', batch) \<Longrightarrow> ?thesis" using release_frame by simp
next
  case (Op_Unlink u t)
  then show "az_apply op r = Ok (r', batch) \<Longrightarrow> ?thesis" using unlink_frame by simp
next
  case (Op_ExitZone zone)
  then show "az_apply op r = Ok (r', batch) \<Longrightarrow> ?thesis" using exit_frame by simp
qed (auto simp: az_construct_def az_retain_def az_link_def az_demote_def az_enter_zone_def res_iff az_frame_def
      az_record_def split: if_splits)

lemma step_progress:
  assumes "az_step r = (Ok (e # es), r')"
  shows "ar_script r' = ar_script r \<and> ar_cursor r' = ar_cursor r + 1 \<and> ar_cursor r < length (ar_script r)"
proof -
  from assms obtain r2 where "az_apply (ar_script r ! ar_cursor r) (r\<lparr>ar_cursor := ar_cursor r + 1\<rparr>) = Ok (r2, e # es)"
    and "r' = r2" and "\<not> az_quiescent r"
    by (auto simp: az_step_def Let_def split: res.splits if_splits prod.splits)
  then show ?thesis using apply_frame by (auto simp: az_frame_def az_quiescent_def)
qed

section \<open>Finishing\<close>

function az_finish_loop :: "arc_run \<Rightarrow> unit az_res \<times> arc_run" where
  "az_finish_loop r =
     (if ar_status r \<noteq> Rs_Running then (Ok (), r)
      else (case az_step r of
              (Err e, r') \<Rightarrow> (Err e, r')
            | (Panic, r') \<Rightarrow> (Panic, r')
            | (Ok batch, r') \<Rightarrow>
                (case batch of
                   [] \<Rightarrow> (Err Az_RunNotFinished, r')
                 | e # es \<Rightarrow> az_finish_loop r')))"
  by pat_completeness auto

termination
  by (relation "measure (\<lambda>r. length (ar_script r) - ar_cursor r)") (auto dest!: sym[of _ "az_step _"] step_progress)

declare az_finish_loop.simps [simp del]

definition az_finish :: "arc_run \<Rightarrow> arc_summary az_res \<times> arc_run" where
  "az_finish r =
     (case az_authenticate r of
        Err e \<Rightarrow> (Err e, r)
      | Panic \<Rightarrow> (Panic, r)
      | Ok _ \<Rightarrow>
          (case az_finish_loop r of
             (Err e, r') \<Rightarrow> (Err e, r')
           | (Panic, r') \<Rightarrow> (Panic, r')
           | (Ok _, r') \<Rightarrow>
               (Ok \<lparr>ay_status = (if ar_status r' = Rs_Rejected then As_Rejected else As_Complete),
                    ay_rejected_witness = ar_witness r', ay_totals = ar_totals r'\<rparr>, r')))"

section \<open>Texts\<close>

fun cause_name :: "finalize_cause \<Rightarrow> string" where
  "cause_name Fc_Release = ''release''"
| "cause_name Fc_Cascade = ''cascade''"
| "cause_name Fc_ZoneExit = ''zone_exit''"

fun az_event_json :: "arc_event \<Rightarrow> string" where
  "az_event_json (Av_Constructed i) = json_object [(''kind'', quote_json ''constructed''), (''object'', quote_json i)]"
| "az_event_json (Av_Retained i) = json_object [(''kind'', quote_json ''retained''), (''object'', quote_json i)]"
| "az_event_json (Av_Released i) = json_object [(''kind'', quote_json ''released''), (''object'', quote_json i)]"
| "az_event_json (Av_Linked u t) =
     json_object [(''kind'', quote_json ''linked''), (''from'', quote_json u), (''to'', quote_json t)]"
| "az_event_json (Av_Unlinked u t) =
     json_object [(''kind'', quote_json ''unlinked''), (''from'', quote_json u), (''to'', quote_json t)]"
| "az_event_json (Av_EscapedToUnique i) =
     json_object [(''kind'', quote_json ''escaped_to_unique''), (''object'', quote_json i)]"
| "az_event_json (Av_Finalized i cause) =
     json_object [(''kind'', quote_json ''finalized''), (''object'', quote_json i), (''cause'', quote_json (cause_name cause))]"
| "az_event_json (Av_ZoneEntered z) = json_object [(''kind'', quote_json ''zone_entered''), (''zone'', quote_json z)]"
| "az_event_json (Av_ZoneExited z) = json_object [(''kind'', quote_json ''zone_exited''), (''zone'', quote_json z)]"
| "az_event_json (Av_ZoneRejectedCycle z witness) =
     json_object [(''kind'', quote_json ''zone_rejected_cycle''), (''zone'', quote_json z), (''witness'', quote_json witness)]"

fun status_name :: "run_status \<Rightarrow> string" where
  "status_name Rs_Running = ''running''"
| "status_name Rs_Complete = ''complete''"
| "status_name Rs_Rejected = ''rejected''"

definition az_trace_json :: "arc_run \<Rightarrow> string" where
  "az_trace_json r =
     json_object
       [(''schema'', quote_json ARC_ZONES_TRACE_V1),
        (''model_fingerprint'', [CHR 0x22] @ hex_bytes (ar_fingerprint r) @ [CHR 0x22]),
        (''status'', quote_json (status_name (ar_status r))),
        (''rejected_witness'', case ar_witness r of None \<Rightarrow> ''null'' | Some w \<Rightarrow> quote_json w),
        (''events'', json_array (map az_event_json (ar_events r)))]"

definition az_trace_digest :: "(string \<Rightarrow> string) \<Rightarrow> arc_run \<Rightarrow> string" where
  "az_trace_digest sha256 r = az_fingerprint sha256 AZ_TRACE_FINGERPRINT_DOMAIN (az_trace_json r)"

text \<open>The messages of the errors.\<close>

fun az_error_text :: "arc_error \<Rightarrow> string" where
  "az_error_text Az_MissingRoot = ''arc-zone model has no root zone''"
| "az_error_text Az_MultipleRoots = ''arc-zone model has more than one root zone''"
| "az_error_text Az_InvalidIdentity = ''arc-zone identity is empty or contains NUL''"
| "az_error_text Az_DuplicateZone = ''arc-zone model declares a duplicate zone identity''"
| "az_error_text Az_DuplicateObject = ''arc-zone model declares a duplicate object identity''"
| "az_error_text Az_UnknownZone = ''arc-zone model references an unknown zone''"
| "az_error_text Az_UnknownObject = ''arc-zone script references an unknown object''"
| "az_error_text Az_ZoneCycle = ''arc-zone zone tree contains a cycle''"
| "az_error_text Az_ZoneBoundExceeded = ''arc-zone zone count is outside bounds''"
| "az_error_text Az_ObjectBoundExceeded = ''arc-zone object count is outside bounds''"
| "az_error_text Az_ScriptBoundExceeded = ''arc-zone script length is outside bounds''"
| "az_error_text Az_WorkBudgetExceeded = ''arc-zone model work budget is exceeded''"
| "az_error_text Az_NoOpenZone = ''arc-zone operation requires an open zone''"
| "az_error_text Az_ZoneAlreadyOpen = ''arc-zone is already open on the zone stack''"
| "az_error_text Az_ParentNotOpen = ''arc-zone parent zone is not the innermost open zone''"
| "az_error_text Az_ZoneNotOpen = ''arc-zone exit names a zone that is not open''"
| "az_error_text Az_UnbalancedZoneExit = ''arc-zone exit skips an innermost open child zone''"
| "az_error_text Az_AlreadyConstructed = ''arc-zone object is constructed twice''"
| "az_error_text Az_DeadOrUnconstructedObject = ''arc-zone object is unconstructed or finalized''"
| "az_error_text Az_ForeignZoneObject = ''arc-zone operation targets another zone'' @ [CHR 0x27] @ ''s object''"
| "az_error_text Az_DoubleRelease = ''arc-zone release exceeds outstanding references''"
| "az_error_text Az_SharingWithoutShareable = ''cross-zone or cross-thread sharing requires an explicit Shareable annotation''"
| "az_error_text Az_SharedUseOfUnique = ''demoted unique object cannot regain shared aliases''"
| "az_error_text Az_UnknownLiveLink = ''arc-zone unlink names no live payload link''"
| "az_error_text Az_DuplicateLiveLink = ''arc-zone declares a duplicate live payload link''"
| "az_error_text Az_DemotionNotApplicable = ''escape demotion requires a sole-held zone-local shared object''"
| "az_error_text Az_RunNotFinished = ''arc-zone script ended before the root zone exited''"
| "az_error_text Az_FrameBindingMismatch = ''arc-zone run binding does not match its model''"

end
