(* ===== verification/ArcInv.thy ===== *)
theory ArcInv
  imports ArcDrive
begin

text \<open>
  The invariant of a run of \<open>src/arc_zones.rs\<close>.  Links start and end at live objects, inner objects
  link outwards, in-degrees are exact, every live object has a reference and an open zone, and the
  log has what happened to every object.  While a zone is being drained its own objects may still
  be the targets of links (\<open>X\<close>), and while a finalization cascades the objects still to look at may
  have no reference left.
\<close>

section \<open>Reading a run\<close>

definition live :: "arc_run \<Rightarrow> decl_id \<Rightarrow> bool" where
  "live r u \<longleftrightarrow> bm_get (ar_phases r) u = Some Ph_Live"

definition gone :: "arc_run \<Rightarrow> decl_id \<Rightarrow> bool" where
  "gone r u \<longleftrightarrow> bm_get (ar_phases r) u = Some Ph_Finalized"

definition zone_of :: "arc_run \<Rightarrow> decl_id \<Rightarrow> decl_id option" where
  "zone_of r u = map_option oe_zone (bm_get (am_objects (ar_model r)) u)"

text \<open>The objects with a live link to \<open>t\<close>.\<close>

definition linkers :: "arc_run \<Rightarrow> decl_id \<Rightarrow> decl_id set" where
  "linkers r t = {u. t \<in> set (az_targets r u)}"

definition held :: "arc_run \<Rightarrow> decl_id \<Rightarrow> nat" where
  "held r u = unat (az_or_zero (bm_get (ar_held r) u))"

definition strong :: "arc_run \<Rightarrow> decl_id \<Rightarrow> nat" where
  "strong r u = (if u \<in> set (ar_base_released r) then 0 else 1) + card (linkers r u) + held r u"

text \<open>How deep a zone is open.\<close>

definition height :: "arc_run \<Rightarrow> decl_id option \<Rightarrow> nat" where
  "height r z = length (takeWhile (\<lambda>x. Some x \<noteq> z) (ar_open r))"

section \<open>The model\<close>

lemma length_bm_insert: "length (bm_insert k v m) \<le> Suc (length m)"
  by (induction k v m rule: bm_insert.induct) auto

definition objects_placed :: "(decl_id, zone_entry) bmap \<Rightarrow> (decl_id, object_entry) bmap \<Rightarrow> bool" where
  "objects_placed zones objects \<longleftrightarrow> (\<forall>u e. bm_get objects u = Some e \<longrightarrow> bm_get zones (oe_zone e) \<noteq> None)"

definition arc_model_ok :: "arc_model \<Rightarrow> bool" where
  "arc_model_ok m \<longleftrightarrow> bm_ok (am_objects m) \<and> length (am_objects m) \<le> MAX_OBJECTS
     \<and> objects_placed (am_zones m) (am_objects m)"

lemma declare_objects_ok:
  "declare_objects zones bs objects = Ok objects' \<Longrightarrow> bm_ok objects \<Longrightarrow> objects_placed zones objects \<Longrightarrow>
     bm_ok objects' \<and> length objects' \<le> length objects + length bs \<and> objects_placed zones objects'"
proof (induction bs arbitrary: objects)
  case (Cons b bs)
  let ?next = "bm_insert (os_id b) \<lparr>oe_zone = os_zone b, oe_shareable = os_shareable b\<rparr> objects"
  have rest: "declare_objects zones bs ?next = Ok objects'" and zone: "bm_contains zones (os_zone b)"
    using Cons.prems(1) by (auto simp: res_iff split: if_splits)
  have "objects_placed zones ?next" using Cons.prems(3) zone by (auto simp: objects_placed_def bm_contains_def)
  from Cons.IH[OF rest _ this] Cons.prems(2) show ?case
    using length_bm_insert[of "os_id b" "\<lparr>oe_zone = os_zone b, oe_shareable = os_shareable b\<rparr>" objects] by simp
qed simp

lemma az_try_new_ok:
  assumes "az_try_new sha256 zones objects = Ok m"
  shows "arc_model_ok m"
proof -
  from assms obtain entries objs where o: "declare_objects entries objects bm_empty = Ok objs"
    and m: "am_objects m = objs" "am_zones m = entries" and n: "length objects \<le> MAX_OBJECTS"
    by (auto simp: az_try_new_def res_iff Let_def split: if_splits prod.splits)
  have "objects_placed entries bm_empty" by (simp add: objects_placed_def)
  from declare_objects_ok[OF o bm_ok_empty this] show ?thesis using m n by (simp add: arc_model_ok_def bm_empty_def)
qed

section \<open>Counts\<close>

lemma targets_finite: "{u. az_targets r u \<noteq> []} \<subseteq> fst ` set (ar_links r)"
  by (auto simp: az_targets_def split: option.splits dest!: bm_get_in_set intro: rev_image_eqI)

lemma finite_linkers [simp]: "finite (linkers r t)"
  by (rule finite_subset[OF _ finite_imageI[OF finite_set[of "ar_links r"], of fst]])
     (use targets_finite[of r] in \<open>auto simp: linkers_def\<close>)

section \<open>The core\<close>

definition core :: "decl_id set \<Rightarrow> arc_run \<Rightarrow> bool" where
  "core X r \<longleftrightarrow> arc_model_ok (ar_model r) \<and> bm_ok (ar_phases r) \<and> bm_ok (ar_links r)
     \<and> (\<forall>u ts. bm_get (ar_links r) u = Some ts \<longrightarrow> ts \<noteq> [] \<and> bs_ok ts)
     \<and> (\<forall>u p. bm_get (ar_phases r) u = Some p \<longrightarrow> p \<noteq> Ph_NotConstructed \<and> bm_get (am_objects (ar_model r)) u \<noteq> None
          \<and> bm_get (ar_held r) u \<noteq> None \<and> bm_get (ar_seq r) u \<noteq> None)
     \<and> (\<forall>u t. t \<in> set (az_targets r u) \<longrightarrow> live r u \<and> (live r t \<or> t \<in> X) \<and> height r (zone_of r t) \<le> height r (zone_of r u))
     \<and> (\<forall>t. bm_get (ar_degree r) t \<noteq> Some 0 \<and> unat (az_or_zero (bm_get (ar_degree r) t)) = card (linkers r t))
     \<and> (\<forall>u. live r u \<longrightarrow> (\<exists>z\<in>set (ar_open r). zone_of r u = Some z))
     \<and> (\<forall>u. held r u \<le> MAX_SCRIPT_OPS)
     \<and> unat (at_finalized (ar_totals r)) = card {u. gone r u}"

lemma core_subset: "core X r \<Longrightarrow> X \<subseteq> Y \<Longrightarrow> core Y r"
  unfolding core_def by blast

lemma objects_bound:
  assumes "core X r"
  shows "finite {u. bm_get (ar_phases r) u \<noteq> None} \<and> card {u. bm_get (ar_phases r) u \<noteq> None} \<le> MAX_OBJECTS"
proof -
  have sub: "{u. bm_get (ar_phases r) u \<noteq> None} \<subseteq> fst ` set (am_objects (ar_model r))"
  proof
    fix u assume "u \<in> {u. bm_get (ar_phases r) u \<noteq> None}"
    then obtain e where "bm_get (am_objects (ar_model r)) u = Some e" using assms unfolding core_def by blast
    from bm_get_in_set[OF this] show "u \<in> fst ` set (am_objects (ar_model r))" by (rule rev_image_eqI) simp
  qed
  have "card (fst ` set (am_objects (ar_model r))) \<le> length (am_objects (ar_model r))"
    by (metis card_length length_map set_map)
  then show ?thesis
    using assms card_mono[OF _ sub] finite_subset[OF sub] unfolding core_def arc_model_ok_def by simp
qed

lemma linkers_bound: "core X r \<Longrightarrow> card (linkers r t) \<le> MAX_OBJECTS"
proof -
  assume c: "core X r"
  have "linkers r t \<subseteq> {u. bm_get (ar_phases r) u \<noteq> None}"
    using c by (auto simp: linkers_def core_def live_def)
  then show ?thesis using objects_bound[OF c] card_mono order_trans by meson
qed

lemma checked_add_fits:
  fixes a b :: "'a::len word"
  assumes "unat a + unat b < 2 ^ LENGTH('a)"
  shows "\<exists>c. u_checked_add a b = Some c \<and> unat c = unat a + unat b"
  using assms u_checked_add_Some[of a b "a + b"] by (simp add: u_checked_add_def)

lemma live_total_exact:
  assumes "core X r"
  shows "\<exists>n. az_live_total r t = Ok n \<and> unat n = strong r t"
proof -
  let ?d = "az_or_zero (bm_get (ar_degree r) t)" and ?h = "az_or_zero (bm_get (ar_held r) t)"
    and ?b = "if bs_contains (ar_base_released r) t then 0 else 1 :: u32"
  have d: "unat ?d = card (linkers r t)" "card (linkers r t) \<le> 4096" and h: "unat ?h \<le> 65536"
    using assms linkers_bound[OF assms, of t] by (auto simp: core_def held_def MAX_OBJECTS_def MAX_SCRIPT_OPS_def)
  have b: "unat ?b = (if t \<in> set (ar_base_released r) then 0 else 1)" by (simp add: bs_contains_def)
  have "unat ?b \<le> 1" by simp
  then obtain n where n: "u_checked_add ?b ?d = Some n" "unat n = unat ?b + unat ?d"
    using d checked_add_fits[of ?b ?d] by auto
  have "unat n + unat ?h < 2 ^ 32" using n(2) d h \<open>unat ?b \<le> 1\<close> by simp
  then obtain k where k: "u_checked_add n ?h = Some k" "unat k = unat n + unat ?h"
    using checked_add_fits[of n ?h] by auto
  show ?thesis
    using n k b d(1) by (simp add: az_live_total_def u_add_def strong_def held_def)
qed

text \<open>Every live object has a reference, but for those still to look at.\<close>

definition backed :: "decl_id set \<Rightarrow> arc_run \<Rightarrow> bool" where
  "backed Y r \<longleftrightarrow> (\<forall>u. live r u \<longrightarrow> u \<notin> Y \<longrightarrow> 0 < strong r u)"

section \<open>One object\<close>

lemma lower_exact:
  assumes "bm_get degrees t \<noteq> None" and "bm_get degrees t \<noteq> Some 0"
  shows "\<exists>degrees'. az_lower t degrees = Ok degrees'
     \<and> (\<forall>j. bm_get degrees' j \<noteq> Some 0 \<or> bm_get degrees j = Some 0)
     \<and> (\<forall>j. unat (az_or_zero (bm_get degrees' j)) = unat (az_or_zero (bm_get degrees j)) - (if j = t then 1 else 0))
     \<and> (\<forall>j. j \<noteq> t \<longrightarrow> bm_get degrees' j = bm_get degrees j)"
proof -
  obtain d where d: "bm_get degrees t = Some d" "d \<noteq> 0" using assms by auto
  have one: "1 \<le> d" using d(2) by (simp add: word_le_nat_alt unat_gt_0 Suc_le_eq)
  then have sub: "u_checked_sub d 1 = Some (d - 1)" and val: "unat (d - 1) = unat d - 1"
    by (simp_all add: u_checked_sub_def unat_sub)
  show ?thesis
    using d sub val by (auto simp: az_lower_def u_sub_def az_or_zero_def unat_eq_0)
qed

lemma lower_all_exact:
  "distinct ts \<Longrightarrow> \<forall>t\<in>set ts. bm_get degrees t \<noteq> None \<Longrightarrow> \<forall>j. bm_get degrees j \<noteq> Some 0 \<Longrightarrow>
     \<exists>degrees'. az_lower_all ts degrees = Ok degrees' \<and> (\<forall>j. bm_get degrees' j \<noteq> Some 0)
     \<and> (\<forall>j. unat (az_or_zero (bm_get degrees' j)) = unat (az_or_zero (bm_get degrees j)) - (if j \<in> set ts then 1 else 0))"
proof (induction ts arbitrary: degrees)
  case (Cons t ts)
  obtain d1 where d1: "az_lower t degrees = Ok d1" "\<forall>j. bm_get d1 j \<noteq> Some 0"
    "\<forall>j. unat (az_or_zero (bm_get d1 j)) = unat (az_or_zero (bm_get degrees j)) - (if j = t then 1 else 0)"
    "\<forall>j. j \<noteq> t \<longrightarrow> bm_get d1 j = bm_get degrees j"
    using lower_exact[of degrees t] Cons.prems by auto
  have "\<forall>x\<in>set ts. bm_get d1 x \<noteq> None" using Cons.prems(1,2) d1(4) by auto
  then obtain d2 where "az_lower_all ts d1 = Ok d2" "\<forall>j. bm_get d2 j \<noteq> Some 0"
    "\<forall>j. unat (az_or_zero (bm_get d2 j)) = unat (az_or_zero (bm_get d1 j)) - (if j \<in> set ts then 1 else 0)"
    using Cons.IH[of d1] Cons.prems(1) d1(2) by auto
  then show ?case using d1 Cons.prems(1) by auto
qed simp

end
