(* ===== verification/ArcFinal.thy ===== *)
theory ArcFinal
  imports ArcInv
begin

text \<open>
  Finalization in a run of \<open>src/arc_zones.rs\<close>: one object, its cascade, and the draining of a zone.
  None of them panics, each keeps the core of the invariant, and the log gets exactly one entry for
  every object finalized.
\<close>

section \<open>The log\<close>

definition constructions :: "arc_event list \<Rightarrow> decl_id \<Rightarrow> nat" where
  "constructions evs u = length (filter (\<lambda>e. e = Av_Constructed u) evs)"

fun finalizes :: "decl_id \<Rightarrow> arc_event \<Rightarrow> bool" where
  "finalizes u (Av_Finalized v cause) \<longleftrightarrow> v = u"
| "finalizes u _ \<longleftrightarrow> False"

definition finalizations :: "arc_event list \<Rightarrow> decl_id \<Rightarrow> nat" where
  "finalizations evs u = length (filter (finalizes u) evs)"

definition logged :: "arc_run \<Rightarrow> arc_event list \<Rightarrow> bool" where
  "logged r evs \<longleftrightarrow> (\<forall>u.
     constructions evs u = (if bm_get (ar_phases r) u = None then 0 else 1)
     \<and> finalizations evs u = (if gone r u then 1 else 0)
     \<and> (\<forall>cause. Av_Finalized u cause \<in> set evs \<longrightarrow>
          cause = Fc_ZoneExit \<or> (u \<in> set (ar_base_released r) \<and> held r u = 0)))"

lemma logged_gone:
  assumes "logged r evs" and "Av_Finalized u cause \<in> set evs"
  shows "gone r u"
proof -
  have "Av_Finalized u cause \<in> set (filter (finalizes u) evs)" using assms(2) by simp
  then have "finalizations evs u \<noteq> 0" unfolding finalizations_def by (metis length_0_conv list.set(1) empty_iff)
  then show ?thesis using assms(1) by (auto simp: logged_def split: if_splits)
qed

section \<open>One object\<close>

lemma targets_distinct: "core X r \<Longrightarrow> distinct (az_targets r u)"
  by (auto simp: core_def az_targets_def bs_ok_def strict_sorted_iff split: option.splits)

lemma finalize_one_exact:
  assumes c: "core X r" and i: "live r i" and X: "linkers r i \<subseteq> {i} \<or> i \<in> X"
  shows "\<exists>r'. az_finalize_one r i = Ok r' \<and> core X r' \<and> gone r' i
     \<and> (\<forall>u. bm_get (ar_phases r') u = (if u = i then Some Ph_Finalized else bm_get (ar_phases r) u))
     \<and> (\<forall>t. linkers r' t = linkers r t - {i}) \<and> ar_held r' = ar_held r \<and> ar_base_released r' = ar_base_released r"
proof -
  have deg: "\<forall>t. bm_get (ar_degree r) t \<noteq> Some 0 \<and> unat (az_or_zero (bm_get (ar_degree r) t)) = card (linkers r t)"
    and fin: "unat (at_finalized (ar_totals r)) = card {u. gone r u}" using c unfolding core_def by blast+
  have ent: "\<forall>t\<in>set (az_targets r i). bm_get (ar_degree r) t \<noteq> None"
  proof
    fix t assume "t \<in> set (az_targets r i)"
    then have "i \<in> linkers r t" by (simp add: linkers_def)
    then have "0 < card (linkers r t)" by (auto simp: card_gt_0_iff)
    then show "bm_get (ar_degree r) t \<noteq> None" using deg by (metis az_or_zero_def option.case(1) less_irrefl unat_0)
  qed
  obtain degrees where d: "az_lower_all (az_targets r i) (ar_degree r) = Ok degrees" "\<forall>j. bm_get degrees j \<noteq> Some 0"
    "\<forall>j. unat (az_or_zero (bm_get degrees j)) =
        unat (az_or_zero (bm_get (ar_degree r) j)) - (if j \<in> set (az_targets r i) then 1 else 0)"
    using lower_all_exact[OF targets_distinct[OF c] ent] deg by blast
  have sub: "{u. gone r u} \<subseteq> {u. bm_get (ar_phases r) u \<noteq> None}" by (auto simp: gone_def)
  have bound: "card {u. gone r u} \<le> 4096" and fing: "finite {u. gone r u}"
    using objects_bound[OF c] card_mono[OF _ sub] finite_subset[OF sub] by (auto simp: MAX_OBJECTS_def)
  obtain n where n: "u_checked_add (at_finalized (ar_totals r)) 1 = Some n" "unat n = Suc (card {u. gone r u})"
    using checked_add_fits[of "at_finalized (ar_totals r)" 1] fin bound by auto
  let ?r = "r\<lparr>ar_phases := bm_insert i Ph_Finalized (ar_phases r), ar_degree := degrees,
             ar_links := bm_delete i (ar_links r), ar_totals := (ar_totals r)\<lparr>at_finalized := n\<rparr>\<rparr>"
  have run: "az_finalize_one r i = Ok ?r" using d(1) n(1) i by (simp add: az_finalize_one_def u_add_def live_def)
  have tg: "az_targets ?r u = (if u = i then [] else az_targets r u)" for u by (simp add: az_targets_def)
  have lk: "linkers ?r t = linkers r t - {i}" for t by (auto simp: linkers_def tg)
  have lv: "live ?r u \<longleftrightarrow> live r u \<and> u \<noteq> i" and gn: "gone ?r u \<longleftrightarrow> gone r u \<or> u = i" for u
    by (auto simp: live_def gone_def)
  have "i \<notin> {u. gone r u}" using i by (simp add: live_def gone_def)
  moreover have "{u. gone ?r u} = insert i {u. gone r u}" using gn by blast
  ultimately have cnt: "unat n = card {u. gone ?r u}" using n(2) fing by simp
  have "core X ?r"
    unfolding core_def
  proof (intro conjI)
    show "\<forall>u t. t \<in> set (az_targets ?r u) \<longrightarrow> live ?r u \<and> (live ?r t \<or> t \<in> X)
        \<and> height ?r (zone_of ?r t) \<le> height ?r (zone_of ?r u)"
    proof (intro allI impI)
      fix u t assume t: "t \<in> set (az_targets ?r u)"
      then have ui: "u \<noteq> i" and t': "t \<in> set (az_targets r u)" by (auto simp: tg split: if_splits)
      have old: "live r u \<and> (live r t \<or> t \<in> X) \<and> height r (zone_of r t) \<le> height r (zone_of r u)"
        using c t' unfolding core_def by blast
      have "t = i \<Longrightarrow> t \<in> X" using t' X ui by (auto simp: linkers_def)
      then show "live ?r u \<and> (live ?r t \<or> t \<in> X) \<and> height ?r (zone_of ?r t) \<le> height ?r (zone_of ?r u)"
        using old ui lv by (auto simp: height_def zone_of_def)
    qed
    show "\<forall>t. bm_get (ar_degree ?r) t \<noteq> Some 0 \<and> unat (az_or_zero (bm_get (ar_degree ?r) t)) = card (linkers ?r t)"
    proof
      fix t
      have "card (linkers r t - {i}) = card (linkers r t) - (if t \<in> set (az_targets r i) then 1 else 0)"
        by (simp add: linkers_def card_Diff_singleton_if finite_linkers[unfolded linkers_def])
      then show "bm_get (ar_degree ?r) t \<noteq> Some 0 \<and> unat (az_or_zero (bm_get (ar_degree ?r) t)) = card (linkers ?r t)"
        using d(2,3) deg lk by simp
    qed
    show "\<forall>u. live ?r u \<longrightarrow> (\<exists>z\<in>set (ar_open ?r). zone_of ?r u = Some z)"
      using c lv by (simp add: core_def zone_of_def)
    show "\<forall>u p. bm_get (ar_phases ?r) u = Some p \<longrightarrow> p \<noteq> Ph_NotConstructed \<and> bm_get (am_objects (ar_model ?r)) u \<noteq> None
          \<and> bm_get (ar_held ?r) u \<noteq> None \<and> bm_get (ar_seq ?r) u \<noteq> None"
      using c i by (auto simp: core_def live_def)
  qed (use c cnt in \<open>auto simp: core_def held_def\<close>)
  then show ?thesis using run lk by (intro exI[of _ ?r]) (simp add: gone_def)
qed

lemma finalize_one_logged:
  assumes "logged r evs" and "live r i" and "cause = Fc_ZoneExit \<or> strong r i = 0"
    and "\<forall>u. bm_get (ar_phases r') u = (if u = i then Some Ph_Finalized else bm_get (ar_phases r) u)"
    and "ar_held r' = ar_held r" "ar_base_released r' = ar_base_released r"
  shows "logged r' (evs @ [Av_Finalized i cause])"
  using assms
  by (auto simp: logged_def constructions_def finalizations_def gone_def live_def strong_def held_def split: if_splits)

lemma strong_less:
  assumes "\<forall>t. linkers r' t = linkers r t - {i}" "ar_held r' = ar_held r" "ar_base_released r' = ar_base_released r"
    and "t \<notin> set (az_targets r i)"
  shows "strong r' t = strong r t"
proof -
  have "i \<notin> linkers r t" using assms(4) by (simp add: linkers_def)
  then show ?thesis using assms by (simp add: strong_def held_def)
qed

section \<open>The cascade\<close>

text \<open>What a cascade may change: live objects die, and nothing else happens to a phase.\<close>

definition dies :: "arc_run \<Rightarrow> arc_run \<Rightarrow> bool" where
  "dies r r' \<longleftrightarrow> (\<forall>u. bm_get (ar_phases r') u = bm_get (ar_phases r) u
     \<or> (bm_get (ar_phases r) u = Some Ph_Live \<and> bm_get (ar_phases r') u = Some Ph_Finalized))
     \<and> ar_held r' = ar_held r \<and> ar_base_released r' = ar_base_released r \<and> ar_open r' = ar_open r
     \<and> az_frame r' = az_frame r \<and> ar_seq r' = ar_seq r \<and> ar_events r' = ar_events r \<and> ar_status r' = ar_status r"

lemma dies_refl: "dies r r"
  by (simp add: dies_def)

lemma dies_trans: "dies r r' \<Longrightarrow> dies r' r'' \<Longrightarrow> dies r r''"
  unfolding dies_def by (metis arc_phase.distinct(5) option.inject)

lemma cascade_exact:
  "core X r \<Longrightarrow> logged r (log @ batch) \<Longrightarrow>
     \<exists>r' batch'. az_cascade waiting r batch = Ok (r', batch') \<and> core X r' \<and> logged r' (log @ batch') \<and> dies r r'
       \<and> (backed (set waiting) r \<longrightarrow> backed {} r')"
proof (induction waiting r batch rule: az_cascade.induct)
  case (1 r batch)
  then show ?case by (simp add: dies_refl)
next
  case (2 t waiting r batch)
  show ?case
  proof (cases "bm_get (ar_phases r) t = Some Ph_Live")
    case False
    have "backed (set (t # waiting)) r \<longrightarrow> backed (set waiting) r" using False by (auto simp: backed_def live_def)
    then show ?thesis using 2(1)[OF False 2(4,5)] False by auto
  next
    case l: True
    obtain n where n: "az_live_total r t = Ok n" "unat n = strong r t" using live_total_exact[OF 2(4)] by blast
    show ?thesis
    proof (cases "n = 0")
      case False
      then have "0 < strong r t" using n(2) by (metis unat_gt_0)
      then have "backed (set (t # waiting)) r \<longrightarrow> backed (set waiting) r" by (auto simp: backed_def)
      then show ?thesis using 2(2)[OF _ n(1) False 2(4,5)] False l n(1) by auto
    next
      case zero: True
      have none: "linkers r t = {}" using n(2) zero by (auto simp: strong_def)
      obtain r1 where r1: "az_finalize_one r t = Ok r1" "core X r1" "gone r1 t"
        "\<forall>u. bm_get (ar_phases r1) u = (if u = t then Some Ph_Finalized else bm_get (ar_phases r) u)"
        "\<forall>u. linkers r1 u = linkers r u - {t}" "ar_held r1 = ar_held r" "ar_base_released r1 = ar_base_released r"
        using finalize_one_exact[OF 2(4), of t] l none by (auto simp: live_def)
      have lg: "logged r1 (log @ batch @ [Av_Finalized t Fc_Cascade])"
        using finalize_one_logged[OF 2(5), of t Fc_Cascade r1] l r1(4,6,7) n(2) zero by (simp add: live_def)
      obtain r' batch' where r': "az_cascade (az_targets r t @ waiting) r1 (batch @ [Av_Finalized t Fc_Cascade]) = Ok (r', batch')"
        "core X r'" "logged r' (log @ batch')" "dies r1 r'"
        "backed (set (az_targets r t @ waiting)) r1 \<longrightarrow> backed {} r'"
        using 2(3)[OF _ n(1) _ r1(1,2) lg] l zero by auto
      have "dies r r1" using r1 l finalize_one_frame[OF r1(1)] by (auto simp: dies_def)
      moreover have "backed (set (t # waiting)) r \<longrightarrow> backed (set (az_targets r t @ waiting)) r1"
        using r1(4) strong_less[OF r1(5-7)] by (auto simp: backed_def live_def)
      ultimately show ?thesis using r' l n(1) zero r1(1) dies_trans by auto
    qed
  qed
qed

lemma finalize_exact:
  assumes c: "core X r" and lg: "logged r (log @ batch)" and i: "live r i" and X: "linkers r i \<subseteq> {i} \<or> i \<in> X"
    and cause: "cause = Fc_ZoneExit \<or> strong r i = 0"
  shows "\<exists>r' batch'. az_finalize i cause r batch = Ok (r', batch') \<and> core X r' \<and> logged r' (log @ batch') \<and> dies r r'
     \<and> gone r' i \<and> (backed {i} r \<longrightarrow> backed {} r')"
proof -
  obtain r1 where r1: "az_finalize_one r i = Ok r1" "core X r1" "gone r1 i"
    "\<forall>u. bm_get (ar_phases r1) u = (if u = i then Some Ph_Finalized else bm_get (ar_phases r) u)"
    "\<forall>u. linkers r1 u = linkers r u - {i}" "ar_held r1 = ar_held r" "ar_base_released r1 = ar_base_released r"
    using finalize_one_exact[OF c i X] by blast
  have "logged r1 (log @ batch @ [Av_Finalized i cause])" using finalize_one_logged[OF lg i cause r1(4,6,7)] by simp
  from cascade_exact[OF r1(2), of log "batch @ [Av_Finalized i cause]" "az_targets r i"] this
  obtain r' batch' where r': "az_cascade (az_targets r i) r1 (batch @ [Av_Finalized i cause]) = Ok (r', batch')"
    "core X r'" "logged r' (log @ batch')" "dies r1 r'" "backed (set (az_targets r i)) r1 \<longrightarrow> backed {} r'" by auto
  have "dies r r1" using r1 i finalize_one_frame[OF r1(1)] by (auto simp: dies_def live_def)
  moreover have "backed {i} r \<longrightarrow> backed (set (az_targets r i)) r1"
    using r1(4) strong_less[OF r1(5-7)] by (auto simp: backed_def live_def)
  moreover have "gone r' i" using r1(3) r'(4) unfolding dies_def gone_def by (metis arc_phase.distinct(5) option.inject)
  ultimately show ?thesis using r' r1(1) dies_trans by (auto simp: az_finalize_def)
qed

lemma dies_linkers: "dies r r' \<Longrightarrow> live r' u \<Longrightarrow> live r u"
  unfolding dies_def live_def by (metis arc_phase.distinct(5) option.inject)

section \<open>Draining a zone\<close>

lemma drain_exact:
  "core X r \<Longrightarrow> logged r (log @ batch) \<Longrightarrow> set is \<subseteq> X \<Longrightarrow>
     \<exists>r' batch'. az_drain is r batch = Ok (r', batch') \<and> core X r' \<and> logged r' (log @ batch') \<and> dies r r'
       \<and> (backed {} r \<longrightarrow> backed {} r') \<and> (\<forall>i\<in>set is. \<not> live r' i)"
proof (induction "is" arbitrary: r batch)
  case Nil
  then show ?case by (simp add: dies_refl)
next
  case (Cons i "is")
  show ?case
  proof (cases "live r i")
    case True
    have iX: "i \<in> X" using Cons.prems(3) by simp
    obtain r1 b1 where r1: "az_finalize i Fc_ZoneExit r batch = Ok (r1, b1)" "core X r1" "logged r1 (log @ b1)"
      "dies r r1" "gone r1 i" "backed {i} r \<longrightarrow> backed {} r1"
      using finalize_exact[OF Cons.prems(1,2) True _ disjI1[OF refl]] iX by blast
    obtain r' b' where r': "az_drain is r1 b1 = Ok (r', b')" "core X r'" "logged r' (log @ b')" "dies r1 r'"
      "backed {} r1 \<longrightarrow> backed {} r'" "\<forall>i\<in>set is. \<not> live r' i"
      using Cons.IH[OF r1(2,3)] Cons.prems(3) by auto
    have "\<not> live r' i" using dies_linkers[OF r'(4)] r1(5) by (auto simp: live_def gone_def)
    moreover have "backed {} r \<longrightarrow> backed {i} r" by (auto simp: backed_def)
    ultimately show ?thesis using r1 r' dies_trans True by (auto simp: live_def)
  next
    case False
    obtain r' b' where r': "az_drain is r batch = Ok (r', b')" "core X r'" "logged r' (log @ b')" "dies r r'"
      "backed {} r \<longrightarrow> backed {} r'" "\<forall>i\<in>set is. \<not> live r' i"
      using Cons.IH[OF Cons.prems(1,2)] Cons.prems(3) by auto
    have "\<not> live r' i" using dies_linkers[OF r'(4)] False by blast
    then show ?thesis using r' False by (auto simp: live_def)
  qed
qed

end
