(* ===== verification/ArcOps.thy ===== *)
theory ArcOps
  imports ArcFinal
begin

text \<open>
  Every operation of a run of \<open>src/arc_zones.rs\<close> keeps the invariant and never panics.
\<close>

section \<open>The invariant\<close>

definition tallies :: "nat \<Rightarrow> arc_run \<Rightarrow> bool" where
  "tallies b r \<longleftrightarrow> unat (ar_next_seq r) \<le> b \<and> (\<forall>u. held r u \<le> b)
     \<and> unat (at_constructed (ar_totals r)) \<le> b \<and> unat (at_retained (ar_totals r)) \<le> b
     \<and> unat (at_released (ar_totals r)) \<le> b \<and> unat (at_zones_entered (ar_totals r)) \<le> b
     \<and> unat (at_zones_exited (ar_totals r)) \<le> b \<and> unat (at_zones_rejected (ar_totals r)) \<le> b"

definition zones_open :: "arc_run \<Rightarrow> bool" where
  "zones_open r \<longleftrightarrow> distinct (ar_open r) \<and> (\<forall>z\<in>set (ar_open r). bm_get (am_zones (ar_model r)) z \<noteq> None)
     \<and> (ar_status r = Rs_Complete \<longrightarrow> ar_open r = [])
     \<and> (\<forall>u\<in>set (ar_base_released r). bm_get (ar_phases r) u \<noteq> None)"

definition numbered :: "arc_run \<Rightarrow> bool" where
  "numbered r \<longleftrightarrow> (\<forall>u n. bm_get (ar_seq r) u = Some n \<longrightarrow> n < ar_next_seq r)
     \<and> (\<forall>u v n. bm_get (ar_seq r) u = Some n \<longrightarrow> bm_get (ar_seq r) v = Some n \<longrightarrow> u = v)"

definition ops_ok :: "nat \<Rightarrow> arc_run \<Rightarrow> bool" where
  "ops_ok b r \<longleftrightarrow> core {} r \<and> backed {} r \<and> logged r (ar_events r) \<and> tallies b r \<and> zones_open r \<and> numbered r"

text \<open>An operation either fails, or returns a run that is fine with one more step counted.\<close>

definition fine :: "nat \<Rightarrow> arc_change \<Rightarrow> bool" where
  "fine b m \<longleftrightarrow> (case m of Ok (r', evs) \<Rightarrow> ops_ok (Suc b) r' \<and> evs \<noteq> [] | Err e \<Rightarrow> True | Panic \<Rightarrow> False)"

lemma fine_Err [simp]: "fine b (Err e)"
  by (simp add: fine_def)

lemma fine_Ok [simp]: "fine b (Ok (r', evs)) \<longleftrightarrow> ops_ok (Suc b) r' \<and> evs \<noteq> []"
  by (simp add: fine_def)

lemma fine_bind: "m \<noteq> Panic \<Longrightarrow> (\<And>x. m = Ok x \<Longrightarrow> fine b (f x)) \<Longrightarrow> fine b (res_bind m f)"
  by (cases m) (simp_all add: fine_def)

lemma tallies_mono: "tallies b r \<Longrightarrow> b \<le> b' \<Longrightarrow> tallies b' r"
  unfolding tallies_def using order_trans by blast

lemma u64_count: "unat (n :: u64) \<le> b \<Longrightarrow> b < MAX_SCRIPT_OPS \<Longrightarrow> \<exists>m. u_add n 1 = Ok m \<and> unat m = Suc (unat n)"
  using checked_add_fits[of n 1] by (auto simp: u_add_def MAX_SCRIPT_OPS_def)

lemma live_object_Ok:
  "az_live_object r i = Ok x \<longleftrightarrow> live r i \<and> ar_open r \<noteq> [] \<and> zone_of r i = Some (last (ar_open r))"
  if "\<forall>u p. bm_get (ar_phases r) u = Some p \<longrightarrow> p \<noteq> Ph_NotConstructed \<and> bm_get (am_objects (ar_model r)) u \<noteq> None"
  using that
  by (auto simp: az_live_object_def az_object_def az_phase_def az_current_zone_def res_iff live_def zone_of_def
      split: option.splits)

lemma core_phases: "core X r \<Longrightarrow>
    \<forall>u p. bm_get (ar_phases r) u = Some p \<longrightarrow> p \<noteq> Ph_NotConstructed \<and> bm_get (am_objects (ar_model r)) u \<noteq> None"
  unfolding core_def by blast

lemma live_object_not_Panic [simp]: "az_live_object r i \<noteq> Panic"
  by (auto simp: az_live_object_def az_object_def az_current_zone_def res_iff)

lemma constructible_not_Panic [simp]: "az_constructible r i \<noteq> Panic"
  by (auto simp: az_constructible_def az_object_def az_current_zone_def res_iff)

lemma constructible_Ok:
  "az_constructible r i = Ok x \<Longrightarrow> core X r \<Longrightarrow>
     bm_get (ar_phases r) i = None \<and> ar_open r \<noteq> [] \<and> zone_of r i = Some (last (ar_open r))"
  using core_phases[of X r]
  by (fastforce simp: az_constructible_def az_object_def az_phase_def az_current_zone_def res_iff zone_of_def
      split: option.splits if_splits)

lemma not_live_no_linkers: "core {} r \<Longrightarrow> \<not> live r t \<Longrightarrow> linkers r t = {}"
  unfolding core_def linkers_def by blast

section \<open>Construction, retention, demotion\<close>

lemma construct_fine:
  assumes ok: "ops_ok b r" and b: "b < MAX_SCRIPT_OPS"
  shows "fine b (az_construct i r)"
  unfolding az_construct_def
proof (rule fine_bind)
  fix x assume "az_constructible r i = Ok x"
  have c: "core {} r" and bk: "backed {} r" and lg: "logged r (ar_events r)" and tl: "tallies b r"
    and zo: "zones_open r" and nu: "numbered r" using ok by (simp_all add: ops_ok_def)
  have new: "bm_get (ar_phases r) i = None" and z: "ar_open r \<noteq> []" "zone_of r i = Some (last (ar_open r))"
    using constructible_Ok[OF \<open>az_constructible r i = Ok x\<close> c] by auto
  obtain n where n: "u_add (ar_next_seq r) 1 = (Ok n :: u64 az_res)" "unat n = Suc (unat (ar_next_seq r))"
    using u64_count[OF _ b, of "ar_next_seq r"] tl by (auto simp: tallies_def)
  obtain m where m: "u_add (at_constructed (ar_totals r)) 1 = (Ok m :: u64 az_res)" "unat m = Suc (unat (at_constructed (ar_totals r)))"
    using u64_count[OF _ b, of "at_constructed (ar_totals r)"] tl by (auto simp: tallies_def)
  let ?r = "r\<lparr>ar_phases := bm_insert i Ph_Live (ar_phases r), ar_seq := bm_insert i (ar_next_seq r) (ar_seq r),
      ar_next_seq := n, ar_held := bm_insert i 0 (ar_held r), ar_totals := (ar_totals r)\<lparr>at_constructed := m\<rparr>,
      ar_events := ar_events r @ [Av_Constructed i]\<rparr>"
  have tg: "az_targets ?r = az_targets r" by (auto simp: az_targets_def fun_eq_iff)
  have lk: "linkers ?r = linkers r" by (auto simp: linkers_def tg fun_eq_iff)
  have lv: "live ?r u \<longleftrightarrow> live r u \<or> u = i" and gn: "gone ?r u \<longleftrightarrow> gone r u" for u
    using new by (auto simp: live_def gone_def)
  have hd: "held ?r u = (if u = i then 0 else held r u)" for u by (simp add: held_def az_or_zero_def)
  have zn: "zone_of ?r = zone_of r" "height ?r = height r" by (auto simp: zone_of_def height_def fun_eq_iff)
  have obj: "bm_get (am_objects (ar_model r)) i \<noteq> None" using z(2) by (auto simp: zone_of_def)
  have "core {} ?r"
    unfolding core_def tg lk zn lv gn hd using c obj z
    by (auto simp: core_def split: if_splits)
  moreover have "strong ?r u = (if u = i then 1 else strong r u)" for u
  proof -
    have "linkers r i = {}" using not_live_no_linkers[OF c] new by (simp add: live_def)
    moreover have "i \<notin> set (ar_base_released r)" using zo new by (auto simp: zones_open_def)
    ultimately show ?thesis by (simp add: strong_def lk hd)
  qed
  then have "backed {} ?r" using bk lv by (auto simp: backed_def)
  moreover have "logged ?r (ar_events ?r)"
    using lg new hd by (auto simp: logged_def constructions_def finalizations_def gone_def)
  moreover have "tallies (Suc b) ?r" using tl n(2) m(2) hd by (auto simp: tallies_def le_SucI)
  moreover have "zones_open ?r" using zo by (auto simp: zones_open_def)
  moreover have "numbered ?r"
    using nu n(2) by (auto simp: numbered_def word_less_nat_alt less_SucI)
  ultimately have "ops_ok (Suc b) ?r" by (simp add: ops_ok_def)
  then show "fine b (res_bind (u_add (ar_next_seq r) 1) (\<lambda>next. res_bind (u_add (at_constructed (ar_totals r)) 1) (\<lambda>n.
       Ok (az_record (r\<lparr>ar_phases := bm_insert i Ph_Live (ar_phases r),
                        ar_seq := bm_insert i (ar_next_seq r) (ar_seq r), ar_next_seq := next,
                        ar_held := bm_insert i 0 (ar_held r),
                        ar_totals := (ar_totals r)\<lparr>at_constructed := n\<rparr>\<rparr>) [Av_Constructed i]))))"
    by (simp add: n(1) m(1) az_record_def)
qed simp

text \<open>What the counts and the links do not read.\<close>

lemma core_same:
  assumes "core X r" and "ar_model r' = ar_model r" "ar_phases r' = ar_phases r" "ar_links r' = ar_links r"
    "ar_degree r' = ar_degree r" "ar_open r' = ar_open r" "ar_seq r' = ar_seq r"
    "at_finalized (ar_totals r') = at_finalized (ar_totals r)"
    and "\<forall>u. bm_get (ar_held r) u \<noteq> None \<longrightarrow> bm_get (ar_held r') u \<noteq> None" and "\<forall>u. held r' u \<le> MAX_SCRIPT_OPS"
  shows "core X r'"
proof -
  have "az_targets r' = az_targets r" "linkers r' = linkers r" "live r' = live r" "gone r' = gone r"
    "zone_of r' = zone_of r" "height r' = height r"
    using assms by (auto simp: az_targets_def linkers_def live_def gone_def zone_of_def height_def fun_eq_iff)
  then show ?thesis using assms by (simp add: core_def)
qed

lemma logged_append:
  assumes "logged r evs" and "ar_phases r' = ar_phases r"
    and "\<forall>e\<in>set es. \<forall>u. \<not> finalizes u e \<and> e \<noteq> Av_Constructed u"
    and "\<And>u. gone r u \<Longrightarrow> u \<in> set (ar_base_released r) \<Longrightarrow> u \<in> set (ar_base_released r')"
    and "\<And>u. gone r u \<Longrightarrow> held r' u \<le> held r u"
  shows "logged r' (evs @ es)"
proof -
  have quiet: "Av_Finalized u cause \<notin> set es" for u cause using assms(3) by fastforce
  have "filter (\<lambda>e. e = Av_Constructed u) es = []" "filter (finalizes u) es = []" for u
    using assms(3) by (auto simp: filter_empty_conv)
  then show ?thesis
    using assms(1,2) logged_gone[OF assms(1)] assms(4,5) quiet
    by (fastforce simp: logged_def constructions_def finalizations_def gone_def)
qed

lemma ops_okD:
  assumes "ops_ok b r"
  shows "core {} r" "backed {} r" "logged r (ar_events r)" "tallies b r" "zones_open r" "numbered r"
  using assms by (simp_all add: ops_ok_def)

lemma held_entry: "core X r \<Longrightarrow> live r i \<Longrightarrow> \<exists>h. bm_get (ar_held r) i = Some h"
  unfolding core_def live_def by blast

lemma retain_fine:
  assumes ok: "ops_ok b r" and b: "b < MAX_SCRIPT_OPS"
  shows "fine b (az_retain i r)"
  unfolding az_retain_def
proof (rule fine_bind)
  note o = ops_okD[OF ok]
  fix x assume "az_live_object r i = Ok x"
  then have l: "live r i" using live_object_Ok[OF core_phases[OF o(1)]] by blast
  obtain h where h: "bm_get (ar_held r) i = Some h" using held_entry[OF o(1) l] by blast
  have "unat h \<le> b" using o(4) h unfolding tallies_def held_def az_or_zero_def by (metis option.case(2))
  then obtain k where k: "u_add h 1 = (Ok k :: u32 az_res)" "unat k = Suc (unat h)"
    using checked_add_fits[of h 1] b by (auto simp: u_add_def MAX_SCRIPT_OPS_def)
  obtain n where n: "u_add (at_retained (ar_totals r)) 1 = (Ok n :: u64 az_res)" "unat n = Suc (unat (at_retained (ar_totals r)))"
    using u64_count[OF _ b, of "at_retained (ar_totals r)"] o(4) by (auto simp: tallies_def)
  let ?r = "r\<lparr>ar_held := bm_insert i k (ar_held r), ar_totals := (ar_totals r)\<lparr>at_retained := n\<rparr>,
      ar_events := ar_events r @ [Av_Retained i]\<rparr>"
  have hd: "held ?r u = (if u = i then Suc (held r u) else held r u)" for u
    using h k(2) by (simp add: held_def az_or_zero_def)
  have tl: "tallies (Suc b) ?r" using o(4) n(2) hd by (auto simp: tallies_def le_SucI)
  have "core {} ?r"
    by (rule core_same[OF o(1)]) (use tl b in \<open>auto simp: tallies_def intro: order_trans[of _ "Suc b"]\<close>)
  moreover have "linkers ?r = linkers r" by (auto simp: linkers_def az_targets_def fun_eq_iff)
  then have "backed {} ?r" using o(2) hd by (auto simp: backed_def live_def strong_def)
  moreover have "logged ?r (ar_events ?r)" using l hd by (auto intro!: logged_append[OF o(3)] simp: gone_def live_def)
  moreover have "zones_open ?r" "numbered ?r" using o(5,6) by (simp_all add: zones_open_def numbered_def)
  ultimately have "ops_ok (Suc b) ?r" using tl by (simp add: ops_ok_def)
  then show "fine b (if bs_contains (ar_unique r) i then Err Az_SharedUseOfUnique
       else res_bind (expect (bm_get (ar_held r) i)) (\<lambda>held. res_bind (u_add held 1) (\<lambda>held'.
         res_bind (u_add (at_retained (ar_totals r)) 1) (\<lambda>n.
           Ok (az_record (r\<lparr>ar_held := bm_insert i held' (ar_held r),
                            ar_totals := (ar_totals r)\<lparr>at_retained := n\<rparr>\<rparr>) [Av_Retained i])))))"
    by (simp add: h k(1) n(1) az_record_def)
qed simp

lemma demote_fine:
  assumes ok: "ops_ok b r"
  shows "fine b (az_demote i r)"
proof -
  note o = ops_okD[OF ok]
  let ?r = "r\<lparr>ar_unique := bs_insert i (ar_unique r), ar_events := ar_events r @ [Av_EscapedToUnique i]\<rparr>"
  have hd: "held ?r = held r" by (auto simp: held_def fun_eq_iff)
  have "core {} ?r" by (rule core_same[OF o(1)]) (use o(1) hd in \<open>simp_all add: core_def\<close>)
  moreover have "linkers ?r = linkers r" by (auto simp: linkers_def az_targets_def fun_eq_iff)
  then have "backed {} ?r" using o(2) hd by (auto simp: backed_def live_def strong_def)
  moreover have "logged ?r (ar_events ?r)" using logged_append[OF o(3), of ?r "[Av_EscapedToUnique i]"] hd by simp
  moreover have "zones_open ?r" "numbered ?r" using o(5,6) by (simp_all add: zones_open_def numbered_def)
  moreover have "tallies (Suc b) ?r" using tallies_mono[OF o(4), of "Suc b"] hd by (simp add: tallies_def)
  ultimately have "ops_ok (Suc b) ?r" by (simp add: ops_ok_def)
  moreover obtain n where "az_live_total r i = Ok n" using live_total_exact[OF o(1)] by blast
  ultimately show ?thesis by (auto simp: az_demote_def az_record_def intro!: fine_bind)
qed

section \<open>Settling, release, unlinking\<close>

text \<open>All a finalization changes in the counts is the number of finalized objects.\<close>

definition rest_totals :: "arc_run \<Rightarrow> u64 \<times> arc_totals" where
  "rest_totals r = (ar_next_seq r, (ar_totals r)\<lparr>at_finalized := 0\<rparr>)"

lemma rest_totalsD: "rest_totals r' = rest_totals r \<Longrightarrow> ar_next_seq r' = ar_next_seq r
    \<and> at_constructed (ar_totals r') = at_constructed (ar_totals r) \<and> at_retained (ar_totals r') = at_retained (ar_totals r)
    \<and> at_released (ar_totals r') = at_released (ar_totals r) \<and> at_zones_entered (ar_totals r') = at_zones_entered (ar_totals r)
    \<and> at_zones_exited (ar_totals r') = at_zones_exited (ar_totals r)
    \<and> at_zones_rejected (ar_totals r') = at_zones_rejected (ar_totals r)"
  by (cases "ar_totals r"; cases "ar_totals r'") (simp add: rest_totals_def)

lemma finalize_one_keeps: "az_finalize_one r i = Ok r' \<Longrightarrow> rest_totals r' = rest_totals r"
  by (auto simp: az_finalize_one_def res_iff rest_totals_def split: if_splits)

lemma cascade_keeps: "az_cascade waiting r batch = Ok (r', b) \<Longrightarrow>
    rest_totals r' = rest_totals r \<and> (batch \<noteq> [] \<longrightarrow> b \<noteq> [])"
proof (induction waiting r batch rule: az_cascade.induct)
  case (2 t waiting r batch)
  then show ?case
    by (auto split: if_splits res.splits dest!: finalize_one_keeps)
qed simp

lemma finalize_keeps: "az_finalize i cause r batch = Ok (r', b) \<Longrightarrow> rest_totals r' = rest_totals r \<and> b \<noteq> []"
  by (auto simp: az_finalize_def res_iff dest!: finalize_one_keeps cascade_keeps)

lemma drain_keeps: "az_drain is r batch = Ok (r', b) \<Longrightarrow> rest_totals r' = rest_totals r"
proof (induction "is" r batch rule: az_drain.induct)
  case (2 i "is" r batch)
  then show ?case by (auto simp: res_iff split: if_splits prod.splits dest!: finalize_keeps)
qed simp

lemma dies_keeps:
  assumes d: "dies r r'" and k: "rest_totals r' = rest_totals r"
  shows "tallies b r \<Longrightarrow> tallies b r'" and "zones_open r \<Longrightarrow> zones_open r'" and "numbered r \<Longrightarrow> numbered r'"
proof -
  have f: "ar_model r' = ar_model r" "ar_held r' = ar_held r" "ar_base_released r' = ar_base_released r"
    "ar_open r' = ar_open r" "ar_seq r' = ar_seq r" "ar_status r' = ar_status r"
    using d by (simp_all add: dies_def az_frame_def)
  have "bm_get (ar_phases r') u = None \<longleftrightarrow> bm_get (ar_phases r) u = None" for u
    using d unfolding dies_def by (metis option.distinct(1))
  then show "zones_open r \<Longrightarrow> zones_open r'" using f by (simp add: zones_open_def)
  show "tallies b r \<Longrightarrow> tallies b r'" using f rest_totalsD[OF k] by (auto simp: tallies_def held_def)
  show "numbered r \<Longrightarrow> numbered r'" using f rest_totalsD[OF k] by (simp add: numbered_def)
qed

lemma core_record:
  assumes "core X r" and "r' = r\<lparr>ar_events := evs\<rparr>"
  shows "core X r'"
  by (rule core_same[OF assms(1)]) (use assms in \<open>simp_all add: core_def held_def\<close>)

lemma backed_events: "backed Y (r\<lparr>ar_events := evs\<rparr>) = backed Y r"
  by (simp add: backed_def live_def strong_def linkers_def az_targets_def held_def)

lemma ops_ok_record:
  assumes "core {} r" "backed {} r" "logged r evs" "tallies b r" "zones_open r" "numbered r"
  shows "ops_ok b (r\<lparr>ar_events := evs\<rparr>)"
  using assms core_record[OF assms(1) refl]
  by (simp add: ops_ok_def backed_events tallies_def held_def zones_open_def numbered_def logged_def gone_def)

lemma settle_fine:
  assumes c: "core {} r" and bk: "backed {i} r" and lg: "logged r (ar_events r @ batch)" and l: "live r i"
    and o: "tallies (Suc b) r" "zones_open r" "numbered r" and ne: "batch \<noteq> []"
  shows "fine b (az_settle i r batch)"
proof -
  obtain n where n: "az_live_total r i = Ok n" "unat n = strong r i" using live_total_exact[OF c] by blast
  show ?thesis
  proof (cases "n = 0")
    case False
    then have "0 < strong r i" using n(2) by (metis unat_gt_0)
    then have "backed {} r" using bk by (auto simp: backed_def)
    then show ?thesis using False n(1) ne ops_ok_record[OF c _ lg o] by (simp add: az_settle_def az_record_def)
  next
    case True
    then have "linkers r i \<subseteq> {i} \<or> i \<in> {}" using n(2) by (auto simp: strong_def)
    from finalize_exact[OF c lg l this, of Fc_Release] True n(2) obtain r' batch' where f: "az_finalize i Fc_Release r batch = Ok (r', batch')" "core {} r'"
      "logged r' (ar_events r @ batch')" "dies r r'" "backed {} r'"
      using bk by auto
    note k = finalize_keeps[OF f(1)]
    have "ops_ok (Suc b) (r'\<lparr>ar_events := ar_events r @ batch'\<rparr>)"
      by (rule ops_ok_record[OF f(2,5,3)]) (use dies_keeps[OF f(4)] k o in auto)
    moreover have "ar_events r' = ar_events r" using f(4) by (simp add: dies_def)
    ultimately show ?thesis using True n(1) f(1) k by (simp add: az_settle_def az_record_def)
  qed
qed

lemma release_fine:
  assumes ok: "ops_ok b r" and b: "b < MAX_SCRIPT_OPS"
  shows "fine b (az_release i r)"
  unfolding az_release_def
proof (rule fine_bind)
  note o = ops_okD[OF ok]
  fix x assume "az_live_object r i = Ok x"
  then have l: "live r i" using live_object_Ok[OF core_phases[OF o(1)]] by blast
  obtain h where h: "bm_get (ar_held r) i = Some h" using held_entry[OF o(1) l] by blast
  obtain n where n: "u_add (at_released (ar_totals r)) 1 = (Ok n :: u64 az_res)" "unat n = Suc (unat (at_released (ar_totals r)))"
    using u64_count[OF _ b, of "at_released (ar_totals r)"] o(4) by (auto simp: tallies_def)
  let ?r1 = "if 0 < h then r\<lparr>ar_held := bm_insert i (h - 1) (ar_held r)\<rparr>
                   else r\<lparr>ar_base_released := bs_insert i (ar_base_released r)\<rparr>"
  let ?r = "?r1\<lparr>ar_totals := (ar_totals r)\<lparr>at_released := n\<rparr>\<rparr>"
  have one: "unat (h - 1) = unat h - 1" if "0 < h"
    using that by (simp add: unat_sub word_le_nat_alt word_less_nat_alt Suc_le_eq)
  have hd: "held ?r u \<le> held r u" "u \<noteq> i \<Longrightarrow> held ?r u = held r u" for u
    using h one by (auto simp: held_def az_or_zero_def)
  have same: "ar_model ?r = ar_model r" "ar_phases ?r = ar_phases r" "ar_links ?r = ar_links r"
    "ar_degree ?r = ar_degree r" "ar_open ?r = ar_open r" "ar_seq ?r = ar_seq r" "ar_next_seq ?r = ar_next_seq r"
    "ar_status ?r = ar_status r" "ar_events ?r = ar_events r" by simp_all
  have base: "set (ar_base_released ?r) \<subseteq> insert i (set (ar_base_released r))"
    "u \<noteq> i \<Longrightarrow> u \<in> set (ar_base_released ?r) \<longleftrightarrow> u \<in> set (ar_base_released r)" for u by auto
  have "core {} ?r"
  proof (rule core_same[OF o(1) same(1-6)])
    show "\<forall>u. held ?r u \<le> MAX_SCRIPT_OPS" using hd(1) o(1) le_trans unfolding core_def by blast
  qed auto
  moreover have "linkers ?r = linkers r" by (auto simp: linkers_def az_targets_def fun_eq_iff)
  then have "backed {i} ?r" using o(2) hd(2) base(2) unfolding backed_def live_def strong_def same by simp
  moreover have "logged ?r (ar_events ?r @ [Av_Released i])"
    unfolding same(9) by (rule logged_append[OF o(3) same(2)]) (use hd(1) in auto)
  moreover have "live ?r i" using l unfolding live_def same .
  moreover have "tallies (Suc b) ?r"
    using tallies_mono[OF o(4), of "Suc b"] n(2) le_trans[OF hd(1)] o(4) by (auto simp: tallies_def)
  moreover have "zones_open ?r" using o(5) l base(1) unfolding zones_open_def same live_def by auto
  moreover have "numbered ?r" using o(6) unfolding numbered_def same .
  ultimately have "fine b (az_settle i ?r [Av_Released i])" by (intro settle_fine) simp_all
  then show "fine b (res_bind (expect (bm_get (ar_held r) i)) (\<lambda>held.
       if held = 0 \<and> bs_contains (ar_base_released r) i then Err Az_DoubleRelease
       else
         let r1 = (if 0 < held then r\<lparr>ar_held := bm_insert i (held - 1) (ar_held r)\<rparr>
                   else r\<lparr>ar_base_released := bs_insert i (ar_base_released r)\<rparr>)
         in res_bind (u_add (at_released (ar_totals r)) 1) (\<lambda>n.
              az_settle i (r1\<lparr>ar_totals := (ar_totals r)\<lparr>at_released := n\<rparr>\<rparr>) [Av_Released i])))"
    using n(1) by (simp add: h Let_def split del: if_split) simp
qed simp

end
