(* ===== verification/ArcSteps.thy ===== *)
theory ArcSteps
  imports ArcOps "HOL-Library.Sublist"
begin

text \<open>
  Links and zones of a run of \<open>src/arc_zones.rs\<close> keep the invariant; so does every step.
\<close>

section \<open>Heights\<close>

lemma takeWhile_last: "distinct xs \<Longrightarrow> xs \<noteq> [] \<Longrightarrow> takeWhile (\<lambda>x. x \<noteq> last xs) xs = butlast xs"
proof (induction xs)
  case (Cons x xs)
  then show ?case by (cases xs) auto
qed simp

lemma takeWhile_short: "z \<in> set xs \<Longrightarrow> length (takeWhile (\<lambda>x. x \<noteq> z) xs) < length xs"
  by (induction xs) auto

lemma height_last: "distinct (ar_open r) \<Longrightarrow> ar_open r \<noteq> [] \<Longrightarrow> height r (Some (last (ar_open r))) = length (ar_open r) - 1"
  by (simp add: height_def takeWhile_last)

lemma height_open: "z \<in> set (ar_open r) \<Longrightarrow> height r (Some z) < length (ar_open r)"
  by (simp add: height_def takeWhile_short)

lemma height_below:
  assumes "z \<in> set (butlast (ar_open r))"
  shows "height r (Some z) < length (ar_open r) - 1"
proof -
  have "ar_open r = butlast (ar_open r) @ [last (ar_open r)]" using assms by (cases "ar_open r") auto
  then have "takeWhile (\<lambda>x. x \<noteq> z) (ar_open r) = takeWhile (\<lambda>x. x \<noteq> z) (butlast (ar_open r))"
    using assms by (metis (mono_tags, lifting) takeWhile_append1)
  then show ?thesis using takeWhile_short[OF assms] by (simp add: height_def)
qed

section \<open>Links\<close>

lemma zone_thread_Ok: "bm_get (am_zones (ar_model r)) z \<noteq> None \<Longrightarrow> \<exists>t. az_zone_thread r z = Ok t"
  by (auto simp: az_zone_thread_def)

lemma live_zone: "core X r \<Longrightarrow> live r u \<Longrightarrow> \<exists>z\<in>set (ar_open r). zone_of r u = Some z"
  unfolding core_def by blast

lemma az_phase_Live: "az_phase r u = Ph_Live \<longleftrightarrow> live r u"
  by (auto simp: az_phase_def live_def split: option.splits)

lemma object_zone: "az_object r u = Ok entry \<Longrightarrow> zone_of r u = Some (oe_zone entry)"
  by (simp add: az_object_def res_iff zone_of_def)

lemma link_core:
  assumes c: "core {} r" and src: "live r src" and dst: "live r dst"
    and h: "height r (zone_of r dst) \<le> height r (zone_of r src)" and new: "dst \<notin> set (az_targets r src)"
    and d: "unat d = Suc (unat (az_or_zero (bm_get (ar_degree r) dst)))"
    and r': "r' = r\<lparr>ar_links := bm_insert src (bs_insert dst (az_targets r src)) (ar_links r),
                     ar_degree := bm_insert dst d (ar_degree r)\<rparr>"
  shows "core {} r'" and "\<forall>t. linkers r' t = (if t = dst then insert src (linkers r t) else linkers r t)"
proof -
  have tg: "az_targets r' u = (if u = src then bs_insert dst (az_targets r src) else az_targets r u)" for u
    by (simp add: az_targets_def r')
  then show lk: "\<forall>t. linkers r' t = (if t = dst then insert src (linkers r t) else linkers r t)"
    by (auto simp: linkers_def)
  have same: "live r' = live r" "gone r' = gone r" "zone_of r' = zone_of r" "height r' = height r" "held r' = held r"
    by (auto simp: live_def gone_def zone_of_def height_def held_def fun_eq_iff r')
  have deg: "\<forall>t. bm_get (ar_degree r) t \<noteq> Some 0 \<and> unat (az_or_zero (bm_get (ar_degree r) t)) = card (linkers r t)"
    using c unfolding core_def by blast
  have "src \<notin> linkers r dst" using new by (simp add: linkers_def)
  then have cnt: "card (insert src (linkers r dst)) = unat d" using d deg by simp
  have "d \<noteq> 0" using d by auto
  have "bs_ok (az_targets r src)" using c by (auto simp: core_def az_targets_def split: option.splits)
  moreover have "bs_insert dst (az_targets r src) \<noteq> []" by (metis empty_iff insert_iff list.set(1) set_bs_insert)
  ultimately have links: "\<forall>u ts. bm_get (ar_links r') u = Some ts \<longrightarrow> ts \<noteq> [] \<and> bs_ok ts"
    using c by (auto simp: core_def r')
  show "core {} r'"
    unfolding core_def same
  proof (intro conjI)
    show "\<forall>t. bm_get (ar_degree r') t \<noteq> Some 0 \<and> unat (az_or_zero (bm_get (ar_degree r') t)) = card (linkers r' t)"
      using deg lk cnt \<open>d \<noteq> 0\<close> by (auto simp: r' az_or_zero_def)
    show "\<forall>u t. t \<in> set (az_targets r' u) \<longrightarrow> live r u \<and> (live r t \<or> t \<in> {}) \<and> height r (zone_of r t) \<le> height r (zone_of r u)"
      using c src dst h by (auto simp: tg core_def)
  qed (use c links in \<open>auto simp: core_def r'\<close>)
qed

lemma link_fine:
  assumes ok: "ops_ok b r"
  shows "fine b (az_link src dst r)"
  unfolding az_link_def
proof (rule fine_bind)
  note o = ops_okD[OF ok]
  fix x assume "az_live_object r src = Ok x"
  then have src: "live r src" and ne: "ar_open r \<noteq> []" and zs: "zone_of r src = Some (last (ar_open r))"
    using live_object_Ok[OF core_phases[OF o(1)]] by blast+
  show "fine b (res_bind (az_object r dst) (\<lambda>entry.
       if az_phase r dst \<noteq> Ph_Live then Err Az_DeadOrUnconstructedObject
       else
         res_bind (az_current_zone r) (\<lambda>current.
           if bs_contains (ar_unique r) src \<or> bs_contains (ar_unique r) dst then Err Az_SharedUseOfUnique
           else
             res_bind (az_zone_thread r current) (\<lambda>from_thread.
             res_bind (az_zone_thread r (oe_zone entry)) (\<lambda>to_thread.
               if (oe_zone entry \<noteq> current \<or> from_thread \<noteq> to_thread) \<and> oe_shareable entry \<noteq> Az_Shareable
               then Err Az_SharingWithoutShareable
               else if bs_contains (az_targets r src) dst then Err Az_DuplicateLiveLink
               else
                 res_bind (u_add (az_or_zero (bm_get (ar_degree r) dst)) 1) (\<lambda>d.
                   Ok (az_record (r\<lparr>ar_links := bm_insert src (bs_insert dst (az_targets r src)) (ar_links r),
                                    ar_degree := bm_insert dst d (ar_degree r)\<rparr>) [Av_Linked src dst])))))))"
  proof (rule fine_bind)
    fix entry assume "az_object r dst = Ok entry"
    then have zd: "zone_of r dst = Some (oe_zone entry)" by (rule object_zone)
    obtain d where d: "u_add (az_or_zero (bm_get (ar_degree r) dst)) 1 = (Ok d :: u32 az_res)"
      "unat d = Suc (unat (az_or_zero (bm_get (ar_degree r) dst)))"
    proof -
      have "unat (az_or_zero (bm_get (ar_degree r) dst)) \<le> 4096"
        using linkers_bound[OF o(1), of dst] o(1) by (simp add: core_def MAX_OBJECTS_def)
      then show ?thesis
        using that checked_add_fits[of "az_or_zero (bm_get (ar_degree r) dst)" 1] by (auto simp: u_add_def)
    qed
    let ?r = "r\<lparr>ar_links := bm_insert src (bs_insert dst (az_targets r src)) (ar_links r),
                ar_degree := bm_insert dst d (ar_degree r)\<rparr>"
    have dist: "distinct (ar_open r)" and opened: "\<forall>z\<in>set (ar_open r). bm_get (am_zones (ar_model r)) z \<noteq> None"
      using o(5) by (simp_all add: zones_open_def)
    have good: "ops_ok (Suc b) (?r\<lparr>ar_events := ar_events r @ [Av_Linked src dst]\<rparr>)"
      if dst: "live r dst" and new: "dst \<notin> set (az_targets r src)"
    proof (rule ops_ok_record)
      obtain z where z: "z \<in> set (ar_open r)" "zone_of r dst = Some z" using live_zone[OF o(1) dst] by blast
      then have h: "height r (zone_of r dst) \<le> height r (zone_of r src)"
        using height_open[OF z(1)] height_last[OF dist ne] zs by simp
      note link = link_core[OF o(1) src dst h new d(2) refl]
      show "core {} ?r" by (rule link(1))
      have "card (linkers r t) \<le> card (linkers ?r t)" for t using link(2) by (intro card_mono) auto
      then have "strong r t \<le> strong ?r t" for t by (simp add: strong_def held_def)
      then show "backed {} ?r" using o(2) less_le_trans unfolding backed_def live_def by fastforce
      show "logged ?r (ar_events r @ [Av_Linked src dst])" by (rule logged_append[OF o(3)]) (simp_all add: held_def)
      show "tallies (Suc b) ?r" using tallies_mono[OF o(4), of "Suc b"] by (simp add: tallies_def held_def)
      show "zones_open ?r" "numbered ?r" using o(5,6) by (simp_all add: zones_open_def numbered_def)
    qed
    have "last (ar_open r) \<in> set (ar_open r)" using ne by simp
    then obtain t1 where t1: "az_zone_thread r (last (ar_open r)) = Ok t1" using zone_thread_Ok opened by blast
    have placed: "bm_get (am_zones (ar_model r)) (oe_zone entry) \<noteq> None"
      using o(1) \<open>az_object r dst = Ok entry\<close>
      by (simp add: core_def arc_model_ok_def objects_placed_def az_object_def res_iff)
    from zone_thread_Ok[OF this] obtain t2 where t2: "az_zone_thread r (oe_zone entry) = Ok t2" by blast
    show "fine b (if az_phase r dst \<noteq> Ph_Live then Err Az_DeadOrUnconstructedObject
       else
         res_bind (az_current_zone r) (\<lambda>current.
           if bs_contains (ar_unique r) src \<or> bs_contains (ar_unique r) dst then Err Az_SharedUseOfUnique
           else
             res_bind (az_zone_thread r current) (\<lambda>from_thread.
             res_bind (az_zone_thread r (oe_zone entry)) (\<lambda>to_thread.
               if (oe_zone entry \<noteq> current \<or> from_thread \<noteq> to_thread) \<and> oe_shareable entry \<noteq> Az_Shareable
               then Err Az_SharingWithoutShareable
               else if bs_contains (az_targets r src) dst then Err Az_DuplicateLiveLink
               else
                 res_bind (u_add (az_or_zero (bm_get (ar_degree r) dst)) 1) (\<lambda>d.
                   Ok (az_record (r\<lparr>ar_links := bm_insert src (bs_insert dst (az_targets r src)) (ar_links r),
                                    ar_degree := bm_insert dst d (ar_degree r)\<rparr>) [Av_Linked src dst]))))))"
      using good ne t1 t2 d(1)
      by (simp add: az_current_zone_def az_phase_Live bs_contains_def az_record_def)
  qed (simp add: az_object_def)
qed simp

section \<open>Unlinking\<close>

lemma unlink_core:
  assumes c: "core {} r" and dst: "dst \<in> set (az_targets r src)"
  shows "\<exists>degrees. az_lower dst (ar_degree r) = Ok degrees
     \<and> (\<forall>r'. r' = r\<lparr>ar_links := (if bs_remove dst (az_targets r src) = [] then bm_delete src (ar_links r)
              else bm_insert src (bs_remove dst (az_targets r src)) (ar_links r)), ar_degree := degrees\<rparr> \<longrightarrow>
          core {} r' \<and> (\<forall>t. linkers r' t = (if t = dst then linkers r t - {src} else linkers r t)))"
proof -
  have deg: "\<forall>t. bm_get (ar_degree r) t \<noteq> Some 0 \<and> unat (az_or_zero (bm_get (ar_degree r) t)) = card (linkers r t)"
    using c unfolding core_def by blast
  have src: "src \<in> linkers r dst" using dst by (simp add: linkers_def)
  then have "0 < card (linkers r dst)" by (auto simp: card_gt_0_iff)
  then have "bm_get (ar_degree r) dst \<noteq> None" using deg by (metis az_or_zero_def option.case(1) less_irrefl unat_0)
  from lower_exact[OF this] deg obtain degrees where d: "az_lower dst (ar_degree r) = Ok degrees"
    "\<forall>j. bm_get degrees j \<noteq> Some 0"
    "\<forall>j. unat (az_or_zero (bm_get degrees j)) = unat (az_or_zero (bm_get (ar_degree r) j)) - (if j = dst then 1 else 0)"
    by blast
  let ?left = "bs_remove dst (az_targets r src)"
  define r' where "r' = r\<lparr>ar_links := (if ?left = [] then bm_delete src (ar_links r) else bm_insert src ?left (ar_links r)),
      ar_degree := degrees\<rparr>"
  have tg: "az_targets r' u = (if u = src then ?left else az_targets r u)" for u by (simp add: az_targets_def r'_def)
  have lk: "linkers r' t = (if t = dst then linkers r t - {src} else linkers r t)" for t
    using dst by (auto simp: linkers_def tg)
  have same: "live r' = live r" "gone r' = gone r" "zone_of r' = zone_of r" "height r' = height r" "held r' = held r"
    "ar_phases r' = ar_phases r" "ar_model r' = ar_model r" "ar_held r' = ar_held r" "ar_seq r' = ar_seq r"
    "ar_open r' = ar_open r" "ar_totals r' = ar_totals r"
    by (auto simp: live_def gone_def zone_of_def height_def held_def fun_eq_iff r'_def)
  have "bs_ok (az_targets r src)" using c by (auto simp: core_def az_targets_def split: option.splits)
  then have links: "\<forall>u ts. bm_get (ar_links r') u = Some ts \<longrightarrow> ts \<noteq> [] \<and> bs_ok ts" "bm_ok (ar_links r')"
    using c by (auto simp: core_def r'_def)
  have degs: "\<forall>t. bm_get (ar_degree r') t \<noteq> Some 0 \<and> unat (az_or_zero (bm_get (ar_degree r') t)) = card (linkers r' t)"
  proof -
    have "ar_degree r' = degrees" by (simp add: r'_def)
    then show ?thesis using deg d src by (simp add: lk)
  qed
  have edges: "\<forall>u t. t \<in> set (az_targets r' u) \<longrightarrow> live r u \<and> (live r t \<or> t \<in> {}) \<and> height r (zone_of r t) \<le> height r (zone_of r u)"
    using c by (auto simp: tg core_def)
  have "core {} r'"
    using c links degs edges unfolding core_def same by blast
  then show ?thesis using d(1) lk unfolding r'_def by blast
qed

lemma unlink_fine:
  assumes ok: "ops_ok b r"
  shows "fine b (az_unlink src dst r)"
  unfolding az_unlink_def
proof (rule fine_bind)
  note o = ops_okD[OF ok]
  show "fine b (if az_phase r dst \<noteq> Ph_Live then Err Az_DeadOrUnconstructedObject
       else if \<not> bs_contains (az_targets r src) dst then Err Az_UnknownLiveLink
       else
         let left = bs_remove dst (az_targets r src);
             links = (if left = [] then bm_delete src (ar_links r) else bm_insert src left (ar_links r))
         in res_bind (az_lower dst (ar_degree r)) (\<lambda>degrees.
              az_settle dst (r\<lparr>ar_links := links, ar_degree := degrees\<rparr>) [Av_Unlinked src dst]))"
  proof (cases "live r dst \<and> dst \<in> set (az_targets r src)")
    case True
    let ?left = "bs_remove dst (az_targets r src)"
    obtain degrees where d: "az_lower dst (ar_degree r) = Ok degrees" and
      lower: "\<forall>r'. r' = r\<lparr>ar_links := (if ?left = [] then bm_delete src (ar_links r)
              else bm_insert src ?left (ar_links r)), ar_degree := degrees\<rparr> \<longrightarrow>
          core {} r' \<and> (\<forall>t. linkers r' t = (if t = dst then linkers r t - {src} else linkers r t))"
      using unlink_core[OF o(1)] True by blast
    define r' where "r' = r\<lparr>ar_links := (if ?left = [] then bm_delete src (ar_links r)
              else bm_insert src ?left (ar_links r)), ar_degree := degrees\<rparr>"
    have same: "ar_phases r' = ar_phases r" "ar_held r' = ar_held r" "ar_base_released r' = ar_base_released r"
      "ar_events r' = ar_events r" "ar_open r' = ar_open r" "ar_model r' = ar_model r" "ar_status r' = ar_status r"
      "ar_seq r' = ar_seq r" "ar_next_seq r' = ar_next_seq r" "ar_totals r' = ar_totals r" by (simp_all add: r'_def)
    have "fine b (az_settle dst r' [Av_Unlinked src dst])"
    proof (rule settle_fine)
      show "core {} r'" using lower r'_def by blast
      show "backed {dst} r'" using o(2) lower r'_def by (auto simp: backed_def live_def strong_def held_def same)
      show "logged r' (ar_events r' @ [Av_Unlinked src dst])"
        unfolding same by (rule logged_append[OF o(3)]) (simp_all add: held_def same)
      show "live r' dst" using True by (simp add: live_def same)
      show "tallies (Suc b) r'" using tallies_mono[OF o(4), of "Suc b"] by (simp add: tallies_def held_def same)
      show "zones_open r'" "numbered r'" using o(5,6) by (simp_all add: zones_open_def numbered_def same)
    qed simp
    then show ?thesis using True d by (simp add: az_phase_Live bs_contains_def Let_def r'_def)
  next
    case False
    then show ?thesis by (auto simp: az_phase_Live bs_contains_def)
  qed
qed simp

section \<open>Zones\<close>

lemma enter_fine:
  assumes ok: "ops_ok b r" and b: "b < MAX_SCRIPT_OPS" and s: "ar_status r = Rs_Running"
  shows "fine b (az_enter_zone zone r)"
  unfolding az_enter_zone_def
proof (rule fine_bind)
  note o = ops_okD[OF ok]
  fix entry assume "ok_or Az_UnknownZone (bm_get (am_zones (ar_model r)) zone) = (Ok entry :: zone_entry az_res)"
  then have z: "bm_get (am_zones (ar_model r)) zone = Some entry" by (simp add: res_iff)
  obtain n where n: "u_add (at_zones_entered (ar_totals r)) 1 = (Ok n :: u64 az_res)"
    "unat n = Suc (unat (at_zones_entered (ar_totals r)))"
    using u64_count[OF _ b, of "at_zones_entered (ar_totals r)"] o(4) by (auto simp: tallies_def)
  define r' where "r' = r\<lparr>ar_open := ar_open r @ [zone], ar_totals := (ar_totals r)\<lparr>at_zones_entered := n\<rparr>\<rparr>"
  have same: "live r' = live r" "gone r' = gone r" "zone_of r' = zone_of r" "held r' = held r" "linkers r' = linkers r"
    "az_targets r' = az_targets r" "ar_phases r' = ar_phases r" "ar_model r' = ar_model r" "ar_held r' = ar_held r"
    "ar_seq r' = ar_seq r" "ar_degree r' = ar_degree r" "ar_links r' = ar_links r"
    "ar_base_released r' = ar_base_released r" "ar_next_seq r' = ar_next_seq r" "ar_status r' = ar_status r"
    "at_finalized (ar_totals r') = at_finalized (ar_totals r)" "ar_open r' = ar_open r @ [zone]"
    by (auto simp: live_def gone_def zone_of_def held_def linkers_def az_targets_def fun_eq_iff r'_def)
  have h: "height r' (zone_of r u) = height r (zone_of r u)" if "live r u" for u
    using live_zone[OF o(1) that] by (auto simp: height_def same takeWhile_append1)
  have edges: "\<forall>u t. t \<in> set (az_targets r u) \<longrightarrow> live r u \<and> (live r t \<or> t \<in> {}) \<and> height r' (zone_of r t) \<le> height r' (zone_of r u)"
    using o(1) h by (auto simp: core_def)
  have zones: "\<forall>u. live r u \<longrightarrow> (\<exists>z\<in>set (ar_open r @ [zone]). zone_of r u = Some z)" using live_zone[OF o(1)] by auto
  have "core {} r'" using o(1) edges zones unfolding core_def same by blast
  moreover have "backed {} r'" using o(2) unfolding backed_def strong_def same .
  moreover have "logged r' (ar_events r @ [Av_ZoneEntered zone])" by (rule logged_append[OF o(3)]) (simp_all add: held_def same)
  moreover have "tallies (Suc b) r'" using o(4) n(2) by (auto simp: tallies_def held_def r'_def le_SucI)
  moreover have "zones_open r'" if "zone \<notin> set (ar_open r)" using that o(5) z s by (auto simp: zones_open_def same)
  moreover have "numbered r'" using o(6) unfolding numbered_def same .
  ultimately have "zone \<notin> set (ar_open r) \<Longrightarrow> ops_ok (Suc b) (r'\<lparr>ar_events := ar_events r @ [Av_ZoneEntered zone]\<rparr>)"
    using ops_ok_record by blast
  then show "fine b (if zone \<in> set (ar_open r) then Err Az_ZoneAlreadyOpen
       else if (case ze_parent entry of
                  Some parent \<Rightarrow> ar_open r = [] \<or> last (ar_open r) \<noteq> parent
                | None \<Rightarrow> ar_open r \<noteq> [])
       then Err Az_ParentNotOpen
       else
         res_bind (u_add (at_zones_entered (ar_totals r)) 1) (\<lambda>n.
           Ok (az_record (r\<lparr>ar_open := ar_open r @ [zone],
                            ar_totals := (ar_totals r)\<lparr>at_zones_entered := n\<rparr>\<rparr>) [Av_ZoneEntered zone])))"
    by (simp add: n(1) az_record_def r'_def)
qed simp

lemma live_here:
  assumes "core X r"
  shows "u \<in> set (az_live_here r zone) \<longleftrightarrow> live r u \<and> zone_of r u = Some zone"
proof -
  have "bm_ok (ar_phases r)" using assms by (simp add: core_def)
  then have "live r u \<longleftrightarrow> (u, Ph_Live) \<in> set (ar_phases r)" unfolding live_def by (rule bm_get_iff)
  then show ?thesis unfolding az_live_here_def zone_of_def by force
qed

lemma seqs_Ok:
  "\<forall>i\<in>set is. bm_get (ar_seq r) i \<noteq> None \<Longrightarrow> \<exists>rows. az_seqs r is = Ok rows \<and> map snd rows = is"
  by (induction "is") auto

lemma reject_fine:
  assumes ok: "ops_ok b r" and b: "b < MAX_SCRIPT_OPS"
  shows "fine b (az_reject zone witness r)"
proof -
  note o = ops_okD[OF ok]
  obtain n where n: "u_add (at_zones_rejected (ar_totals r)) 1 = (Ok n :: u64 az_res)"
    "unat n = Suc (unat (at_zones_rejected (ar_totals r)))"
    using u64_count[OF _ b, of "at_zones_rejected (ar_totals r)"] o(4) by (auto simp: tallies_def)
  let ?r = "r\<lparr>ar_status := Rs_Rejected, ar_witness := Some witness, ar_totals := (ar_totals r)\<lparr>at_zones_rejected := n\<rparr>\<rparr>"
  have "core {} ?r" by (rule core_same[OF o(1)]) (use o(1) in \<open>simp_all add: core_def held_def\<close>)
  moreover have "backed {} ?r" using o(2) by (simp add: backed_def live_def strong_def linkers_def az_targets_def held_def)
  moreover have "logged ?r (ar_events r @ [Av_ZoneRejectedCycle zone witness])" by (rule logged_append[OF o(3)]) (simp_all add: held_def)
  moreover have "tallies (Suc b) ?r" using o(4) n(2) by (auto simp: tallies_def held_def le_SucI)
  moreover have "zones_open ?r" "numbered ?r" using o(5,6) by (auto simp: zones_open_def numbered_def)
  ultimately have "ops_ok (Suc b) (?r\<lparr>ar_events := ar_events r @ [Av_ZoneRejectedCycle zone witness]\<rparr>)"
    by (rule ops_ok_record)
  then show ?thesis by (simp add: az_reject_def n(1) az_record_def)
qed

text \<open>Once the innermost zone has no live object, it can be closed.\<close>

lemma close_core:
  assumes c: "core {u. zone_of r u = Some (last (ar_open r))} r" and dist: "distinct (ar_open r)" and ne: "ar_open r \<noteq> []"
    and empty: "\<forall>u. live r u \<longrightarrow> zone_of r u \<noteq> Some (last (ar_open r))"
    and same: "ar_model r' = ar_model r" "ar_phases r' = ar_phases r" "ar_links r' = ar_links r"
      "ar_degree r' = ar_degree r" "ar_seq r' = ar_seq r" "ar_held r' = ar_held r"
      "at_finalized (ar_totals r') = at_finalized (ar_totals r)" and open': "ar_open r' = butlast (ar_open r)"
  shows "core {} r'"
proof -
  have eq: "az_targets r' = az_targets r" "linkers r' = linkers r" "live r' = live r" "gone r' = gone r"
    "zone_of r' = zone_of r" "held r' = held r"
    using same by (auto simp: az_targets_def linkers_def live_def gone_def zone_of_def held_def fun_eq_iff)
  have opn: "ar_open r = butlast (ar_open r) @ [last (ar_open r)]" using ne by simp
  have zones: "\<exists>z\<in>set (butlast (ar_open r)). zone_of r u = Some z" if "live r u" for u
    using live_zone[OF c that] empty that by (subst (asm) opn) auto
  have h: "height r' (zone_of r u) = height r (zone_of r u)" if l: "live r u" for u
  proof -
    obtain z where z: "z \<in> set (butlast (ar_open r))" "zone_of r u = Some z" using zones[OF l] by blast
    then have "takeWhile (\<lambda>x. x \<noteq> z) (ar_open r) = takeWhile (\<lambda>x. x \<noteq> z) (butlast (ar_open r))"
      by (metis (mono_tags, lifting) opn takeWhile_append1)
    then show ?thesis using z by (simp add: height_def open')
  qed
  have edges: "live r u \<and> live r t \<and> height r' (zone_of r t) \<le> height r' (zone_of r u)" if "t \<in> set (az_targets r u)" for u t
  proof -
    have e: "live r u" "live r t \<or> zone_of r t = Some (last (ar_open r))" "height r (zone_of r t) \<le> height r (zone_of r u)"
      using c that unfolding core_def by blast+
    obtain z where z: "z \<in> set (butlast (ar_open r))" "zone_of r u = Some z" using zones[OF e(1)] by blast
    have "zone_of r t \<noteq> Some (last (ar_open r))"
      using e(3) height_below[OF z(1)] height_last[OF dist ne] z(2) by auto
    then show ?thesis using e h by auto
  qed
  show ?thesis
    using c edges zones unfolding core_def eq same open' by blast
qed

section \<open>The order of a drain\<close>

text \<open>The objects finalized by the exit itself, in the order of the events.\<close>

fun exited_object :: "arc_event \<Rightarrow> decl_id list" where
  "exited_object (Av_Finalized u Fc_ZoneExit) = [u]"
| "exited_object _ = []"

definition zone_exits :: "arc_event list \<Rightarrow> decl_id list" where
  "zone_exits evs = concat (map exited_object evs)"

lemma zone_exits_append [simp]: "zone_exits (xs @ ys) = zone_exits xs @ zone_exits ys"
  by (simp add: zone_exits_def)

lemma zone_exits_Cons: "zone_exits (e # es) = exited_object e @ zone_exits es"
  by (simp add: zone_exits_def)

lemma exits_closing: "zone_exits [Av_ZoneExited zone] = []"
  by (simp add: zone_exits_def)

text \<open>
  A batch of events that drains a list: the objects the exit finalizes itself come in the order of
  the list, and each only after every object before it was finalized, by the exit or by a cascade.
\<close>

definition drained :: "arc_run \<Rightarrow> decl_id list \<Rightarrow> arc_event list \<Rightarrow> bool" where
  "drained r is evs \<longleftrightarrow> subseq (zone_exits evs) is
     \<and> (\<forall>pre v post. evs = pre @ Av_Finalized v Fc_ZoneExit # post \<longrightarrow>
          (\<forall>u\<in>set (takeWhile (\<lambda>x. x \<noteq> v) is). live r u \<longrightarrow> (\<exists>cause. Av_Finalized u cause \<in> set pre)))"

lemma cascade_deaths: "az_cascade waiting r batch = Ok (r', b) \<Longrightarrow>
    \<exists>more. b = batch @ more \<and> zone_exits more = [] \<and> (\<forall>u. live r u \<longrightarrow> live r' u \<or> Av_Finalized u Fc_Cascade \<in> set more)"
proof (induction waiting r batch rule: az_cascade.induct)
  case (2 t waiting r batch)
  show ?case
  proof (cases "bm_get (ar_phases r) t = Some Ph_Live \<and> az_live_total r t = Ok 0")
    case True
    then obtain r1 where r1: "az_finalize_one r t = Ok r1"
      "az_cascade (az_targets r t @ waiting) r1 (batch @ [Av_Finalized t Fc_Cascade]) = Ok (r', b)"
      using 2(4) by (auto split: res.splits)
    obtain more where "b = (batch @ [Av_Finalized t Fc_Cascade]) @ more" "zone_exits more = []"
      "\<forall>u. live r1 u \<longrightarrow> live r' u \<or> Av_Finalized u Fc_Cascade \<in> set more"
      using 2(3)[OF _ _ _ r1] True by auto
    moreover have "live r1 u \<longleftrightarrow> live r u \<and> u \<noteq> t" for u
      using finalize_one_phases[OF r1(1)] by (auto simp: live_def)
    ultimately show ?thesis
      by (intro exI[of _ "Av_Finalized t Fc_Cascade # more"]) (auto simp: zone_exits_def)
  next
    case False
    then show ?thesis using 2(1,2,4) by (auto split: if_splits res.splits)
  qed
qed (simp add: zone_exits_def)

lemma finalize_deaths: "az_finalize i Fc_ZoneExit r batch = Ok (r', b) \<Longrightarrow>
    \<exists>more. b = batch @ Av_Finalized i Fc_ZoneExit # more \<and> zone_exits more = []
      \<and> (\<forall>u. live r u \<longrightarrow> live r' u \<or> u = i \<or> Av_Finalized u Fc_Cascade \<in> set more)"
proof -
  assume f: "az_finalize i Fc_ZoneExit r batch = Ok (r', b)"
  then obtain r1 where r1: "az_finalize_one r i = Ok r1"
    "az_cascade (az_targets r i) r1 (batch @ [Av_Finalized i Fc_ZoneExit]) = Ok (r', b)"
    by (auto simp: az_finalize_def res_iff)
  have "live r1 u \<longleftrightarrow> live r u \<and> u \<noteq> i" for u using finalize_one_phases[OF r1(1)] by (auto simp: live_def)
  with cascade_deaths[OF r1(2)] show ?thesis by auto
qed

text \<open>Where an exit event falls in two batches in a row.\<close>

lemma split_at_exit:
  assumes "Av_Finalized i Fc_ZoneExit # xs @ ys = pre @ Av_Finalized v Fc_ZoneExit # post" and "zone_exits xs = []"
  shows "pre = [] \<and> v = i \<or> (\<exists>pre'. pre = Av_Finalized i Fc_ZoneExit # xs @ pre' \<and> ys = pre' @ Av_Finalized v Fc_ZoneExit # post)"
proof (cases pre)
  case (Cons e es)
  have "Av_Finalized v Fc_ZoneExit \<notin> set xs"
  proof
    assume "Av_Finalized v Fc_ZoneExit \<in> set xs"
    then show False using assms(2) by (auto simp: zone_exits_def dest!: split_list)
  qed
  with assms(1) Cons show ?thesis by (auto simp: append_eq_append_conv2 append_eq_Cons_conv)
qed (use assms in auto)

lemma drain_drained:
  "az_drain is r batch = Ok (r', b) \<Longrightarrow> \<exists>more. b = batch @ more \<and> drained r is more"
proof (induction "is" r batch rule: az_drain.induct)
  case (2 i "is" r batch)
  show ?case
  proof (cases "bm_get (ar_phases r) i = Some Ph_Live")
    case True
    then obtain r1 b1 where f: "az_finalize i Fc_ZoneExit r batch = Ok (r1, b1)" "az_drain is r1 b1 = Ok (r', b)"
      using 2(3) by (auto simp: res_iff)
    obtain xs where xs: "b1 = batch @ Av_Finalized i Fc_ZoneExit # xs" "zone_exits xs = []"
      "\<forall>u. live r u \<longrightarrow> live r1 u \<or> u = i \<or> Av_Finalized u Fc_Cascade \<in> set xs"
      using finalize_deaths[OF f(1)] by blast
    obtain ys where ys: "b = b1 @ ys" "drained r1 is ys" using 2(1)[OF True f(2)] by blast
    have "drained r (i # is) (Av_Finalized i Fc_ZoneExit # xs @ ys)"
      unfolding drained_def
    proof (intro conjI allI impI)
      show "subseq (zone_exits (Av_Finalized i Fc_ZoneExit # xs @ ys)) (i # is)"
        using xs(2) ys(2) by (simp add: zone_exits_Cons drained_def)
    next
      fix pre v post
      assume s: "Av_Finalized i Fc_ZoneExit # xs @ ys = pre @ Av_Finalized v Fc_ZoneExit # post"
      show "\<forall>u\<in>set (takeWhile (\<lambda>x. x \<noteq> v) (i # is)). live r u \<longrightarrow> (\<exists>cause. Av_Finalized u cause \<in> set pre)"
        using split_at_exit[OF s xs(2)] xs(3) ys(2) by (auto simp: drained_def split: if_splits) blast+
    qed
    then show ?thesis using ys(1) xs(1) by simp
  next
    case False
    then obtain more where "b = batch @ more" "drained r is more" using 2(2)[OF False] 2(3) by auto
    then show ?thesis using False by (auto simp: drained_def live_def)
  qed
qed (simp add: drained_def zone_exits_def)

lemma drained_close:
  assumes "drained r is evs"
  shows "drained r is (evs @ [Av_ZoneExited zone])"
  unfolding drained_def
proof (intro conjI allI impI)
  show "subseq (zone_exits (evs @ [Av_ZoneExited zone])) is" using assms by (simp add: drained_def exits_closing)
next
  fix pre v post
  assume s: "evs @ [Av_ZoneExited zone] = pre @ Av_Finalized v Fc_ZoneExit # post"
  then obtain post' where "evs = pre @ Av_Finalized v Fc_ZoneExit # post'" by (cases post rule: rev_cases) auto
  then show "\<forall>u\<in>set (takeWhile (\<lambda>x. x \<noteq> v) is). live r u \<longrightarrow> (\<exists>cause. Av_Finalized u cause \<in> set pre)"
    using assms by (simp add: drained_def)
qed

definition seq_of :: "arc_run \<Rightarrow> decl_id \<Rightarrow> u64" where
  "seq_of r u = (case bm_get (ar_seq r) u of None \<Rightarrow> 0 | Some n \<Rightarrow> n)"

lemma seqs_rows: "az_seqs r is = Ok rows \<Longrightarrow> \<forall>(n, i)\<in>set rows. bm_get (ar_seq r) i = Some n"
  by (induction "is" arbitrary: rows) (auto simp: res_iff)

lemma seqs_order:
  assumes rows: "az_seqs r (az_live_here r zone) = Ok rows" "map snd rows = az_live_here r zone"
    and c: "core X r" and nu: "numbered r"
  shows "sorted_wrt (\<lambda>u v. seq_of r v < seq_of r u) (map snd (rev (sort rows)))"
proof -
  have "distinct (map fst (ar_phases r))" using c by (simp add: core_def bm_ok_def strict_sorted_iff)
  then have "distinct (az_live_here r zone)" by (simp add: az_live_here_def distinct_map_filter)
  then have "distinct rows" using rows(2) by (metis distinct_map)
  then have "sorted_wrt (<) (sort rows)" by (simp add: strict_sorted_iff)
  moreover have "seq_of r (snd p) < seq_of r (snd q)" if "p \<in> set rows" "q \<in> set rows" "p < q" for p q
  proof -
    have s: "bm_get (ar_seq r) (snd p) = Some (fst p)" "bm_get (ar_seq r) (snd q) = Some (fst q)"
      using that seqs_rows[OF rows(1)] by auto
    then have "fst p = fst q \<longrightarrow> snd p = snd q" using nu by (simp add: numbered_def)
    then have "fst p < fst q" using that(3) by (cases p; cases q) (auto simp: less_prod_def)
    then show ?thesis using s by (simp add: seq_of_def)
  qed
  ultimately show ?thesis by (auto simp: sorted_wrt_map sorted_wrt_rev elim!: sorted_wrt_mono_rel[rotated])
qed

lemma leave_exact:
  assumes ok: "ops_ok b r" and b: "b < MAX_SCRIPT_OPS" and ne: "ar_open r \<noteq> []"
  shows "\<exists>r' evs. az_leave (last (ar_open r)) (az_live_here r (last (ar_open r))) r = Ok (r', evs)
     \<and> ops_ok (Suc b) r' \<and> ar_open r' = butlast (ar_open r) \<and> evs \<noteq> []
     \<and> (\<forall>u\<in>set (az_live_here r (last (ar_open r))). gone r' u)
     \<and> ar_events r' = ar_events r @ evs
     \<and> (\<exists>order. sorted_wrt (\<lambda>u v. seq_of r v < seq_of r u) order
          \<and> set order = set (az_live_here r (last (ar_open r))) \<and> drained r order evs)"
proof -
  note o = ops_okD[OF ok]
  let ?zone = "last (ar_open r)" and ?here = "az_live_here r (last (ar_open r))"
  have "\<forall>i\<in>set ?here. bm_get (ar_seq r) i \<noteq> None" using o(1) live_here[OF o(1)] by (auto simp: core_def live_def)
  from seqs_Ok[OF this] obtain rows where rows: "az_seqs r ?here = Ok rows" "map snd rows = ?here" by blast
  let ?order = "map snd (rev (sort rows))"
  have order: "set ?order = set ?here" using rows(2) by (metis set_map set_rev set_sort)
  have down: "sorted_wrt (\<lambda>u v. seq_of r v < seq_of r u) ?order" using seqs_order[OF rows o(1,6)] .
  let ?X = "{u. zone_of r u = Some ?zone}"
  have "core ?X r" using core_subset[OF o(1)] by simp
  from drain_exact[OF this, of "ar_events r" "[]" ?order] o(3) live_here[OF o(1)] order
  obtain r1 batch where d: "az_drain ?order r [] = Ok (r1, batch)" "core ?X r1" "logged r1 (ar_events r @ batch)"
    "dies r r1" "backed {} r \<longrightarrow> backed {} r1" "\<forall>i\<in>set ?order. \<not> live r1 i" by auto
  have fr: "ar_open r1 = ar_open r" "ar_model r1 = ar_model r" "ar_events r1 = ar_events r" "ar_status r1 = ar_status r"
    using d(4) by (simp_all add: dies_def az_frame_def)
  have zo: "zone_of r1 = zone_of r" by (simp add: zone_of_def fun_eq_iff fr)
  have empty: "\<forall>u. live r1 u \<longrightarrow> zone_of r1 u \<noteq> Some (last (ar_open r1))"
    using d(6) dies_linkers[OF d(4)] live_here[OF o(1)] order unfolding zo fr by blast
  have t1: "tallies b r1" "zones_open r1" "numbered r1"
    using dies_keeps[OF d(4) drain_keeps[OF d(1)]] o(4-6) by simp_all
  obtain n where n: "u_add (at_zones_exited (ar_totals r1)) 1 = (Ok n :: u64 az_res)"
    "unat n = Suc (unat (at_zones_exited (ar_totals r1)))"
    using u64_count[OF _ b, of "at_zones_exited (ar_totals r1)"] t1(1) by (auto simp: tallies_def)
  define r' where "r' = r1\<lparr>ar_open := butlast (ar_open r1), ar_totals := (ar_totals r1)\<lparr>at_zones_exited := n\<rparr>,
      ar_status := (if butlast (ar_open r1) = [] then Rs_Complete else ar_status r1)\<rparr>"
  have same: "ar_model r' = ar_model r1" "ar_phases r' = ar_phases r1" "ar_links r' = ar_links r1"
      "ar_degree r' = ar_degree r1" "ar_seq r' = ar_seq r1" "ar_held r' = ar_held r1"
      "at_finalized (ar_totals r') = at_finalized (ar_totals r1)" "ar_open r' = butlast (ar_open r1)"
      "ar_base_released r' = ar_base_released r1" "ar_next_seq r' = ar_next_seq r1"
      "ar_status r' = (if butlast (ar_open r1) = [] then Rs_Complete else ar_status r1)" by (simp_all add: r'_def)
  have "core {} r'"
    by (rule close_core[of r1]) (use d(2) empty t1(2) ne same in \<open>simp_all add: zo fr zones_open_def\<close>)
  moreover have "backed {} r'"
    using d(5) o(2) by (simp add: backed_def live_def strong_def linkers_def az_targets_def held_def same)
  moreover have "logged r' ((ar_events r @ batch) @ [Av_ZoneExited ?zone])"
    by (rule logged_append[OF d(3)]) (simp_all add: held_def same)
  moreover have "tallies (Suc b) r'" using t1(1) n(2) by (auto simp: tallies_def held_def r'_def le_SucI)
  moreover have "zones_open r'"
    using t1(2) by (auto simp: zones_open_def same distinct_butlast dest: in_set_butlastD)
  moreover have "numbered r'" using t1(3) unfolding numbered_def same .
  ultimately have "ops_ok (Suc b) (r'\<lparr>ar_events := (ar_events r @ batch) @ [Av_ZoneExited ?zone]\<rparr>)"
    by (rule ops_ok_record)
  moreover have "gone r1 u" if "u \<in> set ?here" for u
  proof -
    have "live r u" using that live_here[OF o(1)] by blast
    moreover have "\<not> live r1 u" using that d(6) unfolding order by blast
    ultimately show ?thesis using d(4) unfolding dies_def gone_def live_def by metis
  qed
  moreover have "\<exists>order. sorted_wrt (\<lambda>u v. seq_of r v < seq_of r u) order \<and> set order = set ?here
      \<and> drained r order (batch @ [Av_ZoneExited ?zone])"
    using drain_drained[OF d(1)] drained_close down order by auto
  ultimately show ?thesis
    by (simp add: az_leave_def rows(1) d(1) n(1) Let_def az_record_def r'_def fr gone_def)
qed

lemma leave_fine:
  assumes "ops_ok b r" and "b < MAX_SCRIPT_OPS" and "ar_open r \<noteq> []"
  shows "fine b (az_leave (last (ar_open r)) (az_live_here r (last (ar_open r))) r)"
  using leave_exact[OF assms] by auto

lemma exit_fine:
  assumes ok: "ops_ok b r" and b: "b < MAX_SCRIPT_OPS"
  shows "fine b (az_exit_zone zone r)"
proof (cases "bm_contains (am_zones (ar_model r)) zone \<and> ar_open r \<noteq> [] \<and> last (ar_open r) = zone")
  case True
  note o = ops_okD[OF ok]
  let ?here = "az_live_here r zone"
  have "\<forall>v\<in>set ?here. bm_get (ar_phases r) v = Some Ph_Live" using live_here[OF o(1)] by (simp add: live_def)
  from cycle_participants_correct[OF this] obtain ps where "az_cycle_participants ?here (ar_links r) (ar_phases r) = Ok ps"
    by blast
  moreover have "fine b (az_leave zone ?here r)" using leave_fine[OF ok b] True by auto
  ultimately show ?thesis using True reject_fine[OF ok b] by (auto simp: az_exit_zone_def Let_def split: option.splits)
next
  case False
  then show ?thesis by (auto simp: az_exit_zone_def)
qed

lemma apply_fine:
  assumes "ops_ok b r" and "b < MAX_SCRIPT_OPS" and "ar_status r = Rs_Running"
  shows "fine b (az_apply oper r)"
  using assms
  by (cases oper) (simp_all add: construct_fine retain_fine release_fine link_fine unlink_fine demote_fine enter_fine exit_fine)

section \<open>Steps\<close>

definition arc_run_ok :: "arc_run \<Rightarrow> bool" where
  "arc_run_ok r \<longleftrightarrow> ops_ok (ar_cursor r) r \<and> (0 < ar_cursor r \<longrightarrow> length (ar_script r) \<le> MAX_SCRIPT_OPS)
     \<and> ar_cursor r \<le> length (ar_script r)"

lemma ops_ok_cursor:
  assumes "ops_ok b r" and "b \<le> c"
  shows "ops_ok c (r\<lparr>ar_cursor := n\<rparr>)"
proof -
  note o = ops_okD[OF assms(1)]
  let ?r = "r\<lparr>ar_cursor := n\<rparr>"
  have "core {} ?r" by (rule core_same[OF o(1)]) (use o(1) in \<open>simp_all add: core_def held_def\<close>)
  moreover have "backed {} ?r" using o(2) by (simp add: backed_def live_def strong_def linkers_def az_targets_def held_def)
  ultimately show ?thesis
    using o(3-6) tallies_mono[OF o(4) assms(2)]
    by (simp add: ops_ok_def logged_def gone_def tallies_def held_def zones_open_def numbered_def)
qed

lemma prepare_run_ok:
  assumes "az_try_new sha256 zones objects = Ok m"
  shows "arc_run_ok (az_prepare_run m script)"
proof -
  let ?r = "az_prepare_run m script"
  have lk: "linkers ?r t = {}" for t by (simp add: linkers_def az_targets_def az_prepare_run_def)
  have tg: "az_targets ?r u = []" for u by (simp add: az_targets_def az_prepare_run_def)
  have gn: "gone ?r u \<longleftrightarrow> False" and lv: "live ?r u \<longleftrightarrow> False" and hd: "held ?r u = 0" for u
    by (simp_all add: gone_def live_def held_def az_prepare_run_def az_or_zero_def)
  have "core {} ?r"
    unfolding core_def lk tg gn lv hd using az_try_new_ok[OF assms]
    by (simp add: az_prepare_run_def az_or_zero_def)
  moreover have "backed {} ?r" "numbered ?r" "zones_open ?r" "tallies 0 ?r" "logged ?r (ar_events ?r)"
    by (simp_all add: backed_def live_def numbered_def zones_open_def tallies_def logged_def gone_def constructions_def
        finalizations_def az_prepare_run_def held_def az_or_zero_def)
  ultimately show ?thesis by (simp add: arc_run_ok_def ops_ok_def) (simp add: az_prepare_run_def tallies_def)
qed

lemma step_ok:
  assumes "arc_run_ok r"
  shows "arc_run_ok (snd (az_step r)) \<and> fst (az_step r) \<noteq> Panic"
proof (cases "az_authenticate r = Ok () \<and> length (ar_script r) \<le> MAX_SCRIPT_OPS \<and> \<not> az_quiescent r")
  case True
  let ?c = "ar_cursor r" and ?r1 = "r\<lparr>ar_cursor := ar_cursor r + 1\<rparr>"
  have lt: "?c < length (ar_script r)" "ar_status r = Rs_Running" using True by (simp_all add: az_quiescent_def)
  have ok: "ops_ok ?c r" using assms by (simp add: arc_run_ok_def)
  have "fine ?c (az_apply (ar_script r ! ?c) ?r1)"
    by (rule apply_fine) (use ops_ok_cursor[OF ok] lt True in auto)
  moreover have "arc_run_ok ?r1" using ops_ok_cursor[OF ok, of "?c + 1"] lt True by (simp add: arc_run_ok_def)
  moreover have "arc_run_ok r2" if "ops_ok (Suc ?c) r2" "az_apply (ar_script r ! ?c) ?r1 = Ok (r2, evs)" for r2 evs
    using that apply_frame[OF that(2)] lt True by (simp add: arc_run_ok_def az_frame_def)
  ultimately show ?thesis
    using True by (auto simp: az_step_def Let_def fine_def split: res.splits)
next
  case False
  then show ?thesis using assms by (auto simp: az_step_def az_authenticate_def)
qed

interpretation arc: invariant_machine "\<lambda>r (u :: unit). snd (az_step r)" arc_run_ok
  by unfold_locales (simp add: step_ok)

lemma finish_loop_ok: "arc_run_ok r \<Longrightarrow> arc_run_ok (snd (az_finish_loop r)) \<and> fst (az_finish_loop r) \<noteq> Panic"
proof (induction r rule: az_finish_loop.induct)
  case (1 r)
  have ok: "arc_run_ok (snd (az_step r))" "fst (az_step r) \<noteq> Panic" using step_ok[OF 1(2)] by blast+
  show ?case
  proof (cases "az_step r")
    case (Pair res r')
    then show ?thesis
      using 1 ok by (subst (1 2) az_finish_loop.simps) (auto split: res.splits list.splits)
  qed
qed

lemma finish_ok: "arc_run_ok r \<Longrightarrow> arc_run_ok (snd (az_finish r)) \<and> fst (az_finish r) \<noteq> Panic"
  using finish_loop_ok[of r] by (auto simp: az_finish_def az_authenticate_def split: res.splits prod.splits)

end
