(* ===== verification/ArcLog.thy ===== *)
theory ArcLog
  imports ArcSteps
begin

text \<open>
  The log of a run of \<open>src/arc_zones.rs\<close> against its construction numbers: every operation appends
  its events, the objects appear in the log in the order of their numbers, and so the order in which
  a zone is drained can be read off the log alone.
\<close>

section \<open>Constructions in the log\<close>

fun built_object :: "arc_event \<Rightarrow> decl_id list" where
  "built_object (Av_Constructed u) = [u]"
| "built_object _ = []"

definition built :: "arc_event list \<Rightarrow> decl_id list" where
  "built evs = concat (map built_object evs)"

lemma built_simps [simp]: "built [] = []" "built (e # es) = built_object e @ built es" "built (xs @ ys) = built xs @ built ys"
  by (simp_all add: built_def)

lemma built_iff: "u \<in> set (built evs) \<longleftrightarrow> Av_Constructed u \<in> set evs"
proof -
  have "u \<in> set (built_object e) \<longleftrightarrow> e = Av_Constructed u" for e by (cases e) auto
  then show ?thesis by (auto simp: built_def)
qed

lemma logged_built:
  assumes "logged r evs"
  shows "u \<in> set (built evs) \<longleftrightarrow> bm_get (ar_phases r) u \<noteq> None"
proof -
  have "Av_Constructed u \<in> set evs \<longleftrightarrow> constructions evs u \<noteq> 0"
    by (auto simp: constructions_def filter_empty_conv)
  then show ?thesis using assms by (simp add: built_iff logged_def)
qed

section \<open>What an operation appends\<close>

text \<open>Every operation appends its batch; only a construction numbers an object.\<close>

definition appends :: "arc_run \<Rightarrow> arc_run \<Rightarrow> arc_event list \<Rightarrow> bool" where
  "appends r r' evs \<longleftrightarrow> ar_events r' = ar_events r @ evs
     \<and> (if built evs = [] then ar_seq r' = ar_seq r
        else \<exists>i. built evs = [i] \<and> bm_get (ar_phases r) i = None \<and> ar_seq r' = bm_insert i (ar_next_seq r) (ar_seq r))"

lemma cascade_built: "az_cascade waiting r batch = Ok (r', b) \<Longrightarrow> built b = built batch"
proof (induction waiting r batch rule: az_cascade.induct)
  case (2 t waiting r batch)
  then show ?case by (auto split: if_splits res.splits)
qed simp

lemma finalize_built: "az_finalize i cause r batch = Ok (r', b) \<Longrightarrow> built b = built batch"
  by (auto simp: az_finalize_def res_iff dest!: cascade_built)

lemma drain_built: "az_drain is r batch = Ok (r', b) \<Longrightarrow> built b = built batch"
proof (induction "is" r batch rule: az_drain.induct)
  case (2 i "is" r batch)
  then show ?case by (auto simp: res_iff split: if_splits dest!: finalize_built)
qed simp

lemma settle_appends: "az_settle i r batch = Ok (r', b) \<Longrightarrow>
    ar_events r' = ar_events r @ b \<and> ar_seq r' = ar_seq r \<and> built b = built batch"
  by (auto simp: az_settle_def res_iff az_record_def split: if_splits prod.splits dest: finalize_frame finalize_built)

lemma construct_appends:
  assumes "az_construct i r = Ok (r', b)" and "core X r"
  shows "appends r r' b"
proof -
  from assms(1) have "az_constructible r i = Ok ()"
    by (cases "az_constructible r i") (simp_all add: az_construct_def)
  then have "bm_get (ar_phases r) i = None" using constructible_Ok[OF _ assms(2)] by blast
  then show ?thesis
    using assms(1) by (auto simp: az_construct_def res_iff az_record_def appends_def)
qed

lemma release_appends: "az_release i r = Ok (r', b) \<Longrightarrow> appends r r' b"
  by (auto simp: az_release_def res_iff Let_def appends_def split: if_splits dest!: settle_appends)

lemma unlink_appends: "az_unlink u t r = Ok (r', b) \<Longrightarrow> appends r r' b"
  by (auto simp: az_unlink_def res_iff Let_def appends_def split: if_splits dest!: settle_appends)

lemma drain_appends: "az_drain is r batch = Ok (r', b) \<Longrightarrow>
    ar_events r' = ar_events r \<and> ar_seq r' = ar_seq r \<and> built b = built batch"
  using drain_frame drain_built by blast

lemma leave_appends: "az_leave zone xs r = Ok (r', b) \<Longrightarrow> appends r r' b"
  by (auto simp: az_leave_def res_iff Let_def az_record_def appends_def split: prod.splits dest!: drain_appends)

lemma exit_appends: "az_exit_zone zone r = Ok (r', b) \<Longrightarrow> appends r r' b"
  by (auto simp: az_exit_zone_def res_iff Let_def split: if_splits option.splits dest!: leave_appends)
     (auto simp: az_reject_def res_iff appends_def az_record_def)

lemma apply_appends: "az_apply op r = Ok (r', b) \<Longrightarrow> core X r \<Longrightarrow> appends r r' b"
proof (cases op)
  case (Op_Construct i)
  then show "az_apply op r = Ok (r', b) \<Longrightarrow> core X r \<Longrightarrow> ?thesis" using construct_appends by simp
next
  case (Op_Release i)
  then show "az_apply op r = Ok (r', b) \<Longrightarrow> ?thesis" using release_appends by simp
next
  case (Op_Unlink u t)
  then show "az_apply op r = Ok (r', b) \<Longrightarrow> ?thesis" using unlink_appends by simp
next
  case (Op_ExitZone zone)
  then show "az_apply op r = Ok (r', b) \<Longrightarrow> ?thesis" using exit_appends by simp
qed (auto simp: az_retain_def az_link_def az_demote_def az_enter_zone_def res_iff appends_def
      az_record_def split: if_splits)

section \<open>The log is in the order of the numbers\<close>

definition in_order :: "arc_run \<Rightarrow> bool" where
  "in_order r \<longleftrightarrow> sorted_wrt (\<lambda>u v. seq_of r u < seq_of r v) (built (ar_events r))"

lemma appends_in_order:
  assumes ok: "ops_ok b r" and o: "in_order r" and a: "appends r r' evs"
  shows "in_order r'"
proof (cases "built evs = []")
  case True
  then show ?thesis using o a by (simp add: in_order_def appends_def seq_of_def)
next
  case False
  then obtain i where i: "built evs = [i]" "bm_get (ar_phases r) i = None"
    "ar_seq r' = bm_insert i (ar_next_seq r) (ar_seq r)" using a by (auto simp: appends_def)
  note f = ops_okD[OF ok]
  have old: "u \<noteq> i \<and> seq_of r' u = seq_of r u \<and> seq_of r u < ar_next_seq r" if "u \<in> set (built (ar_events r))" for u
  proof -
    have u: "bm_get (ar_phases r) u \<noteq> None" using that logged_built[OF f(3)] by blast
    then obtain n where "bm_get (ar_seq r) u = Some n" using f(1) unfolding core_def by blast
    moreover have "u \<noteq> i" using u i(2) by auto
    ultimately show ?thesis using f(6) i(3) by (auto simp: seq_of_def numbered_def)
  qed
  have "sorted_wrt (\<lambda>u v. seq_of r' u < seq_of r' v) (built (ar_events r))"
    by (rule sorted_wrt_mono_rel[OF _ o[unfolded in_order_def]]) (simp add: old)
  moreover have "seq_of r' i = ar_next_seq r" using i(3) by (simp add: seq_of_def)
  ultimately show ?thesis using a i(1) old by (simp add: in_order_def appends_def sorted_wrt_append)
qed

lemma step_in_order:
  assumes "arc_run_ok r" and "in_order r"
  shows "in_order (snd (az_step r))"
proof -
  let ?r1 = "r\<lparr>ar_cursor := ar_cursor r + 1\<rparr>"
  have ok: "ops_ok (Suc (ar_cursor r)) ?r1" using ops_ok_cursor[of "ar_cursor r" r "Suc (ar_cursor r)"] assms(1) by (simp add: arc_run_ok_def)
  have o: "in_order ?r1" using assms(2) by (simp add: in_order_def seq_of_def)
  have "in_order r2" if "az_apply (ar_script r ! ar_cursor r) ?r1 = Ok (r2, evs)" for r2 evs
    using appends_in_order[OF ok o apply_appends[OF that ops_okD(1)[OF ok]]] .
  then show ?thesis
    using assms(2) o by (auto simp: az_step_def Let_def split: res.splits)
qed

definition logged_run :: "arc_run \<Rightarrow> bool" where
  "logged_run r \<longleftrightarrow> arc_run_ok r \<and> in_order r"

interpretation arc_log: invariant_machine "\<lambda>r (u :: unit). snd (az_step r)" logged_run
  by unfold_locales (simp add: logged_run_def step_ok step_in_order)

lemma prepare_run_logged: "az_try_new sha256 zones objects = Ok m \<Longrightarrow> logged_run (az_prepare_run m script)"
  using prepare_run_ok by (simp add: logged_run_def in_order_def az_prepare_run_def)

section \<open>The order of a drain, from the log\<close>

lemma falling_unique:
  "sorted_wrt P xs \<Longrightarrow> sorted_wrt P ys \<Longrightarrow> set xs = set ys \<Longrightarrow> (\<And>x y. P x y \<Longrightarrow> \<not> P y x) \<Longrightarrow> xs = ys"
proof (induction xs arbitrary: ys)
  case (Cons x xs)
  obtain y zs where ys: "ys = y # zs" using Cons.prems(3) by (cases ys) auto
  have "x = y"
  proof (rule ccontr)
    assume "x \<noteq> y"
    then have "x \<in> set zs" "y \<in> set xs" using Cons.prems(3) ys by auto
    then show False using Cons.prems ys by auto
  qed
  moreover have "x \<notin> set xs" "y \<notin> set zs" using Cons.prems(1,2,4) ys by auto
  ultimately have "set xs = set zs" using Cons.prems(3) ys by auto
  then show ?case using Cons ys \<open>x = y\<close> by auto
qed simp

text \<open>The live objects of a zone, the one constructed last first.\<close>

definition exit_order :: "arc_run \<Rightarrow> decl_id \<Rightarrow> decl_id list" where
  "exit_order r zone = rev (filter (\<lambda>u. live r u \<and> zone_of r u = Some zone) (built (ar_events r)))"

lemma exit_order_set:
  assumes "logged r (ar_events r)"
  shows "set (exit_order r zone) = {u. live r u \<and> zone_of r u = Some zone}"
  using logged_built[OF assms] by (auto simp: exit_order_def live_def)

lemma exit_order_falling:
  assumes "in_order r"
  shows "sorted_wrt (\<lambda>u v. seq_of r v < seq_of r u) (exit_order r zone)"
  using assms by (simp add: exit_order_def in_order_def sorted_wrt_rev sorted_wrt_filter)

lemma exit_order_unique:
  assumes "in_order r" and "logged r (ar_events r)" and "core X r"
    and "sorted_wrt (\<lambda>u v. seq_of r v < seq_of r u) order" and "set order = set (az_live_here r zone)"
  shows "order = exit_order r zone"
proof (rule falling_unique[OF assms(4) exit_order_falling[OF assms(1)]])
  show "set order = set (exit_order r zone)"
    using assms(5) live_here[OF assms(3)] exit_order_set[OF assms(2)] by blast
qed auto

end
