(* ===== verification/ArcClaims.thy ===== *)
theory ArcClaims
  imports ArcLog
begin

text \<open>
  What the invariants of \<open>ArcSteps\<close> and \<open>ArcLog\<close> say of the runs of \<open>src/arc_zones.rs\<close>, each property with a
  concrete model it applies to.
\<close>

section \<open>Runs\<close>

text \<open>A run after some steps.\<close>

definition az_steps :: "nat \<Rightarrow> arc_run \<Rightarrow> arc_run" where
  "az_steps n r = foldl (\<lambda>s (u :: unit). snd (az_step s)) r (replicate n ())"

definition az_after :: "(string \<Rightarrow> string) \<Rightarrow> zone_spec list \<Rightarrow> object_spec list \<Rightarrow> arc_op list \<Rightarrow> nat \<Rightarrow> arc_run az_res" where
  "az_after sha256 zones objects script n =
     res_bind (az_try_new sha256 zones objects) (\<lambda>m. Ok (az_steps n (az_prepare_run m script)))"

lemma after_ok: "az_after sha256 zones objects script n = Ok r \<Longrightarrow> arc_run_ok r"
  by (auto simp: az_after_def az_steps_def res_iff intro: arc.inv_run prepare_run_ok)

lemma after_in_order: "az_after sha256 zones objects script n = Ok r \<Longrightarrow> in_order r"
proof -
  assume "az_after sha256 zones objects script n = Ok r"
  then have "logged_run r" by (auto simp: az_after_def az_steps_def res_iff intro: arc_log.inv_run prepare_run_logged)
  then show ?thesis by (simp add: logged_run_def)
qed

lemma after_ops: "az_after sha256 zones objects script n = Ok r \<Longrightarrow> ops_ok (ar_cursor r) r"
  using after_ok by (simp add: arc_run_ok_def)

lemma arc_facts:
  assumes "ops_ok b r"
  shows "core {} r" "backed {} r" "logged r (ar_events r)" "zones_open r"
  using assms by (simp_all add: ops_ok_def)

section \<open>A demonstration\<close>

definition demo_zones :: "zone_spec list" where
  "demo_zones = [\<lparr>zs_id = ''r'', zs_parent = None, zs_thread = ''t''\<rparr>, \<lparr>zs_id = ''z'', zs_parent = Some ''r'', zs_thread = ''t''\<rparr>]"

definition demo_objects :: "object_spec list" where
  "demo_objects = [\<lparr>os_id = ''a'', os_zone = ''r'', os_shareable = Az_NotShareable\<rparr>,
     \<lparr>os_id = ''b'', os_zone = ''r'', os_shareable = Az_NotShareable\<rparr>]"

definition demo_sha :: "string \<Rightarrow> string" where
  "demo_sha bytes = []"

definition demo_model :: arc_model where
  "demo_model = \<lparr>am_schema = ARC_ZONES_MODEL_V1, am_root = ''r'',
     am_zones = [(''r'', \<lparr>ze_parent = None, ze_depth = 0, ze_thread = ''t''\<rparr>),
       (''z'', \<lparr>ze_parent = Some ''r'', ze_depth = 1, ze_thread = ''t''\<rparr>)],
     am_objects = [(''a'', \<lparr>oe_zone = ''r'', oe_shareable = Az_NotShareable\<rparr>),
       (''b'', \<lparr>oe_zone = ''r'', oe_shareable = Az_NotShareable\<rparr>)],
     am_fingerprint = []\<rparr>"

lemma demo_declared: "declare_zones demo_zones bm_empty bm_empty =
    Ok ([(''r'', None), (''z'', Some ''r'')], [(''r'', ''t''), (''z'', ''t'')])"
  by code_simp

lemma demo_depths: "az_canonical_depths [(''r'', None), (''z'', Some ''r'')] = Ok [(''r'', 0), (''z'', 1)]"
  by code_simp

lemma demo_placed: "declare_objects (am_zones demo_model) demo_objects bm_empty = Ok (am_objects demo_model)"
  by code_simp

lemma demo_Ok: "az_try_new demo_sha demo_zones demo_objects = Ok demo_model"
proof -
  have "az_work 2 2 = Ok 8" by code_simp
  moreover have "az_count_roots demo_zones = 1" "az_find_root demo_zones = Some ''r''"
    "az_check_parents [(''r'', None), (''z'', Some ''r'')] demo_zones = Ok ()" by code_simp+
  moreover have "length demo_zones = 2" "length demo_objects = 2" by (simp_all add: demo_zones_def demo_objects_def)
  ultimately show ?thesis
    using demo_placed
    by (simp add: az_try_new_def demo_declared demo_depths az_fingerprint_def demo_sha_def Let_def MAX_ZONES_def
        MAX_OBJECTS_def demo_model_def) (simp add: demo_zones_def)
qed

definition demo_after :: "arc_op list \<Rightarrow> nat \<Rightarrow> arc_run" where
  "demo_after script n = az_steps n (az_prepare_run demo_model script)"

lemma demo_run: "az_after demo_sha demo_zones demo_objects script n = Ok (demo_after script n)"
  by (simp add: az_after_def demo_Ok demo_after_def)

text \<open>Two objects, the second linked to the first.\<close>

definition chain :: "arc_op list" where
  "chain = [Op_EnterZone ''r'', Op_Construct ''a'', Op_Construct ''b'', Op_Link ''b'' ''a'', Op_Release ''a'',
     Op_Demote ''a'', Op_ExitZone ''r'']"

definition ring :: "arc_op list" where
  "ring = [Op_EnterZone ''r'', Op_Construct ''a'', Op_Construct ''b'', Op_Link ''b'' ''a'', Op_Link ''a'' ''b'', Op_ExitZone ''r'']"

lemma chain_linked: "bs_contains (az_targets (demo_after chain 4) ''b'') ''a''"
  by code_simp

section \<open>References\<close>

text \<open>
  C17: In every run, at every step, links start and end at live objects, and they never point
  inwards: the zone of a link's target is open at least as far out as the zone of its source.
\<close>

theorem arc_links_live:
  assumes "az_after sha256 zones objects script n = Ok r" and "t \<in> set (az_targets r u)"
  shows "live r u \<and> live r t \<and> height r (zone_of r t) \<le> height r (zone_of r u)"
  using arc_facts(1)[OF after_ops[OF assms(1)]] assms(2) unfolding core_def by blast

lemma arc_links_live_witness:
  "live (demo_after chain 4) ''b'' \<and> live (demo_after chain 4) ''a''"
proof -
  have "''a'' \<in> set (az_targets (demo_after chain 4) ''b'')" using chain_linked by (simp add: bs_contains_def)
  from arc_links_live[OF demo_run this] show ?thesis by blast
qed

text \<open>
  C11: The strong count of a live object is the number of its references: its base reference until
  that is released, one for every live link to it, and the retains still held.  It is never zero, and
  it fits its 32 bits with room to spare.
\<close>

theorem arc_strong_count_exact:
  assumes "az_after sha256 zones objects script n = Ok r" and "live r u"
  shows "\<exists>k. az_strong_count r u = Ok (Some k) \<and> 0 < k \<and> unat k \<le> 1 + MAX_OBJECTS + MAX_SCRIPT_OPS
     \<and> unat k = (if u \<in> set (ar_base_released r) then 0 else 1) + card {v. u \<in> set (az_targets r v)}
         + unat (az_or_zero (bm_get (ar_held r) u))"
proof -
  note f = arc_facts[OF after_ops[OF assms(1)]]
  obtain k where k: "az_live_total r u = Ok k" "unat k = strong r u" using live_total_exact[OF f(1)] by blast
  have "0 < unat k" using f(2) assms(2) k(2) by (simp add: backed_def)
  then have "0 < k" by (simp add: word_less_nat_alt)
  moreover have "held r u \<le> MAX_SCRIPT_OPS" using f(1) by (simp add: core_def)
  then have "unat k \<le> 1 + MAX_OBJECTS + MAX_SCRIPT_OPS"
    using linkers_bound[OF f(1), of u] k(2) by (simp add: strong_def split: if_splits)
  ultimately show ?thesis
    using k assms(2) by (auto simp: az_strong_count_def live_def strong_def linkers_def held_def)
qed

lemma chain_live: "bm_get (ar_phases (demo_after chain 4)) ''a'' = Some Ph_Live \<and> ar_base_released (demo_after chain 4) = []"
  by code_simp

lemma arc_strong_count_exact_witness:
  "\<exists>k. az_strong_count (demo_after chain 4) ''a'' = Ok (Some k) \<and> 0 < k"
proof -
  have "live (demo_after chain 4) ''a''" using chain_live by (simp add: live_def)
  from arc_strong_count_exact[OF demo_run this] show ?thesis by blast
qed

text \<open>
  C7: Nothing is finalized early: an object finalized by a release or by a cascade has no reference
  left, then and ever after: its base reference was released, no retain is held, and no live object
  links to it.
\<close>

theorem arc_no_early_finalization:
  assumes "az_after sha256 zones objects script n = Ok r"
    and "Av_Finalized u cause \<in> set (ar_events r)" and "cause \<noteq> Fc_ZoneExit"
  shows "gone r u \<and> u \<in> set (ar_base_released r) \<and> held r u = 0 \<and> (\<forall>v. u \<notin> set (az_targets r v))"
proof -
  note f = arc_facts[OF after_ops[OF assms(1)]]
  have g: "gone r u" by (rule logged_gone[OF f(3) assms(2)])
  then have "linkers r u = {}" using not_live_no_linkers[OF f(1)] by (simp add: gone_def live_def)
  then show ?thesis using g f(3) assms(2,3) by (auto simp: logged_def linkers_def)
qed

definition drop_pair :: "arc_op list" where
  "drop_pair = [Op_EnterZone ''r'', Op_Construct ''a'', Op_Construct ''b'', Op_Link ''b'' ''a'', Op_Release ''a'', Op_Release ''b'']"

lemma drop_pair_events: "ar_events (demo_after drop_pair 6) =
    [Av_ZoneEntered ''r'', Av_Constructed ''a'', Av_Constructed ''b'', Av_Linked ''b'' ''a'', Av_Released ''a'',
     Av_Released ''b'', Av_Finalized ''b'' Fc_Release, Av_Finalized ''a'' Fc_Cascade]"
  by code_simp

lemma arc_no_early_finalization_witness:
  "gone (demo_after drop_pair 6) ''a'' \<and> held (demo_after drop_pair 6) ''a'' = 0"
proof -
  have "Av_Finalized ''a'' Fc_Cascade \<in> set (ar_events (demo_after drop_pair 6))" by (simp add: drop_pair_events)
  from arc_no_early_finalization[OF demo_run this] show ?thesis by simp
qed

section \<open>Whole runs\<close>

text \<open>
  C23: No step panics, nor does driving the run to its end: every \<open>expect\<close>, every index and every
  checked \<open>+=\<close> and \<open>-=\<close> of the file is safe in every state a script can reach, failed operations
  included.
\<close>

theorem arc_never_panics:
  assumes "az_after sha256 zones objects script n = Ok r"
  shows "fst (az_step r) \<noteq> Panic \<and> fst (az_finish r) \<noteq> Panic"
  using step_ok[OF after_ok[OF assms]] finish_ok[OF after_ok[OF assms]] by blast

lemma arc_never_panics_witness: "fst (az_finish (demo_after ring 2)) \<noteq> Panic"
  using arc_never_panics[OF demo_run] by blast

lemma finish_loop_status: "az_finish_loop r = (Ok (), r') \<Longrightarrow> ar_status r' \<noteq> Rs_Running"
proof (induction r rule: az_finish_loop.induct)
  case (1 r)
  show ?case
  proof (cases "az_step r")
    case (Pair res s)
    then show ?thesis
      using 1 by (subst (asm) (2) az_finish_loop.simps) (auto split: res.splits list.splits if_splits)
  qed
qed

lemma logged_at_most_once:
  assumes "logged r (ar_events r)"
  shows "finalizations (ar_events r) u \<le> constructions (ar_events r) u \<and> constructions (ar_events r) u \<le> 1"
proof (cases "bm_get (ar_phases r) u")
  case None
  then show ?thesis using assms by (simp add: logged_def gone_def)
qed (use assms in \<open>simp add: logged_def\<close>)

text \<open>
  C2: After any number of steps of any script, and again when \<open>finish\<close> has driven the run to its end,
  be that completion, a rejected zone or an error, every object has been constructed at most once and
  finalized at most as often as it was constructed; and when \<open>finish\<close> reports completion, every
  constructed object was finalized: nothing leaks.
\<close>

theorem arc_complete_leaks_nothing:
  assumes "az_after sha256 zones objects script n = Ok r" and "az_finish r = (res, r')"
  shows "finalizations (ar_events r) u \<le> constructions (ar_events r) u \<and> constructions (ar_events r) u \<le> 1
     \<and> finalizations (ar_events r') u \<le> constructions (ar_events r') u \<and> constructions (ar_events r') u \<le> 1
     \<and> (\<forall>s. res = Ok s \<and> ay_status s = As_Complete \<longrightarrow> finalizations (ar_events r') u = constructions (ar_events r') u)"
proof -
  have ok: "arc_run_ok r'" using finish_ok[OF after_ok[OF assms(1)]] assms(2) by simp
  then have o: "ops_ok (ar_cursor r') r'" by (simp add: arc_run_ok_def)
  note f = arc_facts[OF o]
  have "finalizations (ar_events r') u = constructions (ar_events r') u" if "res = Ok s" "ay_status s = As_Complete" for s
  proof -
    have "az_finish_loop r = (Ok (), r')" "ar_status r' \<noteq> Rs_Rejected"
      using assms(2) that by (auto simp: az_finish_def split: res.splits prod.splits if_splits)
    then have "ar_status r' = Rs_Complete" using finish_loop_status[of r r'] by (cases "ar_status r'") auto
    then have "ar_open r' = []" using f(4) by (simp add: zones_open_def)
    then have "\<not> live r' u" using live_zone[OF f(1), of u] by auto
    then have "bm_get (ar_phases r') u = None \<or> gone r' u"
      using core_phases[OF f(1)] unfolding live_def gone_def by (metis arc_phase.exhaust option.exhaust)
    then show ?thesis using f(3) by (auto simp: logged_def gone_def)
  qed
  then show ?thesis
    using logged_at_most_once[OF arc_facts(3)[OF after_ops[OF assms(1)]]] logged_at_most_once[OF f(3)] by blast
qed

lemma chain_finishes:
  "case az_finish (demo_after chain 0) of (Ok s, r) \<Rightarrow> ay_status s = As_Complete \<and> bs_contains (bm_keys (ar_phases r)) ''b''
     \<and> length (ar_events r) = 9 | _ \<Rightarrow> False"
  by code_simp

lemma arc_complete_leaks_nothing_witness:
  "\<exists>s r. az_finish (demo_after chain 0) = (Ok s, r) \<and> ay_status s = As_Complete
     \<and> finalizations (ar_events r) ''b'' = constructions (ar_events r) ''b''"
proof -
  obtain s r where f: "az_finish (demo_after chain 0) = (Ok s, r)" "ay_status s = As_Complete"
    using chain_finishes by (auto split: prod.splits res.splits)
  from arc_complete_leaks_nothing[OF demo_run f(1)] f show ?thesis by blast
qed

section \<open>Leaving a zone\<close>

lemma min_of_Min: "xs \<noteq> [] \<Longrightarrow> min_of xs = Some (Min (set xs))"
  by (cases xs) (simp_all add: min_of_def Min.set_eq_fold del: list.set)

lemma after_room:
  assumes "az_after sha256 zones objects script n = Ok r" and "ar_cursor r < length (ar_script r)"
  shows "ar_cursor r < MAX_SCRIPT_OPS"
  using after_ok[OF assms(1)] assms(2) by (auto simp: arc_run_ok_def MAX_SCRIPT_OPS_def)

text \<open>The live objects of a zone, and those of them on a cycle of links within the zone.\<close>

definition residents :: "arc_run \<Rightarrow> decl_id \<Rightarrow> decl_id set" where
  "residents r zone = {u. live r u \<and> zone_of r u = Some zone}"

definition on_cycle :: "arc_run \<Rightarrow> decl_id \<Rightarrow> decl_id set" where
  "on_cycle r zone = {u \<in> residents r zone. (u, u) \<in> (live_edges (residents r zone) (ar_links r))\<^sup>+}"

lemma exit_cases:
  assumes ok: "ops_ok b r" and ne: "ar_open r \<noteq> []"
  shows "az_exit_zone (last (ar_open r)) r =
     (if on_cycle r (last (ar_open r)) = {} then az_leave (last (ar_open r)) (az_live_here r (last (ar_open r))) r
      else az_reject (last (ar_open r)) (Min (on_cycle r (last (ar_open r)))) r)"
proof -
  note o = ops_okD[OF ok]
  let ?zone = "last (ar_open r)" and ?here = "az_live_here r (last (ar_open r))"
  have res: "set ?here = residents r ?zone" using live_here[OF o(1)] by (auto simp: residents_def)
  have "\<forall>v\<in>set ?here. bm_get (ar_phases r) v = Some Ph_Live" using live_here[OF o(1)] by (simp add: live_def)
  from cycle_participants_correct[OF this] obtain ps where
    ps: "az_cycle_participants ?here (ar_links r) (ar_phases r) = Ok ps" "set ps = on_cycle r ?zone"
    unfolding res on_cycle_def by blast
  have sub: "on_cycle r ?zone \<subseteq> set ?here" unfolding res on_cycle_def by blast
  have w: "set (filter (bs_contains ps) ?here) = on_cycle r ?zone" using ps(2) sub by (auto simp: bs_contains_def)
  have zone: "bm_contains (am_zones (ar_model r)) ?zone" using o(5) ne by (simp add: zones_open_def bm_contains_def)
  show ?thesis
  proof (cases "on_cycle r ?zone = {}")
    case True
    then have "filter (bs_contains ps) ?here = []" using w by (metis set_empty)
    then show ?thesis using True zone ne ps(1) by (simp add: az_exit_zone_def Let_def min_of_def)
  next
    case False
    then have "filter (bs_contains ps) ?here \<noteq> []" using w by (metis set_empty)
    from min_of_Min[OF this] w show ?thesis using False zone ne ps(1) by (simp add: az_exit_zone_def Let_def)
  qed
qed

text \<open>
  C4: Leaving the innermost zone is decided by the cycles among its live objects.  With none, the
  zone closes and every one of its objects is finalized; otherwise the exit is rejected, no object is
  touched, and the witness is the least object on a cycle.
\<close>

theorem arc_exit_exact:
  assumes "az_after sha256 zones objects script n = Ok r" and "ar_cursor r < length (ar_script r)" and "ar_open r \<noteq> []"
  shows "if on_cycle r (last (ar_open r)) = {}
     then \<exists>r' evs. az_exit_zone (last (ar_open r)) r = Ok (r', evs) \<and> ar_open r' = butlast (ar_open r)
            \<and> (\<forall>u\<in>residents r (last (ar_open r)). gone r' u)
     else \<exists>r'. az_exit_zone (last (ar_open r)) r =
              Ok (r', [Av_ZoneRejectedCycle (last (ar_open r)) (Min (on_cycle r (last (ar_open r))))])
            \<and> ar_status r' = Rs_Rejected \<and> ar_phases r' = ar_phases r \<and> ar_open r' = ar_open r"
proof -
  note ok = after_ops[OF assms(1)] and room = after_room[OF assms(1,2)]
  have res: "set (az_live_here r (last (ar_open r))) = residents r (last (ar_open r))"
    using live_here[OF arc_facts(1)[OF ok]] by (auto simp: residents_def)
  obtain m where m: "u_add (at_zones_rejected (ar_totals r)) 1 = (Ok m :: u64 az_res)"
    using u64_count[OF _ room, of "at_zones_rejected (ar_totals r)"] ok by (auto simp: ops_ok_def tallies_def)
  show ?thesis
    using leave_exact[OF ok room assms(3)] res m
    by (auto simp: exit_cases[OF ok assms(3)] az_reject_def az_record_def)
qed

lemma ring_ready: "ar_cursor (demo_after ring 5) = 5 \<and> length (ar_script (demo_after ring 5)) = 6 \<and> ar_open (demo_after ring 5) = [''r'']"
  by code_simp

lemma ring_rejected: "case az_exit_zone ''r'' (demo_after ring 5) of
    Ok (r, evs) \<Rightarrow> evs = [Av_ZoneRejectedCycle ''r'' ''a''] \<and> ar_open r = [''r''] | _ \<Rightarrow> False"
  by code_simp

lemma arc_exit_exact_witness:
  "\<exists>r'. az_exit_zone ''r'' (demo_after ring 5) = Ok (r', [Av_ZoneRejectedCycle ''r'' ''a'']) \<and> ar_status r' = Rs_Rejected"
proof -
  have "ar_cursor (demo_after ring 5) < length (ar_script (demo_after ring 5))" "ar_open (demo_after ring 5) \<noteq> []"
    and zone: "last (ar_open (demo_after ring 5)) = ''r''" using ring_ready by simp_all
  from arc_exit_exact[OF demo_run this(1,2)] ring_rejected show ?thesis
    unfolding zone using ring_ready by (auto split: if_splits)
qed

lemma exit_finalizes:
  assumes "ops_ok b r" and "ops_ok b' r'" and "ar_events r' = ar_events r @ evs" and "live r u" and "gone r' u"
  shows "finalizations evs u = 1"
proof -
  have "finalizations (ar_events r) u = 0" "finalizations (ar_events r') u = 1"
    using arc_facts(3)[OF assms(1)] arc_facts(3)[OF assms(2)] assms(4,5) by (simp_all add: logged_def live_def gone_def)
  then show ?thesis using assms(3) by (simp add: finalizations_def)
qed

text \<open>
  C29: Leaving a zone with no cycle finalizes its live objects in reverse order of construction.
  \<open>exit_order\<close> lists the live objects of the zone by their construction events in the log of the run,
  the last one first.  Each of them is finalized exactly once in the events of the exit; those the
  exit finalizes itself come in that order; and before it finalizes one of them, every object before
  it in that order was finalized, by the exit or with a cascade of an object the exit finalized.
\<close>

theorem arc_drain_order:
  assumes "az_after sha256 zones objects script n = Ok r" and "ar_cursor r < length (ar_script r)" and "ar_open r \<noteq> []"
    and "on_cycle r (last (ar_open r)) = {}"
  shows "\<exists>r' evs. az_exit_zone (last (ar_open r)) r = Ok (r', evs)
     \<and> set (exit_order r (last (ar_open r))) = residents r (last (ar_open r))
     \<and> (\<forall>u\<in>residents r (last (ar_open r)). finalizations evs u = 1)
     \<and> subseq (zone_exits evs) (exit_order r (last (ar_open r)))
     \<and> (\<forall>pre v post. evs = pre @ Av_Finalized v Fc_ZoneExit # post \<longrightarrow>
          (\<forall>u\<in>set (takeWhile (\<lambda>x. x \<noteq> v) (exit_order r (last (ar_open r)))).
             \<exists>cause. Av_Finalized u cause \<in> set pre))"
proof -
  note ok = after_ops[OF assms(1)] and room = after_room[OF assms(1,2)]
  note f = arc_facts[OF ok]
  let ?zone = "last (ar_open r)" and ?order = "exit_order r (last (ar_open r))"
  have res: "set (az_live_here r ?zone) = residents r ?zone"
    using live_here[OF f(1)] by (auto simp: residents_def)
  obtain r' evs order where e: "az_exit_zone ?zone r = Ok (r', evs)" "ops_ok (Suc (ar_cursor r)) r'"
    "\<forall>u\<in>residents r ?zone. gone r' u" "ar_events r' = ar_events r @ evs"
    "sorted_wrt (\<lambda>u v. seq_of r v < seq_of r u) order" "set order = set (az_live_here r ?zone)" "drained r order evs"
    using leave_exact[OF ok room assms(3)] exit_cases[OF ok assms(3)] assms(4) res by auto
  have order: "order = ?order" by (rule exit_order_unique[OF after_in_order[OF assms(1)] f(3,1) e(5,6)])
  have set: "set ?order = residents r ?zone" using exit_order_set[OF f(3)] by (simp add: residents_def)
  have once: "\<forall>u\<in>residents r ?zone. finalizations evs u = 1"
    using exit_finalizes[OF ok e(2,4)] e(3) by (simp add: residents_def)
  have "live r u" if "u \<in> set (takeWhile (\<lambda>x. x \<noteq> v) ?order)" for u v
    using set_takeWhileD[OF that] set by (simp add: residents_def)
  then have "\<forall>pre v post. evs = pre @ Av_Finalized v Fc_ZoneExit # post \<longrightarrow>
       (\<forall>u\<in>set (takeWhile (\<lambda>x. x \<noteq> v) ?order). \<exists>cause. Av_Finalized u cause \<in> set pre)"
    using e(7) unfolding order drained_def by blast
  moreover have "subseq (zone_exits evs) ?order" using e(7) unfolding order drained_def by blast
  ultimately show ?thesis using e(1) set once by blast
qed

definition apart :: "arc_op list" where
  "apart = [Op_EnterZone ''r'', Op_Construct ''b'', Op_Construct ''a'', Op_ExitZone ''r'']"

lemma apart_ready: "ar_cursor (demo_after apart 3) = 3 \<and> length (ar_script (demo_after apart 3)) = 4 \<and> ar_open (demo_after apart 3) = [''r'']"
  by code_simp

lemma apart_exits: "case az_exit_zone ''r'' (demo_after apart 3) of
    Ok (r, evs) \<Rightarrow> evs = [Av_Finalized ''a'' Fc_ZoneExit, Av_Finalized ''b'' Fc_ZoneExit, Av_ZoneExited ''r''] | _ \<Rightarrow> False"
  by code_simp

lemma apart_residents: "residents (demo_after apart 3) ''r'' = {''a'', ''b''}"
proof -
  have "bm_get (ar_phases (demo_after apart 3)) ''a'' = Some Ph_Live" "bm_get (ar_phases (demo_after apart 3)) ''b'' = Some Ph_Live"
    "az_live_here (demo_after apart 3) ''r'' = [''a'', ''b'']" by code_simp+
  then show ?thesis
    using live_here[OF arc_facts(1)[OF after_ops[OF demo_run]], of _ apart 3 "''r''"] by (auto simp: residents_def)
qed

lemma apart_acyclic: "on_cycle (demo_after apart 3) ''r'' = {}"
proof -
  have "ar_links (demo_after apart 3) = []" by code_simp
  then have "live_edges (residents (demo_after apart 3) ''r'') (ar_links (demo_after apart 3)) = {}"
    by (auto simp: live_edges_def)
  then show ?thesis by (simp add: on_cycle_def)
qed

lemma arc_drain_order_witness:
  "\<exists>r' evs. az_exit_zone ''r'' (demo_after apart 3) = Ok (r', evs) \<and> zone_exits evs = [''a'', ''b'']
     \<and> finalizations evs ''b'' = 1 \<and> subseq (zone_exits evs) (exit_order (demo_after apart 3) ''r'')"
proof -
  have r: "ar_cursor (demo_after apart 3) < length (ar_script (demo_after apart 3))" "ar_open (demo_after apart 3) \<noteq> []"
    and zone: "last (ar_open (demo_after apart 3)) = ''r''" using apart_ready by simp_all
  obtain r' evs where e: "az_exit_zone ''r'' (demo_after apart 3) = Ok (r', evs)" "finalizations evs ''b'' = 1"
    "subseq (zone_exits evs) (exit_order (demo_after apart 3) ''r'')"
    using arc_drain_order[OF demo_run r] apart_acyclic apart_residents unfolding zone by blast
  moreover have "zone_exits evs = [''a'', ''b'']" using apart_exits e(1) by (simp add: zone_exits_def)
  ultimately show ?thesis by blast
qed

section \<open>Demotion\<close>

text \<open>
  C37: Any shared object with one incoming link left can be rewritten to unique ownership.  \<open>demote\<close> is
  documented for an object whose only reference is its unreleased base reference, with no incoming
  link; the code only asks that there is one reference in all.  So in every run, when the base
  reference of an object of the innermost zone is released, no retain is held and exactly one live
  object links to it, demoting it succeeds, and the link into the unique object stays.
\<close>

theorem arc_demotes_shared:
  assumes "az_after sha256 zones objects script n = Ok r" and "live r u" and "ar_open r \<noteq> []"
    and "zone_of r u = Some (last (ar_open r))" and "u \<in> set (ar_base_released r)" and "held r u = 0"
    and "{v. u \<in> set (az_targets r v)} = {w}" and "u \<notin> set (ar_unique r)"
  shows "live r w \<and> (\<exists>r'. az_demote u r = Ok (r', [Av_EscapedToUnique u]) \<and> u \<in> set (ar_unique r')
     \<and> live r' w \<and> u \<in> set (az_targets r' w))"
proof -
  note f = arc_facts[OF after_ops[OF assms(1)]]
  have w: "u \<in> set (az_targets r w)" using assms(7) by blast
  then have lw: "live r w" using f(1) unfolding core_def by blast
  obtain k where k: "az_live_total r u = Ok k" "unat k = strong r u" using live_total_exact[OF f(1)] by blast
  have "strong r u = 1" using assms(5-7) by (simp add: strong_def linkers_def)
  then have "k = 1" using k(2) by (metis unat_1 word_unat_eq_iff)
  moreover have "az_live_object r u = Ok ()" using live_object_Ok[OF core_phases[OF f(1)]] assms(2-4) by blast
  ultimately show ?thesis
    using k(1) assms(8) w lw by (simp add: az_demote_def az_record_def bs_contains_def live_def az_targets_def)
qed

lemma chain_released: "bm_get (ar_phases (demo_after chain 5)) ''a'' = Some Ph_Live \<and> ar_open (demo_after chain 5) = [''r'']
   \<and> map_option oe_zone (bm_get (am_objects (ar_model (demo_after chain 5))) ''a'') = Some ''r''
   \<and> ar_base_released (demo_after chain 5) = [''a''] \<and> bm_get (ar_held (demo_after chain 5)) ''a'' = Some 0
   \<and> ar_links (demo_after chain 5) = [(''b'', [''a''])] \<and> ar_unique (demo_after chain 5) = []"
  by code_simp

lemma arc_demotes_shared_witness:
  "\<exists>r'. az_demote ''a'' (demo_after chain 5) = Ok (r', [Av_EscapedToUnique ''a'']) \<and> ''a'' \<in> set (ar_unique r')
     \<and> ''a'' \<in> set (az_targets r' ''b'')"
proof -
  let ?r = "demo_after chain 5"
  have "{v. ''a'' \<in> set (az_targets ?r v)} = {''b''}" using chain_released by (auto simp: az_targets_def split: if_splits)
  moreover have "live ?r ''a''" "ar_open ?r \<noteq> []" "zone_of ?r ''a'' = Some (last (ar_open ?r))"
    "''a'' \<in> set (ar_base_released ?r)" "held ?r ''a'' = 0" "''a'' \<notin> set (ar_unique ?r)"
    using chain_released by (simp_all add: live_def zone_of_def held_def az_or_zero_def)
  ultimately have "live ?r ''b'' \<and> (\<exists>r'. az_demote ''a'' ?r = Ok (r', [Av_EscapedToUnique ''a'']) \<and> ''a'' \<in> set (ar_unique r')
     \<and> live r' ''b'' \<and> ''a'' \<in> set (az_targets r' ''b''))"
    by (intro arc_demotes_shared[OF demo_run])
  then show ?thesis by auto
qed

end
