(* ===== verification/EffectJournal.thy ===== *)
theory EffectJournal
  imports Text
begin

text \<open>
  The journal of the resumable-effects kernel (\<open>src/resumable_effects/core.rs\<close>): its entries, and
  \<open>Journal::validate\<close>, which a caller runs before trusting a journal.  The types of states, results,
  requests and observations are those of the program run.
\<close>

section \<open>Entries\<close>

record effect_scope =
  es_program_root :: string
  es_invocation_id :: string
  es_policy_epoch :: u64

datatype ('s, 'r) rx_step = Rx_Continue 's | Rx_Suspend 's | Rx_Complete 'r | Rx_Fail i64

fun rx_is_terminal :: "('s, 'r) rx_step \<Rightarrow> bool" where
  "rx_is_terminal (Rx_Continue s) = False"
| "rx_is_terminal step = True"

datatype ('s, 'r, 'q, 'o) journal_entry =
    Je_Intent u32 effect_scope 'q
  | Je_Observed u32 effect_scope 'q 'o
  | Je_ObservationFailed u32 effect_scope 'q string
  | Je_Transition u32 effect_scope "('s, 'r) rx_step"

fun entry_turn :: "('s, 'r, 'q, 'o) journal_entry \<Rightarrow> u32" where
  "entry_turn (Je_Intent turn scope request) = turn"
| "entry_turn (Je_Observed turn scope request observation) = turn"
| "entry_turn (Je_ObservationFailed turn scope request reason) = turn"
| "entry_turn (Je_Transition turn scope step) = turn"

fun entry_scope :: "('s, 'r, 'q, 'o) journal_entry \<Rightarrow> effect_scope" where
  "entry_scope (Je_Intent turn scope request) = scope"
| "entry_scope (Je_Observed turn scope request observation) = scope"
| "entry_scope (Je_ObservationFailed turn scope request reason) = scope"
| "entry_scope (Je_Transition turn scope step) = scope"

type_synonym ('s, 'r, 'q, 'o) journal = "('s, 'r, 'q, 'o) journal_entry list"

section \<open>Validation\<close>

datatype journal_error =
    Jr_StaleProgramRoot nat | Jr_WrongInvocation nat | Jr_WrongPolicyEpoch nat | Jr_OutOfOrder nat
  | Jr_RequestMismatch nat | Jr_NonSequentialTurn nat | Jr_EntryAfterTerminal nat | Jr_UnterminatedIntent

datatype journal_phase = Jp_FreshTurn | Jp_AfterIntent | Jp_AfterObservation

record 'q journal_check =
  jc_turn_expected :: u32
  jc_terminal_seen :: bool
  jc_phase :: journal_phase
  jc_open_request :: "'q option"

definition journal_check_start :: "'q journal_check" where
  "journal_check_start =
     \<lparr>jc_turn_expected = 0, jc_terminal_seen = False, jc_phase = Jp_FreshTurn, jc_open_request = None\<rparr>"

text \<open>An observation, good or failed, closes the intent of its turn.\<close>

definition check_observation :: "nat \<Rightarrow> 'q \<Rightarrow> 'q journal_check \<Rightarrow> (journal_error, 'q journal_check) res" where
  "check_observation at request c =
     (if jc_phase c \<noteq> Jp_AfterIntent then Err (Jr_OutOfOrder at)
      else if jc_open_request c \<noteq> Some request then Err (Jr_RequestMismatch at)
      else Ok (c\<lparr>jc_phase := Jp_AfterObservation\<rparr>))"

fun check_kind ::
  "nat \<Rightarrow> ('s, 'r, 'q, 'o) journal_entry \<Rightarrow> 'q journal_check \<Rightarrow> (journal_error, 'q journal_check) res" where
  "check_kind at (Je_Intent turn scope request) c =
     (if jc_phase c \<noteq> Jp_FreshTurn then Err (Jr_OutOfOrder at)
      else Ok (c\<lparr>jc_open_request := Some request, jc_phase := Jp_AfterIntent\<rparr>))"
| "check_kind at (Je_Observed turn scope request observation) c = check_observation at request c"
| "check_kind at (Je_ObservationFailed turn scope request reason) c = check_observation at request c"
| "check_kind at (Je_Transition turn scope step) c =
     (if jc_phase c = Jp_AfterIntent then Err (Jr_OutOfOrder at)
      else
        let c1 = c\<lparr>jc_phase := Jp_FreshTurn, jc_open_request := None\<rparr>
        in if rx_is_terminal step then Ok (c1\<lparr>jc_terminal_seen := True\<rparr>)
           else res_bind (u_add (jc_turn_expected c) 1) (\<lambda>turn'. Ok (c1\<lparr>jc_turn_expected := turn'\<rparr>)))"

definition check_entry ::
  "effect_scope \<Rightarrow> nat \<Rightarrow> ('s, 'r, 'q, 'o) journal_entry \<Rightarrow> 'q journal_check
     \<Rightarrow> (journal_error, 'q journal_check) res" where
  "check_entry expected at e c =
     (if jc_terminal_seen c then Err (Jr_EntryAfterTerminal at)
      else if es_program_root (entry_scope e) \<noteq> es_program_root expected then Err (Jr_StaleProgramRoot at)
      else if es_invocation_id (entry_scope e) \<noteq> es_invocation_id expected then Err (Jr_WrongInvocation at)
      else if es_policy_epoch (entry_scope e) \<noteq> es_policy_epoch expected then Err (Jr_WrongPolicyEpoch at)
      else if entry_turn e \<noteq> jc_turn_expected c then Err (Jr_NonSequentialTurn at)
      else check_kind at e c)"

fun check_entries ::
  "effect_scope \<Rightarrow> nat \<Rightarrow> ('s, 'r, 'q, 'o) journal \<Rightarrow> 'q journal_check \<Rightarrow> (journal_error, 'q journal_check) res" where
  "check_entries expected at [] c = Ok c"
| "check_entries expected at (e # es) c = res_bind (check_entry expected at e c) (check_entries expected (Suc at) es)"

definition journal_validate :: "effect_scope \<Rightarrow> ('s, 'r, 'q, 'o) journal \<Rightarrow> (journal_error, unit) res" where
  "journal_validate expected entries =
     res_bind (check_entries expected 0 entries journal_check_start) (\<lambda>c.
       if jc_phase c = Jp_AfterIntent then Err Jr_UnterminatedIntent else Ok ())"

end
