(* ===== verification/EffectDrive.thy ===== *)
theory EffectDrive
  imports EffectJournal
begin

text \<open>
  The driver of the resumable-effects kernel (\<open>run\<close> and \<open>resume\<close> of \<open>src/resumable_effects/core.rs\<close>).
  The program, the effect handler, the cleanup handler and the cancellation check are the caller's:
  the program is three functions, the other three act on a world of their own.
\<close>

section \<open>What the caller supplies\<close>

record ('s, 'r, 'q, 'o, 'c) rx_program =
  rp_request :: "'s \<Rightarrow> 'q option"
  rp_transition :: "'s \<Rightarrow> 'o option \<Rightarrow> ('s, 'r) rx_step"
  rp_cleanup_plan :: "'s \<Rightarrow> 'c list"

record ('w, 'q, 'o, 'c) rx_host =
  rh_dispatch :: "'q \<Rightarrow> 'w \<Rightarrow> (string + 'o) \<times> 'w"
  rh_cleanup :: "'c \<Rightarrow> 'w \<Rightarrow> (string + unit) \<times> 'w"
  rh_cancelled :: "'w \<Rightarrow> bool \<times> 'w"

section \<open>Recorded turns\<close>

datatype ('s, 'r, 'q, 'o) recorded =
    Rc_Group "'q option" "'o option" "('s, 'r) rx_step" nat
  | Rc_Failure string
  | Rc_None

definition entry_at :: "'a list \<Rightarrow> nat \<Rightarrow> 'a option" where
  "entry_at entries i = (if i < length entries then Some (entries ! i) else None)"

definition peek_recorded :: "('s, 'r, 'q, 'o) journal \<Rightarrow> nat \<Rightarrow> u32 \<Rightarrow> ('s, 'r, 'q, 'o) recorded" where
  "peek_recorded entries cursor turn =
     (case entry_at entries cursor of
        None \<Rightarrow> Rc_None
      | Some e \<Rightarrow>
          if entry_turn e \<noteq> turn then Rc_None
          else
            (case e of
               Je_Transition _ _ step \<Rightarrow> Rc_Group None None step (cursor + 1)
             | Je_Intent _ _ request \<Rightarrow>
                 (case entry_at entries (cursor + 1) of
                    Some (Je_Observed _ _ _ observation) \<Rightarrow>
                      (case entry_at entries (cursor + 2) of
                         Some (Je_Transition _ _ step) \<Rightarrow> Rc_Group (Some request) (Some observation) step (cursor + 3)
                       | _ \<Rightarrow> Rc_None)
                  | Some (Je_ObservationFailed _ _ _ reason) \<Rightarrow>
                      if entry_at entries (cursor + 2) \<noteq> None then Rc_None else Rc_Failure reason
                  | _ \<Rightarrow> Rc_None)
             | _ \<Rightarrow> Rc_None))"

section \<open>The driver\<close>

datatype driver_error =
    De_Journal journal_error | De_RequestDrift u32 | De_TransitionDrift u32
  | De_HandlerFailed u32 string | De_BudgetExhausted | De_Cancelled

record ('w, 's, 'r, 'q, 'o) drive =
  dv_state :: 's
  dv_turn :: u32
  dv_dispatched :: u32
  dv_cursor :: nat
  dv_journal :: "('s, 'r, 'q, 'o) journal"
  dv_world :: 'w

text \<open>The end of one turn of the loop: the next turn, an error, or a terminal step.\<close>

datatype ('w, 's, 'r, 'q, 'o) turn_end =
    Te_Next "('w, 's, 'r, 'q, 'o) drive"
  | Te_Stop driver_error "('w, 's, 'r, 'q, 'o) drive"
  | Te_Done "('s, 'r) rx_step" "('w, 's, 'r, 'q, 'o) drive"

text \<open>Below \<open>max_turns\<close> the turn cannot overflow, nor can the dispatches, one a turn at most.\<close>

definition end_turn :: "('s, 'r) rx_step \<Rightarrow> ('w, 's, 'r, 'q, 'o) drive \<Rightarrow> ('w, 's, 'r, 'q, 'o) turn_end" where
  "end_turn step d =
     (case step of
        Rx_Continue s \<Rightarrow> Te_Next (d\<lparr>dv_state := s, dv_turn := dv_turn d + 1\<rparr>)
      | _ \<Rightarrow> Te_Done step d)"

definition replay_turn ::
  "('s, 'r, 'q, 'o, 'c) rx_program \<Rightarrow> 'q option \<Rightarrow> 'o option \<Rightarrow> ('s, 'r) rx_step \<Rightarrow> nat
     \<Rightarrow> ('w, 's, 'r, 'q, 'o) drive \<Rightarrow> ('w, 's, 'r, 'q, 'o) turn_end" where
  "replay_turn p request observation step next_cursor d =
     (if rp_request p (dv_state d) \<noteq> request then Te_Stop (De_RequestDrift (dv_turn d)) d
      else if rp_transition p (dv_state d) observation \<noteq> step then Te_Stop (De_TransitionDrift (dv_turn d)) d
      else end_turn step (d\<lparr>dv_cursor := next_cursor\<rparr>))"

definition record_step ::
  "('s, 'r, 'q, 'o, 'c) rx_program \<Rightarrow> effect_scope \<Rightarrow> 'o option
     \<Rightarrow> ('w, 's, 'r, 'q, 'o) drive \<Rightarrow> ('w, 's, 'r, 'q, 'o) turn_end" where
  "record_step p scope observation d =
     (let step = rp_transition p (dv_state d) observation;
          entries = dv_journal d @ [Je_Transition (dv_turn d) scope step]
      in end_turn step (d\<lparr>dv_journal := entries, dv_cursor := length entries\<rparr>))"

definition fresh_turn ::
  "('s, 'r, 'q, 'o, 'c) rx_program \<Rightarrow> ('w, 'q, 'o, 'c) rx_host \<Rightarrow> effect_scope
     \<Rightarrow> ('w, 's, 'r, 'q, 'o) drive \<Rightarrow> ('w, 's, 'r, 'q, 'o) turn_end" where
  "fresh_turn p h scope d =
     (case rp_request p (dv_state d) of
        None \<Rightarrow> record_step p scope None d
      | Some request \<Rightarrow>
          let intent = dv_journal d @ [Je_Intent (dv_turn d) scope request]
          in (case rh_dispatch h request (dv_world d) of
                (Inr observation, w) \<Rightarrow>
                  record_step p scope (Some observation)
                    (d\<lparr>dv_journal := intent @ [Je_Observed (dv_turn d) scope request observation],
                       dv_dispatched := dv_dispatched d + 1, dv_world := w\<rparr>)
              | (Inl reason, w) \<Rightarrow>
                  Te_Stop (De_HandlerFailed (dv_turn d) reason)
                    (d\<lparr>dv_journal := intent @ [Je_ObservationFailed (dv_turn d) scope request reason],
                       dv_world := w\<rparr>)))"

definition drive_turn ::
  "('s, 'r, 'q, 'o, 'c) rx_program \<Rightarrow> ('w, 'q, 'o, 'c) rx_host \<Rightarrow> effect_scope \<Rightarrow> u32
     \<Rightarrow> ('w, 's, 'r, 'q, 'o) drive \<Rightarrow> ('w, 's, 'r, 'q, 'o) turn_end" where
  "drive_turn p h scope max_turns d =
     (if max_turns \<le> dv_turn d then Te_Stop De_BudgetExhausted d
      else
        (case rh_cancelled h (dv_world d) of
           (True, w) \<Rightarrow> Te_Stop De_Cancelled (d\<lparr>dv_world := w\<rparr>)
         | (False, w) \<Rightarrow>
             let d1 = d\<lparr>dv_world := w\<rparr>
             in (case peek_recorded (dv_journal d1) (dv_cursor d1) (dv_turn d1) of
                   Rc_Group request observation step next_cursor \<Rightarrow>
                     replay_turn p request observation step next_cursor d1
                 | Rc_Failure reason \<Rightarrow> Te_Stop (De_HandlerFailed (dv_turn d1) reason) d1
                 | Rc_None \<Rightarrow> fresh_turn p h scope d1)))"

lemma word_below:
  fixes a b :: "'a::len word"
  assumes "a < b"
  shows "unat (a + 1) = Suc (unat a)"
proof -
  have "unat b < 2 ^ LENGTH('a)" by (rule unsigned_less)
  moreover have "unat a < unat b" using assms by (simp add: word_less_nat_alt)
  ultimately have "Suc (unat a) < 2 ^ LENGTH('a)" by linarith
  then show ?thesis by (simp add: unat_word_ariths)
qed

lemma end_turn_Next: "end_turn step d = Te_Next d' \<Longrightarrow> dv_turn d' = dv_turn d + 1"
  by (auto simp: end_turn_def split: rx_step.splits)

lemma drive_turn_Next:
  "drive_turn p h scope max_turns d = Te_Next d' \<Longrightarrow> dv_turn d' = dv_turn d + 1 \<and> dv_turn d < max_turns"
  by (auto simp: drive_turn_def replay_turn_def fresh_turn_def record_step_def Let_def not_le
      split: if_splits prod.splits bool.splits recorded.splits option.splits sum.splits dest!: end_turn_Next)

function drive_loop ::
  "('s, 'r, 'q, 'o, 'c) rx_program \<Rightarrow> ('w, 'q, 'o, 'c) rx_host \<Rightarrow> effect_scope \<Rightarrow> u32
     \<Rightarrow> ('w, 's, 'r, 'q, 'o) drive \<Rightarrow> (driver_error + ('s, 'r) rx_step) \<times> ('w, 's, 'r, 'q, 'o) drive" where
  "drive_loop p h scope max_turns d =
     (case drive_turn p h scope max_turns d of
        Te_Next d' \<Rightarrow> drive_loop p h scope max_turns d'
      | Te_Stop e d' \<Rightarrow> (Inl e, d')
      | Te_Done step d' \<Rightarrow> (Inr step, d'))"
  by pat_completeness auto

termination
  by (relation "measure (\<lambda>(p, h, scope, max_turns, d). unat max_turns - unat (dv_turn d))")
     (auto dest!: drive_turn_Next simp: word_below word_less_nat_alt)

declare drive_loop.simps [simp del]

fun run_cleanup :: "('c \<Rightarrow> 'w \<Rightarrow> (string + unit) \<times> 'w) \<Rightarrow> 'c list \<Rightarrow> 'w \<Rightarrow> ('c \<times> (string + unit)) list \<times> 'w" where
  "run_cleanup run [] w = ([], w)"
| "run_cleanup run (c # cs) w =
     (case run c w of (result, w1) \<Rightarrow> case run_cleanup run cs w1 of (results, w2) \<Rightarrow> ((c, result) # results, w2))"

record ('s, 'r, 'c) rx_outcome =
  ro_terminal :: "('s, 'r) rx_step"
  ro_cleanup :: "('c \<times> (string + unit)) list"
  ro_dispatched :: u32

definition rx_cleanup ::
  "('s, 'r, 'q, 'o, 'c) rx_program \<Rightarrow> ('w, 'q, 'o, 'c) rx_host \<Rightarrow> ('s, 'r) rx_step \<Rightarrow> 's \<Rightarrow> 'w
     \<Rightarrow> ('c \<times> (string + unit)) list \<times> 'w" where
  "rx_cleanup p h step s w =
     (case step of
        Rx_Complete _ \<Rightarrow> run_cleanup (rh_cleanup h) (rp_cleanup_plan p s) w
      | Rx_Fail _ \<Rightarrow> run_cleanup (rh_cleanup h) (rp_cleanup_plan p s) w
      | _ \<Rightarrow> ([], w))"

text \<open>The journal is returned with an error too; the world is what the handlers left.\<close>

definition rx_start :: "'s \<Rightarrow> ('s, 'r, 'q, 'o) journal \<Rightarrow> 'w \<Rightarrow> ('w, 's, 'r, 'q, 'o) drive" where
  "rx_start initial entries w =
     \<lparr>dv_state = initial, dv_turn = 0, dv_dispatched = 0, dv_cursor = 0, dv_journal = entries, dv_world = w\<rparr>"

definition rx_resume ::
  "('s, 'r, 'q, 'o, 'c) rx_program \<Rightarrow> ('w, 'q, 'o, 'c) rx_host \<Rightarrow> effect_scope \<Rightarrow> ('s, 'r, 'q, 'o) journal
     \<Rightarrow> 's \<Rightarrow> u32 \<Rightarrow> 'w
     \<Rightarrow> (driver_error, ('s, 'r, 'c) rx_outcome) res \<times> ('s, 'r, 'q, 'o) journal \<times> 'w" where
  "rx_resume p h scope entries initial max_turns w =
     (case journal_validate scope entries of
        Err e \<Rightarrow> (Err (De_Journal e), entries, w)
      | Panic \<Rightarrow> (Panic, entries, w)
      | Ok _ \<Rightarrow>
          (case drive_loop p h scope max_turns (rx_start initial entries w) of
             (Inl e, d) \<Rightarrow> (Err e, dv_journal d, dv_world d)
           | (Inr step, d) \<Rightarrow>
               (case rx_cleanup p h step (dv_state d) (dv_world d) of
                  (results, w') \<Rightarrow>
                    (Ok \<lparr>ro_terminal = step, ro_cleanup = results, ro_dispatched = dv_dispatched d\<rparr>,
                     dv_journal d, w'))))"

definition rx_run ::
  "('s, 'r, 'q, 'o, 'c) rx_program \<Rightarrow> ('w, 'q, 'o, 'c) rx_host \<Rightarrow> effect_scope \<Rightarrow> 's \<Rightarrow> u32 \<Rightarrow> 'w
     \<Rightarrow> (driver_error, ('s, 'r, 'c) rx_outcome) res \<times> ('s, 'r, 'q, 'o) journal \<times> 'w" where
  "rx_run p h scope initial max_turns w = rx_resume p h scope [] initial max_turns w"

end
