(* ===== verification/EffectReplay.thy ===== *)
theory EffectReplay
  imports EffectDrive
begin

text \<open>
  What the driver of \<open>src/resumable_effects/core.rs\<close> records, and what replaying it does.  A journal the
  driver produced is the entries of finished turns, and then nothing, one terminal turn, or one failed
  dispatch.
\<close>

section \<open>The shape of a journal\<close>

fun turn_entries ::
  "effect_scope \<Rightarrow> u32 \<Rightarrow> ('q \<times> 'o) option \<Rightarrow> ('s, 'r) rx_step \<Rightarrow> ('s, 'r, 'q, 'o) journal" where
  "turn_entries scope k None step = [Je_Transition k scope step]"
| "turn_entries scope k (Some (request, observation)) step =
     [Je_Intent k scope request, Je_Observed k scope request observation, Je_Transition k scope step]"

text \<open>The turns that continued, each with its effect and the state it led to.\<close>

type_synonym ('s, 'q, 'o) turns = "(('q \<times> 'o) option \<times> 's) list"

fun recorded_turns :: "effect_scope \<Rightarrow> u32 \<Rightarrow> ('s, 'q, 'o) turns \<Rightarrow> ('s, 'r, 'q, 'o) journal" where
  "recorded_turns scope k [] = []"
| "recorded_turns scope k ((effect, s) # ts) =
     turn_entries scope k effect (Rx_Continue s) @ recorded_turns scope (k + 1) ts"

text \<open>How many entries these are.\<close>

definition entry_count :: "('q \<times> 'o) option \<Rightarrow> nat" where
  "entry_count effect = (case effect of None \<Rightarrow> 1 | Some _ \<Rightarrow> 3)"

definition recorded_length :: "('s, 'q, 'o) turns \<Rightarrow> nat" where
  "recorded_length ts = sum_list (map (entry_count \<circ> fst) ts)"

lemma length_turn_entries [simp]: "length (turn_entries scope k effect step) = entry_count effect"
  by (cases "(scope, k, effect, step)" rule: turn_entries.cases) (simp_all add: entry_count_def)

lemma length_recorded [simp]: "length (recorded_turns scope k ts) = recorded_length ts"
  by (induction scope k ts rule: recorded_turns.induct) (simp_all add: recorded_length_def)

lemma recorded_length_simps [simp]:
  "recorded_length [] = 0" "recorded_length (ts @ us) = recorded_length ts + recorded_length us"
  "recorded_length ((effect, s) # ts) = entry_count effect + recorded_length ts"
  by (simp_all add: recorded_length_def)

definition takes :: "('s, 'r, 'q, 'o, 'c) rx_program \<Rightarrow> 's \<Rightarrow> ('q \<times> 'o) option \<Rightarrow> ('s, 'r) rx_step \<Rightarrow> bool" where
  "takes p s effect step \<longleftrightarrow>
     rp_request p s = map_option fst effect \<and> rp_transition p s (map_option snd effect) = step"

fun follows :: "('s, 'r, 'q, 'o, 'c) rx_program \<Rightarrow> 's \<Rightarrow> ('s, 'q, 'o) turns \<Rightarrow> bool" where
  "follows p s [] = True"
| "follows p s ((effect, s') # ts) \<longleftrightarrow> takes p s effect (Rx_Continue s') \<and> follows p s' ts"

fun end_state :: "'s \<Rightarrow> ('s, 'q, 'o) turns \<Rightarrow> 's" where
  "end_state s [] = s"
| "end_state s ((effect, s') # ts) = end_state s' ts"

datatype ('s, 'r, 'q, 'o) ending =
    En_Open | En_Terminal "('q \<times> 'o) option" "('s, 'r) rx_step" | En_Failed 'q string

fun ending_entries :: "effect_scope \<Rightarrow> u32 \<Rightarrow> ('s, 'r, 'q, 'o) ending \<Rightarrow> ('s, 'r, 'q, 'o) journal" where
  "ending_entries scope k En_Open = []"
| "ending_entries scope k (En_Terminal effect step) = turn_entries scope k effect step"
| "ending_entries scope k (En_Failed request reason) =
     [Je_Intent k scope request, Je_ObservationFailed k scope request reason]"

fun ends :: "('s, 'r, 'q, 'o, 'c) rx_program \<Rightarrow> 's \<Rightarrow> ('s, 'r, 'q, 'o) ending \<Rightarrow> bool" where
  "ends p s En_Open = True"
| "ends p s (En_Terminal effect step) \<longleftrightarrow> takes p s effect step \<and> rx_is_terminal step"
| "ends p s (En_Failed request reason) \<longleftrightarrow> rp_request p s = Some request"

definition journal_of ::
  "effect_scope \<Rightarrow> ('s, 'q, 'o) turns \<Rightarrow> ('s, 'r, 'q, 'o) ending \<Rightarrow> ('s, 'r, 'q, 'o) journal" where
  "journal_of scope ts e = recorded_turns scope 0 ts @ ending_entries scope (of_nat (length ts)) e"

definition kept ::
  "('s, 'r, 'q, 'o, 'c) rx_program \<Rightarrow> effect_scope \<Rightarrow> 's \<Rightarrow> ('s, 'q, 'o) turns \<Rightarrow> ('s, 'r, 'q, 'o) ending \<Rightarrow> bool" where
  "kept p scope s ts e \<longleftrightarrow> follows p s ts \<and> ends p (end_state s ts) e \<and> length ts < 2 ^ 32"

lemma recorded_append:
  "recorded_turns scope k (ts @ us) = recorded_turns scope k ts @ recorded_turns scope (k + of_nat (length ts)) us"
  by (induction scope k ts rule: recorded_turns.induct) (simp_all add: ac_simps)

lemma follows_append: "follows p s (ts @ us) \<longleftrightarrow> follows p s ts \<and> follows p (end_state s ts) us"
  by (induction p s ts rule: follows.induct) simp_all

lemma end_state_append: "end_state s (ts @ us) = end_state (end_state s ts) us"
  by (induction s ts rule: end_state.induct) simp_all

section \<open>Such a journal is valid\<close>

lemma u_add_below: "unat (k :: u32) < 2 ^ 32 - 1 \<Longrightarrow> u_add k 1 = (Ok (k + 1) :: ('e, u32) res)"
  by (simp add: u_add_def u_checked_add_def)

lemma check_turn:
  fixes effect :: "('q \<times> 'o) option" and step :: "('s, 'r) rx_step"
  shows "check_entries scope at (turn_entries scope k effect step @ es)
       \<lparr>jc_turn_expected = k, jc_terminal_seen = False, jc_phase = Jp_FreshTurn, jc_open_request = None\<rparr> =
     res_bind (check_kind at (Je_Transition k scope step :: ('s, 'r, 'q, 'o) journal_entry) \<lparr>jc_turn_expected = k, jc_terminal_seen = False,
         jc_phase = Jp_FreshTurn, jc_open_request = None\<rparr>)
       (check_entries scope (at + entry_count effect) es)"
  by (cases "(scope, k, effect, step)" rule: turn_entries.cases)
     (auto simp: check_entry_def check_observation_def Let_def entry_count_def eval_nat_numeral)

lemma check_recorded:
  "unat k + length ts < 2 ^ 32 \<Longrightarrow>
     check_entries scope at (recorded_turns scope k ts @ es)
       \<lparr>jc_turn_expected = k, jc_terminal_seen = False, jc_phase = Jp_FreshTurn, jc_open_request = None\<rparr> =
     check_entries scope (at + recorded_length ts) es
       \<lparr>jc_turn_expected = k + of_nat (length ts), jc_terminal_seen = False, jc_phase = Jp_FreshTurn,
        jc_open_request = None\<rparr>"
proof (induction scope k ts arbitrary: at rule: recorded_turns.induct)
  case (2 scope k effect s ts)
  have k: "unat (k + 1) = Suc (unat k)" using 2(2) by (simp add: unat_word_ariths)
  have "check_entries scope at (recorded_turns scope k ((effect, s) # ts) @ es)
      \<lparr>jc_turn_expected = k, jc_terminal_seen = False, jc_phase = Jp_FreshTurn, jc_open_request = None\<rparr> =
    check_entries scope (at + entry_count effect) (recorded_turns scope (k + 1) ts @ es)
      \<lparr>jc_turn_expected = k + 1, jc_terminal_seen = False, jc_phase = Jp_FreshTurn, jc_open_request = None\<rparr>"
  proof -
    have "unat k < 2 ^ 32 - 1" using 2(2) by simp
    then show ?thesis by (simp add: check_turn u_add_below)
  qed
  then show ?case using 2(1)[of "at + entry_count effect"] 2(2) k
    by (simp add: ac_simps)
qed simp

lemma kept_valid:
  assumes "kept p scope s ts e"
  shows "journal_validate scope (journal_of scope ts e) = Ok ()"
proof -
  let ?k = "of_nat (length ts) :: u32"
  let ?c = "\<lparr>jc_turn_expected = ?k, jc_terminal_seen = False, jc_phase = Jp_FreshTurn, jc_open_request = None\<rparr>"
  let ?at = "recorded_length ts"
  have "check_entries scope 0 (journal_of scope ts e) journal_check_start =
      check_entries scope ?at (ending_entries scope ?k e) ?c"
    using check_recorded[of 0 ts scope 0 "ending_entries scope ?k e"] assms
    by (simp add: journal_of_def journal_check_start_def kept_def)
  moreover have "\<exists>c. check_entries scope ?at (ending_entries scope ?k e) ?c = Ok c \<and> jc_phase c \<noteq> Jp_AfterIntent"
  proof (cases e)
    case (En_Terminal effect step)
    then have "rx_is_terminal step" using assms by (simp add: kept_def)
    then show ?thesis
      using check_turn[of scope ?at ?k effect step "[]"] by (simp add: En_Terminal Let_def)
  qed (simp_all add: check_entry_def check_observation_def)
  ultimately show ?thesis by (auto simp: journal_validate_def)
qed

section \<open>Turns over such a journal\<close>

text \<open>The driver in front of the turns \<open>us\<close> and the ending.\<close>

definition poised ::
  "('s, 'r, 'q, 'o, 'c) rx_program \<Rightarrow> effect_scope \<Rightarrow> 's \<Rightarrow> ('s, 'q, 'o) turns \<Rightarrow> ('s, 'q, 'o) turns
     \<Rightarrow> ('s, 'r, 'q, 'o) ending \<Rightarrow> ('w, 's, 'r, 'q, 'o) drive \<Rightarrow> bool" where
  "poised p scope s ts us e d \<longleftrightarrow> kept p scope s (ts @ us) e \<and> dv_journal d = journal_of scope (ts @ us) e
     \<and> dv_state d = end_state s ts \<and> dv_turn d = of_nat (length ts) \<and> dv_cursor d = recorded_length ts"

lemma entry_at_append: "entry_at (xs @ ys) (length xs + i) = entry_at ys i"
  by (simp add: entry_at_def nth_append)

lemma peek_append: "n = length xs \<Longrightarrow> peek_recorded (xs @ ys) n k =
    (case peek_recorded ys 0 k of Rc_Group q ob step next_cursor \<Rightarrow> Rc_Group q ob step (n + next_cursor) | x \<Rightarrow> x)"
  using entry_at_append[of xs ys 0] entry_at_append[of xs ys "Suc 0"] entry_at_append[of xs ys "Suc (Suc 0)"]
  by (auto simp: peek_recorded_def numeral_2_eq_2 split: option.splits journal_entry.splits)

lemma peek_turn: "peek_recorded (turn_entries scope k effect step @ es) 0 k =
    Rc_Group (map_option fst effect) (map_option snd effect) step (entry_count effect)"
  by (cases "(scope, k, effect, step)" rule: turn_entries.cases)
     (simp_all add: peek_recorded_def entry_at_def eval_nat_numeral entry_count_def)

lemma peek_failed:
  "peek_recorded [Je_Intent k scope request, Je_ObservationFailed k scope request reason] 0 k = Rc_Failure reason"
  by (simp add: peek_recorded_def entry_at_def)

lemma peek_poised:
  assumes "poised p scope s ts us e d"
  shows "peek_recorded (dv_journal d) (dv_cursor d) (dv_turn d) =
    (case us of
       (effect, s') # us' \<Rightarrow> Rc_Group (map_option fst effect) (map_option snd effect) (Rx_Continue s')
         (recorded_length (ts @ [(effect, s')]))
     | [] \<Rightarrow>
         (case e of
            En_Open \<Rightarrow> Rc_None
          | En_Terminal effect step \<Rightarrow> Rc_Group (map_option fst effect) (map_option snd effect) step (length (dv_journal d))
          | En_Failed request reason \<Rightarrow> Rc_Failure reason))"
proof -
  have c: "dv_cursor d = recorded_length ts" "dv_turn d = of_nat (length ts)" using assms by (simp_all add: poised_def)
  show ?thesis
  proof (cases us)
    case Nil
    have j: "dv_journal d = recorded_turns scope 0 ts @ ending_entries scope (of_nat (length ts)) e"
      using assms Nil by (simp add: poised_def journal_of_def)
    show ?thesis
    proof (cases e)
      case (En_Terminal effect step)
      then show ?thesis unfolding j c by (simp add: Nil peek_append peek_turn[where es = "[]", simplified])
    next
      case En_Open
      show ?thesis unfolding j c by (simp add: Nil En_Open peek_recorded_def entry_at_def)
    next
      case (En_Failed request reason)
      then show ?thesis unfolding j c by (simp add: Nil peek_append peek_failed)
    qed
  next
    case (Cons t us')
    obtain effect s' where t: "t = (effect, s')" by (cases t)
    have j: "dv_journal d = recorded_turns scope 0 ts @ turn_entries scope (of_nat (length ts)) effect (Rx_Continue s')
        @ recorded_turns scope (of_nat (length ts) + 1) us' @ ending_entries scope (of_nat (length (ts @ us))) e"
      using assms by (simp add: poised_def journal_of_def recorded_append Cons t)
    show ?thesis unfolding j c by (simp add: Cons t peek_append peek_turn)
  qed
qed

section \<open>One turn\<close>

lemma journal_of_append_Nil: "journal_of scope ts En_Open = recorded_turns scope 0 ts"
  by (simp add: journal_of_def)

lemma end_turn_terminal: "rx_is_terminal step \<Longrightarrow> end_turn step d = Te_Done step d"
  by (cases step) (simp_all add: end_turn_def)

text \<open>What a turn leaves, from a poised driver.\<close>

fun turn_kept ::
  "('s, 'r, 'q, 'o, 'c) rx_program \<Rightarrow> effect_scope \<Rightarrow> 's \<Rightarrow> ('w, 's, 'r, 'q, 'o) turn_end \<Rightarrow> bool" where
  "turn_kept p scope s (Te_Next d) \<longleftrightarrow> (\<exists>ts us e. poised p scope s ts us e d)"
| "turn_kept p scope s (Te_Stop err d) \<longleftrightarrow> (\<exists>ts e. kept p scope s ts e \<and> dv_journal d = journal_of scope ts e
     \<and> (err = De_BudgetExhausted \<or> err = De_Cancelled
        \<or> (\<exists>request reason. err = De_HandlerFailed (of_nat (length ts)) reason \<and> e = En_Failed request reason)))"
| "turn_kept p scope s (Te_Done step d) \<longleftrightarrow> (\<exists>ts effect. kept p scope s ts (En_Terminal effect step)
     \<and> dv_journal d = journal_of scope ts (En_Terminal effect step) \<and> dv_state d = end_state s ts
     \<and> dv_turn d = of_nat (length ts))"

lemma poised_length: "poised p scope s ts us e d \<Longrightarrow> unat (dv_turn d) = length ts"
  by (simp add: poised_def kept_def unat_word_of_nat)

lemma poised_world: "poised p scope s ts us e (d\<lparr>dv_world := w\<rparr>) = poised p scope s ts us e d"
  by (simp add: poised_def)

lemma replay_turn_poised:
  assumes d: "poised p scope s ts ((effect, s') # us) e d"
  shows "\<exists>d'. replay_turn p (map_option fst effect) (map_option snd effect) (Rx_Continue s')
       (recorded_length (ts @ [(effect, s')])) d = Te_Next d' \<and> poised p scope s (ts @ [(effect, s')]) us e d'
     \<and> dv_world d' = dv_world d \<and> dv_dispatched d' = dv_dispatched d \<and> dv_journal d' = dv_journal d"
proof -
  have "takes p (end_state s ts) effect (Rx_Continue s')"
    using d by (simp add: poised_def kept_def follows_append)
  then show ?thesis
    using d by (auto simp: replay_turn_def takes_def end_turn_def poised_def end_state_append)
qed

lemma record_step_poised:
  assumes k: "kept p scope s ts En_Open" and t: "length ts < 2 ^ 32 - 1"
    and d: "dv_state d = end_state s ts" "dv_turn d = of_nat (length ts)"
    and effect: "rp_request p (end_state s ts) = map_option fst effect"
    and j: "dv_journal d @ [Je_Transition (dv_turn d) scope (rp_transition p (dv_state d) (map_option snd effect))] =
        recorded_turns scope 0 ts @ turn_entries scope (dv_turn d) effect (rp_transition p (dv_state d) (map_option snd effect))"
  shows "turn_kept p scope s (record_step p scope (map_option snd effect) d)"
proof -
  let ?step = "rp_transition p (end_state s ts) (map_option snd effect)"
  have takes: "takes p (end_state s ts) effect ?step" using effect by (simp add: takes_def)
  show ?thesis
  proof (cases "rx_is_terminal ?step")
    case True
    then have "kept p scope s ts (En_Terminal effect ?step)" using k takes by (simp add: kept_def)
    then show ?thesis
      using True d j by (auto simp: record_step_def Let_def end_turn_terminal journal_of_def)
  next
    case False
    then obtain s' where s': "?step = Rx_Continue s'" by (cases ?step) auto
    let ?ts = "ts @ [(effect, s')]"
    have "kept p scope s (?ts @ []) En_Open" using k takes t s' by (simp add: kept_def follows_append)
    moreover have "dv_journal d @ [Je_Transition (dv_turn d) scope ?step] = journal_of scope ?ts En_Open"
      using j d s' by (simp add: journal_of_def recorded_append)
    ultimately have "poised p scope s ?ts [] En_Open
        (d\<lparr>dv_journal := dv_journal d @ [Je_Transition (dv_turn d) scope ?step],
           dv_cursor := length (dv_journal d @ [Je_Transition (dv_turn d) scope ?step]),
           dv_state := s', dv_turn := dv_turn d + 1\<rparr>)"
      using d by (simp add: poised_def end_state_append journal_of_def del: append_Nil2)
    then show ?thesis using d s' by (auto simp: record_step_def Let_def end_turn_def)
  qed
qed

lemma fresh_turn_poised:
  assumes d: "poised p scope s ts [] En_Open d" and t: "length ts < 2 ^ 32 - 1"
  shows "turn_kept p scope s (fresh_turn p h scope d)"
proof -
  have k: "kept p scope s ts En_Open" and j: "dv_journal d = recorded_turns scope 0 ts"
    and st: "dv_state d = end_state s ts" "dv_turn d = of_nat (length ts)"
    using d by (simp_all add: poised_def journal_of_def)
  show ?thesis
  proof (cases "rp_request p (dv_state d)")
    case None
    then show ?thesis using record_step_poised[OF k t st, of None] st j by (simp add: fresh_turn_def)
  next
    case (Some request)
    obtain reply w where w: "rh_dispatch h request (dv_world d) = (reply, w)" by (cases "rh_dispatch h request (dv_world d)")
    show ?thesis
    proof (cases reply)
      case (Inl reason)
      have "kept p scope s ts (En_Failed request reason)" using k Some st by (simp add: kept_def)
      then show ?thesis
        using Some w Inl j st by (auto simp: fresh_turn_def Let_def journal_of_def intro!: exI[of _ ts] exI[of _ "En_Failed request reason"])
    next
      case (Inr observation)
      let ?d = "d\<lparr>dv_journal := dv_journal d @ [Je_Intent (dv_turn d) scope request,
          Je_Observed (dv_turn d) scope request observation], dv_dispatched := dv_dispatched d + 1, dv_world := w\<rparr>"
      have "turn_kept p scope s (record_step p scope (map_option snd (Some (request, observation))) ?d)"
        by (rule record_step_poised[OF k t]) (use Some st j in simp_all)
      then show ?thesis by (simp add: fresh_turn_def Some Let_def w Inr)
    qed
  qed
qed

lemma drive_turn_poised:
  assumes d: "poised p scope s ts us e d"
  shows "turn_kept p scope s (drive_turn p h scope max_turns d)"
proof (cases "max_turns \<le> dv_turn d")
  case True
  then show ?thesis using d by (auto simp: drive_turn_def poised_def)
next
  case False
  obtain c w where w: "rh_cancelled h (dv_world d) = (c, w)" by (cases "rh_cancelled h (dv_world d)")
  let ?d = "d\<lparr>dv_world := w\<rparr>"
  have d': "poised p scope s ts us e ?d" using d by (simp add: poised_world)
  note peek = peek_poised[OF d']
  show ?thesis
  proof (cases c)
    case True
    then show ?thesis using d False w by (auto simp: drive_turn_def poised_def)
  next
    case not_cancelled: False
    have turn: "drive_turn p h scope max_turns d = (case peek_recorded (dv_journal ?d) (dv_cursor ?d) (dv_turn ?d) of
         Rc_Group request observation step next_cursor \<Rightarrow> replay_turn p request observation step next_cursor ?d
       | Rc_Failure reason \<Rightarrow> Te_Stop (De_HandlerFailed (dv_turn ?d) reason) ?d
       | Rc_None \<Rightarrow> fresh_turn p h scope ?d)"
      using False w not_cancelled by (simp add: drive_turn_def Let_def del: drive.update_convs)
    show ?thesis
    proof (cases us)
      case (Cons t us')
      obtain effect s' where t: "t = (effect, s')" by (cases t)
      from replay_turn_poised[OF d'[unfolded Cons t]] obtain d2 where
        d2: "replay_turn p (map_option fst effect) (map_option snd effect) (Rx_Continue s')
          (recorded_length (ts @ [(effect, s')])) ?d = Te_Next d2" "poised p scope s (ts @ [(effect, s')]) us' e d2"
        by blast
      then have "turn_kept p scope s (Te_Next d2)" unfolding turn_kept.simps by blast
      then show ?thesis unfolding turn peek Cons t using d2(1) by simp
    next
      case Nil
      have k: "kept p scope s ts e" "dv_journal ?d = journal_of scope ts e" "dv_state ?d = end_state s ts"
        "dv_turn ?d = of_nat (length ts)"
        using d' Nil by (simp_all add: poised_def)
      show ?thesis
      proof (cases e)
        case En_Open
        have "length ts < 2 ^ 32 - 1"
        proof -
          have "unat (dv_turn d) < unat max_turns" using False by (simp add: word_less_nat_alt not_le)
          moreover have "unat max_turns < 2 ^ 32" using unsigned_less[of max_turns, where 'a = nat] by simp
          ultimately show ?thesis using poised_length[OF d] by simp
        qed
        from fresh_turn_poised[OF d'[unfolded Nil En_Open] this] show ?thesis
          unfolding turn peek Nil En_Open by simp
      next
        case (En_Terminal effect step)
        have "takes p (end_state s ts) effect step" "rx_is_terminal step" using k(1) En_Terminal by (simp_all add: kept_def)
        then show ?thesis
          unfolding turn peek Nil En_Terminal using k En_Terminal
          by (auto simp: replay_turn_def takes_def end_turn_terminal)
      next
        case (En_Failed request reason)
        then show ?thesis unfolding turn peek Nil using k by auto
      qed
    qed
  qed
qed

section \<open>Whole calls\<close>

lemma drive_loop_kept:
  "poised p scope s ts us e d \<Longrightarrow> turn_kept p scope s
     (case drive_loop p h scope n d of (Inl err, d') \<Rightarrow> Te_Stop err d' | (Inr step, d') \<Rightarrow> Te_Done step d')"
proof (induction p h scope n d arbitrary: ts us e rule: drive_loop.induct)
  case (1 p h scope n d)
  note k = drive_turn_poised[OF 1(2), of h n]
  show ?case
  proof (cases "drive_turn p h scope n d")
    case (Te_Next d')
    then obtain ts' us' e' where d': "poised p scope s ts' us' e' d'" using k by auto
    show ?thesis using 1(1)[OF Te_Next d'] by (subst drive_loop.simps) (simp add: Te_Next)
  next
    case (Te_Stop err d')
    then show ?thesis using k by (subst drive_loop.simps) simp
  next
    case (Te_Done step d')
    then show ?thesis using k by (subst drive_loop.simps) simp
  qed
qed

lemma start_poised: "kept p scope s ts e \<Longrightarrow> poised p scope s [] ts e (rx_start s (journal_of scope ts e) w)"
  by (simp add: poised_def rx_start_def)

definition driver_journal ::
  "('s, 'r, 'q, 'o, 'c) rx_program \<Rightarrow> effect_scope \<Rightarrow> 's \<Rightarrow> ('s, 'r, 'q, 'o) journal \<Rightarrow> bool" where
  "driver_journal p scope s j \<longleftrightarrow> (\<exists>ts e. kept p scope s ts e \<and> j = journal_of scope ts e)"

lemma driver_journalI: "j = journal_of scope ts e \<Longrightarrow> kept p scope s ts e \<Longrightarrow> driver_journal p scope s j"
  by (auto simp: driver_journal_def)

lemma driver_journal_empty: "driver_journal p scope s []"
proof -
  have "kept p scope s [] En_Open" by (simp add: kept_def)
  moreover have "[] = journal_of scope [] En_Open" by (simp add: journal_of_def)
  ultimately show ?thesis unfolding driver_journal_def by blast
qed

lemma driver_journal_valid: "driver_journal p scope s j \<Longrightarrow> journal_validate scope j = Ok ()"
  using kept_valid by (fastforce simp: driver_journal_def)

lemma resume_kept:
  assumes "driver_journal p scope s j" and "rx_resume p h scope j s n w = (result, j', w')"
  shows "driver_journal p scope s j' \<and> (case result of Ok x \<Rightarrow> True
     | Err err \<Rightarrow> err = De_BudgetExhausted \<or> err = De_Cancelled \<or> (\<exists>turn reason. err = De_HandlerFailed turn reason)
     | Panic \<Rightarrow> False)"
proof -
  obtain ts e where k: "kept p scope s ts e" and j: "j = journal_of scope ts e"
    using assms(1) by (auto simp: driver_journal_def)
  note loop = drive_loop_kept[OF start_poised[OF k, of w], of h n]
  show ?thesis
    using assms(2) loop kept_valid[OF k] j
    by (auto simp: rx_resume_def intro: driver_journalI driver_journalI[OF sym] split: prod.splits sum.splits)
qed

section \<open>Replay\<close>

definition never_cancels :: "('w, 'q, 'o, 'c) rx_host \<Rightarrow> bool" where
  "never_cancels h \<longleftrightarrow> (\<forall>w. rh_cancelled h w = (False, w))"

lemma same_world: "d\<lparr>dv_world := dv_world d\<rparr> = (d :: ('w, 's, 'r, 'q, 'o) drive)"
  by (cases d) simp

lemma drive_turn_replays:
  assumes d: "poised p scope s ts us e d" and h: "never_cancels h" and n: "length ts < unat n"
  shows "drive_turn p h scope n d = (case peek_recorded (dv_journal d) (dv_cursor d) (dv_turn d) of
       Rc_Group request observation step next_cursor \<Rightarrow> replay_turn p request observation step next_cursor d
     | Rc_Failure reason \<Rightarrow> Te_Stop (De_HandlerFailed (dv_turn d) reason) d
     | Rc_None \<Rightarrow> fresh_turn p h scope d)"
proof -
  have "\<not> n \<le> dv_turn d" using n poised_length[OF d] by (simp add: word_le_nat_alt)
  moreover have "rh_cancelled h (dv_world d) = (False, dv_world d)" using h by (simp add: never_cancels_def)
  ultimately show ?thesis by (simp add: drive_turn_def Let_def) (simp only: same_world)
qed

lemma replay_loop:
  assumes h: "never_cancels h"
  shows "poised p scope s ts (us @ vs) e d \<Longrightarrow> length (ts @ us) \<le> unat n \<Longrightarrow>
     \<exists>d'. drive_loop p h scope n d = drive_loop p h scope n d' \<and> poised p scope s (ts @ us) vs e d'
       \<and> dv_world d' = dv_world d \<and> dv_dispatched d' = dv_dispatched d \<and> dv_journal d' = dv_journal d"
proof (induction us arbitrary: ts d)
  case Nil
  then show ?case by (intro exI[of _ d]) simp
next
  case (Cons t us)
  obtain effect s' where t: "t = (effect, s')" by (cases t)
  have p: "poised p scope s ts ((effect, s') # us @ vs) e d" using Cons.prems(1) by (simp add: t)
  from replay_turn_poised[OF p] obtain d1 where d1: "replay_turn p (map_option fst effect) (map_option snd effect)
      (Rx_Continue s') (recorded_length (ts @ [(effect, s')])) d = Te_Next d1"
    "poised p scope s (ts @ [(effect, s')]) (us @ vs) e d1" "dv_world d1 = dv_world d"
    "dv_dispatched d1 = dv_dispatched d" "dv_journal d1 = dv_journal d" by blast
  have "drive_turn p h scope n d = Te_Next d1"
    using drive_turn_replays[OF p h] Cons.prems(2) d1(1) unfolding peek_poised[OF p] by simp
  then have "drive_loop p h scope n d = drive_loop p h scope n d1" by (subst drive_loop.simps) simp
  then show ?case using Cons.IH[OF d1(2)] Cons.prems(2) d1 by (simp add: t)
qed

text \<open>A journal with a terminal turn, or with a failed dispatch, is replayed to its end.\<close>

lemma replay_terminal:
  assumes k: "kept p scope s ts (En_Terminal effect step)" and h: "never_cancels h" and n: "length ts < unat n"
  shows "\<exists>d. drive_loop p h scope n (rx_start s (journal_of scope ts (En_Terminal effect step)) w) = (Inr step, d)
     \<and> dv_state d = end_state s ts \<and> dv_world d = w \<and> dv_dispatched d = 0
     \<and> dv_journal d = journal_of scope ts (En_Terminal effect step)"
proof -
  have "poised p scope s [] (ts @ []) (En_Terminal effect step) (rx_start s (journal_of scope ts (En_Terminal effect step)) w)"
    using start_poised[OF k] by simp
  from replay_loop[OF h this, of n] n obtain d where
    d: "drive_loop p h scope n (rx_start s (journal_of scope ts (En_Terminal effect step)) w) = drive_loop p h scope n d"
    "poised p scope s ts [] (En_Terminal effect step) d" "dv_world d = w" "dv_dispatched d = 0"
    "dv_journal d = journal_of scope ts (En_Terminal effect step)" by (auto simp: rx_start_def)
  have t: "takes p (end_state s ts) effect step" "rx_is_terminal step" using k by (simp_all add: kept_def)
  have "drive_turn p h scope n d = Te_Done step (d\<lparr>dv_cursor := length (dv_journal d)\<rparr>)"
    using t d(2) drive_turn_replays[OF d(2) h n] unfolding peek_poised[OF d(2)]
    by (simp add: replay_turn_def takes_def end_turn_terminal poised_def)
  then have "drive_loop p h scope n d = (Inr step, d\<lparr>dv_cursor := length (dv_journal d)\<rparr>)"
    by (subst drive_loop.simps) simp
  then show ?thesis using d by (auto simp: poised_def)
qed

lemma replay_failed:
  assumes k: "kept p scope s ts (En_Failed request reason)" and h: "never_cancels h" and n: "length ts < unat n"
  shows "\<exists>d. drive_loop p h scope n (rx_start s (journal_of scope ts (En_Failed request reason)) w) =
       (Inl (De_HandlerFailed (of_nat (length ts)) reason), d) \<and> dv_world d = w
     \<and> dv_journal d = journal_of scope ts (En_Failed request reason)"
proof -
  have "poised p scope s [] (ts @ []) (En_Failed request reason) (rx_start s (journal_of scope ts (En_Failed request reason)) w)"
    using start_poised[OF k] by simp
  from replay_loop[OF h this, of n] n obtain d where
    d: "drive_loop p h scope n (rx_start s (journal_of scope ts (En_Failed request reason)) w) = drive_loop p h scope n d"
    "poised p scope s ts [] (En_Failed request reason) d" "dv_world d = w"
    "dv_journal d = journal_of scope ts (En_Failed request reason)" by (auto simp: rx_start_def)
  have "drive_turn p h scope n d = Te_Stop (De_HandlerFailed (of_nat (length ts)) reason) d"
    using d(2) drive_turn_replays[OF d(2) h n] unfolding peek_poised[OF d(2)] by (simp add: poised_def)
  then have "drive_loop p h scope n d = (Inl (De_HandlerFailed (of_nat (length ts)) reason), d)"
    by (subst drive_loop.simps) simp
  then show ?thesis using d by auto
qed

section \<open>Interruption\<close>

lemma drive_turn_budget:
  "drive_turn p h scope m d = Te_Stop De_BudgetExhausted d' \<Longrightarrow> d' = d \<and> m \<le> dv_turn d"
  by (auto simp: drive_turn_def replay_turn_def fresh_turn_def record_step_def end_turn_def Let_def
      split: if_splits prod.splits bool.splits recorded.splits option.splits sum.splits rx_step.splits)

lemma drive_turn_limit:
  "drive_turn p h scope m d = Te_Next d' \<Longrightarrow> m \<le> n \<Longrightarrow> drive_turn p h scope n d = Te_Next d'"
  by (auto simp: drive_turn_def split: if_splits)

lemma drive_loop_limit:
  "drive_loop p h scope m d = (Inl De_BudgetExhausted, d') \<Longrightarrow> m \<le> n \<Longrightarrow>
     drive_loop p h scope n d = drive_loop p h scope n d'"
proof (induction p h scope m d rule: drive_loop.induct)
  case (1 p h scope m d)
  show ?case
  proof (cases "drive_turn p h scope m d")
    case (Te_Next d1)
    then have "drive_loop p h scope m d1 = (Inl De_BudgetExhausted, d')"
      using 1(2) by (subst (asm) drive_loop.simps) simp
    from 1(1)[OF Te_Next this 1(3)] drive_turn_limit[OF Te_Next 1(3)] show ?thesis
      by (subst drive_loop.simps) simp
  next
    case (Te_Stop err d1)
    then have "err = De_BudgetExhausted" "d1 = d'" using 1(2) by (subst (asm) drive_loop.simps; simp)+
    then show ?thesis using drive_turn_budget Te_Stop by blast
  next
    case (Te_Done step d1)
    then show ?thesis using 1(2) by (subst (asm) drive_loop.simps) simp
  qed
qed

text \<open>The count of dispatches decides nothing.\<close>

definition shift :: "u32 \<Rightarrow> ('w, 's, 'r, 'q, 'o) drive \<Rightarrow> ('w, 's, 'r, 'q, 'o) drive" where
  "shift k d = d\<lparr>dv_dispatched := dv_dispatched d + k\<rparr>"

fun shift_end :: "u32 \<Rightarrow> ('w, 's, 'r, 'q, 'o) turn_end \<Rightarrow> ('w, 's, 'r, 'q, 'o) turn_end" where
  "shift_end k (Te_Next d) = Te_Next (shift k d)"
| "shift_end k (Te_Stop err d) = Te_Stop err (shift k d)"
| "shift_end k (Te_Done step d) = Te_Done step (shift k d)"

lemma end_turn_shift:
  "d' = shift k d \<Longrightarrow> end_turn step d' = shift_end k (end_turn step d)"
  by (cases step) (simp_all add: end_turn_def shift_def)

lemma record_step_shift: "record_step p scope observation (shift k d) = shift_end k (record_step p scope observation d)"
  by (simp add: record_step_def Let_def shift_def end_turn_shift[unfolded shift_def])

lemma fresh_turn_shift: "fresh_turn p h scope (shift k d) = shift_end k (fresh_turn p h scope d)"
proof (cases "rp_request p (dv_state d)")
  case None
  have "dv_state (shift k d) = dv_state d" by (simp add: shift_def)
  with None show ?thesis by (simp add: fresh_turn_def record_step_shift)
next
  case (Some request)
  obtain reply w where w: "rh_dispatch h request (dv_world d) = (reply, w)" by (cases "rh_dispatch h request (dv_world d)")
  show ?thesis
  proof (cases reply)
    case (Inl reason)
    then show ?thesis using Some w by (simp add: fresh_turn_def Let_def shift_def)
  next
    case (Inr observation)
    let ?d = "d\<lparr>dv_journal := dv_journal d @ [Je_Intent (dv_turn d) scope request,
          Je_Observed (dv_turn d) scope request observation], dv_dispatched := dv_dispatched d + 1, dv_world := w\<rparr>"
    have "fresh_turn p h scope (shift k d) = record_step p scope (Some observation) (shift k ?d)"
      using Some w Inr by (cases d) (simp add: fresh_turn_def Let_def shift_def ac_simps)
    also have "\<dots> = shift_end k (record_step p scope (Some observation) ?d)" by (rule record_step_shift)
    also have "record_step p scope (Some observation) ?d = fresh_turn p h scope d"
      using Some w Inr by (simp add: fresh_turn_def Let_def)
    finally show ?thesis .
  qed
qed

lemma drive_turn_shift: "drive_turn p h scope n (shift k d) = shift_end k (drive_turn p h scope n d)"
proof (cases "n \<le> dv_turn d")
  case True
  then show ?thesis by (simp add: drive_turn_def shift_def)
next
  case False
  obtain c w where w: "rh_cancelled h (dv_world d) = (c, w)" by (cases "rh_cancelled h (dv_world d)")
  have sw: "(shift k d)\<lparr>dv_world := w\<rparr> = shift k (d\<lparr>dv_world := w\<rparr>)" by (simp add: shift_def)
  have same: "dv_turn (shift k d') = dv_turn d'" "dv_world (shift k d') = dv_world d'" "dv_journal (shift k d') = dv_journal d'"
    "dv_cursor (shift k d') = dv_cursor d'" "dv_state (shift k d') = dv_state d'" for d' :: "('a, 'b, 'c, 'd, 'e) drive"
    by (simp_all add: shift_def)
  have replay: "replay_turn p request observation step next_cursor (shift k d') =
      shift_end k (replay_turn p request observation step next_cursor d')" for request observation step next_cursor d'
    by (simp add: replay_turn_def same end_turn_shift[of _ k "d'\<lparr>dv_cursor := next_cursor\<rparr>"] shift_def)
  show ?thesis
    using False w
    by (simp add: drive_turn_def same sw Let_def fresh_turn_shift replay split: bool.split recorded.split)
qed

lemma drive_loop_shift: "drive_loop p h scope n (shift k d) = map_prod id (shift k) (drive_loop p h scope n d)"
proof (induction p h scope n d rule: drive_loop.induct)
  case (1 p h scope n d)
  then show ?case
    by (subst (1 2) drive_loop.simps) (simp add: drive_turn_shift id_def split: turn_end.split)
qed

end
