(* ===== verification/EffectClaims.thy ===== *)
theory EffectClaims
  imports EffectReplay
begin

text \<open>
  The properties of the resumable-effects kernel (\<open>src/resumable_effects/core.rs\<close>): interruption and
  resumption, replay of a settled journal, and what any sequence of resumes leaves.
\<close>

section \<open>Where a loop stops\<close>

lemma drive_turn_Done: "drive_turn p h scope n d = Te_Done step d' \<Longrightarrow> dv_turn d' = dv_turn d \<and> dv_turn d < n"
  by (auto simp: drive_turn_def replay_turn_def fresh_turn_def record_step_def end_turn_def Let_def not_le
      split: if_splits prod.splits bool.splits recorded.splits option.splits sum.splits rx_step.splits)

lemma drive_turn_failed:
  "drive_turn p h scope n d = Te_Stop (De_HandlerFailed turn reason) d' \<Longrightarrow> turn = dv_turn d \<and> dv_turn d < n"
  by (auto simp: drive_turn_def replay_turn_def fresh_turn_def record_step_def end_turn_def Let_def not_le
      split: if_splits prod.splits bool.splits recorded.splits option.splits sum.splits rx_step.splits)

text \<open>A loop ends with a turn that has whatever every turn keeps.\<close>

lemma drive_loop_ends:
  "drive_loop p h scope n d = (r, d') \<Longrightarrow> I d \<Longrightarrow>
     (\<And>d d1. I d \<Longrightarrow> drive_turn p h scope n d = Te_Next d1 \<Longrightarrow> I d1) \<Longrightarrow>
     \<exists>d1. I d1 \<and> drive_turn p h scope n d1 = (case r of Inl err \<Rightarrow> Te_Stop err d' | Inr step \<Rightarrow> Te_Done step d')"
proof (induction p h scope n d rule: drive_loop.induct)
  case (1 p h scope n d)
  show ?case
  proof (cases "drive_turn p h scope n d")
    case (Te_Next d1)
    have "drive_loop p h scope n d1 = (r, d')" using 1(2) Te_Next by (subst (asm) drive_loop.simps) simp
    with 1(1)[OF Te_Next] 1(3,4) Te_Next show ?thesis by blast
  next
    case (Te_Stop err d1)
    have "r = Inl err" "d' = d1" using 1(2) Te_Stop by (subst (asm) drive_loop.simps; simp)+
    with 1(3) Te_Stop show ?thesis by (intro exI[of _ d]) simp
  next
    case (Te_Done step d1)
    have "r = Inr step" "d' = d1" using 1(2) Te_Done by (subst (asm) drive_loop.simps; simp)+
    with 1(3) Te_Done show ?thesis by (intro exI[of _ d]) simp
  qed
qed

lemma drive_loop_Done: "drive_loop p h scope n d = (Inr step, d') \<Longrightarrow> dv_turn d' < n"
  by (drule drive_loop_ends[where I = "\<lambda>_. True"]) (auto dest: drive_turn_Done)

lemma drive_loop_failed: "drive_loop p h scope n d = (Inl (De_HandlerFailed turn reason), d') \<Longrightarrow> turn < n"
  by (drule drive_loop_ends[where I = "\<lambda>_. True"]) (auto dest: drive_turn_failed)

lemma drive_loop_budget:
  fixes d :: "('w, 's, 'r, 'q, 'o) drive"
  assumes "drive_loop p h scope n d = (Inl De_BudgetExhausted, d')" and "poised p scope s ts us e d" and "dv_turn d \<le> n"
  shows "dv_turn d' \<le> n \<and> (\<exists>ts us e. poised p scope s ts us e d')"
proof -
  define I :: "('w, 's, 'r, 'q, 'o) drive \<Rightarrow> bool" where
    "I d = (dv_turn d \<le> n \<and> (\<exists>ts us e. poised p scope s ts us e d))" for d
  have keep: "I d1" if I: "I d0" and t: "drive_turn p h scope n d0 = Te_Next d1" for d0 d1
  proof -
    have "dv_turn d1 \<le> n" using drive_turn_Next[OF t] by (simp add: inc_le)
    moreover obtain ts us e where "poised p scope s ts us e d0" using I by (auto simp: I_def)
    then have "\<exists>ts us e. poised p scope s ts us e d1" using drive_turn_poised[of p scope s ts us e d0 h n] t by simp
    ultimately show ?thesis by (simp add: I_def)
  qed
  have "I d" using assms(2,3) by (auto simp: I_def)
  then have "\<exists>d1. I d1 \<and> drive_turn p h scope n d1 = (case Inl De_BudgetExhausted of Inl err \<Rightarrow> Te_Stop err d' | Inr step \<Rightarrow> Te_Done step d')"
    by (rule drive_loop_ends[OF assms(1)]) (rule keep)
  then show ?thesis using drive_turn_budget by (fastforce simp: I_def)
qed

section \<open>What is dispatched\<close>

fun is_observed :: "('s, 'r, 'q, 'o) journal_entry \<Rightarrow> bool" where
  "is_observed (Je_Observed turn scope request observation) = True"
| "is_observed _ = False"

definition observed_count :: "('s, 'r, 'q, 'o) journal \<Rightarrow> nat" where
  "observed_count j = length (filter is_observed j)"

text \<open>The dispatches of a call are the observations it adds to the journal.\<close>

definition unaccounted :: "('w, 's, 'r, 'q, 'o) drive \<Rightarrow> u32" where
  "unaccounted d = of_nat (observed_count (dv_journal d)) - dv_dispatched d"

definition turn_drive :: "('w, 's, 'r, 'q, 'o) turn_end \<Rightarrow> ('w, 's, 'r, 'q, 'o) drive" where
  "turn_drive t = (case t of Te_Next d \<Rightarrow> d | Te_Stop err d \<Rightarrow> d | Te_Done step d \<Rightarrow> d)"

lemma end_turn_unaccounted: "unaccounted (turn_drive (end_turn step d)) = unaccounted d"
  by (cases step) (simp_all add: end_turn_def turn_drive_def unaccounted_def)

lemma drive_turn_unaccounted: "unaccounted (turn_drive (drive_turn p h scope n d)) = unaccounted d"
proof -
  have stop: "unaccounted (turn_drive (Te_Stop err d')) = unaccounted d'" for err d'
    by (simp add: turn_drive_def)
  have record_step: "unaccounted (turn_drive (record_step p scope observation d')) = unaccounted d'" for observation d'
    by (simp add: record_step_def Let_def end_turn_unaccounted) (simp add: unaccounted_def observed_count_def)
  have fresh: "unaccounted (turn_drive (fresh_turn p h scope d')) = unaccounted d'" for d'
    by (auto simp: fresh_turn_def Let_def record_step stop split: option.split prod.split sum.split)
       (simp_all add: unaccounted_def observed_count_def)
  have replay: "unaccounted (turn_drive (replay_turn p request observation step next_cursor d')) = unaccounted d'"
    for request observation step next_cursor d'
    by (simp add: replay_turn_def stop end_turn_unaccounted) (simp add: unaccounted_def)
  have world: "unaccounted (d\<lparr>dv_world := w\<rparr>) = unaccounted d" for w by (simp add: unaccounted_def)
  show ?thesis
    by (simp add: drive_turn_def Let_def stop fresh replay world split: prod.split bool.split recorded.split)
qed

lemma drive_loop_unaccounted: "drive_loop p h scope n d = (r, d') \<Longrightarrow> unaccounted d' = unaccounted d"
proof -
  assume loop: "drive_loop p h scope n d = (r, d')"
  have keep: "unaccounted d1 = unaccounted d" if "unaccounted d0 = unaccounted d" "drive_turn p h scope n d0 = Te_Next d1"
    for d0 d1 using drive_turn_unaccounted[of p h scope n d0] that by (simp add: turn_drive_def)
  obtain d1 where "unaccounted d1 = unaccounted d"
    "drive_turn p h scope n d1 = (case r of Inl err \<Rightarrow> Te_Stop err d' | Inr step \<Rightarrow> Te_Done step d')"
    using drive_loop_ends[OF loop, of "\<lambda>d1. unaccounted d1 = unaccounted d"] keep by blast
  then show ?thesis
    using drive_turn_unaccounted[of p h scope n d1] by (cases r) (simp_all add: turn_drive_def)
qed

section \<open>Interruption\<close>

text \<open>A driver stopped by its limit, and the same journal replayed up to it by a new call.\<close>

lemma replay_to_interruption:
  fixes d :: "('w, 's, 'r, 'q, 'o) drive"
  assumes h: "never_cancels h" and d: "poised p scope s ts us e d" and n: "dv_turn d \<le> n"
  shows "\<exists>d'. drive_loop p h scope n (rx_start s (dv_journal d) (dv_world d)) = drive_loop p h scope n d'
     \<and> d = shift (dv_dispatched d) d'"
proof -
  have k: "kept p scope s (ts @ us) e" and j: "dv_journal d = journal_of scope (ts @ us) e"
    using d by (simp_all add: poised_def)
  have start: "poised p scope s [] (ts @ us) e (rx_start s (dv_journal d) (dv_world d))"
    using start_poised[OF k] by (simp add: j)
  have "length ([] @ ts) \<le> unat n" using n poised_length[OF d] by (simp add: word_le_nat_alt)
  from replay_loop[OF h start this] obtain d' where d':
    "drive_loop p h scope n (rx_start s (dv_journal d) (dv_world d)) = drive_loop p h scope n d'"
    "poised p scope s ts us e d'" "dv_world d' = dv_world d" "dv_dispatched d' = 0" by (auto simp: rx_start_def)
  have "d = shift (dv_dispatched d) d'"
    using d d'(2,3,4) by (cases d; cases d') (simp add: poised_def shift_def)
  then show ?thesis using d'(1) by blast
qed

text \<open>The dispatches of the whole call are those before the interruption and those after it.\<close>

definition with_dispatched ::
  "u32 \<Rightarrow> (driver_error, ('s, 'r, 'c) rx_outcome) res \<Rightarrow> (driver_error, ('s, 'r, 'c) rx_outcome) res" where
  "with_dispatched k result =
     (case result of Ok x \<Rightarrow> Ok (x\<lparr>ro_dispatched := ro_dispatched x + k\<rparr>) | Err err \<Rightarrow> Err err | Panic \<Rightarrow> Panic)"

definition rx_finish ::
  "('s, 'r, 'q, 'o, 'c) rx_program \<Rightarrow> ('w, 'q, 'o, 'c) rx_host
     \<Rightarrow> (driver_error + ('s, 'r) rx_step) \<times> ('w, 's, 'r, 'q, 'o) drive
     \<Rightarrow> (driver_error, ('s, 'r, 'c) rx_outcome) res \<times> ('s, 'r, 'q, 'o) journal \<times> 'w" where
  "rx_finish p h stopped =
     (case stopped of
        (Inl e, d) \<Rightarrow> (Err e, dv_journal d, dv_world d)
      | (Inr step, d) \<Rightarrow>
          (case rx_cleanup p h step (dv_state d) (dv_world d) of
             (results, w') \<Rightarrow>
               (Ok \<lparr>ro_terminal = step, ro_cleanup = results, ro_dispatched = dv_dispatched d\<rparr>, dv_journal d, w')))"

lemma resume_finish: "journal_validate scope j = Ok () \<Longrightarrow>
    rx_resume p h scope j s n w = rx_finish p h (drive_loop p h scope n (rx_start s j w))"
  by (simp add: rx_resume_def rx_finish_def)

lemma finish_shift: "rx_finish p h (map_prod id (shift k) stopped) = map_prod (with_dispatched k) id (rx_finish p h stopped)"
  by (cases stopped) (simp add: rx_finish_def with_dispatched_def shift_def split: sum.split prod.split)

lemma finish_budget: "rx_finish p h stopped = (Err err, j, w) \<Longrightarrow>
    \<exists>d. stopped = (Inl err, d) \<and> dv_journal d = j \<and> dv_world d = w"
  by (auto simp: rx_finish_def split: prod.splits sum.splits)

section \<open>A counting program\<close>

text \<open>
  The program of the tests, cut down: three turns, each asking for its own number, then completion; two
  cleanup operations.  The world counts the dispatches.
\<close>

definition count_program :: "(nat, nat, nat, nat, string) rx_program" where
  "count_program =
     \<lparr>rp_request = (\<lambda>s. if s < 3 then Some s else None),
      rp_transition = (\<lambda>s ob. case ob of None \<Rightarrow> Rx_Complete s | Some _ \<Rightarrow> Rx_Continue (Suc s)),
      rp_cleanup_plan = (\<lambda>_. [''flush_log'', ''close_session''])\<rparr>"

definition count_host :: "(nat, nat, nat, string) rx_host" where
  "count_host =
     \<lparr>rh_dispatch = (\<lambda>q w. (Inr (q * 10), Suc w)), rh_cleanup = (\<lambda>_ w. (Inr (), w)), rh_cancelled = (\<lambda>w. (False, w))\<rparr>"

definition down_host :: "(nat, nat, nat, string) rx_host" where
  "down_host =
     \<lparr>rh_dispatch = (\<lambda>q w. (Inl ''host down'', w)), rh_cleanup = (\<lambda>_ w. (Inr (), w)), rh_cancelled = (\<lambda>w. (False, w))\<rparr>"

definition count_scope :: effect_scope where
  "count_scope = \<lparr>es_program_root = ''root:v1'', es_invocation_id = ''count'', es_policy_epoch = 7\<rparr>"

text \<open>The calls the witnesses make: the journal and the world they leave.\<close>

definition count_call :: "u32 \<Rightarrow> (nat, nat, nat, nat) journal \<times> nat" where
  "count_call n = snd (rx_resume count_program count_host count_scope [] 0 n 0)"

lemma count_never_cancels: "never_cancels count_host" "never_cancels down_host"
  by (simp_all add: never_cancels_def count_host_def down_host_def)

lemma count_call_interrupted:
  "rx_resume count_program count_host count_scope [] 0 2 0 = (Err De_BudgetExhausted, count_call 2)"
  by code_simp

lemma cleanup_ops: "map fst (fst (run_cleanup run cs w)) = cs"
  by (induction cs arbitrary: w) (simp_all split: prod.split, metis fst_conv)

text \<open>
  C5: A computation interrupted by its turn limit is resumed where it stopped: resuming the journal it
  left, in the world it left, gives what the uninterrupted call with the larger limit gives: the same
  terminal step, cleanup results, journal and world, and dispatches that add up.  No effect is dispatched
  twice and none is lost.
\<close>

theorem interrupted_call_resumes:
  assumes "driver_journal p scope s j0" and "never_cancels h" and "m \<le> n"
    and "rx_resume p h scope j0 s m w = (Err De_BudgetExhausted, j, w1)"
  shows "rx_resume p h scope j0 s n w =
     map_prod (with_dispatched (of_nat (observed_count j) - of_nat (observed_count j0))) id (rx_resume p h scope j s n w1)"
proof -
  obtain ts e where k: "kept p scope s ts e" and j0: "j0 = journal_of scope ts e"
    using assms(1) by (auto simp: driver_journal_def)
  have valid: "journal_validate scope j0 = Ok ()" "journal_validate scope j = Ok ()"
    by (rule driver_journal_valid[OF assms(1)], rule driver_journal_valid[OF conjunct1[OF resume_kept[OF assms(1,4)]]])
  obtain d where d: "drive_loop p h scope m (rx_start s j0 w) = (Inl De_BudgetExhausted, d)" "dv_journal d = j" "dv_world d = w1"
    using finish_budget assms(4) valid by (fastforce simp: resume_finish)
  have start: "poised p scope s [] ts e (rx_start s j0 w)" "dv_turn (rx_start s j0 w) \<le> m"
    using start_poised[OF k] by (simp_all add: j0 rx_start_def)
  obtain ts' us e' where d': "poised p scope s ts' us e' d" and "dv_turn d \<le> n"
    using drive_loop_budget[OF d(1) start] assms(3) by fastforce
  then obtain d1 where d1: "drive_loop p h scope n (rx_start s j w1) = drive_loop p h scope n d1"
    "d = shift (dv_dispatched d) d1"
    using replay_to_interruption[OF assms(2) d'] d by blast
  have "unaccounted d = unaccounted (rx_start s j0 w)" by (rule drive_loop_unaccounted[OF d(1)])
  then have sum: "dv_dispatched d = of_nat (observed_count j) - of_nat (observed_count j0)"
    using d(2) by (simp add: unaccounted_def rx_start_def algebra_simps)
  have "drive_loop p h scope n (rx_start s j0 w) = drive_loop p h scope n (shift (dv_dispatched d) d1)"
    using drive_loop_limit[OF d(1) assms(3)] d1(2) by simp
  also have "\<dots> = map_prod id (shift (dv_dispatched d)) (drive_loop p h scope n (rx_start s j w1))"
    by (simp only: drive_loop_shift d1(1))
  finally show ?thesis using valid by (simp only: resume_finish finish_shift sum)
qed

theorem interrupted_call_resumes_witness:
  "rx_resume count_program count_host count_scope [] 0 9 0 =
     map_prod (with_dispatched (of_nat (observed_count (fst (count_call 2))) - of_nat (observed_count (fst (count_call 0))))) id
       (rx_resume count_program count_host count_scope (fst (count_call 2)) 0 9 2)
   \<and> observed_count (fst (count_call 2)) = 2"
proof -
  have call: "count_call 2 = (fst (count_call 2), 2)" "fst (count_call 0) = []" "observed_count (fst (count_call 2)) = 2"
    by code_simp+
  have "rx_resume count_program count_host count_scope [] 0 2 0 = (Err De_BudgetExhausted, fst (count_call 2), 2)"
    using count_call_interrupted call(1) by simp
  from interrupted_call_resumes[OF driver_journal_empty count_never_cancels(1) _ this, of 9] show ?thesis
    by (simp add: call(2,3))
qed

section \<open>Replay\<close>

text \<open>
  C24: Resuming a finished computation repeats nothing: whatever the world, and whatever the effect handler
  would answer, it returns the same terminal step and the same journal, dispatches nothing, and runs
  the same cleanup operations in the same order.
\<close>

theorem finished_call_replays:
  assumes "driver_journal p scope s j0" and "never_cancels h'" and "n \<le> n'"
    and "rx_resume p h scope j0 s n w = (Ok x, j, w1)"
  shows "\<exists>x' w3. rx_resume p h' scope j s n' w2 = (Ok x', j, w3) \<and> ro_terminal x' = ro_terminal x
     \<and> ro_dispatched x' = 0 \<and> map fst (ro_cleanup x') = map fst (ro_cleanup x)"
proof -
  obtain ts e where k: "kept p scope s ts e" and j0: "j0 = journal_of scope ts e"
    using assms(1) by (auto simp: driver_journal_def)
  have valid: "journal_validate scope j0 = Ok ()" "journal_validate scope j = Ok ()"
    by (rule driver_journal_valid[OF assms(1)], rule driver_journal_valid[OF conjunct1[OF resume_kept[OF assms(1,4)]]])
  obtain d where d: "drive_loop p h scope n (rx_start s j0 w) = (Inr (ro_terminal x), d)" "dv_journal d = j"
    "fst (rx_cleanup p h (ro_terminal x) (dv_state d) (dv_world d)) = ro_cleanup x"
    using assms(4) valid by (auto simp: resume_finish rx_finish_def split: prod.splits sum.splits)
  obtain ts' effect where k': "kept p scope s ts' (En_Terminal effect (ro_terminal x))"
    "j = journal_of scope ts' (En_Terminal effect (ro_terminal x))" "dv_state d = end_state s ts'" "dv_turn d = of_nat (length ts')"
    using drive_loop_kept[OF start_poised[OF k, of w], of h n] d(1,2) by (auto simp: j0)
  have "length ts' < unat n'"
    using drive_loop_Done[OF d(1)] assms(3) k' by (simp add: word_less_nat_alt word_le_nat_alt kept_def unat_word_of_nat)
  from replay_terminal[OF k'(1) assms(2) this, of w2] obtain d2 where
    d2: "drive_loop p h' scope n' (rx_start s j w2) = (Inr (ro_terminal x), d2)"
      "dv_state d2 = end_state s ts'" "dv_dispatched d2 = 0" "dv_journal d2 = j"
    by (auto simp: k'(2))
  have "map fst (fst (rx_cleanup p h' (ro_terminal x) s' w')) = map fst (fst (rx_cleanup p h (ro_terminal x) s' w''))"
    for s' w' w'' by (simp add: rx_cleanup_def cleanup_ops split: rx_step.split)
  then show ?thesis
    using d d2 k'(3) valid by (simp add: resume_finish rx_finish_def split: prod.split) (metis fst_conv)
qed

theorem finished_call_replays_witness:
  "\<exists>x' w3. rx_resume count_program down_host count_scope (fst (count_call 9)) 0 9 5 = (Ok x', fst (count_call 9), w3)
     \<and> ro_terminal x' = Rx_Complete 3 \<and> ro_dispatched x' = 0
     \<and> map fst (ro_cleanup x') = [''flush_log'', ''close_session'']"
proof -
  have "rx_resume count_program count_host count_scope [] 0 9 0 =
      (Ok \<lparr>ro_terminal = Rx_Complete 3, ro_cleanup = [(''flush_log'', Inr ()), (''close_session'', Inr ())],
          ro_dispatched = 3\<rparr>, fst (count_call 9), 3)"
    by code_simp
  from finished_call_replays[OF driver_journal_empty count_never_cancels(2) _ this, of 9 5] show ?thesis by simp
qed

text \<open>
  C36: A failed dispatch is final for its journal: every later call on it reports the same failure, leaves the
  journal and the world as they are, and never contacts the handler.
\<close>

theorem failed_call_replays:
  assumes "driver_journal p scope s j0" and "never_cancels h'" and "n \<le> n'"
    and "rx_resume p h scope j0 s n w = (Err (De_HandlerFailed turn reason), j, w1)"
  shows "rx_resume p h' scope j s n' w2 = (Err (De_HandlerFailed turn reason), j, w2)"
proof -
  obtain ts e where k: "kept p scope s ts e" and j0: "j0 = journal_of scope ts e"
    using assms(1) by (auto simp: driver_journal_def)
  have valid: "journal_validate scope j0 = Ok ()" "journal_validate scope j = Ok ()"
    by (rule driver_journal_valid[OF assms(1)], rule driver_journal_valid[OF conjunct1[OF resume_kept[OF assms(1,4)]]])
  obtain d where d: "drive_loop p h scope n (rx_start s j0 w) = (Inl (De_HandlerFailed turn reason), d)" "dv_journal d = j"
    using assms(4) valid finish_budget by (fastforce simp: resume_finish)
  obtain ts' request where k': "kept p scope s ts' (En_Failed request reason)"
    "j = journal_of scope ts' (En_Failed request reason)" "turn = of_nat (length ts')"
    using drive_loop_kept[OF start_poised[OF k, of w], of h n] d by (auto simp: j0)
  have "length ts' < unat n'"
    using drive_loop_failed[OF d(1)] assms(3) k' by (simp add: word_less_nat_alt word_le_nat_alt kept_def unat_word_of_nat)
  from replay_failed[OF k'(1) assms(2) this, of w2] show ?thesis
    using valid k' by (auto simp: resume_finish rx_finish_def)
qed

theorem failed_call_replays_witness:
  "rx_resume count_program count_host count_scope
       [Je_Intent 0 count_scope 0, Je_ObservationFailed 0 count_scope 0 ''host down''] 0 9 5 =
     (Err (De_HandlerFailed 0 ''host down''), [Je_Intent 0 count_scope 0, Je_ObservationFailed 0 count_scope 0 ''host down''], 5)"
proof -
  have "rx_resume count_program down_host count_scope [] 0 9 0 =
      (Err (De_HandlerFailed 0 ''host down''),
       [Je_Intent 0 count_scope 0, Je_ObservationFailed 0 count_scope 0 ''host down''], 0)"
    by code_simp
  from failed_call_replays[OF driver_journal_empty count_never_cancels(1) _ this, of 9 5] show ?thesis by simp
qed

section \<open>Any sequence of calls\<close>

text \<open>The journal and the world after one call, with any host and any limit.\<close>

definition rx_call ::
  "('s, 'r, 'q, 'o, 'c) rx_program \<Rightarrow> effect_scope \<Rightarrow> 's \<Rightarrow> ('s, 'r, 'q, 'o) journal \<times> 'w
     \<Rightarrow> ('w, 'q, 'o, 'c) rx_host \<times> u32 \<Rightarrow> ('s, 'r, 'q, 'o) journal \<times> 'w" where
  "rx_call p scope s jw call = snd (rx_resume p (fst call) scope (fst jw) s (snd call) (snd jw))"

lemma rx_call_kept: "driver_journal p scope s (fst jw) \<Longrightarrow> driver_journal p scope s (fst (rx_call p scope s jw call))"
proof -
  assume j: "driver_journal p scope s (fst jw)"
  obtain result j' w' where call: "rx_resume p (fst call) scope (fst jw) s (snd call) (snd jw) = (result, j', w')"
    by (cases "rx_resume p (fst call) scope (fst jw) s (snd call) (snd jw)")
  show ?thesis using resume_kept[OF j call] by (simp add: rx_call_def call)
qed

interpretation effects: invariant_machine "rx_call p scope s" "\<lambda>jw. driver_journal p scope s (fst jw)" for p scope s
  by unfold_locales (rule rx_call_kept)

definition extends :: "'a list \<Rightarrow> 'a list \<Rightarrow> bool" where
  "extends xs ys \<longleftrightarrow> (\<exists>zs. ys = xs @ zs)"

lemma extends_refl [simp]: "extends xs xs" by (simp add: extends_def)

lemma extends_append [simp]: "extends xs (xs @ ys)" by (simp add: extends_def)

lemma extends_trans: "extends xs ys \<Longrightarrow> extends ys zs \<Longrightarrow> extends xs zs" by (auto simp: extends_def)

lemma drive_turn_extends: "extends (dv_journal d) (dv_journal (turn_drive (drive_turn p h scope n d)))"
proof -
  have end_turn: "dv_journal (turn_drive (end_turn step d')) = dv_journal d'" for step d'
    by (cases step) (simp_all add: end_turn_def turn_drive_def)
  have fresh: "extends (dv_journal d') (dv_journal (turn_drive (fresh_turn p h scope d')))" for d'
    by (auto simp: fresh_turn_def Let_def record_step_def end_turn split: option.split prod.split sum.split)
       (simp_all add: turn_drive_def)
  have replay: "dv_journal (turn_drive (replay_turn p request observation step next_cursor d')) = dv_journal d'"
    for request observation step next_cursor d' by (simp add: replay_turn_def end_turn) (simp add: turn_drive_def)
  have stop: "dv_journal (turn_drive (Te_Stop err d')) = dv_journal d'" for err d' by (simp add: turn_drive_def)
  have world: "extends (dv_journal d) (dv_journal (turn_drive (fresh_turn p h scope (d\<lparr>dv_world := w\<rparr>))))" for w
    using fresh[of "d\<lparr>dv_world := w\<rparr>"] by simp
  show ?thesis
    by (simp add: drive_turn_def Let_def stop world replay split: prod.split bool.split recorded.split)
qed

lemma drive_loop_extends:
  assumes loop: "drive_loop p h scope n d = (r, d')"
  shows "extends (dv_journal d) (dv_journal d')"
proof -
  have keep: "extends (dv_journal d) (dv_journal d1)"
    if "extends (dv_journal d) (dv_journal d0)" "drive_turn p h scope n d0 = Te_Next d1" for d0 d1
    using extends_trans[OF that(1)] drive_turn_extends[of d0 p h scope n] that(2) by (simp add: turn_drive_def)
  obtain d1 where d1: "extends (dv_journal d) (dv_journal d1)"
    "drive_turn p h scope n d1 = (case r of Inl err \<Rightarrow> Te_Stop err d' | Inr step \<Rightarrow> Te_Done step d')"
    using drive_loop_ends[OF loop, of "\<lambda>d1. extends (dv_journal d) (dv_journal d1)"] keep by auto
  have "extends (dv_journal d1) (dv_journal d')"
    using drive_turn_extends[of d1 p h scope n] d1(2) by (cases r) (simp_all add: turn_drive_def)
  then show ?thesis using extends_trans d1(1) by blast
qed

lemma resume_extends: "rx_resume p h scope j s n w = (result, j', w') \<Longrightarrow> extends j j'"
  by (auto simp: rx_resume_def rx_start_def dest!: drive_loop_extends split: res.splits prod.splits sum.splits)

lemma resume_terminal:
  assumes "driver_journal p scope s j" and "rx_resume p h scope j s n w = (Ok x, j', w')"
  shows "rx_is_terminal (ro_terminal x)"
proof -
  obtain ts e where k: "kept p scope s ts e" and j: "j = journal_of scope ts e"
    using assms(1) by (auto simp: driver_journal_def)
  show ?thesis
    using assms(2) drive_loop_kept[OF start_poised[OF k, of w], of h n] driver_journal_valid[OF assms(1)]
    by (auto simp: resume_finish rx_finish_def kept_def j split: prod.splits sum.splits)
qed

lemma resume_after_turn:
  assumes "journal_validate scope j = Ok ()" and "rx_resume p h scope j s n w = (result, j', w')"
  shows "extends (dv_journal (turn_drive (drive_turn p h scope n (rx_start s j w)))) j'"
proof -
  obtain r d where loop: "drive_loop p h scope n (rx_start s j w) = (r, d)" by (cases "drive_loop p h scope n (rx_start s j w)")
  have "dv_journal d = j'"
    using assms loop by (auto simp: resume_finish rx_finish_def split: prod.splits sum.splits)
  moreover have "extends (dv_journal (turn_drive (drive_turn p h scope n (rx_start s j w)))) (dv_journal d)"
    using loop drive_loop_extends[of p h scope n _ r d]
    by (subst (asm) drive_loop.simps) (auto simp: turn_drive_def split: turn_end.splits)
  ultimately show ?thesis by simp
qed

text \<open>
  C18: A program that starts from an empty journal and is resumed any number of times, by any hosts and with any
  limits, always holds a journal that validates; the next call only appends to it, and it never meets a
  drift, a journal error or an overflow: it returns an outcome, or stops for its limit, a
  cancellation or a failed dispatch.
\<close>

theorem journal_stays_resumable:
  assumes "foldl (rx_call p scope s) ([], w0) calls = (j, w)" and "rx_resume p h scope j s n w = (result, j', w')"
  shows "journal_validate scope j = Ok () \<and> journal_validate scope j' = Ok () \<and> (\<exists>es. j' = j @ es)
     \<and> (case result of Ok x \<Rightarrow> rx_is_terminal (ro_terminal x)
        | Err err \<Rightarrow> err = De_BudgetExhausted \<or> err = De_Cancelled \<or> (\<exists>turn reason. err = De_HandlerFailed turn reason)
        | Panic \<Rightarrow> False)"
proof -
  have j: "driver_journal p scope s j"
    using effects.inv_run[of p scope s "([], w0)" calls] assms(1) by (simp add: driver_journal_empty)
  note kept = resume_kept[OF j assms(2)]
  have "rx_is_terminal (ro_terminal x)" if "result = Ok x" for x
    using resume_terminal[OF j, of h n w x j' w'] assms(2) that by simp
  then show ?thesis
    using kept driver_journal_valid[OF j] driver_journal_valid[OF conjunct1[OF kept]] resume_extends[OF assms(2)]
    by (cases result) (auto simp: extends_def)
qed

theorem journal_stays_resumable_witness:
  "journal_validate count_scope (fst (count_call 2)) = Ok ()
   \<and> journal_validate count_scope (fst (snd (rx_resume count_program down_host count_scope (fst (count_call 2)) 0 9 2))) = Ok ()"
proof -
  have "foldl (rx_call count_program count_scope 0) ([], 0) [(count_host, 1), (count_host, 2)] = (fst (count_call 2), 2)"
    by code_simp
  from journal_stays_resumable[OF this, of down_host 9] show ?thesis
    by (cases "rx_resume count_program down_host count_scope (fst (count_call 2)) 0 9 2") auto
qed

section \<open>A turn cut off after its observation\<close>

text \<open>The driver in front of the turns \<open>us\<close>, with entries \<open>tail\<close> of an unfinished turn behind them.\<close>

definition poised_cut ::
  "('s, 'r, 'q, 'o, 'c) rx_program \<Rightarrow> effect_scope \<Rightarrow> 's \<Rightarrow> ('s, 'q, 'o) turns \<Rightarrow> ('s, 'q, 'o) turns
     \<Rightarrow> ('s, 'r, 'q, 'o) journal \<Rightarrow> ('w, 's, 'r, 'q, 'o) drive \<Rightarrow> bool" where
  "poised_cut p scope s ts us tail d \<longleftrightarrow> kept p scope s (ts @ us) En_Open
     \<and> dv_journal d = recorded_turns scope 0 (ts @ us) @ tail
     \<and> dv_state d = end_state s ts \<and> dv_turn d = of_nat (length ts) \<and> dv_cursor d = recorded_length ts"

lemma turn_below: "kept p scope s (ts @ us) e \<Longrightarrow> length ts < unat n \<Longrightarrow> \<not> n \<le> (of_nat (length ts) :: u32)"
  by (simp add: kept_def word_le_nat_alt unat_word_of_nat)

lemma drive_turn_quiet:
  assumes "never_cancels h" and "\<not> n \<le> dv_turn d"
  shows "drive_turn p h scope n d = (case peek_recorded (dv_journal d) (dv_cursor d) (dv_turn d) of
       Rc_Group request observation step next_cursor \<Rightarrow> replay_turn p request observation step next_cursor d
     | Rc_Failure reason \<Rightarrow> Te_Stop (De_HandlerFailed (dv_turn d) reason) d
     | Rc_None \<Rightarrow> fresh_turn p h scope d)"
proof -
  have "rh_cancelled h (dv_world d) = (False, dv_world d)" using assms(1) by (simp add: never_cancels_def)
  then show ?thesis using assms(2) by (simp add: drive_turn_def Let_def) (simp only: same_world)
qed

lemma replay_turn_cut:
  assumes d: "poised_cut p scope s ts ((effect, s') # us) tail d" and h: "never_cancels h" and n: "length ts < unat n"
  shows "\<exists>d1. drive_turn p h scope n d = Te_Next d1 \<and> poised_cut p scope s (ts @ [(effect, s')]) us tail d1
     \<and> dv_world d1 = dv_world d \<and> dv_journal d1 = dv_journal d"
proof -
  have j: "dv_journal d = recorded_turns scope 0 ts @ turn_entries scope (of_nat (length ts)) effect (Rx_Continue s')
      @ recorded_turns scope (of_nat (length ts) + 1) us @ tail"
    and at: "dv_cursor d = recorded_length ts" "dv_turn d = of_nat (length ts)"
    using d by (simp_all add: poised_cut_def recorded_append)
  have peek: "peek_recorded (dv_journal d) (dv_cursor d) (dv_turn d) = Rc_Group (map_option fst effect)
      (map_option snd effect) (Rx_Continue s') (recorded_length (ts @ [(effect, s')]))"
    unfolding j at by (simp add: peek_append peek_turn)
  have takes: "takes p (end_state s ts) effect (Rx_Continue s')"
    using d by (simp add: poised_cut_def kept_def follows_append)
  have "kept p scope s (ts @ (effect, s') # us) En_Open" using d by (simp add: poised_cut_def)
  from turn_below[OF this n] have "\<not> n \<le> dv_turn d" using at(2) by simp
  from drive_turn_quiet[OF h this, of p scope] takes d show ?thesis unfolding peek
    by (auto simp: replay_turn_def takes_def end_turn_def poised_cut_def end_state_append)
qed

lemma replay_loop_cut:
  assumes h: "never_cancels h"
  shows "poised_cut p scope s ts us tail d \<Longrightarrow> length (ts @ us) \<le> unat n \<Longrightarrow>
     \<exists>d'. drive_loop p h scope n d = drive_loop p h scope n d' \<and> poised_cut p scope s (ts @ us) [] tail d'
       \<and> dv_world d' = dv_world d \<and> dv_journal d' = dv_journal d"
proof (induction us arbitrary: ts d)
  case Nil
  then show ?case by (intro exI[of _ d]) simp
next
  case (Cons t us)
  obtain effect s' where t: "t = (effect, s')" by (cases t)
  from replay_turn_cut[OF Cons.prems(1)[unfolded t] h, of n] Cons.prems(2) obtain d1 where
    d1: "drive_turn p h scope n d = Te_Next d1" "poised_cut p scope s (ts @ [(effect, s')]) us tail d1"
    "dv_world d1 = dv_world d" "dv_journal d1 = dv_journal d" by auto
  then have "drive_loop p h scope n d = drive_loop p h scope n d1" by (subst drive_loop.simps) simp
  then show ?case using Cons.IH[OF d1(2)] Cons.prems(2) d1 by (simp add: t)
qed

lemma loop_after_turn:
  "drive_loop p h scope n d = (r, d') \<Longrightarrow> extends (dv_journal (turn_drive (drive_turn p h scope n d))) (dv_journal d')"
  using drive_loop_extends[of p h scope n _ r d']
  by (subst (asm) drive_loop.simps) (auto simp: turn_drive_def split: turn_end.splits)

abbreviation reply_entry :: "u32 \<Rightarrow> effect_scope \<Rightarrow> 'q \<Rightarrow> string + 'o \<Rightarrow> ('s, 'r, 'q, 'o) journal_entry" where
  "reply_entry k scope q reply \<equiv>
     (case reply of Inl reason \<Rightarrow> Je_ObservationFailed k scope q reason | Inr ob \<Rightarrow> Je_Observed k scope q ob)"

text \<open>At the cut, nothing recorded is found, and the effect is dispatched.\<close>

lemma turn_at_cut:
  assumes d: "poised_cut p scope s ts [] [Je_Intent (of_nat (length ts)) scope q, Je_Observed (of_nat (length ts)) scope q ob] d"
    and q: "rp_request p (end_state s ts) = Some q" and h: "never_cancels h" and n: "length ts < unat n"
    and r: "rh_dispatch h q (dv_world d) = (reply, w1)"
  shows "extends (dv_journal d @ [Je_Intent (of_nat (length ts)) scope q, reply_entry (of_nat (length ts)) scope q reply])
     (dv_journal (turn_drive (drive_turn p h scope n d)))"
proof -
  have at: "dv_cursor d = recorded_length ts" "dv_turn d = of_nat (length ts)" "dv_state d = end_state s ts"
    and j: "dv_journal d = recorded_turns scope 0 ts
      @ [Je_Intent (of_nat (length ts)) scope q, Je_Observed (of_nat (length ts)) scope q ob]"
    using d by (simp_all add: poised_cut_def)
  have peek: "peek_recorded (dv_journal d) (dv_cursor d) (dv_turn d) = Rc_None"
    unfolding j at by (simp add: peek_append) (simp add: peek_recorded_def entry_at_def)
  have "\<not> n \<le> dv_turn d" using d n turn_below[of p scope s ts "[]"] by (auto simp: poised_cut_def)
  then have "drive_turn p h scope n d = fresh_turn p h scope d" by (simp add: drive_turn_quiet[OF h] peek)
  then show ?thesis using q r at
    by (cases reply) (auto simp: fresh_turn_def Let_def record_step_def end_turn_def turn_drive_def extends_def split: rx_step.splits)
qed

lemma cut_valid:
  fixes tail :: "('s, 'r, 'q, 'o) journal"
  assumes "kept p scope s ts En_Open"
    and "tail = [Je_Intent (of_nat (length ts)) scope q, Je_Observed (of_nat (length ts)) scope q ob]"
  shows "journal_validate scope (recorded_turns scope 0 ts @ tail) = Ok ()"
    and "journal_validate scope (recorded_turns scope 0 ts @ tail @ Je_Intent (of_nat (length ts)) scope q # es) =
       Err (Jr_OutOfOrder (length (recorded_turns scope 0 ts @ tail)))"
proof -
  have k: "unat (0 :: u32) + length ts < 2 ^ 32" using assms(1) by (simp add: kept_def)
  note check = check_recorded[OF k, where at = 0 and scope = scope]
  show "journal_validate scope (recorded_turns scope 0 ts @ tail) = Ok ()"
    unfolding journal_validate_def journal_check_start_def check assms(2)
    by (simp add: check_entry_def check_observation_def)
  show "journal_validate scope (recorded_turns scope 0 ts @ tail @ Je_Intent (of_nat (length ts)) scope q # es) =
      Err (Jr_OutOfOrder (length (recorded_turns scope 0 ts @ tail)))"
    unfolding journal_validate_def journal_check_start_def check assms(2)
    by (simp add: check_entry_def check_observation_def)
qed

lemma cut_call_extends:
  assumes k: "kept p scope s ts En_Open" and q: "rp_request p (end_state s ts) = Some q" and h: "never_cancels h"
    and n: "length ts < unat n" and r: "rh_dispatch h q w = (reply, w1)"
    and j: "j = recorded_turns scope 0 ts
      @ [Je_Intent (of_nat (length ts)) scope q, Je_Observed (of_nat (length ts)) scope q ob]"
    and loop: "drive_loop p h scope n (rx_start s j w) = (result, d')"
  shows "extends (j @ [Je_Intent (of_nat (length ts)) scope q, reply_entry (of_nat (length ts)) scope q reply]) (dv_journal d')"
proof -
  have "poised_cut p scope s [] ts [Je_Intent (of_nat (length ts)) scope q, Je_Observed (of_nat (length ts)) scope q ob]
      (rx_start s j w)" using k by (simp add: poised_cut_def rx_start_def j)
  from replay_loop_cut[OF h this, of n] n obtain d where
    d: "drive_loop p h scope n (rx_start s j w) = drive_loop p h scope n d" "poised_cut p scope s ts []
      [Je_Intent (of_nat (length ts)) scope q, Je_Observed (of_nat (length ts)) scope q ob] d"
    "dv_world d = w" "dv_journal d = j" by (auto simp: rx_start_def)
  from turn_at_cut[OF d(2) q h n] r d(3,4) have
    "extends (j @ [Je_Intent (of_nat (length ts)) scope q, reply_entry (of_nat (length ts)) scope q reply])
      (dv_journal (turn_drive (drive_turn p h scope n d)))" by simp
  then show ?thesis using loop_after_turn[of p h scope n d result d'] loop d(1) extends_trans by fastforce
qed

text \<open>
  C38: A journal cut off between an observation and its transition, behind any number of finished turns, is
  accepted, but its observation is not reused: a call that may take that turn replays the finished turns and
  dispatches the effect a second time, records the second attempt behind the first, and the journal this leaves is
  never accepted again, at the entry of the second attempt.
\<close>

theorem cut_turn_dispatched_again:
  assumes "kept p scope s ts En_Open" and "rp_request p (end_state s ts) = Some q" and "never_cancels h"
    and "length ts < unat n" and "rh_dispatch h q w = (reply, w1)" and "k = of_nat (length ts)"
    and "j = recorded_turns scope 0 ts @ [Je_Intent k scope q, Je_Observed k scope q ob]"
    and "rx_resume p h scope j s n w = (result, j', w')"
  shows "journal_validate scope j = Ok ()
     \<and> (\<exists>es. j' = j @ [Je_Intent k scope q, (case reply of Inl reason \<Rightarrow> Je_ObservationFailed k scope q reason
                                                 | Inr ob' \<Rightarrow> Je_Observed k scope q ob')] @ es)
     \<and> journal_validate scope j' = Err (Jr_OutOfOrder (length j))"
proof -
  have valid: "journal_validate scope j = Ok ()" using cut_valid(1)[OF assms(1)] assms(6,7) by blast
  obtain r d' where loop: "drive_loop p h scope n (rx_start s j w) = (r, d')"
    by (cases "drive_loop p h scope n (rx_start s j w)")
  then have "dv_journal d' = j'"
    using assms(8) valid by (auto simp: resume_finish rx_finish_def split: prod.splits sum.splits)
  with cut_call_extends[OF assms(1-5) assms(7)[unfolded assms(6)] loop] have
    "extends (j @ [Je_Intent k scope q, reply_entry k scope q reply]) j'" by (simp only: assms(6))
  then obtain es where j': "j' = j @ [Je_Intent k scope q, reply_entry k scope q reply] @ es"
    unfolding extends_def by (metis append.assoc)
  have "journal_validate scope j' = Err (Jr_OutOfOrder (length j))"
    using cut_valid(2)[OF assms(1) refl, of q ob "reply_entry k scope q reply # es"] j' by (simp add: assms(6,7))
  then show ?thesis using valid j' by blast
qed

text \<open>The first turn of the counting program, and its second turn cut off.\<close>

abbreviation cut_journal :: "(nat, nat, nat, nat) journal" where
  "cut_journal \<equiv> recorded_turns count_scope 0 [(Some (0, 0), 1)]
     @ [Je_Intent 1 count_scope 1, Je_Observed 1 count_scope 1 (7 :: nat)]"

theorem cut_turn_dispatched_again_witness:
  "journal_validate count_scope cut_journal = Ok ()
   \<and> (\<exists>es. fst (snd (rx_resume count_program count_host count_scope cut_journal 0 9 5)) =
        cut_journal @ [Je_Intent 1 count_scope 1, Je_Observed 1 count_scope 1 10] @ es)
   \<and> journal_validate count_scope (fst (snd (rx_resume count_program count_host count_scope cut_journal 0 9 5)))
       = Err (Jr_OutOfOrder 5)"
proof -
  obtain result j' w' where call: "rx_resume count_program count_host count_scope cut_journal 0 9 5 = (result, j', w')"
    by (metis prod_cases3)
  have k: "kept count_program count_scope 0 [(Some (0, 0), 1)] En_Open"
    by (simp add: kept_def takes_def count_program_def)
  have q: "rp_request count_program (end_state 0 [(Some (0, 0), 1)]) = Some 1" by (simp add: count_program_def)
  have r: "rh_dispatch count_host 1 5 = (Inr 10, 6)" by (simp add: count_host_def)
  have turns: "length [(Some (0 :: nat, 0 :: nat), 1 :: nat)] < unat (9 :: u32)"
    "(1 :: u32) = of_nat (length [(Some (0 :: nat, 0 :: nat), 1 :: nat)])" by simp_all
  have len: "length cut_journal = 5" by simp
  from cut_turn_dispatched_again[OF k q count_never_cancels(1) turns(1) r turns(2) refl call] show ?thesis
    unfolding call fst_conv snd_conv sum.case len .
qed

end
