(* ===== verification/Spec2Isabelle.thy ===== *)
theory Spec2Isabelle
  imports LexerRound LexerProps StatusArena ScalarTypes ResolverProps DatabaseContract JobClaims ScopedDemo HostClaims LayoutClaims ArcClaims EffectClaims
begin

text \<open>
  A verification development of semaprax (a language with a certifying front end, in Rust).  It models
  the parts of the program whose behaviour is decided by their own code, as HOL functions over the same
  data, and proves what makes them correct.  File and function names below are those under \<open>src/\<close>.

  \<^bold>\<open>How the code is read.\<close>  A Rust call ends in \<open>Ok\<close>, \<open>Err\<close> or \<open>Panic\<close> (\<open>Prelude.res\<close>): \<open>?\<close> is
  \<open>res_bind\<close>, \<open>expect\<close>, an index and a missing map entry are \<open>Panic\<close>, and so is an overflowing \<open>+\<close>,
  \<open>-\<close> or \<open>*\<close> on a machine integer (the workspace builds with \<open>overflow-checks = true\<close>).  Machine
  integers are words of their width; \<open>checked_\<close> and \<open>saturating_\<close> operations are written out.  A
  \<open>struct\<close> is a record and an \<open>enum\<close> a datatype with the source's constructors (prefixed where they
  clash with the library).  A \<open>String\<close> is its UTF-8 bytes (\<open>Text\<close>).  \<open>BTreeMap\<close> and \<open>BTreeSet\<close> are
  sorted lists (\<open>OrdMap\<close>, locale \<open>ordered_map\<close>), so iteration order is the code's.  \<open>&mut self\<close> is a
  record passed in and returned; a method that fails halfway returns the state it leaves.  Recursion
  on an explicit stack stays recursion on that stack.  SHA-256, the Subject-v2 authenticator and the
  digest of a package catalog are parameters: no property assumes more of them than it states.

  \<^bold>\<open>Parts and theories\<close>, in the order of the imports:

  \<^item> \<^bold>\<open>Shared.\<close>  \<open>Prelude\<close> (results, machine integers, runs of a state machine), \<open>Text\<close> (UTF-8 and
    decimal texts), \<open>OrdMap\<close> (ordered maps and sets), \<open>RustFloat\<close> (the IEEE-754 formats of \<open>f32\<close> and
    \<open>f64\<close>), \<open>Diagnostics\<close> (\<open>ast.rs\<close> \<open>Span\<close>, \<open>diagnostic.rs\<close>).  Two locales carry the reasoning about
    runs: \<open>invariant_machine\<close> (what every step keeps, every run keeps) and \<open>monotone_machine\<close> (what no
    step lowers, no run lowers); every stateful part below interprets them on its own step function.
  \<^item> \<^bold>\<open>Lexer\<close> (\<open>lexer.rs\<close>, all of it; \<open>format.rs\<close> \<open>canonical_char\<close>, \<open>canonical_string\<close>).  \<open>Lexer\<close> has the
    cursor and the token forms, \<open>LexerRun\<close> trivia, \<open>next_token\<close> and \<open>lex\<close>; \<open>FormatLiterals\<close> the texts
    of literals.  \<open>LexerProps\<close>: tokens tile the source and lexing never panics.  \<open>LexerRound\<close>: what the
    formatter writes for a literal, the lexer reads back.
  \<^item> \<^bold>\<open>Statuses\<close> (\<open>cleanup_plan.rs\<close> \<open>StatusCase\<close>, \<open>conformance.rs\<close> \<open>NormalizedStatus\<close>, \<open>runtime_status.rs\<close>
    \<open>StatusArena\<close>).  \<open>Status\<close>, \<open>StatusArena\<close>: statuses cannot be forged, and tokens keep resolving.
  \<^item> \<^bold>\<open>Scalar evaluation\<close> (\<open>interpreter.rs\<close> \<open>combine\<close>, \<open>float_ordered\<close>, the scalar arms of \<open>evaluate\<close>).
    \<open>ScalarEval\<close>: integer operators are exact or fail with the right status, quotient and remainder fit
    together, and \<open>&&\<close> and \<open>||\<close> evaluate in order.  \<open>ScalarTypes\<close>: the typing rules of the operators
    (\<open>hir/validation.rs\<close>), and that evaluation is sound for them.
  \<^item> \<^bold>\<open>Offline package resolver\<close> (\<open>package_resolver.rs\<close> and its directory, \<open>package_range.rs\<close>).
    \<open>PackageSemver\<close> has versions and ranges, \<open>ResolverCatalog\<close> the validated input and the
    authenticated catalog, \<open>ResolverGraph\<close> Kahn's algorithm as coded, \<open>ResolverSolve\<close> the backtracking
    search with its decision budget.  \<open>ResolverCorrect\<close> is the specification (\<open>solution\<close>) with the
    invariant of a branch, \<open>ResolverProps\<close> the composition: a selection is a solution, and if there
    is one the search finds one or stops on a bound.
  \<^item> \<^bold>\<open>Fixtures\<close> (\<open>database_fixture.rs\<close>, \<open>job_fixture.rs\<close>).  \<open>DatabaseFixture\<close> has the tables, the
    transactions and the migrations; \<open>DatabaseContract\<close> an ideal store with durable and pending tables,
    defined without them, and that the fixture refines it.  \<open>JobFixture\<close> has the decision procedures and the store, which runs
    durable completions through the database; \<open>JobProps\<close> and \<open>JobClaims\<close> its invariant, the life cycle
    of a job, the ledger after a completion, backoff and recurrence.
  \<^item> \<^bold>\<open>Scoped tasks\<close> (\<open>scoped_tasks.rs\<close>).  \<open>ScopedTasks\<close> has the model and its validation, \<open>ScopedRun\<close>
    the run.  \<open>ScopedModelProps\<close>, \<open>ScopedModel\<close>: what the constructor certifies.  \<open>ScopedMoves\<close>: the
    steps as a relation.  \<open>ScopedTaskInv\<close>, \<open>ScopedScopeInv\<close>, \<open>ScopedRunInv\<close>: the invariant.
    \<open>ScopedSchedule\<close>, \<open>ScopedTotals\<close>: steps and cancellations in any order, progress, the totals.
    \<open>ScopedClaims\<close>, \<open>ScopedDemo\<close>: the properties and their instances.
  \<^item> \<^bold>\<open>Host ownership ledger\<close> (\<open>host_ownership.rs\<close>).  \<open>HostOwnership\<close> has owners, tokens and plans,
    \<open>HostCalls\<close> the completion of calls.  \<open>HostMoves\<close>: operations as moves of the ledger.  \<open>HostProps\<close>,
    \<open>HostRuns\<close>, \<open>HostClaims\<close>: the invariant, the phases of a token, whole calls whatever the trusted
    code in between does.
  \<^item> \<^bold>\<open>Resolved types and aggregate layouts\<close> (\<open>hir/nodes.rs\<close>, \<open>hir/monomorphize.rs\<close>,
    \<open>aggregate_layout.rs\<close>).  \<open>HirTypes\<close> has types, identity keys and substitution, \<open>AggregateLayout\<close>
    layouts of record instances.  \<open>LayoutSound\<close>: a layout is that of a C structure.  \<open>LayoutTotal\<close>:
    laying out ends.  \<open>LayoutDigest\<close>: what the digest commits to.  \<open>LayoutClaims\<close>: the properties.
  \<^item> \<^bold>\<open>Managed zones\<close> (\<open>arc_zones.rs\<close>).  \<open>ArcZones\<close> has the zone tree and its validation, \<open>ArcRun\<close> the
    operations on objects, \<open>ArcCycles\<close> the zones with the search for cycles, \<open>ArcDrive\<close> the drivers and
    texts.  \<open>ArcTarjan\<close> is the invariant of Tarjan's search over any graph, \<open>ArcSearch\<close> its instance: the
    search returns exactly the live objects on a cycle.  \<open>ArcInv\<close>, \<open>ArcFinal\<close>, \<open>ArcOps\<close>, \<open>ArcSteps\<close>:
    the invariant, kept by finalization, by the operations on objects, by zones and by steps, with the
    order of a drain.  \<open>ArcLog\<close>: the log of a run has the constructions in the order of their numbers.
    \<open>ArcClaims\<close>: exact reference counts, no early and no missing finalization, the exit of a zone.
  \<^item> \<^bold>\<open>Resumable effects\<close> (\<open>resumable_effects/core.rs\<close>).  \<open>EffectJournal\<close> has the journal and its validation,
    \<open>EffectDrive\<close> the driver over a program and a host the caller gives (records of functions; the host acts on
    a world).  \<open>EffectReplay\<close> describes the journals the driver writes and replays them turn by turn.
    \<open>EffectClaims\<close>: an interrupted call is resumed without loss or repetition, a settled one is replayed
    without a dispatch, any sequence of calls leaves a journal that validates, and what a journal cut off
    inside a turn does.

  \<^bold>\<open>How the parts meet.\<close>  Every part reports through \<open>Diagnostics\<close>; statuses flow from the scalar
  operators and the host ledger into the arena; the resolver's ranges are those of the package
  manifests; durable jobs write through the database fixture; the managed zones share the identities
  and the canonical JSON of the scoped tasks; layouts are computed from the resolved types, whose keys
  name the instances.

  \<^bold>\<open>Termination and fuel.\<close>  Loops end by measures on what they consume: the unread source (lexer), the
  slots still open (resolver), the unsettled work (scoped tasks), the live objects (cascades), the
  unseen nodes and unread slots (Tarjan), the unread script (\<open>az_finish_loop\<close>),
  the turns left (\<open>drive_loop\<close>).  The layout functions
  take a fuel, because the program's recursion is over declarations: \<open>layout_for_type_total\<close> shows that
  \<open>layout_fuel\<close>, computed from a finite list of types that contains the field types of its class instances
  and plain records, is enough for the types of the list, and that more fuel changes nothing.  The declared
  field types are such a list when no class has type parameters (\<open>monomorphic_closed\<close>); a generic class needs
  the instances it reaches, and one that contains ever larger instances of itself has none and is
  searched for ever (\<open>growing_never_settles\<close>).  \<open>Panic\<close> stands for running out.

  \<^bold>\<open>Not modelled\<close>, and why:

  \<^item> the parser, the formatter of declarations and expressions, the HIR resolver, the validator beyond the
    typing of operators, cleanup
    and loan plans, the interpreter beyond scalar operators, the workspace and semantic graph:
    passes over the whole expression language, sixty syntax nodes and as many resolved ones.  No part
    of them can be stated without all of these nodes, so a faithful model is a project of its own;
  \<^item> code generation for C and WebAssembly, native settlement: correctness needs the semantics of the
    target;
  \<^item> layouts of variants and the layout cache: they rest on predicates of the resolved program above;
  \<^item> the replay and rendering of resolver evidence, package locks and registries, reports and schemas:
    file formats around the parts modelled here;
  \<^item> the command line, providers, networks, stores and processes: input and output on the machine;
  \<^item> \<open>Display\<close> texts of errors, but for those of the managed zones, and read-only accessors, which are
    the record fields.
\<close>

end
